(* ===== verification/LD_Prelude.thy ===== *)
theory LD_Prelude
  imports Complex_Main "HOL-Library.Word"
begin

text \<open>
  Shared vocabulary of the development: the outcome type of C code that may fail an
  assertion or run into undefined behaviour, the machine integer types with the conversions
  from \<open>double\<close> the sources use, the decimal printers behind \<open>snprintf\<close>, C strings, association
  lists with first-match semantics (cJSON objects and uthash tables are both such lists), and
  the locale that states what a keyed container promises.
\<close>

named_theorems run_simps \<open>unfolding rules for code that may fault\<close>
named_theorems assoc_simps \<open>lookup rules for first-match association lists\<close>

section \<open>Outcomes of C code\<close>

text \<open>
  The library is built with \<open>LAUNCHDARKLY_USE_ASSERT\<close> and \<open>LAUNCHDARKLY_DEFENSIVE\<close>
  (CMakeLists.txt), so a failed \<open>LD_ASSERT\<close> aborts the process and the public JSON
  functions check their arguments. A function that can end that way, dereference
  \<open>NULL\<close>, convert a \<open>double\<close> outside the range of the integer type (undefined
  behaviour), overflow a signed integer, read memory that was never written, use freed memory,
  access memory outside an object, exhaust the C stack or wait for another thread that does not come returns
  \<open>Inl\<close> of the fault; a normal return is \<open>Inr\<close>.
\<close>

datatype fault =
    Assertion | NullPointer | BadConversion | Uninitialised | UseAfterFree | OutOfBounds
  | SignedOverflow | OutOfFuel | Blocked

type_synonym 'a run = "fault + 'a"

fun run_bind :: "'a run \<Rightarrow> ('a \<Rightarrow> 'b run) \<Rightarrow> 'b run" where
  "run_bind (Inl e) f = Inl e"
| "run_bind (Inr x) f = f x"

definition LD_ASSERT :: "bool \<Rightarrow> unit run" where
  "LD_ASSERT c = (if c then Inr () else Inl Assertion)"

text \<open>\<open>returns r\<close>: the call comes back to its caller.\<close>

definition returns :: "'a run \<Rightarrow> bool" where
  "returns r = (case r of Inl _ \<Rightarrow> False | Inr _ \<Rightarrow> True)"

lemma run_bind_Inr_iff [run_simps]:
  "run_bind m f = Inr y \<longleftrightarrow> (\<exists>x. m = Inr x \<and> f x = Inr y)"
  by (cases m) auto

lemma run_bind_Inl_iff:
  "run_bind m f = Inl e \<longleftrightarrow> m = Inl e \<or> (\<exists>x. m = Inr x \<and> f x = Inl e)"
  by (cases m) auto

lemma run_bind_cong [fundef_cong]:
  "m = m' \<Longrightarrow> (\<And>x. m' = Inr x \<Longrightarrow> f x = f' x) \<Longrightarrow> run_bind m f = run_bind m' f'"
  by (cases m') auto

lemma run_bind_assoc: "run_bind (run_bind m f) g = run_bind m (\<lambda>x. run_bind (f x) g)"
  by (cases m) simp_all

text \<open>A call that may return \<open>NULL\<close> or false: the caller returns false at once.\<close>

definition check :: "'a option run \<Rightarrow> ('a \<Rightarrow> 'b option run) \<Rightarrow> 'b option run" where
  "check m f = run_bind m (\<lambda>r. case r of None \<Rightarrow> Inr None | Some x \<Rightarrow> f x)"

lemma check_cong [fundef_cong]:
  "m = m' \<Longrightarrow> (\<And>x. m' = Inr (Some x) \<Longrightarrow> f x = f' x) \<Longrightarrow> check m f = check m' f'"
  by (auto simp: check_def intro!: run_bind_cong split: option.split)

lemma check_simps [simp]:
  "check (Inr (Some x)) f = f x" "check (Inr None) f = Inr None" "check (Inl e) f = Inl e"
  by (simp_all add: check_def)

text \<open>The guard of an early return with failure.\<close>

abbreviation unless :: "bool \<Rightarrow> 'a option run \<Rightarrow> 'a option run" where
  "unless c k \<equiv> (if c then Inr None else k)"

lemma check_assoc: "check (check m f) g = check m (\<lambda>x. check (f x) g)"
  by (auto simp: check_def run_bind_assoc intro!: run_bind_cong split: option.split)

lemma LD_ASSERT_simps [simp]: "LD_ASSERT True = Inr ()" "LD_ASSERT False = Inl Assertion"
  by (simp_all add: LD_ASSERT_def)

lemma LD_ASSERT_Inr [run_simps]: "LD_ASSERT c = Inr u \<longleftrightarrow> c"
  by (simp add: LD_ASSERT_def)

lemma returns_simps [simp]: "returns (Inr x)" "\<not> returns (Inl e)"
  by (simp_all add: returns_def)

lemma returns_iff: "returns r \<longleftrightarrow> (\<exists>x. r = Inr x)"
  by (cases r) auto

lemma check_iff: "check m f = Inr (Some y) \<longleftrightarrow> (\<exists>x. m = Inr (Some x) \<and> f x = Inr (Some y))"
  by (auto simp: check_def run_simps split: option.splits)

lemma unless_iff: "unless c k = Inr (Some y) \<longleftrightarrow> \<not> c \<and> k = Inr (Some y)"
  by simp

lemmas run_iffs = check_iff unless_iff run_bind_Inr_iff

lemma returns_check: "returns m \<Longrightarrow> (\<And>x. m = Inr (Some x) \<Longrightarrow> returns (f x)) \<Longrightarrow> returns (check m f)"
  by (cases m) (auto simp: check_def returns_def split: option.split)

lemma returns_bind: "returns m \<Longrightarrow> (\<And>x. m = Inr x \<Longrightarrow> returns (f x)) \<Longrightarrow> returns (run_bind m f)"
  by (cases m) simp_all

lemma returns_unless: "(\<not> c \<Longrightarrow> returns k) \<Longrightarrow> returns (unless c k)"
  by simp

section \<open>Machine integers\<close>

type_synonym u32 = "32 word"

text \<open>
  C conversions from a finite \<open>double\<close>: truncation towards zero, undefined when the
  truncated value does not fit (C89 6.2.1.3).
\<close>

definition trunc_rat :: "rat \<Rightarrow> int" where
  "trunc_rat x = (if 0 \<le> x then \<lfloor>x\<rfloor> else - \<lfloor>- x\<rfloor>)"

definition double_to_uint :: "rat \<Rightarrow> u32 run" where
  "double_to_uint x =
     (let n = trunc_rat x in
      if 0 \<le> n \<and> n < 2 ^ 32 then Inr (word_of_int n) else Inl BadConversion)"

definition double_to_int :: "rat \<Rightarrow> int run" where
  "double_to_int x =
     (let n = trunc_rat x in
      if - (2 ^ 31) \<le> n \<and> n < 2 ^ 31 then Inr n else Inl BadConversion)"

text \<open>The value of an \<open>unsigned int\<close> converted back to \<open>double\<close>, exactly.\<close>

definition uint_to_double :: "u32 \<Rightarrow> rat" where
  "uint_to_double w = of_int (uint w)"

lemma trunc_rat_of_int [simp]: "trunc_rat (of_int n) = n"
  by (simp add: trunc_rat_def flip: of_int_minus)

lemma trunc_rat_numeral [simp]:
  "trunc_rat 0 = 0" "trunc_rat 1 = 1" "trunc_rat (numeral n) = numeral n"
  "trunc_rat (- 1) = - 1" "trunc_rat (- numeral n) = - numeral n"
  by (simp_all add: trunc_rat_def)

lemma trunc_uint_to_double [simp]: "trunc_rat (uint_to_double w) = uint w"
  unfolding uint_to_double_def by (rule trunc_rat_of_int)

lemma double_to_uint_of_uint [simp]: "double_to_uint (uint_to_double w) = Inr w"
  using uint_lt2p [of w] by (simp add: double_to_uint_def)

lemma double_to_uint_Inr:
  "double_to_uint x = Inr w \<Longrightarrow> uint w = trunc_rat x"
  by (auto simp: double_to_uint_def Let_def uint_word_of_int split: if_splits)

section \<open>Decimal printing\<close>

text \<open>The decimal digits \<open>printf\<close> writes for an unsigned value.\<close>

fun show_nat :: "nat \<Rightarrow> string" where
  "show_nat n =
     (if n < 10 then [char_of (48 + n)] else show_nat (n div 10) @ [char_of (48 + n mod 10)])"

declare show_nat.simps [simp del]

definition show_int :: "int \<Rightarrow> string" where
  "show_int n = (if n < 0 then ''-'' @ show_nat (nat (- n)) else show_nat (nat n))"

definition pad6 :: "nat \<Rightarrow> string" where
  "pad6 n = map (\<lambda>d. char_of (48 + (n div 10 ^ d) mod 10)) [5, 4, 3, 2, 1, 0]"

text \<open>Round half to even, the IEEE default and what \<open>printf\<close> uses for \<open>%f\<close>.\<close>

definition round_even :: "rat \<Rightarrow> int" where
  "round_even y =
     (let f = \<lfloor>y\<rfloor>; d = y - of_int f in
      if d < 1 / 2 then f else if 1 / 2 < d then f + 1 else if even f then f else f + 1)"

definition printf_f :: "rat \<Rightarrow> string" where
  "printf_f x =
     (let n = nat (round_even (\<bar>x\<bar> * 1000000)) in
      (if x < 0 then ''-'' else '''') @ show_nat (n div 1000000) @ ''.'' @
      pad6 (n mod 1000000))"

section \<open>C strings\<close>

text \<open>The C string that starts a piece of memory: up to the first NUL.\<close>

definition cstr :: "string \<Rightarrow> string" where
  "cstr bytes = takeWhile (\<lambda>c. c \<noteq> CHR 0x00) bytes"

lemma cstr_id: "CHR 0x00 \<notin> set l \<Longrightarrow> cstr l = l"
  by (auto simp: cstr_def takeWhile_eq_all_conv)

lemma cstr_append: "CHR 0x00 \<notin> set s \<Longrightarrow> cstr (s @ CHR 0x00 # rest) = s"
  by (induction s) (auto simp: cstr_def)

lemma cstr_nul [simp]: "CHR 0x00 \<notin> set (cstr s)"
  by (auto simp: cstr_def dest: set_takeWhileD)

section \<open>Association lists with first-match semantics\<close>

text \<open>
  A cJSON object is a linked list of named children searched from the front; a uthash bucket
  is searched from the most recently added element. Both can hold a key twice.
  \<open>assoc_delete\<close> removes the entry a search would find, and only that one.
\<close>

fun assoc_delete :: "'k \<Rightarrow> ('k \<times> 'v) list \<Rightarrow> ('k \<times> 'v) list" where
  "assoc_delete k [] = []"
| "assoc_delete k (p # ps) = (if fst p = k then ps else p # assoc_delete k ps)"

abbreviation unique_keys :: "('k \<times> 'v) list \<Rightarrow> bool" where
  "unique_keys ps \<equiv> distinct (map fst ps)"

lemma set_assoc_delete_subset: "set (assoc_delete k ps) \<subseteq> set ps"
  by (induction ps) auto

lemma keys_assoc_delete_subset: "fst ` set (assoc_delete k ps) \<subseteq> fst ` set ps"
  by (rule image_mono) (rule set_assoc_delete_subset)

lemma unique_assoc_delete [simp]: "unique_keys ps \<Longrightarrow> unique_keys (assoc_delete k ps)"
proof (induction ps)
  case (Cons p ps)
  then show ?case using keys_assoc_delete_subset [of k ps] by auto
qed simp

lemma map_of_assoc_delete_other [assoc_simps]:
  "k' \<noteq> k \<Longrightarrow> map_of (assoc_delete k ps) k' = map_of ps k'"
  by (induction ps) auto

lemma map_of_assoc_delete_same [assoc_simps]:
  "unique_keys ps \<Longrightarrow> map_of (assoc_delete k ps) k = None"
  by (induction ps) (auto simp: map_of_eq_None_iff)

lemma assoc_delete_absent [simp]: "k \<notin> fst ` set ps \<Longrightarrow> assoc_delete k ps = ps"
  by (induction ps) auto

lemma keys_assoc_delete: "unique_keys ps \<Longrightarrow> fst ` set (assoc_delete k ps) = fst ` set ps - {k}"
  by (induction ps) (auto simp: image_iff)

lemma map_of_snoc: "map_of (ps @ [(k, v)]) k' =
  (case map_of ps k' of None \<Rightarrow> if k' = k then Some v else None | Some x \<Rightarrow> Some x)"
  by (auto simp: map_add_def split: option.split)

lemma map_of_assoc_set [simp]:
  "unique_keys ps \<Longrightarrow> [k \<mapsto> v] ++ map_of (assoc_delete k ps) = (map_of ps)(k \<mapsto> v)"
  by (rule ext) (auto simp: map_add_def assoc_simps split: option.split)

section \<open>The contract of a keyed container\<close>

text \<open>
  Both containers of the program keep this contract: objects of json.c (lookup, set, delete)
  and the cache table of store.c (find, add after removal, delete). The invariant
  \<open>ok\<close> is what a caller may rely on between calls.
\<close>

locale keyed_container =
  fixes ok :: "'c \<Rightarrow> bool"
    and find :: "'c \<Rightarrow> 'k \<Rightarrow> 'v option"
    and put :: "'c \<Rightarrow> 'k \<Rightarrow> 'v \<Rightarrow> 'c"
    and del :: "'c \<Rightarrow> 'k \<Rightarrow> 'c"
  assumes ok_put: "ok c \<Longrightarrow> ok (put c k v)"
    and ok_del: "ok c \<Longrightarrow> ok (del c k)"
    and find_put: "ok c \<Longrightarrow> find (put c k v) k' = (if k' = k then Some v else find c k')"
    and find_del: "ok c \<Longrightarrow> find (del c k) k' = (if k' = k then None else find c k')"
begin

lemma find_put_put:
  "ok c \<Longrightarrow> find (put (put c k v) k w) k' = find (put c k w) k'"
  by (simp add: find_put ok_put)

lemma find_put_commute:
  "ok c \<Longrightarrow> k \<noteq> l \<Longrightarrow> find (put (put c k v) l w) k' = find (put (put c l w) k v) k'"
  by (simp add: find_put ok_put)

lemma find_del_put:
  "ok c \<Longrightarrow> find (del (put c k v) k) k' = find (del c k) k'"
  by (simp add: find_put find_del ok_put)

lemma ok_put_all: "ok c \<Longrightarrow> ok (fold (\<lambda>(k, v) c. put c k v) kvs c)"
  by (induction kvs arbitrary: c) (auto simp: ok_put)

lemma find_put_all:
  "ok c \<Longrightarrow> find (fold (\<lambda>(k, v) c. put c k v) kvs c) k =
     (case map_of (rev kvs) k of None \<Rightarrow> find c k | Some v \<Rightarrow> Some v)"
proof (induction kvs arbitrary: c)
  case (Cons kv kvs)
  then show ?case
    by (cases kv) (auto simp: ok_put find_put map_add_def split: option.splits)
qed simp

end

end
