(* ===== verification/LD_SHA1.thy ===== *)
theory LD_SHA1
  imports LD_Prelude
begin

unbundle bit_operations_syntax

text \<open>
  src/third-party/src/sha1.c and hexify.c: the digest that assigns users to buckets. The
  context of the streaming digest is a record; a byte is an \<open>8 word\<close>, the working variables
  are 32-bit words, so every addition wraps as in C. The code is modelled in its little-endian
  configuration, where \<open>blk0\<close> swaps the bytes of a word it loads.

  Against it stands the definition of FIPS 180-1: padding, message schedule, compression of
  block after block. The main lemma is that the byte-at-a-time code with its circular
  16-word schedule and its buffer computes that function.
\<close>

type_synonym byte = "8 word"

section \<open>The code\<close>

definition rol :: "u32 \<Rightarrow> nat \<Rightarrow> u32" where
  "rol value bits = (push_bit bits value) OR (drop_bit (32 - bits) value)"

text \<open>The load of a little-endian machine and the swap of \<open>blk0\<close>.\<close>

definition load_le :: "byte \<Rightarrow> byte \<Rightarrow> byte \<Rightarrow> byte \<Rightarrow> u32" where
  "load_le b0 b1 b2 b3 = ucast b0 OR push_bit 8 (ucast b1) OR push_bit 16 (ucast b2) OR
     push_bit 24 (ucast b3)"

definition blk0 :: "u32 \<Rightarrow> u32" where
  "blk0 l = (rol l 24 AND 0xFF00FF00) OR (rol l 8 AND 0x00FF00FF)"

definition blk :: "u32 list \<Rightarrow> nat \<Rightarrow> u32" where
  "blk block i = rol (block ! ((i + 13) mod 16) XOR block ! ((i + 8) mod 16) XOR
     block ! ((i + 2) mod 16) XOR block ! (i mod 16)) 1"

type_synonym sha_vars = "u32 \<times> u32 \<times> u32 \<times> u32 \<times> u32"

text \<open>
  A round: the five variables in the roles v, w, x, y, z of the macros. The next round is
  called with the roles rotated, which the result of a round is, too.
\<close>

definition sha_round :: "(u32 \<Rightarrow> u32 \<Rightarrow> u32 \<Rightarrow> u32) \<Rightarrow> u32 \<Rightarrow> u32 \<Rightarrow> sha_vars \<Rightarrow> sha_vars" where
  "sha_round f k b = (\<lambda>(v, w, x, y, z). (z + (f w x y + b + k + rol v 5), v, rol w 30, x, y))"

definition R0 :: "u32 \<Rightarrow> sha_vars \<Rightarrow> sha_vars" where
  "R0 = sha_round (\<lambda>w x y. (w AND (x XOR y)) XOR y) 0x5A827999"

definition R2 :: "u32 \<Rightarrow> sha_vars \<Rightarrow> sha_vars" where
  "R2 = sha_round (\<lambda>w x y. w XOR x XOR y) 0x6ED9EBA1"

definition R3 :: "u32 \<Rightarrow> sha_vars \<Rightarrow> sha_vars" where
  "R3 = sha_round (\<lambda>w x y. ((w OR x) AND y) OR (w AND x)) 0x8F1BBCDC"

definition R4 :: "u32 \<Rightarrow> sha_vars \<Rightarrow> sha_vars" where
  "R4 = sha_round (\<lambda>w x y. w XOR x XOR y) 0xCA62C1D6"

text \<open>The 80 operations: \<open>R1\<close> is \<open>R0\<close> on the expanded word.\<close>

definition sha_step :: "nat \<Rightarrow> sha_vars \<times> u32 list \<Rightarrow> sha_vars \<times> u32 list" where
  "sha_step i = (\<lambda>(vars, block).
     (let b = (if i < 16 then blk0 (block ! i) else blk block i);
          block' = block[i mod 16 := b]
      in ((if i < 20 then R0 b vars
           else if i < 40 then R2 b vars
           else if i < 60 then R3 b vars
           else R4 b vars), block')))"

fun load_block :: "byte list \<Rightarrow> u32 list" where
  "load_block (b0 # b1 # b2 # b3 # bs) = load_le b0 b1 b2 b3 # load_block bs"
| "load_block _ = []"

definition SHA1Transform :: "sha_vars \<Rightarrow> byte list \<Rightarrow> sha_vars" where
  "SHA1Transform state bytes =
     (let (s0, s1, s2, s3, s4) = state;
          (a, b, c, d, e) = fst (fold sha_step [0..<80] (state, load_block bytes))
      in (s0 + a, s1 + b, s2 + c, s3 + d, s4 + e))"

record SHA1_CTX =
  sha_state :: sha_vars
  sha_count0 :: u32
  sha_count1 :: u32
  sha_buffer :: "byte list"

text \<open>The buffer is not initialised; it has some content of its size.\<close>

definition SHA1Init :: "byte list \<Rightarrow> SHA1_CTX" where
  "SHA1Init junk = \<lparr>sha_state = (0x67452301, 0xEFCDAB89, 0x98BADCFE, 0x10325476, 0xC3D2E1F0),
     sha_count0 = 0, sha_count1 = 0, sha_buffer = junk\<rparr>"

definition memcpy_at :: "byte list \<Rightarrow> nat \<Rightarrow> byte list \<Rightarrow> byte list" where
  "memcpy_at dst j src = take j dst @ src @ drop (j + length src) dst"

text \<open>The loop over whole blocks of the data; the rest stays.\<close>

function update_blocks :: "sha_vars \<Rightarrow> byte list \<Rightarrow> sha_vars \<times> byte list" where
  "update_blocks state data =
     (if 64 \<le> length data
      then update_blocks (SHA1Transform state (take 64 data)) (drop 64 data)
      else (state, data))"
  by pat_completeness auto
termination by (relation "measure (\<lambda>(_, data). length data)") auto

declare update_blocks.simps [simp del]

text \<open>
  \<open>SHA1Update\<close>; the length is below \<open>2\<^sup>3\<^sup>2 - 64\<close>, as in every call, so that the
  index computations do not wrap.
\<close>

definition SHA1Update :: "SHA1_CTX \<Rightarrow> byte list \<Rightarrow> SHA1_CTX" where
  "SHA1Update context data =
     (let len = (of_nat (length data) :: u32);
          c0 = sha_count0 context + push_bit 3 len;
          c1 = (if c0 < sha_count0 context then sha_count1 context + 1 else sha_count1 context)
               + drop_bit 29 len;
          j = unat (drop_bit 3 (sha_count0 context) AND 63)
      in if j + length data > 63
         then let i = 64 - j;
                  buf = memcpy_at (sha_buffer context) j (take i data);
                  (state, rest) = update_blocks (SHA1Transform (sha_state context) buf) (drop i data)
              in \<lparr>sha_state = state, sha_count0 = c0, sha_count1 = c1,
                  sha_buffer = memcpy_at buf 0 rest\<rparr>
         else \<lparr>sha_state = sha_state context, sha_count0 = c0, sha_count1 = c1,
               sha_buffer = memcpy_at (sha_buffer context) j data\<rparr>)"

definition word_bytes :: "u32 \<Rightarrow> byte list" where
  "word_bytes w = map (\<lambda>i. ucast (drop_bit ((3 - i) * 8) w AND 255)) [0..<4]"

text \<open>
  The padding loop: a zero byte at a time until the length is 448 bits modulo 512. The
  recursion ends because the loop visits every residue; it carries the 64 iterations the
  residues allow.
\<close>

fun pad_loop :: "nat \<Rightarrow> SHA1_CTX \<Rightarrow> SHA1_CTX option" where
  "pad_loop fuel context =
     (if sha_count0 context AND 504 = 448 then Some context
      else case fuel of 0 \<Rightarrow> None | Suc n \<Rightarrow> pad_loop n (SHA1Update context [0]))"

declare pad_loop.simps [simp del]

definition SHA1Final :: "SHA1_CTX \<Rightarrow> byte list option" where
  "SHA1Final context =
     (let finalcount = word_bytes (sha_count1 context) @ word_bytes (sha_count0 context)
      in case pad_loop 64 (SHA1Update context [0x80]) of
           None \<Rightarrow> None
         | Some padded \<Rightarrow>
             (case sha_state (SHA1Update padded finalcount) of (a, b, c, d, e) \<Rightarrow>
                Some (word_bytes a @ word_bytes b @ word_bytes c @ word_bytes d @ word_bytes e)))"

definition bytes_of :: "string \<Rightarrow> byte list" where
  "bytes_of s = map of_char s"

text \<open>
  \<open>SHA1\<close> of a string, a byte at a time. The padding loop never runs out of its fuel
  (shown below), and the digest does not depend on the buffer's initial content, here zero.
\<close>

definition SHA1 :: "string \<Rightarrow> byte list" where
  "SHA1 str = the (SHA1Final
     (fold (\<lambda>b ctx. SHA1Update ctx [b]) (bytes_of str) (SHA1Init (replicate 64 0))))"

section \<open>Hexadecimal digits\<close>

definition hex_digit :: "byte \<Rightarrow> char" where
  "hex_digit n = ''0123456789abcdef'' ! unat n"

text \<open>\<open>hexify\<close> writes two digits per byte while three characters of the output are free.\<close>

fun hexify_loop :: "byte list \<Rightarrow> nat \<Rightarrow> string" where
  "hexify_loop [] room = []"
| "hexify_loop (b # bs) room =
     (if 3 \<le> room
      then hex_digit (drop_bit 4 (b AND 0xF0)) # hex_digit (b AND 0x0F) # hexify_loop bs (room - 2)
      else [])"

definition hexify :: "byte list \<Rightarrow> nat \<Rightarrow> nat \<times> string" where
  "hexify input out_size =
     (if input = [] \<or> out_size = 0 then (0, [])
      else let out = hexify_loop input out_size in (length out, out))"

section \<open>The reference\<close>

definition be_word :: "byte \<Rightarrow> byte \<Rightarrow> byte \<Rightarrow> byte \<Rightarrow> u32" where
  "be_word b0 b1 b2 b3 =
     push_bit 24 (ucast b0) OR push_bit 16 (ucast b1) OR push_bit 8 (ucast b2) OR ucast b3"

fun be_words :: "byte list \<Rightarrow> u32 list" where
  "be_words (b0 # b1 # b2 # b3 # bs) = be_word b0 b1 b2 b3 # be_words bs"
| "be_words _ = []"

fun schedule :: "u32 list \<Rightarrow> nat \<Rightarrow> u32" where
  "schedule M t =
     (if t < 16 then M ! t
      else rol (schedule M (t - 3) XOR schedule M (t - 8) XOR schedule M (t - 14) XOR
        schedule M (t - 16)) 1)"

declare schedule.simps [simp del]

definition sha_f :: "nat \<Rightarrow> u32 \<Rightarrow> u32 \<Rightarrow> u32 \<Rightarrow> u32" where
  "sha_f t b c d =
     (if t < 20 then (b AND c) OR (NOT b AND d)
      else if t < 40 then b XOR c XOR d
      else if t < 60 then (b AND c) OR (b AND d) OR (c AND d)
      else b XOR c XOR d)"

definition sha_k :: "nat \<Rightarrow> u32" where
  "sha_k t = (if t < 20 then 0x5A827999 else if t < 40 then 0x6ED9EBA1
     else if t < 60 then 0x8F1BBCDC else 0xCA62C1D6)"

definition ref_step :: "u32 list \<Rightarrow> nat \<Rightarrow> sha_vars \<Rightarrow> sha_vars" where
  "ref_step M t = (\<lambda>(a, b, c, d, e).
     (rol a 5 + sha_f t b c d + e + schedule M t + sha_k t, a, rol b 30, c, d))"

definition compress :: "sha_vars \<Rightarrow> byte list \<Rightarrow> sha_vars" where
  "compress H bytes =
     (let (h0, h1, h2, h3, h4) = H; (a, b, c, d, e) = fold (ref_step (be_words bytes)) [0..<80] H
      in (h0 + a, h1 + b, h2 + c, h3 + d, h4 + e))"

function sha1_blocks :: "sha_vars \<Rightarrow> byte list \<Rightarrow> sha_vars" where
  "sha1_blocks H m =
     (if 64 \<le> length m then sha1_blocks (compress H (take 64 m)) (drop 64 m) else H)"
  by pat_completeness auto
termination by (relation "measure (\<lambda>(_, m). length m)") auto

declare sha1_blocks.simps [simp del]

definition length_bytes :: "nat \<Rightarrow> byte list" where
  "length_bytes bits = map (\<lambda>i. of_nat (bits div 256 ^ (7 - i))) [0..<8]"

definition sha1_pad :: "byte list \<Rightarrow> byte list" where
  "sha1_pad m = m @ [0x80] @ replicate ((119 - length m mod 64) mod 64) 0 @
     length_bytes (8 * length m)"

definition be_bytes :: "u32 \<Rightarrow> byte list" where
  "be_bytes w = map (\<lambda>i. of_nat (unat w div 256 ^ (3 - i))) [0..<4]"

definition sha1_init :: sha_vars where
  "sha1_init = (0x67452301, 0xEFCDAB89, 0x98BADCFE, 0x10325476, 0xC3D2E1F0)"

definition sha1_fips :: "byte list \<Rightarrow> byte list" where
  "sha1_fips m = (case sha1_blocks sha1_init (sha1_pad m) of (a, b, c, d, e) \<Rightarrow>
     be_bytes a @ be_bytes b @ be_bytes c @ be_bytes d @ be_bytes e)"

section \<open>The compression function\<close>

lemma bit_rol: "bit (rol l k) n \<longleftrightarrow> n < 32 \<and> (if k \<le> n then bit l (n - k) else bit l (n + 32 - k))"
  if "k \<le> 32" for l k n
  using that by (auto simp: rol_def bit_simps le_diff_conv2 add.commute dest: bit_imp_le_length)

lemma odd_bytes: "(0xFF00FF00 :: u32) = push_bit 8 (mask 8) OR push_bit 24 (mask 8)"
  by (simp add: mask_eq_exp_minus_1 push_bit_eq_mult)

lemma even_bytes: "(0x00FF00FF :: u32) = mask 8 OR push_bit 16 (mask 8)"
  by (simp add: mask_eq_exp_minus_1 push_bit_eq_mult)

lemma blk0_load: "blk0 (load_le b0 b1 b2 b3) = be_word b0 b1 b2 b3"
proof (rule bit_word_eqI)
  fix n :: nat assume n: "n < LENGTH(32)"
  have high: "\<not> bit b k" if "8 \<le> k" for b :: byte and k
    using that bit_imp_le_length [of b k] by auto
  have m: "bit (0xFF00FF00 :: u32) n \<longleftrightarrow> 8 \<le> n \<and> n < 16 \<or> 24 \<le> n"
       "bit (0x00FF00FF :: u32) n \<longleftrightarrow> n < 8 \<or> 16 \<le> n \<and> n < 24"
    using n by (auto simp: odd_bytes even_bytes bit_simps)
  obtain k where k: "k < 8" "n = k \<or> n = 8 + k \<or> n = 16 + k \<or> n = 24 + k"
  proof
    show "n mod 8 < 8" by simp
    show "n = n mod 8 \<or> n = 8 + n mod 8 \<or> n = 16 + n mod 8 \<or> n = 24 + n mod 8" using n by simp presburger
  qed
  from k(2) show "bit (blk0 (load_le b0 b1 b2 b3)) n = bit (be_word b0 b1 b2 b3) n"
    unfolding blk0_def load_le_def be_word_def bit_or_iff bit_and_iff m
    using k(1)
    by (elim disjE) (simp_all add: bit_rol bit_or_iff bit_push_bit_iff bit_unsigned_iff high)
qed

lemma ch_eq: "((w :: u32) AND (x XOR y)) XOR y = (w AND x) OR (NOT w AND y)"
  by (rule bit_word_eqI) (auto simp: bit_simps)

lemma maj_eq: "(((w :: u32) OR x) AND y) OR (w AND x) = (w AND x) OR (w AND y) OR (x AND y)"
  by (rule bit_word_eqI) (auto simp: bit_simps)

lemma round_eq:
  "(if t < 20 then R0 b vars else if t < 40 then R2 b vars else if t < 60 then R3 b vars
    else R4 b vars) =
   (case vars of (v, w, x, y, z) \<Rightarrow> (rol v 5 + sha_f t w x y + z + b + sha_k t, v, rol w 30, x, y))"
proof -
  have sum: "z + (f + b + k + r) = r + f + z + b + k" for z f k r :: u32 by simp
  show ?thesis
    by (cases vars) (simp add: R0_def R2_def R3_def R4_def sha_round_def sha_f_def sha_k_def
        ch_eq maj_eq sum del: add.assoc)
qed

lemma load_block_be: "length bytes = 4 * n \<Longrightarrow> map blk0 (load_block bytes) = be_words bytes \<and> length (load_block bytes) = n"
proof (induction bytes arbitrary: n rule: load_block.induct)
  case (1 b0 b1 b2 b3 bs)
  from "1.prems" have "length bs = 4 * (n - 1)" "0 < n" by auto
  with "1.IH" show ?case by (auto simp: blk0_load)
qed auto

text \<open>The circular schedule before round \<open>i\<close>.\<close>

definition ring_ok :: "u32 list \<Rightarrow> u32 list \<Rightarrow> nat \<Rightarrow> u32 list \<Rightarrow> bool" where
  "ring_ok raw M i block \<longleftrightarrow> length block = 16 \<and>
     (\<forall>t < i. i \<le> t + 16 \<longrightarrow> block ! (t mod 16) = schedule M t) \<and>
     (\<forall>k < 16. i \<le> k \<longrightarrow> block ! k = raw ! k)"

lemma ring_step:
  assumes ring: "ring_ok raw M i block" and M: "\<And>k. k < 16 \<Longrightarrow> blk0 (raw ! k) = M ! k"
  shows "(if i < 16 then blk0 (block ! i) else blk block i) = schedule M i"
    and "ring_ok raw M (Suc i) (block[i mod 16 := schedule M i])"
proof -
  show "(if i < 16 then blk0 (block ! i) else blk block i) = schedule M i"
  proof (cases "i < 16")
    case True
    with ring M show ?thesis by (subst schedule.simps) (simp add: ring_ok_def)
  next
    case False
    then obtain j where j: "i = j + 16" by (metis add.commute le_Suc_ex not_less)
    have "block ! (t mod 16) = schedule M t" if "t < i" "i \<le> t + 16" for t
      using ring that by (simp add: ring_ok_def)
    note t = this
    have m: "(j + 16 + a) mod 16 = (j + a) mod 16" for a
      by (metis add.assoc add.commute mod_add_self2)
    from m [of 13] m [of 8] m [of 2] m [of 0] have "blk block i = rol (schedule M (j + 13) XOR schedule M (j + 8) XOR
        schedule M (j + 2) XOR schedule M j) 1"
      unfolding blk_def j using t [of "j + 13"] t [of "j + 8"] t [of "j + 2"] t [of j]
      by (simp only: j add_0_right)
    moreover have "i - 3 = j + 13" "i - 8 = j + 8" "i - 14 = j + 2" "i - 16 = j" by (simp_all add: j)
    ultimately show ?thesis using False by (subst schedule.simps) simp
  qed
  have neq: "t mod 16 \<noteq> i mod 16" if "t < i" "i < t + 16" for t
  proof
    assume "t mod 16 = i mod 16"
    then have "16 dvd i - t" using that by (metis mod_eq_dvd_iff_nat less_imp_le)
    with that show False by (auto dest: dvd_imp_le)
  qed
  show "ring_ok raw M (Suc i) (block[i mod 16 := schedule M i])"
    unfolding ring_ok_def
  proof (intro conjI allI impI)
    show "length (block[i mod 16 := schedule M i]) = 16" using ring by (simp add: ring_ok_def)
    fix t assume t: "t < Suc i" "Suc i \<le> t + 16"
    show "block[i mod 16 := schedule M i] ! (t mod 16) = schedule M t"
      using ring t neq [of t] by (cases "t = i") (auto simp: ring_ok_def nth_list_update)
  next
    fix k :: nat assume k: "k < 16" "Suc i \<le> k"
    with ring show "block[i mod 16 := schedule M i] ! k = raw ! k"
      by (auto simp: ring_ok_def nth_list_update)
  qed
qed

lemma rounds_eq:
  assumes M: "\<And>k. k < 16 \<Longrightarrow> blk0 (raw ! k) = M ! k" and len: "length raw = 16"
  shows "\<exists>block. fold sha_step [0..<n] (H, raw) = (fold (ref_step M) [0..<n] H, block) \<and>
    ring_ok raw M n block"
proof (induction n)
  case 0
  then show ?case by (simp add: ring_ok_def len)
next
  case (Suc n)
  then obtain block where b: "fold sha_step [0..<n] (H, raw) = (fold (ref_step M) [0..<n] H, block)"
    "ring_ok raw M n block" by blast
  have "sha_step n (vars, block) = (ref_step M n vars, block[n mod 16 := schedule M n])" for vars
    by (simp only: sha_step_def prod.case Let_def ring_step(1) [OF b(2) M] round_eq ref_step_def)
  with b ring_step(2) [OF b(2) M] show ?case by simp
qed

lemma transform_compress: "length bytes = 64 \<Longrightarrow> SHA1Transform H bytes = compress H bytes"
proof -
  assume "length bytes = 64"
  then have l: "map blk0 (load_block bytes) = be_words bytes" "length (load_block bytes) = 16"
    using load_block_be [of bytes 16] by auto
  then have "blk0 (load_block bytes ! k) = be_words bytes ! k" if "k < 16" for k
    using that by (metis nth_map)
  from rounds_eq [OF this l(2), of 80 H] show ?thesis
    by (auto simp: SHA1Transform_def compress_def)
qed

section \<open>The streaming interface\<close>

lemma update_blocks_ref:
  "update_blocks H m = (sha1_blocks H m, drop (64 * (length m div 64)) m)"
proof (induction H m rule: update_blocks.induct)
  case (1 state data)
  show ?case
  proof (cases "64 \<le> length data")
    case True
    then have "length data div 64 = Suc ((length data - 64) div 64)"
      by (simp add: le_div_geq)
    with True 1 show ?thesis
      by (simp add: update_blocks.simps [of state data] sha1_blocks.simps [of state data]
          transform_compress ac_simps)
  next
    case False
    then show ?thesis
      by (simp add: update_blocks.simps [of state data] sha1_blocks.simps [of state data])
  qed
qed

lemma update_blocks_append:
  "update_blocks H m = (H', r) \<Longrightarrow> update_blocks H (m @ xs) = update_blocks H' (r @ xs)"
proof (induction H m arbitrary: H' r rule: update_blocks.induct)
  case (1 state data)
  show ?case
  proof (cases "64 \<le> length data")
    case True
    with 1 show ?thesis
      by (simp add: update_blocks.simps [of state data] update_blocks.simps [of state "data @ xs"])
  next
    case False
    with 1 show ?thesis by (simp add: update_blocks.simps [of state data])
  qed
qed

text \<open>The context after the bytes \<open>m\<close>.\<close>

definition ctx_rep :: "SHA1_CTX \<Rightarrow> byte list \<Rightarrow> bool" where
  "ctx_rep ctx m \<longleftrightarrow> length (sha_buffer ctx) = 64 \<and>
     sha_count0 ctx = of_nat (8 * length m) \<and>
     sha_count1 ctx = of_nat (8 * length m div 2 ^ 32) \<and>
     update_blocks sha1_init m = (sha_state ctx, take (length m mod 64) (sha_buffer ctx))"

lemma carry_div:
  fixes x y B :: nat
  assumes "x < B" and "y < B"
  shows "(x + y) div B = (if (x + y) mod B < x then 1 else 0)"
  using assms by (cases "x + y < B") (auto simp: le_mod_geq le_div_geq)

lemma count_carry:
  fixes n k :: nat
  assumes "k < 2 ^ 32"
  defines "c0 \<equiv> of_nat (8 * n) + push_bit 3 (of_nat k) :: u32"
  shows "c0 = of_nat (8 * (n + k))"
    and "(if c0 < of_nat (8 * n) then of_nat (8 * n div 2 ^ 32) + 1 else of_nat (8 * n div 2 ^ 32)) +
      drop_bit 29 (of_nat k) = (of_nat (8 * (n + k) div 2 ^ 32) :: u32)"
proof -
  show c0: "c0 = of_nat (8 * (n + k))"
    by (simp add: c0_def push_bit_eq_mult algebra_simps)
  have d: "drop_bit 29 (of_nat k :: u32) = of_nat (8 * k div 2 ^ 32)"
  proof -
    have "unat (drop_bit 29 (of_nat k :: u32)) = k div 2 ^ 29"
      unfolding unat_drop_bit_eq using assms(1)
      by (simp add: drop_bit_eq_div unat_of_nat take_bit_eq_mod)
    moreover have "8 * k div 2 ^ 32 = k div 2 ^ 29" by simp
    moreover have "k div 2 ^ 29 < 2 ^ 32" using assms(1) by (simp add: div_less_iff_less_mult)
    ultimately show ?thesis by (simp add: word_unat_eq_iff unat_of_nat take_bit_eq_mod)
  qed
  let ?a = "8 * n" and ?b = "8 * k" and ?B = "2 ^ 32 :: nat"
  have less: "c0 < of_nat ?a \<longleftrightarrow> (?a + ?b) mod ?B < ?a mod ?B"
    unfolding c0 word_less_nat_alt unat_of_nat distrib_left
    by (simp only: len_of_numeral_defs semiring_norm numeral_times_numeral mult_numeral_1)
  have "(?a + ?b) div ?B = ?a div ?B + ?b div ?B + (?a mod ?B + ?b mod ?B) div ?B"
    by (rule div_add1_eq)
  moreover have "(?a mod ?B + ?b mod ?B) div ?B = (if (?a + ?b) mod ?B < ?a mod ?B then 1 else 0)"
    using carry_div [of "?a mod ?B" ?B "?b mod ?B"] by (simp only: mod_add_eq) simp
  ultimately have "8 * (n + k) div ?B = ?a div ?B + ?b div ?B +
      (if (?a + ?b) mod ?B < ?a mod ?B then 1 else 0)"
    by (simp add: distrib_left)
  then show "(if c0 < of_nat (8 * n) then of_nat (8 * n div 2 ^ 32) + 1 else of_nat (8 * n div 2 ^ 32)) +
      drop_bit 29 (of_nat k) = (of_nat (8 * (n + k) div 2 ^ 32) :: u32)"
    unfolding less d by (simp del: of_nat_mult)
qed

lemma index_of_count: "unat (drop_bit 3 (of_nat (8 * n) :: u32) AND 63) = n mod 64"
proof -
  have m6: "(63 :: u32) = mask 6" by (simp add: mask_eq_exp_minus_1)
  have "unat (drop_bit 3 (of_nat (8 * n) :: u32) AND 63) = 8 * n mod 2 ^ 32 div 8 mod 64"
    unfolding m6 take_bit_eq_mask [symmetric] unsigned_take_bit_eq unat_drop_bit_eq unat_of_nat
    by (simp add: drop_bit_eq_div take_bit_eq_mod)
  also have "\<dots> = n mod 2 ^ 29 mod 64" by (simp add: mod_mult_mult1 [of 8 n "2 ^ 29", simplified])
  also have "\<dots> = n mod 64" by (simp add: mod_mod_cancel)
  finally show ?thesis .
qed


lemma ctx_rep_update:
  assumes rep: "ctx_rep ctx m" and len: "length xs < 2 ^ 32"
  shows "ctx_rep (SHA1Update ctx xs) (m @ xs)"
proof -
  define j where "j = length m mod 64"
  define r where "r = take j (sha_buffer ctx)"
  have b: "length (sha_buffer ctx) = 64" and j: "j < 64" and lr: "length r = j"
    using rep by (auto simp: ctx_rep_def j_def r_def)
  have st: "update_blocks sha1_init m = (sha_state ctx, r)"
    using rep by (simp add: ctx_rep_def r_def j_def)
  have idx: "unat (drop_bit 3 (sha_count0 ctx) AND 63) = j"
    using rep index_of_count [of "length m"] by (simp add: ctx_rep_def j_def)
  define ctx' where "ctx' = SHA1Update ctx xs"
  have counts: "sha_count0 ctx' = of_nat (8 * length (m @ xs))"
      "sha_count1 ctx' = of_nat (8 * length (m @ xs) div 2 ^ 32)"
  proof -
    have "sha_count0 ctx = of_nat (8 * length m)"
      "sha_count1 ctx = of_nat (8 * length m div 2 ^ 32)"
      using rep by (simp_all only: ctx_rep_def)
    moreover have "sha_count0 ctx' = sha_count0 ctx + push_bit 3 (of_nat (length xs))"
      "sha_count1 ctx' = (if sha_count0 ctx + push_bit 3 (of_nat (length xs)) < sha_count0 ctx
         then sha_count1 ctx + 1 else sha_count1 ctx) + drop_bit 29 (of_nat (length xs))"
      by (simp_all add: ctx'_def SHA1Update_def Let_def case_prod_beta)
    ultimately show "sha_count0 ctx' = of_nat (8 * length (m @ xs))"
      "sha_count1 ctx' = of_nat (8 * length (m @ xs) div 2 ^ 32)"
      using count_carry [OF len, of "length m"] by (simp_all only: length_append)
  qed
  have app: "update_blocks sha1_init (m @ xs) = update_blocks (sha_state ctx) (r @ xs)"
    by (rule update_blocks_append [OF st])
  have "length (sha_buffer ctx') = 64 \<and> update_blocks sha1_init (m @ xs) =
      (sha_state ctx', take (length (m @ xs) mod 64) (sha_buffer ctx'))"
  proof (cases "j + length xs > 63")
    case True
    define buf where "buf = memcpy_at (sha_buffer ctx) j (take (64 - j) xs)"
    have buf: "buf = take 64 (r @ xs)" "length buf = 64"
      using True j lr b by (auto simp: buf_def memcpy_at_def r_def)
    obtain state rest where ub: "update_blocks (SHA1Transform (sha_state ctx) buf)
        (drop (64 - j) xs) = (state, rest)" by fastforce
    have rest: "length rest = (length m + length xs) mod 64"
    proof -
      define ys where "ys = drop (64 - j) xs"
      have "rest = drop (64 * (length ys div 64)) ys"
        using ub by (simp add: update_blocks_ref ys_def del: drop_drop)
      then have "length rest = (length xs - (64 - j)) mod 64"
        by (simp add: minus_mult_div_eq_mod ys_def del: drop_drop)
      also have "length xs - (64 - j) = j + length xs - 64" using True j by simp
      also have "\<dots> mod 64 = (j + length xs) mod 64" using True by (simp add: le_mod_geq)
      finally show ?thesis by (simp add: j_def mod_add_left_eq)
    qed
    have ctx': "sha_state ctx' = state" "sha_buffer ctx' = memcpy_at buf 0 rest"
      using True ub idx by (simp_all add: ctx'_def SHA1Update_def Let_def buf_def)
    have "update_blocks sha1_init (m @ xs) = (state, rest)"
      using app ub True j lr buf by (simp add: update_blocks.simps [of "sha_state ctx"])
    moreover have "length (sha_buffer ctx') = 64"
      using buf(2) rest by (simp add: ctx' memcpy_at_def)
    ultimately show ?thesis using rest by (simp add: ctx' memcpy_at_def)
  next
    case False
    have ctx': "sha_state ctx' = sha_state ctx"
        "sha_buffer ctx' = memcpy_at (sha_buffer ctx) j xs"
      using False idx by (simp_all add: ctx'_def SHA1Update_def Let_def)
    have l: "length (m @ xs) mod 64 = j + length xs"
      using False by (simp add: j_def mod_add_left_eq [of "length m" 64, symmetric])
    have "update_blocks sha1_init (m @ xs) = (sha_state ctx, r @ xs)"
      using app False lr by (simp add: update_blocks.simps [of "sha_state ctx"])
    then show ?thesis using l b False j lr by (simp add: ctx' memcpy_at_def r_def)
  qed
  with counts show ?thesis by (simp add: ctx_rep_def ctx'_def)
qed

lemma ctx_rep_init: "length junk = 64 \<Longrightarrow> ctx_rep (SHA1Init junk) []"
  by (simp add: ctx_rep_def SHA1Init_def update_blocks.simps [of _ "[]"] sha1_init_def)

lemma ctx_rep_bytes:
  "ctx_rep ctx m \<Longrightarrow> ctx_rep (fold (\<lambda>b ctx. SHA1Update ctx [b]) xs ctx) (m @ xs)"
proof (induction xs arbitrary: ctx m)
  case (Cons x xs)
  from Cons.IH [OF ctx_rep_update [OF Cons.prems, of "[x]"]] show ?case by simp
qed simp

lemma pad_test: "ctx_rep ctx m \<Longrightarrow> (sha_count0 ctx AND 504 = 448) = (length m mod 64 = 56)"
proof -
  assume "ctx_rep ctx m"
  then have c: "sha_count0 ctx = of_nat (8 * length m)" by (simp add: ctx_rep_def)
  define q where "q = length m mod 64"
  have q: "drop_bit 3 (sha_count0 ctx) AND 63 = of_nat q"
    using index_of_count [of "length m"] unfolding c word_unat_eq_iff
    by (simp add: q_def unat_of_nat del: of_nat_mult)
  have m6: "(63 :: u32) = mask 6" and m9: "(504 :: u32) = push_bit 3 (mask 6)"
    by (simp_all add: mask_eq_exp_minus_1 push_bit_eq_mult)
  have "sha_count0 ctx AND 504 = push_bit 3 (drop_bit 3 (sha_count0 ctx) AND 63)"
    unfolding m6 m9 by (auto intro!: bit_word_eqI simp: bit_simps)
  also have "\<dots> = of_nat (8 * q)" unfolding q by (simp add: push_bit_eq_mult)
  also have "(of_nat (8 * q) = (448 :: u32)) = (q = 56)"
    by (simp add: word_unat_eq_iff unat_of_nat q_def take_bit_eq_mod del: of_nat_mult)
  finally show ?thesis by (simp add: q_def)
qed


lemma pad_loop_rep:
  assumes "ctx_rep ctx m" and "(length m + k) mod 64 = 56"
    and "\<forall>i < k. (length m + i) mod 64 \<noteq> 56" and "k \<le> fuel"
  shows "\<exists>ctx'. pad_loop fuel ctx = Some ctx' \<and> ctx_rep ctx' (m @ replicate k 0)"
  using assms
proof (induction k arbitrary: ctx m fuel)
  case 0
  then show ?case using pad_test [OF 0(1)] by (subst pad_loop.simps) simp
next
  case (Suc k)
  then obtain f where f: "fuel = Suc f" by (cases fuel) auto
  have no: "\<not> (sha_count0 ctx AND 504 = 448)"
    using pad_test [OF Suc.prems(1)] Suc.prems(3) by (metis add_0_right zero_less_Suc)
  have "\<forall>i < k. (length (m @ [0]) + i) mod 64 \<noteq> 56"
    using Suc.prems(3) by (auto simp: less_Suc_eq_0_disj)
  with Suc.IH [OF ctx_rep_update [OF Suc.prems(1), of "[0]"], of f] Suc.prems f
  obtain ctx' where "pad_loop f (SHA1Update ctx [0]) = Some ctx'"
    "ctx_rep ctx' ((m @ [0]) @ replicate k 0)" by auto
  with no f show ?case by (subst pad_loop.simps) simp
qed

lemma byte_of: "p < 4 \<Longrightarrow> ucast (drop_bit (p * 8) (of_nat n :: u32) AND 255) = (of_nat (n div 256 ^ p) :: byte)"
proof -
  assume p: "p < 4"
  have m8: "(255 :: u32) = mask 8" by (simp add: mask_eq_exp_minus_1)
  have d: "n div 256 ^ p = drop_bit (p * 8) n"
    by (simp add: drop_bit_eq_div power_mult mult.commute [of p])
  show ?thesis unfolding m8 d
    using p by (intro bit_word_eqI) (auto simp: bit_simps ac_simps)
qed

lemma word_bytes_eq:
  "word_bytes w = be_bytes w"
  "word_bytes (of_nat n) = map (\<lambda>i. of_nat (n div 256 ^ (3 - i))) [0..<4]"
proof -
  show *: "word_bytes (of_nat n) = map (\<lambda>i. of_nat (n div 256 ^ (3 - i))) [0..<4]" for n
    by (simp add: word_bytes_def byte_of)
  from this [of "unat w"] show "word_bytes w = be_bytes w" by (simp add: be_bytes_def)
qed

lemma finalcount_eq:
  "word_bytes (of_nat (bits div 2 ^ 32)) @ word_bytes (of_nat bits) = length_bytes bits"
proof -
  have "[0..<8] = [0..<4] @ map ((+) 4) [0..<4]" by (simp add: upt_rec)
  moreover have "bits div 2 ^ 32 div 256 ^ k = bits div 256 ^ (4 + k)" for k
    by (simp add: power_add flip: div_mult2_eq)
  ultimately show ?thesis
    by (simp add: length_bytes_def word_bytes_eq(2) del: upt_Suc)
qed

lemma pad_length: "(length m + 1 + (119 - length m mod 64) mod 64) mod 64 = 56"
  "i < (119 - length m mod 64) mod 64 \<Longrightarrow> (length m + 1 + i) mod 64 \<noteq> 56"
proof -
  define q where "q = length m mod 64"
  have m: "(length m + 1 + i) mod 64 = (q + 1 + i) mod 64" for i
    unfolding q_def by (metis mod_add_left_eq)
  have q: "q < 64" by (simp add: q_def)
  show "(length m + 1 + (119 - length m mod 64) mod 64) mod 64 = 56"
    unfolding m unfolding q_def [symmetric] using q by (cases "q \<le> 55") (auto simp: le_mod_geq)
  show "(length m + 1 + i) mod 64 \<noteq> 56" if "i < (119 - length m mod 64) mod 64"
    using that unfolding m unfolding q_def [symmetric]
    using q by (cases "q \<le> 55"; cases "q + 1 + i < 64") (auto simp: le_mod_geq)
qed

lemma SHA1Final_rep:
  assumes "ctx_rep ctx m"
  shows "SHA1Final ctx = Some (sha1_fips m)"
proof -
  define k where "k = (119 - length m mod 64) mod 64"
  have c: "word_bytes (sha_count1 ctx) @ word_bytes (sha_count0 ctx) = length_bytes (8 * length m)"
    using assms finalcount_eq [of "8 * length m"] by (simp only: ctx_rep_def)
  have rep1: "ctx_rep (SHA1Update ctx [0x80]) (m @ [0x80])"
    by (rule ctx_rep_update [OF assms]) simp
  obtain padded where p: "pad_loop 64 (SHA1Update ctx [0x80]) = Some padded"
      "ctx_rep padded ((m @ [0x80]) @ replicate k 0)"
    using pad_loop_rep [OF rep1, of k 64] pad_length(1) [of m] pad_length(2) [of _ m] by (auto simp: k_def)
  have lb: "length (length_bytes (8 * length m)) = 8" by (simp add: length_bytes_def)
  have rep: "ctx_rep (SHA1Update padded (length_bytes (8 * length m))) (sha1_pad m)"
    using ctx_rep_update [OF p(2), of "length_bytes (8 * length m)"] lb
    by (simp add: sha1_pad_def k_def)
  then have "sha_state (SHA1Update padded (length_bytes (8 * length m))) =
      sha1_blocks sha1_init (sha1_pad m)"
    by (simp add: ctx_rep_def update_blocks_ref)
  with p(1) c show ?thesis
    by (simp add: SHA1Final_def sha1_fips_def word_bytes_eq(1) split: prod.split)
qed

text \<open>
  C8: the digest is SHA-1. For every string, whatever its length and whatever the
  uninitialised buffer holds, the streaming code (a byte at a time through
  \<open>SHA1Update\<close>, padding a byte at a time, expanding the schedule in place in a ring of
  sixteen words) ends and yields the digest FIPS 180-1 defines: pad the message, split it into
  blocks, compress each with the full 80-word schedule.
\<close>

theorem SHA1_is_fips:
  "SHA1 str = sha1_fips (bytes_of str) \<and>
   (\<forall>junk. length junk = 64 \<longrightarrow>
      SHA1Final (fold (\<lambda>b ctx. SHA1Update ctx [b]) (bytes_of str) (SHA1Init junk)) =
        Some (sha1_fips (bytes_of str)))"
proof -
  have *: "SHA1Final (fold (\<lambda>b ctx. SHA1Update ctx [b]) (bytes_of str) (SHA1Init junk)) =
        Some (sha1_fips (bytes_of str))" if "length junk = 64" for junk
    using SHA1Final_rep [OF ctx_rep_bytes [OF ctx_rep_init [OF that]]] by simp
  from this [of "replicate 64 0"] * show ?thesis by (simp add: SHA1_def)
qed

lemma SHA1_length: "length (SHA1 str) = 20"
proof -
  have "SHA1 str = sha1_fips (bytes_of str)"
    using SHA1Final_rep [OF ctx_rep_bytes [OF ctx_rep_init [of "replicate 64 0"]]]
    by (simp add: SHA1_def)
  then show ?thesis by (simp add: sha1_fips_def be_bytes_def split: prod.split)
qed

theorem SHA1_is_fips_witness:
  "SHA1 ''abc'' = sha1_fips (bytes_of ''abc'') \<and>
   SHA1Final (fold (\<lambda>b ctx. SHA1Update ctx [b]) (bytes_of ''abc'') (SHA1Init (replicate 64 0xFF))) =
     Some (sha1_fips (bytes_of ''abc''))"
  using SHA1_is_fips [of "''abc''"] by (metis length_replicate)

lemma hexify_length: "length (hexify_loop input room) = min (2 * length input) (2 * ((room - 1) div 2))"
proof (induction input room rule: hexify_loop.induct)
  case (2 b bs room)
  show ?case
  proof (cases "3 \<le> room")
    case True
    then have "(room - 1) div 2 = Suc ((room - 2 - 1) div 2)" by (simp add: le_div_geq)
    with True 2 show ?thesis by simp
  qed simp
qed simp

end
