(* ===== verification/LD_Numeric.thy ===== *)
theory LD_Numeric
  imports LD_Prelude "HOL-Library.Log_Nat"
begin

text \<open>
  The floating point arithmetic of the sources. A finite \<open>float\<close> or \<open>double\<close> is its
  rational value; every C operation computes the exact result and rounds it to the nearest
  representable value, ties to even (IEEE 754, the environment C code runs in by default),
  with 24 significant bits down to \<open>2\<^sup>-\<^sup>1\<^sup>2\<^sup>6\<close> for \<open>float\<close> and 53 bits down to
  \<open>2\<^sup>-\<^sup>1\<^sup>0\<^sup>2\<^sup>2\<close> for \<open>double\<close>. Overflow to infinity is outside the model.
\<close>

definition pow2 :: "int \<Rightarrow> rat" where
  "pow2 e = (if 0 \<le> e then 2 ^ nat e else 1 / 2 ^ nat (- e))"

text \<open>The exponent of a positive value: \<open>pow2 (ilog2 x) \<le> x < pow2 (ilog2 x + 1)\<close>.\<close>

definition ilog2 :: "rat \<Rightarrow> int" where
  "ilog2 x =
     (let (a, b) = quotient_of x; e = bitlen a - bitlen b in
      if pow2 e \<le> x then e else e - 1)"

definition round_to :: "int \<Rightarrow> int \<Rightarrow> rat \<Rightarrow> rat" where
  "round_to p emin x =
     (if x = 0 then 0
      else let q = pow2 (max (ilog2 \<bar>x\<bar>) emin - p + 1) in of_int (round_even (x / q)) * q)"

definition to_float :: "rat \<Rightarrow> rat" where
  "to_float = round_to 24 (- 126)"

definition to_double :: "rat \<Rightarrow> rat" where
  "to_double = round_to 53 (- 1022)"

section \<open>Powers of two\<close>

lemma pow2_powi: "pow2 e = 2 powi e"
  by (simp add: pow2_def power_int_def inverse_eq_divide power_one_over)

lemma pow2_pos [simp]: "0 < pow2 e"
  by (simp add: pow2_def)

lemma pow2_nonzero [simp]: "pow2 e \<noteq> 0"
  by (rule less_imp_neq [OF pow2_pos, symmetric])

lemma pow2_add: "pow2 (a + b) = pow2 a * pow2 b"
  by (simp add: pow2_powi power_int_add)

lemma pow2_mono: "a \<le> b \<Longrightarrow> pow2 a \<le> pow2 b"
  by (simp add: pow2_powi power_int_increasing)

lemma pow2_less_iff: "pow2 a < pow2 b \<longleftrightarrow> a < b"
  using power_int_strict_increasing [of a b "2::rat"] pow2_mono [of b a]
  by (auto simp: pow2_powi not_le [symmetric])

lemma pow2_of_nat: "0 \<le> e \<Longrightarrow> pow2 e = of_int (2 ^ nat e)"
  by (simp add: pow2_def)

lemma pow2_diff: "pow2 a / pow2 b = pow2 (a - b)"
  using pow2_add [of "a - b" b] by (simp add: field_simps)

section \<open>Rounding to an integer\<close>

lemma round_even_of_int [simp]: "round_even (of_int n) = n"
  by (simp add: round_even_def)

lemma round_even_le: "y \<le> of_int n \<Longrightarrow> round_even y \<le> n"
proof -
  assume y: "y \<le> of_int n"
  show "round_even y \<le> n"
  proof (cases "y = of_int n")
    case False
    with y have "y < of_int n" by simp
    then have "\<lfloor>y\<rfloor> < n" by (simp add: floor_less_iff)
    then show ?thesis by (simp add: round_even_def Let_def)
  qed simp
qed

lemma round_even_ge: "of_int n \<le> y \<Longrightarrow> n \<le> round_even y"
  using le_floor_iff [of n y] by (simp add: round_even_def Let_def)

lemma round_even_near: "of_int n \<le> y \<Longrightarrow> y < of_int n + 1 / 2 \<Longrightarrow> round_even y = n"
proof -
  assume *: "of_int n \<le> y" "y < of_int n + 1 / 2"
  then have "\<lfloor>y\<rfloor> = n" by (simp add: floor_eq_iff)
  with * show ?thesis by (simp add: round_even_def Let_def)
qed

section \<open>The exponent\<close>

lemma bitlen_range:
  assumes "0 < (a :: int)"
  shows "pow2 (bitlen a - 1) \<le> of_int a" and "of_int a < pow2 (bitlen a)"
proof -
  have b: "1 \<le> bitlen a" using assms bitlen_nonneg [of a] bitlen_eq_zero_iff [of a] by linarith
  have "of_int (2 ^ nat (bitlen a - 1)) \<le> (of_int a :: rat)"
    using bitlen_bounds [OF assms] by (simp only: of_int_le_iff)
  then show "pow2 (bitlen a - 1) \<le> of_int a" using b by (simp add: pow2_of_nat)
  have "(of_int a :: rat) < of_int (2 ^ nat (bitlen a))"
    using bitlen_bounds [OF assms] by (simp only: of_int_less_iff)
  then show "of_int a < pow2 (bitlen a)" using b by (simp add: pow2_of_nat)
qed

lemma ilog2_bounds:
  assumes "0 < x"
  shows "pow2 (ilog2 x) \<le> x" and "x < pow2 (ilog2 x + 1)"
proof -
  obtain a b where ab: "quotient_of x = (a, b)" by (cases "quotient_of x")
  have b: "0 < b" by (rule quotient_of_denom_pos [OF ab])
  have x: "x = of_int a / of_int b" by (rule quotient_of_div [OF ab])
  have a: "0 < a" using assms b by (simp add: x zero_less_divide_iff)
  define e where "e = bitlen a - bitlen b"
  note ra = bitlen_range [OF a] and rb = bitlen_range [OF b]
  have up: "x < pow2 (e + 1)"
  proof -
    have "x \<le> of_int a / pow2 (bitlen b - 1)"
      unfolding x using rb(1) a b by (intro divide_left_mono) auto
    also have "\<dots> < pow2 (bitlen a) / pow2 (bitlen b - 1)"
      using ra(2) by (intro divide_strict_right_mono) auto
    also have "\<dots> = pow2 (e + 1)" by (simp add: pow2_diff e_def algebra_simps)
    finally show ?thesis .
  qed
  have low: "pow2 (e - 1) \<le> x"
  proof -
    have "pow2 (e - 1) = pow2 (bitlen a - 1) / pow2 (bitlen b)"
      by (simp add: pow2_diff e_def algebra_simps)
    also have "\<dots> \<le> of_int a / pow2 (bitlen b)"
      using ra(1) by (intro divide_right_mono) (auto simp: less_imp_le)
    also have "\<dots> \<le> x"
      unfolding x using rb(2) a b by (intro divide_left_mono) auto
    finally show ?thesis .
  qed
  show "pow2 (ilog2 x) \<le> x" "x < pow2 (ilog2 x + 1)"
    using up low by (auto simp: ilog2_def ab e_def [symmetric] Let_def)
qed

lemma ilog2_unique: "pow2 e \<le> x \<Longrightarrow> x < pow2 (e + 1) \<Longrightarrow> ilog2 x = e"
proof -
  assume *: "pow2 e \<le> x" "x < pow2 (e + 1)"
  then have "0 < x" using pow2_pos [of e] by linarith
  from ilog2_bounds [OF this] * have "pow2 e < pow2 (ilog2 x + 1)" "pow2 (ilog2 x) < pow2 (e + 1)"
    by linarith+
  then show ?thesis by (simp add: pow2_less_iff)
qed

section \<open>Rounding to a floating point format\<close>

lemma round_to_zero [simp]: "round_to p emin 0 = 0"
  by (simp add: round_to_def)

lemma round_to_nonneg: "0 \<le> x \<Longrightarrow> 0 \<le> round_to p emin x"
  using round_even_ge [of 0]
  by (auto simp: round_to_def Let_def less_imp_le intro!: mult_nonneg_nonneg)

lemma round_to_le_pow2:
  assumes x: "0 \<le> x" "x \<le> pow2 k" and k: "emin \<le> k" and p: "1 \<le> p"
  shows "round_to p emin x \<le> pow2 k"
proof (cases "x = 0")
  case False
  with x have pos: "0 < x" by simp
  define q where "q = max (ilog2 x) emin - p + 1"
  have "pow2 (ilog2 x) \<le> pow2 k" using ilog2_bounds(1) [OF pos] x by linarith
  then have "q \<le> k" using k p by (simp add: q_def pow2_less_iff not_less [symmetric])
  then have "pow2 k / pow2 q = of_int (2 ^ nat (k - q))" by (simp add: pow2_diff pow2_of_nat)
  moreover have "x / pow2 q \<le> pow2 k / pow2 q"
    using x by (intro divide_right_mono) (auto simp: less_imp_le)
  ultimately have "round_even (x / pow2 q) \<le> 2 ^ nat (k - q)"
    by (intro round_even_le) simp
  then have "of_int (round_even (x / pow2 q)) * pow2 q \<le> of_int (2 ^ nat (k - q)) * pow2 q"
    by (intro mult_right_mono) (simp_all only: of_int_le_iff, simp add: less_imp_le)
  also have "\<dots> = pow2 k"
    using \<open>pow2 k / pow2 q = _\<close> pow2_pos [of q] by (simp add: field_simps)
  finally show ?thesis using False pos by (simp add: round_to_def q_def Let_def)
qed (simp add: less_imp_le)

text \<open>A value with at most \<open>p\<close> significant bits is representable and unchanged.\<close>

lemma round_to_exact:
  assumes "\<bar>m\<bar> < 2 ^ nat p" and "0 \<le> p" and "emin - p + 1 \<le> s"
  shows "round_to p emin (of_int m * pow2 s) = of_int m * pow2 s"
proof (cases "m = 0")
  case False
  define x where "x = of_int m * pow2 s"
  define q where "q = max (ilog2 \<bar>x\<bar>) emin - p + 1"
  have absx: "\<bar>x\<bar> = of_int \<bar>m\<bar> * pow2 s"
    using less_imp_le [OF pow2_pos, of s] by (simp add: x_def abs_mult)
  have pos: "0 < \<bar>x\<bar>" using False by (simp add: x_def)
  have "(of_int \<bar>m\<bar> :: rat) < of_int (2 ^ nat p)" using assms(1) by (simp only: of_int_less_iff)
  then have "of_int \<bar>m\<bar> < pow2 p" using assms(2) by (simp only: pow2_of_nat)
  then have "\<bar>x\<bar> < pow2 p * pow2 s" unfolding absx by (rule mult_strict_right_mono) simp
  then have "pow2 (ilog2 \<bar>x\<bar>) < pow2 (p + s)"
    using ilog2_bounds(1) [OF pos] by (simp add: pow2_add)
  then have "q \<le> s" using assms(3) by (simp add: q_def pow2_less_iff)
  then have "x / pow2 q = of_int (m * 2 ^ nat (s - q))"
    using pow2_diff [of s q] by (simp add: x_def pow2_of_nat flip: times_divide_eq_right)
  then have "of_int (round_even (x / pow2 q)) * pow2 q = x"
    using pow2_pos [of q] by (simp only: round_even_of_int) (simp add: field_simps)
  then show ?thesis
    using False pos by (simp add: round_to_def q_def Let_def x_def [symmetric])
qed simp

text \<open>Rounding does not cross an integer of at most \<open>p\<close> bits.\<close>

lemma grid_integer: "q \<le> 0 \<Longrightarrow> of_int n / pow2 q = of_int (n * 2 ^ nat (- q))"
  using pow2_diff [of 0 q] by (simp add: pow2_of_nat flip: times_divide_eq_right) (simp add: pow2_def)

lemma ilog2_le: "0 < x \<Longrightarrow> x < pow2 (k + 1) \<Longrightarrow> ilog2 x \<le> k"
  using ilog2_bounds(1) [of x] pow2_less_iff [of "ilog2 x" "k + 1"] by linarith

lemma round_to_le_int:
  assumes "0 \<le> x" and "x \<le> of_int n" and "of_int n < pow2 p" and "emin < p"
  shows "round_to p emin x \<le> of_int n"
proof (cases "x = 0")
  case False
  with assms(1) have pos: "0 < x" by simp
  define q where "q = max (ilog2 x) emin - p + 1"
  have q: "q \<le> 0" using ilog2_le [OF pos, of "p - 1"] assms(2-4) by (simp add: q_def)
  have "x / pow2 q \<le> of_int (n * 2 ^ nat (- q))"
    unfolding grid_integer [OF q, symmetric] using assms(2) by (intro divide_right_mono) (auto simp: less_imp_le)
  then have "round_even (x / pow2 q) \<le> n * 2 ^ nat (- q)" by (rule round_even_le)
  then have "of_int (round_even (x / pow2 q)) * pow2 q \<le> of_int (n * 2 ^ nat (- q)) * pow2 q"
    by (intro mult_right_mono) (simp_all only: of_int_le_iff, simp add: less_imp_le)
  also have "\<dots> = of_int n" unfolding grid_integer [OF q, symmetric] by simp
  finally show ?thesis using pos by (simp add: round_to_def q_def Let_def)
qed (use assms in simp)

lemma round_to_ge_int:
  assumes "of_int n \<le> x" and "0 \<le> n" and "of_int n \<le> pow2 p" and "emin < p" and "1 \<le> p"
  shows "of_int n \<le> round_to p emin x"
proof (cases "n = 0")
  case True
  then show ?thesis using assms(1) round_to_nonneg [of x] by simp
next
  case False
  with assms(1,2) have "(0 :: rat) < of_int n" by simp
  with assms(1) have pos: "0 < x" by linarith
  define q where "q = max (ilog2 x) emin - p + 1"
  have eq: "round_to p emin x = of_int (round_even (x / pow2 q)) * pow2 q"
    using pos by (simp add: round_to_def q_def Let_def)
  have bound: "of_int m * pow2 q \<le> round_to p emin x" if "of_int m \<le> x / pow2 q" for m
    unfolding eq using round_even_ge [OF that]
    by (intro mult_right_mono) (simp_all add: less_imp_le)
  show ?thesis
  proof (cases "q \<le> 0")
    case True
    have "of_int (n * 2 ^ nat (- q)) \<le> x / pow2 q"
      unfolding grid_integer [OF True, symmetric] using assms(1)
      by (intro divide_right_mono) (auto simp: less_imp_le)
    from bound [OF this] show ?thesis unfolding grid_integer [OF True, symmetric] by simp
  next
    case False
    then have il: "q = ilog2 x - p + 1" "p \<le> ilog2 x" using assms(4) by (auto simp: q_def)
    have two: "pow2 (ilog2 x) / pow2 q = of_int (2 ^ nat (p - 1))"
      using assms(5) by (simp add: pow2_diff il(1) pow2_of_nat)
    then have "of_int (2 ^ nat (p - 1)) \<le> x / pow2 q"
      using divide_right_mono [OF ilog2_bounds(1) [OF pos], of "pow2 q"] by (simp add: less_imp_le)
    from bound [OF this] have "pow2 (ilog2 x) \<le> round_to p emin x" unfolding two [symmetric] by simp
    with assms(3) pow2_mono [OF il(2)] show ?thesis by linarith
  qed
qed

lemma to_double_le_int: "0 \<le> x \<Longrightarrow> x \<le> of_int n \<Longrightarrow> n < 2 ^ 53 \<Longrightarrow> to_double x \<le> of_int n"
  unfolding to_double_def by (rule round_to_le_int) (simp_all add: pow2_def)

lemma to_double_ge_int: "of_int n \<le> x \<Longrightarrow> 0 \<le> n \<Longrightarrow> n < 2 ^ 53 \<Longrightarrow> of_int n \<le> to_double x"
  unfolding to_double_def by (rule round_to_ge_int) (simp_all add: pow2_def)

lemma to_double_int [simp]: "\<bar>m\<bar> < 2 ^ 53 \<Longrightarrow> to_double (of_int m) = of_int m"
  using round_to_exact [of m 53 "- 1022" 0] by (simp add: to_double_def pow2_def)

end
