(* ===== verification/LD_JSON.thy ===== *)
theory LD_JSON
  imports LD_Prelude
begin

text \<open>
  JSON values and the operations of c-sdk-common/src/json.c over the vendored cJSON tree.
  A \<open>struct LDJSON *\<close> that may be \<open>NULL\<close> is a \<open>json option\<close>; a mutated tree is
  returned. The functions keep the argument checks of the \<open>LAUNCHDARKLY_DEFENSIVE\<close>
  build. Numbers are the finite \<open>double\<close> values, as rationals; strings are C strings
  (no NUL byte). Allocation succeeds throughout.

  The lemmas give the algebra the components use: lookups after set, delete, detach and
  merge, as an interpretation of the container contract, and that \<open>LDJSONCompare\<close> is a
  symmetric relation, reflexive on trees without repeated keys.
\<close>

section \<open>Values\<close>

datatype json =
    JNull
  | JBool bool
  | JNumber rat
  | JText string
  | JArray "json list"
  | JObject "(string \<times> json) list"

datatype LDJSONType = LDNull | LDText | LDNumber | LDBool | LDObject | LDArray

fun json_type :: "json \<Rightarrow> LDJSONType" where
  "json_type JNull = LDNull"
| "json_type (JBool _) = LDBool"
| "json_type (JNumber _) = LDNumber"
| "json_type (JText _) = LDText"
| "json_type (JArray _) = LDArray"
| "json_type (JObject _) = LDObject"

definition LDJSONGetType :: "json option \<Rightarrow> LDJSONType" where
  "LDJSONGetType p = (case p of None \<Rightarrow> LDNull | Some j \<Rightarrow> json_type j)"

definition LDi_notNull :: "json option \<Rightarrow> bool" where
  "LDi_notNull p = (case p of None \<Rightarrow> False | Some j \<Rightarrow> LDJSONGetType (Some j) \<noteq> LDNull)"

definition LDGetBool :: "json option \<Rightarrow> bool" where
  "LDGetBool p = (case p of Some (JBool b) \<Rightarrow> b | _ \<Rightarrow> False)"

definition LDGetNumber :: "json option \<Rightarrow> rat" where
  "LDGetNumber p = (case p of Some (JNumber x) \<Rightarrow> x | _ \<Rightarrow> 0)"

definition LDGetText :: "json option \<Rightarrow> string option" where
  "LDGetText p = (case p of Some (JText s) \<Rightarrow> Some s | _ \<Rightarrow> None)"

definition LDSetNumber :: "json \<Rightarrow> rat \<Rightarrow> bool \<times> json" where
  "LDSetNumber j x = (case j of JNumber _ \<Rightarrow> (True, JNumber x) | _ \<Rightarrow> (False, j))"

section \<open>Collections\<close>

text \<open>
  An iterator is the list of children still to visit: \<open>LDIterNext\<close> is the tail,
  \<open>LDIterKey\<close> the first component of the head (\<open>NULL\<close> for array elements).
\<close>

definition LDGetIter :: "json option \<Rightarrow> (string option \<times> json) list" where
  "LDGetIter p =
     (case p of
        Some (JArray xs) \<Rightarrow> map (Pair None) xs
      | Some (JObject ps) \<Rightarrow> map (\<lambda>(k, v). (Some k, v)) ps
      | _ \<Rightarrow> [])"

text \<open>The children alone, for loops that never look at the keys.\<close>

definition iter_values :: "json option \<Rightarrow> json list" where
  "iter_values p = map snd (LDGetIter p)"

definition LDCollectionGetSize :: "json option \<Rightarrow> u32" where
  "LDCollectionGetSize p = of_nat (length (LDGetIter p))"

text \<open>
  The index is an \<open>unsigned int\<close> that cJSON takes as \<open>int\<close>: an index of
  \<open>2\<^sup>3\<^sup>1\<close> or more is negative there and finds nothing.
\<close>

definition LDArrayLookup :: "json option \<Rightarrow> u32 \<Rightarrow> json option" where
  "LDArrayLookup p i =
     (case p of
        Some (JArray xs) \<Rightarrow>
          if sint i < 0 then None
          else if unat i < length xs then Some (xs ! unat i) else None
      | _ \<Rightarrow> None)"

definition LDArrayPush :: "json \<Rightarrow> json option \<Rightarrow> bool \<times> json" where
  "LDArrayPush a p =
     (case (a, p) of
        (JArray xs, Some x) \<Rightarrow> (True, JArray (xs @ [x]))
      | _ \<Rightarrow> (False, a))"

definition LDArrayAppend :: "json \<Rightarrow> json option \<Rightarrow> bool \<times> json" where
  "LDArrayAppend pre suf =
     (case (pre, suf) of
        (JArray xs, Some (JArray ys)) \<Rightarrow> (True, JArray (xs @ ys))
      | _ \<Rightarrow> (False, pre))"

definition LDObjectLookup :: "json option \<Rightarrow> string \<Rightarrow> json option" where
  "LDObjectLookup p k = (case p of Some (JObject ps) \<Rightarrow> map_of ps k | _ \<Rightarrow> None)"

definition LDObjectSetKey :: "json \<Rightarrow> string option \<Rightarrow> json option \<Rightarrow> bool \<times> json" where
  "LDObjectSetKey obj key item =
     (case (obj, key, item) of
        (JObject ps, Some k, Some v) \<Rightarrow> (True, JObject (assoc_delete k ps @ [(k, v)]))
      | _ \<Rightarrow> (False, obj))"

definition LDObjectDeleteKey :: "json \<Rightarrow> string \<Rightarrow> json" where
  "LDObjectDeleteKey obj k = (case obj of JObject ps \<Rightarrow> JObject (assoc_delete k ps) | _ \<Rightarrow> obj)"

definition LDObjectDetachKey :: "json \<Rightarrow> string \<Rightarrow> json option \<times> json" where
  "LDObjectDetachKey obj k =
     (case obj of
        JObject ps \<Rightarrow> (map_of ps k, JObject (assoc_delete k ps))
      | _ \<Rightarrow> (None, obj))"

fun merge_entries :: "(string \<times> json) list \<Rightarrow> json \<Rightarrow> json" where
  "merge_entries [] to = to"
| "merge_entries ((k, v) # ps) to = merge_entries ps (snd (LDObjectSetKey to (Some k) (Some v)))"

definition LDObjectMerge :: "json \<Rightarrow> json option \<Rightarrow> bool \<times> json" where
  "LDObjectMerge to from =
     (case (to, from) of
        (JObject _, Some (JObject ps)) \<Rightarrow> (True, merge_entries ps to)
      | _ \<Rightarrow> (False, to))"

text \<open>
  Setting a key to a value that is there, for callers that pass neither \<open>NULL\<close>
  and need no status (\<open>LDObjectSetKey\<close> on an object then always succeeds).
\<close>

abbreviation set_key :: "string \<Rightarrow> json \<Rightarrow> json \<Rightarrow> json" where
  "set_key k v obj \<equiv> snd (LDObjectSetKey obj (Some k) (Some v))"

text \<open>
  The object after a write through the pointer \<open>LDObjectLookup\<close> returned: the member
  keeps its place.
\<close>

fun assoc_write :: "'k \<Rightarrow> 'v \<Rightarrow> ('k \<times> 'v) list \<Rightarrow> ('k \<times> 'v) list" where
  "assoc_write k v [] = []"
| "assoc_write k v (p # ps) = (if fst p = k then (k, v) # ps else p # assoc_write k v ps)"

definition write_member :: "string \<Rightarrow> json \<Rightarrow> json \<Rightarrow> json" where
  "write_member k v obj = (case obj of JObject ps \<Rightarrow> JObject (assoc_write k v ps) | _ \<Rightarrow> obj)"

section \<open>Comparison\<close>

text \<open>
  \<open>cJSON_Compare\<close>, case sensitive, for distinct objects (the pointer-equality shortcut
  never applies in this program: one operand is always a fresh copy). Objects compare by two
  passes of lookups, so the order of members does not matter.
\<close>

lemma size_json_member [termination_simp]:
  "(k, v) \<in> set ps \<Longrightarrow>
     size (v :: json) < Suc (size_list (size_prod (\<lambda>_. 0) size) (ps :: (string \<times> json) list))"
proof (induction ps)
  case (Cons p ps)
  then show ?case by (cases p) auto
qed simp

lemma size_json_lookup [termination_simp]:
  "map_of ps k = Some v \<Longrightarrow>
     size (v :: json) < Suc (size_list (size_prod (\<lambda>_. 0) size) (ps :: (string \<times> json) list))"
  by (rule size_json_member) (rule map_of_SomeD)

function (sequential) cJSON_Compare :: "json \<Rightarrow> json \<Rightarrow> bool" where
  "cJSON_Compare JNull JNull = True"
| "cJSON_Compare (JBool a) (JBool b) = (a = b)"
| "cJSON_Compare (JNumber x) (JNumber y) = (x = y)"
| "cJSON_Compare (JText s) (JText t) = (s = t)"
| "cJSON_Compare (JArray xs) (JArray ys) =
     (case (xs, ys) of
        ([], []) \<Rightarrow> True
      | (x # xs', y # ys') \<Rightarrow> cJSON_Compare x y \<and> cJSON_Compare (JArray xs') (JArray ys')
      | _ \<Rightarrow> False)"
| "cJSON_Compare (JObject ps) (JObject qs) =
     ((\<forall>p \<in> set ps. case map_of qs (fst p) of
          None \<Rightarrow> False | Some w \<Rightarrow> cJSON_Compare (snd p) w) \<and>
      (\<forall>q \<in> set qs. case map_of ps (fst q) of
          None \<Rightarrow> False | Some v \<Rightarrow> cJSON_Compare (snd q) v))"
| "cJSON_Compare _ _ = False"
  by pat_completeness auto
termination
proof (relation "measure (\<lambda>(a, b). size a + size b)", goal_cases)
  case (4 ps qs p w)
  then have "(fst p, snd p) \<in> set ps" by simp
  from size_json_member [OF this] size_json_lookup [OF 4(2)] show ?case by simp
next
  case (5 ps qs q v)
  then have "(fst q, snd q) \<in> set qs" by simp
  from size_json_member [OF this] size_json_lookup [OF 5(2)] show ?case by simp
qed auto

declare cJSON_Compare.simps(5) [simp del]

definition LDJSONCompare :: "json option \<Rightarrow> json option \<Rightarrow> bool" where
  "LDJSONCompare l r =
     (case (l, r) of (Some a, Some b) \<Rightarrow> cJSON_Compare a b | _ \<Rightarrow> False)"

section \<open>Lookup, set and delete\<close>

text \<open>Evaluation rules for the accessors on constructors.\<close>

named_theorems json_simps \<open>evaluation of the JSON accessors\<close>

lemma LDJSONGetType_simps [simp]:
  "LDJSONGetType None = LDNull" "LDJSONGetType (Some j) = json_type j"
  by (simp_all add: LDJSONGetType_def)

lemma LDi_notNull_simps [simp]:
  "\<not> LDi_notNull None" "LDi_notNull (Some j) \<longleftrightarrow> j \<noteq> JNull"
  by (cases j; simp add: LDi_notNull_def)+

lemma LDGet_simps [simp]:
  "LDGetBool (Some (JBool b)) = b"
  "LDGetNumber (Some (JNumber x)) = x"
  "LDGetText (Some (JText s)) = Some s"
  "LDGetText None = None"
  by (simp_all add: LDGetBool_def LDGetNumber_def LDGetText_def)

lemma json_type_iff [simp]:
  "json_type j = LDText \<longleftrightarrow> (\<exists>s. j = JText s)"
  "json_type j = LDNumber \<longleftrightarrow> (\<exists>x. j = JNumber x)"
  "json_type j = LDBool \<longleftrightarrow> (\<exists>b. j = JBool b)"
  "json_type j = LDArray \<longleftrightarrow> (\<exists>xs. j = JArray xs)"
  "json_type j = LDObject \<longleftrightarrow> (\<exists>ps. j = JObject ps)"
  "json_type j = LDNull \<longleftrightarrow> j = JNull"
  by (cases j; simp)+

lemma json_opt_type:
  "LDJSONGetType p = LDText \<longleftrightarrow> (\<exists>s. p = Some (JText s))"
  "LDJSONGetType p = LDNumber \<longleftrightarrow> (\<exists>x. p = Some (JNumber x))"
  "LDJSONGetType p = LDBool \<longleftrightarrow> (\<exists>b. p = Some (JBool b))"
  "LDJSONGetType p = LDArray \<longleftrightarrow> (\<exists>xs. p = Some (JArray xs))"
  by (cases p; auto)+

lemma LDGetText_Some [simp]: "LDGetText p = Some s \<longleftrightarrow> p = Some (JText s)"
  by (auto simp: LDGetText_def split: option.splits json.splits)

lemma iter_values_simps [simp]:
  "iter_values (Some (JArray xs)) = xs"
  "iter_values (Some (JObject ps)) = map snd ps"
  "iter_values None = []"
  by (simp_all add: iter_values_def LDGetIter_def comp_def case_prod_beta)

lemma LDObjectLookup_simps [simp]:
  "LDObjectLookup None k = None"
  "LDObjectLookup (Some (JObject ps)) k = map_of ps k"
  by (simp_all add: LDObjectLookup_def)

lemma LDObjectLookup_Some_object:
  "LDObjectLookup (Some j) k = Some v \<Longrightarrow> \<exists>ps. j = JObject ps \<and> map_of ps k = Some v"
  by (cases j) (auto simp: LDObjectLookup_def)

lemma LDObjectSetKey_object [simp]:
  "LDObjectSetKey (JObject ps) (Some k) (Some v) = (True, JObject (assoc_delete k ps @ [(k, v)]))"
  by (simp add: LDObjectSetKey_def)

lemma LDObjectDeleteKey_object [simp]:
  "LDObjectDeleteKey (JObject ps) k = JObject (assoc_delete k ps)"
  by (simp add: LDObjectDeleteKey_def)

text \<open>A JSON object in which no key is repeated.\<close>

definition is_object :: "json \<Rightarrow> bool" where
  "is_object j = (case j of JObject ps \<Rightarrow> unique_keys ps | _ \<Rightarrow> False)"

lemma is_object_iff: "is_object j \<longleftrightarrow> (\<exists>ps. j = JObject ps \<and> unique_keys ps)"
  by (cases j) (auto simp: is_object_def)

interpretation obj: keyed_container is_object
  "\<lambda>c. LDObjectLookup (Some c)" "\<lambda>c k v. set_key k v c" LDObjectDeleteKey
proof unfold_locales
  fix c :: json and k k' :: string and v :: json
  assume "is_object c"
  then obtain ps where c: "c = JObject ps" and u: "unique_keys ps"
    by (auto simp: is_object_iff)
  show "is_object (set_key k v c)"
    using u by (simp add: c is_object_def keys_assoc_delete)
  show "is_object (LDObjectDeleteKey c k)"
    using u by (simp add: c is_object_def)
  show "LDObjectLookup (Some (set_key k v c)) k' =
      (if k' = k then Some v else LDObjectLookup (Some c) k')"
    using u by (simp add: c)
  show "LDObjectLookup (Some (LDObjectDeleteKey c k)) k' =
      (if k' = k then None else LDObjectLookup (Some c) k')"
    using u by (simp add: c assoc_simps)
qed

lemmas obj_laws [json_simps] = obj.find_put obj.find_del obj.ok_put obj.ok_del

lemma map_of_assoc_write:
  "map_of (assoc_write k v ps) k' = (if k' = k \<and> map_of ps k \<noteq> None then Some v else map_of ps k')"
  by (induction ps) auto

lemma keys_assoc_write [simp]: "map fst (assoc_write k v ps) = map fst ps"
  by (induction ps) auto

lemma write_member_laws [json_simps]:
  "is_object c \<Longrightarrow> is_object (write_member k v c)"
  "is_object c \<Longrightarrow> LDObjectLookup (Some (write_member k v c)) k' =
     (if k' = k \<and> LDObjectLookup (Some c) k \<noteq> None then Some v else LDObjectLookup (Some c) k')"
  by (auto simp: is_object_iff write_member_def map_of_assoc_write)

lemma merge_entries_fold: "merge_entries ps to = fold (\<lambda>(k, v) c. set_key k v c) ps to"
  by (induction ps to rule: merge_entries.induct) auto

section \<open>Comparison laws\<close>

lemma cJSON_Compare_sym: "cJSON_Compare a b \<longleftrightarrow> cJSON_Compare b a"
proof (induction a b rule: cJSON_Compare.induct)
  case (5 xs ys)
  then show ?case
    by (cases xs; cases ys) (auto simp: cJSON_Compare.simps(5))
qed auto

text \<open>A tree in which no object repeats a key.\<close>

fun json_wf :: "json \<Rightarrow> bool" where
  "json_wf (JArray xs) = (\<forall>x \<in> set xs. json_wf x)"
| "json_wf (JObject ps) = (unique_keys ps \<and> (\<forall>p \<in> set ps. json_wf (snd p)))"
| "json_wf _ = True"

lemma cJSON_Compare_array_refl:
  "(\<And>x. x \<in> set xs \<Longrightarrow> cJSON_Compare x x) \<Longrightarrow> cJSON_Compare (JArray xs) (JArray xs)"
  by (induction xs) (auto simp: cJSON_Compare.simps(5))

lemma cJSON_Compare_refl: "json_wf a \<Longrightarrow> cJSON_Compare a a"
proof (induction a)
  case (JArray xs)
  then show ?case by (auto intro: cJSON_Compare_array_refl)
next
  case (JObject ps)
  have "case map_of ps (fst p) of None \<Rightarrow> False | Some w \<Rightarrow> cJSON_Compare (snd p) w"
    if p: "p \<in> set ps" for p
  proof -
    from JObject.prems p have "map_of ps (fst p) = Some (snd p)"
      by (auto intro: map_of_is_SomeI)
    moreover have "snd p \<in> Basic_BNFs.snds p" by (cases p) simp
    then have "cJSON_Compare (snd p) (snd p)"
      using JObject.prems p by (intro JObject.IH [OF p]) simp_all
    ultimately show ?thesis by simp
  qed
  then show ?case by simp
qed auto

section \<open>Merging\<close>

text \<open>Members of \<open>from\<close> win over members of \<open>to\<close>; everything else is kept.\<close>

lemma LDObjectMerge_lookup:
  assumes "is_object t" and "is_object f"
  shows "LDObjectLookup (Some (snd (LDObjectMerge t (Some f)))) k =
    (case LDObjectLookup (Some f) k of None \<Rightarrow> LDObjectLookup (Some t) k | Some v \<Rightarrow> Some v)"
proof -
  from assms obtain ts fs where t: "t = JObject ts" and f: "f = JObject fs" "unique_keys fs"
    by (auto simp: is_object_iff)
  from f(2) have "map_of (rev fs) = map_of fs"
    by (intro map_of_inject_set [THEN iffD2]) (simp_all add: rev_map flip: rev_map)
  then show ?thesis
    using obj.find_put_all [OF assms(1), of fs k]
    by (simp add: LDObjectMerge_def t f merge_entries_fold)
qed

lemma LDObjectDetachKey_eq:
  "LDObjectDetachKey j k = (LDObjectLookup (Some j) k, LDObjectDeleteKey j k)"
  by (cases j) (simp_all add: LDObjectDetachKey_def LDObjectLookup_def LDObjectDeleteKey_def)

section \<open>Well-formed trees\<close>

text \<open>Strings without NUL, numbers as a predicate allows, and the nesting of arrays and objects.\<close>

fun json_ok :: "(rat \<Rightarrow> bool) \<Rightarrow> json \<Rightarrow> bool" where
  "json_ok N JNull = True"
| "json_ok N (JBool _) = True"
| "json_ok N (JNumber x) = N x"
| "json_ok N (JText s) = (CHR 0x00 \<notin> set s)"
| "json_ok N (JArray xs) = (\<forall>x \<in> set xs. json_ok N x)"
| "json_ok N (JObject ps) = (\<forall>p \<in> set ps. CHR 0x00 \<notin> set (fst p) \<and> json_ok N (snd p))"

fun json_depth :: "json \<Rightarrow> nat" where
  "json_depth (JArray xs) = Suc (Max (insert 0 (set (map json_depth xs))))"
| "json_depth (JObject ps) = Suc (Max (insert 0 (set (map (\<lambda>p. json_depth (snd p)) ps))))"
| "json_depth _ = 0"

lemma json_depth_array_le: "json_depth (JArray xs) \<le> Suc d \<longleftrightarrow> (\<forall>x \<in> set xs. json_depth x \<le> d)"
  by simp

lemma json_depth_object_le: "json_depth (JObject ps) \<le> Suc d \<longleftrightarrow> (\<forall>p \<in> set ps. json_depth (snd p) \<le> d)"
  by simp

declare json_depth.simps(1,2) [simp del]

end
