(* ===== verification/LD_Config.thy ===== *)
theory LD_Config
  imports LD_JSON
begin

text \<open>
  src/config.c: the client configuration. A configuration handle may be \<open>NULL\<close>, which
  every setter of the defensive build rejects. The type parameter is the persistent store
  backend the user may plug in.
\<close>

record 'b LDConfig =
  cfg_key :: string
  baseURI :: string
  streamURI :: string
  eventsURI :: string
  cfg_stream :: bool
  sendEvents :: bool
  eventsCapacity :: u32
  timeout :: u32
  flushInterval :: u32
  pollInterval :: u32
  offline :: bool
  useLDD :: bool
  allAttributesPrivate :: bool
  cfg_privateAttributeNames :: json
  inlineUsersInEvents :: bool
  userKeysCapacity :: u32
  userKeysFlushInterval :: u32
  storeBackend :: "'b option"
  storeCacheMilliseconds :: u32
  wrapperName :: "string option"
  wrapperVersion :: "string option"

definition LDConfigNew :: "string option \<Rightarrow> 'b LDConfig option" where
  "LDConfigNew k = map_option (\<lambda>key. \<lparr>
     cfg_key = key,
     baseURI = ''https://app.launchdarkly.com'',
     streamURI = ''https://stream.launchdarkly.com'',
     eventsURI = ''https://events.launchdarkly.com'',
     cfg_stream = True,
     sendEvents = True,
     eventsCapacity = 10000,
     timeout = 5000,
     flushInterval = 5000,
     pollInterval = 30000,
     offline = False,
     useLDD = False,
     allAttributesPrivate = False,
     cfg_privateAttributeNames = JArray [],
     inlineUsersInEvents = False,
     userKeysCapacity = 1000,
     userKeysFlushInterval = 300000,
     storeBackend = None,
     storeCacheMilliseconds = 30 * 1000,
     wrapperName = None,
     wrapperVersion = None\<rparr>) k"

text \<open>The shape of all setters: reject a \<open>NULL\<close> handle, else update one field.\<close>

definition on_config ::
    "'b LDConfig option \<Rightarrow> ('b LDConfig \<Rightarrow> 'b LDConfig) \<Rightarrow> bool \<times> 'b LDConfig option" where
  "on_config c f = (case c of None \<Rightarrow> (False, None) | Some cfg \<Rightarrow> (True, Some (f cfg)))"

text \<open>The same for the three string setters, which also reject a \<open>NULL\<close> value.\<close>

definition on_config_string ::
    "'b LDConfig option \<Rightarrow> string option \<Rightarrow> (string \<Rightarrow> 'b LDConfig \<Rightarrow> 'b LDConfig)
      \<Rightarrow> bool \<times> 'b LDConfig option" where
  "on_config_string c v f =
     (if c = None then (False, None)
      else case v of None \<Rightarrow> (False, c) | Some s \<Rightarrow> on_config c (f s))"

definition LDConfigSetBaseURI where
  "LDConfigSetBaseURI c v = on_config_string c v (\<lambda>s. baseURI_update (\<lambda>_. s))"

definition LDConfigSetStreamURI where
  "LDConfigSetStreamURI c v = on_config_string c v (\<lambda>s. streamURI_update (\<lambda>_. s))"

definition LDConfigSetEventsURI where
  "LDConfigSetEventsURI c v = on_config_string c v (\<lambda>s. eventsURI_update (\<lambda>_. s))"

definition LDConfigSetStream where
  "LDConfigSetStream c b = snd (on_config c (cfg_stream_update (\<lambda>_. b)))"

definition LDConfigSetSendEvents where
  "LDConfigSetSendEvents c b = snd (on_config c (sendEvents_update (\<lambda>_. b)))"

definition LDConfigSetEventsCapacity where
  "LDConfigSetEventsCapacity c n = snd (on_config c (eventsCapacity_update (\<lambda>_. n)))"

definition LDConfigSetTimeout where
  "LDConfigSetTimeout c n = snd (on_config c (timeout_update (\<lambda>_. n)))"

definition LDConfigSetFlushInterval where
  "LDConfigSetFlushInterval c n = snd (on_config c (flushInterval_update (\<lambda>_. n)))"

definition LDConfigSetPollInterval where
  "LDConfigSetPollInterval c n = snd (on_config c (pollInterval_update (\<lambda>_. n)))"

definition LDConfigSetOffline where
  "LDConfigSetOffline c b = snd (on_config c (offline_update (\<lambda>_. b)))"

definition LDConfigSetUseLDD where
  "LDConfigSetUseLDD c b = snd (on_config c (useLDD_update (\<lambda>_. b)))"

definition LDConfigSetAllAttributesPrivate where
  "LDConfigSetAllAttributesPrivate c b = snd (on_config c (allAttributesPrivate_update (\<lambda>_. b)))"

definition LDConfigInlineUsersInEvents where
  "LDConfigInlineUsersInEvents c b = snd (on_config c (inlineUsersInEvents_update (\<lambda>_. b)))"

definition LDConfigSetUserKeysCapacity where
  "LDConfigSetUserKeysCapacity c n = snd (on_config c (userKeysCapacity_update (\<lambda>_. n)))"

definition LDConfigSetUserKeysFlushInterval where
  "LDConfigSetUserKeysFlushInterval c n =
     snd (on_config c (userKeysFlushInterval_update (\<lambda>_. n)))"

definition LDConfigAddPrivateAttribute ::
    "'b LDConfig option \<Rightarrow> string option \<Rightarrow> bool \<times> 'b LDConfig option" where
  "LDConfigAddPrivateAttribute c v =
     (case (c, v) of
        (Some cfg, Some attribute) \<Rightarrow>
          (let (ok, names) = LDArrayPush (cfg_privateAttributeNames cfg) (Some (JText attribute))
           in (ok, Some (cfg\<lparr>cfg_privateAttributeNames := names\<rparr>)))
      | _ \<Rightarrow> (False, c))"

definition LDConfigSetFeatureStoreBackend where
  "LDConfigSetFeatureStoreBackend c b = snd (on_config c (storeBackend_update (\<lambda>_. b)))"

definition LDConfigSetFeatureStoreBackendCacheTTL where
  "LDConfigSetFeatureStoreBackendCacheTTL c n =
     snd (on_config c (storeCacheMilliseconds_update (\<lambda>_. n)))"

definition LDConfigSetWrapperInfo ::
    "'b LDConfig option \<Rightarrow> string option \<Rightarrow> string option \<Rightarrow> bool \<times> 'b LDConfig option" where
  "LDConfigSetWrapperInfo c name version =
     (case c of
        None \<Rightarrow> (False, None)
      | Some cfg \<Rightarrow>
          if name = None \<and> version \<noteq> None then (False, c)
          else (True, Some (cfg\<lparr>wrapperName := name,
                 wrapperVersion := (if name = None then None else version)\<rparr>)))"

section \<open>Well-formed configurations\<close>

text \<open>
  What the other components rely on: the private attribute names are an array of strings
  (so membership tests never dereference \<open>NULL\<close>) and a wrapper version comes with a name.
\<close>

definition text_array :: "json \<Rightarrow> bool" where
  "text_array j = (case j of JArray xs \<Rightarrow> list_all (\<lambda>x. json_type x = LDText) xs | _ \<Rightarrow> False)"

definition config_wf :: "'b LDConfig \<Rightarrow> bool" where
  "config_wf c \<longleftrightarrow> text_array (cfg_privateAttributeNames c) \<and>
     (wrapperVersion c \<noteq> None \<longrightarrow> wrapperName c \<noteq> None)"

text \<open>One call of the configuration API.\<close>

datatype 'b config_call =
    SetBaseURI "string option" | SetStreamURI "string option" | SetEventsURI "string option"
  | SetStream bool | SetSendEvents bool | SetEventsCapacity u32 | SetTimeout u32
  | SetFlushInterval u32 | SetPollInterval u32 | SetOffline bool | SetUseLDD bool
  | SetAllAttributesPrivate bool | InlineUsersInEvents bool | SetUserKeysCapacity u32
  | SetUserKeysFlushInterval u32 | AddPrivateAttribute "string option"
  | SetFeatureStoreBackend "'b option" | SetFeatureStoreBackendCacheTTL u32
  | SetWrapperInfo "string option" "string option"

primrec config_step :: "'b LDConfig option \<Rightarrow> 'b config_call \<Rightarrow> 'b LDConfig option" where
  "config_step c (SetBaseURI v) = snd (LDConfigSetBaseURI c v)"
| "config_step c (SetStreamURI v) = snd (LDConfigSetStreamURI c v)"
| "config_step c (SetEventsURI v) = snd (LDConfigSetEventsURI c v)"
| "config_step c (SetStream b) = LDConfigSetStream c b"
| "config_step c (SetSendEvents b) = LDConfigSetSendEvents c b"
| "config_step c (SetEventsCapacity n) = LDConfigSetEventsCapacity c n"
| "config_step c (SetTimeout n) = LDConfigSetTimeout c n"
| "config_step c (SetFlushInterval n) = LDConfigSetFlushInterval c n"
| "config_step c (SetPollInterval n) = LDConfigSetPollInterval c n"
| "config_step c (SetOffline b) = LDConfigSetOffline c b"
| "config_step c (SetUseLDD b) = LDConfigSetUseLDD c b"
| "config_step c (SetAllAttributesPrivate b) = LDConfigSetAllAttributesPrivate c b"
| "config_step c (InlineUsersInEvents b) = LDConfigInlineUsersInEvents c b"
| "config_step c (SetUserKeysCapacity n) = LDConfigSetUserKeysCapacity c n"
| "config_step c (SetUserKeysFlushInterval n) = LDConfigSetUserKeysFlushInterval c n"
| "config_step c (AddPrivateAttribute v) = snd (LDConfigAddPrivateAttribute c v)"
| "config_step c (SetFeatureStoreBackend b) = LDConfigSetFeatureStoreBackend c b"
| "config_step c (SetFeatureStoreBackendCacheTTL n) = LDConfigSetFeatureStoreBackendCacheTTL c n"
| "config_step c (SetWrapperInfo n v) = snd (LDConfigSetWrapperInfo c n v)"

lemmas config_setter_defs =
  LDConfigSetBaseURI_def LDConfigSetStreamURI_def LDConfigSetEventsURI_def LDConfigSetStream_def
  LDConfigSetSendEvents_def LDConfigSetEventsCapacity_def LDConfigSetTimeout_def
  LDConfigSetFlushInterval_def LDConfigSetPollInterval_def LDConfigSetOffline_def
  LDConfigSetUseLDD_def LDConfigSetAllAttributesPrivate_def LDConfigInlineUsersInEvents_def
  LDConfigSetUserKeysCapacity_def LDConfigSetUserKeysFlushInterval_def
  LDConfigAddPrivateAttribute_def LDConfigSetFeatureStoreBackend_def
  LDConfigSetFeatureStoreBackendCacheTTL_def LDConfigSetWrapperInfo_def
  on_config_def on_config_string_def

lemma text_array_push: "text_array a \<Longrightarrow> text_array (snd (LDArrayPush a (Some (JText s))))"
  by (cases a) (auto simp: text_array_def LDArrayPush_def)

lemma config_new_wf: "LDConfigNew k = Some c \<Longrightarrow> config_wf c"
  by (auto simp: LDConfigNew_def config_wf_def text_array_def)

lemma config_step_wf:
  assumes "config_wf c"
  shows "\<exists>c'. config_step (Some c) call = Some c' \<and> config_wf c'"
  using assms text_array_push [of "cfg_privateAttributeNames c"]
  by (cases call)
    (auto simp: config_setter_defs config_wf_def case_prod_beta split: option.splits)

lemma config_steps_wf: "config_wf c \<Longrightarrow> \<exists>c'. foldl config_step (Some c) calls = Some c' \<and> config_wf c'"
proof (induction calls arbitrary: c)
  case (Cons call calls)
  obtain c' where "config_step (Some c) call = Some c'" "config_wf c'"
    using config_step_wf [OF Cons.prems] by blast
  with Cons.IH show ?case by simp
qed simp

text \<open>
  No sequence of configuration calls, with whatever arguments (\<open>NULL\<close> strings
  included), breaks a configuration: starting from \<open>LDConfigNew\<close> the handle stays valid,
  the private attribute names stay an array of strings and a wrapper version never stands
  without a wrapper name; on a \<open>NULL\<close> handle every call leaves \<open>NULL\<close>.
\<close>

theorem config_calls_wf:
  fixes calls :: "'b config_call list"
  shows "(\<exists>c. foldl config_step (LDConfigNew (Some k)) calls = Some c \<and>
     text_array (cfg_privateAttributeNames c) \<and>
     (wrapperName c = None \<longrightarrow> wrapperVersion c = None)) \<and>
   foldl config_step (LDConfigNew None) calls = None"
proof
  obtain c :: "'b LDConfig" where "LDConfigNew (Some k) = Some c" by (simp add: LDConfigNew_def)
  with config_steps_wf [OF config_new_wf [OF this], of calls]
  show "\<exists>c. foldl config_step (LDConfigNew (Some k)) calls = Some c \<and>
     text_array (cfg_privateAttributeNames c) \<and> (wrapperName c = None \<longrightarrow> wrapperVersion c = None)"
    by (auto simp: config_wf_def)
  have "config_step None call = None" for call :: "'b config_call"
    by (cases call) (auto simp: config_setter_defs split: option.splits)
  then show "foldl config_step (LDConfigNew None) calls = None"
    by (induction calls) (simp_all add: LDConfigNew_def)
qed

theorem config_calls_wf_witness:
  "\<exists>c. foldl config_step (LDConfigNew (Some ''key''))
      [SetWrapperInfo (Some ''w'') (Some ''1''), AddPrivateAttribute (Some ''email''),
       SetBaseURI None, SetWrapperInfo None (Some ''2'')] = Some (c :: unit LDConfig) \<and>
    text_array (cfg_privateAttributeNames c)"
  using config_calls_wf [of "''key''" "[SetWrapperInfo (Some ''w'') (Some ''1''),
      AddPrivateAttribute (Some ''email''), SetBaseURI None, SetWrapperInfo None (Some ''2'')]"]
  by blast

end
