(* ===== verification/LD_User.thy ===== *)
theory LD_User
  imports LD_Config
begin

text \<open>
  c-sdk-common/src/user.c: the user whose flags are evaluated, reading an attribute by name,
  and the conversion to JSON for analytics events with private attributes redacted.

  The main result is the privacy theorem: with redaction on, no value of a private attribute
  is in the JSON, its name is in \<open>privateAttrs\<close>, and every other attribute is there.
\<close>

record LDUser =
  user_key :: string
  anonymous :: bool
  secondary :: "string option"
  ip :: "string option"
  firstName :: "string option"
  lastName :: "string option"
  email :: "string option"
  user_name :: "string option"
  avatar :: "string option"
  country :: "string option"
  privateAttributeNames :: json
  custom :: "json option"

definition LDi_userNew :: "string \<Rightarrow> LDUser" where
  "LDi_userNew k = \<lparr>user_key = k, anonymous = False, secondary = None, ip = None,
     firstName = None, lastName = None, email = None, user_name = None, avatar = None,
     country = None, privateAttributeNames = JArray [], custom = None\<rparr>"

definition LDUserNew :: "string option \<Rightarrow> LDUser option" where
  "LDUserNew k = map_option LDi_userNew k"

section \<open>Setters\<close>

text \<open>
  The setters reject a \<open>NULL\<close> user (except \<open>LDUserSetFirstName\<close>, which has no
  such check and dereferences it); \<open>LDSetString\<close> stores a copy, or \<open>NULL\<close>.
\<close>

definition on_user :: "LDUser option \<Rightarrow> (LDUser \<Rightarrow> LDUser) \<Rightarrow> (bool \<times> LDUser option) run" where
  "on_user u f = (case u of None \<Rightarrow> Inr (False, None) | Some x \<Rightarrow> Inr (True, Some (f x)))"

definition LDUserSetAnonymous where
  "LDUserSetAnonymous u b = on_user u (anonymous_update (\<lambda>_. b))"

definition LDUserSetIP where
  "LDUserSetIP u v = on_user u (ip_update (\<lambda>_. v))"

definition LDUserSetFirstName :: "LDUser option \<Rightarrow> string option \<Rightarrow> (bool \<times> LDUser option) run" where
  "LDUserSetFirstName u v =
     (case u of None \<Rightarrow> Inl NullPointer | Some x \<Rightarrow> Inr (True, Some (x\<lparr>firstName := v\<rparr>)))"

definition LDUserSetLastName where
  "LDUserSetLastName u v = on_user u (lastName_update (\<lambda>_. v))"

definition LDUserSetEmail where
  "LDUserSetEmail u v = on_user u (email_update (\<lambda>_. v))"

definition LDUserSetName where
  "LDUserSetName u v = on_user u (user_name_update (\<lambda>_. v))"

definition LDUserSetAvatar where
  "LDUserSetAvatar u v = on_user u (avatar_update (\<lambda>_. v))"

definition LDUserSetCountry where
  "LDUserSetCountry u v = on_user u (country_update (\<lambda>_. v))"

definition LDUserSetSecondary where
  "LDUserSetSecondary u v = on_user u (secondary_update (\<lambda>_. v))"

definition LDUserSetCustom where
  "LDUserSetCustom u v = on_user u (custom_update (\<lambda>_. v))"

definition LDUserSetPrivateAttributes ::
    "LDUser option \<Rightarrow> json option \<Rightarrow> (bool \<times> LDUser option) run" where
  "LDUserSetPrivateAttributes u v =
     (case (u, v) of
        (Some x, Some names) \<Rightarrow> Inr (True, Some (x\<lparr>privateAttributeNames := names\<rparr>))
      | _ \<Rightarrow> Inr (False, u))"

definition LDUserAddPrivateAttribute ::
    "LDUser option \<Rightarrow> string option \<Rightarrow> (bool \<times> LDUser option) run" where
  "LDUserAddPrivateAttribute u v =
     (case (u, v) of
        (Some x, Some attribute) \<Rightarrow>
          (let (ok, names) = LDArrayPush (privateAttributeNames x) (Some (JText attribute))
           in Inr (ok, Some (x\<lparr>privateAttributeNames := names\<rparr>)))
      | _ \<Rightarrow> Inr (False, u))"

section \<open>Attributes\<close>

text \<open>\<open>strcmp\<close> on an element that is not a string gets a \<open>NULL\<close> argument.\<close>

fun text_in_values :: "json list \<Rightarrow> string \<Rightarrow> bool run" where
  "text_in_values [] text = Inr False"
| "text_in_values (x # xs) text =
     (case LDGetText (Some x) of
        None \<Rightarrow> Inl NullPointer
      | Some t \<Rightarrow> if t = text then Inr True else text_in_values xs text)"

definition LDi_textInArray :: "json option \<Rightarrow> string \<Rightarrow> bool run" where
  "LDi_textInArray arr text =
     run_bind (LD_ASSERT (arr \<noteq> None)) (\<lambda>_. text_in_values (iter_values arr) text)"

definition isPrivateAttr :: "LDUser \<Rightarrow> string \<Rightarrow> bool \<Rightarrow> json option \<Rightarrow> bool run" where
  "isPrivateAttr user k allPrivate globalNames =
     (if allPrivate then Inr True
      else run_bind
        (case globalNames of None \<Rightarrow> Inr False | Some g \<Rightarrow> LDi_textInArray (Some g) k)
        (\<lambda>found. if found then Inr True
           else LDi_textInArray (Some (privateAttributeNames user)) k))"

definition LDi_valueOfAttribute :: "LDUser \<Rightarrow> string \<Rightarrow> json option run" where
  "LDi_valueOfAttribute user attribute =
     (if attribute = ''key'' then Inr (Some (JText (user_key user)))
      else if attribute = ''secondary'' then Inr (map_option JText (secondary user))
      else if attribute = ''ip'' then Inr (map_option JText (ip user))
      else if attribute = ''email'' then Inr (map_option JText (email user))
      else if attribute = ''firstName'' then Inr (map_option JText (firstName user))
      else if attribute = ''lastName'' then Inr (map_option JText (lastName user))
      else if attribute = ''avatar'' then Inr (map_option JText (avatar user))
      else if attribute = ''country'' then Inr (map_option JText (country user))
      else if attribute = ''name'' then Inr (map_option JText (user_name user))
      else if attribute = ''anonymous'' then Inr (Some (JBool (anonymous user)))
      else case custom user of
          None \<Rightarrow> Inr None
        | Some c \<Rightarrow> run_bind (LD_ASSERT (json_type c = LDObject))
            (\<lambda>_. Inr (LDObjectLookup (Some c) attribute)))"

section \<open>Conversion to JSON\<close>

definition addHidden :: "json option \<Rightarrow> string \<Rightarrow> json option" where
  "addHidden hidden v =
     Some (snd (LDArrayPush (case hidden of None \<Rightarrow> JArray [] | Some h \<Rightarrow> h) (Some (JText v))))"

text \<open>The \<open>addstring\<close> macro: one optional string field, over (json, hidden).\<close>

definition addstring ::
    "(string \<Rightarrow> bool run) \<Rightarrow> bool \<Rightarrow> string \<times> string option \<Rightarrow> json \<times> json option
      \<Rightarrow> (json \<times> json option) run" where
  "addstring private redact field st =
     (case (field, st) of
        ((fname, value), (json, hidden)) \<Rightarrow>
          (case value of
             None \<Rightarrow> Inr (json, hidden)
           | Some v \<Rightarrow>
               run_bind (if redact then private fname else Inr False)
                 (\<lambda>p. if p then Inr (json, addHidden hidden fname)
                      else Inr (set_key fname (JText v) json, hidden))))"

definition user_strings :: "LDUser \<Rightarrow> (string \<times> string option) list" where
  "user_strings user =
     [(''secondary'', secondary user), (''ip'', ip user), (''firstName'', firstName user),
      (''lastName'', lastName user), (''email'', email user), (''name'', user_name user),
      (''avatar'', avatar user), (''country'', country user)]"

fun addstrings ::
    "(string \<Rightarrow> bool run) \<Rightarrow> bool \<Rightarrow> (string \<times> string option) list \<Rightarrow> json \<times> json option
      \<Rightarrow> (json \<times> json option) run" where
  "addstrings private redact [] st = Inr st"
| "addstrings private redact (f # fs) st =
     run_bind (addstring private redact f st) (\<lambda>st'. addstrings private redact fs st')"

text \<open>The loop over a copy of the custom attributes, over (custom, hidden).\<close>

fun redact_custom ::
    "(string \<Rightarrow> bool run) \<Rightarrow> (string \<times> json) list \<Rightarrow> json \<times> json option
      \<Rightarrow> (json \<times> json option) run" where
  "redact_custom private [] st = Inr st"
| "redact_custom private ((k, v) # ps) (c, hidden) =
     run_bind (private k)
       (\<lambda>p. if p then redact_custom private ps (LDObjectDeleteKey c k, addHidden hidden k)
            else redact_custom private ps (c, hidden))"

definition LDi_userToJSON :: "LDUser \<Rightarrow> bool \<Rightarrow> bool \<Rightarrow> json option \<Rightarrow> json run" where
  "LDi_userToJSON user redact allPrivate globalNames =
     (let private = (\<lambda>k. isPrivateAttr user k allPrivate globalNames);
          json0 = set_key ''key'' (JText (user_key user)) (JObject []);
          json1 = (if anonymous user then set_key ''anonymous'' (JBool True) json0 else json0)
      in run_bind (addstrings private redact (user_strings user) (json1, None))
        (\<lambda>(json2, hidden2).
          run_bind
            (case custom user of
               None \<Rightarrow> Inr (json2, hidden2)
             | Some c \<Rightarrow>
                 run_bind
                   (case (redact, c) of
                      (True, JObject ps) \<Rightarrow> redact_custom private ps (c, hidden2)
                    | _ \<Rightarrow> Inr (c, hidden2))
                   (\<lambda>(c', hidden3). Inr (set_key ''custom'' c' json2, hidden3)))
            (\<lambda>(json3, hidden3).
              Inr (case hidden3 of
                     None \<Rightarrow> json3
                   | Some h \<Rightarrow> set_key ''privateAttrs'' h json3))))"

section \<open>Private attributes\<close>

text \<open>What the configuration and the user declare private.\<close>

definition private_attr :: "LDUser \<Rightarrow> bool \<Rightarrow> json option \<Rightarrow> string \<Rightarrow> bool" where
  "private_attr user allPrivate globalNames k \<longleftrightarrow>
     allPrivate \<or> JText k \<in> set (iter_values globalNames) \<or>
     JText k \<in> set (iter_values (Some (privateAttributeNames user)))"

text \<open>
  A user as the API builds it: private names are strings, custom attributes an object
  without repeated keys.
\<close>

definition user_wf :: "LDUser \<Rightarrow> bool" where
  "user_wf user \<longleftrightarrow> text_array (privateAttributeNames user) \<and>
     (case custom user of None \<Rightarrow> True | Some c \<Rightarrow> is_object c)"

definition names_wf :: "json option \<Rightarrow> bool" where
  "names_wf g = (case g of None \<Rightarrow> True | Some j \<Rightarrow> text_array j)"

lemma text_in_values_eq:
  "list_all (\<lambda>x. json_type x = LDText) xs \<Longrightarrow> text_in_values xs t = Inr (JText t \<in> set xs)"
  by (induction xs) auto

lemma LDi_textInArray_eq:
  "text_array a \<Longrightarrow> LDi_textInArray (Some a) t = Inr (JText t \<in> set (iter_values (Some a)))"
  by (cases a) (simp_all add: LDi_textInArray_def text_array_def text_in_values_eq)

lemma valueOfAttribute_returns:
  assumes "user_wf user"
  shows "returns (LDi_valueOfAttribute user attribute)"
proof -
  have "returns (case custom user of None \<Rightarrow> Inr None
      | Some c \<Rightarrow> run_bind (LD_ASSERT (json_type c = LDObject))
          (\<lambda>_. Inr (LDObjectLookup (Some c) attribute)))"
    using assms by (auto simp: user_wf_def is_object_iff split: option.splits)
  then show ?thesis unfolding LDi_valueOfAttribute_def by simp
qed

lemma isPrivateAttr_eq:
  "user_wf user \<Longrightarrow> names_wf g \<Longrightarrow> isPrivateAttr user k allp g = Inr (private_attr user allp g k)"
  by (auto simp: isPrivateAttr_def user_wf_def names_wf_def private_attr_def LDi_textInArray_eq
      split: option.splits)

section \<open>The conversion in closed form\<close>

abbreviation hide_all :: "json option \<Rightarrow> string list \<Rightarrow> json option" where
  "hide_all h ks \<equiv> fold (\<lambda>k h. addHidden h k) ks h"

fun kept_fields :: "(string \<Rightarrow> bool) \<Rightarrow> (string \<times> string option) list \<Rightarrow> (string \<times> json) list" where
  "kept_fields P [] = []"
| "kept_fields P ((f, v) # fs) =
     (case v of Some s \<Rightarrow> if P f then kept_fields P fs else (f, JText s) # kept_fields P fs
      | None \<Rightarrow> kept_fields P fs)"

fun hidden_fields :: "(string \<Rightarrow> bool) \<Rightarrow> (string \<times> string option) list \<Rightarrow> string list" where
  "hidden_fields P [] = []"
| "hidden_fields P ((f, v) # fs) =
     (if v \<noteq> None \<and> P f then f # hidden_fields P fs else hidden_fields P fs)"

lemma addstrings_eq:
  "addstrings (\<lambda>k. Inr (P k)) True fs (j, h) =
     Inr (fold (\<lambda>(k, v) c. set_key k v c) (kept_fields P fs) j, hide_all h (hidden_fields P fs))"
proof (induction fs arbitrary: j h)
  case (Cons f fs)
  obtain n v where "f = (n, v)" by (cases f)
  then show ?case by (cases v) (simp_all add: addstring_def Cons.IH)
qed simp

lemma redact_custom_eq:
  "redact_custom (\<lambda>k. Inr (P k)) ps (c, h) =
     Inr (fold (\<lambda>k c. LDObjectDeleteKey c k) (filter P (map fst ps)) c,
          hide_all h (filter P (map fst ps)))"
proof (induction ps arbitrary: c h)
  case (Cons p ps)
  then show ?case by (cases p) simp
qed simp

lemma delete_all_lookup:
  "is_object c \<Longrightarrow> LDObjectLookup (Some (fold (\<lambda>k c. LDObjectDeleteKey c k) ks c)) k =
     (if k \<in> set ks then None else LDObjectLookup (Some c) k)"
  by (induction ks arbitrary: c) (simp_all add: obj_laws)

lemma hide_all_array:
  "hide_all (Some (JArray xs)) ks = Some (JArray (xs @ map JText ks))"
  by (induction ks arbitrary: xs) (simp_all add: addHidden_def LDArrayPush_def)

lemma hide_all_None:
  "hide_all None ks = (if ks = [] then None else Some (JArray (map JText ks)))"
proof (cases ks)
  case (Cons k ks')
  then show ?thesis using hide_all_array [of ks' "[JText k]"]
    by (simp add: addHidden_def LDArrayPush_def)
qed simp

lemma map_of_rev_kept:
  assumes "distinct (map fst fs)"
  shows "map_of (rev (kept_fields P fs)) f =
    (case map_of fs f of Some (Some s) \<Rightarrow> if P f then None else Some (JText s) | _ \<Rightarrow> None)"
  using assms
proof (induction fs)
  case (Cons x fs)
  obtain n v where x: "x = (n, v)" by (cases x)
  with Cons.prems have "map_of fs n = None" by (simp add: map_of_eq_None_iff)
  with Cons x show ?case
    by (cases v) (auto simp: map_add_def split: option.splits)
qed simp

text \<open>The JSON document of a well-formed user, redaction on.\<close>

definition user_base :: "LDUser \<Rightarrow> (string \<Rightarrow> bool) \<Rightarrow> json" where
  "user_base user P =
     fold (\<lambda>(k, v) c. set_key k v c) (kept_fields P (user_strings user))
       (JObject ((''key'', JText (user_key user)) #
          (if anonymous user then [(''anonymous'', JBool True)] else [])))"

definition hidden_names :: "LDUser \<Rightarrow> (string \<Rightarrow> bool) \<Rightarrow> string list" where
  "hidden_names user P =
     hidden_fields P (user_strings user) @
     (case custom user of Some (JObject ps) \<Rightarrow> filter P (map fst ps) | _ \<Rightarrow> [])"

lemma LDi_userToJSON_eq:
  fixes allp :: bool
  assumes "user_wf user" and "names_wf g"
  defines "P \<equiv> private_attr user allp g"
  shows "LDi_userToJSON user True allp g = Inr
    (let j = (case custom user of
                None \<Rightarrow> user_base user P
              | Some c \<Rightarrow> set_key ''custom''
                  (fold (\<lambda>k c. LDObjectDeleteKey c k)
                     (filter P (map fst (case c of JObject ps \<Rightarrow> ps | _ \<Rightarrow> []))) c)
                  (user_base user P))
     in if hidden_names user P = [] then j
        else set_key ''privateAttrs'' (JArray (map JText (hidden_names user P))) j)"
proof -
  have priv: "(\<lambda>k. isPrivateAttr user k allp g) = (\<lambda>k. Inr (P k))"
    using isPrivateAttr_eq [OF assms(1,2)] by (simp add: P_def fun_eq_iff)
  have base: "(if anonymous user then set_key ''anonymous'' (JBool True) j0 else j0) =
      JObject ((''key'', JText (user_key user)) #
          (if anonymous user then [(''anonymous'', JBool True)] else []))"
    if "j0 = set_key ''key'' (JText (user_key user)) (JObject [])" for j0
    using that by simp
  show ?thesis
  proof (cases "custom user")
    case None
    then show ?thesis
      unfolding LDi_userToJSON_def priv Let_def base [OF refl] addstrings_eq
      by (simp add: user_base_def hidden_names_def hide_all_None)
  next
    case (Some c)
    then obtain ps where c: "c = JObject ps"
      using assms(1) by (auto simp: user_wf_def is_object_iff)
    have "hide_all (hide_all None xs) ys = hide_all None (xs @ ys)" for xs ys by simp
    then show ?thesis
      unfolding LDi_userToJSON_def priv Let_def base [OF refl] addstrings_eq
      by (simp add: user_base_def hidden_names_def hide_all_None Some c redact_custom_eq
          del: fold_append LDObjectSetKey_object LDObjectDeleteKey_object)
  qed
qed

lemma is_object_user_base: "is_object (user_base user P)"
  unfolding user_base_def by (rule obj.ok_put_all) (simp add: is_object_def)

lemma user_base_lookup:
  "LDObjectLookup (Some (user_base user P)) f =
    (case map_of (user_strings user) f of
       Some (Some s) \<Rightarrow> if P f then None else Some (JText s)
     | Some None \<Rightarrow> None
     | None \<Rightarrow> if f = ''key'' then Some (JText (user_key user))
        else if f = ''anonymous'' \<and> anonymous user then Some (JBool True) else None)"
proof -
  have obj: "is_object (JObject ((''key'', JText (user_key user)) #
          (if anonymous user then [(''anonymous'', JBool True)] else [])))"
    by (simp add: is_object_def)
  have d: "distinct (map fst (user_strings user))"
    by (simp add: user_strings_def)
  have other: "f \<noteq> ''key'' \<and> f \<noteq> ''anonymous''" if "map_of (user_strings user) f = Some v" for v
    using map_of_SomeD [OF that] by (auto simp: user_strings_def)
  show ?thesis
    unfolding user_base_def obj.find_put_all [OF obj] map_of_rev_kept [OF d]
    using other by (cases "map_of (user_strings user) f") (auto split: option.split)
qed

lemma user_string_names:
  "(f, v) \<in> set (user_strings user) \<Longrightarrow> f \<noteq> ''custom'' \<and> f \<noteq> ''privateAttrs''"
  by (auto simp: user_strings_def)

lemma map_of_user_strings:
  "(f, v) \<in> set (user_strings user) \<Longrightarrow> map_of (user_strings user) f = Some v"
  by (rule map_of_is_SomeI) (simp_all add: user_strings_def)

lemma set_hidden_fields:
  "k \<in> set (hidden_fields P fs) \<longleftrightarrow> P k \<and> (\<exists>s. (k, Some s) \<in> set fs)"
  by (induction fs) (auto split: if_splits)

lemma set_hidden_names:
  assumes "user_wf user"
  shows "k \<in> set (hidden_names user P) \<longleftrightarrow>
    P k \<and> ((\<exists>s. (k, Some s) \<in> set (user_strings user)) \<or> LDObjectLookup (custom user) k \<noteq> None)"
proof (cases "custom user")
  case None
  then show ?thesis by (simp add: hidden_names_def set_hidden_fields)
next
  case (Some c)
  then obtain ps where "c = JObject ps"
    using assms by (auto simp: user_wf_def is_object_iff)
  then show ?thesis
    by (auto simp: hidden_names_def set_hidden_fields Some map_of_eq_None_iff)
qed

text \<open>
  The attributes of a user that are strings, by the names they have in events.
\<close>

definition string_attributes :: "LDUser \<Rightarrow> (string \<times> string option) list" where
  "string_attributes user =
     [(''ip'', ip user), (''email'', email user), (''name'', user_name user),
      (''firstName'', firstName user), (''lastName'', lastName user), (''avatar'', avatar user),
      (''country'', country user), (''secondary'', secondary user)]"

text \<open>
  C17: Privacy. With redaction on, the JSON of a user has its key, whatever is private; of its
  eight string attributes exactly those that are set and not private, with their values; its
  custom attributes that are not private; a list \<open>privateAttrs\<close> of exactly the private string
  and custom attributes the user has; and nothing else but \<open>anonymous\<close>, which is there whenever
  it is set, even if it is declared private or all attributes are.
\<close>

theorem userToJSON_redacts:
  fixes allp :: bool
  assumes wf: "user_wf user" "names_wf g"
  shows "\<exists>j. LDi_userToJSON user True allp g = Inr j \<and>
    LDObjectLookup (Some j) ''key'' = Some (JText (user_key user)) \<and>
    LDObjectLookup (Some j) ''anonymous'' = (if anonymous user then Some (JBool True) else None) \<and>
    (\<forall>f v. (f, v) \<in> set (string_attributes user) \<longrightarrow>
       LDObjectLookup (Some j) f =
         (if private_attr user allp g f then None else map_option JText v)) \<and>
    (\<forall>k. LDObjectLookup (LDObjectLookup (Some j) ''custom'') k =
         (if private_attr user allp g k then None else LDObjectLookup (custom user) k)) \<and>
    (\<forall>k. JText k \<in> set (iter_values (LDObjectLookup (Some j) ''privateAttrs'')) \<longleftrightarrow>
         private_attr user allp g k \<and>
         ((\<exists>s. (k, Some s) \<in> set (string_attributes user)) \<or> LDObjectLookup (custom user) k \<noteq> None)) \<and>
    (\<forall>f. f \<notin> {''key'', ''anonymous'', ''custom'', ''privateAttrs''} \<union> fst ` set (string_attributes user) \<longrightarrow>
       LDObjectLookup (Some j) f = None)"
proof -
  define P where "P = private_attr user allp g"
  define b where "b = user_base user P"
  define c' where "c' = (\<lambda>c. fold (\<lambda>k c. LDObjectDeleteKey c k)
    (filter P (map fst (case c of JObject ps \<Rightarrow> ps | _ \<Rightarrow> []))) c)"
  define j0 where "j0 = (case custom user of None \<Rightarrow> b | Some c \<Rightarrow> set_key ''custom'' (c' c) b)"
  define h where "h = hidden_names user P"
  define j where "j = (if h = [] then j0 else set_key ''privateAttrs'' (JArray (map JText h)) j0)"
  have eq: "LDi_userToJSON user True allp g = Inr j"
    unfolding j_def j0_def b_def h_def c'_def P_def
    using LDi_userToJSON_eq [OF wf, of allp] by (simp only: Let_def)
  have ob: "is_object b" by (simp add: b_def is_object_user_base)
  have ok: "is_object j0" using ob by (auto simp: j0_def obj_laws split: option.split)
  have names: "LDObjectLookup (Some b) ''custom'' = None"
      "LDObjectLookup (Some b) ''privateAttrs'' = None"
      "LDObjectLookup (Some b) ''key'' = Some (JText (user_key user))"
    by (simp_all add: b_def user_base_lookup, simp_all add: user_strings_def)
  have lk: "LDObjectLookup (Some j) f = (if f = ''privateAttrs'' \<and> h \<noteq> [] then
      Some (JArray (map JText h)) else if f = ''custom'' then map_option c' (custom user)
      else LDObjectLookup (Some b) f)" for f
    using ob ok names by (auto simp: j_def j0_def obj_laws split: option.split)
  have cust: "LDObjectLookup (map_option c' (custom user)) k =
      (if P k then None else LDObjectLookup (custom user) k)" for k
    using wf(1) by (auto simp: c'_def user_wf_def is_object_iff delete_all_lookup
        map_of_eq_None_iff is_object_def split: option.splits)
  have strings: "set (string_attributes user) = set (user_strings user)"
    by (auto simp: string_attributes_def user_strings_def)
  have field: "LDObjectLookup (Some j) f = (if P f then None else map_option JText v)"
    if "(f, v) \<in> set (user_strings user)" for f v
    using user_string_names [OF that] map_of_user_strings [OF that]
    by (cases v) (simp_all add: lk b_def user_base_lookup)
  have anon: "LDObjectLookup (Some j) ''anonymous'' = (if anonymous user then Some (JBool True) else None)"
    by (simp add: lk b_def user_base_lookup) (simp add: user_strings_def)
  have rest: "LDObjectLookup (Some j) f = None"
    if "f \<notin> {''key'', ''anonymous'', ''custom'', ''privateAttrs''} \<union> fst ` set (user_strings user)" for f
  proof -
    have "map_of (user_strings user) f = None" using that by (simp add: map_of_eq_None_iff)
    with that show ?thesis by (simp add: lk b_def user_base_lookup)
  qed
  have hid: "JText k \<in> set (iter_values (LDObjectLookup (Some j) ''privateAttrs'')) \<longleftrightarrow>
      k \<in> set h" for k
    using names by (auto simp: lk)
  show ?thesis
    unfolding strings
    using eq field hid cust names(3) lk [of "''key''"] lk [of "''custom''"] anon rest
    by (intro exI [of _ j]) (simp add: h_def P_def set_hidden_names [OF wf(1)])
qed

theorem userToJSON_redacts_witness:
  "\<exists>j. LDi_userToJSON
      ((LDi_userNew ''bob'')\<lparr>anonymous := True, email := Some ''b@x.org'', country := Some ''de'',
        privateAttributeNames := JArray [JText ''email'', JText ''plan'', JText ''anonymous''],
        custom := Some (JObject [(''plan'', JText ''gold''), (''age'', JNumber 7)])\<rparr>)
      True False (Some (JArray [])) = Inr j \<and>
    LDObjectLookup (Some j) ''anonymous'' = Some (JBool True) \<and>
    LDObjectLookup (Some j) ''email'' = None \<and>
    LDObjectLookup (Some j) ''country'' = Some (JText ''de'') \<and>
    LDObjectLookup (LDObjectLookup (Some j) ''custom'') ''plan'' = None \<and>
    LDObjectLookup (LDObjectLookup (Some j) ''custom'') ''age'' = Some (JNumber 7)"
proof -
  let ?u = "(LDi_userNew ''bob'')\<lparr>anonymous := True, email := Some ''b@x.org'', country := Some ''de'',
        privateAttributeNames := JArray [JText ''email'', JText ''plan'', JText ''anonymous''],
        custom := Some (JObject [(''plan'', JText ''gold''), (''age'', JNumber 7)])\<rparr>"
  have wf: "user_wf ?u" "names_wf (Some (JArray []))"
    by (simp_all add: user_wf_def names_wf_def text_array_def is_object_def)
  have mem: "(''email'', Some ''b@x.org'') \<in> set (string_attributes ?u)"
      "(''country'', Some ''de'') \<in> set (string_attributes ?u)"
    by (simp_all add: string_attributes_def)
  have priv: "private_attr ?u False (Some (JArray [])) k \<longleftrightarrow>
      k = ''email'' \<or> k = ''plan'' \<or> k = ''anonymous''" for k
    by (auto simp: private_attr_def)
  obtain j where "LDi_userToJSON ?u True False (Some (JArray [])) = Inr j"
    "LDObjectLookup (Some j) ''anonymous'' = (if anonymous ?u then Some (JBool True) else None)"
    "\<forall>f v. (f, v) \<in> set (string_attributes ?u) \<longrightarrow> LDObjectLookup (Some j) f =
         (if private_attr ?u False (Some (JArray [])) f then None else map_option JText v)"
    "\<forall>k. LDObjectLookup (LDObjectLookup (Some j) ''custom'') k =
         (if private_attr ?u False (Some (JArray [])) k then None
          else LDObjectLookup (custom ?u) k)"
    using userToJSON_redacts [OF wf, of False] by (elim exE conjE) (rule that; assumption)
  then show ?thesis
    using mem by (intro exI [of _ j]) (simp add: priv)
qed

end
