(* ===== verification/LD_Bucket.thy ===== *)
theory LD_Bucket
  imports LD_SHA1 LD_Numeric LD_User
begin

text \<open>
  The bucketing half of src/evaluate.c: the position of a user in the unit interval, computed
  from the SHA-1 digest in \<open>float\<close> arithmetic, and the choice of a variation by weights.
  Every \<open>float\<close> operation is the exact operation followed by \<open>to_float\<close>, every
  \<open>double\<close> operation by \<open>to_double\<close>.
\<close>

section \<open>The bucket of a user\<close>

definition LDi_getBucketAttribute :: "json option \<Rightarrow> string option run" where
  "LDi_getBucketAttribute obj =
     run_bind (LD_ASSERT (LDJSONGetType obj = LDObject)) (\<lambda>_.
       let bucketBy = LDObjectLookup obj ''bucketBy'' in
       if \<not> LDi_notNull bucketBy then Inr (Some ''key'')
       else Inr (LDGetText bucketBy))"

definition hex_value :: "char \<Rightarrow> nat option" where
  "hex_value c =
     (let i = of_char c :: nat in
      if 48 \<le> i \<and> i \<le> 57 then Some (i - 48)
      else if 97 \<le> i \<and> i \<le> 102 then Some (i - 87)
      else None)"

fun hex_acc :: "string \<Rightarrow> rat \<Rightarrow> rat" where
  "hex_acc [] acc = acc"
| "hex_acc (c # cs) acc =
     (case hex_value c of
        None \<Rightarrow> 0
      | Some charOffset \<Rightarrow> hex_acc cs (to_float (to_float (acc * 16) + of_nat charOffset)))"

definition LDi_hexToDecimal :: "string \<Rightarrow> rat" where
  "LDi_hexToDecimal input = hex_acc input 0"

definition longScale :: rat where
  "longScale = to_float 1152921504606846975"

text \<open>The text that is digested, from a seed or from the key and salt of the feature.\<close>

definition bucket_raw :: "LDUser \<Rightarrow> string \<Rightarrow> string \<Rightarrow> int option \<Rightarrow> string \<Rightarrow> string" where
  "bucket_raw user segmentKey salt seed bucketable =
     (case seed of
        Some s \<Rightarrow> show_int s @ ''.'' @ bucketable
      | None \<Rightarrow> segmentKey @ ''.'' @ salt @ ''.'' @ bucketable) @
     (case secondary user of None \<Rightarrow> '''' | Some t \<Rightarrow> ''.'' @ t)"

text \<open>
  The result is the status and \<open>*bucket\<close>, which is zero unless the status is true. The
  buffers hold 255 characters: a longer number is cut, a longer raw text fails.
\<close>

definition LDi_bucketUser ::
    "LDUser \<Rightarrow> string option \<Rightarrow> string \<Rightarrow> string option \<Rightarrow> int option \<Rightarrow> (bool \<times> rat) run" where
  "LDi_bucketUser user segmentKey attribute salt seed =
     (case (segmentKey, salt) of
        (Some key, Some slt) \<Rightarrow>
          run_bind (LDi_valueOfAttribute user attribute) (\<lambda>attributeValue.
            let bucketable = (case attributeValue of
                  Some (JText t) \<Rightarrow> Some t
                | Some (JNumber x) \<Rightarrow> Some (take 255 (printf_f x))
                | _ \<Rightarrow> None)
            in case bucketable of
                 None \<Rightarrow> Inr (False, 0)
               | Some b \<Rightarrow>
                   (let raw = bucket_raw user key slt seed b in
                    if length raw < 256 then
                      let (status, encoded) = hexify (SHA1 raw) 17 in
                      run_bind (LD_ASSERT (status = 16)) (\<lambda>_.
                        Inr (True, to_float (LDi_hexToDecimal (take 15 encoded) / longScale)))
                    else Inr (False, 0)))
      | _ \<Rightarrow> Inl Assertion)"

section \<open>Variation or rollout\<close>

text \<open>
  The loop over the weighted variations: the first whose cumulative weight exceeds the
  bucket, else the last one. \<open>None\<close> is a schema error; the pair is the chosen index and
  whether the entry is untracked.
\<close>

fun rollout_loop :: "rat \<Rightarrow> rat \<Rightarrow> (json \<times> bool) option \<Rightarrow> json list \<Rightarrow> (json \<times> bool) option" where
  "rollout_loop userBucket weights previous [] = previous"
| "rollout_loop userBucket weights previous (variation # rest) =
     (case LDObjectLookup (Some variation) ''weight'' of
        Some (JNumber weight) \<Rightarrow>
          (let weights' = to_float (to_double (weights + to_double (weight / 100000))) in
           case LDObjectLookup (Some variation) ''variation'' of
             Some (JNumber n) \<Rightarrow>
               (let untracked = LDObjectLookup (Some variation) ''untracked'' in
                if LDi_notNull untracked \<and> LDJSONGetType untracked \<noteq> LDBool then None
                else let entry = (JNumber n, LDi_notNull untracked \<and> LDGetBool untracked) in
                     if userBucket < weights' then Some entry
                     else rollout_loop userBucket weights' (Some entry) rest)
           | _ \<Rightarrow> None)
      | _ \<Rightarrow> None)"

text \<open>\<open>None\<close> is the result false; else \<open>*inExperiment\<close> and \<open>*index\<close>.\<close>

definition rollout_index ::
    "json \<Rightarrow> LDUser \<Rightarrow> string option \<Rightarrow> string option \<Rightarrow> (bool \<times> json) option run" where
  "rollout_index rollout user key salt =
     (let kind = LDObjectLookup (Some rollout) ''kind'';
          variations = LDObjectLookup (Some rollout) ''variations'';
          seedJSON = LDObjectLookup (Some rollout) ''seed''
      in if LDi_notNull kind \<and> LDJSONGetType kind \<noteq> LDText then Inr None
         else case variations of
           Some (JArray (v # vs)) \<Rightarrow>
             run_bind (LDi_getBucketAttribute (Some rollout)) (\<lambda>attr.
               case attr of
                 None \<Rightarrow> Inr None
               | Some attribute \<Rightarrow>
                   if LDi_notNull seedJSON \<and> LDJSONGetType seedJSON \<noteq> LDNumber then Inr None
                   else run_bind
                     (if LDi_notNull seedJSON
                      then run_bind (double_to_int (LDGetNumber seedJSON)) (\<lambda>s. Inr (Some s))
                      else Inr None) (\<lambda>seed.
                     run_bind (LDi_bucketUser user key attribute salt seed) (\<lambda>(_, userBucket).
                       Inr (map_option
                         (\<lambda>(index, untracked). (LDGetText kind = Some ''experiment'' \<and> \<not> untracked, index))
                         (rollout_loop userBucket 0 None (v # vs))))))
         | _ \<Rightarrow> Inr None)"

definition LDi_variationIndexForUser ::
    "json \<Rightarrow> LDUser \<Rightarrow> string option \<Rightarrow> string option \<Rightarrow> (bool \<times> json) option run" where
  "LDi_variationIndexForUser varOrRoll user key salt =
     (let variation = LDObjectLookup (Some varOrRoll) ''variation'' in
      case variation of
        Some (JNumber n) \<Rightarrow> Inr (Some (False, JNumber n))
      | _ \<Rightarrow>
          if LDi_notNull variation then Inr None
          else run_bind (LD_ASSERT (salt \<noteq> None)) (\<lambda>_.
            case LDObjectLookup (Some varOrRoll) ''rollout'' of
              Some (JObject ps) \<Rightarrow> rollout_index (JObject ps) user key salt
            | _ \<Rightarrow> Inr None))"

definition LDi_getIndexForVariationOrRollout ::
    "json \<Rightarrow> json option \<Rightarrow> LDUser \<Rightarrow> (bool \<times> json) option run" where
  "LDi_getIndexForVariationOrRollout flag varOrRoll user =
     (case varOrRoll of
        None \<Rightarrow> Inl Assertion
      | Some vr \<Rightarrow>
          (let jkey = LDObjectLookup (Some flag) ''key'';
               jsalt = LDObjectLookup (Some flag) ''salt''
           in if LDi_notNull jkey \<and> LDJSONGetType jkey \<noteq> LDText then Inr None
              else if LDi_notNull jsalt \<and> LDJSONGetType jsalt \<noteq> LDText then Inr None
              else LDi_variationIndexForUser vr user (LDGetText jkey) (LDGetText jsalt)))"

section \<open>Bounds of the bucket\<close>

lemma longScale_eq: "longScale = 2 ^ 60"
  unfolding longScale_def by code_simp

lemma to_float_int: "\<bar>m\<bar> < 2 ^ 24 \<Longrightarrow> to_float (of_int m) = of_int m"
  using round_to_exact [of m 24 "- 126" 0] by (simp add: to_float_def pow2_def)

lemma to_float_near_pow2:
  assumes "28 \<le> k" and "0 \<le> v" and "v \<le> pow2 k + 15"
  shows "to_float v \<le> pow2 k"
proof (cases "v \<le> pow2 k")
  case True
  then show ?thesis unfolding to_float_def using assms by (intro round_to_le_pow2) auto
next
  case False
  define q where "q = k - 23"
  have q: "pow2 q \<ge> 32" using pow2_mono [of 5 q] assms by (simp add: q_def pow2_def)
  have k: "pow2 k = 8388608 * pow2 q"
    using pow2_add [of 23 q] by (simp add: q_def pow2_def [of 23])
  have "v < pow2 (k + 1)" using assms(3) q k by (simp add: pow2_add [of k 1] pow2_def [of 1])
  with False have il: "ilog2 v = k" by (intro ilog2_unique) auto
  have "round_even (v / pow2 q) = 8388608"
  proof (rule round_even_near)
    show "of_int 8388608 \<le> v / pow2 q" using False k by (simp add: pos_le_divide_eq)
    show "v / pow2 q < of_int 8388608 + 1 / 2"
      using assms(3) k q by (simp add: pos_divide_less_eq algebra_simps)
  qed
  then have "to_float v = pow2 k"
    using False il assms k by (auto simp: to_float_def round_to_def Let_def q_def max_def less_imp_le)
  then show ?thesis by simp
qed
text \<open>The accumulator after \<open>i\<close> digits: exact up to six, then below a power of two.\<close>

definition hex_inv :: "nat \<Rightarrow> rat \<Rightarrow> bool" where
  "hex_inv i acc \<longleftrightarrow> (if i \<le> 6 then \<exists>m. acc = of_int m \<and> 0 \<le> m \<and> m < 16 ^ i
     else 0 \<le> acc \<and> acc \<le> pow2 (4 * int i))"

lemma hex_inv_bounds: "hex_inv i acc \<Longrightarrow> 0 \<le> acc \<and> acc \<le> pow2 (4 * int i)"
proof (cases "i \<le> 6")
  case True
  assume "hex_inv i acc"
  with True obtain m where m: "acc = of_int m" "0 \<le> m" "m < 16 ^ i" by (auto simp: hex_inv_def)
  have "pow2 (4 * int i) = of_int (16 ^ i)"
    using power_mult [of "2 :: int" 4 i] by (simp add: pow2_of_nat nat_mult_distrib)
  with m show ?thesis by (simp del: of_int_power)
qed (simp add: hex_inv_def)

lemma hex_inv_step:
  assumes inv: "hex_inv i acc" and c: "c \<le> 15"
  shows "hex_inv (Suc i) (to_float (to_float (acc * 16) + of_nat c))"
proof (cases "i \<le> 5")
  case True
  with inv obtain m where m: "acc = of_int m" "0 \<le> m" "m < 16 ^ i" by (auto simp: hex_inv_def)
  define n where "n = m * 16 + int c"
  have n: "0 \<le> n" "n < 16 ^ Suc i" using m c by (auto simp: n_def)
  have "(16 :: int) ^ Suc i \<le> 16 ^ 6" using True by (intro power_increasing) auto
  then have small: "\<bar>m * 16\<bar> < 2 ^ 24" "\<bar>n\<bar> < 2 ^ 24" using m n c by (auto simp: n_def)
  have "to_float (acc * 16) = of_int (m * 16)" using to_float_int [OF small(1)] by (simp add: m)
  then have "to_float (to_float (acc * 16) + of_nat c) = of_int n"
    using to_float_int [OF small(2)] by (simp add: n_def)
  with n True show ?thesis by (auto simp: hex_inv_def)
next
  case False
  have k: "4 * int (Suc i) = 4 * int i + 4" by simp
  have "0 \<le> acc * 16" "acc * 16 \<le> pow2 (4 * int (Suc i))"
    using hex_inv_bounds [OF inv] by (simp_all add: k pow2_add pow2_def [of 4])
  then have f: "0 \<le> to_float (acc * 16)" "to_float (acc * 16) \<le> pow2 (4 * int (Suc i))"
    unfolding to_float_def by (auto intro!: round_to_nonneg round_to_le_pow2)
  have c': "(of_nat c :: rat) \<le> 15" using c by (metis of_nat_le_iff of_nat_numeral)
  have "to_float (to_float (acc * 16) + of_nat c) \<le> pow2 (4 * int (Suc i))"
    using False f c' by (intro to_float_near_pow2) auto
  moreover have "0 \<le> to_float (to_float (acc * 16) + of_nat c)"
    unfolding to_float_def using f by (intro round_to_nonneg) (simp add: to_float_def)
  ultimately show ?thesis using False by (simp add: hex_inv_def del: of_nat_Suc)
qed

lemma hex_acc_bounds:
  "hex_inv i acc \<Longrightarrow> 0 \<le> hex_acc cs acc \<and> hex_acc cs acc \<le> pow2 (4 * int (i + length cs))"
proof (induction cs arbitrary: i acc)
  case Nil
  then show ?case using hex_inv_bounds by simp
next
  case (Cons c cs)
  show ?case
  proof (cases "hex_value c")
    case None
    then show ?thesis by (simp add: less_imp_le)
  next
    case (Some v)
    then have "v \<le> 15" by (auto simp: hex_value_def Let_def split: if_splits)
    from Cons.IH [OF hex_inv_step [OF Cons.prems this]] Some show ?thesis by simp
  qed
qed

lemma bucket_bounds:
  assumes "length cs \<le> 15"
  shows "0 \<le> to_float (LDi_hexToDecimal cs / longScale)"
    and "to_float (LDi_hexToDecimal cs / longScale) \<le> 1"
proof -
  have i: "hex_inv 0 0" by (simp add: hex_inv_def)
  have "pow2 (4 * int (length cs)) \<le> pow2 60" using assms by (intro pow2_mono) simp
  also have p60: "pow2 60 = longScale" by (simp add: pow2_def longScale_eq)
  finally have h: "0 \<le> LDi_hexToDecimal cs" "LDi_hexToDecimal cs \<le> longScale"
    using hex_acc_bounds [OF i, of cs] by (auto simp: LDi_hexToDecimal_def)
  have pos: "0 < longScale" using p60 pow2_pos [of 60] by simp
  have q: "0 \<le> LDi_hexToDecimal cs / longScale" "LDi_hexToDecimal cs / longScale \<le> pow2 0"
    using h pos by (simp_all add: pow2_def)
  show "0 \<le> to_float (LDi_hexToDecimal cs / longScale)"
    unfolding to_float_def by (rule round_to_nonneg [OF q(1)])
  show "to_float (LDi_hexToDecimal cs / longScale) \<le> 1"
    using round_to_le_pow2 [OF q, of "- 126" 24] by (simp add: to_float_def pow2_def)
qed

lemma hexify_digest: "\<exists>cs. hexify (SHA1 raw) 17 = (16, cs) \<and> length cs = 16"
  using SHA1_length [of raw] hexify_length [of "SHA1 raw" 17]
  by (cases "SHA1 raw") (auto simp: hexify_def Let_def)

lemma bucketUser_result:
  assumes "user_wf user"
  shows "\<exists>ok b. LDi_bucketUser user (Some key) attribute (Some salt) seed = Inr (ok, b) \<and>
      0 \<le> b \<and> b \<le> 1 \<and> (\<not> ok \<longrightarrow> b = 0) \<and>
      (ok \<longleftrightarrow> (\<exists>v. LDi_valueOfAttribute user attribute = Inr (Some v) \<and>
        ((\<exists>t. v = JText t \<and> length (bucket_raw user key salt seed t) < 256) \<or>
         (\<exists>x. v = JNumber x \<and>
            length (bucket_raw user key salt seed (take 255 (printf_f x))) < 256))))"
proof -
  have r: "\<exists>b. run_bind (LD_ASSERT (fst (hexify (SHA1 raw) 17) = 16))
      (\<lambda>_. Inr (True, to_float (LDi_hexToDecimal (take 15 (snd (hexify (SHA1 raw) 17))) / longScale))) =
      Inr (True, b) \<and> 0 \<le> b \<and> b \<le> 1" for raw
    using hexify_digest [of raw] bucket_bounds by auto
  obtain v where v: "LDi_valueOfAttribute user attribute = Inr v"
    using valueOfAttribute_returns [OF assms] by (auto simp: returns_iff)
  show ?thesis
  proof (cases "\<exists>b. (v = Some (JText b) \<or> (\<exists>x. v = Some (JNumber x) \<and> b = take 255 (printf_f x))) \<and>
      length (bucket_raw user key salt seed b) < 256")
    case True
    then obtain b where b: "v = Some (JText b) \<or> (\<exists>x. v = Some (JNumber x) \<and> b = take 255 (printf_f x))"
      "length (bucket_raw user key salt seed b) < 256" by blast
    then have "LDi_bucketUser user (Some key) attribute (Some salt) seed =
      run_bind (LD_ASSERT (fst (hexify (SHA1 (bucket_raw user key salt seed b)) 17) = 16))
      (\<lambda>_. Inr (True, to_float (LDi_hexToDecimal
        (take 15 (snd (hexify (SHA1 (bucket_raw user key salt seed b)) 17))) / longScale)))"
      using v by (auto simp: LDi_bucketUser_def Let_def case_prod_beta)
    with r [of "bucket_raw user key salt seed b"] v b show ?thesis by auto
  next
    case False
    then have "LDi_bucketUser user (Some key) attribute (Some salt) seed = Inr (False, 0)"
      using v by (auto simp: LDi_bucketUser_def Let_def split: option.splits json.splits)
    with False v show ?thesis by auto
  qed
qed

text \<open>
  C7: bucketing is total and stays in the unit interval. For a user whose custom attributes
  are an object, with the key and salt of the feature given, \<open>LDi_bucketUser\<close> returns for
  every attribute and seed; it succeeds exactly when the attribute is a text or a number and
  the text to digest fits the buffer; the bucket is between 0 and 1 and is 0 on failure. The
  upper bound is attained in \<open>float\<close> arithmetic: the largest digest prefix is mapped to 1,
  not below it.
\<close>

theorem bucketUser_bounds:
  assumes "user_wf user"
  shows "(\<exists>ok b. LDi_bucketUser user (Some key) attribute (Some salt) seed = Inr (ok, b) \<and>
      0 \<le> b \<and> b \<le> 1 \<and> (\<not> ok \<longrightarrow> b = 0) \<and>
      (ok \<longleftrightarrow> (\<exists>v. LDi_valueOfAttribute user attribute = Inr (Some v) \<and>
        ((\<exists>t. v = JText t \<and> length (bucket_raw user key salt seed t) < 256) \<or>
         (\<exists>x. v = JNumber x \<and>
            length (bucket_raw user key salt seed (take 255 (printf_f x))) < 256))))) \<and>
    to_float (LDi_hexToDecimal ''fffffffffffffff'' / longScale) = 1"
proof (rule conjI [OF bucketUser_result [OF assms]])
  have "LDi_hexToDecimal ''fffffffffffffff'' = 2 ^ 60" by code_simp
  then show "to_float (LDi_hexToDecimal ''fffffffffffffff'' / longScale) = 1"
    using to_float_int [of 1] by (simp add: longScale_eq)
qed

theorem bucketUser_bounds_witness:
  "\<exists>ok b. LDi_bucketUser (LDi_userNew ''bob'') (Some ''flag'') ''email'' (Some ''s'') None = Inr (ok, b) \<and>
     0 \<le> b \<and> b \<le> 1"
  using bucketUser_bounds [of "LDi_userNew ''bob''" "''flag''" "''email''" "''s''" None]
  by (auto simp: user_wf_def text_array_def LDi_userNew_def)

section \<open>The choice of a rollout\<close>

definition entry_variation :: "json \<Rightarrow> json" where
  "entry_variation v = the (LDObjectLookup (Some v) ''variation'')"

definition entry_untracked :: "json \<Rightarrow> bool" where
  "entry_untracked v = LDGetBool (LDObjectLookup (Some v) ''untracked'')"

definition entry_ok :: "json \<Rightarrow> bool" where
  "entry_ok v \<longleftrightarrow> LDJSONGetType (LDObjectLookup (Some v) ''weight'') = LDNumber \<and>
     LDJSONGetType (LDObjectLookup (Some v) ''variation'') = LDNumber \<and>
     LDJSONGetType (LDObjectLookup (Some v) ''untracked'') \<in> {LDNull, LDBool}"

text \<open>The ends of the intervals the entries own, as the loop computes them.\<close>

fun cumulative :: "rat \<Rightarrow> json list \<Rightarrow> rat list" where
  "cumulative acc [] = []"
| "cumulative acc (v # vs) =
     (let acc' = to_float (to_double (acc +
        to_double (LDGetNumber (LDObjectLookup (Some v) ''weight'') / 100000)))
      in acc' # cumulative acc' vs)"

lemma length_cumulative [simp]: "length (cumulative acc vs) = length vs"
  by (induction vs arbitrary: acc) (simp_all add: Let_def)

lemma rollout_loop_step:
  assumes "entry_ok v"
  shows "rollout_loop b acc prev (v # vs) =
    (if b < cumulative acc [v] ! 0 then Some (entry_variation v, entry_untracked v)
     else rollout_loop b (cumulative acc [v] ! 0) (Some (entry_variation v, entry_untracked v)) vs)"
proof -
  from assms obtain w n where
    w: "LDObjectLookup (Some v) ''weight'' = Some (JNumber w)" and
    n: "LDObjectLookup (Some v) ''variation'' = Some (JNumber n)"
    by (auto simp: entry_ok_def json_opt_type)
  have u: "\<not> (LDi_notNull (LDObjectLookup (Some v) ''untracked'') \<and>
      LDJSONGetType (LDObjectLookup (Some v) ''untracked'') \<noteq> LDBool)"
    using assms by (cases "LDObjectLookup (Some v) ''untracked''") (auto simp: entry_ok_def)
  have e: "(LDi_notNull (LDObjectLookup (Some v) ''untracked'') \<and>
      LDGetBool (LDObjectLookup (Some v) ''untracked'')) = entry_untracked v"
    by (cases "LDObjectLookup (Some v) ''untracked''")
      (auto simp: entry_untracked_def LDGetBool_def split: json.splits)
  show ?thesis
    by (simp add: w n e if_not_P [OF u] entry_variation_def Let_def)
qed

lemma rollout_loop_choice:
  assumes "vs \<noteq> []" and "\<forall>v \<in> set vs. entry_ok v"
  shows "\<exists>k < length vs.
    rollout_loop b acc prev vs = Some (entry_variation (vs ! k), entry_untracked (vs ! k)) \<and>
    (\<forall>i < k. cumulative acc vs ! i \<le> b) \<and>
    (b < cumulative acc vs ! k \<or> k = length vs - 1 \<and> cumulative acc vs ! k \<le> b)"
  supply cumulative.simps [simp del] rollout_loop.simps [simp del]
  using assms
proof (induction vs arbitrary: acc prev)
  case (Cons v vs)
  define a where "a = cumulative acc [v] ! 0"
  have cum: "cumulative acc (v # vs) = a # cumulative a vs"
    by (simp add: a_def Let_def cumulative.simps)
  have step: "rollout_loop b acc prev (v # vs) =
      (if b < a then Some (entry_variation v, entry_untracked v)
       else rollout_loop b a (Some (entry_variation v, entry_untracked v)) vs)"
    unfolding a_def by (rule rollout_loop_step) (use Cons.prems in simp)
  show ?case
  proof (cases "b < a \<or> vs = []")
    case True
    then show ?thesis
      using step by (intro exI [of _ 0]) (auto simp: cum rollout_loop.simps(1))
  next
    case False
    then obtain k where k: "k < length vs"
      "rollout_loop b a (Some (entry_variation v, entry_untracked v)) vs =
         Some (entry_variation (vs ! k), entry_untracked (vs ! k))"
      "\<forall>i < k. cumulative a vs ! i \<le> b"
      "b < cumulative a vs ! k \<or> k = length vs - 1 \<and> cumulative a vs ! k \<le> b"
      using Cons.IH [of a "Some (entry_variation v, entry_untracked v)"] Cons.prems by auto
    show ?thesis
      using False step k by (intro exI [of _ "Suc k"]) (auto simp: cum less_Suc_eq_0_disj)
  qed
qed simp

definition rollout_ok :: "json \<Rightarrow> json list \<Rightarrow> bool" where
  "rollout_ok rollout vs \<longleftrightarrow> json_type rollout = LDObject \<and>
     LDObjectLookup (Some rollout) ''variations'' = Some (JArray vs) \<and> vs \<noteq> [] \<and>
     (\<forall>v \<in> set vs. entry_ok v) \<and>
     LDJSONGetType (LDObjectLookup (Some rollout) ''kind'') \<in> {LDNull, LDText} \<and>
     LDJSONGetType (LDObjectLookup (Some rollout) ''bucketBy'') \<in> {LDNull, LDText} \<and>
     (\<forall>s. LDObjectLookup (Some rollout) ''seed'' = Some s \<longrightarrow>
        (s = JNull \<or> (\<exists>x. s = JNumber x \<and> returns (double_to_int x))))"

definition rollout_attribute :: "json \<Rightarrow> string" where
  "rollout_attribute rollout =
     (case LDObjectLookup (Some rollout) ''bucketBy'' of Some (JText t) \<Rightarrow> t | _ \<Rightarrow> ''key'')"

definition rollout_seed :: "json \<Rightarrow> int option" where
  "rollout_seed rollout =
     (case LDObjectLookup (Some rollout) ''seed'' of
        Some (JNumber x) \<Rightarrow> Some (projr (double_to_int x)) | _ \<Rightarrow> None)"

lemma rollout_index_eq:
  assumes ok: "rollout_ok rollout vs"
    and b: "LDi_bucketUser user key (rollout_attribute rollout) salt (rollout_seed rollout) = Inr (s, b)"
  shows "rollout_index rollout user key salt = Inr (map_option
    (\<lambda>(index, untracked).
       (LDObjectLookup (Some rollout) ''kind'' = Some (JText ''experiment'') \<and> \<not> untracked, index))
    (rollout_loop b 0 None vs))"
proof -
  let ?l = "LDObjectLookup (Some rollout)"
  obtain v vs' where vs: "vs = v # vs'" using ok by (cases vs) (auto simp: rollout_ok_def)
  have attr: "LDi_getBucketAttribute (Some rollout) = Inr (Some (rollout_attribute rollout))"
    using ok by (cases "?l ''bucketBy''")
      (auto simp: rollout_ok_def LDi_getBucketAttribute_def rollout_attribute_def Let_def)
  have seed: "(if LDi_notNull (?l ''seed'')
      then run_bind (double_to_int (LDGetNumber (?l ''seed''))) (\<lambda>s. Inr (Some s))
      else Inr None) = Inr (rollout_seed rollout)"
    and st: "\<not> (LDi_notNull (?l ''seed'') \<and> LDJSONGetType (?l ''seed'') \<noteq> LDNumber)"
    using ok by (cases "?l ''seed''"; auto simp: rollout_ok_def rollout_seed_def returns_iff)+
  have kind: "\<not> (LDi_notNull (?l ''kind'') \<and> LDJSONGetType (?l ''kind'') \<noteq> LDText)"
    using ok by (cases "?l ''kind''") (auto simp: rollout_ok_def)
  have vars: "?l ''variations'' = Some (JArray (v # vs'))" using ok vs by (simp add: rollout_ok_def)
  show ?thesis
    unfolding rollout_index_def Let_def if_not_P [OF kind] vars option.case json.case list.case
      attr run_bind.simps if_not_P [OF st] seed b prod.case LDGetText_Some vs ..
qed

text \<open>
  C6: a well-formed rollout always serves one of its variations, and the right one. For a
  user bucketed at \<open>b\<close>, \<open>LDi_variationIndexForUser\<close> returns the variation of the
  first entry whose cumulative weight (computed as the code does, in \<open>float\<close>) exceeds
  \<open>b\<close>, or the last entry when rounding or short weights leave \<open>b\<close> beyond all of
  them; the evaluation counts as part of an experiment exactly when the rollout is one and
  that entry is not marked untracked.
\<close>

theorem rollout_serves:
  assumes "rollout_ok rollout vs"
    and "\<not> LDi_notNull (LDObjectLookup (Some varOrRoll) ''variation'')"
    and "LDObjectLookup (Some varOrRoll) ''rollout'' = Some rollout"
    and "LDi_bucketUser user (Some key) (rollout_attribute rollout) (Some salt)
      (rollout_seed rollout) = Inr (ok, b)"
  shows "\<exists>k < length vs.
    LDi_variationIndexForUser varOrRoll user (Some key) (Some salt) = Inr (Some
      (LDObjectLookup (Some rollout) ''kind'' = Some (JText ''experiment'') \<and>
         \<not> entry_untracked (vs ! k), entry_variation (vs ! k))) \<and>
    (\<forall>i < k. cumulative 0 vs ! i \<le> b) \<and>
    (b < cumulative 0 vs ! k \<or> k = length vs - 1 \<and> cumulative 0 vs ! k \<le> b)"
proof -
  obtain ps where ps: "rollout = JObject ps" using assms(1) by (auto simp: rollout_ok_def)
  have "LDi_variationIndexForUser varOrRoll user (Some key) (Some salt) =
      rollout_index rollout user (Some key) (Some salt)"
    using assms(2,3) ps
    by (cases "LDObjectLookup (Some varOrRoll) ''variation''")
      (auto simp: LDi_variationIndexForUser_def)
  moreover have "vs \<noteq> []" "\<forall>v \<in> set vs. entry_ok v" using assms(1) by (auto simp: rollout_ok_def)
  from rollout_loop_choice [OF this, of b 0 None] obtain k where
    "k < length vs" "rollout_loop b 0 None vs = Some (entry_variation (vs ! k), entry_untracked (vs ! k))"
    "\<forall>i < k. cumulative 0 vs ! i \<le> b"
    "b < cumulative 0 vs ! k \<or> k = length vs - 1 \<and> cumulative 0 vs ! k \<le> b" by blast
  ultimately show ?thesis
    using rollout_index_eq [OF assms(1,4)] by (intro exI [of _ k]) simp
qed

text \<open>A rollout by e-mail address for a user without one: the bucket is 0.\<close>

theorem rollout_serves_witness:
  "LDi_variationIndexForUser
     (JObject [(''rollout'', JObject [(''bucketBy'', JText ''email''),
        (''variations'', JArray [JObject [(''variation'', JNumber 7), (''weight'', JNumber 0)],
                                 JObject [(''variation'', JNumber 8), (''weight'', JNumber 100000)]])])])
     (LDi_userNew ''bob'') (Some ''flag'') (Some ''s'') = Inr (Some (False, JNumber 8))"
proof -
  let ?vs = "[JObject [(''variation'', JNumber 7), (''weight'', JNumber 0)],
              JObject [(''variation'', JNumber 8), (''weight'', JNumber 100000)]]"
  let ?ro = "JObject [(''bucketBy'', JText ''email''), (''variations'', JArray ?vs)]"
  have b: "LDi_bucketUser (LDi_userNew ''bob'') (Some ''flag'') (rollout_attribute ?ro) (Some ''s'')
      (rollout_seed ?ro) = Inr (False, 0)"
    by (simp add: LDi_bucketUser_def rollout_attribute_def LDi_valueOfAttribute_def LDi_userNew_def)
  have ok: "rollout_ok ?ro ?vs" by (auto simp: rollout_ok_def entry_ok_def)
  have one: "to_float (to_double (to_double 1)) = 1" by code_simp
  have cum: "cumulative 0 ?vs = [0, 1]"
    using one by (simp add: to_double_def to_float_def)
  have "\<exists>k < 2. LDi_variationIndexForUser (JObject [(''rollout'', ?ro)]) (LDi_userNew ''bob'')
         (Some ''flag'') (Some ''s'') = Inr (Some (False, entry_variation (?vs ! k))) \<and>
      (\<forall>i < k. [0, 1 :: rat] ! i \<le> 0) \<and> (0 < [0, 1 :: rat] ! k \<or> k = 1 \<and> [0, 1 :: rat] ! k \<le> 0)"
    using rollout_serves [of ?ro ?vs "JObject [(''rollout'', ?ro)]", OF ok _ _ b] unfolding cum
    by (simp add: numeral_2_eq_2)
  then obtain k where k: "k < 2"
      "LDi_variationIndexForUser (JObject [(''rollout'', ?ro)]) (LDi_userNew ''bob'')
         (Some ''flag'') (Some ''s'') = Inr (Some (False, entry_variation (?vs ! k)))"
      "0 < [0, 1 :: rat] ! k \<or> k = 1 \<and> [0, 1 :: rat] ! k \<le> 0" by blast
  then have "k = 1" by (auto simp: less_2_cases_iff)
  with k(2) show ?thesis by (simp add: entry_variation_def)
qed

end
