(* ===== verification/LD_Details.thy ===== *)
theory LD_Details
  imports LD_JSON
begin

text \<open>
  The evaluation details of include/launchdarkly/variations.h and their JSON form
  (src/variations.c): why an evaluation gave its value. The \<open>union\<close> of the C structure is
  a datatype whose constructor is the member written last; reading another member, or one
  never written, is the fault \<open>Uninitialised\<close>.
\<close>

datatype LDEvalReason =
    LD_UNKNOWN | LD_ERROR | LD_OFF | LD_PREREQUISITE_FAILED | LD_TARGET_MATCH | LD_RULE_MATCH
  | LD_FALLTHROUGH

datatype LDEvalErrorKind =
    LD_CLIENT_NOT_READY | LD_NULL_KEY | LD_STORE_ERROR | LD_FLAG_NOT_FOUND
  | LD_USER_NOT_SPECIFIED | LD_CLIENT_NOT_SPECIFIED | LD_MALFORMED_FLAG | LD_WRONG_TYPE | LD_OOM

record LDDetailsRule =
  ruleIndex :: u32
  rule_id :: "string option"
  rule_inExperiment :: "bool option"

datatype LDDetailsExtra =
    ExtraUnset
  | ExtraErrorKind LDEvalErrorKind
  | ExtraPrerequisiteKey "string option"
  | ExtraRule LDDetailsRule
  | ExtraFallthrough bool

record LDDetails =
  variationIndex :: u32
  hasVariation :: bool
  reason :: LDEvalReason
  extra :: LDDetailsExtra

text \<open>A local \<open>struct LDDetails\<close> before its initialisation.\<close>

definition fresh_details :: LDDetails where
  "fresh_details = \<lparr>variationIndex = 0, hasVariation = False, reason = LD_UNKNOWN,
     extra = ExtraUnset\<rparr>"

definition LDDetailsInit :: "LDDetails \<Rightarrow> LDDetails" where
  "LDDetailsInit details =
     details\<lparr>variationIndex := 0, hasVariation := False, reason := LD_UNKNOWN\<rparr>"

text \<open>The text a rule or prerequisite member owns is freed, so the member is gone.\<close>

definition LDDetailsClear :: "LDDetails \<Rightarrow> LDDetails" where
  "LDDetailsClear details =
     LDDetailsInit (if reason details \<in> {LD_RULE_MATCH, LD_PREREQUISITE_FAILED}
       then details\<lparr>extra := ExtraUnset\<rparr> else details)"

definition LDEvalReasonKindToString :: "LDEvalReason \<Rightarrow> string option" where
  "LDEvalReasonKindToString kind =
     (case kind of
        LD_ERROR \<Rightarrow> Some ''ERROR''
      | LD_OFF \<Rightarrow> Some ''OFF''
      | LD_PREREQUISITE_FAILED \<Rightarrow> Some ''PREREQUISITE_FAILED''
      | LD_TARGET_MATCH \<Rightarrow> Some ''TARGET_MATCH''
      | LD_RULE_MATCH \<Rightarrow> Some ''RULE_MATCH''
      | LD_FALLTHROUGH \<Rightarrow> Some ''FALLTHROUGH''
      | LD_UNKNOWN \<Rightarrow> None)"

definition LDEvalErrorKindToString :: "LDEvalErrorKind \<Rightarrow> string option" where
  "LDEvalErrorKindToString kind =
     (case kind of
        LD_CLIENT_NOT_READY \<Rightarrow> Some ''CLIENT_NOT_READY''
      | LD_NULL_KEY \<Rightarrow> Some ''NULL_KEY''
      | LD_STORE_ERROR \<Rightarrow> Some ''STORE_ERROR''
      | LD_FLAG_NOT_FOUND \<Rightarrow> Some ''FLAG_NOT_FOUND''
      | LD_USER_NOT_SPECIFIED \<Rightarrow> Some ''USER_NOT_SPECIFIED''
      | LD_CLIENT_NOT_SPECIFIED \<Rightarrow> Some ''CLIENT_NOT_SPECIFIED''
      | LD_MALFORMED_FLAG \<Rightarrow> Some ''MALFORMED_FLAG''
      | LD_WRONG_TYPE \<Rightarrow> Some ''WRONG_TYPE''
      | LD_OOM \<Rightarrow> None)"

text \<open>The members after \<open>kind\<close>, as the branches of \<open>LDReasonToJSON\<close> add them.\<close>

definition reason_members :: "LDDetails \<Rightarrow> json \<Rightarrow> json option run" where
  "reason_members details result =
     (case reason details of
        LD_ERROR \<Rightarrow>
          (case extra details of
             ExtraErrorKind k \<Rightarrow> Inr (map_option (\<lambda>s. set_key ''errorKind'' (JText s) result)
               (LDEvalErrorKindToString k))
           | _ \<Rightarrow> Inl Uninitialised)
      | LD_PREREQUISITE_FAILED \<Rightarrow>
          (case extra details of
             ExtraPrerequisiteKey k \<Rightarrow> Inr (Some
               (case k of None \<Rightarrow> result | Some s \<Rightarrow> set_key ''prerequisiteKey'' (JText s) result))
           | _ \<Rightarrow> Inl Uninitialised)
      | LD_RULE_MATCH \<Rightarrow>
          (case extra details of
             ExtraRule r \<Rightarrow>
               (let r1 = (case rule_id r of None \<Rightarrow> result
                          | Some s \<Rightarrow> set_key ''ruleId'' (JText s) result);
                    r2 = set_key ''ruleIndex'' (JNumber (uint_to_double (ruleIndex r))) r1
                in case rule_inExperiment r of
                     None \<Rightarrow> Inl Uninitialised
                   | Some b \<Rightarrow> Inr (Some (if b then set_key ''inExperiment'' (JBool True) r2 else r2)))
           | _ \<Rightarrow> Inl Uninitialised)
      | LD_FALLTHROUGH \<Rightarrow>
          (case extra details of
             ExtraFallthrough b \<Rightarrow>
               Inr (Some (if b then set_key ''inExperiment'' (JBool True) result else result))
           | _ \<Rightarrow> Inl Uninitialised)
      | _ \<Rightarrow> Inr (Some result))"

definition LDReasonToJSON :: "LDDetails \<Rightarrow> json option run" where
  "LDReasonToJSON details =
     (case LDEvalReasonKindToString (reason details) of
        None \<Rightarrow> Inr None
      | Some kind \<Rightarrow> reason_members details (set_key ''kind'' (JText kind) (JObject [])))"

definition setDetailsOOM :: "LDDetails \<Rightarrow> LDDetails" where
  "setDetailsOOM details = details\<lparr>reason := LD_ERROR, extra := ExtraErrorKind LD_OOM\<rparr>"

section \<open>Details that can be reported\<close>

text \<open>The union member matches the reason.\<close>

definition details_ok :: "LDDetails \<Rightarrow> bool" where
  "details_ok d =
     (case reason d of
        LD_ERROR \<Rightarrow> (case extra d of ExtraErrorKind _ \<Rightarrow> True | _ \<Rightarrow> False)
      | LD_PREREQUISITE_FAILED \<Rightarrow> (case extra d of ExtraPrerequisiteKey (Some _) \<Rightarrow> True | _ \<Rightarrow> False)
      | LD_RULE_MATCH \<Rightarrow> (case extra d of ExtraRule r \<Rightarrow> rule_inExperiment r \<noteq> None | _ \<Rightarrow> False)
      | LD_FALLTHROUGH \<Rightarrow> (case extra d of ExtraFallthrough _ \<Rightarrow> True | _ \<Rightarrow> False)
      | _ \<Rightarrow> True)"

text \<open>The evaluation served a variation of an experiment.\<close>

definition in_experiment :: "LDDetails \<Rightarrow> bool" where
  "in_experiment d =
     (case extra d of
        ExtraRule r \<Rightarrow> reason d = LD_RULE_MATCH \<and> rule_inExperiment r = Some True
      | ExtraFallthrough b \<Rightarrow> reason d = LD_FALLTHROUGH \<and> b
      | _ \<Rightarrow> False)"

lemma reason_json:
  assumes "details_ok d" and "reason d \<notin> {LD_UNKNOWN, LD_ERROR}"
  shows "\<exists>j. LDReasonToJSON d = Inr (Some j) \<and> is_object j \<and>
    LDObjectLookup (Some j) ''kind'' = map_option JText (LDEvalReasonKindToString (reason d)) \<and>
    LDObjectLookup (Some j) ''inExperiment'' = (if in_experiment d then Some (JBool True) else None)"
  using assms
  by (auto simp: details_ok_def LDReasonToJSON_def LDEvalReasonKindToString_def reason_members_def
      in_experiment_def is_object_def Let_def
      split: LDEvalReason.splits LDDetailsExtra.splits option.splits if_splits)

end
