(* ===== verification/LD_LRU.thy ===== *)
theory LD_LRU
  imports LD_Prelude
begin

text \<open>
  src/lru.c: the set of recently seen user keys. The circular list is the list of its keys
  from the head (most recent) to \<open>list->prev\<close> (least recent); the hash table is the list
  of the keys it indexes. The two booleans of \<open>LDLRUInsert\<close> are the outcomes of its two
  allocations.

  The refinement theorem relates any sequence of inserts to the specification: the cache
  holds the \<open>capacity\<close> most recently used distinct keys, in order of use.
\<close>

datatype LDLRUStatus = LDLRUSTATUS_ERROR | LDLRUSTATUS_EXISTED | LDLRUSTATUS_NEW

record LDLRU =
  elements :: u32
  capacity :: u32
  lru_list :: "string list"
  lru_hash :: "string list"

definition LDLRUInit :: "u32 \<Rightarrow> LDLRU" where
  "LDLRUInit cap = \<lparr>elements = 0, capacity = cap, lru_list = [], lru_hash = []\<rparr>"

definition LDLRUInsert :: "bool \<Rightarrow> bool \<Rightarrow> LDLRU \<Rightarrow> string \<Rightarrow> (LDLRUStatus \<times> LDLRU) run" where
  "LDLRUInsert strdup_ok alloc_ok lru key =
     (if capacity lru = 0 then Inr (LDLRUSTATUS_NEW, lru)
      else if key \<notin> set (lru_hash lru) then
        if \<not> strdup_ok then Inr (LDLRUSTATUS_ERROR, lru)
        else if elements lru = capacity lru then
          (if lru_list lru = [] then Inl NullPointer
           else let node = last (lru_list lru);
                    hash = remove1 node (lru_hash lru);
                    lst = butlast (lru_list lru)
                in Inr (LDLRUSTATUS_NEW, lru\<lparr>lru_list := key # lst, lru_hash := key # hash\<rparr>))
        else if \<not> alloc_ok then Inr (LDLRUSTATUS_ERROR, lru)
        else Inr (LDLRUSTATUS_NEW,
               lru\<lparr>elements := elements lru + 1,
                   lru_list := key # lru_list lru, lru_hash := key # lru_hash lru\<rparr>)
      else Inr (LDLRUSTATUS_EXISTED, lru\<lparr>lru_list := key # remove1 key (lru_list lru)\<rparr>))"

definition LDLRUClear :: "LDLRU \<Rightarrow> LDLRU" where
  "LDLRUClear lru = lru\<lparr>elements := 0, lru_list := [], lru_hash := []\<rparr>"

text \<open>Inserting a sequence of keys, all allocations succeeding.\<close>

fun lru_inserts :: "LDLRU \<Rightarrow> string list \<Rightarrow> LDLRU run" where
  "lru_inserts lru [] = Inr lru"
| "lru_inserts lru (k # ks) =
     run_bind (LDLRUInsert True True lru k) (\<lambda>(_, lru'). lru_inserts lru' ks)"

section \<open>Invariant\<close>

definition lru_inv :: "LDLRU \<Rightarrow> bool" where
  "lru_inv lru \<longleftrightarrow>
     distinct (lru_list lru) \<and> distinct (lru_hash lru) \<and>
     set (lru_hash lru) = set (lru_list lru) \<and>
     unat (elements lru) = length (lru_list lru) \<and>
     length (lru_list lru) \<le> unat (capacity lru)"

lemma lru_inv_init: "lru_inv (LDLRUInit cap)"
  by (simp add: lru_inv_def LDLRUInit_def)

lemma lru_inv_clear: "lru_inv (LDLRUClear lru)"
  by (simp add: lru_inv_def LDLRUClear_def)

lemma lru_full_nonempty:
  "lru_inv lru \<Longrightarrow> capacity lru \<noteq> 0 \<Longrightarrow> elements lru = capacity lru \<Longrightarrow> lru_list lru \<noteq> []"
  by (auto simp: lru_inv_def unat_eq_0)

lemma length_eq_word_iff:
  "lru_inv lru \<Longrightarrow> elements lru = capacity lru \<longleftrightarrow> length (lru_list lru) = unat (capacity lru)"
  by (auto simp: lru_inv_def word_unat_eq_iff)

lemma unat_elements_Suc:
  assumes "lru_inv lru" and "elements lru \<noteq> capacity lru"
  shows "unat (elements lru + 1) = Suc (length (lru_list lru))"
proof -
  have "length (lru_list lru) < unat (capacity lru)"
    using assms length_eq_word_iff [OF assms(1)] by (simp add: lru_inv_def)
  then have "unat (elements lru) + 1 < 2 ^ 32"
    using assms(1) unsigned_less [of "capacity lru", where ?'a = nat] by (simp add: lru_inv_def)
  then show ?thesis
    using assms(1) by (simp add: unat_word_ariths lru_inv_def)
qed

lemma set_butlast_distinct: "distinct xs \<Longrightarrow> xs \<noteq> [] \<Longrightarrow> set (butlast xs) = set xs - {last xs}"
  by (cases xs rule: rev_cases) auto

text \<open>The whole of an insert on a consistent cache, on every branch.\<close>

lemma LDLRUInsert_cases:
  assumes inv: "lru_inv lru"
  obtains (none) "capacity lru = 0"
      "LDLRUInsert s a lru key = Inr (LDLRUSTATUS_NEW, lru)"
    | (error) "key \<notin> set (lru_list lru)" "\<not> s \<or> \<not> a"
      "LDLRUInsert s a lru key = Inr (LDLRUSTATUS_ERROR, lru)"
    | (new) lru' where "capacity lru \<noteq> 0" "key \<notin> set (lru_list lru)"
      "LDLRUInsert s a lru key = Inr (LDLRUSTATUS_NEW, lru')" "lru_inv lru'"
      "capacity lru' = capacity lru"
      "lru_list lru' = take (unat (capacity lru)) (key # lru_list lru)"
    | (existed) lru' where "capacity lru \<noteq> 0" "key \<in> set (lru_list lru)"
      "LDLRUInsert s a lru key = Inr (LDLRUSTATUS_EXISTED, lru')" "lru_inv lru'"
      "capacity lru' = capacity lru"
      "lru_list lru' = key # remove1 key (lru_list lru)"
proof (cases "capacity lru = 0")
  case True
  then show ?thesis by (intro none) (simp_all add: LDLRUInsert_def)
next
  case cap: False
  note inv' = inv [unfolded lru_inv_def]
  show ?thesis
  proof (cases "key \<in> set (lru_list lru)")
    case mem: True
    let ?lru' = "lru\<lparr>lru_list := key # remove1 key (lru_list lru)\<rparr>"
    have "lru_inv ?lru'"
      using inv' mem length_pos_if_in_set [OF mem]
      by (auto simp: lru_inv_def length_remove1)
    then show ?thesis
      using cap mem inv' by (intro existed [of ?lru']) (simp_all add: LDLRUInsert_def)
  next
    case nomem: False
    consider "\<not> s" | "s" "elements lru = capacity lru" | "s" "elements lru \<noteq> capacity lru" "\<not> a"
      | "s" "elements lru \<noteq> capacity lru" "a" by blast
    then show ?thesis
    proof cases
      case 1
      then show ?thesis using cap nomem inv' by (intro error) (simp_all add: LDLRUInsert_def)
    next
      case full: 2
      let ?lru' = "lru\<lparr>lru_list := key # butlast (lru_list lru),
        lru_hash := key # remove1 (last (lru_list lru)) (lru_hash lru)\<rparr>"
      have ne: "lru_list lru \<noteq> []" by (rule lru_full_nonempty [OF inv cap full(2)])
      have len: "length (lru_list lru) = unat (capacity lru)"
        using full(2) length_eq_word_iff [OF inv] by simp
      then have "take (unat (capacity lru)) (key # lru_list lru) = key # butlast (lru_list lru)"
        using ne by (cases "lru_list lru" rule: rev_cases) (auto simp flip: len)
      moreover have "lru_inv ?lru'"
        using inv' ne nomem len full(2) cap [folded unat_gt_0]
        by (auto simp: lru_inv_def set_butlast_distinct distinct_butlast dest: in_set_butlastD)
      ultimately show ?thesis
        using cap nomem full inv' ne
        by (intro new [of ?lru']) (simp_all add: LDLRUInsert_def Let_def)
    next
      case 3
      then show ?thesis using cap nomem inv' by (intro error) (simp_all add: LDLRUInsert_def)
    next
      case room: 4
      let ?lru' = "lru\<lparr>elements := elements lru + 1, lru_list := key # lru_list lru,
        lru_hash := key # lru_hash lru\<rparr>"
      have lt: "length (lru_list lru) < unat (capacity lru)"
        using room(2) length_eq_word_iff [OF inv] inv' by simp
      then have "take (unat (capacity lru)) (key # lru_list lru) = key # lru_list lru"
        by simp
      moreover have "lru_inv ?lru'"
        using inv' nomem lt unat_elements_Suc [OF inv room(2)] by (simp add: lru_inv_def)
      ultimately show ?thesis
        using cap nomem room inv' by (intro new [of ?lru']) (simp_all add: LDLRUInsert_def)
    qed
  qed
qed

section \<open>Refinement to the most recently used distinct keys\<close>

text \<open>The distinct keys of a history, latest use first.\<close>

definition recent_keys :: "string list \<Rightarrow> string list" where
  "recent_keys ks = rev (remdups ks)"

lemma recent_keys_snoc: "recent_keys (ks @ [k]) = k # removeAll k (recent_keys ks)"
proof -
  have "remdups (ks @ [k]) = removeAll k (remdups ks) @ [k]"
    by (induction ks) auto
  then show ?thesis by (simp add: recent_keys_def removeAll_filter_not_eq rev_filter)
qed

lemma distinct_recent_keys [simp]: "distinct (recent_keys ks)"
  by (simp add: recent_keys_def)

lemma set_recent_keys [simp]: "set (recent_keys ks) = set ks"
  by (simp add: recent_keys_def)

lemma take_remove1_notin: "k \<notin> set (take n xs) \<Longrightarrow> take n (remove1 k xs) = take n xs"
proof (induction xs arbitrary: n)
  case (Cons x xs)
  then show ?case by (cases n) auto
qed simp

lemma take_Cons_remove1:
  assumes "distinct xs" and "0 < n"
  shows "k \<notin> set (take n xs) \<Longrightarrow> take n (k # take n xs) = take n (k # remove1 k xs)"
    and "k \<in> set (take n xs) \<Longrightarrow> k # remove1 k (take n xs) = take n (k # remove1 k xs)"
proof -
  obtain m where n: "n = Suc m" using assms(2) by (cases n) auto
  show "take n (k # take n xs) = take n (k # remove1 k xs)" if "k \<notin> set (take n xs)"
  proof -
    have "k \<notin> set (take m xs)" using that set_take_subset_set_take [of m n xs] n by auto
    then show ?thesis by (simp add: n take_remove1_notin)
  qed
  show "k # remove1 k (take n xs) = take n (k # remove1 k xs)" if "k \<in> set (take n xs)"
  proof -
    have "remove1 k (take (Suc m) xs) = take m (remove1 k xs)"
      using that unfolding n
    proof (induction xs arbitrary: m)
      case (Cons x xs)
      then show ?case by (cases m) auto
    qed simp
    then show ?thesis by (simp add: n)
  qed
qed

lemma lru_inserts_append:
  "lru_inserts lru (xs @ ys) = run_bind (lru_inserts lru xs) (\<lambda>lru'. lru_inserts lru' ys)"
proof (induction xs arbitrary: lru)
  case (Cons x xs)
  then show ?case by (cases "LDLRUInsert True True lru x") auto
qed simp

lemma lru_inserts_recent:
  assumes "cap \<noteq> 0"
  shows "\<exists>lru. lru_inserts (LDLRUInit cap) ks = Inr lru \<and> lru_inv lru \<and> capacity lru = cap \<and>
    lru_list lru = take (unat cap) (recent_keys ks)"
proof (induction ks rule: rev_induct)
  case Nil
  show ?case using lru_inv_init by (simp add: LDLRUInit_def recent_keys_def)
next
  case (snoc k ks)
  then obtain lru where lru: "lru_inserts (LDLRUInit cap) ks = Inr lru" "lru_inv lru"
      "capacity lru = cap" "lru_list lru = take (unat cap) (recent_keys ks)" by blast
  have pos: "0 < unat cap" using assms by (simp add: unat_gt_0)
  note step = take_Cons_remove1 [OF distinct_recent_keys [of ks] pos, of k]
  show ?case
    by (rule LDLRUInsert_cases [OF lru(2), of True True k])
      (use assms lru step in
        \<open>auto simp: lru_inserts_append recent_keys_snoc distinct_remove1_removeAll\<close>)
qed

text \<open>
  C32: the cache of user keys is a least-recently-used set. After any sequence of inserts
  into a fresh cache of capacity \<open>cap\<close>, its list is exactly the \<open>cap\<close> most recently
  used distinct keys, latest first; the hash table indexes the same keys and the element count
  is their number; and the next insert reports \<open>EXISTED\<close> exactly for those keys and
  \<open>NEW\<close> for all others.
\<close>

theorem lru_most_recent:
  assumes "cap \<noteq> 0"
  shows "\<exists>lru. lru_inserts (LDLRUInit cap) ks = Inr lru \<and>
    lru_list lru = take (unat cap) (recent_keys ks) \<and> set (lru_hash lru) = set (lru_list lru) \<and>
    unat (elements lru) = length (lru_list lru) \<and>
    (\<forall>k. \<exists>lru'. LDLRUInsert True True lru k =
       Inr (if k \<in> set (take (unat cap) (recent_keys ks)) then LDLRUSTATUS_EXISTED
            else LDLRUSTATUS_NEW, lru'))"
proof -
  obtain lru where lru: "lru_inserts (LDLRUInit cap) ks = Inr lru" "lru_inv lru"
      "capacity lru = cap" "lru_list lru = take (unat cap) (recent_keys ks)"
    using lru_inserts_recent [OF assms] by blast
  have "\<exists>lru'. LDLRUInsert True True lru k =
       Inr (if k \<in> set (lru_list lru) then LDLRUSTATUS_EXISTED else LDLRUSTATUS_NEW, lru')" for k
    by (rule LDLRUInsert_cases [OF lru(2), of True True k]) (use assms lru(3) in auto)
  with lru show ?thesis by (auto simp: lru_inv_def)
qed

theorem lru_most_recent_witness:
  "\<exists>lru. lru_inserts (LDLRUInit 2) [''a'', ''b'', ''a'', ''c''] = Inr lru \<and>
    lru_list lru = [''c'', ''a'']"
  using lru_most_recent [of 2 "[''a'', ''b'', ''a'', ''c'']"]
  by (auto simp: recent_keys_def)

end
