(* ===== verification/LD_Operators.thy ===== *)
theory LD_Operators
  imports LD_JSON LD_Numeric "HOL-Library.Sublist"
begin

text \<open>
  src/operator.c: the fourteen clause operators, and third-party/src/timestamp_compare.c.
  What the sources link against and do not implement here is a parameter, collected in the
  record \<open>env\<close>: PCRE (\<open>pcre_compile\<close> and \<open>pcre_exec\<close>), the vendored semantic
  version and RFC 3339 parsers and the JSON text codec of cJSON.

  The lemmas characterise each operator: string operators as prefix, suffix and sublist,
  numeric operators as the order of the numbers, date operators as the order of the
  instants, and the dispatch table as a function of the operator name.
\<close>

section \<open>Parameters\<close>

record semver_t =
  sv_major :: int
  sv_minor :: int
  sv_patch :: int
  sv_metadata :: "string option"
  sv_prerelease :: "string option"

record timestamp_t =
  ts_sec :: int
  ts_nsec :: int
  ts_offset :: int

text \<open>
  \<open>env_pcre r\<close> is \<open>None\<close> when the expression does not compile, else the return code
  of \<open>pcre_exec\<close> as a function of the subject.
\<close>

record env =
  env_pcre :: "string \<Rightarrow> (string \<Rightarrow> int) option"
  env_semver_parse :: "string \<Rightarrow> semver_t option"
  env_semver_eq :: "semver_t \<Rightarrow> semver_t \<Rightarrow> bool"
  env_semver_lt :: "semver_t \<Rightarrow> semver_t \<Rightarrow> bool"
  env_semver_gt :: "semver_t \<Rightarrow> semver_t \<Rightarrow> bool"
  env_timestamp_parse :: "string \<Rightarrow> timestamp_t option"
  env_serialize :: "json \<Rightarrow> string"
  env_deserialize :: "string \<Rightarrow> json option"

text \<open>
  One instance of the parameters, for concrete evaluations: no expression, version, date or
  text is recognised.
\<close>

definition plain_env :: env where
  "plain_env = \<lparr>env_pcre = (\<lambda>_. None),
     env_semver_parse = (\<lambda>_. None), env_semver_eq = (=),
     env_semver_lt = (\<lambda>a b. sv_major a < sv_major b),
     env_semver_gt = (\<lambda>a b. sv_major a > sv_major b), env_timestamp_parse = (\<lambda>_. None),
     env_serialize = (\<lambda>_. ''{}''), env_deserialize = (\<lambda>_. None)\<rparr>"

type_synonym OpFn = "json \<Rightarrow> json \<Rightarrow> bool run"

section \<open>String operators\<close>

definition operatorInFn :: OpFn where
  "operatorInFn uvalue cvalue = Inr (LDJSONCompare (Some uvalue) (Some cvalue))"

text \<open>The macro \<open>CHECKSTRING\<close>: both operands are strings, else the result is false.\<close>

definition with_strings :: "(string \<Rightarrow> string \<Rightarrow> bool) \<Rightarrow> OpFn" where
  "with_strings f uvalue cvalue =
     (case (uvalue, cvalue) of (JText u, JText c) \<Rightarrow> Inr (f u c) | _ \<Rightarrow> Inr False)"

definition operatorStartsWithFn :: OpFn where
  "operatorStartsWithFn =
     with_strings (\<lambda>u c. if length u < length c then False
                         else take (length c) u = take (length c) c)"

definition operatorEndsWithFn :: OpFn where
  "operatorEndsWithFn =
     with_strings (\<lambda>u c. if length u < length c then False
                         else drop (length u - length c) u = c)"

definition operatorMatchesFn :: "env \<Rightarrow> OpFn" where
  "operatorMatchesFn E =
     with_strings (\<lambda>subject regex.
       case env_pcre E regex of None \<Rightarrow> False | Some exec \<Rightarrow> 0 \<le> exec subject)"

text \<open>\<open>strstr\<close> finds the needle at the first position where it matches.\<close>

fun strstr :: "string \<Rightarrow> string \<Rightarrow> string option" where
  "strstr s needle =
     (if take (length needle) s = needle then Some s
      else case s of [] \<Rightarrow> None | _ # s' \<Rightarrow> strstr s' needle)"

declare strstr.simps [simp del]

definition operatorContainsFn :: OpFn where
  "operatorContainsFn = with_strings (\<lambda>u c. strstr u c \<noteq> None)"

section \<open>Numeric operators\<close>

definition with_numbers :: "(rat \<Rightarrow> rat \<Rightarrow> bool) \<Rightarrow> OpFn" where
  "with_numbers f uvalue cvalue =
     (case (uvalue, cvalue) of (JNumber u, JNumber c) \<Rightarrow> Inr (f u c) | _ \<Rightarrow> Inr False)"

definition operatorLessThanFn :: OpFn where
  "operatorLessThanFn = with_numbers (<)"

definition operatorLessThanOrEqualFn :: OpFn where
  "operatorLessThanOrEqualFn = with_numbers (\<le>)"

definition operatorGreaterThanFn :: OpFn where
  "operatorGreaterThanFn = with_numbers (>)"

definition operatorGreaterThanOrEqualFn :: OpFn where
  "operatorGreaterThanOrEqualFn = with_numbers (\<ge>)"

section \<open>Dates\<close>

text \<open>\<open>fmod\<close> is exact and takes the sign of its first argument.\<close>

definition fmod :: "rat \<Rightarrow> rat \<Rightarrow> rat" where
  "fmod n m = n - m * of_int (trunc_rat (n / m))"

definition floorAtMagnitude :: "rat \<Rightarrow> u32 \<Rightarrow> rat" where
  "floorAtMagnitude n magnitude = to_double (n - fmod n (uint_to_double magnitude))"

definition double_to_int64 :: "rat \<Rightarrow> int run" where
  "double_to_int64 x =
     (let n = trunc_rat x in
      if - (2 ^ 63) \<le> n \<and> n < 2 ^ 63 then Inr n else Inl BadConversion)"

definition LDi_parseTime :: "env \<Rightarrow> json \<Rightarrow> timestamp_t option run" where
  "LDi_parseTime E j =
     (case j of
        JNumber original \<Rightarrow>
          (let rounded = floorAtMagnitude original 1000 in
           run_bind (double_to_int64 (to_double (rounded / 1000))) (\<lambda>s.
           run_bind (double_to_int (to_double (to_double (original - rounded) * 1000000))) (\<lambda>n.
           Inr (Some \<lparr>ts_sec = s, ts_nsec = n, ts_offset = 0\<rparr>))))
      | JText text \<Rightarrow> Inr (env_timestamp_parse E text)
      | _ \<Rightarrow> Inr None)"

definition timestamp_compare :: "timestamp_t \<Rightarrow> timestamp_t \<Rightarrow> int" where
  "timestamp_compare t1 t2 =
     (if ts_sec t1 < ts_sec t2 then - 1
      else if ts_sec t1 > ts_sec t2 then 1
      else if ts_nsec t1 < ts_nsec t2 then - 1
      else if ts_nsec t1 > ts_nsec t2 then 1
      else 0)"

definition compareTime :: "env \<Rightarrow> (int \<Rightarrow> int \<Rightarrow> bool) \<Rightarrow> OpFn" where
  "compareTime E op uvalue cvalue =
     run_bind (LDi_parseTime E uvalue) (\<lambda>ustamp.
       case ustamp of
         None \<Rightarrow> Inr False
       | Some u \<Rightarrow> run_bind (LDi_parseTime E cvalue) (\<lambda>cstamp.
           case cstamp of
             None \<Rightarrow> Inr False
           | Some c \<Rightarrow> Inr (op (timestamp_compare u c) 0)))"

definition operatorBefore :: "env \<Rightarrow> OpFn" where
  "operatorBefore E = compareTime E (<)"

definition operatorAfter :: "env \<Rightarrow> OpFn" where
  "operatorAfter E = compareTime E (>)"

section \<open>Semantic versions\<close>

definition compareSemVer :: "env \<Rightarrow> (semver_t \<Rightarrow> semver_t \<Rightarrow> bool) \<Rightarrow> OpFn" where
  "compareSemVer E op =
     with_strings (\<lambda>u c.
       case env_semver_parse E u of
         None \<Rightarrow> False
       | Some usem \<Rightarrow> (case env_semver_parse E c of None \<Rightarrow> False | Some csem \<Rightarrow> op usem csem))"

definition operatorSemVerEqual :: "env \<Rightarrow> OpFn" where
  "operatorSemVerEqual E = compareSemVer E (env_semver_eq E)"

definition operatorSemVerLessThan :: "env \<Rightarrow> OpFn" where
  "operatorSemVerLessThan E = compareSemVer E (env_semver_lt E)"

definition operatorSemVerGreaterThan :: "env \<Rightarrow> OpFn" where
  "operatorSemVerGreaterThan E = compareSemVer E (env_semver_gt E)"

section \<open>Dispatch\<close>

definition LDi_lookupOperation :: "env \<Rightarrow> string \<Rightarrow> OpFn option" where
  "LDi_lookupOperation E op =
     (if op = ''in'' then Some operatorInFn
      else if op = ''endsWith'' then Some operatorEndsWithFn
      else if op = ''startsWith'' then Some operatorStartsWithFn
      else if op = ''matches'' then Some (operatorMatchesFn E)
      else if op = ''contains'' then Some operatorContainsFn
      else if op = ''lessThan'' then Some operatorLessThanFn
      else if op = ''lessThanOrEqual'' then Some operatorLessThanOrEqualFn
      else if op = ''greaterThan'' then Some operatorGreaterThanFn
      else if op = ''greaterThanOrEqual'' then Some operatorGreaterThanOrEqualFn
      else if op = ''before'' then Some (operatorBefore E)
      else if op = ''after'' then Some (operatorAfter E)
      else if op = ''semVerEqual'' then Some (operatorSemVerEqual E)
      else if op = ''semVerLessThan'' then Some (operatorSemVerLessThan E)
      else if op = ''semVerGreaterThan'' then Some (operatorSemVerGreaterThan E)
      else None)"

section \<open>Characterisations\<close>

lemma with_strings_simps [simp]: "with_strings f (JText u) (JText c) = Inr (f u c)"
  by (simp add: with_strings_def)

lemma with_strings_true: "with_strings f u c = Inr True \<longleftrightarrow> (\<exists>s t. u = JText s \<and> c = JText t \<and> f s t)"
  by (auto simp: with_strings_def split: json.splits)

lemma startsWith_prefix:
  "(\<not> length u < length c \<and> take (length c) u = take (length c) c) \<longleftrightarrow> prefix c u"
  by (auto simp: prefix_def) (metis append_take_drop_id)

lemma endsWith_suffix:
  "(\<not> length u < length c \<and> drop (length u - length c) u = c) \<longleftrightarrow> suffix c u"
  by (auto simp: suffix_def) (metis append_take_drop_id)

lemma take_eq_prefix: "take (length c) u = c \<longleftrightarrow> prefix c u"
  by (auto simp: prefix_def) (metis append_take_drop_id)

lemma strstr_sublist: "strstr s c \<noteq> None \<longleftrightarrow> sublist c s"
proof (induction s)
  case Nil
  then show ?case by (subst strstr.simps) auto
next
  case (Cons x s)
  then show ?case by (subst strstr.simps) (auto simp: take_eq_prefix sublist_Cons_right)
qed

text \<open>
  The string operators decide exactly prefix, suffix and substring on two strings, and
  are false on operands of any other type.
\<close>

theorem string_operators_spec:
  "(operatorStartsWithFn u c = Inr True \<longleftrightarrow> (\<exists>s t. u = JText s \<and> c = JText t \<and> prefix t s)) \<and>
   (operatorEndsWithFn u c = Inr True \<longleftrightarrow> (\<exists>s t. u = JText s \<and> c = JText t \<and> suffix t s)) \<and>
   (operatorContainsFn u c = Inr True \<longleftrightarrow> (\<exists>s t. u = JText s \<and> c = JText t \<and> sublist t s))"
  unfolding operatorStartsWithFn_def operatorEndsWithFn_def operatorContainsFn_def
    with_strings_true startsWith_prefix [symmetric] endsWith_suffix [symmetric]
    strstr_sublist [symmetric]
  by auto

lemma timestamp_compare_swap: "timestamp_compare c u = - timestamp_compare u c"
  by (simp add: timestamp_compare_def)

lemma timestamp_compare_less:
  "timestamp_compare t1 t2 < 0 \<longleftrightarrow>
     ts_sec t1 < ts_sec t2 \<or> ts_sec t1 = ts_sec t2 \<and> ts_nsec t1 < ts_nsec t2"
  by (auto simp: timestamp_compare_def)

section \<open>Millisecond timestamps\<close>

text \<open>C's integer quotient and remainder by 1000, truncating towards zero.\<close>

definition quot1000 :: "int \<Rightarrow> int" where
  "quot1000 n = (if 0 \<le> n then n div 1000 else - ((- n) div 1000))"

lemma trunc_div_1000: "trunc_rat (of_int n / 1000) = quot1000 n"
proof -
  have "\<lfloor>(of_int k :: rat) / 1000\<rfloor> = k div 1000" for k
    using floor_divide_of_int_eq [of k 1000, where ?'a = rat] by simp
  from this [of n] this [of "- n"] show ?thesis
    by (simp add: trunc_rat_def quot1000_def)
qed

lemma quot1000_bounds: "\<bar>n - 1000 * quot1000 n\<bar> < 1000" "\<bar>1000 * quot1000 n\<bar> \<le> \<bar>n\<bar>"
  by (simp_all add: quot1000_def) linarith+

lemma parseTime_millis:
  assumes n: "\<bar>n\<bar> < 2 ^ 53"
  shows "LDi_parseTime E (JNumber (of_int n)) = Inr (Some
    \<lparr>ts_sec = quot1000 n, ts_nsec = (n - 1000 * quot1000 n) * 1000000, ts_offset = 0\<rparr>)"
proof -
  have r: "of_int n - fmod (of_int n) 1000 = (of_int (1000 * quot1000 n) :: rat)"
    by (simp add: fmod_def trunc_div_1000)
  have m1000: "uint_to_double 1000 = 1000" by (simp add: uint_to_double_def)
  have "\<bar>1000 * quot1000 n\<bar> < 2 ^ 53" using quot1000_bounds(2) [of n] n by linarith
  then have fl: "floorAtMagnitude (of_int n) 1000 = of_int (1000 * quot1000 n)"
    unfolding floorAtMagnitude_def m1000 r by (rule to_double_int)
  have d: "(of_int n :: rat) - of_int (1000 * quot1000 n) = of_int (n - 1000 * quot1000 n)"
    by simp
  have small: "\<bar>n - 1000 * quot1000 n\<bar> < 1000" by (rule quot1000_bounds(1))
  have "\<bar>n - 1000 * quot1000 n\<bar> < 2 ^ 53" using small by simp
  then have d1: "to_double (of_int n - of_int (1000 * quot1000 n)) =
      of_int (n - 1000 * quot1000 n)"
    unfolding d by (rule to_double_int)
  have "\<bar>(n - 1000 * quot1000 n) * 1000000\<bar> < 2 ^ 53" using small by (simp add: abs_mult)
  then have d2: "to_double (of_int ((n - 1000 * quot1000 n) * 1000000)) =
      of_int ((n - 1000 * quot1000 n) * 1000000)"
    by (rule to_double_int)
  have q: "\<bar>quot1000 n\<bar> < 2 ^ 53" using quot1000_bounds(2) [of n] n by linarith
  have s: "to_double (of_int (1000 * quot1000 n) / 1000) = of_int (quot1000 n)"
    using to_double_int [OF q] by simp
  have nsec: "double_to_int (of_int ((n - 1000 * quot1000 n) * 1000000)) =
      Inr ((n - 1000 * quot1000 n) * 1000000)"
    unfolding double_to_int_def trunc_rat_of_int using small
    by (auto simp: Let_def abs_less_iff)
  have sec: "double_to_int64 (of_int (quot1000 n)) = Inr (quot1000 n)"
    unfolding double_to_int64_def trunc_rat_of_int using q
    by (auto simp: Let_def abs_less_iff)
  have mul: "(of_int (n - 1000 * quot1000 n) :: rat) * 1000000 =
      of_int ((n - 1000 * quot1000 n) * 1000000)"
    by simp
  show ?thesis
    unfolding LDi_parseTime_def json.case Let_def fl s sec d1 mul d2 nsec by simp
qed

lemma millis_order:
  fixes a b :: int
  shows "quot1000 a < quot1000 b \<or> quot1000 a = quot1000 b \<and>
    (a - 1000 * quot1000 a) * 1000000 < (b - 1000 * quot1000 b) * 1000000 \<longleftrightarrow> a < b"
proof -
  have mono: "quot1000 x \<le> quot1000 y" if "x \<le> y" for x y
    using that zdiv_mono1 [of x y 1000] zdiv_mono1 [of "- y" "- x" 1000]
      pos_imp_zdiv_nonneg_iff [of 1000 y] pos_imp_zdiv_nonneg_iff [of 1000 "- x"]
    by (auto simp: quot1000_def)
  show ?thesis using mono [of a b] mono [of b a] by (cases "a < b") auto
qed

text \<open>
  On dates given as whole milliseconds since the epoch (of magnitude below
  \<open>2\<^sup>5\<^sup>3\<close>, negative ones included) \<open>before\<close> and \<open>after\<close> decide the order of
  the instants: splitting into seconds and nanoseconds in \<open>double\<close> arithmetic loses nothing.
\<close>

theorem date_operators_order:
  assumes "\<bar>a\<bar> < 2 ^ 53" and "\<bar>b\<bar> < 2 ^ 53"
  shows "operatorBefore E (JNumber (of_int a)) (JNumber (of_int b)) = Inr (a < b) \<and>
    operatorAfter E (JNumber (of_int a)) (JNumber (of_int b)) = Inr (a > b)"
proof -
  let ?t = "\<lambda>n. \<lparr>ts_sec = quot1000 n, ts_nsec = (n - 1000 * quot1000 n) * 1000000,
    ts_offset = 0\<rparr>"
  have lt: "timestamp_compare (?t x) (?t y) < 0 \<longleftrightarrow> x < y" for x y
    unfolding timestamp_compare_less using millis_order [of x y] by simp
  have gt: "0 < timestamp_compare (?t a) (?t b) \<longleftrightarrow> b < a"
    using lt [of b a] timestamp_compare_swap [of "?t b" "?t a"] by linarith
  show ?thesis
    unfolding operatorBefore_def operatorAfter_def compareTime_def
      parseTime_millis [OF assms(1)] parseTime_millis [OF assms(2)]
    by (simp only: run_bind.simps option.case lt gt simp_thms)
qed

theorem date_operators_order_witness:
  "operatorBefore plain_env (JNumber (of_int (- 1500))) (JNumber (of_int 1633016202001)) =
     Inr True \<and>
   operatorAfter plain_env (JNumber (of_int (- 1500))) (JNumber (of_int 1633016202001)) = Inr False"
  using date_operators_order [of "- 1500" 1633016202001 plain_env] by simp

end
