(* ===== verification/LD_Events.thy ===== *)
theory LD_Events
  imports LD_Details LD_User LD_Config LD_LRU LD_Operators
begin

text \<open>
  src/event_processor.c: the analytics events. The state is the queue of events still to
  send, the summary counters, the cache of recently seen user keys and three instants; every
  operation runs under the processor's lock, so it is a function of the state. \<open>now\<close> is the
  wall clock of the call. Allocation succeeds (also inside the user-key cache).
\<close>

record 'b EventProcessor =
  events :: json
  summaryCounters :: json
  summaryStart :: rat
  userKeys :: LDLRU
  lastUserKeyFlush :: rat
  lastServerTime :: rat
  ep_config :: "'b LDConfig"

definition LDi_newEventProcessor :: "'b LDConfig \<Rightarrow> rat \<Rightarrow> 'b EventProcessor" where
  "LDi_newEventProcessor config monotonic =
     \<lparr>events = JArray [], summaryCounters = JObject [], summaryStart = 0,
      userKeys = LDLRUInit (userKeysCapacity config), lastUserKeyFlush = monotonic,
      lastServerTime = 0, ep_config = config\<rparr>"

section \<open>Building events\<close>

definition LDi_newBaseEvent :: "string \<Rightarrow> rat \<Rightarrow> json" where
  "LDi_newBaseEvent kind now =
     set_key ''kind'' (JText kind) (set_key ''creationDate'' (JNumber now) (JObject []))"

definition config_user_json :: "'b EventProcessor \<Rightarrow> LDUser \<Rightarrow> json run" where
  "config_user_json context user =
     LDi_userToJSON user True (allAttributesPrivate (ep_config context))
       (Some (cfg_privateAttributeNames (ep_config context)))"

definition LDi_addUserInfoToEvent :: "'b EventProcessor \<Rightarrow> json \<Rightarrow> LDUser \<Rightarrow> json run" where
  "LDi_addUserInfoToEvent context event user =
     (if inlineUsersInEvents (ep_config context)
      then run_bind (config_user_json context user) (\<lambda>u. Inr (set_key ''user'' u event))
      else Inr (set_key ''userKey'' (JText (user_key user)) event))"

text \<open>Copy a member that is there and not \<open>null\<close>.\<close>

definition copy_member :: "string \<Rightarrow> json option \<Rightarrow> json \<Rightarrow> json" where
  "copy_member k p event = (case p of Some v \<Rightarrow> if v = JNull then event else set_key k v event | None \<Rightarrow> event)"

text \<open>Copy a member of the flag that must be a number: \<open>None\<close> is the schema error.\<close>

definition copy_number :: "string \<Rightarrow> json \<Rightarrow> json \<Rightarrow> json option" where
  "copy_number k flag event =
     (let tmp = LDObjectLookup (Some flag) k in
      if LDi_notNull tmp \<and> LDJSONGetType tmp \<noteq> LDNumber then None
      else Some (copy_member k tmp event))"

text \<open>The members taken from the flag, and whether it asks for tracking.\<close>

definition flag_members :: "json option \<Rightarrow> json \<Rightarrow> (json \<times> bool) option" where
  "flag_members flag event =
     (case flag of
        None \<Rightarrow> Some (event, False)
      | Some f \<Rightarrow>
          Option.bind (copy_number ''version'' f event) (\<lambda>event1.
          Option.bind (copy_number ''debugEventsUntilDate'' f event1) (\<lambda>event2.
            let tmp = LDObjectLookup (Some f) ''trackEvents'' in
            if LDi_notNull tmp \<and> LDJSONGetType tmp \<noteq> LDBool then None
            else Some (event2, LDi_notNull tmp \<and> LDGetBool tmp))))"

text \<open>Tracking asked for by the fallthrough or by the rule that matched.\<close>

definition experiment_tracking :: "LDDetails \<Rightarrow> json option \<Rightarrow> bool option run" where
  "experiment_tracking details flag =
     (case flag of
        None \<Rightarrow> Inr (Some False)
      | Some f \<Rightarrow>
          (let tmp = LDObjectLookup (Some f) ''trackEventsFallthrough'' in
           if LDi_notNull tmp \<and> LDJSONGetType tmp \<noteq> LDBool then Inr None
           else
             let fall = LDi_notNull tmp \<and> LDGetBool tmp \<and> reason details = LD_FALLTHROUGH
             in if reason details = LD_RULE_MATCH then
                  (case extra details of
                     ExtraRule r \<Rightarrow>
                       (let t = LDObjectLookup (LDArrayLookup (LDObjectLookup (Some f) ''rules'')
                                  (ruleIndex r)) ''trackEvents''
                        in Inr (Some (fall \<or> (LDi_notNull t \<and> LDJSONGetType t = LDBool \<and> LDGetBool t))))
                   | _ \<Rightarrow> Inl Uninitialised)
                else Inr (Some fall)))"

definition LDi_newFeatureRequestEvent ::
    "'b EventProcessor \<Rightarrow> string \<Rightarrow> LDUser \<Rightarrow> u32 option \<Rightarrow> json option \<Rightarrow> json option \<Rightarrow>
     string option \<Rightarrow> json option \<Rightarrow> LDDetails \<Rightarrow> rat \<Rightarrow> json option run" where
  "LDi_newFeatureRequestEvent context key user variation value defaultValue prereqOf flag details now =
     run_bind (LDi_addUserInfoToEvent context (LDi_newBaseEvent ''feature'' now) user) (\<lambda>event0.
       let event1 = set_key ''key'' (JText key) event0;
           event2 = (case variation of None \<Rightarrow> event1
             | Some v \<Rightarrow> set_key ''variation'' (JNumber (uint_to_double v)) event1);
           event3 = (case value of None \<Rightarrow> event2 | Some v \<Rightarrow> set_key ''value'' v event2);
           event4 = (case defaultValue of None \<Rightarrow> event3 | Some v \<Rightarrow> set_key ''default'' v event3);
           event5 = (case prereqOf of None \<Rightarrow> event4 | Some p \<Rightarrow> set_key ''prereqOf'' (JText p) event4)
       in case flag_members flag event5 of
            None \<Rightarrow> Inr None
          | Some (event6, flagTrack) \<Rightarrow>
              run_bind (LDReasonToJSON details) (\<lambda>r.
                case r of
                  None \<Rightarrow> Inr None
                | Some rj \<Rightarrow>
                    run_bind (experiment_tracking details flag) (\<lambda>t.
                      case t of
                        None \<Rightarrow> Inr None
                      | Some alwaysDetail \<Rightarrow>
                          let event7 = set_key ''reason'' rj event6;
                              event8 = (if flagTrack \<or> alwaysDetail
                                then set_key ''trackEvents'' (JBool True) event7 else event7);
                              event9 = (if alwaysDetail
                                then set_key ''shouldAlwaysTrackDetails'' (JBool True) event8 else event8)
                          in Inr (Some (if anonymous user
                               then set_key ''contextKind'' (JText ''anonymousUser'') event9
                               else event9)))))"

definition LDi_newIdentifyEvent :: "'b EventProcessor \<Rightarrow> LDUser \<Rightarrow> rat \<Rightarrow> json run" where
  "LDi_newIdentifyEvent context user now =
     (let event = set_key ''key'' (JText (user_key user)) (LDi_newBaseEvent ''identify'' now)
      in run_bind (config_user_json context user) (\<lambda>u. Inr (set_key ''user'' u event)))"

definition LDi_newCustomEvent ::
    "'b EventProcessor \<Rightarrow> LDUser \<Rightarrow> string \<Rightarrow> json option \<Rightarrow> rat \<Rightarrow> bool \<Rightarrow> rat \<Rightarrow> json run" where
  "LDi_newCustomEvent context user key data metric hasMetric now =
     run_bind (LDi_addUserInfoToEvent context (LDi_newBaseEvent ''custom'' now) user) (\<lambda>event0.
       let event1 = set_key ''key'' (JText key) event0;
           event2 = (case data of None \<Rightarrow> event1 | Some d \<Rightarrow> set_key ''data'' d event1);
           event3 = (if hasMetric then set_key ''metricValue'' (JNumber metric) event2 else event2)
       in Inr (if anonymous user
            then set_key ''contextKind'' (JText ''anonymousUser'') event3 else event3))"

definition contextKindString :: "LDUser \<Rightarrow> json" where
  "contextKindString user = JText (if anonymous user then ''anonymousUser'' else ''user'')"

definition LDi_newAliasEvent :: "LDUser \<Rightarrow> LDUser \<Rightarrow> rat \<Rightarrow> json" where
  "LDi_newAliasEvent currentUser previousUser now =
     set_key ''previousContextKind'' (contextKindString previousUser)
       (set_key ''contextKind'' (contextKindString currentUser)
         (set_key ''previousKey'' (JText (user_key previousUser))
           (set_key ''key'' (JText (user_key currentUser)) (LDi_newBaseEvent ''alias'' now))))"

section \<open>The queue\<close>

definition LDi_addEvent :: "'b EventProcessor \<Rightarrow> json \<Rightarrow> 'b EventProcessor run" where
  "LDi_addEvent context event =
     run_bind (LD_ASSERT (json_type (events context) = LDArray)) (\<lambda>_.
       if LDCollectionGetSize (Some (events context)) \<ge> eventsCapacity (ep_config context)
       then Inr context
       else Inr (context\<lparr>events := snd (LDArrayPush (events context) (Some event))\<rparr>))"

definition convertToDebug :: "json \<Rightarrow> bool \<times> json" where
  "convertToDebug event =
     LDObjectSetKey (LDObjectDeleteKey event ''kind'') (Some ''kind'') (Some (JText ''debug''))"

definition LDi_possiblyQueueEvent ::
    "'b EventProcessor \<Rightarrow> json \<Rightarrow> rat \<Rightarrow> bool \<Rightarrow> 'b EventProcessor run" where
  "LDi_possiblyQueueEvent context event now detailedEvaluation =
     (let inExp = LDObjectLookup (LDObjectLookup (Some event) ''reason'') ''inExperiment'';
          always = LDObjectLookup (Some event) ''shouldAlwaysTrackDetails'';
          event1 = (if LDi_notNull always
            then LDObjectDeleteKey
              (if LDGetBool always then event else LDObjectDeleteKey event ''reason'')
              ''shouldAlwaysTrackDetails''
            else if \<not> detailedEvaluation then LDObjectDeleteKey event ''reason'' else event);
          track = LDObjectLookup (Some event1) ''trackEvents'';
          shouldTrack = (LDGetBool inExp \<or> LDi_notNull track \<and> LDGetBool track);
          event2 = (if LDi_notNull track then LDObjectDeleteKey event1 ''trackEvents'' else event1);
          debug = LDObjectLookup (Some event2) ''debugEventsUntilDate'';
          event3 = (if LDi_notNull debug then LDObjectDeleteKey event2 ''debugEventsUntilDate''
            else event2)
      in run_bind
           (if LDi_notNull debug \<and> now < LDGetNumber debug \<and> lastServerTime context < LDGetNumber debug
            then let (converted, debugEvent) = convertToDebug event3
                 in if \<not> converted then LDi_addEvent context debugEvent else Inr context
            else Inr context)
           (\<lambda>context1. if shouldTrack then LDi_addEvent context1 event3 else Inr context1))"

text \<open>The result is the status, the index event if one is due, and the state.\<close>

definition LDi_maybeMakeIndexEvent ::
    "'b EventProcessor \<Rightarrow> LDUser \<Rightarrow> rat \<Rightarrow> (bool \<times> json option \<times> 'b EventProcessor) run" where
  "LDi_maybeMakeIndexEvent context user now =
     (if inlineUsersInEvents (ep_config context) then Inr (True, None, context)
      else
        let context1 =
          (if now > to_double (lastUserKeyFlush context +
                uint_to_double (userKeysFlushInterval (ep_config context)))
           then context\<lparr>userKeys := LDLRUClear (userKeys context), lastUserKeyFlush := now\<rparr>
           else context)
        in run_bind (LDLRUInsert True True (userKeys context1) (user_key user)) (\<lambda>(status, keys).
             let context2 = context1\<lparr>userKeys := keys\<rparr> in
             case status of
               LDLRUSTATUS_ERROR \<Rightarrow> Inr (False, None, context2)
             | LDLRUSTATUS_EXISTED \<Rightarrow> Inr (True, None, context2)
             | LDLRUSTATUS_NEW \<Rightarrow>
                 run_bind (config_user_json context user) (\<lambda>u.
                   Inr (True, Some (set_key ''user'' u (LDi_newBaseEvent ''index'' now)), context2))))"

section \<open>The summary\<close>

definition LDi_makeSummaryKey :: "env \<Rightarrow> json \<Rightarrow> string run" where
  "LDi_makeSummaryKey E event =
     (let var = LDObjectLookup (Some event) ''variation'';
          ver = LDObjectLookup (Some event) ''version''
      in run_bind (LD_ASSERT (LDi_notNull var \<longrightarrow> LDJSONGetType var = LDNumber)) (\<lambda>_.
         run_bind (LD_ASSERT (LDi_notNull ver \<longrightarrow> LDJSONGetType ver = LDNumber)) (\<lambda>_.
           Inr (env_serialize E (copy_member ''version'' ver (copy_member ''variation'' var (JObject [])))))))"

definition new_flag_context :: "json \<Rightarrow> json" where
  "new_flag_context event =
     set_key ''counters'' (JObject [])
       (copy_member ''default'' (LDObjectLookup (Some event) ''default'') (JObject []))"

definition new_counter :: "json \<Rightarrow> bool \<Rightarrow> json" where
  "new_counter event unknown =
     (let entry1 = set_key ''count'' (JNumber 1) (JObject []);
          entry2 = copy_member ''value'' (LDObjectLookup (Some event) ''value'') entry1;
          entry3 = copy_member ''version'' (LDObjectLookup (Some event) ''version'') entry2;
          entry4 = copy_member ''variation'' (LDObjectLookup (Some event) ''variation'') entry3
      in if unknown then set_key ''unknown'' (JBool True) entry4 else entry4)"

text \<open>One more on the counter \<open>keytext\<close> of a flag.\<close>

definition count_event :: "json \<Rightarrow> string \<Rightarrow> json \<Rightarrow> bool \<Rightarrow> json run" where
  "count_event counters keytext event unknown =
     (case LDObjectLookup (Some counters) keytext of
        None \<Rightarrow> Inr (set_key keytext (new_counter event unknown) counters)
      | Some entry \<Rightarrow>
          (case LDObjectLookup (Some entry) ''count'' of
             None \<Rightarrow> Inl Assertion
           | Some c \<Rightarrow>
               (let (status, c') = LDSetNumber c (to_double (LDGetNumber (Some c) + 1))
                in if status then Inr (write_member keytext (write_member ''count'' c' entry) counters)
                   else Inl Assertion)))"

definition LDi_summarizeEvent ::
    "env \<Rightarrow> 'b EventProcessor \<Rightarrow> json \<Rightarrow> bool \<Rightarrow> rat \<Rightarrow> (bool \<times> 'b EventProcessor) run" where
  "LDi_summarizeEvent E context event unknown now =
     (case LDGetText (LDObjectLookup (Some event) ''key'') of
        None \<Rightarrow> Inl Assertion
      | Some flagKey \<Rightarrow>
          run_bind (LDi_makeSummaryKey E event) (\<lambda>keytext.
            let start = (if summaryStart context = 0 then now else summaryStart context);
                all = (case LDObjectLookup (Some (summaryCounters context)) flagKey of
                         Some _ \<Rightarrow> summaryCounters context
                       | None \<Rightarrow> set_key flagKey (new_flag_context event) (summaryCounters context))
            in case LDObjectLookup (Some all) flagKey of
                 None \<Rightarrow> Inl Assertion
               | Some flagContext \<Rightarrow>
                   (case LDObjectLookup (Some flagContext) ''counters'' of
                      None \<Rightarrow> Inl Assertion
                    | Some counters \<Rightarrow>
                        run_bind (LD_ASSERT (json_type counters = LDObject)) (\<lambda>_.
                        run_bind (count_event counters keytext event unknown) (\<lambda>counters'.
                          Inr (True, context\<lparr>summaryStart := start,
                            summaryCounters := write_member flagKey
                              (write_member ''counters'' counters' flagContext) all\<rparr>))))))"

definition LDi_objectToArray :: "json \<Rightarrow> json run" where
  "LDi_objectToArray object =
     run_bind (LD_ASSERT (json_type object = LDObject)) (\<lambda>_.
       Inr (JArray (iter_values (Some object))))"

fun summary_features :: "(string \<times> json) list \<Rightarrow> (string \<times> json) list run" where
  "summary_features [] = Inr []"
| "summary_features ((k, flagContext) # rest) =
     (let (countersObject, detached) = LDObjectDetachKey flagContext ''counters'' in
      case countersObject of
        None \<Rightarrow> Inl Assertion
      | Some c \<Rightarrow>
          run_bind (LDi_objectToArray c) (\<lambda>countersArray.
          run_bind (summary_features rest) (\<lambda>rest'.
            Inr ((k, set_key ''counters'' countersArray detached) # rest'))))"

definition LDi_prepareSummaryEvent :: "'b EventProcessor \<Rightarrow> rat \<Rightarrow> json run" where
  "LDi_prepareSummaryEvent context now =
     run_bind (summary_features
       (case summaryCounters context of JObject ps \<Rightarrow> ps | _ \<Rightarrow> [])) (\<lambda>features.
       Inr (set_key ''features'' (JObject features)
         (set_key ''endDate'' (JNumber now)
           (set_key ''startDate'' (JNumber (summaryStart context))
             (set_key ''kind'' (JText ''summary'') (JObject []))))))"

section \<open>Operations of the processor\<close>

fun summarize_all ::
    "env \<Rightarrow> 'b EventProcessor \<Rightarrow> json list \<Rightarrow> rat \<Rightarrow> (bool \<times> 'b EventProcessor) run" where
  "summarize_all E context [] now = Inr (True, context)"
| "summarize_all E context (e # es) now =
     run_bind (LDi_summarizeEvent E context e False now) (\<lambda>(ok, context').
       if ok then summarize_all E context' es now else Inr (False, context'))"

fun queue_all ::
    "'b EventProcessor \<Rightarrow> json list \<Rightarrow> rat \<Rightarrow> bool \<Rightarrow> 'b EventProcessor run" where
  "queue_all context [] now detailed = Inr context"
| "queue_all context (e # es) now detailed =
     run_bind (LDi_possiblyQueueEvent context e now detailed) (\<lambda>context'.
       queue_all context' es now detailed)"

definition queue_sub_events ::
    "env \<Rightarrow> 'b EventProcessor \<Rightarrow> json option \<Rightarrow> rat \<Rightarrow> bool \<Rightarrow> (bool \<times> 'b EventProcessor) run" where
  "queue_sub_events E context subEvents now detailed =
     (case subEvents of
        None \<Rightarrow> Inr (True, context)
      | Some es \<Rightarrow>
          run_bind (LD_ASSERT (json_type es = LDArray)) (\<lambda>_.
          run_bind (summarize_all E context (iter_values subEvents) now) (\<lambda>(ok, context1).
            if \<not> ok then Inr (False, context1)
            else run_bind (queue_all context1 (iter_values subEvents) now detailed) (\<lambda>context2.
              Inr (True, context2)))))"

definition LDi_processEvaluation ::
    "env \<Rightarrow> 'b EventProcessor \<Rightarrow> LDUser \<Rightarrow> json option \<Rightarrow> string \<Rightarrow> json option \<Rightarrow> json option \<Rightarrow>
     json option \<Rightarrow> LDDetails \<Rightarrow> bool \<Rightarrow> rat \<Rightarrow> (bool \<times> 'b EventProcessor) run" where
  "LDi_processEvaluation E context user subEvents flagKey actualValue fallbackValue flag details
      detailedEvaluation now =
     (let evaluationValue = (if LDi_notNull actualValue then actualValue else fallbackValue);
          variationRef = (if hasVariation details then Some (variationIndex details) else None)
      in run_bind (LDi_newFeatureRequestEvent context flagKey user variationRef evaluationValue
           fallbackValue None flag details now) (\<lambda>featureEvent.
         case featureEvent of
           None \<Rightarrow> Inr (False, context)
         | Some feature \<Rightarrow>
             run_bind (LDi_maybeMakeIndexEvent context user now) (\<lambda>(ok1, indexEvent, context1).
             if \<not> ok1 then Inr (False, context1)
             else run_bind (LDi_summarizeEvent E context1 feature (flag = None) now) (\<lambda>(ok2, context2).
             if \<not> ok2 then Inr (False, context2)
             else run_bind (case indexEvent of None \<Rightarrow> Inr context2
               | Some e \<Rightarrow> LDi_addEvent context2 e) (\<lambda>context3.
             run_bind (if flag \<noteq> None
                 then LDi_possiblyQueueEvent context3 feature now detailedEvaluation
                 else Inr context3) (\<lambda>context4.
             queue_sub_events E context4 subEvents now detailedEvaluation))))))"

definition LDi_identify :: "'b EventProcessor \<Rightarrow> LDUser \<Rightarrow> rat \<Rightarrow> (bool \<times> 'b EventProcessor) run" where
  "LDi_identify context user now =
     run_bind (LDi_newIdentifyEvent context user now) (\<lambda>event.
     run_bind (LDi_addEvent context event) (\<lambda>context'. Inr (True, context')))"

definition LDi_track ::
    "'b EventProcessor \<Rightarrow> LDUser \<Rightarrow> string \<Rightarrow> json option \<Rightarrow> rat \<Rightarrow> bool \<Rightarrow> rat \<Rightarrow>
     (bool \<times> 'b EventProcessor) run" where
  "LDi_track context user key data metric hasMetric now =
     run_bind (LDi_maybeMakeIndexEvent context user now) (\<lambda>(ok, indexEvent, context1).
       if \<not> ok then Inr (False, context1)
       else run_bind (LDi_newCustomEvent context1 user key data metric hasMetric now) (\<lambda>event.
         run_bind (LDi_addEvent context1 event) (\<lambda>context2.
         run_bind (case indexEvent of None \<Rightarrow> Inr context2 | Some e \<Rightarrow> LDi_addEvent context2 e)
           (\<lambda>context3. Inr (True, context3)))))"

definition LDi_alias ::
    "'b EventProcessor \<Rightarrow> LDUser \<Rightarrow> LDUser \<Rightarrow> rat \<Rightarrow> (bool \<times> 'b EventProcessor) run" where
  "LDi_alias context currentUser previousUser now =
     run_bind (LDi_addEvent context (LDi_newAliasEvent currentUser previousUser now))
       (\<lambda>context'. Inr (True, context'))"

definition LDi_bundleEventPayload ::
    "'b EventProcessor \<Rightarrow> rat \<Rightarrow> (bool \<times> json option \<times> 'b EventProcessor) run" where
  "LDi_bundleEventPayload context now =
     (if LDCollectionGetSize (Some (events context)) = 0 \<and>
         LDCollectionGetSize (Some (summaryCounters context)) = 0
      then Inr (True, None, context)
      else run_bind
        (if LDCollectionGetSize (Some (summaryCounters context)) \<noteq> 0
         then run_bind (LDi_prepareSummaryEvent context now) (\<lambda>summaryEvent.
           Inr (context\<lparr>events := snd (LDArrayPush (events context) (Some summaryEvent)),
             summaryStart := 0, summaryCounters := JObject []\<rparr>))
         else Inr context)
        (\<lambda>context1. Inr (True, Some (events context1), context1\<lparr>events := JArray []\<rparr>)))"

definition LDi_setServerTime :: "'b EventProcessor \<Rightarrow> rat \<Rightarrow> 'b EventProcessor" where
  "LDi_setServerTime context serverTime = context\<lparr>lastServerTime := serverTime\<rparr>"

end
