(* ===== verification/LD_Store.thy ===== *)
theory LD_Store
  imports LD_Operators LD_Config "HOL-Library.Multiset"
begin

text \<open>
  src/store.c: the feature store. A hash table caches features by \<open>kind:key\<close>, the
  filtered collection of a kind by \<open>all:kind\<close> and a marker \<open>$initChecked\<close>; without a
  backend the cache is the store, with one it is a cache with a time to live in front of the
  backend, which is a parameter (\<open>struct LDStoreInterface\<close>, a record of functions over its
  context).

  Every operation takes \<open>now\<close>, the monotonic clock in milliseconds at the call (a failed
  clock read aborts in \<open>LDi_getMonotonicMilliseconds\<close>). The uthash table is the list of
  its entries, most recently added first, which is the order in which a lookup meets entries
  with equal keys; \<open>HASH_DEL\<close> removes the entry the preceding lookup found. Reference
  counts and locks do not appear: each operation runs under the lock the code takes.
\<close>

section \<open>Flag utilities\<close>

datatype FeatureKind = LD_FLAG | LD_SEGMENT

definition featureKindToString :: "FeatureKind \<Rightarrow> string" where
  "featureKindToString kind = (case kind of LD_FLAG \<Rightarrow> ''features'' | LD_SEGMENT \<Rightarrow> ''segments'')"

definition INIT_CHECKED_KEY :: string where
  "INIT_CHECKED_KEY = ''$initChecked''"

definition LDi_validateFeature :: "json \<Rightarrow> bool" where
  "LDi_validateFeature feature =
     (if json_type feature \<noteq> LDObject then False
      else case LDObjectLookup (Some feature) ''version'' of
        None \<Rightarrow> False
      | Some v \<Rightarrow>
          if json_type v \<noteq> LDNumber then False
          else case LDObjectLookup (Some feature) ''key'' of
            None \<Rightarrow> False
          | Some k \<Rightarrow>
              if json_type k \<noteq> LDText then False
              else case LDObjectLookup (Some feature) ''deleted'' of
                None \<Rightarrow> True
              | Some d \<Rightarrow> json_type d = LDBool)"

definition LDi_getFeatureVersion :: "json \<Rightarrow> u32 run" where
  "LDi_getFeatureVersion feature =
     (case LDObjectLookup (Some feature) ''version'' of
        None \<Rightarrow> Inr 0
      | Some v \<Rightarrow>
          if json_type v \<noteq> LDNumber then Inr 0 else double_to_uint (LDGetNumber (Some v)))"

definition LDi_getFeatureKeyTrusted :: "json \<Rightarrow> string option" where
  "LDi_getFeatureKeyTrusted feature = LDGetText (LDObjectLookup (Some feature) ''key'')"

definition LDi_getFeatureVersionTrusted :: "json \<Rightarrow> u32 run" where
  "LDi_getFeatureVersionTrusted feature =
     double_to_uint (LDGetNumber (LDObjectLookup (Some feature) ''version''))"

definition LDi_isFeatureDeleted :: "json \<Rightarrow> bool" where
  "LDi_isFeatureDeleted feature =
     (case LDObjectLookup (Some feature) ''deleted'' of
        None \<Rightarrow> False
      | Some d \<Rightarrow> if json_type d \<noteq> LDBool then True else LDGetBool (Some d))"

definition LDi_makeDeleted :: "string \<Rightarrow> u32 \<Rightarrow> json" where
  "LDi_makeDeleted key version =
     set_key ''deleted'' (JBool True)
       (set_key ''version'' (JNumber (uint_to_double version))
         (set_key ''key'' (JText key) (JObject [])))"

section \<open>State\<close>

record CacheItem =
  ci_feature :: "json option"
  updatedOn :: rat

record LDStoreCollectionItem =
  buffer :: "string option"
  item_version :: u32

type_synonym collection_state = "(string \<times> (string option \<times> LDStoreCollectionItem) list) list"

record 'b LDStoreInterface =
  be_context :: 'b
  be_init :: "'b \<Rightarrow> collection_state \<Rightarrow> bool \<times> 'b"
  be_get :: "'b \<Rightarrow> string \<Rightarrow> string \<Rightarrow> bool \<times> LDStoreCollectionItem \<times> 'b"
  be_all :: "'b \<Rightarrow> string \<Rightarrow> bool \<times> LDStoreCollectionItem list \<times> 'b"
  be_upsert :: "'b \<Rightarrow> string \<Rightarrow> LDStoreCollectionItem \<Rightarrow> string \<Rightarrow> bool \<times> 'b"
  be_initialized :: "'b \<Rightarrow> bool \<times> 'b"

type_synonym cache = "(string \<times> CacheItem) list"

record 'b LDStore =
  store_initialized :: bool
  items :: cache
  backend :: "'b LDStoreInterface option"
  cacheMilliseconds :: u32

text \<open>The context after a backend call.\<close>

definition set_context :: "'b LDStoreInterface \<Rightarrow> 'b \<Rightarrow> 'b LDStore \<Rightarrow> 'b LDStore" where
  "set_context be ctx store = store\<lparr>backend := Some (be\<lparr>be_context := ctx\<rparr>)\<rparr>"

definition makeCacheItem :: "rat \<Rightarrow> string \<Rightarrow> json option \<Rightarrow> string \<times> CacheItem" where
  "makeCacheItem now key value = (key, \<lparr>ci_feature = value, updatedOn = now\<rparr>)"

text \<open>\<open>LDJSONRCGet\<close> asserts that the reference is there.\<close>

definition LDJSONRCGet :: "json option \<Rightarrow> json run" where
  "LDJSONRCGet rc = (case rc of None \<Rightarrow> Inl Assertion | Some j \<Rightarrow> Inr j)"

definition featureStoreCacheKey :: "string \<Rightarrow> string \<Rightarrow> string" where
  "featureStoreCacheKey kind key = kind @ '':'' @ key"

definition featureStoreAllCacheKey :: "string \<Rightarrow> string" where
  "featureStoreAllCacheKey kind = ''all:'' @ kind"

definition isExpired :: "'b LDStore \<Rightarrow> rat \<Rightarrow> CacheItem \<Rightarrow> bool" where
  "isExpired store now item =
     (if backend store = None then False
      else if cacheMilliseconds store = 0 then True
      else to_double (now - updatedOn item) > uint_to_double (cacheMilliseconds store))"

section \<open>The cache\<close>

text \<open>
  The collection entry after an upsert, when there is no backend: the outer \<open>None\<close> is
  the failure of \<open>LDObjectSetKey\<close>, which leaves the table alone.
\<close>

definition update_all_items ::
    "rat \<Rightarrow> string \<Rightarrow> string \<Rightarrow> json \<Rightarrow> cache \<Rightarrow> cache option run" where
  "update_all_items now allCacheKey key replacement tab =
     (case map_of tab allCacheKey of
        Some allItems \<Rightarrow>
          run_bind (LDJSONRCGet (ci_feature allItems)) (\<lambda>allDupe.
            let (ok, allDupe') =
              (if LDi_isFeatureDeleted replacement then (True, LDObjectDeleteKey allDupe key)
               else LDObjectSetKey allDupe (Some key) (Some replacement))
            in if ok then
                 Inr (Some (makeCacheItem now allCacheKey (Some allDupe') #
                        assoc_delete allCacheKey tab))
               else Inr None)
      | None \<Rightarrow>
          if LDi_isFeatureDeleted replacement then Inr (Some tab)
          else let singleton = set_key key replacement (JObject [])
               in Inr (Some (makeCacheItem now allCacheKey (Some singleton) # tab)))"

definition upsertMemory :: "'b LDStore \<Rightarrow> rat \<Rightarrow> string \<Rightarrow> json \<Rightarrow> (bool \<times> 'b LDStore) run" where
  "upsertMemory store now kind replacement =
     (let allCacheKey = featureStoreAllCacheKey kind in
      case LDi_getFeatureKeyTrusted replacement of
        None \<Rightarrow> Inl Assertion
      | Some key \<Rightarrow>
          (let cacheKey = featureStoreCacheKey kind key;
               currentItem = map_of (items store) cacheKey
           in run_bind
             (case currentItem of
                None \<Rightarrow> Inr False
              | Some item \<Rightarrow>
                  run_bind (LDJSONRCGet (ci_feature item)) (\<lambda>current.
                    if isExpired store now item then Inr False
                    else run_bind (LDi_getFeatureVersionTrusted current) (\<lambda>cv.
                         run_bind (LDi_getFeatureVersionTrusted replacement) (\<lambda>rv.
                         Inr (rv \<le> cv)))))
             (\<lambda>upToDate.
                if upToDate then Inr (True, store)
                else run_bind
                  (case backend store of
                     None \<Rightarrow> update_all_items now allCacheKey key replacement (items store)
                   | Some _ \<Rightarrow> Inr (Some
                       (if map_of (items store) allCacheKey = None then items store
                        else assoc_delete allCacheKey (items store))))
                  (\<lambda>tab. case tab of
                     None \<Rightarrow> Inr (False, store)
                   | Some t \<Rightarrow>
                       (let t' = (if currentItem = None then t else assoc_delete cacheKey t)
                        in Inr (True, store\<lparr>items :=
                             makeCacheItem now cacheKey (Some replacement) # t'\<rparr>))))))"

text \<open>
  The loop of \<open>filterAndCacheItems\<close> over the features of a collection; it stops at the
  first failure, keeping what it cached so far.
\<close>

fun filter_loop ::
    "rat \<Rightarrow> string \<Rightarrow> json list \<Rightarrow> 'b LDStore \<Rightarrow> json \<Rightarrow> (bool \<times> json \<times> 'b LDStore) run" where
  "filter_loop now kind [] store filtered = Inr (True, filtered, store)"
| "filter_loop now kind (f # fs) store filtered =
     (let (ok, filtered') =
        (if LDi_isFeatureDeleted f then (True, filtered)
         else LDObjectSetKey filtered (LDi_getFeatureKeyTrusted f) (Some f))
      in if \<not> ok then Inr (False, filtered, store)
         else run_bind (upsertMemory store now kind f) (\<lambda>(success, store').
           if success then filter_loop now kind fs store' filtered'
           else Inr (False, filtered', store')))"

definition filterAndCacheItems ::
    "'b LDStore \<Rightarrow> rat \<Rightarrow> string \<Rightarrow> json \<Rightarrow> (bool \<times> json \<times> 'b LDStore) run" where
  "filterAndCacheItems store now kind features =
     run_bind (LD_ASSERT (json_type features = LDObject)) (\<lambda>_.
       filter_loop now kind (iter_values (Some features)) store (JObject []))"

definition memoryCacheFlush :: "'b LDStore \<Rightarrow> 'b LDStore" where
  "memoryCacheFlush store = store\<lparr>items := []\<rparr>"

fun init_loop ::
    "rat \<Rightarrow> (string \<times> json) list \<Rightarrow> 'b LDStore \<Rightarrow> (bool \<times> 'b LDStore) run" where
  "init_loop now [] store = Inr (True, store)"
| "init_loop now ((kind, features) # sets) store =
     run_bind (filterAndCacheItems store now kind features) (\<lambda>(success, _, store').
       if success then init_loop now sets store' else Inr (False, memoryCacheFlush store'))"

definition memoryInit :: "'b LDStore \<Rightarrow> rat \<Rightarrow> json \<Rightarrow> (bool \<times> 'b LDStore) run" where
  "memoryInit store now sets =
     (case sets of
        JObject ps \<Rightarrow>
          run_bind (init_loop now ps (memoryCacheFlush store)) (\<lambda>(success, store').
            if \<not> success then Inr (False, store')
            else Inr (True, if backend store' = None then store'\<lparr>store_initialized := True\<rparr>
                            else store'))
      | _ \<Rightarrow> Inl Assertion)"

definition memoryGetCollectionItem :: "'b LDStore \<Rightarrow> string \<Rightarrow> string \<Rightarrow> CacheItem option" where
  "memoryGetCollectionItem store kind key =
     map_of (items store) (featureStoreCacheKey kind key)"

definition memoryAllCollectionItem :: "'b LDStore \<Rightarrow> string \<Rightarrow> CacheItem option" where
  "memoryAllCollectionItem store kind = map_of (items store) (featureStoreAllCacheKey kind)"

section \<open>Fetching through the backend\<close>

text \<open>The loop over the raw items of a collection: \<open>None\<close> is a text that does not parse.\<close>

fun raw_features :: "env \<Rightarrow> LDStoreCollectionItem list \<Rightarrow> json \<Rightarrow> json option" where
  "raw_features E [] features = Some features"
| "raw_features E (item # rest) features =
     (case buffer item of
        None \<Rightarrow> raw_features E rest features
      | Some text \<Rightarrow>
          (case env_deserialize E text of
             None \<Rightarrow> None
           | Some deserialized \<Rightarrow>
               if \<not> LDi_validateFeature deserialized then raw_features E rest features
               else if LDi_isFeatureDeleted deserialized then raw_features E rest features
               else raw_features E rest
                 (snd (LDObjectSetKey features
                    (LDGetText (LDObjectLookup (Some deserialized) ''key''))
                    (Some deserialized)))))"

definition tryGetAllBackend ::
    "env \<Rightarrow> 'b LDStore \<Rightarrow> rat \<Rightarrow> string \<Rightarrow> (bool \<times> json option \<times> 'b LDStore) run" where
  "tryGetAllBackend E store now kind =
     (case backend store of
        None \<Rightarrow> Inr (True, None, store)
      | Some be \<Rightarrow>
          (let (ok, raw, ctx) = be_all be (be_context be) kind;
               store1 = set_context be ctx store
           in if \<not> ok then Inr (False, None, store1)
              else case raw_features E raw (JObject []) of
                None \<Rightarrow> Inr (False, None, store1)
              | Some features \<Rightarrow>
                  run_bind (filterAndCacheItems store1 now kind features)
                    (\<lambda>(success, active, store2).
                       if \<not> success then Inr (False, None, store2)
                       else Inr (True, Some active, store2\<lparr>items :=
                         makeCacheItem now (featureStoreAllCacheKey kind) (Some active) #
                         items store2\<rparr>))))"

definition tryGetBackend ::
    "env \<Rightarrow> 'b LDStore \<Rightarrow> rat \<Rightarrow> string \<Rightarrow> string \<Rightarrow> (bool \<times> json option \<times> 'b LDStore) run" where
  "tryGetBackend E store now kind key =
     (case backend store of
        None \<Rightarrow> Inr (True, None, store)
      | Some be \<Rightarrow>
          (let (ok, item, ctx) = be_get be (be_context be) kind key;
               store1 = set_context be ctx store
           in if \<not> ok then Inr (False, None, store1)
              else case buffer item of
                Some text \<Rightarrow>
                  (case env_deserialize E text of
                     None \<Rightarrow> Inr (False, None, store1)
                   | Some deserialized \<Rightarrow>
                       if \<not> LDi_validateFeature deserialized then Inr (False, None, store1)
                       else run_bind (upsertMemory store1 now kind deserialized)
                         (\<lambda>(status, store2).
                            Inr (status,
                              if LDi_isFeatureDeleted deserialized then None
                              else Some deserialized,
                              store2)))
              | None \<Rightarrow>
                  run_bind (upsertMemory store1 now kind (LDi_makeDeleted key (item_version item)))
                    (\<lambda>(status, store2). Inr (status, None, store2))))"

section \<open>Store operations\<close>

definition LDStoreNew :: "'b LDStoreInterface LDConfig \<Rightarrow> 'b LDStore" where
  "LDStoreNew config = \<lparr>store_initialized = False, items = [], backend = storeBackend config,
     cacheMilliseconds = storeCacheMilliseconds config\<rparr>"

definition LDi_expireAll :: "'b LDStore \<Rightarrow> 'b LDStore" where
  "LDi_expireAll store =
     store\<lparr>items := map (\<lambda>(k, item). (k, item\<lparr>updatedOn := 0\<rparr>)) (items store)\<rparr>"

text \<open>What \<open>LDStoreInit\<close> hands to the backend: an invalid feature is an empty entry.\<close>

fun collection_items :: "env \<Rightarrow> json list \<Rightarrow> (string option \<times> LDStoreCollectionItem) list run" where
  "collection_items E [] = Inr []"
| "collection_items E (f # fs) =
     run_bind
       (if \<not> LDi_validateFeature f then Inr (None, \<lparr>buffer = None, item_version = 0\<rparr>)
        else run_bind (LDi_getFeatureVersion f) (\<lambda>v.
          Inr (LDi_getFeatureKeyTrusted f,
               \<lparr>buffer = Some (env_serialize E f), item_version = v\<rparr>)))
       (\<lambda>entry. run_bind (collection_items E fs) (\<lambda>entries. Inr (entry # entries)))"

fun collections_of :: "env \<Rightarrow> (string \<times> json) list \<Rightarrow> collection_state run" where
  "collections_of E [] = Inr []"
| "collections_of E ((kind, features) # sets) =
     run_bind (LD_ASSERT (json_type features = LDObject)) (\<lambda>_.
     run_bind (collection_items E (iter_values (Some features))) (\<lambda>entries.
     run_bind (collections_of E sets) (\<lambda>rest. Inr ((kind, entries) # rest))))"

definition LDStoreInit :: "env \<Rightarrow> 'b LDStore \<Rightarrow> rat \<Rightarrow> json \<Rightarrow> (bool \<times> 'b LDStore) run" where
  "LDStoreInit E store now sets =
     run_bind (LD_ASSERT (json_type sets = LDObject)) (\<lambda>_.
       case backend store of
         None \<Rightarrow> memoryInit store now sets
       | Some be \<Rightarrow>
           run_bind (collections_of E (case sets of JObject ps \<Rightarrow> ps | _ \<Rightarrow> []))
             (\<lambda>collections.
                let (success, ctx) = be_init be (be_context be) collections;
                    store1 = set_context be ctx store
                in if \<not> success then Inr (False, store1) else memoryInit store1 now sets))"

definition LDStoreGet ::
    "env \<Rightarrow> 'b LDStore \<Rightarrow> rat \<Rightarrow> FeatureKind \<Rightarrow> string \<Rightarrow> (bool \<times> json option \<times> 'b LDStore) run" where
  "LDStoreGet E store now kind key =
     (case memoryGetCollectionItem store (featureKindToString kind) key of
        Some item \<Rightarrow>
          if \<not> isExpired store now item then
            run_bind (LDJSONRCGet (ci_feature item)) (\<lambda>feature.
              Inr (True, if LDi_isFeatureDeleted feature then None else Some feature, store))
          else tryGetBackend E store now (featureKindToString kind) key
      | None \<Rightarrow>
          if backend store \<noteq> None then tryGetBackend E store now (featureKindToString kind) key
          else Inr (True, None, store))"

definition LDStoreAll ::
    "env \<Rightarrow> 'b LDStore \<Rightarrow> rat \<Rightarrow> FeatureKind \<Rightarrow> (bool \<times> json option \<times> 'b LDStore) run" where
  "LDStoreAll E store now kind =
     (case memoryAllCollectionItem store (featureKindToString kind) of
        Some item \<Rightarrow>
          if \<not> isExpired store now item then Inr (True, ci_feature item, store)
          else tryGetAllBackend E store now (featureKindToString kind)
      | None \<Rightarrow> tryGetAllBackend E store now (featureKindToString kind))"

definition LDStoreRemove ::
    "'b LDStore \<Rightarrow> rat \<Rightarrow> FeatureKind \<Rightarrow> string \<Rightarrow> u32 \<Rightarrow> (bool \<times> 'b LDStore) run" where
  "LDStoreRemove store now kind key version =
     (let kstr = featureKindToString kind;
          (ok, store1) =
            (case backend store of
               None \<Rightarrow> (True, store)
             | Some be \<Rightarrow>
                 (let (success, ctx) = be_upsert be (be_context be) kstr
                    \<lparr>buffer = None, item_version = version\<rparr> key
                  in (success, set_context be ctx store)))
      in if \<not> ok then Inr (False, store1)
         else upsertMemory store1 now kstr (LDi_makeDeleted key version))"

definition LDStoreUpsert ::
    "env \<Rightarrow> 'b LDStore \<Rightarrow> rat \<Rightarrow> FeatureKind \<Rightarrow> json \<Rightarrow> (bool \<times> 'b LDStore) run" where
  "LDStoreUpsert E store now kind feature =
     (let kstr = featureKindToString kind in
      if \<not> LDi_validateFeature feature then Inr (False, store)
      else case backend store of
        None \<Rightarrow> upsertMemory store now kstr feature
      | Some be \<Rightarrow>
          run_bind (LDi_getFeatureVersionTrusted feature) (\<lambda>version.
            case LDi_getFeatureKeyTrusted feature of
              None \<Rightarrow> Inl NullPointer
            | Some key \<Rightarrow>
                (let (success, ctx) = be_upsert be (be_context be) kstr
                       \<lparr>buffer = Some (env_serialize E feature), item_version = version\<rparr> key;
                     store1 = set_context be ctx store
                 in if \<not> success then Inr (False, store1)
                    else upsertMemory store1 now kstr feature)))"

definition LDStoreInitialized :: "'b LDStore \<Rightarrow> rat \<Rightarrow> bool \<times> 'b LDStore" where
  "LDStoreInitialized store now =
     (if store_initialized store then (True, store)
      else case backend store of
        None \<Rightarrow> (False, store)
      | Some be \<Rightarrow>
          (let marker = map_of (items store) INIT_CHECKED_KEY;
               fresh = (case marker of None \<Rightarrow> False | Some item \<Rightarrow> \<not> isExpired store now item)
           in if fresh then (False, store)
              else
                let store1 = (if marker = None then store
                      else store\<lparr>items := assoc_delete INIT_CHECKED_KEY (items store)\<rparr>);
                    (isInitialized, ctx) = be_initialized be (be_context be);
                    store2 = set_context be ctx store1
                in if isInitialized then (True, store2\<lparr>store_initialized := True\<rparr>)
                   else (False, store2\<lparr>items :=
                          makeCacheItem now INIT_CHECKED_KEY None # items store2\<rparr>)))"

definition LDStoreInitEmpty :: "env \<Rightarrow> 'b LDStore \<Rightarrow> rat \<Rightarrow> (bool \<times> 'b LDStore) run" where
  "LDStoreInitEmpty E store now = LDStoreInit E store now (JObject [])"

section \<open>Cache keys\<close>

text \<open>
  A kind without a colon and different from \<open>all\<close>: the two kinds of the program are such.
  Then the three families of cache keys do not collide.
\<close>

definition plain_kind :: "string \<Rightarrow> bool" where
  "plain_kind kind \<longleftrightarrow> CHR '':'' \<notin> set kind \<and> kind \<noteq> ''all''"

lemma plain_kind_string [simp]: "plain_kind (featureKindToString kind)"
  by (cases kind) (simp_all add: plain_kind_def featureKindToString_def)

lemma split_at_colon:
  "CHR '':'' \<notin> set a \<Longrightarrow> CHR '':'' \<notin> set b \<Longrightarrow> a @ CHR '':'' # x = b @ CHR '':'' # y \<Longrightarrow> a = b \<and> x = y"
proof (induction a arbitrary: b)
  case Nil
  then show ?case by (cases b) auto
next
  case (Cons c a)
  then show ?case by (cases b) auto
qed

lemma cache_key_inject:
  "plain_kind k1 \<Longrightarrow> plain_kind k2 \<Longrightarrow>
     featureStoreCacheKey k1 x = featureStoreCacheKey k2 y \<longleftrightarrow> k1 = k2 \<and> x = y"
  using split_at_colon [of k1 k2 x y] by (auto simp: plain_kind_def featureStoreCacheKey_def)

lemma all_key_eq: "featureStoreAllCacheKey kind = ''all'' @ CHR '':'' # kind"
  by (simp add: featureStoreAllCacheKey_def)

lemma all_key_inject [simp]:
  "featureStoreAllCacheKey k1 = featureStoreAllCacheKey k2 \<longleftrightarrow> k1 = k2"
  by (simp add: featureStoreAllCacheKey_def)

lemma cache_key_not_all [simp]:
  assumes "plain_kind kind"
  shows "featureStoreCacheKey kind x \<noteq> featureStoreAllCacheKey k2"
    and "featureStoreAllCacheKey k2 \<noteq> featureStoreCacheKey kind x"
  using assms split_at_colon [of kind "''all''" x k2]
  by (auto simp: plain_kind_def featureStoreCacheKey_def all_key_eq)

section \<open>Features\<close>

text \<open>A feature the server sends: it validates and its version is an \<open>unsigned int\<close>.\<close>

definition good_feature :: "json \<Rightarrow> bool" where
  "good_feature f \<longleftrightarrow> LDi_validateFeature f \<and> returns (LDi_getFeatureVersionTrusted f)"

definition feature_key :: "json \<Rightarrow> string" where
  "feature_key f = the (LDi_getFeatureKeyTrusted f)"

definition feature_version :: "json \<Rightarrow> u32" where
  "feature_version f = projr (LDi_getFeatureVersionTrusted f)"

text \<open>What a reader sees of a stored feature: nothing when it is a tombstone.\<close>

definition visible :: "json option \<Rightarrow> json option" where
  "visible p = (case p of None \<Rightarrow> None | Some f \<Rightarrow> if LDi_isFeatureDeleted f then None else Some f)"

lemma visible_simps [simp]:
  "visible None = None"
  "visible (Some f) = (if LDi_isFeatureDeleted f then None else Some f)"
  by (simp_all add: visible_def)

lemma good_featureD:
  assumes "good_feature f"
  shows "LDi_getFeatureKeyTrusted f = Some (feature_key f)"
    and "LDi_getFeatureVersionTrusted f = Inr (feature_version f)"
proof -
  from assms show "LDi_getFeatureKeyTrusted f = Some (feature_key f)"
    by (auto simp: good_feature_def LDi_validateFeature_def feature_key_def
        LDi_getFeatureKeyTrusted_def LDGetText_def split: option.splits if_splits)
  from assms show "LDi_getFeatureVersionTrusted f = Inr (feature_version f)"
    by (auto simp: good_feature_def feature_version_def returns_iff)
qed

lemma makeDeleted_object:
  "LDi_makeDeleted key version =
     JObject [(''key'', JText key), (''version'', JNumber (uint_to_double version)),
       (''deleted'', JBool True)]"
  by (simp add: LDi_makeDeleted_def)

lemma makeDeleted_feature [simp]:
  "good_feature (LDi_makeDeleted key version)"
  "feature_key (LDi_makeDeleted key version) = key"
  "feature_version (LDi_makeDeleted key version) = version"
  "LDi_isFeatureDeleted (LDi_makeDeleted key version)"
  by (simp_all add: makeDeleted_object good_feature_def LDi_validateFeature_def feature_key_def
      feature_version_def LDi_getFeatureKeyTrusted_def LDi_getFeatureVersionTrusted_def
      LDi_isFeatureDeleted_def)

section \<open>The contract of a versioned store\<close>

text \<open>The newer of a stored and an arriving feature; the stored one wins a tie.\<close>

definition newest :: "('f \<Rightarrow> u32) \<Rightarrow> 'f option \<Rightarrow> 'f \<Rightarrow> 'f option" where
  "newest ver cur f = (case cur of None \<Rightarrow> Some f | Some g \<Rightarrow> if ver f \<le> ver g then Some g else Some f)"

lemma newest_version:
  "\<exists>g. newest ver cur f = Some g \<and> ver f \<le> ver g \<and> (\<forall>c. cur = Some c \<longrightarrow> ver c \<le> ver g)"
  by (auto simp: newest_def split: option.split)

lemma newest_commute:
  "ver f \<noteq> ver g \<Longrightarrow> newest ver (newest ver cur f) g = newest ver (newest ver cur g) f"
  by (auto simp: newest_def split: option.split)

lemma newest_idem: "newest ver (newest ver cur f) f = newest ver cur f"
  by (auto simp: newest_def split: option.split)

text \<open>
  What the streaming and polling clients rely on: an update reaches exactly its key and the
  newer version wins, so updates may arrive late, repeatedly and out of order.
\<close>

locale versioned_store =
  fixes inv :: "'s \<Rightarrow> bool"
    and look :: "'s \<Rightarrow> string \<Rightarrow> json option"
    and upd :: "'s \<Rightarrow> 'u \<Rightarrow> 's"
    and feat :: "'u \<Rightarrow> json"
  assumes inv_upd: "inv s \<Longrightarrow> good_feature (feat u) \<Longrightarrow> inv (upd s u)"
    and look_upd: "inv s \<Longrightarrow> good_feature (feat u) \<Longrightarrow>
      look (upd s u) k =
        (if k = feature_key (feat u) then newest feature_version (look s k) (feat u)
         else look s k)"
begin

lemma inv_upds: "inv s \<Longrightarrow> \<forall>u \<in> set us. good_feature (feat u) \<Longrightarrow> inv (foldl upd s us)"
  by (induction us arbitrary: s) (auto simp: inv_upd)

lemma look_upds:
  "inv s \<Longrightarrow> \<forall>u \<in> set us. good_feature (feat u) \<Longrightarrow>
    look (foldl upd s us) k =
      fold (\<lambda>f cur. newest feature_version cur f)
        (filter (\<lambda>f. feature_key f = k) (map feat us)) (look s k)"
  by (induction us arbitrary: s) (auto simp: inv_upd look_upd)

text \<open>The version a reader meets never goes back.\<close>

lemma version_monotone:
  assumes "inv s" and "good_feature (feat u)" and "look s k = Some f"
  shows "\<exists>g. look (upd s u) k = Some g \<and> feature_version f \<le> feature_version g"
  using assms newest_version [of feature_version "Some f" "feat u"] by (auto simp: look_upd)

text \<open>
  Convergence: two orders of the same updates leave the same features, provided versions
  identify the updates of a key.
\<close>

lemma convergence:
  assumes "inv s" and good: "\<forall>u \<in> set us. good_feature (feat u)"
    and perm: "mset (map feat us) = mset (map feat vs)"
    and uniq: "\<forall>u \<in> set us. \<forall>v \<in> set us. feature_key (feat u) = feature_key (feat v) \<longrightarrow>
      feature_version (feat u) = feature_version (feat v) \<longrightarrow> feat u = feat v"
  shows "look (foldl upd s us) k = look (foldl upd s vs) k"
proof -
  define fs where "fs = filter (\<lambda>f. feature_key f = k) (map feat us)"
  define gs where "gs = filter (\<lambda>f. feature_key f = k) (map feat vs)"
  have set: "set (map feat us) = set (map feat vs)" using perm by (metis set_mset_mset)
  then have good': "\<forall>v \<in> set vs. good_feature (feat v)"
    using good by auto (metis imageE image_eqI)
  have "mset fs = mset gs" using perm by (simp add: fs_def gs_def mset_filter)
  moreover have "newest feature_version (newest feature_version c f) g =
      newest feature_version (newest feature_version c g) f" if "f \<in> set fs" "g \<in> set fs" for c f g
  proof (cases "f = g")
    case False
    then have "feature_version f \<noteq> feature_version g"
      using that uniq unfolding fs_def by auto
    then show ?thesis by (rule newest_commute)
  qed simp
  ultimately have "fold (\<lambda>f c. newest feature_version c f) fs =
      fold (\<lambda>f c. newest feature_version c f) gs"
    by (intro fold_multiset_equiv) (auto simp: fun_eq_iff)
  then show ?thesis
    using look_upds [OF assms(1) good] look_upds [OF assms(1) good'] by (simp add: fs_def gs_def)
qed

end

section \<open>The store without a backend\<close>

text \<open>The table of the cache keeps the container contract.\<close>

definition tab_put :: "cache \<Rightarrow> string \<Rightarrow> CacheItem \<Rightarrow> cache" where
  "tab_put t k v = (k, v) # assoc_delete k t"

interpretation tab: keyed_container "unique_keys :: cache \<Rightarrow> bool" map_of tab_put
  "\<lambda>t k. assoc_delete k t"
  by unfold_locales (auto simp: tab_put_def keys_assoc_delete assoc_simps)

definition cached_feature :: "cache \<Rightarrow> string \<Rightarrow> string \<Rightarrow> json option" where
  "cached_feature t kind key = Option.bind (map_of t (featureStoreCacheKey kind key)) ci_feature"

text \<open>The abstract content of a store: the feature, tombstones included, of a kind and key.\<close>

definition feature_at :: "'b LDStore \<Rightarrow> string \<Rightarrow> string \<Rightarrow> json option" where
  "feature_at store = cached_feature (items store)"

text \<open>
  The entries of a kind: every feature is sound and filed under its own key, and the
  collection entry holds exactly the features that are not deleted (no entry, none).
\<close>

definition collection_ok :: "cache \<Rightarrow> string \<Rightarrow> (string \<Rightarrow> json option) \<Rightarrow> bool" where
  "collection_ok t kind content =
     (case map_of t (featureStoreAllCacheKey kind) of
        None \<Rightarrow> \<forall>key. content key = None
      | Some item \<Rightarrow> \<exists>c. ci_feature item = Some c \<and> is_object c \<and>
          (\<forall>key. LDObjectLookup (Some c) key = content key))"

definition features_ok :: "cache \<Rightarrow> string \<Rightarrow> bool" where
  "features_ok t kind \<longleftrightarrow>
     (\<forall>key item. map_of t (featureStoreCacheKey kind key) = Some item \<longrightarrow>
        (\<exists>f. ci_feature item = Some f \<and> good_feature f \<and> feature_key f = key))"

definition kind_ok :: "cache \<Rightarrow> string \<Rightarrow> bool" where
  "kind_ok t kind \<longleftrightarrow>
     features_ok t kind \<and> collection_ok t kind (\<lambda>key. visible (cached_feature t kind key))"

definition memory_ok :: "'b LDStore \<Rightarrow> bool" where
  "memory_ok store \<longleftrightarrow> backend store = None \<and> unique_keys (items store) \<and>
     (\<forall>kind. plain_kind kind \<longrightarrow> kind_ok (items store) kind)"

lemma memory_ok_empty: "backend store = None \<Longrightarrow> items store = [] \<Longrightarrow> memory_ok store"
  by (simp add: memory_ok_def kind_ok_def features_ok_def collection_ok_def cached_feature_def)

lemma cached_feature_put:
  "unique_keys t \<Longrightarrow> plain_kind kind \<Longrightarrow> plain_kind kind' \<Longrightarrow>
    cached_feature (tab_put t (featureStoreCacheKey kind key) v) kind' key' =
      (if kind' = kind \<and> key' = key then ci_feature v else cached_feature t kind' key')"
  by (simp add: cached_feature_def tab.find_put cache_key_inject)

lemma cached_feature_put_all:
  "unique_keys t \<Longrightarrow> plain_kind kind' \<Longrightarrow>
    cached_feature (tab_put t (featureStoreAllCacheKey kind) v) kind' key' =
      cached_feature t kind' key'"
  by (simp add: cached_feature_def tab.find_put)

lemma update_all_items_ok:
  assumes u: "unique_keys t" and k: "plain_kind kind"
    and c: "collection_ok t kind content"
  shows "\<exists>t'. update_all_items now (featureStoreAllCacheKey kind) key f t = Inr (Some t') \<and>
    (t' = t \<or> (\<exists>item. t' = tab_put t (featureStoreAllCacheKey kind) item)) \<and>
    collection_ok t' kind (content(key := visible (Some f)))"
proof (cases "map_of t (featureStoreAllCacheKey kind)")
  case None
  then have none: "content x = None" for x using c by (simp add: collection_ok_def)
  have absent: "assoc_delete (featureStoreAllCacheKey kind) t = t"
    using None by (simp add: map_of_eq_None_iff)
  let ?item = "\<lparr>ci_feature = Some (JObject [(key, f)]), updatedOn = now\<rparr>"
  let ?t' = "tab_put t (featureStoreAllCacheKey kind) ?item"
  show ?thesis
  proof (cases "LDi_isFeatureDeleted f")
    case True
    then show ?thesis
      using None none by (intro exI [of _ t]) (simp add: update_all_items_def collection_ok_def)
  next
    case False
    have "collection_ok ?t' kind (content(key := visible (Some f)))"
      using False none u by (simp add: collection_ok_def tab.find_put is_object_def)
    then show ?thesis
      using None False absent
      by (intro exI [of _ ?t'])
        (auto simp: update_all_items_def tab_put_def makeCacheItem_def)
  qed
next
  case (Some item)
  with c obtain d where d: "ci_feature item = Some d" "is_object d"
      "\<And>x. LDObjectLookup (Some d) x = content x" by (auto simp: collection_ok_def)
  define d' where "d' = (if LDi_isFeatureDeleted f then LDObjectDeleteKey d key
    else set_key key f d)"
  let ?t' = "tab_put t (featureStoreAllCacheKey kind) \<lparr>ci_feature = Some d', updatedOn = now\<rparr>"
  have "is_object d'" using d(2) by (simp add: d'_def obj_laws)
  moreover have "LDObjectLookup (Some d') x = (content(key := visible (Some f))) x" for x
    using d(2,3) by (auto simp: d'_def obj_laws)
  ultimately have ok: "collection_ok ?t' kind (content(key := visible (Some f)))"
    using u by (simp add: collection_ok_def tab.find_put)
  have "fst (LDObjectSetKey d (Some key) (Some f))"
    using d(2) by (auto simp: is_object_iff)
  then have "update_all_items now (featureStoreAllCacheKey kind) key f t = Inr (Some ?t')"
    using Some d(1)
    by (simp add: update_all_items_def LDJSONRCGet_def d'_def tab_put_def makeCacheItem_def
        case_prod_beta Let_def)
  with ok show ?thesis by blast
qed

lemma collection_ok_cong:
  "map_of t' (featureStoreAllCacheKey kind) = map_of t (featureStoreAllCacheKey kind) \<Longrightarrow>
    collection_ok t' kind content = collection_ok t kind content"
  by (simp add: collection_ok_def)

text \<open>The table an upsert of a newer feature leaves: two container updates.\<close>

lemma kind_ok_upsert:
  assumes u: "unique_keys t" and kinds: "plain_kind kind" "plain_kind kind'"
    and ok: "\<And>k. plain_kind k \<Longrightarrow> kind_ok t k" and f: "good_feature f" "feature_key f = key"
    and t': "t' = t \<or> (\<exists>item. t' = tab_put t (featureStoreAllCacheKey kind) item)"
    and coll: "collection_ok t' kind
      ((\<lambda>x. visible (cached_feature t kind x))(key := visible (Some f)))"
    and v: "ci_feature v = Some f"
  shows "kind_ok (tab_put t' (featureStoreCacheKey kind key) v) kind'"
proof -
  let ?t2 = "tab_put t' (featureStoreCacheKey kind key) v"
  have u': "unique_keys t'" using u t' by (auto simp: tab.ok_put)
  have cf': "cached_feature t' x y = cached_feature t x y" if "plain_kind x" for x y
    using t' u that by (auto simp: cached_feature_put_all)
  have cf2: "cached_feature ?t2 kind' x =
      (if kind' = kind \<and> x = key then Some f else cached_feature t kind' x)" for x
    using cached_feature_put [OF u' kinds] cf' [OF kinds(2)] v by simp
  have m': "map_of t' (featureStoreCacheKey kind' x) = map_of t (featureStoreCacheKey kind' x)" for x
    using t' u kinds by (auto simp: tab.find_put)
  have "features_ok ?t2 kind'"
    using ok [OF kinds(2)] f v u' kinds
    by (auto simp: kind_ok_def features_ok_def tab.find_put cache_key_inject m' split: if_splits)
  moreover have "collection_ok ?t2 kind' (\<lambda>x. visible (cached_feature ?t2 kind' x))"
  proof (cases "kind' = kind")
    case True
    have "(\<lambda>x. visible (cached_feature ?t2 kind x)) =
        (\<lambda>x. visible (cached_feature t kind x))(key := visible (Some f))"
      using cf2 True by (auto simp: fun_eq_iff)
    moreover have "map_of ?t2 (featureStoreAllCacheKey kind) = map_of t' (featureStoreAllCacheKey kind)"
      using u' kinds by (simp add: tab.find_put)
    ultimately show ?thesis using coll True collection_ok_cong by metis
  next
    case False
    have a: "map_of ?t2 (featureStoreAllCacheKey kind') = map_of t (featureStoreAllCacheKey kind')"
      using t' u u' kinds False by (auto simp: tab.find_put)
    have b: "cached_feature ?t2 kind' = cached_feature t kind'"
      using cf2 False by (simp add: fun_eq_iff)
    show ?thesis
      unfolding collection_ok_cong [OF a] b using ok [OF kinds(2)] by (simp add: kind_ok_def)
  qed
  ultimately show ?thesis by (simp add: kind_ok_def)
qed

lemma isExpired_memory [simp]: "backend store = None \<Longrightarrow> \<not> isExpired store now item"
  by (simp add: isExpired_def)

lemma cached_item:
  assumes "kind_ok t kind" and "map_of t (featureStoreCacheKey kind key) = Some item"
  shows "ci_feature item = cached_feature t kind key"
    and "\<exists>f. cached_feature t kind key = Some f \<and> good_feature f \<and> feature_key f = key"
  using assms by (auto simp: kind_ok_def features_ok_def cached_feature_def)

text \<open>
  An upsert into a sound store without backend succeeds, keeps it sound, and changes the
  content of its key alone, to the newer of the two features.
\<close>

lemma upsertMemory_memory:
  assumes m: "memory_ok store" and k: "plain_kind kind" and f: "good_feature f"
  shows "\<exists>store'. upsertMemory store now kind f = Inr (True, store') \<and> memory_ok store' \<and>
    store_initialized store' = store_initialized store \<and>
    (\<forall>kind' key. plain_kind kind' \<longrightarrow> feature_at store' kind' key =
       (if kind' = kind \<and> key = feature_key f
        then newest feature_version (feature_at store kind key) f
        else feature_at store kind' key))"
proof -
  define t where "t = items store"
  define ck where "ck = featureStoreCacheKey kind (feature_key f)"
  have b: "backend store = None" and u: "unique_keys t"
    and ok: "\<And>k. plain_kind k \<Longrightarrow> kind_ok t k"
    using m by (auto simp: memory_ok_def t_def)
  note fkey = good_featureD(1) [OF f] and fver = good_featureD(2) [OF f]
  define cur where "cur = cached_feature t kind (feature_key f)"
  show ?thesis
  proof (cases "\<exists>g. cur = Some g \<and> feature_version f \<le> feature_version g")
    case True
    then obtain g where g: "cur = Some g" "feature_version f \<le> feature_version g" by blast
    then obtain item where item: "map_of t ck = Some item" "ci_feature item = Some g"
      by (auto simp: cur_def cached_feature_def ck_def bind_eq_Some_conv)
    have "good_feature g"
      using cached_item(2) [OF ok [OF k] item(1) [unfolded ck_def]] g by (simp add: cur_def)
    then have "upsertMemory store now kind f = Inr (True, store)"
      using item g b
      by (simp add: upsertMemory_def fkey fver good_featureD LDJSONRCGet_def t_def ck_def)
    then show ?thesis
      using m g by (intro exI [of _ store])
        (auto simp: feature_at_def newest_def cur_def t_def)
  next
    case False
    obtain t' where t': "update_all_items now (featureStoreAllCacheKey kind) (feature_key f) f t =
          Inr (Some t')"
        "t' = t \<or> (\<exists>item. t' = tab_put t (featureStoreAllCacheKey kind) item)"
        "collection_ok t' kind
          ((\<lambda>x. visible (cached_feature t kind x))(feature_key f := visible (Some f)))"
      using update_all_items_ok [OF u k] ok [OF k] unfolding kind_ok_def by blast
    define v where "v = \<lparr>ci_feature = Some f, updatedOn = now\<rparr>"
    define store' where "store' = store\<lparr>items := tab_put t' ck v\<rparr>"
    have u': "unique_keys t'" using u t'(2) by (auto simp: tab.ok_put)
    have same: "map_of t' ck = map_of t ck" using t'(2) u k by (auto simp: tab.find_put ck_def)
    have del: "(if map_of t ck = None then t' else assoc_delete ck t') = assoc_delete ck t'"
    proof (cases "map_of t ck")
      case None
      with same have "ck \<notin> fst ` set t'" by (metis map_of_eq_None_iff)
      with None show ?thesis by simp
    qed simp
    have ups: "upsertMemory store now kind f = Inr (True, store')"
    proof (cases "map_of t ck")
      case None
      then show ?thesis
        using b t'(1) del
        by (simp add: upsertMemory_def fkey ck_def t_def store'_def tab_put_def v_def
            makeCacheItem_def)
    next
      case (Some item)
      then obtain g where g: "ci_feature item = Some g" "good_feature g" "cur = Some g"
        using cached_item [OF ok [OF k] Some [unfolded ck_def]] by (auto simp: cur_def)
      with False have "\<not> feature_version f \<le> feature_version g" by simp
      then show ?thesis
        using Some b t'(1) g
        by (simp add: upsertMemory_def fkey fver good_featureD LDJSONRCGet_def ck_def t_def
            store'_def tab_put_def v_def makeCacheItem_def Let_def)
    qed
    have cf: "cached_feature t' x y = cached_feature t x y" if "plain_kind x" for x y
      using t'(2) u that by (auto simp: cached_feature_put_all)
    have new: "newest feature_version cur f = Some f"
      using False by (auto simp: newest_def split: option.split)
    have "memory_ok store'"
      using b u' kind_ok_upsert [OF u k _ ok f refl t'(2,3), of _ v]
      by (simp add: memory_ok_def store'_def tab.ok_put ck_def v_def)
    moreover have "feature_at store' kind' key =
        (if kind' = kind \<and> key = feature_key f
         then newest feature_version (feature_at store kind key) f
         else feature_at store kind' key)" if "plain_kind kind'" for kind' key
      using cached_feature_put [OF u' k that, of "feature_key f" v] cf [OF that] new
      by (auto simp: feature_at_def store'_def ck_def v_def cur_def t_def)
    ultimately show ?thesis using ups by (intro exI [of _ store']) (simp add: store'_def)
  qed
qed

section \<open>Operations on the store without a backend\<close>

lemma LDStoreGet_memory:
  assumes "memory_ok store"
  shows "LDStoreGet E store now kind key =
    Inr (True, visible (feature_at store (featureKindToString kind) key), store)"
proof -
  let ?k = "featureKindToString kind"
  have b: "backend store = None" and ok: "kind_ok (items store) ?k"
    using assms by (auto simp: memory_ok_def)
  show ?thesis
  proof (cases "map_of (items store) (featureStoreCacheKey ?k key)")
    case None
    then show ?thesis
      using b by (simp add: LDStoreGet_def memoryGetCollectionItem_def feature_at_def
          cached_feature_def)
  next
    case (Some item)
    from cached_item [OF ok Some] b Some show ?thesis
      by (auto simp: LDStoreGet_def memoryGetCollectionItem_def feature_at_def LDJSONRCGet_def
          visible_def)
  qed
qed

lemma LDStoreAll_memory:
  assumes "memory_ok store"
  shows "\<exists>r. LDStoreAll E store now kind = Inr (True, r, store) \<and>
    (\<forall>key. LDObjectLookup r key = visible (feature_at store (featureKindToString kind) key)) \<and>
    (\<forall>c. r = Some c \<longrightarrow> is_object c)"
proof -
  let ?k = "featureKindToString kind"
  have b: "backend store = None"
    and ok: "collection_ok (items store) ?k (\<lambda>key. visible (cached_feature (items store) ?k key))"
    using assms by (auto simp: memory_ok_def kind_ok_def)
  show ?thesis
  proof (cases "map_of (items store) (featureStoreAllCacheKey ?k)")
    case None
    with ok b show ?thesis
      by (simp add: LDStoreAll_def memoryAllCollectionItem_def tryGetAllBackend_def
          collection_ok_def feature_at_def)
  next
    case (Some item)
    with ok b show ?thesis
      by (auto simp: LDStoreAll_def memoryAllCollectionItem_def collection_ok_def feature_at_def)
  qed
qed

text \<open>The two update messages of the stream, with the clock at their arrival.\<close>

datatype store_update = UpsertAt rat json | RemoveAt rat string u32

fun update_feature :: "store_update \<Rightarrow> json" where
  "update_feature (UpsertAt now f) = f"
| "update_feature (RemoveAt now key version) = LDi_makeDeleted key version"

fun run_update ::
    "env \<Rightarrow> FeatureKind \<Rightarrow> 'b LDStore \<Rightarrow> store_update \<Rightarrow> (bool \<times> 'b LDStore) run" where
  "run_update E kind store (UpsertAt now f) = LDStoreUpsert E store now kind f"
| "run_update E kind store (RemoveAt now key version) = LDStoreRemove store now kind key version"

definition apply_update :: "env \<Rightarrow> FeatureKind \<Rightarrow> 'b LDStore \<Rightarrow> store_update \<Rightarrow> 'b LDStore" where
  "apply_update E kind store u =
     (case run_update E kind store u of Inl _ \<Rightarrow> store | Inr (_, store') \<Rightarrow> store')"

lemma run_update_memory:
  assumes m: "memory_ok store" and f: "good_feature (update_feature u)"
  shows "\<exists>store'. run_update E kind store u = Inr (True, store') \<and> memory_ok store' \<and>
    store_initialized store' = store_initialized store \<and>
    (\<forall>kind' key. plain_kind kind' \<longrightarrow> feature_at store' kind' key =
       (if kind' = featureKindToString kind \<and> key = feature_key (update_feature u)
        then newest feature_version (feature_at store kind' key) (update_feature u)
        else feature_at store kind' key))"
proof -
  have b: "backend store = None" using m by (simp add: memory_ok_def)
  have "run_update E kind store u =
      upsertMemory store (case u of UpsertAt n _ \<Rightarrow> n | RemoveAt n _ _ \<Rightarrow> n)
        (featureKindToString kind) (update_feature u)"
    using b f by (cases u)
      (auto simp: LDStoreUpsert_def LDStoreRemove_def good_feature_def Let_def)
  then show ?thesis
    using upsertMemory_memory [OF m plain_kind_string [of kind] f,
        of "case u of UpsertAt n _ \<Rightarrow> n | RemoveAt n _ _ \<Rightarrow> n"]
    by (metis (no_types, lifting))
qed

interpretation mem: versioned_store memory_ok
  "\<lambda>s. feature_at s (featureKindToString kind)" "apply_update E kind" update_feature
  for kind and E
proof unfold_locales
  fix s :: "'a LDStore" and u k
  assume *: "memory_ok s" "good_feature (update_feature u)"
  obtain s' where s': "run_update E kind s u = Inr (True, s')" "memory_ok s'"
    "\<forall>kind' key. plain_kind kind' \<longrightarrow> feature_at s' kind' key =
       (if kind' = featureKindToString kind \<and> key = feature_key (update_feature u)
        then newest feature_version (feature_at s kind' key) (update_feature u)
        else feature_at s kind' key)"
    using run_update_memory [OF *] by blast
  then show "memory_ok (apply_update E kind s u)"
    and "feature_at (apply_update E kind s u) (featureKindToString kind) k =
      (if k = feature_key (update_feature u)
       then newest feature_version (feature_at s (featureKindToString kind) k) (update_feature u)
       else feature_at s (featureKindToString kind) k)"
    by (simp_all add: apply_update_def)
qed

section \<open>Initialisation without a backend\<close>

lemma filter_loop_memory:
  assumes "memory_ok store" and "plain_kind kind" and "\<forall>f \<in> set fs. good_feature f"
  shows "\<exists>filtered store'. filter_loop now kind fs store (JObject ps) =
      Inr (True, filtered, store') \<and> memory_ok store' \<and>
    (\<forall>kind' key. plain_kind kind' \<longrightarrow> feature_at store' kind' key =
       (if kind' = kind
        then fold (\<lambda>f c. newest feature_version c f) (filter (\<lambda>f. feature_key f = key) fs)
          (feature_at store kind' key)
        else feature_at store kind' key))"
  using assms(1,3)
proof (induction fs arbitrary: store ps)
  case Nil
  then show ?case by auto
next
  case (Cons f fs)
  from Cons.prems have f: "good_feature f" by simp
  obtain store1 where s1: "upsertMemory store now kind f = Inr (True, store1)" "memory_ok store1"
    "\<And>kind' key. plain_kind kind' \<Longrightarrow> feature_at store1 kind' key =
       (if kind' = kind \<and> key = feature_key f
        then newest feature_version (feature_at store kind key) f
        else feature_at store kind' key)"
    using upsertMemory_memory [OF Cons.prems(1) assms(2) f] by blast
  obtain qs where q: "filter_loop now kind (f # fs) store (JObject ps) =
      filter_loop now kind fs store1 (JObject qs)"
    using s1(1) good_featureD(1) [OF f] by (cases "LDi_isFeatureDeleted f") auto
  show ?case
    using Cons.IH [OF s1(2), of qs] Cons.prems(2) s1(3) unfolding q by auto
qed

text \<open>The features of a kind in the data of an initialisation.\<close>

definition features_of :: "(string \<times> json) list \<Rightarrow> string \<Rightarrow> json list" where
  "features_of sets kind = concat (map (\<lambda>p. iter_values (Some (snd p)))
     (filter (\<lambda>p. fst p = kind) sets))"

definition good_sets :: "(string \<times> json) list \<Rightarrow> bool" where
  "good_sets sets \<longleftrightarrow> (\<forall>p \<in> set sets. plain_kind (fst p) \<and> json_type (snd p) = LDObject \<and>
     (\<forall>f \<in> set (iter_values (Some (snd p))). good_feature f))"

lemma init_loop_memory:
  assumes "memory_ok store" and "good_sets sets"
  shows "\<exists>store'. init_loop now sets store = Inr (True, store') \<and> memory_ok store' \<and>
    (\<forall>kind key. plain_kind kind \<longrightarrow> feature_at store' kind key =
       fold (\<lambda>f c. newest feature_version c f)
         (filter (\<lambda>f. feature_key f = key) (features_of sets kind)) (feature_at store kind key))"
  using assms
proof (induction sets arbitrary: store)
  case Nil
  then show ?case by (simp add: features_of_def)
next
  case (Cons p sets)
  obtain k features where p: "p = (k, features)" by (cases p)
  from Cons.prems(2) have k: "plain_kind k" "json_type features = LDObject"
      "\<forall>f \<in> set (iter_values (Some features)). good_feature f" "good_sets sets"
    by (auto simp: good_sets_def p)
  from filter_loop_memory [OF Cons.prems(1) k(1) k(3), of now "[]"]
  obtain fl store1 where s1:
      "filter_loop now k (iter_values (Some features)) store (JObject []) = Inr (True, fl, store1)"
      "memory_ok store1"
      "\<And>kind key. plain_kind kind \<Longrightarrow> feature_at store1 kind key =
       (if kind = k
        then fold (\<lambda>f c. newest feature_version c f)
          (filter (\<lambda>f. feature_key f = key) (iter_values (Some features)))
          (feature_at store kind key)
        else feature_at store kind key)"
    by blast
  from Cons.IH [OF s1(2) k(4)] obtain store2 where s2:
      "init_loop now sets store1 = Inr (True, store2)" "memory_ok store2"
      "\<And>kind key. plain_kind kind \<Longrightarrow> feature_at store2 kind key =
       fold (\<lambda>f c. newest feature_version c f)
         (filter (\<lambda>f. feature_key f = key) (features_of sets kind)) (feature_at store1 kind key)"
    by blast
  have "init_loop now (p # sets) store = Inr (True, store2)"
    using s1(1) s2(1) k(2) by (simp add: p filterAndCacheItems_def)
  moreover have "feature_at store2 kind key = fold (\<lambda>f c. newest feature_version c f)
         (filter (\<lambda>f. feature_key f = key) (features_of (p # sets) kind))
         (feature_at store kind key)" if "plain_kind kind" for kind key
    using s2(3) [OF that] s1(3) [OF that] by (auto simp: features_of_def p)
  ultimately show ?case using s2(2) by blast
qed

lemma memoryInit_memory:
  assumes b: "backend store = None" and g: "good_sets sets"
  shows "\<exists>store'. memoryInit store now (JObject sets) = Inr (True, store') \<and> memory_ok store' \<and>
    store_initialized store' \<and>
    (\<forall>kind key. plain_kind kind \<longrightarrow> feature_at store' kind key =
       fold (\<lambda>f c. newest feature_version c f)
         (filter (\<lambda>f. feature_key f = key) (features_of sets kind)) None)"
proof -
  have m: "memory_ok (memoryCacheFlush store)"
    by (rule memory_ok_empty) (simp_all add: memoryCacheFlush_def b)
  have e: "feature_at (memoryCacheFlush store) kind key = None" for kind key
    by (simp add: feature_at_def cached_feature_def memoryCacheFlush_def)
  obtain s where s: "init_loop now sets (memoryCacheFlush store) = Inr (True, s)" "memory_ok s"
    "\<And>kind key. plain_kind kind \<Longrightarrow> feature_at s kind key =
       fold (\<lambda>f c. newest feature_version c f)
         (filter (\<lambda>f. feature_key f = key) (features_of sets kind)) None"
    using init_loop_memory [OF m g, of now] unfolding e by blast
  let ?s = "s\<lparr>store_initialized := True\<rparr>"
  have bs: "backend s = None" using s(2) by (simp add: memory_ok_def)
  have "memory_ok ?s" using s(2) by (simp add: memory_ok_def)
  moreover have "memoryInit store now (JObject sets) = Inr (True, ?s)"
    using s(1) bs by (simp add: memoryInit_def)
  ultimately show ?thesis
    using s(3) by (intro exI [of _ ?s]) (simp add: feature_at_def)
qed


section \<open>Properties of the store without a backend\<close>

text \<open>
  The states a store without backend goes through: it is created, initialised (several times
  on reconnection), updated by messages in any order, valid or not, and expired. The data of an
  initialisation is as the service sends it: its kinds contain no colon and are not \<open>all\<close>, and
  its features have a text as key and a version that fits. For other kinds the reads do not
  agree (\<open>store_kind_collision\<close> below).
\<close>

definition readable_version :: "json \<Rightarrow> bool" where
  "readable_version f \<longleftrightarrow> returns (LDi_getFeatureVersionTrusted f)"

inductive reachable_memory :: "env \<Rightarrow> 'b LDStore \<Rightarrow> bool" for E where
  created: "storeBackend config = None \<Longrightarrow> reachable_memory E (LDStoreNew config)"
| initialised: "reachable_memory E s \<Longrightarrow> good_sets sets \<Longrightarrow>
    LDStoreInit E s now (JObject sets) = Inr (ok, s') \<Longrightarrow> reachable_memory E s'"
| updated: "reachable_memory E s \<Longrightarrow> readable_version (update_feature u) \<Longrightarrow>
    run_update E kind s u = Inr (ok, s') \<Longrightarrow> reachable_memory E s'"
| expired: "reachable_memory E s \<Longrightarrow> reachable_memory E (LDi_expireAll s)"

lemma map_of_expired:
  "map_of (map (\<lambda>(k, item). (k, item\<lparr>updatedOn := 0\<rparr>)) t) k =
     map_option (\<lambda>item. item\<lparr>updatedOn := 0\<rparr>) (map_of t k)"
  by (induction t) auto

lemma unique_keys_expired:
  "unique_keys t \<Longrightarrow> unique_keys (map (\<lambda>(k, item). (k, item\<lparr>updatedOn := 0\<rparr>)) t)"
  by (induction t) (auto simp: image_iff)

lemma cached_feature_expired:
  "cached_feature (map (\<lambda>(k, item). (k, item\<lparr>updatedOn := 0\<rparr>)) t) = cached_feature t"
  by (auto simp: fun_eq_iff cached_feature_def map_of_expired Option.bind_map_option comp_def)

lemma kind_ok_expired:
  "kind_ok t kind \<Longrightarrow> kind_ok (map (\<lambda>(k, item). (k, item\<lparr>updatedOn := 0\<rparr>)) t) kind"
  unfolding kind_ok_def features_ok_def collection_ok_def map_of_expired cached_feature_expired
  by (auto split: option.splits)

lemma memory_ok_expireAll: "memory_ok s \<Longrightarrow> memory_ok (LDi_expireAll s)"
  using unique_keys_expired [of "items s"]
  by (simp only: memory_ok_def LDi_expireAll_def LDStore.simps) (auto simp: kind_ok_expired)

lemma reachable_memory_ok: "reachable_memory E s \<Longrightarrow> memory_ok s"
proof (induction rule: reachable_memory.induct)
  case (created config)
  then show ?case by (intro memory_ok_empty) (simp_all add: LDStoreNew_def)
next
  case (initialised s sets now ok s')
  then have b: "backend s = None" by (simp add: memory_ok_def)
  with initialised memoryInit_memory [OF b initialised(2), of now] show ?case
    by (auto simp: LDStoreInit_def)
next
  case (updated s u kind ok s')
  show ?case
  proof (cases "LDi_validateFeature (update_feature u)")
    case True
    then have "good_feature (update_feature u)"
      using updated by (simp add: good_feature_def readable_version_def)
    from run_update_memory [OF updated.IH this, of E kind] updated show ?thesis by auto
  next
    case False
    then have "run_update E kind s u = Inr (False, s)"
      using makeDeleted_feature(1) by (cases u) (auto simp: LDStoreUpsert_def good_feature_def)
    with updated show ?thesis by simp
  qed
next
  case (expired s)
  then show ?case by (intro memory_ok_expireAll)
qed

text \<open>
  C4: in every state a store without a backend reaches from its creation by initialisations,
  updates and expiry, where the data of an initialisation has well-formed features and no kind
  that is \<open>all\<close> or contains a colon, the two ways of reading it (\<open>LDStoreGet\<close> and \<open>LDStoreAll\<close>)
  neither fail nor abort, leave the store as it is, and agree: the collection \<open>LDStoreAll\<close>
  returns holds, under every key, exactly the feature \<open>LDStoreGet\<close> finds under that key,
  deleted features in neither.
\<close>

theorem store_reads_agree:
  assumes "reachable_memory E s"
  shows "\<exists>features. LDStoreAll E s now kind = Inr (True, features, s) \<and>
    (\<forall>key. LDStoreGet E s now' kind key = Inr (True, LDObjectLookup features key, s))"
  using LDStoreAll_memory LDStoreGet_memory reachable_memory_ok [OF assms] by metis




text \<open>The data of an initialisation as the service sends it: features filed under their key.\<close>

definition filed_features :: "(string \<times> json) list \<Rightarrow> bool" where
  "filed_features fs \<longleftrightarrow>
     unique_keys fs \<and> (\<forall>p \<in> set fs. good_feature (snd p) \<and> feature_key (snd p) = fst p)"

definition filed_sets :: "(string \<times> json) list \<Rightarrow> bool" where
  "filed_sets sets \<longleftrightarrow> unique_keys sets \<and>
     (\<forall>p \<in> set sets. plain_kind (fst p) \<and> (\<exists>fs. snd p = JObject fs \<and> filed_features fs))"

lemma filed_newest:
  assumes "filed_features fs"
  shows "fold (\<lambda>f c. newest feature_version c f)
      (filter (\<lambda>f. feature_key f = key) (map snd fs)) None = map_of fs key"
  using assms
proof (induction fs)
  case Nil
  then show ?case by simp
next
  case (Cons p fs)
  then have key: "feature_key (snd p) = fst p" and fs: "filed_features fs"
    by (auto simp: filed_features_def)
  show ?case
  proof (cases "fst p = key")
    case True
    have "feature_key (snd q) \<noteq> key" if "q \<in> set fs" for q
    proof -
      have "feature_key (snd q) = fst q" "fst p \<noteq> fst q"
        using Cons.prems that by (auto simp: filed_features_def image_iff)
      with True show ?thesis by simp
    qed
    then have "filter (\<lambda>f. feature_key f = key) (map snd fs) = []"
      by (auto simp: filter_empty_conv)
    with True key show ?thesis by (simp add: newest_def)
  next
    case False
    with Cons.IH [OF fs] key show ?thesis by simp
  qed
qed

lemma filed_sets_good: "filed_sets sets \<Longrightarrow> good_sets sets"
  by (fastforce simp: filed_sets_def good_sets_def filed_features_def)

lemma filed_features_of:
  assumes "filed_sets sets"
  shows "features_of sets kind =
    (case map_of sets kind of Some (JObject fs) \<Rightarrow> map snd fs | _ \<Rightarrow> [])"
  using assms
proof (induction sets)
  case Nil
  then show ?case by (simp add: features_of_def)
next
  case (Cons p sets)
  then obtain fs where fs: "snd p = JObject fs" and sets: "filed_sets sets"
    by (auto simp: filed_sets_def)
  show ?case
  proof (cases "fst p = kind")
    case True
    with Cons.prems have "filter (\<lambda>q. fst q = kind) sets = []"
      by (auto simp: filed_sets_def filter_empty_conv image_iff)
    with True fs show ?thesis by (simp add: features_of_def)
  next
    case False
    with Cons.IH [OF sets] show ?thesis by (simp add: features_of_def)
  qed
qed

text \<open>
  C23: the data of an initialisation is read back. Initialising any reachable store without
  backend succeeds, marks it initialised, and a later \<open>LDStoreGet\<close> returns for every kind
  and key the feature the data holds under them, unless it is marked deleted, and nothing that
  was in the store before.
\<close>

theorem store_init_roundtrip:
  assumes "reachable_memory E s" and "filed_sets sets"
  shows "\<exists>s'. LDStoreInit E s now (JObject sets) = Inr (True, s') \<and>
    LDStoreInitialized s' now' = (True, s') \<and>
    (\<forall>kind key. LDStoreGet E s' now' kind key = Inr (True,
       visible (LDObjectLookup (map_of sets (featureKindToString kind)) key), s'))"
proof -
  have b: "backend s = None" using reachable_memory_ok [OF assms(1)] by (simp add: memory_ok_def)
  obtain s' where s': "memoryInit s now (JObject sets) = Inr (True, s')" "memory_ok s'"
    "store_initialized s'"
    "\<And>kind key. plain_kind kind \<Longrightarrow> feature_at s' kind key =
       fold (\<lambda>f c. newest feature_version c f)
         (filter (\<lambda>f. feature_key f = key) (features_of sets kind)) None"
    using memoryInit_memory [OF b filed_sets_good [OF assms(2)], of now] by auto
  have "feature_at s' kind key = LDObjectLookup (map_of sets kind) key" if k: "plain_kind kind"
    for kind key
  proof (cases "map_of sets kind")
    case None
    then show ?thesis using s'(4) [OF k] by (simp add: filed_features_of [OF assms(2)])
  next
    case (Some c)
    then obtain fs where "c = JObject fs" "filed_features fs"
      using assms(2) map_of_SomeD [OF Some] by (auto simp: filed_sets_def)
    with Some show ?thesis
      using s'(4) [OF k] filed_newest by (simp add: filed_features_of [OF assms(2)])
  qed
  then have "LDStoreGet E s' now' kind key = Inr (True,
       visible (LDObjectLookup (map_of sets (featureKindToString kind)) key), s')" for kind key
    using LDStoreGet_memory [OF s'(2)] by simp
  then show ?thesis
    using s'(1,3) b by (intro exI [of _ s']) (simp add: LDStoreInit_def LDStoreInitialized_def)
qed

section \<open>Properties of the cache in front of a backend\<close>

text \<open>An upsert over an absent or expired entry is a plain write at the head of the table.\<close>

lemma upsertMemory_backend:
  assumes b: "backend s = Some be" and f: "good_feature f"
    and stale: "\<forall>item. map_of (items s) (featureStoreCacheKey kind (feature_key f)) = Some item \<longrightarrow>
      isExpired s now item \<and> ci_feature item \<noteq> None"
  shows "\<exists>t. upsertMemory s now kind f = Inr (True, s\<lparr>items :=
      (featureStoreCacheKey kind (feature_key f), \<lparr>ci_feature = Some f, updatedOn = now\<rparr>) # t\<rparr>)"
proof (cases "map_of (items s) (featureStoreCacheKey kind (feature_key f))")
  case None
  then show ?thesis
    using b good_featureD(1) [OF f]
    by (auto simp: upsertMemory_def makeCacheItem_def Let_def)
next
  case (Some item)
  with stale obtain g where "isExpired s now item" "ci_feature item = Some g" by auto
  with Some show ?thesis
    using b good_featureD(1) [OF f]
    by (auto simp: upsertMemory_def makeCacheItem_def Let_def LDJSONRCGet_def)
qed

lemma fresh_read:
  assumes "items s = (featureStoreCacheKey (featureKindToString kind) key,
      \<lparr>ci_feature = Some f, updatedOn = now\<rparr>) # t"
    and "cacheMilliseconds s \<noteq> 0"
    and "to_double (now' - now) \<le> uint_to_double (cacheMilliseconds s)"
  shows "LDStoreGet E s now' kind key = Inr (True, visible (Some f), s)"
  using assms by (auto simp: LDStoreGet_def memoryGetCollectionItem_def isExpired_def
      LDJSONRCGet_def)

text \<open>
  A read through the cache asks the backend once. When the cached entry of a key is
  absent or expired and the backend answers with the text of a feature of that key,
  \<open>LDStoreGet\<close> returns this feature (nothing when it is marked deleted), and every later
  \<open>LDStoreGet\<close> of the key within the time to live returns the same answer from the cache,
  with the backend's context untouched.
\<close>

theorem store_read_through:
  assumes "backend s = Some be" and "cacheMilliseconds s \<noteq> 0"
    and "\<forall>item. map_of (items s) (featureStoreCacheKey (featureKindToString kind) key) = Some item \<longrightarrow>
      isExpired s now item \<and> ci_feature item \<noteq> None"
    and "be_get be (be_context be) (featureKindToString kind) key =
      (True, \<lparr>buffer = Some text, item_version = v\<rparr>, ctx)"
    and "env_deserialize E text = Some f" and "good_feature f" and "feature_key f = key"
  shows "\<exists>s'. LDStoreGet E s now kind key = Inr (True, visible (Some f), s') \<and>
    backend s' = Some (be\<lparr>be_context := ctx\<rparr>) \<and>
    (\<forall>now'. to_double (now' - now) \<le> uint_to_double (cacheMilliseconds s) \<longrightarrow>
      LDStoreGet E s' now' kind key = Inr (True, visible (Some f), s'))"
proof -
  let ?k = "featureKindToString kind" and ?s = "set_context be ctx s"
  have bs: "backend ?s = Some (be\<lparr>be_context := ctx\<rparr>)" by (simp add: set_context_def)
  have exp: "isExpired ?s now item = isExpired s now item" for item
    using assms(1) by (simp add: isExpired_def set_context_def)
  obtain t where t: "upsertMemory ?s now ?k f = Inr (True, ?s\<lparr>items :=
      (featureStoreCacheKey ?k key, \<lparr>ci_feature = Some f, updatedOn = now\<rparr>) # t\<rparr>)"
    using upsertMemory_backend [OF bs assms(6), of ?k now] assms(3,7) exp
    by (auto simp: set_context_def)
  define s' where "s' = ?s\<lparr>items :=
      (featureStoreCacheKey ?k key, \<lparr>ci_feature = Some f, updatedOn = now\<rparr>) # t\<rparr>"
  have v: "LDi_validateFeature f" using assms(6) by (simp add: good_feature_def)
  have tb: "tryGetBackend E s now ?k key = Inr (True, visible (Some f), s')"
    using assms(1,4,5) v t by (simp add: tryGetBackend_def s'_def)
  have "LDStoreGet E s now kind key = tryGetBackend E s now ?k key"
    using assms(1,3) by (auto simp: LDStoreGet_def memoryGetCollectionItem_def split: option.split)
  with tb have "LDStoreGet E s now kind key = Inr (True, visible (Some f), s')" by simp
  moreover have "backend s' = Some (be\<lparr>be_context := ctx\<rparr>)" using bs by (simp add: s'_def)
  moreover have "LDStoreGet E s' now' kind key = Inr (True, visible (Some f), s')"
    if "to_double (now' - now) \<le> uint_to_double (cacheMilliseconds s)" for now'
    using that assms(2) by (intro fresh_read [where t = t]) (simp_all add: s'_def set_context_def)
  ultimately show ?thesis by blast
qed

text \<open>
  The backend is written first. An upsert or a removal that the backend refuses reports
  failure and leaves the cache, and so every cached answer, as it was; so does an
  initialisation.
\<close>

theorem store_backend_failure:
  assumes "backend s = Some be" and "\<And>c k i key. fst (be_upsert be c k i key) = False"
    and "\<And>c sets. fst (be_init be c sets) = False"
    and "good_feature (update_feature u)" and "good_sets sets"
  shows "(\<exists>s'. run_update E kind s u = Inr (False, s') \<and> items s' = items s) \<and>
    (\<exists>s'. LDStoreInit E s now (JObject sets) = Inr (False, s') \<and> items s' = items s)"
proof
  show "\<exists>s'. run_update E kind s u = Inr (False, s') \<and> items s' = items s"
    using assms(1,2,4) good_featureD [OF assms(4)]
    by (cases u) (auto simp: LDStoreUpsert_def LDStoreRemove_def good_feature_def set_context_def
        case_prod_beta Let_def)
next
  have items: "\<exists>es. collection_items E fs = Inr es" if "\<forall>f \<in> set fs. good_feature f" for fs
    using that
  proof (induction fs)
    case (Cons f fs)
    then have "\<exists>v. LDi_getFeatureVersion f = Inr v"
      by (auto simp: LDi_getFeatureVersion_def good_feature_def LDi_getFeatureVersionTrusted_def
          returns_iff split: option.split)
    with Cons show ?case by auto
  qed simp
  have "\<exists>cs. collections_of E sets = Inr cs"
    using assms(5)
  proof (induction sets)
    case (Cons p sets)
    then have "good_sets sets" by (simp add: good_sets_def)
    then show ?case
      using Cons items [of "iter_values (Some (snd p))"]
      by (cases p) (auto simp: good_sets_def)
  qed simp
  then show "\<exists>s'. LDStoreInit E s now (JObject sets) = Inr (False, s') \<and> items s' = items s"
    using assms(1,3) by (auto simp: LDStoreInit_def set_context_def case_prod_beta Let_def)
qed

text \<open>
  \<open>LDStoreInitialized\<close> asks the backend at most once per time to live. Without a fresh
  marker it reports what the backend says; then, until the time to live has passed, and for
  good once the answer was yes, it gives the same answer without changing anything.
\<close>

theorem store_initialized_cached:
  assumes "backend s = Some be" and "\<not> store_initialized s" and "cacheMilliseconds s \<noteq> 0"
    and "\<forall>item. map_of (items s) INIT_CHECKED_KEY = Some item \<longrightarrow> isExpired s now item"
  shows "\<exists>s'. LDStoreInitialized s now = (fst (be_initialized be (be_context be)), s') \<and>
    (\<forall>now'. fst (be_initialized be (be_context be)) \<or>
        to_double (now' - now) \<le> uint_to_double (cacheMilliseconds s) \<longrightarrow>
      LDStoreInitialized s' now' = (fst (be_initialized be (be_context be)), s'))"
proof -
  obtain yes ctx where be: "be_initialized be (be_context be) = (yes, ctx)" by fastforce
  define s1 where "s1 = set_context be ctx (if map_of (items s) INIT_CHECKED_KEY = None then s
    else s\<lparr>items := assoc_delete INIT_CHECKED_KEY (items s)\<rparr>)"
  define s' where "s' = (if yes then s1\<lparr>store_initialized := True\<rparr>
    else s1\<lparr>items := makeCacheItem now INIT_CHECKED_KEY None # items s1\<rparr>)"
  have "LDStoreInitialized s now = (yes, s')"
    using assms be by (auto simp: LDStoreInitialized_def s1_def s'_def Let_def
        split: option.splits)
  moreover have "LDStoreInitialized s' now' = (yes, s')"
    if "yes \<or> to_double (now' - now) \<le> uint_to_double (cacheMilliseconds s)" for now'
    using that assms(1-3)
    by (auto simp: LDStoreInitialized_def s'_def s1_def set_context_def makeCacheItem_def
        isExpired_def)
  ultimately show ?thesis using be by auto
qed

text \<open>Concrete data for the witnesses: an empty store and a flag of each version.\<close>

definition empty_store :: "unit LDStore" where
  "empty_store = \<lparr>store_initialized = False, items = [], backend = None, cacheMilliseconds = 30000\<rparr>"

definition sample_flag :: "u32 \<Rightarrow> json" where
  "sample_flag version =
     JObject [(''key'', JText ''f''), (''version'', JNumber (uint_to_double version))]"

lemma sample_flag_good [simp]:
  "good_feature (sample_flag v)" "feature_key (sample_flag v) = ''f''"
  "feature_version (sample_flag v) = v" "\<not> LDi_isFeatureDeleted (sample_flag v)"
  by (simp_all add: sample_flag_def good_feature_def LDi_validateFeature_def feature_key_def
      feature_version_def LDi_getFeatureKeyTrusted_def LDi_getFeatureVersionTrusted_def
      LDi_isFeatureDeleted_def)

lemma empty_store_reachable: "reachable_memory E empty_store"
proof -
  let ?c = "the (LDConfigNew (Some ''k'')) :: unit LDStoreInterface LDConfig"
  have "LDStoreNew ?c = empty_store" "storeBackend ?c = None"
    by (simp_all add: LDStoreNew_def empty_store_def LDConfigNew_def)
  then show ?thesis using reachable_memory.created [of ?c E] by simp
qed

text \<open>A store with one flag.\<close>

theorem store_reads_agree_witness:
  "\<exists>s features. LDStoreInit plain_env empty_store 1
      (JObject [(''features'', JObject [(''f'', sample_flag 4)]), (''segments'', JObject [])]) = Inr (True, s) \<and>
    LDStoreAll plain_env s 5 LD_FLAG = Inr (True, features, s) \<and>
    (\<forall>key. LDStoreGet plain_env s 6 LD_FLAG key = Inr (True, LDObjectLookup features key, s)) \<and>
    LDObjectLookup features ''f'' = Some (sample_flag 4)"
proof -
  let ?sets = "[(''features'', JObject [(''f'', sample_flag 4)]), (''segments'', JObject [])]"
  have g: "good_sets ?sets" by (simp add: good_sets_def plain_kind_def)
  have "backend empty_store = None" by (simp add: empty_store_def)
  from memoryInit_memory [OF this g, of 1] obtain s where
    i: "memoryInit empty_store 1 (JObject ?sets) = Inr (True, s)" and m: "memory_ok s"
    and f: "feature_at s ''features'' ''f'' = Some (sample_flag 4)"
    by (auto simp: features_of_def newest_def plain_kind_def)
  then have i': "LDStoreInit plain_env empty_store 1 (JObject ?sets) = Inr (True, s)"
    by (simp add: LDStoreInit_def empty_store_def)
  have "reachable_memory plain_env s"
    by (rule reachable_memory.initialised [OF empty_store_reachable g i'])
  from store_reads_agree [OF this, of 5 LD_FLAG 6] obtain features where
    r: "LDStoreAll plain_env s 5 LD_FLAG = Inr (True, features, s)"
      "\<forall>key. LDStoreGet plain_env s 6 LD_FLAG key = Inr (True, LDObjectLookup features key, s)" by blast
  have "LDStoreGet plain_env s 6 LD_FLAG ''f'' = Inr (True, Some (sample_flag 4), s)"
    using LDStoreGet_memory [OF m, of plain_env 6 LD_FLAG "''f''"] f
    by (simp add: visible_def featureKindToString_def)
  with i' r show ?thesis by auto
qed

text \<open>
  The keys of the cache collide: the feature \<open>features\<close> of a kind \<open>all\<close> is filed under the key of
  the collection of all flags. With the data below, \<open>LDStoreAll\<close> takes that feature for the
  collection, so its members appear as flags that \<open>LDStoreGet\<close> does not find.
\<close>

lemma store_kind_collision:
  "\<exists>s. LDStoreInit plain_env empty_store 1 (JObject [(''segments'', JObject []),
      (''all'', JObject [(''x'', JObject [(''key'', JText ''features''), (''version'', JNumber 1)])]),
      (''features'', JObject [])]) = Inr (True, s) \<and>
    LDStoreAll plain_env s 2 LD_FLAG =
      Inr (True, Some (JObject [(''key'', JText ''features''), (''version'', JNumber 1)]), s) \<and>
    LDStoreGet plain_env s 2 LD_FLAG ''key'' = Inr (True, None, s)"
  by (simp add: LDStoreInit_def empty_store_def memoryInit_def filterAndCacheItems_def upsertMemory_def
      update_all_items_def memoryCacheFlush_def LDi_getFeatureKeyTrusted_def LDi_isFeatureDeleted_def
      featureStoreCacheKey_def featureStoreAllCacheKey_def makeCacheItem_def LDStoreAll_def LDStoreGet_def
      memoryAllCollectionItem_def memoryGetCollectionItem_def featureKindToString_def isExpired_def Let_def)



theorem store_init_roundtrip_witness:
  "\<exists>s'. LDStoreInit plain_env empty_store 1 (JObject [(''features'', JObject [(''f'', sample_flag 4)])]) =
      Inr (True, s') \<and>
    LDStoreGet plain_env s' 2 LD_FLAG ''f'' = Inr (True, Some (sample_flag 4), s') \<and>
    LDStoreGet plain_env s' 2 LD_SEGMENT ''f'' = Inr (True, None, s')"
  using store_init_roundtrip [OF empty_store_reachable,
      of "[(''features'', JObject [(''f'', sample_flag 4)])]" plain_env 1 2]
  by (auto simp: filed_sets_def filed_features_def plain_kind_def featureKindToString_def)

text \<open>A backend that answers every \<open>get\<close> with one text and refuses every write.\<close>

definition sample_backend :: "nat LDStoreInterface" where
  "sample_backend = \<lparr>be_context = 0, be_init = (\<lambda>n _. (False, n)),
     be_get = (\<lambda>n _ _. (True, \<lparr>buffer = Some ''f4'', item_version = 4\<rparr>, n + 1)),
     be_all = (\<lambda>n _. (False, [], n)), be_upsert = (\<lambda>n _ _ _. (False, n)),
     be_initialized = (\<lambda>n. (False, n + 1))\<rparr>"

definition backed_store :: "nat LDStore" where
  "backed_store = \<lparr>store_initialized = False, items = [], backend = Some sample_backend,
     cacheMilliseconds = 30000\<rparr>"

definition sample_env :: env where
  "sample_env = plain_env\<lparr>env_deserialize := (\<lambda>t. if t = ''f4'' then Some (sample_flag 4) else None)\<rparr>"

theorem store_read_through_witness:
  "\<exists>s'. LDStoreGet sample_env backed_store 100 LD_FLAG ''f'' =
      Inr (True, visible (Some (sample_flag 4)), s') \<and>
    backend s' = Some (sample_backend\<lparr>be_context := 1\<rparr>) \<and>
    LDStoreGet sample_env s' 100 LD_FLAG ''f'' =
      Inr (True, visible (Some (sample_flag 4)), s')"
  using store_read_through [of backed_store sample_backend LD_FLAG "''f''" 100 "''f4''" 4 1
      sample_env "sample_flag 4"]
  by (auto simp: backed_store_def sample_backend_def sample_env_def to_double_def
      uint_to_double_def)

theorem store_backend_failure_witness:
  "\<exists>s'. run_update plain_env LD_FLAG backed_store (RemoveAt 1 ''f'' 5) = Inr (False, s') \<and>
    items s' = []"
  using store_backend_failure [of backed_store sample_backend "RemoveAt 1 ''f'' 5" "[]"
      plain_env LD_FLAG 1]
  by (simp add: backed_store_def sample_backend_def good_sets_def)

theorem store_initialized_cached_witness:
  "\<exists>s'. LDStoreInitialized backed_store 7 = (False, s') \<and> LDStoreInitialized s' 7 = (False, s')"
  using store_initialized_cached [of backed_store sample_backend 7]
  by (auto simp: backed_store_def sample_backend_def to_double_def uint_to_double_def)

end
