(* ===== verification/LD_Evaluate.thy ===== *)
theory LD_Evaluate
  imports LD_Bucket LD_Events LD_Store
begin

text \<open>
  src/evaluate.c: the evaluation of a flag for a user. The result of every function is its
  \<open>EvalStatus\<close> with what it wrote through its out parameters; the store is threaded through,
  because reading it may fill its cache. \<open>LDi_evaluate\<close> and \<open>LDi_checkPrerequisites\<close> call
  each other without a bound on the depth, so \<open>LDi_evaluate\<close> takes the depth of the C stack
  as fuel; running out of it is the fault \<open>OutOfFuel\<close>. The theorems below show how much
  fuel is enough.
\<close>

section \<open>Status\<close>

datatype EvalStatus = EVAL_MEM | EVAL_SCHEMA | EVAL_STORE | EVAL_MATCH | EVAL_MISS

definition LDi_isEvalError :: "EvalStatus \<Rightarrow> bool" where
  "LDi_isEvalError status \<longleftrightarrow> status = EVAL_MEM \<or> status = EVAL_SCHEMA \<or> status = EVAL_STORE"

definition maybeNegate :: "json \<Rightarrow> EvalStatus \<Rightarrow> EvalStatus" where
  "maybeNegate clause status =
     (if LDi_isEvalError status then status
      else let negate = LDObjectLookup (Some clause) ''negate'' in
        if LDi_notNull negate then
          if LDJSONGetType negate \<noteq> LDBool then EVAL_SCHEMA
          else if LDGetBool negate then
            (if status = EVAL_MATCH then EVAL_MISS
             else if status = EVAL_MISS then EVAL_MATCH else status)
          else status
        else status)"

text \<open>\<open>addValue\<close> writes \<open>*result\<close> and the details; on failure \<open>*result\<close> stays.\<close>

definition addValue ::
    "json \<Rightarrow> json option \<Rightarrow> LDDetails \<Rightarrow> json option \<Rightarrow> (bool \<times> json option \<times> LDDetails) run" where
  "addValue flag result details index =
     (if LDi_notNull index then
        let details1 = details\<lparr>hasVariation := True\<rparr> in
        if LDJSONGetType index \<noteq> LDNumber then Inr (False, result, details1)
        else run_bind (double_to_uint (LDGetNumber index)) (\<lambda>i.
          let details2 = details1\<lparr>variationIndex := i\<rparr> in
          case LDObjectLookup (Some flag) ''variations'' of
            Some (JArray vs) \<Rightarrow>
              (case LDArrayLookup (Some (JArray vs)) i of
                 None \<Rightarrow> Inr (False, result, details2)
               | Some v \<Rightarrow> Inr (True, Some v, details2))
          | _ \<Rightarrow> Inr (False, result, details2))
      else Inr (True, None, details\<lparr>hasVariation := False\<rparr>))"

section \<open>Clauses\<close>

fun match_values :: "OpFn \<Rightarrow> json \<Rightarrow> json list \<Rightarrow> EvalStatus run" where
  "match_values f value [] = Inr EVAL_MISS"
| "match_values f value (v # vs) =
     run_bind (f value v) (\<lambda>b. if b then Inr EVAL_MATCH else match_values f value vs)"

definition matchAny :: "OpFn \<Rightarrow> json \<Rightarrow> json \<Rightarrow> EvalStatus run" where
  "matchAny f value values = match_values f value (iter_values (Some values))"

fun match_attributes :: "OpFn \<Rightarrow> json \<Rightarrow> json \<Rightarrow> json list \<Rightarrow> EvalStatus run" where
  "match_attributes fn clause values [] = Inr (maybeNegate clause EVAL_MISS)"
| "match_attributes fn clause values (a # as) =
     (if json_type a = LDObject \<or> json_type a = LDArray then Inr EVAL_SCHEMA
      else run_bind (matchAny fn a values) (\<lambda>substatus.
        if LDi_isEvalError substatus then Inr substatus
        else if substatus = EVAL_MATCH then Inr (maybeNegate clause EVAL_MATCH)
        else match_attributes fn clause values as))"

definition LDi_clauseMatchesUserNoSegments :: "env \<Rightarrow> json \<Rightarrow> LDUser \<Rightarrow> EvalStatus run" where
  "LDi_clauseMatchesUserNoSegments E clause user =
     (case (LDObjectLookup (Some clause) ''attribute'', LDObjectLookup (Some clause) ''op'',
            LDObjectLookup (Some clause) ''values'') of
        (Some (JText attributeText), Some (JText operatorText), Some values) \<Rightarrow>
          (case LDi_lookupOperation E operatorText of
             None \<Rightarrow> Inr EVAL_MISS
           | Some fn \<Rightarrow>
               run_bind (LDi_valueOfAttribute user attributeText) (\<lambda>attributeValue.
                 case attributeValue of
                   None \<Rightarrow> Inr EVAL_MISS
                 | Some (JArray as) \<Rightarrow> match_attributes fn clause values as
                 | Some a \<Rightarrow>
                     run_bind (matchAny fn a values) (\<lambda>substatus.
                       Inr (if LDi_isEvalError substatus then substatus
                            else maybeNegate clause substatus))))
      | _ \<Rightarrow> Inr EVAL_SCHEMA)"

section \<open>Segments\<close>

fun segment_clauses :: "env \<Rightarrow> LDUser \<Rightarrow> json list \<Rightarrow> EvalStatus run" where
  "segment_clauses E user [] = Inr EVAL_MATCH"
| "segment_clauses E user (clause # rest) =
     run_bind (LDi_clauseMatchesUserNoSegments E clause user) (\<lambda>substatus.
       if LDi_isEvalError substatus then Inr substatus
       else if substatus = EVAL_MISS then Inr EVAL_MISS
       else segment_clauses E user rest)"

definition segment_weight :: "json \<Rightarrow> string \<Rightarrow> LDUser \<Rightarrow> string \<Rightarrow> EvalStatus run" where
  "segment_weight segmentRule segmentKey user salt =
     (let weight = LDObjectLookup (Some segmentRule) ''weight'' in
      if \<not> LDi_notNull weight then Inr EVAL_MATCH
      else if LDJSONGetType weight \<noteq> LDNumber then Inr EVAL_SCHEMA
      else run_bind (LDi_getBucketAttribute (Some segmentRule)) (\<lambda>attr.
        case attr of
          None \<Rightarrow> Inr EVAL_SCHEMA
        | Some attribute \<Rightarrow>
            run_bind (LDi_bucketUser user (Some segmentKey) attribute (Some salt) None)
              (\<lambda>(_, bucket). Inr (if bucket < to_double (LDGetNumber weight / 100000)
                 then EVAL_MATCH else EVAL_MISS))))"

definition LDi_segmentRuleMatchUser ::
    "env \<Rightarrow> json \<Rightarrow> string \<Rightarrow> LDUser \<Rightarrow> string \<Rightarrow> EvalStatus run" where
  "LDi_segmentRuleMatchUser E segmentRule segmentKey user salt =
     (case LDObjectLookup (Some segmentRule) ''clauses'' of
        Some (JArray clauses) \<Rightarrow>
          run_bind (segment_clauses E user clauses) (\<lambda>substatus.
            if LDi_isEvalError substatus \<or> substatus = EVAL_MISS then Inr substatus
            else segment_weight segmentRule segmentKey user salt)
      | _ \<Rightarrow> Inr EVAL_SCHEMA)"

fun segment_rules :: "env \<Rightarrow> string \<Rightarrow> LDUser \<Rightarrow> string \<Rightarrow> json list \<Rightarrow> EvalStatus run" where
  "segment_rules E key user salt [] = Inr EVAL_MISS"
| "segment_rules E key user salt (r # rs) =
     (if json_type r \<noteq> LDObject then Inr EVAL_SCHEMA
      else run_bind (LDi_segmentRuleMatchUser E r key user salt) (\<lambda>substatus.
        if LDi_isEvalError substatus then Inr substatus
        else if substatus = EVAL_MATCH then Inr EVAL_MATCH
        else segment_rules E key user salt rs))"

text \<open>The membership lists: \<open>None\<close> in the status is to go on.\<close>

definition listed :: "json option \<Rightarrow> LDUser \<Rightarrow> EvalStatus \<Rightarrow> EvalStatus option run" where
  "listed names user status =
     (if LDi_notNull names then
        if LDJSONGetType names \<noteq> LDArray then Inr (Some EVAL_SCHEMA)
        else run_bind (LDi_textInArray names (user_key user)) (\<lambda>b. Inr (if b then Some status else None))
      else Inr None)"

definition LDi_segmentMatchesUser :: "env \<Rightarrow> json \<Rightarrow> LDUser \<Rightarrow> EvalStatus run" where
  "LDi_segmentMatchesUser E segment user =
     run_bind (listed (LDObjectLookup (Some segment) ''included'') user EVAL_MATCH) (\<lambda>inc.
       case inc of
         Some s \<Rightarrow> Inr s
       | None \<Rightarrow>
           run_bind (listed (LDObjectLookup (Some segment) ''excluded'') user EVAL_MISS) (\<lambda>exc.
             case exc of
               Some s \<Rightarrow> Inr s
             | None \<Rightarrow>
                 (case (LDObjectLookup (Some segment) ''rules'',
                        LDObjectLookup (Some segment) ''key'',
                        LDObjectLookup (Some segment) ''salt'') of
                    (Some (JArray rules), Some (JText key), Some (JText salt)) \<Rightarrow>
                      segment_rules E key user salt rules
                  | _ \<Rightarrow> Inr EVAL_SCHEMA)))"

section \<open>Rules\<close>

fun match_segments ::
    "env \<Rightarrow> json \<Rightarrow> LDUser \<Rightarrow> rat \<Rightarrow> json list \<Rightarrow> 'b LDStore \<Rightarrow> (EvalStatus \<times> 'b LDStore) run" where
  "match_segments E clause user now [] store = Inr (maybeNegate clause EVAL_MISS, store)"
| "match_segments E clause user now (v # vs) store =
     (case v of
        JText segmentKey \<Rightarrow>
          run_bind (LDStoreGet E store now LD_SEGMENT segmentKey) (\<lambda>(ok, segment, store').
            if \<not> ok then Inr (EVAL_STORE, store')
            else case segment of
              None \<Rightarrow> match_segments E clause user now vs store'
            | Some seg \<Rightarrow>
                run_bind (LDi_segmentMatchesUser E seg user) (\<lambda>evalstatus.
                  if LDi_isEvalError evalstatus then Inr (evalstatus, store')
                  else if evalstatus = EVAL_MATCH then Inr (maybeNegate clause EVAL_MATCH, store')
                  else match_segments E clause user now vs store'))
      | _ \<Rightarrow> match_segments E clause user now vs store)"

definition LDi_clauseMatchesUser ::
    "env \<Rightarrow> json \<Rightarrow> LDUser \<Rightarrow> rat \<Rightarrow> 'b LDStore \<Rightarrow> (EvalStatus \<times> 'b LDStore) run" where
  "LDi_clauseMatchesUser E clause user now store =
     (case LDObjectLookup (Some clause) ''op'' of
        Some (JText op) \<Rightarrow>
          if op = ''segmentMatch'' then
            (case LDObjectLookup (Some clause) ''values'' of
               Some (JArray vs) \<Rightarrow> match_segments E clause user now vs store
             | _ \<Rightarrow> Inr (EVAL_SCHEMA, store))
          else run_bind (LDi_clauseMatchesUserNoSegments E clause user) (\<lambda>s. Inr (s, store))
      | _ \<Rightarrow> Inr (EVAL_SCHEMA, store))"

fun match_clauses ::
    "env \<Rightarrow> LDUser \<Rightarrow> rat \<Rightarrow> json list \<Rightarrow> 'b LDStore \<Rightarrow> (EvalStatus \<times> 'b LDStore) run" where
  "match_clauses E user now [] store = Inr (EVAL_MATCH, store)"
| "match_clauses E user now (c # cs) store =
     (if json_type c \<noteq> LDObject then Inr (EVAL_SCHEMA, store)
      else run_bind (LDi_clauseMatchesUser E c user now store) (\<lambda>(substatus, store').
        if LDi_isEvalError substatus then Inr (substatus, store')
        else if substatus = EVAL_MISS then Inr (EVAL_MISS, store')
        else match_clauses E user now cs store'))"

definition LDi_ruleMatchesUser ::
    "env \<Rightarrow> json \<Rightarrow> LDUser \<Rightarrow> rat \<Rightarrow> 'b LDStore \<Rightarrow> (EvalStatus \<times> 'b LDStore) run" where
  "LDi_ruleMatchesUser E rule user now store =
     (case LDObjectLookup (Some rule) ''clauses'' of
        Some (JArray clauses) \<Rightarrow> match_clauses E user now clauses store
      | _ \<Rightarrow> Inr (EVAL_SCHEMA, store))"

section \<open>Evaluation\<close>

text \<open>What \<open>LDi_evaluate\<close> writes: the details, the events of prerequisites, the value.\<close>

record 'b eval_out =
  o_details :: LDDetails
  o_events :: "json option"
  o_value :: "json option"
  o_store :: "'b LDStore"

text \<open>The end of a branch: serve the variation \<open>index\<close>.\<close>

definition serve ::
    "json \<Rightarrow> json option \<Rightarrow> EvalStatus \<Rightarrow> 'b eval_out \<Rightarrow> (EvalStatus \<times> 'b eval_out) run" where
  "serve flag index status st =
     run_bind (addValue flag (o_value st) (o_details st) index) (\<lambda>(ok, value, details).
       Inr (if ok then status else EVAL_MEM, st\<lparr>o_value := value, o_details := details\<rparr>))"

definition set_reason :: "LDEvalReason \<Rightarrow> 'b eval_out \<Rightarrow> 'b eval_out" where
  "set_reason r st = st\<lparr>o_details := (o_details st)\<lparr>reason := r\<rparr>\<rparr>"

definition set_extra :: "LDDetailsExtra \<Rightarrow> 'b eval_out \<Rightarrow> 'b eval_out" where
  "set_extra x st = st\<lparr>o_details := (o_details st)\<lparr>extra := x\<rparr>\<rparr>"

text \<open>The targets: \<open>None\<close> is to go on to the rules.\<close>

fun match_targets ::
    "json \<Rightarrow> LDUser \<Rightarrow> json list \<Rightarrow> 'b eval_out \<Rightarrow> (EvalStatus option \<times> 'b eval_out) run" where
  "match_targets flag user [] st = Inr (None, st)"
| "match_targets flag user (t # ts) st =
     (if json_type t \<noteq> LDObject then Inr (Some EVAL_SCHEMA, st)
      else case LDObjectLookup (Some t) ''values'' of
        Some (JArray vs) \<Rightarrow>
          run_bind (LDi_textInArray (Some (JArray vs)) (user_key user)) (\<lambda>found.
            if found
            then run_bind (serve flag (LDObjectLookup (Some t) ''variation'') EVAL_MATCH
                   (set_reason LD_TARGET_MATCH st)) (\<lambda>(s, st'). Inr (Some s, st'))
            else match_targets flag user ts st)
      | _ \<Rightarrow> Inr (Some EVAL_SCHEMA, st))"

text \<open>The branch of a rule that matched.\<close>

definition serve_rule ::
    "json \<Rightarrow> json \<Rightarrow> LDUser \<Rightarrow> u32 \<Rightarrow> 'b eval_out \<Rightarrow> (EvalStatus \<times> 'b eval_out) run" where
  "serve_rule flag rule user index st =
     (let st1 = set_extra (ExtraRule \<lparr>ruleIndex = index, rule_id = None, rule_inExperiment = None\<rparr>)
                  (set_reason LD_RULE_MATCH st)
      in run_bind (LDi_getIndexForVariationOrRollout flag (Some rule) user) (\<lambda>r.
           case r of
             None \<Rightarrow> Inr (EVAL_SCHEMA, st1)
           | Some (inExperiment, variation) \<Rightarrow>
               (let st2 = set_extra (ExtraRule \<lparr>ruleIndex = index, rule_id = None,
                      rule_inExperiment = Some inExperiment\<rparr>) st1
                in run_bind (serve flag (Some variation) EVAL_MATCH st2) (\<lambda>(s, st3).
                     let ruleid = LDObjectLookup (Some rule) ''id'' in
                     if s = EVAL_MEM then Inr (s, st3)
                     else if LDi_notNull ruleid then
                       (case LDGetText ruleid of
                          None \<Rightarrow> Inr (EVAL_SCHEMA, st3)
                        | Some text \<Rightarrow> Inr (s, set_extra (ExtraRule \<lparr>ruleIndex = index,
                            rule_id = Some text, rule_inExperiment = Some inExperiment\<rparr>) st3))
                     else Inr (s, st3)))))"

fun match_rules ::
    "env \<Rightarrow> json \<Rightarrow> LDUser \<Rightarrow> rat \<Rightarrow> u32 \<Rightarrow> json list \<Rightarrow> 'b eval_out \<Rightarrow>
     (EvalStatus option \<times> 'b eval_out) run" where
  "match_rules E flag user now index [] st = Inr (None, st)"
| "match_rules E flag user now index (r # rs) st =
     (if json_type r \<noteq> LDObject then Inr (Some EVAL_SCHEMA, st)
      else run_bind (LDi_ruleMatchesUser E r user now (o_store st)) (\<lambda>(substatus, store').
        let st' = st\<lparr>o_store := store'\<rparr> in
        if LDi_isEvalError substatus then Inr (Some substatus, st')
        else if substatus = EVAL_MATCH
        then run_bind (serve_rule flag r user index st') (\<lambda>(s, st''). Inr (Some s, st''))
        else match_rules E flag user now (index + 1) rs st'))"

definition serve_fallthrough ::
    "json \<Rightarrow> LDUser \<Rightarrow> 'b eval_out \<Rightarrow> (EvalStatus \<times> 'b eval_out) run" where
  "serve_fallthrough flag user st =
     (let st1 = set_reason LD_FALLTHROUGH st in
      run_bind (LDi_getIndexForVariationOrRollout flag
          (LDObjectLookup (Some flag) ''fallthrough'') user) (\<lambda>r.
        case r of
          None \<Rightarrow> Inr (EVAL_SCHEMA, st1)
        | Some (inExperiment, index) \<Rightarrow>
            serve flag (Some index) EVAL_MATCH (set_extra (ExtraFallthrough inExperiment) st1)))"

text \<open>An optional member that must be an array: \<open>None\<close> is the schema error.\<close>

definition array_member :: "json \<Rightarrow> string \<Rightarrow> json list option" where
  "array_member flag k =
     (case LDObjectLookup (Some flag) k of
        None \<Rightarrow> Some []
      | Some (JArray xs) \<Rightarrow> Some xs
      | _ \<Rightarrow> None)"

text \<open>The part of \<open>LDi_evaluate\<close> after the prerequisites: targets, rules, fallthrough.\<close>

definition evaluate_enabled ::
    "env \<Rightarrow> json \<Rightarrow> LDUser \<Rightarrow> rat \<Rightarrow> 'b eval_out \<Rightarrow> (EvalStatus \<times> 'b eval_out) run" where
  "evaluate_enabled E flag user now st =
     (case array_member flag ''targets'' of
        None \<Rightarrow> Inr (EVAL_SCHEMA, st)
      | Some targets \<Rightarrow>
          run_bind (match_targets flag user targets st) (\<lambda>(r, st1).
            case r of
              Some s \<Rightarrow> Inr (s, st1)
            | None \<Rightarrow>
                (case array_member flag ''rules'' of
                   None \<Rightarrow> Inr (EVAL_SCHEMA, st1)
                 | Some rules \<Rightarrow>
                     run_bind (match_rules E flag user now 0 rules st1) (\<lambda>(r2, st2).
                       case r2 of
                         Some s \<Rightarrow> Inr (s, st2)
                       | None \<Rightarrow> serve_fallthrough flag user st2))))"

section \<open>Prerequisites\<close>

type_synonym 'b evaluator = "json \<Rightarrow> 'b eval_out \<Rightarrow> (EvalStatus \<times> 'b eval_out) run"

text \<open>
  One prerequisite: evaluate its flag, record the event, and decide whether it holds. The
  status \<open>EVAL_MATCH\<close> is to go on to the next prerequisite. \<open>monotonic\<close> and \<open>unix\<close> are the
  monotonic clock of the store and the wall clock of the events.
\<close>

definition prerequisite_result :: "json \<Rightarrow> json \<Rightarrow> EvalStatus \<Rightarrow> LDDetails \<Rightarrow> EvalStatus" where
  "prerequisite_result preflag variation status details =
     (if status = EVAL_MISS then EVAL_MISS
      else case LDObjectLookup (Some preflag) ''on'' of
        Some (JBool on) \<Rightarrow>
          (let variationMatch = (hasVariation details \<and>
                 uint_to_double (variationIndex details) = LDGetNumber (Some variation))
           in if \<not> on \<or> \<not> variationMatch then EVAL_MISS else EVAL_MATCH)
      | _ \<Rightarrow> EVAL_SCHEMA)"

definition add_events :: "json option \<Rightarrow> json option \<Rightarrow> json \<Rightarrow> bool \<times> json option" where
  "add_events evs subevents event =
     (let evs1 = (case evs of None \<Rightarrow> JArray [] | Some a \<Rightarrow> a);
          (ok, evs2) = (case subevents of None \<Rightarrow> (True, evs1)
                           | Some _ \<Rightarrow> LDArrayAppend evs1 subevents)
      in if \<not> ok then (False, Some evs2)
         else let (ok', evs3) = LDArrayPush evs2 (Some event) in (ok', Some evs3))"

definition check_prerequisite ::
    "env \<Rightarrow> 'b evaluator \<Rightarrow> 'e EventProcessor \<Rightarrow> json \<Rightarrow> LDUser \<Rightarrow> rat \<Rightarrow> rat \<Rightarrow> json \<Rightarrow>
     string option \<Rightarrow> json option \<Rightarrow> 'b LDStore \<Rightarrow>
     (EvalStatus \<times> string option \<times> json option \<times> 'b LDStore) run" where
  "check_prerequisite E evaluate processor flag user monotonic unix pre failedKey evs store =
     (case LDObjectLookup (Some pre) ''key'' of
        Some (JText keyText) \<Rightarrow>
          (case LDObjectLookup (Some pre) ''variation'' of
             Some (JNumber variation) \<Rightarrow>
               run_bind (LDStoreGet E store monotonic LD_FLAG keyText) (\<lambda>(ok, preflag, store1).
                 if \<not> ok then Inr (EVAL_STORE, Some keyText, evs, store1)
                 else case preflag of
                   None \<Rightarrow> Inr (EVAL_MISS, Some keyText, evs, store1)
                 | Some pf \<Rightarrow>
                     run_bind (evaluate pf \<lparr>o_details = LDDetailsInit fresh_details,
                         o_events = None, o_value = None, o_store = store1\<rparr>) (\<lambda>(status, out).
                       if LDi_isEvalError status
                       then Inr (status, Some keyText, evs, o_store out)
                       else run_bind (LDi_newFeatureRequestEvent processor keyText user
                              (if hasVariation (o_details out)
                               then Some (variationIndex (o_details out)) else None)
                              (o_value out) None (LDGetText (LDObjectLookup (Some flag) ''key''))
                              (Some pf) (o_details out) unix) (\<lambda>event.
                         case event of
                           None \<Rightarrow> Inr (EVAL_MEM, Some keyText, evs, o_store out)
                         | Some ev \<Rightarrow>
                             (let (added, evs') = add_events evs (o_events out) ev in
                              if \<not> added then Inr (EVAL_MEM, Some keyText, evs', o_store out)
                              else Inr (prerequisite_result pf (JNumber variation) status
                                (o_details out), Some keyText, evs', o_store out)))))
           | _ \<Rightarrow> Inr (EVAL_SCHEMA, Some keyText, evs, store))
      | _ \<Rightarrow> Inr (EVAL_SCHEMA, failedKey, evs, store))"

fun check_prerequisites ::
    "env \<Rightarrow> 'b evaluator \<Rightarrow> 'e EventProcessor \<Rightarrow> json \<Rightarrow> LDUser \<Rightarrow> rat \<Rightarrow> rat \<Rightarrow> json list \<Rightarrow>
     string option \<Rightarrow> json option \<Rightarrow> 'b LDStore \<Rightarrow>
     (EvalStatus \<times> string option \<times> json option \<times> 'b LDStore) run" where
  "check_prerequisites E evaluate processor flag user monotonic unix [] failedKey evs store =
     Inr (EVAL_MATCH, failedKey, evs, store)"
| "check_prerequisites E evaluate processor flag user monotonic unix (p # ps) failedKey evs store =
     run_bind (check_prerequisite E evaluate processor flag user monotonic unix p failedKey evs store)
       (\<lambda>(status, failedKey', evs', store').
          if status = EVAL_MATCH
          then check_prerequisites E evaluate processor flag user monotonic unix ps failedKey' evs' store'
          else Inr (status, failedKey', evs', store'))"

definition LDi_checkPrerequisites ::
    "env \<Rightarrow> 'b evaluator \<Rightarrow> 'e EventProcessor \<Rightarrow> json \<Rightarrow> LDUser \<Rightarrow> rat \<Rightarrow> rat \<Rightarrow>
     string option \<Rightarrow> json option \<Rightarrow> 'b LDStore \<Rightarrow>
     (EvalStatus \<times> string option \<times> json option \<times> 'b LDStore) run" where
  "LDi_checkPrerequisites E evaluate processor flag user monotonic unix failedKey evs store =
     run_bind (LD_ASSERT (json_type flag = LDObject)) (\<lambda>_.
       case array_member flag ''prerequisites'' of
         None \<Rightarrow> Inr (EVAL_SCHEMA, failedKey, evs, store)
       | Some ps \<Rightarrow>
           check_prerequisites E evaluate processor flag user monotonic unix ps failedKey evs store)"

text \<open>The body of \<open>LDi_evaluate\<close>, over the evaluation of prerequisite flags.\<close>

definition evaluate_flag ::
    "env \<Rightarrow> 'b evaluator \<Rightarrow> 'e EventProcessor \<Rightarrow> LDUser \<Rightarrow> rat \<Rightarrow> rat \<Rightarrow> 'b evaluator" where
  "evaluate_flag E evaluate processor user monotonic unix flag st =
     (case LDObjectLookup (Some flag) ''on'' of
        Some (JBool on) \<Rightarrow>
          if \<not> on
          then serve flag (LDObjectLookup (Some flag) ''offVariation'') EVAL_MISS
                 (set_reason LD_OFF st)
          else run_bind (LDi_checkPrerequisites E evaluate processor flag user monotonic unix None
                 (o_events st) (o_store st)) (\<lambda>(substatus, failedKey, evs', store').
            let st1 = st\<lparr>o_events := evs', o_store := store'\<rparr> in
            if LDi_isEvalError substatus then Inr (substatus, st1)
            else if substatus = EVAL_MISS
            then (case failedKey of
                    None \<Rightarrow> Inl NullPointer
                  | Some key \<Rightarrow>
                      serve flag (LDObjectLookup (Some flag) ''offVariation'') EVAL_MISS
                        (set_extra (ExtraPrerequisiteKey (Some key))
                          (set_reason LD_PREREQUISITE_FAILED st1)))
            else evaluate_enabled E flag user monotonic st1)
      | _ \<Rightarrow> Inr (EVAL_SCHEMA, st))"

primrec LDi_evaluate ::
    "nat \<Rightarrow> env \<Rightarrow> 'e EventProcessor \<Rightarrow> LDUser \<Rightarrow> rat \<Rightarrow> rat \<Rightarrow> 'b evaluator" where
  "LDi_evaluate 0 E processor user monotonic unix = (\<lambda>flag st. Inl OutOfFuel)"
| "LDi_evaluate (Suc depth) E processor user monotonic unix =
     evaluate_flag E (LDi_evaluate depth E processor user monotonic unix) processor user monotonic unix"

end
