(* ===== verification/LD_Client.thy ===== *)
theory LD_Client
  imports LD_Evaluate
begin

text \<open>
  src/client.c: the client handle, which joins the store and the event processor, and its
  operations that hand events over. A handle, a user or a key may be \<open>NULL\<close>; the defensive
  build answers those with \<open>false\<close>. A client is the state that the calling threads and the
  network thread (\<open>LD_Network\<close>) share, and \<open>LDClientInit\<close> is the construction up to the start
  of that thread.
\<close>

record 'b LDClient =
  shuttingdown :: bool
  cl_config :: "'b LDStoreInterface LDConfig"
  shouldFlush :: bool
  cl_store :: "'b LDStore"
  eventProcessor :: "'b LDStoreInterface EventProcessor"

text \<open>The store takes the backend over, so the configuration loses it before it is kept.\<close>

definition LDClientInit :: "'b LDStoreInterface LDConfig option \<Rightarrow> rat \<Rightarrow> 'b LDClient option" where
  "LDClientInit config monotonic =
     map_option (\<lambda>cfg.
       let store = LDStoreNew cfg;
           cfg' = cfg\<lparr>storeBackend := None\<rparr>
       in \<lparr>shuttingdown = False, cl_config = cfg', shouldFlush = False, cl_store = store,
           eventProcessor = LDi_newEventProcessor cfg' monotonic\<rparr>) config"

definition LDClientIsInitialized :: "'b LDClient option \<Rightarrow> rat \<Rightarrow> bool \<times> 'b LDClient option" where
  "LDClientIsInitialized client now =
     (case client of
        None \<Rightarrow> (False, None)
      | Some cl \<Rightarrow>
          let (initialized, store) = LDStoreInitialized (cl_store cl) now
          in (initialized, Some (cl\<lparr>cl_store := store\<rparr>)))"

text \<open>Run an operation of the event processor on a client.\<close>

definition on_processor ::
    "'b LDClient \<Rightarrow> (bool \<times> 'b LDStoreInterface EventProcessor) run \<Rightarrow> (bool \<times> 'b LDClient option) run" where
  "on_processor cl r =
     run_bind r (\<lambda>(ok, processor). Inr (ok, Some (cl\<lparr>eventProcessor := processor\<rparr>)))"

definition LDClientTrack ::
    "'b LDClient option \<Rightarrow> string option \<Rightarrow> LDUser option \<Rightarrow> json option \<Rightarrow> rat \<Rightarrow>
     (bool \<times> 'b LDClient option) run" where
  "LDClientTrack client key user data now =
     (case (client, key, user) of
        (Some cl, Some k, Some u) \<Rightarrow>
          on_processor cl (LDi_track (eventProcessor cl) u k data 0 False now)
      | _ \<Rightarrow> Inr (False, client))"

definition LDClientTrackMetric ::
    "'b LDClient option \<Rightarrow> string option \<Rightarrow> LDUser option \<Rightarrow> json option \<Rightarrow> rat \<Rightarrow> rat \<Rightarrow>
     (bool \<times> 'b LDClient option) run" where
  "LDClientTrackMetric client key user data metric now =
     (case (client, key, user) of
        (Some cl, Some k, Some u) \<Rightarrow>
          on_processor cl (LDi_track (eventProcessor cl) u k data metric True now)
      | _ \<Rightarrow> Inr (False, client))"

definition LDClientAlias ::
    "'b LDClient option \<Rightarrow> LDUser option \<Rightarrow> LDUser option \<Rightarrow> rat \<Rightarrow>
     (bool \<times> 'b LDClient option) run" where
  "LDClientAlias client currentUser previousUser now =
     (case (client, currentUser, previousUser) of
        (Some cl, Some u, Some p) \<Rightarrow> on_processor cl (LDi_alias (eventProcessor cl) u p now)
      | _ \<Rightarrow> Inr (False, client))"

definition LDClientIdentify ::
    "'b LDClient option \<Rightarrow> LDUser option \<Rightarrow> rat \<Rightarrow> (bool \<times> 'b LDClient option) run" where
  "LDClientIdentify client user now =
     (case (client, user) of
        (Some cl, Some u) \<Rightarrow> on_processor cl (LDi_identify (eventProcessor cl) u now)
      | _ \<Rightarrow> Inr (False, client))"

definition LDClientIsOffline :: "'b LDClient option \<Rightarrow> bool" where
  "LDClientIsOffline client =
     (case client of None \<Rightarrow> False | Some cl \<Rightarrow> offline (cl_config cl))"

definition LDClientFlush :: "'b LDClient option \<Rightarrow> bool \<times> 'b LDClient option" where
  "LDClientFlush client =
     (case client of None \<Rightarrow> (False, None) | Some cl \<Rightarrow> (True, Some (cl\<lparr>shouldFlush := True\<rparr>)))"

end
