(* ===== verification/LD_Variations.thy ===== *)
theory LD_Variations
  imports LD_Client
begin

text \<open>
  src/variations.c, from \<open>variation\<close> on: the functions an application calls to evaluate a
  flag. \<open>depth\<close> is the number of nested evaluations allowed, \<open>monotonic\<close> and \<open>unix\<close> the two
  clocks at the call. The result of \<open>variation\<close> says whether the returned pointer is the
  fallback, which two of the callers test.
\<close>

section \<open>Evaluating one flag\<close>

definition set_error :: "LDEvalErrorKind \<Rightarrow> LDDetails \<Rightarrow> LDDetails" where
  "set_error kind d = d\<lparr>reason := LD_ERROR, extra := ExtraErrorKind kind\<rparr>"

record 'b variation_out =
  fell_back :: bool
  v_result :: json
  v_details :: LDDetails
  v_client :: "'b LDClient option"

text \<open>The label \<open>error\<close>: the fallback is returned.\<close>

definition give_fallback :: "json \<Rightarrow> LDDetails \<Rightarrow> 'b LDClient option \<Rightarrow> 'b variation_out run" where
  "give_fallback fallback d client =
     Inr \<lparr>fell_back = True, v_result = fallback, v_details = d, v_client = client\<rparr>"

text \<open>The last part: report the evaluation, then check the value and its type.\<close>

definition report_and_check ::
    "env \<Rightarrow> 'b LDClient \<Rightarrow> LDUser \<Rightarrow> string \<Rightarrow> json \<Rightarrow> (LDJSONType \<Rightarrow> bool) \<Rightarrow> bool \<Rightarrow> rat \<Rightarrow>
     json option \<Rightarrow> json option \<Rightarrow> json option \<Rightarrow> LDDetails \<Rightarrow> 'b variation_out run" where
  "report_and_check E cl user key fallback checkType detailed unix subEvents value flag d =
     run_bind (LDi_processEvaluation E (eventProcessor cl) user subEvents key value (Some fallback)
         flag d detailed unix) (\<lambda>(ok, processor).
       let client = Some (cl\<lparr>eventProcessor := processor\<rparr>) in
       if \<not> ok then give_fallback fallback d client
       else case value of
         None \<Rightarrow> give_fallback fallback d client
       | Some v \<Rightarrow>
           if \<not> LDi_notNull value then give_fallback fallback d client
           else if \<not> checkType (LDJSONGetType value)
           then give_fallback fallback (set_error LD_WRONG_TYPE d) client
           else Inr \<lparr>fell_back = False, v_result = v, v_details = d, v_client = client\<rparr>)"

text \<open>
  The middle part, from the store on: \<open>EVAL_MEM\<close> and \<open>EVAL_SCHEMA\<close> return early; every other
  status, \<open>EVAL_STORE\<close> included, goes on to report the evaluation.
\<close>

definition evaluate_stored ::
    "nat \<Rightarrow> env \<Rightarrow> 'b LDClient \<Rightarrow> LDUser \<Rightarrow> string \<Rightarrow> json \<Rightarrow> (LDJSONType \<Rightarrow> bool) \<Rightarrow> bool \<Rightarrow>
     rat \<Rightarrow> rat \<Rightarrow> LDDetails \<Rightarrow> 'b variation_out run" where
  "evaluate_stored depth E cl user key fallback checkType detailed monotonic unix d =
     run_bind (LDStoreGet E (cl_store cl) monotonic LD_FLAG key) (\<lambda>(found, flag, store).
       let cl1 = cl\<lparr>cl_store := store\<rparr> in
       if \<not> found then give_fallback fallback (set_error LD_STORE_ERROR d) (Some cl1)
       else case flag of
         None \<Rightarrow> report_and_check E cl1 user key fallback checkType detailed unix None None None
                   (set_error LD_FLAG_NOT_FOUND d)
       | Some f \<Rightarrow>
           run_bind (LDi_evaluate depth E (eventProcessor cl1) user monotonic unix f
               \<lparr>o_details = d, o_events = None, o_value = None, o_store = store\<rparr>) (\<lambda>(status, out).
             let cl2 = cl1\<lparr>cl_store := o_store out\<rparr> in
             if status = EVAL_MEM
             then give_fallback fallback (set_error LD_OOM (o_details out)) (Some cl2)
             else if status = EVAL_SCHEMA
             then give_fallback fallback (set_error LD_MALFORMED_FLAG (o_details out)) (Some cl2)
             else report_and_check E cl2 user key fallback checkType detailed unix
                    (o_events out) (o_value out) flag (o_details out)))"

definition variation ::
    "nat \<Rightarrow> env \<Rightarrow> 'b LDClient option \<Rightarrow> LDUser option \<Rightarrow> string option \<Rightarrow> json \<Rightarrow>
     (LDJSONType \<Rightarrow> bool) \<Rightarrow> LDDetails option \<Rightarrow> rat \<Rightarrow> rat \<Rightarrow> 'b variation_out run" where
  "variation depth E client user key fallback checkType o_dets monotonic unix =
     (let d = LDDetailsInit (case o_dets of Some d \<Rightarrow> d | None \<Rightarrow> fresh_details) in
      case client of
        None \<Rightarrow> give_fallback fallback (set_error LD_CLIENT_NOT_SPECIFIED d) None
      | Some cl \<Rightarrow>
      (case user of
         None \<Rightarrow> give_fallback fallback (set_error LD_USER_NOT_SPECIFIED d) client
       | Some u \<Rightarrow>
      (case key of
         None \<Rightarrow> give_fallback fallback (set_error LD_NULL_KEY d) client
       | Some k \<Rightarrow>
           let (initialized, store) = LDStoreInitialized (cl_store cl) monotonic;
               cl1 = cl\<lparr>cl_store := store\<rparr>
           in if \<not> initialized
              then give_fallback fallback (set_error LD_CLIENT_NOT_READY d) (Some cl1)
              else evaluate_stored depth E cl1 u k fallback checkType (o_dets \<noteq> None)
                     monotonic unix d)))"

section \<open>The typed variants\<close>

text \<open>Each returns its value, the caller's details when it passed any, and the client.\<close>

definition typed_result ::
    "LDDetails option \<Rightarrow> 'b variation_out \<Rightarrow> 'a \<Rightarrow> 'a \<times> LDDetails option \<times> 'b LDClient option" where
  "typed_result o_dets out value =
     (value, map_option (\<lambda>_. v_details out) o_dets, v_client out)"

definition isBool :: "LDJSONType \<Rightarrow> bool" where "isBool type = (type = LDBool)"
definition isNumber :: "LDJSONType \<Rightarrow> bool" where "isNumber type = (type = LDNumber)"
definition isText :: "LDJSONType \<Rightarrow> bool" where "isText type = (type = LDText)"
definition isArrayOrObject :: "LDJSONType \<Rightarrow> bool" where
  "isArrayOrObject type = (type = LDArray \<or> type = LDObject)"

definition LDBoolVariation where
  "LDBoolVariation depth E client user key fallback details monotonic unix =
     run_bind (variation depth E client user key (JBool fallback) isBool details monotonic unix) (\<lambda>out.
       Inr (typed_result details out (LDGetBool (Some (v_result out)))))"

definition LDIntVariation where
  "LDIntVariation depth E client user key (fallback :: int) details monotonic unix =
     run_bind (variation depth E client user key (JNumber (of_int fallback)) isNumber details
       monotonic unix) (\<lambda>out.
     run_bind (double_to_int (LDGetNumber (Some (v_result out)))) (\<lambda>value.
       Inr (typed_result details out value)))"

definition LDDoubleVariation where
  "LDDoubleVariation depth E client user key fallback details monotonic unix =
     run_bind (variation depth E client user key (JNumber fallback) isNumber details monotonic unix) (\<lambda>out.
       Inr (typed_result details out (LDGetNumber (Some (v_result out)))))"

definition LDStringVariation where
  "LDStringVariation depth E client user key fallback details monotonic unix =
     run_bind (variation depth E client user key
         (case fallback of Some s \<Rightarrow> JText s | None \<Rightarrow> JNull) isText details monotonic unix) (\<lambda>out.
       Inr (typed_result details out
         (if fallback = None \<and> fell_back out then None else LDGetText (Some (v_result out)))))"

definition LDJSONVariation where
  "LDJSONVariation depth E client user key fallback details monotonic unix =
     run_bind (variation depth E client user key
         (case fallback of Some j \<Rightarrow> j | None \<Rightarrow> JNull) isArrayOrObject details monotonic unix) (\<lambda>out.
       Inr (typed_result details out
         (if fallback = None \<and> fell_back out then None else Some (v_result out))))"

section \<open>All flags\<close>

fun evaluate_all ::
    "nat \<Rightarrow> env \<Rightarrow> 'e EventProcessor \<Rightarrow> LDUser \<Rightarrow> rat \<Rightarrow> rat \<Rightarrow> json list \<Rightarrow> 'b LDStore \<Rightarrow> json \<Rightarrow>
     (json option \<times> 'b LDStore) run" where
  "evaluate_all depth E processor user monotonic unix [] store evaluated = Inr (Some evaluated, store)"
| "evaluate_all depth E processor user monotonic unix (flag # flags) store evaluated =
     run_bind (LDi_evaluate depth E processor user monotonic unix flag
         \<lparr>o_details = LDDetailsInit fresh_details, o_events = None, o_value = None, o_store = store\<rparr>)
       (\<lambda>(status, out).
         if LDi_isEvalError status then Inr (None, o_store out)
         else case LDGetText (LDObjectLookup (Some flag) ''key'') of
           None \<Rightarrow> Inl Assertion
         | Some key \<Rightarrow>
             let (ok, evaluated') = (case o_value out of None \<Rightarrow> (True, evaluated)
                   | Some v \<Rightarrow> LDObjectSetKey evaluated (Some key) (Some v))
             in if ok
                then evaluate_all depth E processor user monotonic unix flags (o_store out) evaluated'
                else Inr (None, o_store out))"

definition LDAllFlags ::
    "nat \<Rightarrow> env \<Rightarrow> 'b LDClient option \<Rightarrow> LDUser option \<Rightarrow> rat \<Rightarrow> rat \<Rightarrow>
     (json option \<times> 'b LDClient option) run" where
  "LDAllFlags depth E client user monotonic unix =
     (case (client, user) of
        (Some cl, Some u) \<Rightarrow>
          if offline (cl_config cl) then Inr (None, client)
          else let (initialized, store1) = LDStoreInitialized (cl_store cl) monotonic in
            if \<not> initialized then Inr (None, Some (cl\<lparr>cl_store := store1\<rparr>))
            else run_bind (LDStoreAll E store1 monotonic LD_FLAG) (\<lambda>(ok, rawFlagsRC, store2).
              if \<not> ok then Inr (None, Some (cl\<lparr>cl_store := store2\<rparr>))
              else run_bind (LDJSONRCGet rawFlagsRC) (\<lambda>rawFlags.
                run_bind (evaluate_all depth E (eventProcessor cl) u monotonic unix
                    (iter_values (Some rawFlags)) store2 (JObject [])) (\<lambda>(evaluated, store3).
                  Inr (evaluated, Some (cl\<lparr>cl_store := store3\<rparr>)))))
      | _ \<Rightarrow> Inr (None, client))"

end
