(* ===== verification/LD_Events_Laws.thy ===== *)
theory LD_Events_Laws
  imports LD_Events
begin

text \<open>
  Correctness of the event processor: what reaches the queue and in which form, that the
  summary counts every evaluation exactly once, that the queue respects its capacity in every
  reachable state and that a flush hands everything over.
\<close>

section \<open>The queue\<close>

definition queue :: "'b EventProcessor \<Rightarrow> json list" where
  "queue ctx = iter_values (Some (events ctx))"

definition queue_ok :: "'b EventProcessor \<Rightarrow> bool" where
  "queue_ok ctx \<longleftrightarrow> json_type (events ctx) = LDArray \<and>
     length (queue ctx) \<le> unat (eventsCapacity (ep_config ctx))"

definition has_room :: "'b EventProcessor \<Rightarrow> bool" where
  "has_room ctx \<longleftrightarrow> length (queue ctx) < unat (eventsCapacity (ep_config ctx))"

lemma addEvent_eq:
  assumes "queue_ok ctx"
  shows "LDi_addEvent ctx e =
    Inr (if has_room ctx then ctx\<lparr>events := JArray (queue ctx @ [e])\<rparr> else ctx)"
proof -
  from assms obtain xs where xs: "events ctx = JArray xs" by (auto simp: queue_ok_def)
  have "length xs < 2 ^ 32"
    using assms xs unsigned_less [of "eventsCapacity (ep_config ctx)", where ?'a = nat]
    by (simp add: queue_ok_def queue_def)
  then have "unat (of_nat (length xs) :: u32) = length xs" by (simp add: unat_of_nat take_bit_eq_mod)
  then have "(eventsCapacity (ep_config ctx) \<le> LDCollectionGetSize (Some (events ctx))) = (\<not> has_room ctx)"
    by (auto simp: LDCollectionGetSize_def LDGetIter_def xs has_room_def queue_def word_le_nat_alt)
  then show ?thesis
    by (simp add: LDi_addEvent_def xs LDArrayPush_def queue_def)
qed

lemma addEvent_ok:
  assumes "queue_ok ctx" and "LDi_addEvent ctx e = Inr ctx'"
  shows "queue_ok ctx'" and "ctx' = ctx\<lparr>events := events ctx'\<rparr>"
  using assms by (auto simp: addEvent_eq queue_ok_def has_room_def queue_def split: if_splits)

text \<open>Whether an evaluation event is tracked, and the event as it is sent.\<close>

definition tracked :: "json \<Rightarrow> bool" where
  "tracked event \<longleftrightarrow>
     LDGetBool (LDObjectLookup (LDObjectLookup (Some event) ''reason'') ''inExperiment'') \<or>
     LDGetBool (LDObjectLookup (Some event) ''trackEvents'')"

definition drop_member :: "string \<Rightarrow> json \<Rightarrow> json" where
  "drop_member k event =
     (if LDi_notNull (LDObjectLookup (Some event) k) then LDObjectDeleteKey event k else event)"

definition keeps_reason :: "json \<Rightarrow> bool \<Rightarrow> bool" where
  "keeps_reason event detailed \<longleftrightarrow>
     (if LDi_notNull (LDObjectLookup (Some event) ''shouldAlwaysTrackDetails'')
      then LDGetBool (LDObjectLookup (Some event) ''shouldAlwaysTrackDetails'') else detailed)"

definition sent_form :: "json \<Rightarrow> bool \<Rightarrow> json" where
  "sent_form event detailed =
     drop_member ''debugEventsUntilDate'' (drop_member ''trackEvents''
       (drop_member ''shouldAlwaysTrackDetails''
         (if keeps_reason event detailed then event else LDObjectDeleteKey event ''reason'')))"

lemma LDGetBool_notNull: "LDi_notNull p \<and> LDGetBool p \<longleftrightarrow> LDGetBool p"
  by (cases p) (auto simp: LDGetBool_def split: json.splits)

lemma is_object_drop [simp]: "is_object e \<Longrightarrow> is_object (drop_member k e)"
  by (simp add: drop_member_def obj_laws)

lemma drop_member_lookup:
  "is_object e \<Longrightarrow> LDObjectLookup (Some (drop_member k e)) k' =
    (if k' = k \<and> LDi_notNull (LDObjectLookup (Some e) k) then None else LDObjectLookup (Some e) k')"
  by (auto simp: drop_member_def obj_laws)

lemma possiblyQueue_eq:
  assumes "is_object event"
  shows "LDi_possiblyQueueEvent ctx event now detailed =
      (if tracked event then LDi_addEvent ctx (sent_form event detailed) else Inr ctx)"
proof -
  let ?l = "LDObjectLookup (Some event)"
  define e1 where "e1 = drop_member ''shouldAlwaysTrackDetails''
    (if keeps_reason event detailed then event else LDObjectDeleteKey event ''reason'')"
  have e1: "(if LDi_notNull (?l ''shouldAlwaysTrackDetails'')
      then LDObjectDeleteKey (if LDGetBool (?l ''shouldAlwaysTrackDetails'') then event
        else LDObjectDeleteKey event ''reason'') ''shouldAlwaysTrackDetails''
      else if \<not> detailed then LDObjectDeleteKey event ''reason'' else event) = e1"
    using assms by (auto simp: e1_def drop_member_def keeps_reason_def obj_laws)
  have obj: "is_object e1" using assms by (simp add: e1_def obj_laws)
  have l1: "LDObjectLookup (Some e1) ''trackEvents'' = ?l ''trackEvents''"
    using assms by (simp add: e1_def drop_member_lookup obj_laws)
  have dbg: "fst (convertToDebug e)" if "is_object e" for e
    using that by (auto simp: convertToDebug_def is_object_iff)
  define e2 where "e2 = drop_member ''trackEvents'' e1"
  define e3 where "e3 = drop_member ''debugEventsUntilDate'' e2"
  have e2: "(if LDi_notNull (LDObjectLookup (Some e1) ''trackEvents'')
      then LDObjectDeleteKey e1 ''trackEvents'' else e1) = e2"
    and e3: "(if LDi_notNull (LDObjectLookup (Some e2) ''debugEventsUntilDate'')
      then LDObjectDeleteKey e2 ''debugEventsUntilDate'' else e2) = e3"
    by (simp_all only: e2_def e3_def drop_member_def)
  have "fst (convertToDebug e3)" using obj by (intro dbg) (simp add: e3_def e2_def)
  then obtain d where c: "convertToDebug e3 = (True, d)" by (metis (full_types) prod.collapse)
  show ?thesis
    unfolding LDi_possiblyQueueEvent_def Let_def e1
    unfolding e2 unfolding e3 unfolding c LDGetBool_notNull l1
    by (simp add: tracked_def sent_form_def e1_def e2_def e3_def)
qed

text \<open>
  C20: what \<open>LDi_possiblyQueueEvent\<close> queues. An evaluation event is queued exactly when it
  is part of an experiment or its flag or rule asks for tracking and the queue has room,
  without the three members that steer the library (\<open>trackEvents\<close>, \<open>debugEventsUntilDate\<close>,
  \<open>shouldAlwaysTrackDetails\<close>), with the reason only when details were asked for or the rule
  demands it, all other members as they were. Debugging never has an effect: the outcome
  does not depend on \<open>debugEventsUntilDate\<close>, on the clock or on the server time, because the
  converted debug event is freed where it should be queued.
\<close>

theorem possiblyQueue_effect:
  assumes "queue_ok ctx" and "is_object event"
  shows "LDi_possiblyQueueEvent ctx event now detailed =
      Inr (if tracked event \<and> has_room ctx
           then ctx\<lparr>events := JArray (queue ctx @ [sent_form event detailed])\<rparr> else ctx) \<and>
    (\<forall>k. LDObjectLookup (Some (sent_form event detailed)) k =
       (if k \<in> {''trackEvents'', ''debugEventsUntilDate'', ''shouldAlwaysTrackDetails''} \<and>
           LDi_notNull (LDObjectLookup (Some event) k) then None
        else if k = ''reason'' \<and> \<not> keeps_reason event detailed then None
        else LDObjectLookup (Some event) k))"
  using assms
  by (auto simp: possiblyQueue_eq addEvent_eq sent_form_def drop_member_lookup obj_laws)

section \<open>Index events\<close>

text \<open>
  A user is announced once. After \<open>LDi_maybeMakeIndexEvent\<close> ran for a user, running
  it again for a user of the same key before the flush interval is over produces no index
  event; the first call produces one exactly when the key was not among the recent ones (or
  the interval was over). Holds when users are not inlined and the cache has a capacity.
\<close>

theorem index_event_once:
  assumes "\<not> inlineUsersInEvents (ep_config ctx)" and "capacity (userKeys ctx) \<noteq> 0"
    and "lru_inv (userKeys ctx)" and "config_user_json ctx user = Inr u"
    and "user_key again = user_key user"
  shows "\<exists>e ctx'. LDi_maybeMakeIndexEvent ctx user now = Inr (True, e, ctx') \<and>
    (e = None \<longleftrightarrow> user_key user \<in> set (lru_list (userKeys ctx)) \<and>
       now \<le> to_double (lastUserKeyFlush ctx +
         uint_to_double (userKeysFlushInterval (ep_config ctx)))) \<and>
    (\<forall>later. later \<le> to_double (lastUserKeyFlush ctx' +
         uint_to_double (userKeysFlushInterval (ep_config ctx'))) \<longrightarrow>
       (\<exists>ctx''. LDi_maybeMakeIndexEvent ctx' again later = Inr (True, None, ctx'')))"
proof -
  let ?late = "now > to_double (lastUserKeyFlush ctx +
      uint_to_double (userKeysFlushInterval (ep_config ctx)))"
  define ctx1 where "ctx1 = (if ?late then ctx\<lparr>userKeys := LDLRUClear (userKeys ctx),
      lastUserKeyFlush := now\<rparr> else ctx)"
  have inv: "lru_inv (userKeys ctx1)" and cap: "capacity (userKeys ctx1) \<noteq> 0"
    using assms(2,3) lru_inv_clear by (auto simp: ctx1_def LDLRUClear_def)
  obtain lru' where l: "lru_inv lru'" "capacity lru' \<noteq> 0" "user_key user \<in> set (lru_list lru')"
    "LDLRUInsert True True (userKeys ctx1) (user_key user) =
      Inr (if user_key user \<in> set (lru_list (userKeys ctx1)) then LDLRUSTATUS_EXISTED
           else LDLRUSTATUS_NEW, lru')"
    by (rule LDLRUInsert_cases [OF inv, of True True "user_key user"])
      (use cap in \<open>auto simp: take_Cons' unat_gt_0 [symmetric]\<close>)
  define ctx2 where "ctx2 = ctx1\<lparr>userKeys := lru'\<rparr>"
  define e where "e = (if user_key user \<in> set (lru_list (userKeys ctx1)) then None
    else Some (set_key ''user'' u (LDi_newBaseEvent ''index'' now)))"
  have first: "LDi_maybeMakeIndexEvent ctx user now = Inr (True, e, ctx2)"
    using assms(1,4) l(4)
    by (auto simp: LDi_maybeMakeIndexEvent_def Let_def ctx1_def [symmetric] ctx2_def e_def)
  have mem: "user_key user \<in> set (lru_list (userKeys ctx1)) \<longleftrightarrow>
      user_key user \<in> set (lru_list (userKeys ctx)) \<and> \<not> ?late"
    by (simp add: ctx1_def LDLRUClear_def)
  have "\<exists>ctx''. LDi_maybeMakeIndexEvent ctx2 again later = Inr (True, None, ctx'')"
    if "later \<le> to_double (lastUserKeyFlush ctx2 +
         uint_to_double (userKeysFlushInterval (ep_config ctx2)))" for later
  proof -
    have "ep_config ctx2 = ep_config ctx" by (simp add: ctx2_def ctx1_def)
    moreover have "userKeys ctx2 = lru'" by (simp add: ctx2_def)
    moreover obtain lru'' where "LDLRUInsert True True lru' (user_key user) =
        Inr (LDLRUSTATUS_EXISTED, lru'')"
      by (rule LDLRUInsert_cases [OF l(1), of True True "user_key user"]) (use l(2,3) in auto)
    ultimately show ?thesis
      using assms(1,5) that by (simp add: LDi_maybeMakeIndexEvent_def Let_def)
  qed
  with first show ?thesis
    using mem by (intro exI [of _ e] exI [of _ ctx2]) (auto simp: e_def)
qed

section \<open>The summary\<close>

definition counters_wf :: "json \<Rightarrow> bool" where
  "counters_wf cs \<longleftrightarrow> is_object cs \<and> (\<forall>k e. LDObjectLookup (Some cs) k = Some e \<longrightarrow>
     is_object e \<and> LDJSONGetType (LDObjectLookup (Some e) ''count'') = LDNumber)"

definition context_wf :: "json \<Rightarrow> bool" where
  "context_wf fc \<longleftrightarrow> is_object fc \<and>
     (\<exists>cs. LDObjectLookup (Some fc) ''counters'' = Some cs \<and> counters_wf cs)"

definition summary_wf :: "json \<Rightarrow> bool" where
  "summary_wf all \<longleftrightarrow> is_object all \<and>
     (\<forall>f fc. LDObjectLookup (Some all) f = Some fc \<longrightarrow> context_wf fc)"

text \<open>The count under a flag key and a summary key; zero when there is none.\<close>

definition count_in :: "json option \<Rightarrow> string \<Rightarrow> rat" where
  "count_in cs k = LDGetNumber (LDObjectLookup (LDObjectLookup cs k) ''count'')"

definition count_at :: "json \<Rightarrow> string \<Rightarrow> string \<Rightarrow> rat" where
  "count_at all f k = count_in (LDObjectLookup (LDObjectLookup (Some all) f) ''counters'') k"

text \<open>The counter itself, and what one more event makes of it.\<close>

definition entry_at :: "json \<Rightarrow> string \<Rightarrow> string \<Rightarrow> json option" where
  "entry_at all f k = LDObjectLookup (LDObjectLookup (LDObjectLookup (Some all) f) ''counters'') k"

definition bumped :: "json \<Rightarrow> bool \<Rightarrow> json option \<Rightarrow> json" where
  "bumped event unknown c = (case c of
       None \<Rightarrow> new_counter event unknown
     | Some c \<Rightarrow>
         write_member ''count'' (JNumber (to_double (LDGetNumber (LDObjectLookup (Some c) ''count'') + 1))) c)"

lemma LDGetNumber_None [simp]: "LDGetNumber None = 0"
  by (simp add: LDGetNumber_def)

lemma copy_member_laws:
  "is_object e \<Longrightarrow> is_object (copy_member k p e)"
  "is_object e \<Longrightarrow> k' \<noteq> k \<Longrightarrow> LDObjectLookup (Some (copy_member k p e)) k' = LDObjectLookup (Some e) k'"
  by (auto simp: copy_member_def obj_laws split: option.split)

lemma is_object_empty [simp]: "is_object (JObject [])"
  by (simp add: is_object_def)

lemma new_counter_wf:
  "is_object (new_counter event unknown)"
  "LDObjectLookup (Some (new_counter event unknown)) ''count'' = Some (JNumber 1)"
proof -
  have "is_object (JObject [(''count'', JNumber 1)])" by (simp add: is_object_def)
  then show "is_object (new_counter event unknown)"
    and "LDObjectLookup (Some (new_counter event unknown)) ''count'' = Some (JNumber 1)"
    by (simp_all add: new_counter_def Let_def copy_member_laws obj_laws)
qed

lemma new_flag_context_wf:
  "context_wf (new_flag_context event)"
  "LDObjectLookup (Some (new_flag_context event)) ''counters'' = Some (JObject [])"
  by (simp_all add: context_wf_def new_flag_context_def copy_member_laws obj_laws counters_wf_def)

lemma count_event_wf:
  assumes "counters_wf cs"
  shows "\<exists>cs'. count_event cs k event unknown = Inr cs' \<and> counters_wf cs' \<and>
    (\<forall>k'. count_in (Some cs') k' =
       (if k' = k then to_double (count_in (Some cs) k + 1) else count_in (Some cs) k')) \<and>
    (\<forall>k'. LDObjectLookup (Some cs') k' =
       (if k' = k then Some (bumped event unknown (LDObjectLookup (Some cs) k))
        else LDObjectLookup (Some cs) k'))"
proof (cases "LDObjectLookup (Some cs) k")
  case None
  have "to_double 1 = 1" using to_double_int [of 1] by simp
  with None assms new_counter_wf show ?thesis
    by (auto simp: count_event_def counters_wf_def obj_laws count_in_def bumped_def)
next
  case (Some e)
  with assms obtain x where e: "is_object e" "LDObjectLookup (Some e) ''count'' = Some (JNumber x)"
    by (auto simp: counters_wf_def json_opt_type)
  have obj: "is_object cs" using assms by (simp add: counters_wf_def)
  with Some e assms show ?thesis
    by (auto simp: count_event_def LDSetNumber_def counters_wf_def write_member_laws count_in_def bumped_def)
qed

definition event_wf :: "json \<Rightarrow> bool" where
  "event_wf e \<longleftrightarrow> LDJSONGetType (LDObjectLookup (Some e) ''key'') = LDText \<and>
     LDJSONGetType (LDObjectLookup (Some e) ''variation'') \<in> {LDNull, LDNumber} \<and>
     LDJSONGetType (LDObjectLookup (Some e) ''version'') \<in> {LDNull, LDNumber}"

definition event_flag :: "json \<Rightarrow> string" where
  "event_flag e = the (LDGetText (LDObjectLookup (Some e) ''key''))"

definition event_counter :: "env \<Rightarrow> json \<Rightarrow> string" where
  "event_counter E e = projr (LDi_makeSummaryKey E e)"

lemma event_wf_keys:
  assumes "event_wf e"
  shows "LDGetText (LDObjectLookup (Some e) ''key'') = Some (event_flag e)"
    and "LDi_makeSummaryKey E e = Inr (event_counter E e)"
proof -
  show "LDGetText (LDObjectLookup (Some e) ''key'') = Some (event_flag e)"
    using assms by (auto simp: event_wf_def event_flag_def json_opt_type)
  have "\<exists>t. LDi_makeSummaryKey E e = Inr t"
    using assms unfolding event_wf_def LDi_makeSummaryKey_def Let_def
    by (cases "LDObjectLookup (Some e) ''variation''"; cases "LDObjectLookup (Some e) ''version''") auto
  then show "LDi_makeSummaryKey E e = Inr (event_counter E e)" by (auto simp: event_counter_def)
qed

text \<open>One more on exactly one counter.\<close>

lemma summarize_wf:
  assumes wf: "summary_wf (summaryCounters ctx)" and e: "event_wf e"
  shows "\<exists>all start. LDi_summarizeEvent E ctx e unknown now =
      Inr (True, ctx\<lparr>summaryStart := start, summaryCounters := all\<rparr>) \<and> summary_wf all \<and>
    (\<forall>f k. count_at all f k =
       (if f = event_flag e \<and> k = event_counter E e
        then to_double (count_at (summaryCounters ctx) f k + 1)
        else count_at (summaryCounters ctx) f k) \<and>
     entry_at all f k =
       (if f = event_flag e \<and> k = event_counter E e
        then Some (bumped e unknown (entry_at (summaryCounters ctx) f k))
        else entry_at (summaryCounters ctx) f k))"
proof -
  let ?old = "summaryCounters ctx" and ?f = "event_flag e" and ?k = "event_counter E e"
  define all1 where "all1 = (case LDObjectLookup (Some ?old) ?f of
      Some _ \<Rightarrow> ?old | None \<Rightarrow> set_key ?f (new_flag_context e) ?old)"
  have wf1: "summary_wf all1"
    using wf new_flag_context_wf(1) [of e]
    by (auto simp: all1_def summary_wf_def obj_laws split: option.split)
  have c1: "count_at all1 f k = count_at ?old f k" for f k
    using wf new_flag_context_wf(2) [of e]
    by (auto simp: all1_def count_at_def count_in_def summary_wf_def obj_laws split: option.split)
  have e1: "entry_at all1 f k = entry_at ?old f k" for f k
    using wf new_flag_context_wf(2) [of e]
    by (auto simp: all1_def entry_at_def summary_wf_def obj_laws split: option.split)
  have "LDObjectLookup (Some all1) ?f \<noteq> None"
    using wf by (auto simp: all1_def summary_wf_def obj_laws split: option.split)
  then obtain fc where fc: "LDObjectLookup (Some all1) ?f = Some fc" by auto
  then obtain cs where cs: "is_object fc" "LDObjectLookup (Some fc) ''counters'' = Some cs" "counters_wf cs"
    using wf1 by (auto simp: summary_wf_def context_wf_def)
  obtain cs' where cs': "count_event cs ?k e unknown = Inr cs'" "counters_wf cs'"
    "\<And>k. count_in (Some cs') k =
       (if k = ?k then to_double (count_in (Some cs) ?k + 1) else count_in (Some cs) k)"
    "\<And>k. LDObjectLookup (Some cs') k =
       (if k = ?k then Some (bumped e unknown (LDObjectLookup (Some cs) ?k)) else LDObjectLookup (Some cs) k)"
    using count_event_wf [OF cs(3), of ?k e unknown] by blast
  define fc' where "fc' = write_member ''counters'' cs' fc"
  define all2 where "all2 = write_member ?f fc' all1"
  have obj1: "is_object all1" using wf1 by (simp add: summary_wf_def)
  have fc': "is_object fc'" "LDObjectLookup (Some fc') ''counters'' = Some cs'"
    using cs by (simp_all add: fc'_def write_member_laws)
  have wf2: "summary_wf all2"
    using wf1 obj1 fc fc' cs'(2)
    by (auto simp: summary_wf_def all2_def write_member_laws context_wf_def)
  have "count_at all2 f k = (if f = ?f \<and> k = ?k then to_double (count_at all1 f k + 1)
      else count_at all1 f k)" for f k
    using obj1 fc fc' cs(2) cs'(3) by (simp add: count_at_def all2_def write_member_laws)
  then have cnt: "count_at all2 f k = (if f = ?f \<and> k = ?k then to_double (count_at ?old f k + 1)
      else count_at ?old f k)" for f k
    by (simp only: c1)
  have "entry_at all2 f k = (if f = ?f \<and> k = ?k then Some (bumped e unknown (entry_at all1 f k))
      else entry_at all1 f k)" for f k
    using obj1 fc fc' cs(2) cs'(4) by (simp add: entry_at_def all2_def write_member_laws)
  then have ent: "entry_at all2 f k = (if f = ?f \<and> k = ?k then Some (bumped e unknown (entry_at ?old f k))
      else entry_at ?old f k)" for f k
    by (simp only: e1)
  have "json_type cs = LDObject" using cs(3) by (auto simp: counters_wf_def is_object_iff)
  then have "LDi_summarizeEvent E ctx e unknown now =
      Inr (True, ctx\<lparr>summaryStart := if summaryStart ctx = 0 then now else summaryStart ctx,
        summaryCounters := all2\<rparr>)"
    unfolding LDi_summarizeEvent_def event_wf_keys(1) [OF e] event_wf_keys(2) [OF e]
    using fc cs cs'(1) by (simp add: Let_def all1_def [symmetric] all2_def fc'_def)
  with wf2 cnt ent show ?thesis by blast
qed

lemma summarize_all_counts:
  assumes "summary_wf (summaryCounters ctx)" and "\<forall>e \<in> set es. event_wf e"
    and "\<forall>f k. count_at (summaryCounters ctx) f k = of_nat (n f k) \<and> n f k + length es < 2 ^ 53"
  shows "\<exists>all start. summarize_all E ctx es now =
      Inr (True, ctx\<lparr>summaryStart := start, summaryCounters := all\<rparr>) \<and> summary_wf all \<and>
    (\<forall>f k. count_at all f k =
       of_nat (n f k + length (filter (\<lambda>e. event_flag e = f \<and> event_counter E e = k) es)))"
  using assms
proof (induction es arbitrary: ctx n)
  case Nil
  then show ?case by (intro exI [of _ "summaryCounters ctx"] exI [of _ "summaryStart ctx"]) simp
next
  case (Cons e es)
  obtain all start where s: "LDi_summarizeEvent E ctx e False now =
      Inr (True, ctx\<lparr>summaryStart := start, summaryCounters := all\<rparr>)" "summary_wf all"
    "\<forall>f k. count_at all f k =
       (if f = event_flag e \<and> k = event_counter E e
        then to_double (count_at (summaryCounters ctx) f k + 1)
        else count_at (summaryCounters ctx) f k)"
    using summarize_wf [OF Cons.prems(1), of e E False now] Cons.prems(2) by auto
  define n' where "n' = (\<lambda>f k. if f = event_flag e \<and> k = event_counter E e then n f k + 1 else n f k)"
  have n: "count_at all f k = of_nat (n' f k) \<and> n' f k + length es < 2 ^ 53" for f k
  proof -
    have old: "count_at (summaryCounters ctx) f k = of_nat (n f k)" "n f k + Suc (length es) < 2 ^ 53"
      using Cons.prems(3) by simp_all
    have "to_double (of_nat (n f k) + 1) = of_nat (n f k + 1)"
      using to_double_int [of "int (n f k + 1)"] old(2) by (simp add: ac_simps)
    with old have "(if b then to_double (count_at (summaryCounters ctx) f k + 1)
        else count_at (summaryCounters ctx) f k) = of_nat (if b then n f k + 1 else n f k)" for b
      by simp
    moreover have "n' f k \<le> n f k + 1" by (simp add: n'_def)
    ultimately show ?thesis using s(3) old(2) by (simp add: n'_def)
  qed
  let ?ctx = "ctx\<lparr>summaryStart := start, summaryCounters := all\<rparr>"
  have "summary_wf (summaryCounters ?ctx)" using s(2) by simp
  from Cons.IH [OF this, of n'] n Cons.prems(2) obtain all' start' where
    "summarize_all E ?ctx es now = Inr (True, ?ctx\<lparr>summaryStart := start', summaryCounters := all'\<rparr>)"
    "summary_wf all'" "\<forall>f k. count_at all' f k =
       of_nat (n' f k + length (filter (\<lambda>e. event_flag e = f \<and> event_counter E e = k) es))"
    by auto
  with s(1) show ?case by (intro exI [of _ all'] exI [of _ start']) (auto simp: n'_def)
qed

text \<open>
  The label of an event or a counter: its variation and version, where it has them. The
  text of a label is what a summary key is meant to be.
\<close>

definition member_number :: "json \<Rightarrow> string \<Rightarrow> rat option" where
  "member_number j k = (case LDObjectLookup (Some j) k of Some (JNumber x) \<Rightarrow> Some x | _ \<Rightarrow> None)"

definition label_of :: "json \<Rightarrow> rat option \<times> rat option" where
  "label_of j = (member_number j ''variation'', member_number j ''version'')"

definition label_doc :: "rat option \<times> rat option \<Rightarrow> json" where
  "label_doc l = JObject (
     (case fst l of None \<Rightarrow> [] | Some x \<Rightarrow> [(''variation'', JNumber x)]) @
     (case snd l of None \<Rightarrow> [] | Some x \<Rightarrow> [(''version'', JNumber x)]))"

lemma null_or_number:
  "LDJSONGetType p \<in> {LDNull, LDNumber} \<Longrightarrow> p = None \<or> p = Some JNull \<or> (\<exists>x. p = Some (JNumber x))"
  by (cases p; cases "the p") auto

lemma event_counter_label:
  assumes "event_wf e"
  shows "event_counter E e = env_serialize E (label_doc (label_of e))"
proof -
  note var = null_or_number [of "LDObjectLookup (Some e) ''variation''"]
    and ver = null_or_number [of "LDObjectLookup (Some e) ''version''"]
  from assms show ?thesis
    unfolding event_wf_def event_counter_def LDi_makeSummaryKey_def
    by (elim conjE) (drule var, drule ver, elim disjE exE,
      simp_all add: label_doc_def label_of_def member_number_def copy_member_def)
qed

lemma copy_member_lookup:
  "is_object c \<Longrightarrow> LDObjectLookup (Some (copy_member k p c)) k' =
     (if k' = k \<and> p \<noteq> None \<and> p \<noteq> Some JNull then p else LDObjectLookup (Some c) k')"
  by (cases p) (auto simp: copy_member_def obj_laws)

lemma new_counter_label: "label_of (new_counter e unknown) = label_of e"
proof -
  let ?c0 = "JObject [(''count'', JNumber 1)]"
  define c1 where "c1 = copy_member ''value'' (LDObjectLookup (Some e) ''value'') ?c0"
  define c2 where "c2 = copy_member ''version'' (LDObjectLookup (Some e) ''version'') c1"
  define c3 where "c3 = copy_member ''variation'' (LDObjectLookup (Some e) ''variation'') c2"
  have 0: "is_object ?c0" by (simp add: is_object_def)
  then have obj: "is_object c1" "is_object c2" "is_object c3"
    by (simp_all add: c1_def c2_def c3_def copy_member_laws)
  have c: "new_counter e unknown = (if unknown then set_key ''unknown'' (JBool True) c3 else c3)"
    by (simp add: new_counter_def Let_def c1_def c2_def c3_def)
  have "LDObjectLookup (Some (new_counter e unknown)) k = LDObjectLookup (Some c3) k" if "k \<noteq> ''unknown''" for k
    using that obj by (simp add: c obj_laws)
  then have "label_of (new_counter e unknown) = label_of c3" by (simp add: label_of_def member_number_def)
  also have "\<dots> = label_of e"
    using obj 0 copy_member_lookup [OF 0]
    by (auto simp: label_of_def member_number_def c3_def c2_def copy_member_lookup)
       (auto simp: c1_def copy_member_lookup)
  finally show ?thesis .
qed

lemma bumped_label:
  "(\<And>c'. c = Some c' \<Longrightarrow> is_object c' \<and> label_of c' = l) \<Longrightarrow> (c = None \<Longrightarrow> label_of e = l) \<Longrightarrow>
   label_of (bumped e unknown c) = l"
  by (cases c) (auto simp: bumped_def new_counter_label, auto simp: label_of_def member_number_def write_member_laws)

text \<open>Every counter stands under the text of its own label.\<close>

definition labelled :: "env \<Rightarrow> (rat option \<times> rat option) set \<Rightarrow> json \<Rightarrow> bool" where
  "labelled E D all \<longleftrightarrow> (\<forall>f k c. entry_at all f k = Some c \<longrightarrow>
     label_of c \<in> D \<and> k = env_serialize E (label_doc (label_of c)))"

lemma entry_is_object: "summary_wf all \<Longrightarrow> entry_at all f k = Some c \<Longrightarrow> is_object c"
  unfolding entry_at_def summary_wf_def context_wf_def counters_wf_def
  by (cases "LDObjectLookup (Some all) f") (auto, metis option.inject)

lemma summarize_all_entries:
  assumes "summary_wf (summaryCounters ctx)" and "labelled E D (summaryCounters ctx)"
    and "inj_on (\<lambda>l. env_serialize E (label_doc l)) D"
    and "\<forall>e \<in> set es. event_wf e \<and> label_of e \<in> D"
    and "summarize_all E ctx es now = Inr (True, ctx')"
  shows "summary_wf (summaryCounters ctx') \<and> labelled E D (summaryCounters ctx') \<and>
    (\<forall>f k. entry_at (summaryCounters ctx') f k = None \<longleftrightarrow> entry_at (summaryCounters ctx) f k = None \<and>
       (\<forall>e \<in> set es. \<not> (event_flag e = f \<and> event_counter E e = k)))"
  using assms
proof (induction es arbitrary: ctx)
  case (Cons e es)
  let ?old = "summaryCounters ctx"
  have e: "event_wf e" "label_of e \<in> D" using Cons.prems(4) by simp_all
  obtain all start where s: "LDi_summarizeEvent E ctx e False now =
      Inr (True, ctx\<lparr>summaryStart := start, summaryCounters := all\<rparr>)" "summary_wf all"
    "\<And>f k. entry_at all f k = (if f = event_flag e \<and> k = event_counter E e
        then Some (bumped e False (entry_at ?old f k)) else entry_at ?old f k)"
    using summarize_wf [OF Cons.prems(1) e(1), of E False now] by blast
  have own: "label_of (bumped e False (entry_at ?old f (event_counter E e))) = label_of e" for f
  proof (rule bumped_label)
    fix c assume c: "entry_at ?old f (event_counter E e) = Some c"
    then have "label_of c \<in> D" "event_counter E e = env_serialize E (label_doc (label_of c))"
      using Cons.prems(2) by (simp_all add: labelled_def)
    then have "label_of c = label_of e"
      using Cons.prems(3) e(2) by (auto simp: event_counter_label [OF e(1)] inj_on_def)
    with entry_is_object [OF Cons.prems(1) c] show "is_object c \<and> label_of c = label_of e" by simp
  qed simp
  have l: "labelled E D all"
    using Cons.prems(2) e own by (auto simp: labelled_def s(3) event_counter_label)
  let ?ctx = "ctx\<lparr>summaryStart := start, summaryCounters := all\<rparr>"
  have "summarize_all E ?ctx es now = Inr (True, ctx')" using Cons.prems(5) s(1) by simp
  then show ?case using Cons.IH [of ?ctx] l s(2) Cons.prems(3,4) s(3) by (auto split: if_splits)
qed (auto simp: labelled_def)

lemma filter_one_key:
  "unique_keys ps \<Longrightarrow> (\<And>k c. map_of ps k = Some c \<Longrightarrow> P c \<longleftrightarrow> k = t) \<Longrightarrow>
   filter P (map snd ps) = (case map_of ps t of None \<Rightarrow> [] | Some c \<Rightarrow> [c])"
proof (induction ps)
  case (Cons p ps)
  obtain k c where p: "p = (k, c)" by (cases p)
  have k: "map_of ps k = None" using Cons.prems(1) by (auto simp: p map_of_eq_None_iff)
  have "filter P (map snd ps) = (case map_of ps t of None \<Rightarrow> [] | Some c \<Rightarrow> [c])"
  proof (rule Cons.IH)
    show "P c' \<longleftrightarrow> k' = t" if "map_of ps k' = Some c'" for k' c'
      using that k Cons.prems(2) [of k' c'] by (cases "k' = k") (auto simp: p)
  qed (use Cons.prems(1) in \<open>simp add: p\<close>)
  with Cons.prems(2) [of k c] k show ?case by (auto simp: p)
qed simp

text \<open>The counters of a flag, as the summary event lists them.\<close>

definition flag_counters :: "json \<Rightarrow> string \<Rightarrow> json list" where
  "flag_counters all f = iter_values (LDObjectLookup (LDObjectLookup (Some all) f) ''counters'')"

lemma labelled_counters:
  assumes "summary_wf all" and "labelled E D all" and "inj_on (\<lambda>l. env_serialize E (label_doc l)) D"
  shows "filter (\<lambda>c. label_of c = l) (flag_counters all f) =
    (if l \<in> D then case entry_at all f (env_serialize E (label_doc l)) of None \<Rightarrow> [] | Some c \<Rightarrow> [c] else [])"
proof (cases "LDObjectLookup (Some all) f")
  case (Some fc)
  then obtain cs where cs: "LDObjectLookup (Some fc) ''counters'' = Some cs" "counters_wf cs"
    using assms(1) by (auto simp: summary_wf_def context_wf_def)
  then obtain ps where ps: "cs = JObject ps" "unique_keys ps" by (auto simp: counters_wf_def is_object_iff)
  have ent: "entry_at all f k = map_of ps k" for k
    unfolding entry_at_def Some cs(1) ps(1) by (simp add: LDObjectLookup_def)
  have fl: "flag_counters all f = map snd ps" by (simp add: flag_counters_def Some cs(1) ps(1))
  have lab: "label_of c \<in> D \<and> k = env_serialize E (label_doc (label_of c))" if "map_of ps k = Some c" for k c
    using that assms(2) ent [of k] unfolding labelled_def by metis
  show ?thesis
  proof (cases "l \<in> D")
    case True
    have "label_of c = l \<longleftrightarrow> k = env_serialize E (label_doc l)" if "map_of ps k = Some c" for k c
      using lab [OF that] True assms(3) by (auto simp: inj_on_def)
    from filter_one_key [OF ps(2) this] show ?thesis by (simp add: fl ent True)
  next
    case False
    have "\<forall>(k, c) \<in> set ps. label_of c \<noteq> l"
      using False lab map_of_is_SomeI [OF ps(2)] by blast
    then show ?thesis using False by (auto simp: fl filter_empty_conv)
  qed
qed (simp add: flag_counters_def entry_at_def)

text \<open>
  Summarising events on a processor without counters, with a printer that tells labels apart:
  each flag has one counter for each label among its events, with the number of them.
\<close>

lemma summary_counts:
  assumes "summaryCounters ctx = JObject []" and "\<forall>e \<in> set es. event_wf e \<and> label_of e \<in> D"
    and "length es < 2 ^ 53" and "inj_on (\<lambda>l. env_serialize E (label_doc l)) D"
  shows "\<exists>ctx'. summarize_all E ctx es now = Inr (True, ctx') \<and>
    (\<forall>f l. map (\<lambda>c. LDGetNumber (LDObjectLookup (Some c) ''count''))
        (filter (\<lambda>c. label_of c = l) (flag_counters (summaryCounters ctx') f)) =
      (let n = length (filter (\<lambda>e. event_flag e = f \<and> label_of e = l) es)
       in if n = 0 then [] else [of_nat n])) \<and>
    events ctx' = events ctx \<and> userKeys ctx' = userKeys ctx"
proof -
  have wf: "summary_wf (summaryCounters ctx)" "labelled E D (summaryCounters ctx)"
    using assms(1) by (simp_all add: summary_wf_def labelled_def entry_at_def)
  have "\<forall>f k. count_at (summaryCounters ctx) f k = of_nat 0 \<and> 0 + length es < 2 ^ 53"
    using assms(1,3) by (simp add: count_at_def count_in_def)
  from summarize_all_counts [OF wf(1) _ this, of E now] assms(2) obtain all start where
    r: "summarize_all E ctx es now = Inr (True, ctx\<lparr>summaryStart := start, summaryCounters := all\<rparr>)"
    and cnt: "\<And>f k. count_at all f k =
       of_nat (length (filter (\<lambda>e. event_flag e = f \<and> event_counter E e = k) es))"
    by auto
  from summarize_all_entries [OF wf assms(4,2) r] have all: "summary_wf all" "labelled E D all"
    "\<And>f k. entry_at all f k = None \<longleftrightarrow> (\<forall>e \<in> set es. \<not> (event_flag e = f \<and> event_counter E e = k))"
    using assms(1) by (simp_all add: entry_at_def)
  have "map (\<lambda>c. LDGetNumber (LDObjectLookup (Some c) ''count''))
        (filter (\<lambda>c. label_of c = l) (flag_counters all f)) =
      (let n = length (filter (\<lambda>e. event_flag e = f \<and> label_of e = l) es)
       in if n = 0 then [] else [of_nat n])" for f l
  proof (cases "l \<in> D")
    case True
    let ?k = "env_serialize E (label_doc l)"
    have "event_counter E e = ?k \<longleftrightarrow> label_of e = l" if "e \<in> set es" for e
      using that True assms(2,4) by (auto simp: event_counter_label inj_on_def)
    then have n: "filter (\<lambda>e. event_flag e = f \<and> event_counter E e = ?k) es =
        filter (\<lambda>e. event_flag e = f \<and> label_of e = l) es"
      by (auto intro: filter_cong)
    have none: "entry_at all f ?k = None \<longleftrightarrow> filter (\<lambda>e. event_flag e = f \<and> label_of e = l) es = []"
      unfolding all(3) n [symmetric] by (auto simp: filter_empty_conv)
    have "LDGetNumber (LDObjectLookup (entry_at all f ?k) ''count'') =
        of_nat (length (filter (\<lambda>e. event_flag e = f \<and> label_of e = l) es))"
      using cnt [of f ?k] unfolding n by (simp add: count_at_def count_in_def entry_at_def)
    then show ?thesis
      using none True by (auto simp: labelled_counters [OF all(1,2) assms(4)] split: option.split)
  next
    case False
    then have "filter (\<lambda>e. event_flag e = f \<and> label_of e = l) es = []"
      using assms(2) by (auto simp: filter_empty_conv)
    with False show ?thesis by (simp add: labelled_counters [OF all(1,2) assms(4)])
  qed
  with r show ?thesis by (intro exI [of _ "ctx\<lparr>summaryStart := start, summaryCounters := all\<rparr>"]) simp
qed

text \<open>The events of evaluations are well formed, whatever the flag is.\<close>

definition feature_event :: "string \<Rightarrow> json \<Rightarrow> bool" where
  "feature_event key e \<longleftrightarrow> is_object e \<and> event_wf e \<and> event_flag e = key"

lemma feature_event_set:
  "feature_event key e \<Longrightarrow> k \<notin> {''key'', ''variation'', ''version''} \<Longrightarrow> feature_event key (set_key k v e)"
  by (auto simp: feature_event_def event_wf_def event_flag_def obj_laws)

lemma feature_event_copy:
  "feature_event key e \<Longrightarrow> k \<notin> {''key'', ''variation'', ''version''} \<Longrightarrow> feature_event key (copy_member k p e)"
  by (simp add: copy_member_def feature_event_set split: option.split)

lemma feature_event_members:
  assumes "feature_event key e" and "flag_members flag e = Some (e', b)"
  shows "feature_event key e'"
proof (cases flag)
  case (Some f)
  then obtain e1 e2 where e: "copy_number ''version'' f e = Some e1"
    "copy_number ''debugEventsUntilDate'' f e1 = Some e2" "e' = e2"
    using assms(2) by (auto simp: flag_members_def Let_def split: bind_splits if_splits)
  have "feature_event key e1"
    using assms(1) e(1)
    by (auto simp: copy_number_def copy_member_def Let_def feature_event_def event_wf_def event_flag_def
        obj_laws split: option.splits if_splits)
  then show ?thesis
    using e(2,3) by (auto simp: copy_number_def Let_def feature_event_copy split: if_splits)
qed (use assms in \<open>simp add: flag_members_def\<close>)

lemma user_info_lookup:
  assumes "LDi_addUserInfoToEvent p (LDi_newBaseEvent kind now) user = Inr e"
  shows "is_object e \<and> LDObjectLookup (Some e) ''variation'' = None \<and>
    LDObjectLookup (Some e) ''version'' = None"
  using assms
  by (auto simp: LDi_addUserInfoToEvent_def LDi_newBaseEvent_def run_simps is_object_def split: if_splits)

lemma feature_event_wf:
  assumes "LDi_newFeatureRequestEvent p key user var val dflt pre flag d now = Inr (Some e)"
  shows "feature_event key e"
proof -
  obtain e0 where e0: "LDi_addUserInfoToEvent p (LDi_newBaseEvent ''feature'' now) user = Inr e0"
    using assms by (auto simp: LDi_newFeatureRequestEvent_def run_simps)
  let ?e1 = "set_key ''key'' (JText key) e0"
  let ?e2 = "case var of None \<Rightarrow> ?e1 | Some v \<Rightarrow> set_key ''variation'' (JNumber (uint_to_double v)) ?e1"
  let ?e3 = "case val of None \<Rightarrow> ?e2 | Some v \<Rightarrow> set_key ''value'' v ?e2"
  let ?e4 = "case dflt of None \<Rightarrow> ?e3 | Some v \<Rightarrow> set_key ''default'' v ?e3"
  let ?e5 = "case pre of None \<Rightarrow> ?e4 | Some q \<Rightarrow> set_key ''prereqOf'' (JText q) ?e4"
  have "feature_event key ?e2"
    using user_info_lookup [OF e0]
    by (simp add: feature_event_def event_wf_def event_flag_def obj_laws split: option.split)
  then have e5: "feature_event key ?e5"
    by (simp add: feature_event_set split: option.split)
  obtain e6 b where e6: "flag_members flag ?e5 = Some (e6, b)"
    using assms unfolding LDi_newFeatureRequestEvent_def e0
    by (cases "flag_members flag ?e5") (auto simp: Let_def)
  have "feature_event key e6" by (rule feature_event_members [OF e5 e6])
  moreover obtain rj t where
    "e = (let event7 = set_key ''reason'' rj e6;
              event8 = (if b \<or> t then set_key ''trackEvents'' (JBool True) event7 else event7);
              event9 = (if t then set_key ''shouldAlwaysTrackDetails'' (JBool True) event8 else event8)
          in if anonymous user then set_key ''contextKind'' (JText ''anonymousUser'') event9 else event9)"
    using assms unfolding LDi_newFeatureRequestEvent_def e0 Let_def
    by (simp add: e6 [unfolded Let_def] run_simps split: option.splits) blast
  ultimately show ?thesis by (simp add: Let_def feature_event_set)
qed

section \<open>The invariant\<close>

definition ep_inv :: "'b EventProcessor \<Rightarrow> bool" where
  "ep_inv ctx \<longleftrightarrow> queue_ok ctx \<and> summary_wf (summaryCounters ctx) \<and> lru_inv (userKeys ctx)"

text \<open>
  \<open>on_return m P\<close>: if \<open>m\<close> returns, its result satisfies \<open>P\<close>; with the rules below the
  proof that an operation keeps the invariant follows the text of the operation.
\<close>

definition on_return :: "'a run \<Rightarrow> ('a \<Rightarrow> bool) \<Rightarrow> bool" where
  "on_return m P \<longleftrightarrow> (\<forall>x. m = Inr x \<longrightarrow> P x)"

definition kept :: "'b EventProcessor \<Rightarrow> 'b EventProcessor \<Rightarrow> bool" where
  "kept ctx ctx' \<longleftrightarrow> ep_config ctx' = ep_config ctx \<and>
     (ep_inv ctx \<longrightarrow> ep_inv ctx' \<and> capacity (userKeys ctx') = capacity (userKeys ctx))"

lemma on_return_Inr: "P x \<Longrightarrow> on_return (Inr x) P"
  and on_return_Inl: "on_return (Inl f) P"
  by (simp_all add: on_return_def)

lemma on_return_bind:
  "on_return m Q \<Longrightarrow> (\<And>x. Q x \<Longrightarrow> on_return (f x) P) \<Longrightarrow> on_return (run_bind m f) P"
  by (auto simp: on_return_def run_bind_Inr_iff)

lemma on_return_skip: "(\<And>x. on_return (f x) P) \<Longrightarrow> on_return (run_bind m f) P"
  by (auto simp: on_return_def run_bind_Inr_iff)

lemma kept_refl [simp]: "kept ctx ctx"
  by (simp add: kept_def)

lemma kept_trans: "kept a b \<Longrightarrow> kept b c \<Longrightarrow> kept a c"
  by (auto simp: kept_def)

lemma kept_then:
  "kept a b \<Longrightarrow> on_return m (\<lambda>x. kept b (g x)) \<Longrightarrow> on_return m (\<lambda>x. kept a (g x))"
  by (auto simp: on_return_def intro: kept_trans)

lemma summary_wf_empty [simp]: "summary_wf (JObject [])"
  by (simp add: summary_wf_def)

lemma addEvent_kept: "on_return (LDi_addEvent ctx e) (kept ctx)"
proof -
  have "kept ctx ctx'" if "LDi_addEvent ctx e = Inr ctx'" for ctx'
  proof (cases "queue_ok ctx")
    case True
    from addEvent_ok [OF this that] show ?thesis
      by (cases ctx; cases ctx') (auto simp: kept_def ep_inv_def)
  next
    case False
    then show ?thesis
      using that by (auto simp: kept_def ep_inv_def LDi_addEvent_def run_simps split: if_splits)
  qed
  then show ?thesis by (simp add: on_return_def)
qed

lemma possiblyQueue_kept: "on_return (LDi_possiblyQueueEvent ctx e now detailed) (kept ctx)"
  unfolding LDi_possiblyQueueEvent_def Let_def case_prod_beta
proof (rule on_return_bind [where Q = "kept ctx"], goal_cases)
  case 1
  show ?case by (simp add: addEvent_kept on_return_Inr)
next
  case (2 ctx1)
  show ?case by (intro kept_then [OF 2]) (simp add: addEvent_kept on_return_Inr)
qed

lemma maybeMakeIndexEvent_kept:
  "on_return (LDi_maybeMakeIndexEvent ctx user now) (\<lambda>r. kept ctx (snd (snd r)))"
proof -
  have ins: "on_return (LDLRUInsert True True lru k) (\<lambda>r. lru_inv lru \<longrightarrow>
      lru_inv (snd r) \<and> capacity (snd r) = capacity lru)" for lru k
  proof -
    have "lru_inv lru' \<and> capacity lru' = capacity lru"
      if "lru_inv lru" "LDLRUInsert True True lru k = Inr (s, lru')" for lru' s
      by (rule LDLRUInsert_cases [OF that(1), of True True k]) (use that in auto)
    then show ?thesis by (auto simp: on_return_def)
  qed
  let ?ctx = "if now > to_double (lastUserKeyFlush ctx +
                uint_to_double (userKeysFlushInterval (ep_config ctx)))
           then ctx\<lparr>userKeys := LDLRUClear (userKeys ctx), lastUserKeyFlush := now\<rparr> else ctx"
  have k: "kept ctx (?ctx\<lparr>userKeys := lru\<rparr>)" if "lru_inv (userKeys ?ctx) \<longrightarrow>
      lru_inv lru \<and> capacity lru = capacity (userKeys ?ctx)" for lru
    using that lru_inv_clear [of "userKeys ctx"]
    by (auto simp: LDLRUClear_def kept_def ep_inv_def queue_ok_def queue_def split: if_splits)
  show ?thesis
  proof (cases "inlineUsersInEvents (ep_config ctx)")
    case False
    show ?thesis
      unfolding LDi_maybeMakeIndexEvent_def Let_def if_not_P [OF False] case_prod_beta
    proof (rule on_return_bind [OF ins], goal_cases)
      case (1 r)
      from k [OF this] show ?case
        by (cases "fst r") (auto intro!: on_return_Inr on_return_skip)
    qed
  qed (simp add: LDi_maybeMakeIndexEvent_def on_return_Inr)
qed

lemma summarize_event_wf:
  "LDi_summarizeEvent E ctx e unknown now = Inr r \<Longrightarrow> event_wf e"
  unfolding LDi_summarizeEvent_def LDi_makeSummaryKey_def event_wf_def Let_def
  by (cases "LDObjectLookup (Some e) ''variation''"; cases "LDObjectLookup (Some e) ''version''")
    (auto simp: run_simps json_opt_type split: option.splits if_splits)

lemma summarize_kept:
  "on_return (LDi_summarizeEvent E ctx e unknown now) (\<lambda>r. kept ctx (snd r))"
proof -
  have "on_return (LDi_summarizeEvent E ctx e unknown now) (\<lambda>r. ep_config (snd r) = ep_config ctx)"
    unfolding LDi_summarizeEvent_def Let_def
    by (auto intro!: on_return_skip on_return_Inr on_return_Inl split: option.split)
  moreover have "ep_inv (snd r) \<and> capacity (userKeys (snd r)) = capacity (userKeys ctx)"
    if r: "LDi_summarizeEvent E ctx e unknown now = Inr r" and "ep_inv ctx" for r
    using summarize_wf [of ctx e E unknown now] summarize_event_wf [OF r] that
    by (auto simp: ep_inv_def queue_ok_def queue_def)
  ultimately show ?thesis by (auto simp: on_return_def kept_def)
qed

lemma summarize_all_kept: "on_return (summarize_all E ctx es now) (\<lambda>r. kept ctx (snd r))"
proof (induction es arbitrary: ctx)
  case (Cons e es)
  show ?case
    unfolding summarize_all.simps case_prod_beta
    by (rule on_return_bind [OF summarize_kept]) (auto intro: on_return_Inr kept_then [OF _ Cons])
qed (simp add: on_return_Inr)

lemma queue_all_kept: "on_return (queue_all ctx es now detailed) (kept ctx)"
proof (induction es arbitrary: ctx)
  case (Cons e es)
  show ?case
    unfolding queue_all.simps by (rule on_return_bind [OF possiblyQueue_kept]) (rule kept_then [OF _ Cons])
qed (simp add: on_return_Inr)

lemma queue_sub_events_kept:
  "on_return (queue_sub_events E ctx sub now detailed) (\<lambda>r. kept ctx (snd r))"
proof (cases sub)
  case (Some es)
  show ?thesis
    unfolding queue_sub_events_def Some option.case case_prod_beta
  proof (rule on_return_skip, rule on_return_bind [OF summarize_all_kept], goal_cases)
    case (1 u r)
    have "on_return (run_bind (queue_all (snd r) es' now detailed) (\<lambda>ctx2. Inr (True, ctx2)))
        (\<lambda>r. kept ctx (snd r))" for es'
      by (rule on_return_bind [OF kept_then [OF 1 queue_all_kept]]) (simp add: on_return_Inr)
    with 1 show ?case by (simp add: on_return_Inr)
  qed
qed (simp add: queue_sub_events_def on_return_Inr)

lemma kept_optional:
  "kept a ctx \<Longrightarrow> on_return (case ev of None \<Rightarrow> Inr ctx | Some e \<Rightarrow> LDi_addEvent ctx e) (kept a)"
  by (rule kept_then) (auto intro: on_return_Inr addEvent_kept split: option.split)

lemma processEvaluation_kept:
  "on_return (LDi_processEvaluation E ctx user sub key actual fallback flag d detailed now)
     (\<lambda>r. kept ctx (snd r))"
  unfolding LDi_processEvaluation_def Let_def case_prod_beta
proof (rule on_return_skip, goal_cases)
  case (1 event)
  show ?case
  proof (cases event)
    case (Some feature)
    show ?thesis unfolding Some option.case
    proof (rule on_return_bind [OF maybeMakeIndexEvent_kept], goal_cases)
      case (1 r1)
      have "on_return (if flag \<noteq> None then LDi_possiblyQueueEvent c feature now detailed else Inr c)
          (kept ctx)" if "kept ctx c" for c
        using that by (auto intro: on_return_Inr kept_then [OF _ possiblyQueue_kept])
      then show ?case
        using 1
        by (auto intro!: on_return_Inr on_return_bind [OF kept_then [OF 1 summarize_kept]]
            on_return_bind [OF kept_optional] on_return_bind [where Q = "kept ctx" and
              m = "if flag \<noteq> None then LDi_possiblyQueueEvent c feature now detailed else Inr c" for c]
            kept_then [OF _ queue_sub_events_kept] simp del: not_None_eq if_split split: if_split_asm)
    qed
  qed (simp add: on_return_Inr)
qed

lemma simple_events_kept:
  "on_return (LDi_identify ctx user now) (\<lambda>r. kept ctx (snd r))"
  "on_return (LDi_alias ctx user user' now) (\<lambda>r. kept ctx (snd r))"
  unfolding LDi_identify_def LDi_alias_def
  by (auto intro!: on_return_skip on_return_bind [OF addEvent_kept] on_return_Inr)

lemma track_kept:
  "on_return (LDi_track ctx user key data metric hasMetric now) (\<lambda>r. kept ctx (snd r))"
  unfolding LDi_track_def case_prod_beta
proof (rule on_return_bind [OF maybeMakeIndexEvent_kept], goal_cases)
  case (1 r)
  have "on_return (run_bind (LDi_addEvent (snd (snd r)) event) (\<lambda>ctx2.
      run_bind (case ev of None \<Rightarrow> Inr ctx2 | Some e \<Rightarrow> LDi_addEvent ctx2 e) (\<lambda>ctx3. Inr (True, ctx3))))
    (\<lambda>r. kept ctx (snd r))" for event ev
    by (rule on_return_bind [OF kept_then [OF 1 addEvent_kept]], rule on_return_bind [OF kept_optional])
      (assumption, simp add: on_return_Inr)
  with 1 show ?case by (auto intro: on_return_Inr on_return_skip)
qed

lemma bundle_kept:
  "on_return (LDi_bundleEventPayload ctx now) (\<lambda>r. kept ctx (snd (snd r)))"
  unfolding LDi_bundleEventPayload_def
proof (split if_split, intro conjI impI, goal_cases)
  case 2
  let ?empty = "\<lambda>c. c\<lparr>events := JArray []\<rparr>"
  show ?case
    by (rule on_return_bind [where Q = "\<lambda>c. kept ctx (?empty c)"])
      (auto intro!: on_return_skip on_return_Inr simp: kept_def ep_inv_def queue_ok_def queue_def)
qed (simp add: on_return_Inr)

text \<open>
  The states a client can bring the processor to: any sequence of the public operations, in
  any order and with any arguments and clock readings, from a new processor. Every operation
  runs under the processor's lock, so threads interleave whole operations.
\<close>

inductive ep_step :: "env \<Rightarrow> 'b EventProcessor \<Rightarrow> 'b EventProcessor \<Rightarrow> bool" for E where
  evaluation: "LDi_processEvaluation E ctx user sub key actual fallback flag d detailed now =
      Inr (ok, ctx') \<Longrightarrow> ep_step E ctx ctx'"
| identify: "LDi_identify ctx user now = Inr (ok, ctx') \<Longrightarrow> ep_step E ctx ctx'"
| track: "LDi_track ctx user key data metric hasMetric now = Inr (ok, ctx') \<Longrightarrow> ep_step E ctx ctx'"
| alias_users: "LDi_alias ctx user user' now = Inr (ok, ctx') \<Longrightarrow> ep_step E ctx ctx'"
| flush: "LDi_bundleEventPayload ctx now = Inr (ok, payload, ctx') \<Longrightarrow> ep_step E ctx ctx'"
| server_time: "ep_step E ctx (LDi_setServerTime ctx t)"

inductive ep_reachable :: "env \<Rightarrow> 'b LDConfig \<Rightarrow> 'b EventProcessor \<Rightarrow> bool" for E config where
  start: "ep_reachable E config (LDi_newEventProcessor config monotonic)"
| step: "ep_reachable E config ctx \<Longrightarrow> ep_step E ctx ctx' \<Longrightarrow> ep_reachable E config ctx'"

lemma ep_step_kept: "ep_step E ctx ctx' \<Longrightarrow> kept ctx ctx'"
proof (induction rule: ep_step.induct)
  case (evaluation ctx user sub key actual fallback flag d detailed now ok ctx')
  then show ?case using processEvaluation_kept unfolding on_return_def by fastforce
next
  case (identify ctx user now ok ctx')
  then show ?case using simple_events_kept(1) unfolding on_return_def by fastforce
next
  case (track ctx user key data metric hasMetric now ok ctx')
  then show ?case using track_kept unfolding on_return_def by fastforce
next
  case (alias_users ctx user user' now ok ctx')
  then show ?case using simple_events_kept(2) unfolding on_return_def by fastforce
next
  case (flush ctx now ok payload ctx')
  then show ?case using bundle_kept unfolding on_return_def by fastforce
next
  case (server_time ctx t)
  show ?case by (simp add: kept_def LDi_setServerTime_def ep_inv_def queue_ok_def queue_def)
qed

text \<open>
  C3: the invariant of the event processor. In every state reachable by any sequence of
  evaluations, identify, track, alias, flush and server-time calls, the queue is an array of at
  most \<open>eventsCapacity\<close> events, the user-key cache holds at most \<open>userKeysCapacity\<close> keys, none
  twice, every summary counter is an object with a numeric count, and the configuration is the
  one the processor was created with.
\<close>

theorem processor_invariant:
  assumes "ep_reachable E config ctx"
  shows "length (iter_values (Some (events ctx))) \<le> unat (eventsCapacity config) \<and>
    json_type (events ctx) = LDArray \<and>
    distinct (lru_list (userKeys ctx)) \<and>
    length (lru_list (userKeys ctx)) \<le> unat (userKeysCapacity config) \<and>
    summary_wf (summaryCounters ctx) \<and> ep_config ctx = config"
proof -
  from assms have "ep_inv ctx \<and> ep_config ctx = config \<and>
      capacity (userKeys ctx) = userKeysCapacity config"
  proof (induction rule: ep_reachable.induct)
    case (start monotonic)
    show ?case
      by (simp add: LDi_newEventProcessor_def ep_inv_def queue_ok_def queue_def lru_inv_init LDLRUInit_def
          lru_inv_init [unfolded LDLRUInit_def])
  next
    case (step ctx ctx')
    then show ?case using ep_step_kept by (fastforce simp: kept_def)
  qed
  then show ?thesis by (auto simp: ep_inv_def queue_ok_def queue_def lru_inv_def)
qed

section \<open>Flushing\<close>

lemma LDCollectionGetSize_zero:
  "length (LDGetIter (Some j)) < 2 ^ 32 \<Longrightarrow> LDCollectionGetSize (Some j) = 0 \<longleftrightarrow> LDGetIter (Some j) = []"
  by (simp add: LDCollectionGetSize_def word_eq_iff_unsigned unat_of_nat take_bit_eq_mod unat_eq_zero
      flip: unat_0_iff)

lemma summary_features_eq:
  assumes "\<forall>p \<in> set ps. context_wf (snd p)"
  shows "summary_features ps = Inr (map (\<lambda>(k, fc). (k, set_key ''counters''
    (JArray (iter_values (LDObjectLookup (Some fc) ''counters''))) (LDObjectDeleteKey fc ''counters''))) ps)"
  using assms
proof (induction ps)
  case (Cons p ps)
  then obtain k fc cs where "p = (k, fc)" "LDObjectLookup (Some fc) ''counters'' = Some cs" "is_object cs"
    by (cases p) (auto simp: context_wf_def counters_wf_def)
  with Cons show ?case
    by (auto simp: LDObjectDetachKey_eq LDi_objectToArray_def is_object_iff)
qed simp

text \<open>
  C16: a flush hands everything over and starts afresh. \<open>LDi_bundleEventPayload\<close> returns
  nothing when there is neither an event nor a counter; otherwise the payload is the queue in
  order, followed by exactly one summary event when there are counters. That event spans from
  the first summarised evaluation to now and lists for each flag the counters collected for it,
  other members of the flag's entry unchanged. The queue and the counters are empty
  afterwards and the summary's start is reset; the user-key cache is kept.
\<close>

theorem bundle_drains:
  assumes "queue_ok ctx" and "summary_wf (summaryCounters ctx)"
    and "length (LDGetIter (Some (summaryCounters ctx))) < 2 ^ 32"
  shows "\<exists>payload ctx'. LDi_bundleEventPayload ctx now = Inr (True, payload, ctx') \<and>
    events ctx' = JArray [] \<and> summaryCounters ctx' = JObject [] \<and> userKeys ctx' = userKeys ctx \<and>
    (summaryCounters ctx \<noteq> JObject [] \<longrightarrow> summaryStart ctx' = 0) \<and>
    (if queue ctx = [] \<and> summaryCounters ctx = JObject [] then payload = None
     else if summaryCounters ctx = JObject [] then payload = Some (JArray (queue ctx))
     else \<exists>s. payload = Some (JArray (queue ctx @ [s])) \<and>
       LDObjectLookup (Some s) ''kind'' = Some (JText ''summary'') \<and>
       LDObjectLookup (Some s) ''startDate'' = Some (JNumber (summaryStart ctx)) \<and>
       LDObjectLookup (Some s) ''endDate'' = Some (JNumber now) \<and>
       (\<forall>f fc. LDObjectLookup (Some (summaryCounters ctx)) f = Some fc \<longrightarrow>
         (\<exists>fc'. LDObjectLookup (LDObjectLookup (Some s) ''features'') f = Some fc' \<and>
           (\<forall>k. LDObjectLookup (Some fc') k = (if k = ''counters''
             then Some (JArray (iter_values (LDObjectLookup (Some fc) ''counters'')))
             else LDObjectLookup (Some fc) k)))))"
proof -
  from assms(1) obtain xs where xs: "events ctx = JArray xs" by (auto simp: queue_ok_def)
  from assms(2) obtain ps where ps: "summaryCounters ctx = JObject ps" "unique_keys ps"
    by (auto simp: summary_wf_def is_object_iff)
  have "length xs < 2 ^ 32"
    using assms(1) xs unsigned_less [of "eventsCapacity (ep_config ctx)", where ?'a = nat]
    by (simp add: queue_ok_def queue_def)
  then have sizes: "LDCollectionGetSize (Some (JArray xs)) = 0 \<longleftrightarrow> xs = []"
      "LDCollectionGetSize (Some (JObject ps)) = 0 \<longleftrightarrow> ps = []"
    using assms(3) ps(1) LDCollectionGetSize_zero [of "JArray xs"] LDCollectionGetSize_zero [of "JObject ps"]
    by (simp_all add: LDGetIter_def)
  have wf: "context_wf (snd p)" if "p \<in> set ps" for p
    using assms(2) that map_of_is_SomeI [OF ps(2), of "fst p" "snd p"] by (auto simp: summary_wf_def ps(1))
  define conv where "conv = (\<lambda>fc. set_key ''counters''
    (JArray (iter_values (LDObjectLookup (Some fc) ''counters''))) (LDObjectDeleteKey fc ''counters''))"
  define s where "s = JObject [(''kind'', JText ''summary''), (''startDate'', JNumber (summaryStart ctx)),
    (''endDate'', JNumber now), (''features'', JObject (map (\<lambda>(k, fc). (k, conv fc)) ps))]"
  have s: "LDi_prepareSummaryEvent ctx now = Inr s"
    using wf by (simp add: LDi_prepareSummaryEvent_def ps(1) summary_features_eq s_def conv_def)
  have conv: "LDObjectLookup (Some (conv fc)) k = (if k = ''counters''
      then Some (JArray (iter_values (LDObjectLookup (Some fc) ''counters''))) else LDObjectLookup (Some fc) k)"
    if "map_of ps f = Some fc" for f fc k
    using wf [OF map_of_SomeD [OF that]] by (simp add: conv_def context_wf_def obj_laws)
  have "map_of (map (\<lambda>(k, fc). (k, conv fc)) ps) f = map_option conv (map_of ps f)" for f
    by (induction ps) auto
  then show ?thesis
    using s conv
    by (auto simp: LDi_bundleEventPayload_def xs ps(1) sizes LDArrayPush_def queue_def s_def)
qed

section \<open>Concrete runs\<close>

text \<open>A processor with room for two events, and an evaluation event of a tracked flag.\<close>

definition small_config :: "unit LDConfig" where
  "small_config = (the (LDConfigNew (Some ''sdk'')))\<lparr>eventsCapacity := 2\<rparr>"

definition small_processor :: "unit EventProcessor" where
  "small_processor = LDi_newEventProcessor small_config 0"

definition tracked_event :: json where
  "tracked_event = JObject [(''kind'', JText ''feature''), (''key'', JText ''f''),
     (''variation'', JNumber 1), (''trackEvents'', JBool True), (''debugEventsUntilDate'', JNumber 99),
     (''reason'', JObject [(''kind'', JText ''FALLTHROUGH'')])]"

lemmas small_defs = small_processor_def small_config_def LDi_newEventProcessor_def LDConfigNew_def

lemma small_processor_ok:
  "queue_ok small_processor" "has_room small_processor" "queue small_processor = []"
  "summary_wf (summaryCounters small_processor)" "lru_inv (userKeys small_processor)"
  "is_object tracked_event"
  by (simp_all add: small_defs queue_ok_def has_room_def queue_def lru_inv_init is_object_def
      tracked_event_def)

theorem possiblyQueue_effect_witness:
  "LDi_possiblyQueueEvent small_processor tracked_event 7 False =
     Inr (small_processor\<lparr>events := JArray [JObject [(''kind'', JText ''feature''),
       (''key'', JText ''f''), (''variation'', JNumber 1)]]\<rparr>)"
proof -
  have "tracked tracked_event" "sent_form tracked_event False =
      JObject [(''kind'', JText ''feature''), (''key'', JText ''f''), (''variation'', JNumber 1)]"
    by (simp_all add: tracked_def sent_form_def keeps_reason_def drop_member_def tracked_event_def)
  then show ?thesis
    using possiblyQueue_effect [OF small_processor_ok(1,6), of 7 False]
    by (simp add: small_processor_ok)
qed

theorem index_event_once_witness:
  "\<exists>e ctx' ctx''. LDi_maybeMakeIndexEvent small_processor (LDi_userNew ''bob'') 7 = Inr (True, Some e, ctx') \<and>
     LDi_maybeMakeIndexEvent ctx' (LDi_userNew ''bob'') 8 = Inr (True, None, ctx'')"
proof -
  have wf: "user_wf (LDi_userNew ''bob'')" "names_wf (Some (JArray []))"
    by (simp_all add: user_wf_def names_wf_def LDi_userNew_def text_array_def)
  let ?bob = "LDi_userNew ''bob''"
  obtain u where u: "config_user_json small_processor ?bob = Inr u"
    using LDi_userToJSON_eq [OF wf, of False] by (simp add: config_user_json_def small_defs)
  have f: "to_double 300000 = 300000" using to_double_int [of 300000] by simp
  have s: "\<not> inlineUsersInEvents (ep_config small_processor)"
      "capacity (userKeys small_processor) \<noteq> 0" "lastUserKeyFlush small_processor = 0"
      "lru_list (userKeys small_processor) = []"
      "uint_to_double (userKeysFlushInterval (ep_config small_processor)) = 300000"
    by (simp_all add: small_defs LDLRUInit_def uint_to_double_def)
  have kept: "lastUserKeyFlush ctx' = 0 \<and> ep_config ctx' = ep_config small_processor"
    if "LDi_maybeMakeIndexEvent small_processor ?bob 7 = Inr (ok, e, ctx')" for ok e ctx'
    using that by (auto simp: LDi_maybeMakeIndexEvent_def Let_def s run_simps f
        split: LDLRUStatus.splits) (metis LDLRUStatus.exhaust)+
  from index_event_once [OF s(1,2) small_processor_ok(5) u refl, of 7] obtain e ctx' where
    r: "LDi_maybeMakeIndexEvent small_processor ?bob 7 = Inr (True, e, ctx')" "e \<noteq> None"
    and l: "\<And>later. later \<le> to_double (lastUserKeyFlush ctx' +
         uint_to_double (userKeysFlushInterval (ep_config ctx'))) \<Longrightarrow>
       \<exists>ctx''. LDi_maybeMakeIndexEvent ctx' ?bob later = Inr (True, None, ctx'')"
    by (auto simp: s)
  from r l [of 8] kept [OF r(1)] show ?thesis by (auto simp: s f)
qed

theorem processor_invariant_witness:
  "\<exists>ctx. LDi_alias small_processor (LDi_userNew ''a'') (LDi_userNew ''b'') 7 = Inr (True, ctx) \<and>
     length (iter_values (Some (events ctx))) \<le> 2 \<and> length (iter_values (Some (events ctx))) = 1"
proof -
  define ctx where "ctx = small_processor\<lparr>events := JArray
    [LDi_newAliasEvent (LDi_userNew ''a'') (LDi_userNew ''b'') 7]\<rparr>"
  have r: "LDi_alias small_processor (LDi_userNew ''a'') (LDi_userNew ''b'') 7 = Inr (True, ctx)"
    by (simp add: LDi_alias_def addEvent_eq small_processor_ok ctx_def)
  have "ep_reachable plain_env small_config ctx"
    unfolding small_processor_def
    by (rule ep_reachable.step [OF ep_reachable.start ep_step.alias_users])
      (use r in \<open>simp add: small_processor_def\<close>)
  from processor_invariant [OF this] r show ?thesis
    by (intro exI [of _ ctx]) (simp add: small_config_def ctx_def)
qed

theorem bundle_drains_witness:
  "\<exists>ctx'. LDi_bundleEventPayload (small_processor\<lparr>events := JArray [tracked_event]\<rparr>) 7 =
     Inr (True, Some (JArray [tracked_event]), ctx') \<and> events ctx' = JArray []"
  using bundle_drains [of "small_processor\<lparr>events := JArray [tracked_event]\<rparr>" 7]
  by (simp add: small_defs queue_ok_def queue_def LDGetIter_def) blast

end
