(* ===== verification/LD_Evaluate_Laws.thy ===== *)
theory LD_Evaluate_Laws
  imports LD_Evaluate LD_Events_Laws
begin

text \<open>
  Correctness of evaluation. The first part states what the data of the service looks like
  (\<open>flag_ok\<close>, \<open>segment_ok\<close>, prerequisites without a cycle) and shows that on such data
  evaluation always returns, with fuel one above the depth of the prerequisites, serves a
  variation of the flag and explains it. The second part is about every flag: fuel never
  changes an answer, a flag that is its own prerequisite has none, the branches are tried in
  order.
\<close>

section \<open>Well-formed data\<close>

definition null_or :: "LDJSONType set \<Rightarrow> json option \<Rightarrow> bool" where
  "null_or ts p \<longleftrightarrow> LDJSONGetType p \<in> insert LDNull ts"

text \<open>A text array or nothing.\<close>

definition names_ok :: "json option \<Rightarrow> bool" where
  "names_ok p \<longleftrightarrow> (\<forall>j. p = Some j \<longrightarrow> j = JNull \<or> text_array j)"

text \<open>The values a clause compares: the elements of an array attribute, or the attribute.\<close>

definition attr_values :: "LDUser \<Rightarrow> string \<Rightarrow> json list" where
  "attr_values user a =
     (case LDi_valueOfAttribute user a of
        Inr (Some (JArray as)) \<Rightarrow> as | Inr (Some v) \<Rightarrow> [v] | _ \<Rightarrow> [])"

definition flat_attr :: "LDUser \<Rightarrow> string \<Rightarrow> bool" where
  "flat_attr user a \<longleftrightarrow> (\<forall>as. LDi_valueOfAttribute user a = Inr (Some (JArray as)) \<longrightarrow>
     (\<forall>x \<in> set as. json_type x \<noteq> LDObject \<and> json_type x \<noteq> LDArray))"

text \<open>Date operators convert numbers to instants; these must be in range.\<close>

definition op_defined :: "env \<Rightarrow> string \<Rightarrow> json \<Rightarrow> json \<Rightarrow> bool" where
  "op_defined E op a v \<longleftrightarrow>
     (op = ''before'' \<or> op = ''after'' \<longrightarrow> returns (LDi_parseTime E a) \<and> returns (LDi_parseTime E v))"

definition plain_clause_ok :: "env \<Rightarrow> LDUser \<Rightarrow> json \<Rightarrow> bool" where
  "plain_clause_ok E user clause \<longleftrightarrow> null_or {LDBool} (LDObjectLookup (Some clause) ''negate'') \<and>
     (\<exists>a op vs. LDObjectLookup (Some clause) ''attribute'' = Some (JText a) \<and>
        LDObjectLookup (Some clause) ''op'' = Some (JText op) \<and>
        LDObjectLookup (Some clause) ''values'' = Some (JArray vs) \<and>
        flat_attr user a \<and> (\<forall>x \<in> set (attr_values user a). \<forall>v \<in> set vs. op_defined E op x v))"

definition clause_ok :: "env \<Rightarrow> LDUser \<Rightarrow> json \<Rightarrow> bool" where
  "clause_ok E user clause \<longleftrightarrow> json_type clause = LDObject \<and>
     (if LDObjectLookup (Some clause) ''op'' = Some (JText ''segmentMatch'')
      then null_or {LDBool} (LDObjectLookup (Some clause) ''negate'') \<and>
        LDJSONGetType (LDObjectLookup (Some clause) ''values'') = LDArray
      else plain_clause_ok E user clause)"

definition segment_rule_ok :: "env \<Rightarrow> LDUser \<Rightarrow> json \<Rightarrow> bool" where
  "segment_rule_ok E user r \<longleftrightarrow> json_type r = LDObject \<and>
     (\<exists>cs. LDObjectLookup (Some r) ''clauses'' = Some (JArray cs) \<and>
        (\<forall>c \<in> set cs. plain_clause_ok E user c)) \<and>
     null_or {LDNumber} (LDObjectLookup (Some r) ''weight'') \<and>
     null_or {LDText} (LDObjectLookup (Some r) ''bucketBy'')"

definition segment_ok :: "env \<Rightarrow> LDUser \<Rightarrow> json \<Rightarrow> bool" where
  "segment_ok E user s \<longleftrightarrow> names_ok (LDObjectLookup (Some s) ''included'') \<and>
     names_ok (LDObjectLookup (Some s) ''excluded'') \<and>
     LDJSONGetType (LDObjectLookup (Some s) ''key'') = LDText \<and>
     LDJSONGetType (LDObjectLookup (Some s) ''salt'') = LDText \<and>
     (\<exists>rs. LDObjectLookup (Some s) ''rules'' = Some (JArray rs) \<and>
        (\<forall>r \<in> set rs. segment_rule_ok E user r))"

text \<open>An index that selects a variation of the flag.\<close>

definition selects :: "json \<Rightarrow> json \<Rightarrow> json \<Rightarrow> bool" where
  "selects flag j v \<longleftrightarrow> (\<exists>n i vs. j = JNumber n \<and> double_to_uint n = Inr i \<and>
     LDObjectLookup (Some flag) ''variations'' = Some (JArray vs) \<and>
     LDArrayLookup (Some (JArray vs)) i = Some v)"

definition index_ok :: "json \<Rightarrow> json option \<Rightarrow> bool" where
  "index_ok flag p \<longleftrightarrow> (\<forall>j. p = Some j \<longrightarrow> j = JNull \<or> (\<exists>v. selects flag j v))"

definition choice_ok :: "json \<Rightarrow> json \<Rightarrow> bool" where
  "choice_ok flag vr \<longleftrightarrow>
     null_or {LDText} (LDObjectLookup (Some flag) ''key'') \<and>
     null_or {LDText} (LDObjectLookup (Some flag) ''salt'') \<and>
     ((\<exists>j v. LDObjectLookup (Some vr) ''variation'' = Some j \<and> selects flag j v) \<or>
      (\<not> LDi_notNull (LDObjectLookup (Some vr) ''variation'') \<and>
       LDJSONGetType (LDObjectLookup (Some flag) ''key'') = LDText \<and>
       LDJSONGetType (LDObjectLookup (Some flag) ''salt'') = LDText \<and>
       (\<exists>ro vs. LDObjectLookup (Some vr) ''rollout'' = Some ro \<and> rollout_ok ro vs \<and>
         (\<forall>e \<in> set vs. \<exists>v. selects flag (entry_variation e) v))))"

definition target_ok :: "json \<Rightarrow> json \<Rightarrow> bool" where
  "target_ok flag t \<longleftrightarrow> json_type t = LDObject \<and>
     (\<exists>vs. LDObjectLookup (Some t) ''values'' = Some (JArray vs) \<and> text_array (JArray vs)) \<and>
     index_ok flag (LDObjectLookup (Some t) ''variation'')"

definition rule_ok :: "env \<Rightarrow> LDUser \<Rightarrow> json \<Rightarrow> json \<Rightarrow> bool" where
  "rule_ok E user flag r \<longleftrightarrow> json_type r = LDObject \<and>
     (\<exists>cs. LDObjectLookup (Some r) ''clauses'' = Some (JArray cs) \<and> (\<forall>c \<in> set cs. clause_ok E user c)) \<and>
     choice_ok flag r \<and> null_or {LDText} (LDObjectLookup (Some r) ''id'')"

definition prerequisite_ok :: "json \<Rightarrow> bool" where
  "prerequisite_ok p \<longleftrightarrow> LDJSONGetType (LDObjectLookup (Some p) ''key'') = LDText \<and>
     LDJSONGetType (LDObjectLookup (Some p) ''variation'') = LDNumber"

text \<open>The members events take from a flag.\<close>

definition tracking_ok :: "json \<Rightarrow> bool" where
  "tracking_ok flag \<longleftrightarrow> null_or {LDNumber} (LDObjectLookup (Some flag) ''version'') \<and>
     null_or {LDNumber} (LDObjectLookup (Some flag) ''debugEventsUntilDate'') \<and>
     null_or {LDBool} (LDObjectLookup (Some flag) ''trackEvents'') \<and>
     null_or {LDBool} (LDObjectLookup (Some flag) ''trackEventsFallthrough'')"

definition all_in :: "json \<Rightarrow> string \<Rightarrow> (json \<Rightarrow> bool) \<Rightarrow> bool" where
  "all_in flag k P \<longleftrightarrow> (\<exists>xs. array_member flag k = Some xs \<and> (\<forall>x \<in> set xs. P x))"

definition flag_ok :: "env \<Rightarrow> LDUser \<Rightarrow> json \<Rightarrow> bool" where
  "flag_ok E user flag \<longleftrightarrow> LDJSONGetType (LDObjectLookup (Some flag) ''on'') = LDBool \<and>
     index_ok flag (LDObjectLookup (Some flag) ''offVariation'') \<and>
     all_in flag ''prerequisites'' prerequisite_ok \<and>
     all_in flag ''targets'' (target_ok flag) \<and>
     all_in flag ''rules'' (rule_ok E user flag) \<and>
     (\<exists>f. LDObjectLookup (Some flag) ''fallthrough'' = Some f \<and> choice_ok flag f) \<and>
     tracking_ok flag"

definition prerequisite_keys :: "json \<Rightarrow> string set" where
  "prerequisite_keys flag =
     {k. \<exists>ps p. array_member flag ''prerequisites'' = Some ps \<and> p \<in> set ps \<and>
        LDObjectLookup (Some p) ''key'' = Some (JText k)}"

text \<open>
  A store without backend whose visible flags and segments are well formed, with a rank that
  falls from every flag to its prerequisites.
\<close>

definition stored :: "'b LDStore \<Rightarrow> FeatureKind \<Rightarrow> string \<Rightarrow> json option" where
  "stored store kind key = visible (feature_at store (featureKindToString kind) key)"

definition data_ok :: "env \<Rightarrow> LDUser \<Rightarrow> 'b LDStore \<Rightarrow> (string \<Rightarrow> nat) \<Rightarrow> bool" where
  "data_ok E user store rank \<longleftrightarrow> memory_ok store \<and>
     (\<forall>key f. stored store LD_FLAG key = Some f \<longrightarrow>
        flag_ok E user f \<and> (\<forall>p \<in> prerequisite_keys f. rank p < rank key)) \<and>
     (\<forall>key s. stored store LD_SEGMENT key = Some s \<longrightarrow> segment_ok E user s)"

definition decided :: "EvalStatus \<Rightarrow> bool" where
  "decided s \<longleftrightarrow> s = EVAL_MATCH \<or> s = EVAL_MISS"

lemma decided_simps [simp]:
  "decided EVAL_MATCH" "decided EVAL_MISS" "\<not> decided EVAL_MEM" "\<not> decided EVAL_SCHEMA"
  "\<not> decided EVAL_STORE"
  by (simp_all add: decided_def)

lemma isEvalError_decided [simp]: "LDi_isEvalError s \<longleftrightarrow> \<not> decided s"
  by (cases s) (simp_all add: LDi_isEvalError_def decided_def)

lemma null_or_cases:
  "null_or ts p \<Longrightarrow> \<not> LDi_notNull p \<or> LDJSONGetType p \<in> ts"
  by (cases p) (auto simp: null_or_def)

section \<open>Clauses and segments\<close>

lemma maybeNegate_decided:
  "null_or {LDBool} (LDObjectLookup (Some clause) ''negate'') \<Longrightarrow> decided s \<Longrightarrow> decided (maybeNegate clause s)"
  using null_or_cases [of "{LDBool}" "LDObjectLookup (Some clause) ''negate''"]
  by (auto simp: maybeNegate_def Let_def decided_def)

lemma operation_returns:
  assumes "LDi_lookupOperation E op = Some fn" and "op_defined E op a v"
  shows "\<exists>b. fn a v = Inr b"
proof -
  have s: "\<exists>b. with_strings f a v = Inr b" for f
    unfolding returns_iff [symmetric] by (cases a; cases v) (simp_all add: with_strings_def)
  have n: "\<exists>b. with_numbers f a v = Inr b" for f
    unfolding returns_iff [symmetric] by (cases a; cases v) (simp_all add: with_numbers_def)
  have t: "\<exists>b. compareTime E f a v = Inr b" if "op = ''before'' \<or> op = ''after''" for f
    using assms(2) that by (auto simp: op_defined_def returns_iff compareTime_def split: option.split)
  show ?thesis
    using assms(1) s n t unfolding LDi_lookupOperation_def
    by (auto simp: operatorInFn_def operatorStartsWithFn_def operatorEndsWithFn_def
        operatorMatchesFn_def operatorContainsFn_def operatorLessThanFn_def
        operatorLessThanOrEqualFn_def operatorGreaterThanFn_def operatorGreaterThanOrEqualFn_def
        operatorBefore_def operatorAfter_def compareSemVer_def operatorSemVerEqual_def
        operatorSemVerLessThan_def operatorSemVerGreaterThan_def split: if_splits)
qed

lemma match_values_decided:
  "\<forall>v \<in> set vs. \<exists>b. fn a v = Inr b \<Longrightarrow> \<exists>s. match_values fn a vs = Inr s \<and> decided s"
  by (induction vs) auto

lemma match_attributes_decided:
  assumes "null_or {LDBool} (LDObjectLookup (Some clause) ''negate'')"
    and "\<forall>x \<in> set as. json_type x \<noteq> LDObject \<and> json_type x \<noteq> LDArray"
    and "\<forall>x \<in> set as. \<forall>v \<in> set vs. \<exists>b. fn x v = Inr b"
  shows "\<exists>s. match_attributes fn clause (JArray vs) as = Inr s \<and> decided s"
  using assms(2,3)
proof (induction as)
  case Nil
  then show ?case using maybeNegate_decided [OF assms(1)] by simp
next
  case (Cons a as)
  then obtain s where "match_values fn a vs = Inr s" "decided s"
    using match_values_decided [of vs fn a] by auto
  with Cons show ?case
    using maybeNegate_decided [OF assms(1)] by (auto simp: matchAny_def decided_def)
qed

lemma plain_clause_decided:
  assumes "plain_clause_ok E user clause" and "user_wf user"
  shows "\<exists>s. LDi_clauseMatchesUserNoSegments E clause user = Inr s \<and> decided s"
proof -
  from assms(1) obtain a op vs where
    neg: "null_or {LDBool} (LDObjectLookup (Some clause) ''negate'')" and
    l: "LDObjectLookup (Some clause) ''attribute'' = Some (JText a)"
       "LDObjectLookup (Some clause) ''op'' = Some (JText op)"
       "LDObjectLookup (Some clause) ''values'' = Some (JArray vs)" and
    flat: "flat_attr user a" and
    def: "\<forall>x \<in> set (attr_values user a). \<forall>v \<in> set vs. op_defined E op x v"
    by (auto simp: plain_clause_ok_def)
  obtain av where av: "LDi_valueOfAttribute user a = Inr av"
    using valueOfAttribute_returns [OF assms(2)] by (auto simp: returns_iff)
  show ?thesis
  proof (cases "LDi_lookupOperation E op")
    case None
    then show ?thesis by (simp add: LDi_clauseMatchesUserNoSegments_def l)
  next
    case (Some fn)
    then have ret: "\<forall>x \<in> set (attr_values user a). \<forall>v \<in> set vs. \<exists>b. fn x v = Inr b"
      using def operation_returns by blast
    consider "av = None" | as where "av = Some (JArray as)"
      | x where "av = Some x" "json_type x \<noteq> LDArray" by (cases av) auto
    then show ?thesis
    proof cases
      case 1
      with Some av l show ?thesis by (simp add: LDi_clauseMatchesUserNoSegments_def)
    next
      case (2 as)
      then have "\<exists>s. match_attributes fn clause (JArray vs) as = Inr s \<and> decided s"
        using ret flat av by (intro match_attributes_decided [OF neg])
          (auto simp: attr_values_def flat_attr_def)
      with 2 Some av l show ?thesis by (simp add: LDi_clauseMatchesUserNoSegments_def)
    next
      case (3 x)
      then have "x \<in> set (attr_values user a)" using av by (auto simp: attr_values_def split: json.split)
      then obtain s where "match_values fn x vs = Inr s" "decided s"
        using ret match_values_decided [of vs fn x] by blast
      with 3 Some av l show ?thesis
        using maybeNegate_decided [OF neg]
        by (cases x) (auto simp: LDi_clauseMatchesUserNoSegments_def matchAny_def)
    qed
  qed
qed

lemma segment_rule_decided:
  assumes "segment_rule_ok E user r" and u: "user_wf user"
  shows "\<exists>s. LDi_segmentRuleMatchUser E r key user salt = Inr s \<and> decided s"
proof -
  from assms(1) obtain cs where cs: "LDObjectLookup (Some r) ''clauses'' = Some (JArray cs)"
    "\<forall>c \<in> set cs. plain_clause_ok E user c" by (auto simp: segment_rule_ok_def)
  have "\<exists>s. segment_clauses E user cs = Inr s \<and> decided s"
    using cs(2)
  proof (induction cs)
    case (Cons c cs)
    then show ?case using plain_clause_decided [of E user c] u by auto
  qed simp
  then obtain s where s: "segment_clauses E user cs = Inr s" "decided s" by blast
  have attr: "\<exists>a. LDi_getBucketAttribute (Some r) = Inr (Some a)"
    using assms(1) null_or_cases [of "{LDText}" "LDObjectLookup (Some r) ''bucketBy''"]
    by (auto simp: segment_rule_ok_def LDi_getBucketAttribute_def Let_def json_opt_type)
  then obtain a where a: "LDi_getBucketAttribute (Some r) = Inr (Some a)" by blast
  obtain ok b where b: "LDi_bucketUser user (Some key) a (Some salt) None = Inr (ok, b)"
    using bucketUser_result [OF u, of key a salt None] by blast
  have "\<not> LDi_notNull (LDObjectLookup (Some r) ''weight'') \<or>
      LDJSONGetType (LDObjectLookup (Some r) ''weight'') = LDNumber"
    using assms(1) null_or_cases [of "{LDNumber}" "LDObjectLookup (Some r) ''weight''"]
    by (auto simp: segment_rule_ok_def)
  with a b have "\<exists>s. segment_weight r key user salt = Inr s \<and> decided s"
    by (auto simp: segment_weight_def Let_def)
  with s cs(1) show ?thesis by (auto simp: LDi_segmentRuleMatchUser_def decided_def)
qed

lemma listed_cases:
  "names_ok p \<Longrightarrow> \<exists>r. listed p user s = Inr r \<and> (r = None \<or> r = Some s)"
proof -
  assume "names_ok p"
  then consider "\<not> LDi_notNull p" | xs where "p = Some (JArray xs)" "text_array (JArray xs)"
    unfolding names_ok_def text_array_def by (cases p) (force split: json.splits)+
  then show ?thesis by cases (auto simp: listed_def LDi_textInArray_eq)
qed

lemma segment_decided:
  assumes "segment_ok E user seg" and "user_wf user"
  shows "\<exists>s. LDi_segmentMatchesUser E seg user = Inr s \<and> decided s"
proof -
  from assms(1) obtain rs key salt where
    rs: "LDObjectLookup (Some seg) ''rules'' = Some (JArray rs)"
      "\<forall>r \<in> set rs. segment_rule_ok E user r" and
    ks: "LDObjectLookup (Some seg) ''key'' = Some (JText key)"
      "LDObjectLookup (Some seg) ''salt'' = Some (JText salt)" and
    n: "names_ok (LDObjectLookup (Some seg) ''included'')"
      "names_ok (LDObjectLookup (Some seg) ''excluded'')"
    unfolding segment_ok_def
    by (cases "LDObjectLookup (Some seg) ''key''"; cases "LDObjectLookup (Some seg) ''salt''") auto
  have "\<exists>s. segment_rules E key user salt rs = Inr s \<and> decided s"
    using rs(2)
  proof (induction rs)
    case (Cons r rs)
    then show ?case
      using segment_rule_decided [of E user r key salt] assms(2)
      by (auto simp: segment_rule_ok_def)
  qed simp
  then show ?thesis
    using listed_cases [OF n(1), of user EVAL_MATCH] listed_cases [OF n(2), of user EVAL_MISS] rs(1) ks
    by (auto simp: LDi_segmentMatchesUser_def)
qed

section \<open>Rules and targets\<close>

lemma stored_get:
  "memory_ok store \<Longrightarrow> LDStoreGet E store now kind key = Inr (True, stored store kind key, store)"
  by (simp add: LDStoreGet_memory stored_def)

lemma match_segments_decided:
  assumes d: "data_ok E user store rank" and u: "user_wf user"
    and n: "null_or {LDBool} (LDObjectLookup (Some clause) ''negate'')"
  shows "\<exists>s. match_segments E clause user now vs store = Inr (s, store) \<and> decided s"
proof (induction vs)
  case Nil
  then show ?case using maybeNegate_decided [OF n] by simp
next
  case (Cons v vs)
  show ?case
  proof (cases v)
    case (JText k)
    have m: "memory_ok store" using d by (simp add: data_ok_def)
    show ?thesis
    proof (cases "stored store LD_SEGMENT k")
      case None
      then show ?thesis using Cons JText by (simp add: stored_get [OF m])
    next
      case (Some seg)
      then have "segment_ok E user seg" using d by (auto simp: data_ok_def)
      then obtain s where "LDi_segmentMatchesUser E seg user = Inr s" "decided s"
        using segment_decided u by blast
      then show ?thesis
        using Cons JText Some maybeNegate_decided [OF n]
        by (auto simp: stored_get [OF m] decided_def)
    qed
  qed (use Cons in auto)
qed

lemma clause_decided:
  assumes "data_ok E user store rank" and "user_wf user" and "clause_ok E user clause"
  shows "\<exists>s. LDi_clauseMatchesUser E clause user now store = Inr (s, store) \<and> decided s"
proof (cases "LDObjectLookup (Some clause) ''op'' = Some (JText ''segmentMatch'')")
  case True
  then show ?thesis
    using assms match_segments_decided [OF assms(1,2), of clause now]
    by (auto simp: clause_ok_def LDi_clauseMatchesUser_def json_opt_type)
next
  case False
  then have "plain_clause_ok E user clause" using assms(3) by (simp add: clause_ok_def)
  with False plain_clause_decided [OF this assms(2)] show ?thesis
    by (auto simp: plain_clause_ok_def LDi_clauseMatchesUser_def)
qed

lemma rule_decided:
  assumes d: "data_ok E user store rank" "user_wf user" and r: "rule_ok E user flag r"
  shows "\<exists>s. LDi_ruleMatchesUser E r user now store = Inr (s, store) \<and> decided s"
proof -
  from r obtain cs where cs: "LDObjectLookup (Some r) ''clauses'' = Some (JArray cs)"
    "\<forall>c \<in> set cs. clause_ok E user c" by (auto simp: rule_ok_def)
  have "\<exists>s. match_clauses E user now cs store = Inr (s, store) \<and> decided s"
    using cs(2)
  proof (induction cs)
    case (Cons c cs)
    then have "json_type c = LDObject" by (simp add: clause_ok_def)
    with Cons clause_decided [OF d, of c now] show ?case by (auto simp: decided_def)
  qed simp
  with cs(1) show ?thesis by (simp add: LDi_ruleMatchesUser_def)
qed

text \<open>The value is the variation the details name, or nothing.\<close>

definition served :: "json \<Rightarrow> 'b eval_out \<Rightarrow> bool" where
  "served flag st \<longleftrightarrow>
     (case o_value st of
        None \<Rightarrow> \<not> hasVariation (o_details st)
      | Some v \<Rightarrow> hasVariation (o_details st) \<and>
          LDArrayLookup (LDObjectLookup (Some flag) ''variations'') (variationIndex (o_details st)) = Some v)"

lemma serve_ok:
  assumes "index_ok flag p"
  shows "\<exists>val d. serve flag p status st =
      Inr (status, st\<lparr>o_value := val, o_details := d\<rparr>) \<and>
    served flag (st\<lparr>o_value := val, o_details := d\<rparr>) \<and>
    reason d = reason (o_details st) \<and> extra d = extra (o_details st)"
proof (cases "LDi_notNull p")
  case False
  then show ?thesis
    by (intro exI [of _ None] exI [of _ "(o_details st)\<lparr>hasVariation := False\<rparr>"])
      (simp add: serve_def addValue_def served_def)
next
  case True
  then obtain j v where p: "p = Some j" "selects flag j v" using assms
    by (cases p) (auto simp: index_ok_def)
  then obtain n i vs where n: "j = JNumber n" "double_to_uint n = Inr i"
    "LDObjectLookup (Some flag) ''variations'' = Some (JArray vs)"
    "LDArrayLookup (Some (JArray vs)) i = Some v" by (auto simp: selects_def)
  with p show ?thesis
    by (intro exI [of _ "Some v"]
        exI [of _ "(o_details st)\<lparr>hasVariation := True, variationIndex := i\<rparr>"])
      (simp add: serve_def addValue_def served_def Let_def)
qed

lemma choice_index:
  assumes "choice_ok flag vr" and u: "user_wf user"
  shows "\<exists>b j v. LDi_getIndexForVariationOrRollout flag (Some vr) user = Inr (Some (b, j)) \<and>
    selects flag j v"
proof -
  let ?k = "LDObjectLookup (Some flag) ''key''" and ?s = "LDObjectLookup (Some flag) ''salt''"
  have types: "\<not> (LDi_notNull ?k \<and> LDJSONGetType ?k \<noteq> LDText)"
      "\<not> (LDi_notNull ?s \<and> LDJSONGetType ?s \<noteq> LDText)"
    using assms(1) null_or_cases [of "{LDText}" ?k] null_or_cases [of "{LDText}" ?s]
    by (auto simp: choice_ok_def)
  have eq: "LDi_getIndexForVariationOrRollout flag (Some vr) user =
      LDi_variationIndexForUser vr user (LDGetText ?k) (LDGetText ?s)"
    by (simp add: LDi_getIndexForVariationOrRollout_def Let_def if_not_P [OF types(1)]
        if_not_P [OF types(2)])
  show ?thesis
  proof (cases "\<exists>j v. LDObjectLookup (Some vr) ''variation'' = Some j \<and> selects flag j v")
    case True
    then obtain n v where "LDObjectLookup (Some vr) ''variation'' = Some (JNumber n)"
      "selects flag (JNumber n) v" by (auto simp: selects_def)
    then show ?thesis by (auto simp: eq LDi_variationIndexForUser_def)
  next
    case False
    then obtain ro vs key salt where r: "\<not> LDi_notNull (LDObjectLookup (Some vr) ''variation'')"
      "?k = Some (JText key)" "?s = Some (JText salt)"
      "LDObjectLookup (Some vr) ''rollout'' = Some ro" "rollout_ok ro vs"
      "\<forall>e \<in> set vs. \<exists>v. selects flag (entry_variation e) v"
      using assms(1) by (auto simp: choice_ok_def json_opt_type)
    obtain ok b where b: "LDi_bucketUser user (Some key) (rollout_attribute ro) (Some salt)
        (rollout_seed ro) = Inr (ok, b)"
      using bucketUser_result [OF u] by blast
    obtain ps where ps: "ro = JObject ps" using r(5) by (auto simp: rollout_ok_def)
    have "LDi_variationIndexForUser vr user (Some key) (Some salt) =
        rollout_index ro user (Some key) (Some salt)"
      using r(1,4) ps by (cases "LDObjectLookup (Some vr) ''variation''")
        (auto simp: LDi_variationIndexForUser_def)
    moreover have "vs \<noteq> []" "\<forall>e \<in> set vs. entry_ok e" using r(5) by (auto simp: rollout_ok_def)
    from rollout_loop_choice [OF this, of b 0 None] obtain k where "k < length vs"
      "rollout_loop b 0 None vs = Some (entry_variation (vs ! k), entry_untracked (vs ! k))" by blast
    ultimately show ?thesis
      using rollout_index_eq [OF r(5) b] r(2,3,6) by (auto simp: eq)
  qed
qed

text \<open>What a decided evaluation leaves behind.\<close>

definition explained :: "json \<Rightarrow> 'b eval_out \<Rightarrow> 'b eval_out \<Rightarrow> bool" where
  "explained flag st st' \<longleftrightarrow> o_store st' = o_store st \<and> served flag st' \<and>
     details_ok (o_details st') \<and> reason (o_details st') \<notin> {LD_UNKNOWN, LD_ERROR}"

lemma index_ok_selects: "selects flag j v \<Longrightarrow> index_ok flag (Some j)"
  by (auto simp: index_ok_def)

lemma targets_decided:
  assumes "\<forall>t \<in> set ts. target_ok flag t"
  shows "\<exists>r st'. match_targets flag user ts st = Inr (r, st') \<and> o_events st' = o_events st \<and>
    (r = None \<and> st' = st \<or>
     r = Some EVAL_MATCH \<and> explained flag st st' \<and> reason (o_details st') = LD_TARGET_MATCH)"
  using assms
proof (induction ts)
  case (Cons t ts)
  then obtain vs where t: "json_type t = LDObject" "LDObjectLookup (Some t) ''values'' = Some (JArray vs)"
    "text_array (JArray vs)" "index_ok flag (LDObjectLookup (Some t) ''variation'')"
    by (auto simp: target_ok_def)
  obtain val d where sv: "serve flag (LDObjectLookup (Some t) ''variation'') EVAL_MATCH
      (set_reason LD_TARGET_MATCH st) =
      Inr (EVAL_MATCH, (set_reason LD_TARGET_MATCH st)\<lparr>o_value := val, o_details := d\<rparr>)"
    "served flag ((set_reason LD_TARGET_MATCH st)\<lparr>o_value := val, o_details := d\<rparr>)"
    "reason d = LD_TARGET_MATCH"
    using serve_ok [OF t(4), of EVAL_MATCH "set_reason LD_TARGET_MATCH st"]
    by (auto simp: set_reason_def)
  show ?case
  proof (cases "JText (user_key user) \<in> set vs")
    case True
    then show ?thesis
      using t sv by (auto simp: LDi_textInArray_eq explained_def set_reason_def details_ok_def)
  next
    case False
    with t Cons show ?thesis by (auto simp: LDi_textInArray_eq)
  qed
qed simp

lemma serve_rule_ok:
  assumes r: "rule_ok E user flag r" and u: "user_wf user"
  shows "\<exists>st'. serve_rule flag r user i st = Inr (EVAL_MATCH, st') \<and> o_events st' = o_events st \<and>
    explained flag st st' \<and> reason (o_details st') = LD_RULE_MATCH"
proof -
  obtain b j v where j: "LDi_getIndexForVariationOrRollout flag (Some r) user = Inr (Some (b, j))"
    "selects flag j v" using choice_index [OF _ u, of flag r] r by (auto simp: rule_ok_def)
  define st2 where "st2 = set_extra (ExtraRule \<lparr>ruleIndex = i, rule_id = None,
      rule_inExperiment = Some b\<rparr>)
    (set_extra (ExtraRule \<lparr>ruleIndex = i, rule_id = None, rule_inExperiment = None\<rparr>)
      (set_reason LD_RULE_MATCH st))"
  obtain val d where sv: "serve flag (Some j) EVAL_MATCH st2 =
      Inr (EVAL_MATCH, st2\<lparr>o_value := val, o_details := d\<rparr>)"
    "served flag (st2\<lparr>o_value := val, o_details := d\<rparr>)"
    "reason d = LD_RULE_MATCH"
    "extra d = ExtraRule \<lparr>ruleIndex = i, rule_id = None, rule_inExperiment = Some b\<rparr>"
    using serve_ok [OF index_ok_selects [OF j(2)], of EVAL_MATCH st2]
    by (auto simp: st2_def set_extra_def set_reason_def)
  have id: "\<not> LDi_notNull (LDObjectLookup (Some r) ''id'') \<or>
      (\<exists>t. LDObjectLookup (Some r) ''id'' = Some (JText t))"
    using r null_or_cases [of "{LDText}" "LDObjectLookup (Some r) ''id''"]
    by (auto simp: rule_ok_def json_opt_type)
  have ev: "o_events st2 = o_events st" "o_store st2 = o_store st"
    by (simp_all add: st2_def set_extra_def set_reason_def)
  define st3 where "st3 = st2\<lparr>o_value := val, o_details := d\<rparr>"
  let ?x = "\<lambda>t. ExtraRule \<lparr>ruleIndex = i, rule_id = Some t, rule_inExperiment = Some b\<rparr>"
  have eq: "serve_rule flag r user i st =
      (case LDObjectLookup (Some r) ''id'' of
         Some (JText t) \<Rightarrow> Inr (EVAL_MATCH, set_extra (?x t) st3)
       | _ \<Rightarrow> Inr (EVAL_MATCH, st3))"
    using id sv(1) by (auto simp: serve_rule_def Let_def j(1) st2_def st3_def split: option.split)
  have "explained flag st st3" "explained flag st (set_extra (?x t) st3)" for t
    using sv(2-4) ev
    by (auto simp: explained_def details_ok_def set_extra_def served_def st3_def split: option.splits)
  then show ?thesis
    using id sv(3) ev unfolding eq
    by (cases "LDObjectLookup (Some r) ''id''") (auto simp: set_extra_def st3_def)
qed

lemma explained_store:
  "o_store st1 = o_store st \<Longrightarrow> explained flag st1 st' = explained flag st st'"
  by (simp add: explained_def)

lemma rules_decided:
  assumes d: "data_ok E user (o_store st) rank" "user_wf user"
    and rs: "\<forall>r \<in> set rs. rule_ok E user flag r"
  shows "\<exists>r st'. match_rules E flag user now i rs st = Inr (r, st') \<and> o_events st' = o_events st \<and>
    (r = None \<and> st' = st \<or>
     r = Some EVAL_MATCH \<and> explained flag st st' \<and> reason (o_details st') = LD_RULE_MATCH)"
  using rs
proof (induction rs arbitrary: i)
  case (Cons r rs)
  then have r: "rule_ok E user flag r" by simp
  obtain s where s: "LDi_ruleMatchesUser E r user now (o_store st) = Inr (s, o_store st)" "decided s"
    using rule_decided [OF d r] by blast
  have st: "st\<lparr>o_store := o_store st\<rparr> = st" by simp
  have obj: "json_type r = LDObject" using r by (simp add: rule_ok_def)
  show ?case
  proof (cases "s = EVAL_MATCH")
    case True
    with s obj serve_rule_ok [OF r d(2), of i st] show ?thesis by (auto simp: Let_def)
  next
    case False
    with s obj Cons.IH [of "i + 1"] Cons.prems show ?thesis by (simp add: Let_def)
  qed
qed simp

lemma fallthrough_decided:
  assumes "LDObjectLookup (Some flag) ''fallthrough'' = Some f" and "choice_ok flag f"
    and u: "user_wf user"
  shows "\<exists>st'. serve_fallthrough flag user st = Inr (EVAL_MATCH, st') \<and> o_events st' = o_events st \<and>
    explained flag st st' \<and> reason (o_details st') = LD_FALLTHROUGH"
proof -
  obtain b j v where j: "LDi_getIndexForVariationOrRollout flag (Some f) user = Inr (Some (b, j))"
    "selects flag j v" using choice_index [OF assms(2) u] by auto
  let ?st = "set_extra (ExtraFallthrough b) (set_reason LD_FALLTHROUGH st)"
  from serve_ok [OF index_ok_selects [OF j(2)], of EVAL_MATCH ?st] show ?thesis
    using assms(1) j(1)
    by (auto simp: serve_fallthrough_def Let_def explained_def details_ok_def set_extra_def
        set_reason_def)
qed

lemma enabled_decided:
  assumes d: "data_ok E user (o_store st) rank" "user_wf user" and f: "flag_ok E user flag"
  shows "\<exists>st'. evaluate_enabled E flag user now st = Inr (EVAL_MATCH, st') \<and>
    o_events st' = o_events st \<and> explained flag st st'"
proof -
  from f obtain ts rs ft where
    ts: "array_member flag ''targets'' = Some ts" "\<forall>t \<in> set ts. target_ok flag t" and
    rs: "array_member flag ''rules'' = Some rs" "\<forall>r \<in> set rs. rule_ok E user flag r" and
    ft: "LDObjectLookup (Some flag) ''fallthrough'' = Some ft" "choice_ok flag ft"
    by (auto simp: flag_ok_def all_in_def)
  from targets_decided [OF ts(2), of user st] rules_decided [OF d rs(2), of now 0]
    fallthrough_decided [OF ft d(2), of st]
  show ?thesis by (auto simp: evaluate_enabled_def ts(1) rs(1))
qed

section \<open>Prerequisites\<close>

definition events_ok :: "json option \<Rightarrow> bool" where
  "events_ok p \<longleftrightarrow> (\<forall>j. p = Some j \<longrightarrow> json_type j = LDArray \<and>
     (\<forall>e \<in> set (iter_values p). \<exists>k. feature_event k e))"

definition processor_ok :: "'e EventProcessor \<Rightarrow> bool" where
  "processor_ok p \<longleftrightarrow> text_array (cfg_privateAttributeNames (ep_config p))"

lemma user_info_returns:
  assumes "processor_ok p" and "user_wf user"
  shows "\<exists>e'. LDi_addUserInfoToEvent p e user = Inr e'"
  using assms LDi_userToJSON_eq [of user "Some (cfg_privateAttributeNames (ep_config p))"]
  by (auto simp: LDi_addUserInfoToEvent_def config_user_json_def processor_ok_def names_wf_def)

lemma flag_members_ok:
  assumes "tracking_ok flag"
  shows "\<exists>e' b. flag_members (Some flag) e = Some (e', b)"
  using assms null_or_cases [of "{LDNumber}" "LDObjectLookup (Some flag) ''version''"]
    null_or_cases [of "{LDNumber}" "LDObjectLookup (Some flag) ''debugEventsUntilDate''"]
    null_or_cases [of "{LDBool}" "LDObjectLookup (Some flag) ''trackEvents''"]
  by (auto simp: tracking_ok_def flag_members_def copy_number_def Let_def)

lemma experiment_tracking_ok:
  assumes "tracking_ok flag" and "details_ok d"
  shows "\<exists>b. experiment_tracking d (Some flag) = Inr (Some b)"
  using assms null_or_cases [of "{LDBool}" "LDObjectLookup (Some flag) ''trackEventsFallthrough''"]
  by (auto simp: tracking_ok_def experiment_tracking_def Let_def details_ok_def
      split: LDDetailsExtra.splits)

lemma feature_event_ok:
  assumes "processor_ok p" and "user_wf user" and "tracking_ok flag" and "details_ok d"
    and "reason d \<notin> {LD_UNKNOWN, LD_ERROR}"
  shows "\<exists>e. LDi_newFeatureRequestEvent p key user var val dflt pre (Some flag) d now = Inr (Some e)"
proof -
  obtain e0 where "LDi_addUserInfoToEvent p (LDi_newBaseEvent ''feature'' now) user = Inr e0"
    using user_info_returns [OF assms(1,2)] by blast
  moreover obtain rj where "LDReasonToJSON d = Inr (Some rj)"
    using reason_json [OF assms(4,5)] by blast
  moreover obtain b where "experiment_tracking d (Some flag) = Inr (Some b)"
    using experiment_tracking_ok [OF assms(3,4)] by blast
  moreover have "\<exists>e' b. flag_members (Some flag) e = Some (e', b)" for e
    by (rule flag_members_ok [OF assms(3)])
  ultimately show ?thesis
    unfolding LDi_newFeatureRequestEvent_def Let_def
    by (auto split: option.split)
qed

lemma add_events_ok:
  "events_ok evs \<Longrightarrow> events_ok sub \<Longrightarrow> feature_event k ev \<Longrightarrow>
     \<exists>evs'. add_events evs sub ev = (True, evs') \<and> events_ok evs'"
  by (cases evs; cases sub)
    (auto simp: events_ok_def add_events_def Let_def LDArrayAppend_def LDArrayPush_def)

text \<open>What the loop over prerequisites needs of the evaluation it calls.\<close>

definition evaluates :: "'b evaluator \<Rightarrow> 'b LDStore \<Rightarrow> json \<Rightarrow> bool" where
  "evaluates ev store flag \<longleftrightarrow> (\<forall>st. o_store st = store \<longrightarrow> events_ok (o_events st) \<longrightarrow>
     (\<exists>s st'. ev flag st = Inr (s, st') \<and> decided s \<and> explained flag st st' \<and> events_ok (o_events st')))"

lemma prerequisite_decided:
  assumes d: "data_ok E user store rank" "user_wf user" "processor_ok p" and ok: "prerequisite_ok pre"
    and ev: "\<forall>k f. LDObjectLookup (Some pre) ''key'' = Some (JText k) \<longrightarrow>
      stored store LD_FLAG k = Some f \<longrightarrow> evaluates ev store f"
    and evs: "events_ok evs"
  shows "\<exists>s k evs'. check_prerequisite E ev p flag user monotonic unix pre fk evs store =
    Inr (s, Some k, evs', store) \<and> decided s \<and> events_ok evs'"
proof -
  from ok obtain k x where k: "LDObjectLookup (Some pre) ''key'' = Some (JText k)"
    "LDObjectLookup (Some pre) ''variation'' = Some (JNumber x)"
    by (auto simp: prerequisite_ok_def json_opt_type)
  have m: "memory_ok store" using d by (simp add: data_ok_def)
  show ?thesis
  proof (cases "stored store LD_FLAG k")
    case None
    then show ?thesis using evs by (simp add: check_prerequisite_def k stored_get [OF m])
  next
    case (Some f)
    then have f: "flag_ok E user f" using d(1) by (auto simp: data_ok_def)
    then have tr: "tracking_ok f" by (simp add: flag_ok_def)
    let ?st = "\<lparr>o_details = LDDetailsInit fresh_details, o_events = None, o_value = None,
      o_store = store\<rparr>"
    obtain s st' where s: "ev f ?st = Inr (s, st')" "decided s" "explained f ?st st'"
        "events_ok (o_events st')"
    proof -
      have "evaluates ev store f" using ev k(1) Some by blast
      then show ?thesis using that unfolding evaluates_def by (auto simp: events_ok_def dest!: spec [of _ ?st])
    qed
    have "\<exists>e. LDi_newFeatureRequestEvent p k user
        (if hasVariation (o_details st') then Some (variationIndex (o_details st')) else None)
        (o_value st') None (LDGetText (LDObjectLookup (Some flag) ''key'')) (Some f)
        (o_details st') unix = Inr (Some e)"
      using s(3) by (intro feature_event_ok [OF d(3,2) tr]) (auto simp: explained_def)
    then obtain e where e: "LDi_newFeatureRequestEvent p k user
        (if hasVariation (o_details st') then Some (variationIndex (o_details st')) else None)
        (o_value st') None (LDGetText (LDObjectLookup (Some flag) ''key'')) (Some f)
        (o_details st') unix = Inr (Some e)" by blast
    obtain evs' where a: "add_events evs (o_events st') e = (True, evs')" "events_ok evs'"
      using add_events_ok [OF evs s(4) feature_event_wf [OF e]] by blast
    obtain on where on: "LDObjectLookup (Some f) ''on'' = Some (JBool on)"
      using f by (auto simp: flag_ok_def json_opt_type)
    have "decided (prerequisite_result f (JNumber x) s (o_details st'))"
      by (simp add: prerequisite_result_def on)
    moreover have "o_store st' = store" using s(3) by (simp add: explained_def)
    ultimately show ?thesis
      using k Some s(1,2) e a by (simp add: check_prerequisite_def stored_get [OF m])
  qed
qed

lemma prerequisites_decided:
  assumes d: "data_ok E user store rank" "user_wf user" "processor_ok p"
    and ok: "\<forall>pre \<in> set ps. prerequisite_ok pre"
    and ev: "\<forall>pre \<in> set ps. \<forall>k f. LDObjectLookup (Some pre) ''key'' = Some (JText k) \<longrightarrow>
      stored store LD_FLAG k = Some f \<longrightarrow> evaluates ev store f"
    and evs: "events_ok evs"
  shows "\<exists>s fk' evs'. check_prerequisites E ev p flag user monotonic unix ps fk evs store =
    Inr (s, fk', evs', store) \<and> decided s \<and> events_ok evs' \<and> (s = EVAL_MISS \<longrightarrow> fk' \<noteq> None)"
  using ok ev evs
proof (induction ps arbitrary: fk evs)
  case (Cons pre ps)
  have pre: "prerequisite_ok pre" and ev: "\<forall>k f. LDObjectLookup (Some pre) ''key'' = Some (JText k) \<longrightarrow>
      stored store LD_FLAG k = Some f \<longrightarrow> evaluates ev store f"
    using Cons.prems(1,2) by auto
  obtain s k evs' where s: "check_prerequisite E ev p flag user monotonic unix pre fk evs store =
      Inr (s, Some k, evs', store)" "decided s" "events_ok evs'"
    using prerequisite_decided [OF d pre ev Cons.prems(3)] by blast
  show ?case
  proof (cases "s = EVAL_MATCH")
    case True
    with s Cons.IH [OF _ _ s(3), of "Some k"] Cons.prems(1,2) show ?thesis by auto
  next
    case False
    with s show ?thesis by auto
  qed
qed auto

lemma evaluate_step:
  assumes d: "data_ok E user store rank" "user_wf user" "processor_ok p"
    and f: "flag_ok E user flag"
    and ev: "\<forall>k \<in> prerequisite_keys flag. \<forall>g. stored store LD_FLAG k = Some g \<longrightarrow>
      evaluates ev store g"
  shows "evaluates (evaluate_flag E ev p user monotonic unix) store flag"
  unfolding evaluates_def
proof (intro allI impI)
  fix st :: "'a eval_out"
  assume st: "o_store st = store" "events_ok (o_events st)"
  let ?off = "LDObjectLookup (Some flag) ''offVariation''"
  from f obtain on ps where on: "LDObjectLookup (Some flag) ''on'' = Some (JBool on)"
    and ps: "array_member flag ''prerequisites'' = Some ps" "\<forall>pre \<in> set ps. prerequisite_ok pre"
    and off: "index_ok flag ?off"
    by (auto simp: flag_ok_def all_in_def json_opt_type)
  show "\<exists>s st'. evaluate_flag E ev p user monotonic unix flag st = Inr (s, st') \<and> decided s \<and>
      explained flag st st' \<and> events_ok (o_events st')"
  proof (cases on)
    case False
    with serve_ok [OF off, of EVAL_MISS "set_reason LD_OFF st"] on st(2) show ?thesis
      by (auto simp: evaluate_flag_def explained_def details_ok_def set_reason_def)
  next
    case True
    have keys: "\<forall>pre \<in> set ps. \<forall>k f. LDObjectLookup (Some pre) ''key'' = Some (JText k) \<longrightarrow>
        stored store LD_FLAG k = Some f \<longrightarrow> evaluates ev store f"
      using ev ps(1) by (auto simp: prerequisite_keys_def)
    obtain s fk evs where s: "check_prerequisites E ev p flag user monotonic unix ps None (o_events st)
        store = Inr (s, fk, evs, store)" "decided s" "events_ok evs" "s = EVAL_MISS \<longrightarrow> fk \<noteq> None"
      using prerequisites_decided [OF d ps(2) keys st(2)] by blast
    have obj: "json_type flag = LDObject"
      using LDObjectLookup_Some_object [OF on] by auto
    define st1 where "st1 = st\<lparr>o_events := evs, o_store := store\<rparr>"
    have st1: "o_store st1 = store" "o_events st1 = evs" by (simp_all add: st1_def)
    show ?thesis
    proof (cases "s = EVAL_MISS")
      case True
      with s obtain k where k: "fk = Some k" by auto
      from serve_ok [OF off, of EVAL_MISS
          "set_extra (ExtraPrerequisiteKey (Some k)) (set_reason LD_PREREQUISITE_FAILED st1)"]
      show ?thesis
        using \<open>on\<close> True on obj s ps(1) k st
        by (auto simp: evaluate_flag_def LDi_checkPrerequisites_def st1_def explained_def
            details_ok_def set_reason_def set_extra_def)
    next
      case False
      then have "s = EVAL_MATCH" using s(2) by (simp add: decided_def)
      moreover obtain st' where "evaluate_enabled E flag user monotonic st1 = Inr (EVAL_MATCH, st')"
        "o_events st' = evs" "explained flag st1 st'"
        using enabled_decided [of E user st1 rank flag monotonic] d f st1 by auto
      ultimately show ?thesis
        using \<open>on\<close> on obj s ps(1) st st1
        by (auto simp: evaluate_flag_def LDi_checkPrerequisites_def st1_def explained_def)
    qed
  qed
qed

lemma evaluate_ranked:
  assumes d: "data_ok E user store rank" "user_wf user" "processor_ok p"
  shows "flag_ok E user flag \<Longrightarrow> \<forall>k \<in> prerequisite_keys flag. rank k < n \<Longrightarrow>
    evaluates (LDi_evaluate (Suc n) E p user monotonic unix) store flag"
proof (induction n arbitrary: flag)
  case 0
  then show ?case using evaluate_step [OF d 0(1)] by auto
next
  case (Suc n)
  show ?case
    unfolding LDi_evaluate.simps(2) [of "Suc n"]
  proof (rule evaluate_step [OF d Suc.prems(1)], intro ballI allI impI)
    fix k g
    assume k: "k \<in> prerequisite_keys flag" "stored store LD_FLAG k = Some g"
    then have "rank k \<le> n" using Suc.prems(2) by (auto simp: less_Suc_eq_le)
    moreover have "flag_ok E user g" "\<forall>q \<in> prerequisite_keys g. rank q < rank k"
      using d(1) k(2) by (auto simp: data_ok_def)
    ultimately show "evaluates (LDi_evaluate (Suc n) E p user monotonic unix) store g"
      by (intro Suc.IH) auto
  qed
qed

text \<open>
  C2: evaluation is total and its answer is explained. When the store holds well-formed
  flags and segments and prerequisites have no cycle (a rank falls along them), evaluating a
  stored flag of rank \<open>n\<close> with \<open>n + 1\<close> nested calls returns: no assertion fails, no
  conversion is out of range, no recursion is left over. The status is match or miss, never an
  error; the value is the flag's variation at the reported index, or none when the flag names
  none; the reason is one the library can report as JSON; and the store is unchanged.
\<close>

theorem evaluate_total:
  assumes "data_ok E user store rank" and "user_wf user" and "processor_ok p"
    and "stored store LD_FLAG key = Some flag"
  shows "\<exists>s out j. LDi_evaluate (Suc (rank key)) E p user monotonic unix flag
      \<lparr>o_details = LDDetailsInit fresh_details, o_events = None, o_value = None, o_store = store\<rparr> =
      Inr (s, out) \<and>
    (s = EVAL_MATCH \<or> s = EVAL_MISS) \<and> o_store out = store \<and>
    (case o_value out of
       None \<Rightarrow> \<not> hasVariation (o_details out)
     | Some v \<Rightarrow> hasVariation (o_details out) \<and>
         LDArrayLookup (LDObjectLookup (Some flag) ''variations'')
           (variationIndex (o_details out)) = Some v) \<and>
    LDReasonToJSON (o_details out) = Inr (Some j)"
proof -
  have f: "flag_ok E user flag" "\<forall>k \<in> prerequisite_keys flag. rank k < rank key"
    using assms(1,4) by (auto simp: data_ok_def)
  let ?st = "\<lparr>o_details = LDDetailsInit fresh_details, o_events = None, o_value = None,
    o_store = store\<rparr>"
  obtain s out where s: "LDi_evaluate (Suc (rank key)) E p user monotonic unix flag ?st = Inr (s, out)"
    "decided s" "explained flag ?st out"
    using evaluate_ranked [OF assms(1-3) f, of monotonic unix, unfolded evaluates_def,
        THEN spec, of ?st] by (auto simp: events_ok_def)
  then obtain j where "LDReasonToJSON (o_details out) = Inr (Some j)"
    using reason_json [of "o_details out"] by (auto simp: explained_def)
  with s show ?thesis by (auto simp: explained_def served_def decided_def)
qed

section \<open>Fuel\<close>

text \<open>\<open>a\<close> answers like \<open>b\<close> wherever it does not run out of fuel.\<close>

definition approximates :: "'a run \<Rightarrow> 'a run \<Rightarrow> bool" where
  "approximates a b \<longleftrightarrow> a = Inl OutOfFuel \<or> a = b"

lemma approximates_refl [simp, intro]: "approximates a a"
  by (simp add: approximates_def)

lemma approximates_bind:
  "approximates a b \<Longrightarrow> (\<And>x. a = Inr x \<Longrightarrow> approximates (f x) (g x)) \<Longrightarrow>
    approximates (run_bind a f) (run_bind b g)"
  by (cases a) (auto simp: approximates_def)

lemma check_prerequisite_approx:
  assumes "\<And>flag st. approximates (ev flag st) (ev' flag st)"
  shows "approximates (check_prerequisite E ev p flag user mo un pre fk evs store)
    (check_prerequisite E ev' p flag user mo un pre fk evs store)"
  unfolding check_prerequisite_def
  by (auto intro!: approximates_bind assms split: option.split json.split)

lemma check_prerequisites_approx:
  assumes "\<And>flag st. approximates (ev flag st) (ev' flag st)"
  shows "approximates (check_prerequisites E ev p flag user mo un ps fk evs store)
    (check_prerequisites E ev' p flag user mo un ps fk evs store)"
proof (induction ps arbitrary: fk evs store)
  case (Cons pre ps)
  then show ?case
    by (auto intro!: approximates_bind check_prerequisite_approx assms)
qed simp

lemma evaluate_flag_approx:
  assumes "\<And>flag st. approximates (ev flag st) (ev' flag st)"
  shows "approximates (evaluate_flag E ev p user mo un flag st) (evaluate_flag E ev' p user mo un flag st)"
  unfolding evaluate_flag_def LDi_checkPrerequisites_def
  by (auto intro!: approximates_bind check_prerequisites_approx assms split: option.split json.split)

lemma evaluate_approx:
  "approximates (LDi_evaluate n E p user mo un flag st) (LDi_evaluate (n + k) E p user mo un flag st)"
proof (induction n arbitrary: flag st)
  case 0
  then show ?case by (simp add: approximates_def)
next
  case (Suc n)
  then show ?case by (auto intro!: evaluate_flag_approx)
qed

text \<open>
  The depth of the stack only decides whether there is an answer, never which one: an
  evaluation that returns (or faults otherwise) within depth \<open>n\<close> does exactly the same at
  every greater depth, on any store and any flag.
\<close>

theorem evaluate_fuel_irrelevant:
  assumes "LDi_evaluate n E p user monotonic unix flag st \<noteq> Inl OutOfFuel" and "n \<le> m"
  shows "LDi_evaluate m E p user monotonic unix flag st = LDi_evaluate n E p user monotonic unix flag st"
  using evaluate_approx [of n E p user monotonic unix flag st "m - n"] assms
  by (simp add: approximates_def)

text \<open>
  C33: prerequisites are followed without a check for cycles. A stored flag that is on and
  whose first prerequisite is the flag itself is never evaluated: every stack depth is
  exhausted.
\<close>

theorem self_prerequisite_diverges:
  assumes "memory_ok store" and "stored store LD_FLAG key = Some flag"
    and "LDObjectLookup (Some flag) ''on'' = Some (JBool True)"
    and "LDObjectLookup (Some flag) ''prerequisites'' = Some (JArray (pre # ps))"
    and "LDObjectLookup (Some pre) ''key'' = Some (JText key)"
    and "LDObjectLookup (Some pre) ''variation'' = Some (JNumber x)"
    and "o_store st = store"
  shows "LDi_evaluate n E p user monotonic unix flag st = Inl OutOfFuel"
  using assms(7)
proof (induction n arbitrary: st)
  case (Suc n)
  have obj: "json_type flag = LDObject" using LDObjectLookup_Some_object [OF assms(3)] by auto
  from Suc show ?case
    by (simp add: evaluate_flag_def LDi_checkPrerequisites_def array_member_def assms(3-6) obj
        check_prerequisite_def stored_get [OF assms(1)] assms(2))
qed simp

section \<open>The order of the branches\<close>

text \<open>
  A flag that is off serves its off variation and nothing else is looked at: on any
  store, at any depth, whatever its prerequisites, targets and rules, the reason is \<open>OFF\<close>,
  the value is the variation \<open>offVariation\<close> selects, no event is recorded and the store is
  not touched.
\<close>

theorem evaluate_off:
  assumes "LDObjectLookup (Some flag) ''on'' = Some (JBool False)"
    and "LDObjectLookup (Some flag) ''offVariation'' = Some j" and "selects flag j v"
  shows "\<exists>out. LDi_evaluate (Suc n) E p user monotonic unix flag st = Inr (EVAL_MISS, out) \<and>
    o_value out = Some v \<and> reason (o_details out) = LD_OFF \<and> o_events out = o_events st \<and>
    o_store out = o_store st"
proof -
  from assms(3) obtain m i vs where "j = JNumber m" "double_to_uint m = Inr i"
    "LDObjectLookup (Some flag) ''variations'' = Some (JArray vs)"
    "LDArrayLookup (Some (JArray vs)) i = Some v" by (auto simp: selects_def)
  with assms(1,2) show ?thesis
    by (simp add: evaluate_flag_def serve_def addValue_def set_reason_def Let_def)
qed

text \<open>
  Individual targets come before rules. For a flag that is on and has no prerequisites,
  the first target that lists the user's key decides: its variation is served with the reason
  \<open>TARGET_MATCH\<close>, whatever later targets, the rules and the fallthrough say.
\<close>

theorem evaluate_target_first:
  assumes "LDObjectLookup (Some flag) ''on'' = Some (JBool True)"
    and "LDObjectLookup (Some flag) ''prerequisites'' = None"
    and "LDObjectLookup (Some flag) ''targets'' = Some (JArray (before @ t # after))"
    and "\<forall>b \<in> set before. json_type b = LDObject \<and> (\<exists>ns. LDObjectLookup (Some b) ''values'' =
      Some (JArray (map JText ns)) \<and> user_key user \<notin> set ns)"
    and "json_type t = LDObject" and "LDObjectLookup (Some t) ''values'' = Some (JArray (map JText names))"
    and "user_key user \<in> set names" and "LDObjectLookup (Some t) ''variation'' = Some j"
    and "selects flag j v"
  shows "\<exists>out. LDi_evaluate (Suc n) E p user monotonic unix flag st = Inr (EVAL_MATCH, out) \<and>
    o_value out = Some v \<and> reason (o_details out) = LD_TARGET_MATCH \<and> o_store out = o_store st"
proof -
  have texts: "LDi_textInArray (Some (JArray (map JText ns))) k = Inr (k \<in> set ns)" for ns k
    by (subst LDi_textInArray_eq) (auto simp: text_array_def list_all_iff)
  have skip: "match_targets flag user (before @ t # after) s = match_targets flag user (t # after) s" for s
    using assms(4) by (induction before) (auto simp: texts)
  from assms(9) obtain m i vs where sel: "j = JNumber m" "double_to_uint m = Inr i"
    "LDObjectLookup (Some flag) ''variations'' = Some (JArray vs)"
    "LDArrayLookup (Some (JArray vs)) i = Some v" by (auto simp: selects_def)
  have obj: "json_type flag = LDObject" using LDObjectLookup_Some_object [OF assms(1)] by auto
  show ?thesis
    using assms(5-8) sel
    by (simp add: evaluate_flag_def LDi_checkPrerequisites_def array_member_def assms(1-3) obj
        evaluate_enabled_def skip texts serve_def addValue_def set_reason_def Let_def)
qed

text \<open>
  C21: a prerequisite holds only if its flag really served the required variation. When the
  check of one prerequisite succeeds (on a store without backend), its flag is stored and on,
  its evaluation was a match (so neither off nor failed by a prerequisite of its own), and the
  index it served is the required one; exactly one event for it is appended after the events
  of its own prerequisites.
\<close>

theorem prerequisite_sound:
  assumes "memory_ok store"
    and "check_prerequisite E ev p flag user monotonic unix pre fk evs store =
      Inr (EVAL_MATCH, fk', evs', store')"
  shows "\<exists>key preflag out x e. LDObjectLookup (Some pre) ''key'' = Some (JText key) \<and>
    fk' = Some key \<and> stored store LD_FLAG key = Some preflag \<and>
    LDObjectLookup (Some preflag) ''on'' = Some (JBool True) \<and>
    ev preflag \<lparr>o_details = LDDetailsInit fresh_details, o_events = None, o_value = None,
      o_store = store\<rparr> = Inr (EVAL_MATCH, out) \<and>
    LDObjectLookup (Some pre) ''variation'' = Some (JNumber x) \<and>
    hasVariation (o_details out) \<and> uint_to_double (variationIndex (o_details out)) = x \<and>
    evs' = Some (JArray (iter_values evs @ iter_values (o_events out) @ [e]))"
proof -
  let ?st = "\<lparr>o_details = LDDetailsInit fresh_details, o_events = None, o_value = None,
    o_store = store\<rparr>"
  note res = assms(2) [unfolded check_prerequisite_def]
  obtain key where key: "LDObjectLookup (Some pre) ''key'' = Some (JText key)"
    using res by (auto split: option.splits json.splits)
  obtain x where x: "LDObjectLookup (Some pre) ''variation'' = Some (JNumber x)"
    using res by (auto simp: key split: option.splits json.splits)
  obtain pf where pf: "stored store LD_FLAG key = Some pf"
    using res by (auto simp: key x stored_get [OF assms(1)] split: option.splits)
  obtain s out where ev: "ev pf ?st = Inr (s, out)"
    using res by (auto simp: key x stored_get [OF assms(1)] pf run_simps)
  have s: "decided s" using res by (auto simp: key x stored_get [OF assms(1)] pf ev split: if_splits)
  obtain e where e: "LDi_newFeatureRequestEvent p key user
      (if hasVariation (o_details out) then Some (variationIndex (o_details out)) else None)
      (o_value out) None (LDGetText (LDObjectLookup (Some flag) ''key'')) (Some pf) (o_details out)
      unix = Inr (Some e)"
    using res s
    by (auto simp: key x stored_get [OF assms(1)] pf ev run_simps simp del: if_split split: option.splits)
  obtain added evs2 where a: "add_events evs (o_events out) e = (added, evs2)" by fastforce
  have add: "added" "evs' = evs2" "fk' = Some key"
      "prerequisite_result pf (JNumber x) s (o_details out) = EVAL_MATCH"
    using res s by (auto simp: key x stored_get [OF assms(1)] pf ev e a split: if_splits)
  have "evs2 = Some (JArray (iter_values evs @ iter_values (o_events out) @ [e]))"
    using a add(1)
    by (auto simp: add_events_def LDArrayAppend_def LDArrayPush_def Let_def
        split: option.splits json.splits prod.splits if_splits)
  moreover have "s = EVAL_MATCH" "LDObjectLookup (Some pf) ''on'' = Some (JBool True)"
      "hasVariation (o_details out)" "uint_to_double (variationIndex (o_details out)) = x"
    using add(4) s
    by (auto simp: prerequisite_result_def decided_def Let_def split: option.splits json.splits if_splits)
  ultimately show ?thesis using key x pf ev add(2,3) by blast
qed

text \<open>
  Segment membership is decided by the lists first: a user in \<open>included\<close> is a member
  even when excluded too; a user only in \<open>excluded\<close> is not, whatever the rules say; for
  everyone else the rules decide.
\<close>

theorem segment_precedence:
  assumes "LDObjectLookup (Some seg) ''included'' = Some (JArray (map JText inc))"
    and "LDObjectLookup (Some seg) ''excluded'' = Some (JArray (map JText exc))"
    and "LDObjectLookup (Some seg) ''rules'' = Some (JArray rules)"
    and "LDObjectLookup (Some seg) ''key'' = Some (JText key)"
    and "LDObjectLookup (Some seg) ''salt'' = Some (JText salt)"
  shows "LDi_segmentMatchesUser E seg user =
    (if user_key user \<in> set inc then Inr EVAL_MATCH
     else if user_key user \<in> set exc then Inr EVAL_MISS
     else segment_rules E key user salt rules)"
proof -
  have texts: "LDi_textInArray (Some (JArray (map JText ns))) k = Inr (k \<in> set ns)" for ns k
    by (subst LDi_textInArray_eq) (auto simp: text_array_def list_all_iff)
  show ?thesis by (simp add: LDi_segmentMatchesUser_def listed_def assms texts)
qed

text \<open>
  A fallthrough that names a variation the flag does not have is reported as the status
  for memory exhaustion, not as a schema error: the index is in range for the conversion but
  beyond the variations.
\<close>

theorem missing_variation_is_mem:
  assumes "LDObjectLookup (Some flag) ''on'' = Some (JBool True)"
    and "LDObjectLookup (Some flag) ''prerequisites'' = None"
    and "LDObjectLookup (Some flag) ''targets'' = None" and "LDObjectLookup (Some flag) ''rules'' = None"
    and "LDObjectLookup (Some flag) ''key'' = None" and "LDObjectLookup (Some flag) ''salt'' = None"
    and "LDObjectLookup (Some flag) ''fallthrough'' = Some (JObject [(''variation'', JNumber (of_nat k))])"
    and "LDObjectLookup (Some flag) ''variations'' = Some (JArray vs)"
    and "length vs \<le> k" and "k < 2 ^ 32"
  shows "\<exists>out. LDi_evaluate (Suc n) E p user monotonic unix flag st = Inr (EVAL_MEM, out)"
proof -
  have obj: "json_type flag = LDObject" using LDObjectLookup_Some_object [OF assms(1)] by auto
  have "trunc_rat (of_nat k) = int k" using trunc_rat_of_int [of "int k"] by simp
  then have u: "double_to_uint (of_nat k) = Inr (of_nat k)"
    using assms(10) by (simp add: double_to_uint_def)
  have "unat (of_nat k :: u32) = k" using assms(10) by (simp add: unat_of_nat take_bit_eq_mod)
  then have "LDArrayLookup (Some (JArray vs)) (of_nat k) = None"
    using assms(9) by (simp add: LDArrayLookup_def)
  with u show ?thesis
    by (simp add: evaluate_flag_def LDi_checkPrerequisites_def array_member_def assms(1-8) obj
        evaluate_enabled_def serve_fallthrough_def LDi_getIndexForVariationOrRollout_def
        LDi_variationIndexForUser_def serve_def addValue_def set_reason_def set_extra_def Let_def)
qed

section \<open>Concrete evaluations\<close>

text \<open>Two flags, the second with the first as prerequisite, in a store without backend.\<close>

definition flag_g :: json where
  "flag_g = JObject [(''key'', JText ''g''), (''version'', JNumber 1), (''salt'', JText ''s''),
     (''on'', JBool True), (''variations'', JArray [JBool False, JBool True]),
     (''fallthrough'', JObject [(''variation'', JNumber 1)])]"

definition flag_f :: json where
  "flag_f = JObject [(''key'', JText ''f''), (''version'', JNumber 1), (''salt'', JText ''s''),
     (''on'', JBool True), (''variations'', JArray [JText ''a'', JText ''b'']),
     (''prerequisites'', JArray [JObject [(''key'', JText ''g''), (''variation'', JNumber 1)]]),
     (''fallthrough'', JObject [(''variation'', JNumber 0)])]"

definition two_flags :: "unit LDStore" where
  "two_flags = foldl (apply_update plain_env LD_FLAG) empty_store [UpsertAt 1 flag_g, UpsertAt 2 flag_f]"

definition sample_processor :: "unit EventProcessor" where
  "sample_processor = LDi_newEventProcessor (the (LDConfigNew (Some ''k''))) 0"

definition start_out :: "'b LDStore \<Rightarrow> 'b eval_out" where
  "start_out store =
     \<lparr>o_details = LDDetailsInit fresh_details, o_events = None, o_value = None, o_store = store\<rparr>"

lemma one_to_uint [simp]: "double_to_uint 1 = Inr 1" "double_to_uint 0 = Inr 0"
  by (simp_all add: double_to_uint_def)

lemma flags_good:
  "good_feature flag_g" "feature_key flag_g = ''g''" "good_feature flag_f" "feature_key flag_f = ''f''"
  "\<not> LDi_isFeatureDeleted flag_g" "\<not> LDi_isFeatureDeleted flag_f"
  by (simp_all add: flag_g_def flag_f_def good_feature_def LDi_validateFeature_def feature_key_def
      LDi_getFeatureKeyTrusted_def LDi_getFeatureVersionTrusted_def LDi_isFeatureDeleted_def)

lemma apply_update_feature_at:
  assumes "memory_ok s" and "good_feature f"
  shows "memory_ok (apply_update E kind s (UpsertAt t f))"
    and "feature_at (apply_update E kind s (UpsertAt t f)) (featureKindToString kind') key =
      (if kind' = kind \<and> key = feature_key f
       then newest feature_version (feature_at s (featureKindToString kind) key) f
       else feature_at s (featureKindToString kind') key)"
proof -
  have k: "featureKindToString kind' = featureKindToString kind \<longleftrightarrow> kind' = kind"
    by (cases kind; cases kind') (simp_all add: featureKindToString_def)
  obtain s' where "run_update E kind s (UpsertAt t f) = Inr (True, s')" "memory_ok s'"
    "\<forall>kind' key. plain_kind kind' \<longrightarrow> feature_at s' kind' key =
       (if kind' = featureKindToString kind \<and> key = feature_key f
        then newest feature_version (feature_at s kind' key) f else feature_at s kind' key)"
    using run_update_memory [OF assms(1), of "UpsertAt t f" E kind] assms(2) by auto
  then show "memory_ok (apply_update E kind s (UpsertAt t f))"
    and "feature_at (apply_update E kind s (UpsertAt t f)) (featureKindToString kind') key =
      (if kind' = kind \<and> key = feature_key f
       then newest feature_version (feature_at s (featureKindToString kind) key) f
       else feature_at s (featureKindToString kind') key)"
    by (simp_all add: apply_update_def k)
qed

lemma empty_store_ok: "memory_ok empty_store" "feature_at empty_store kind key = None"
  by (simp_all add: empty_store_def memory_ok_empty feature_at_def cached_feature_def)

lemma two_flags_ok:
  "memory_ok two_flags"
  "stored two_flags kind key = (if kind = LD_FLAG \<and> key = ''f'' then Some flag_f
     else if kind = LD_FLAG \<and> key = ''g'' then Some flag_g else None)"
proof -
  define s1 where "s1 = apply_update plain_env LD_FLAG empty_store (UpsertAt 1 flag_g)"
  have s1: "memory_ok s1" unfolding s1_def
    by (rule apply_update_feature_at) (simp_all add: empty_store_ok flags_good)
  have two: "two_flags = apply_update plain_env LD_FLAG s1 (UpsertAt 2 flag_f)"
    by (simp add: two_flags_def s1_def)
  show "memory_ok two_flags" unfolding two by (rule apply_update_feature_at [OF s1 flags_good(3)])
  show "stored two_flags kind key = (if kind = LD_FLAG \<and> key = ''f'' then Some flag_f
     else if kind = LD_FLAG \<and> key = ''g'' then Some flag_g else None)"
    unfolding stored_def two apply_update_feature_at(2) [OF s1 flags_good(3)]
    unfolding s1_def apply_update_feature_at(2) [OF empty_store_ok(1) flags_good(1)]
    by (simp add: empty_store_ok flags_good newest_def)
qed

lemma flags_ok: "flag_ok E user flag_g" "flag_ok E user flag_f"
  "prerequisite_keys flag_g = {}" "prerequisite_keys flag_f = {''g''}"
proof -
  have sel: "selects flag_g (JNumber 1) (JBool True)" "selects flag_f (JNumber 0) (JText ''a'')"
    by (simp_all add: selects_def flag_g_def flag_f_def LDArrayLookup_def)
  show "flag_ok E user flag_g" "flag_ok E user flag_f"
    using sel
    by (auto simp: flag_ok_def flag_g_def flag_f_def index_ok_def all_in_def array_member_def
        prerequisite_ok_def choice_ok_def null_or_def tracking_ok_def)
  show "prerequisite_keys flag_g = {}" "prerequisite_keys flag_f = {''g''}"
    by (auto simp: prerequisite_keys_def flag_g_def flag_f_def array_member_def)
qed

lemma sample_ok:
  "data_ok plain_env (LDi_userNew ''bob'') two_flags (\<lambda>k. if k = ''f'' then 1 else 0)"
  "user_wf (LDi_userNew ''bob'')" "processor_ok sample_processor"
  by (auto simp: data_ok_def two_flags_ok flags_ok user_wf_def LDi_userNew_def text_array_def
      processor_ok_def sample_processor_def LDi_newEventProcessor_def LDConfigNew_def split: if_splits)

theorem evaluate_total_witness:
  "\<exists>s out j. LDi_evaluate 2 plain_env sample_processor (LDi_userNew ''bob'') 5 6 flag_f
      (start_out two_flags) = Inr (s, out) \<and>
    (s = EVAL_MATCH \<or> s = EVAL_MISS) \<and> o_store out = two_flags \<and>
    LDReasonToJSON (o_details out) = Inr (Some j)"
  using evaluate_total [OF sample_ok, of "''f''" flag_f 5 6]
  by (auto simp: two_flags_ok start_out_def numeral_2_eq_2)

theorem evaluate_fuel_irrelevant_witness:
  "LDi_evaluate 7 plain_env sample_processor (LDi_userNew ''bob'') 5 6 (JObject []) (start_out two_flags) =
   LDi_evaluate 1 plain_env sample_processor (LDi_userNew ''bob'') 5 6 (JObject []) (start_out two_flags)"
  by (rule evaluate_fuel_irrelevant) (simp_all add: evaluate_flag_def)

definition loop_flag :: json where
  "loop_flag = JObject [(''key'', JText ''l''), (''version'', JNumber 1), (''on'', JBool True),
     (''prerequisites'', JArray [JObject [(''key'', JText ''l''), (''variation'', JNumber 0)]])]"

definition loop_store :: "unit LDStore" where
  "loop_store = apply_update plain_env LD_FLAG empty_store (UpsertAt 1 loop_flag)"

lemma loop_store_ok: "memory_ok loop_store" "stored loop_store LD_FLAG ''l'' = Some loop_flag"
proof -
  have g: "good_feature loop_flag" "feature_key loop_flag = ''l''" "\<not> LDi_isFeatureDeleted loop_flag"
    by (simp_all add: loop_flag_def good_feature_def LDi_validateFeature_def feature_key_def
        LDi_getFeatureKeyTrusted_def LDi_getFeatureVersionTrusted_def LDi_isFeatureDeleted_def)
  show "memory_ok loop_store"
    unfolding loop_store_def by (rule apply_update_feature_at [OF empty_store_ok(1) g(1)])
  show "stored loop_store LD_FLAG ''l'' = Some loop_flag"
    unfolding stored_def loop_store_def apply_update_feature_at(2) [OF empty_store_ok(1) g(1)]
    by (simp add: g empty_store_ok newest_def)
qed

theorem self_prerequisite_diverges_witness:
  "LDi_evaluate 100 plain_env sample_processor (LDi_userNew ''bob'') 5 6 loop_flag
     (start_out loop_store) = Inl OutOfFuel"
  using self_prerequisite_diverges [OF loop_store_ok,
      of "JObject [(''key'', JText ''l''), (''variation'', JNumber 0)]" "[]" 0 "start_out loop_store"
        100 plain_env sample_processor "LDi_userNew ''bob''" 5 6]
  by (simp add: loop_flag_def start_out_def)

theorem evaluate_off_witness:
  "\<exists>out. LDi_evaluate 1 plain_env sample_processor (LDi_userNew ''bob'') 5 6
      (JObject [(''on'', JBool False), (''offVariation'', JNumber 1),
        (''variations'', JArray [JText ''x'', JText ''y''])]) (start_out two_flags) = Inr (EVAL_MISS, out) \<and>
    o_value out = Some (JText ''y'')"
  using evaluate_off [of "JObject [(''on'', JBool False), (''offVariation'', JNumber 1),
        (''variations'', JArray [JText ''x'', JText ''y''])]" "JNumber 1" "JText ''y''" 0
      plain_env sample_processor "LDi_userNew ''bob''" 5 6 "start_out two_flags"]
  by (auto simp: selects_def LDArrayLookup_def)

theorem evaluate_target_first_witness:
  "\<exists>out. LDi_evaluate 1 plain_env sample_processor (LDi_userNew ''bob'') 5 6
      (JObject [(''on'', JBool True), (''variations'', JArray [JText ''x'', JText ''y'']),
        (''targets'', JArray [JObject [(''values'', JArray [JText ''ann'']), (''variation'', JNumber 0)],
                              JObject [(''values'', JArray [JText ''bob'']), (''variation'', JNumber 1)]])])
      (start_out two_flags) = Inr (EVAL_MATCH, out) \<and> o_value out = Some (JText ''y'')"
proof -
  have "\<exists>ns. [JText ''ann''] = map JText ns \<and> ''bob'' \<notin> set ns"
    by (intro exI [of _ "[''ann'']"]) simp
  then show ?thesis
  using evaluate_target_first [of "JObject [(''on'', JBool True), (''variations'', JArray [JText ''x'', JText ''y'']),
        (''targets'', JArray [JObject [(''values'', JArray [JText ''ann'']), (''variation'', JNumber 0)],
                              JObject [(''values'', JArray [JText ''bob'']), (''variation'', JNumber 1)]])]"
      "[JObject [(''values'', JArray [JText ''ann'']), (''variation'', JNumber 0)]]"
      "JObject [(''values'', JArray [JText ''bob'']), (''variation'', JNumber 1)]" "[]"
      "LDi_userNew ''bob''" "[''bob'']" "JNumber 1" "JText ''y''" 0 plain_env sample_processor 5 6
      "start_out two_flags"]
  by (auto simp: selects_def LDArrayLookup_def LDi_userNew_def)
qed

theorem prerequisite_sound_witness:
  "\<exists>evs'. check_prerequisite plain_env (LDi_evaluate 1 plain_env sample_processor (LDi_userNew ''bob'') 5 6)
      sample_processor flag_f (LDi_userNew ''bob'') 5 6
      (JObject [(''key'', JText ''g''), (''variation'', JNumber 1)]) None None two_flags =
      Inr (EVAL_MATCH, Some ''g'', evs', two_flags) \<and> length (iter_values evs') = 1"
proof -
  let ?u = "LDi_userNew ''bob''"
  let ?ev = "LDi_evaluate 1 plain_env sample_processor ?u 5 6"
  let ?pre = "JObject [(''key'', JText ''g''), (''variation'', JNumber 1)]"
  have cfg: "\<not> inlineUsersInEvents (ep_config sample_processor)"
    by (simp add: sample_processor_def LDi_newEventProcessor_def LDConfigNew_def)
  have res: "check_prerequisite plain_env ?ev sample_processor flag_f ?u 5 6 ?pre None None two_flags =
      Inr (EVAL_MATCH, Some ''g'', Some (JArray [e]), two_flags)"
    if "e = the (projr (LDi_newFeatureRequestEvent sample_processor ''g'' ?u (Some 1)
          (Some (JBool True)) None (Some ''f'') (Some flag_g)
          \<lparr>variationIndex = 1, hasVariation = True, reason = LD_FALLTHROUGH,
            extra = ExtraFallthrough False\<rparr> 6))" for e
    using that unfolding check_prerequisite_def
    by (simp add: stored_get [OF two_flags_ok(1)] two_flags_ok(2) evaluate_flag_def flag_g_def flag_f_def
        LDi_checkPrerequisites_def array_member_def evaluate_enabled_def serve_fallthrough_def
        LDi_getIndexForVariationOrRollout_def LDi_variationIndexForUser_def serve_def addValue_def
        set_reason_def set_extra_def Let_def LDArrayLookup_def LDi_newFeatureRequestEvent_def
        LDi_addUserInfoToEvent_def cfg flag_members_def copy_number_def copy_member_def
        LDReasonToJSON_def reason_members_def LDEvalReasonKindToString_def experiment_tracking_def
        add_events_def LDArrayPush_def prerequisite_result_def fresh_details_def LDDetailsInit_def
        uint_to_double_def LDi_newBaseEvent_def)
  from prerequisite_sound [OF two_flags_ok(1) res [OF refl]] res [OF refl] show ?thesis by auto
qed

theorem segment_precedence_witness:
  "LDi_segmentMatchesUser plain_env
     (JObject [(''included'', JArray [JText ''bob'']), (''excluded'', JArray [JText ''bob'']),
       (''rules'', JArray []), (''key'', JText ''seg''), (''salt'', JText ''s'')]) (LDi_userNew ''bob'') =
     Inr EVAL_MATCH"
  using segment_precedence [of "JObject [(''included'', JArray [JText ''bob'']),
       (''excluded'', JArray [JText ''bob'']),
       (''rules'', JArray []), (''key'', JText ''seg''), (''salt'', JText ''s'')]" "[''bob'']" "[''bob'']"
       "[]" "''seg''" "''s''" plain_env "LDi_userNew ''bob''"]
  by (simp add: LDi_userNew_def)

theorem missing_variation_is_mem_witness:
  "\<exists>out. LDi_evaluate 1 plain_env sample_processor (LDi_userNew ''bob'') 5 6
      (JObject [(''on'', JBool True), (''variations'', JArray [JText ''x'']),
        (''fallthrough'', JObject [(''variation'', JNumber (of_nat 3))])]) (start_out two_flags) =
      Inr (EVAL_MEM, out)"
  using missing_variation_is_mem [of "JObject [(''on'', JBool True), (''variations'', JArray [JText ''x'']),
        (''fallthrough'', JObject [(''variation'', JNumber (of_nat 3))])]" 3 "[JText ''x'']" 0
      plain_env sample_processor "LDi_userNew ''bob''" 5 6 "start_out two_flags"]
  by simp

end
