(* ===== verification/LD_Variations_Laws.thy ===== *)
theory LD_Variations_Laws
  imports LD_Variations LD_Evaluate_Laws
begin

text \<open>
  Correctness of the calls an application makes: a variation call on a client with
  well-formed data returns what the evaluation of the flag says, or the fallback with the reason;
  it never aborts, keeps the store and the invariant of the event processor; \<open>LDAllFlags\<close>
  returns the value of every flag.
\<close>

section \<open>Reporting an evaluation\<close>

lemma kept_on_return:
  "on_return m (\<lambda>r. kept p (g r)) \<Longrightarrow> m = Inr x \<Longrightarrow> ep_inv p \<Longrightarrow>
     ep_inv (g x) \<and> ep_config (g x) = ep_config p"
  by (auto simp: on_return_def kept_def)

lemma config_user_json_returns:
  "processor_ok p \<Longrightarrow> user_wf user \<Longrightarrow> \<exists>u. config_user_json p user = Inr u"
  using LDi_userToJSON_eq [of user "Some (cfg_privateAttributeNames (ep_config p))"]
  by (auto simp: config_user_json_def processor_ok_def names_wf_def)

lemma maybeMakeIndexEvent_ok:
  assumes "ep_inv p" and "processor_ok p" and "user_wf user"
  shows "\<exists>e p'. LDi_maybeMakeIndexEvent p user now = Inr (True, e, p') \<and> ep_inv p' \<and>
    ep_config p' = ep_config p"
proof -
  obtain u where u: "config_user_json p user = Inr u"
    using config_user_json_returns [OF assms(2,3)] by blast
  have ins: "\<exists>s lru'. LDLRUInsert True True lru k = Inr (s, lru') \<and> s \<noteq> LDLRUSTATUS_ERROR"
    if "lru_inv lru" for lru k
    by (rule LDLRUInsert_cases [OF that, of True True k]) auto
  have "lru_inv (userKeys p)" "lru_inv (LDLRUClear (userKeys p))"
    using assms(1) lru_inv_clear by (auto simp: ep_inv_def)
  then have "\<exists>e p'. LDi_maybeMakeIndexEvent p user now = Inr (True, e, p')"
    using ins [of "userKeys p" "user_key user"] ins [of "LDLRUClear (userKeys p)" "user_key user"] u
    by (fastforce simp: LDi_maybeMakeIndexEvent_def Let_def split: LDLRUStatus.split)
  then show ?thesis using kept_on_return [OF maybeMakeIndexEvent_kept _ assms(1)] by fastforce
qed

lemma addEvent_returns: "ep_inv p \<Longrightarrow> \<exists>p'. LDi_addEvent p e = Inr p' \<and> ep_inv p' \<and> ep_config p' = ep_config p"
  using kept_on_return [OF addEvent_kept] by (fastforce simp: addEvent_eq ep_inv_def)

lemma possiblyQueue_returns:
  assumes "ep_inv p" and "is_object e"
  shows "\<exists>p'. LDi_possiblyQueueEvent p e now detailed = Inr p' \<and> ep_inv p' \<and> ep_config p' = ep_config p"
  using addEvent_returns [OF assms(1)] assms by (simp add: possiblyQueue_eq)

lemma summarize_returns:
  assumes "ep_inv p" and "event_wf e"
  shows "\<exists>p'. LDi_summarizeEvent E p e unknown now = Inr (True, p') \<and> ep_inv p' \<and>
    ep_config p' = ep_config p"
proof -
  obtain p' where "LDi_summarizeEvent E p e unknown now = Inr (True, p')"
    using summarize_wf [of p e E unknown now] assms by (auto simp: ep_inv_def)
  with kept_on_return [OF summarize_kept this assms(1)] show ?thesis by simp
qed

lemma summarize_all_returns:
  assumes "ep_inv p" and "\<forall>e \<in> set es. event_wf e"
  shows "\<exists>p'. summarize_all E p es now = Inr (True, p') \<and> ep_inv p' \<and> ep_config p' = ep_config p"
  using assms
proof (induction es arbitrary: p)
  case (Cons e es)
  from summarize_returns [of p e E False now] Cons.prems obtain p1 where
    p1: "LDi_summarizeEvent E p e False now = Inr (True, p1)" "ep_inv p1" "ep_config p1 = ep_config p"
    by auto
  with Cons.IH [of p1] Cons.prems(2) show ?case by auto
qed auto

lemma queue_all_returns:
  assumes "ep_inv p" and "\<forall>e \<in> set es. is_object e"
  shows "\<exists>p'. queue_all p es now detailed = Inr p' \<and> ep_inv p' \<and> ep_config p' = ep_config p"
  using assms
proof (induction es arbitrary: p)
  case (Cons e es)
  from possiblyQueue_returns [of p e now detailed] Cons.prems obtain p1 where
    p1: "LDi_possiblyQueueEvent p e now detailed = Inr p1" "ep_inv p1" "ep_config p1 = ep_config p"
    by auto
  with Cons.IH [of p1] Cons.prems(2) show ?case by auto
qed auto

lemma queue_sub_events_returns:
  assumes "ep_inv p" and "events_ok sub"
  shows "\<exists>p'. queue_sub_events E p sub now detailed = Inr (True, p') \<and> ep_inv p' \<and>
    ep_config p' = ep_config p"
proof (cases sub)
  case (Some j)
  with assms(2) obtain es where j: "j = JArray es" "\<forall>e \<in> set es. event_wf e \<and> is_object e"
    by (auto simp: events_ok_def feature_event_def)
  obtain p1 where p1: "summarize_all E p es now = Inr (True, p1)" "ep_inv p1" "ep_config p1 = ep_config p"
    using summarize_all_returns [OF assms(1), of es E now] j(2) by blast
  obtain p2 where "queue_all p1 es now detailed = Inr p2" "ep_inv p2" "ep_config p2 = ep_config p1"
    using queue_all_returns [OF p1(2), of es now detailed] j(2) by blast
  with p1 show ?thesis by (simp add: queue_sub_events_def Some j(1))
qed (use assms(1) in \<open>simp add: queue_sub_events_def\<close>)

lemma process_evaluation_returns:
  assumes p: "ep_inv p" "processor_ok p" and u: "user_wf user" and sub: "events_ok sub"
    and e: "\<exists>e. LDi_newFeatureRequestEvent p key user
      (if hasVariation d then Some (variationIndex d) else None)
      (if LDi_notNull actual then actual else fallback) fallback None flag d now = Inr (Some e)"
  shows "\<exists>p'. LDi_processEvaluation E p user sub key actual fallback flag d detailed now =
    Inr (True, p') \<and> ep_inv p' \<and> ep_config p' = ep_config p"
proof -
  from e obtain feature where f: "LDi_newFeatureRequestEvent p key user
      (if hasVariation d then Some (variationIndex d) else None)
      (if LDi_notNull actual then actual else fallback) fallback None flag d now = Inr (Some feature)"
    by blast
  from feature_event_wf [OF f] have wf: "event_wf feature" "is_object feature"
    by (auto simp: feature_event_def)
  obtain ie p1 where p1: "LDi_maybeMakeIndexEvent p user now = Inr (True, ie, p1)" "ep_inv p1"
    "ep_config p1 = ep_config p"
    using maybeMakeIndexEvent_ok [OF p u] by blast
  obtain p2 where p2: "LDi_summarizeEvent E p1 feature (flag = None) now = Inr (True, p2)" "ep_inv p2"
    "ep_config p2 = ep_config p1"
    using summarize_returns [OF p1(2) wf(1)] by blast
  obtain p3 where p3: "(case ie of None \<Rightarrow> Inr p2 | Some e \<Rightarrow> LDi_addEvent p2 e) = Inr p3" "ep_inv p3"
    "ep_config p3 = ep_config p2"
    using addEvent_returns [OF p2(2)] p2(2) by (cases ie) auto
  obtain p4 where p4: "(if flag \<noteq> None then LDi_possiblyQueueEvent p3 feature now detailed else Inr p3) =
      Inr p4" "ep_inv p4" "ep_config p4 = ep_config p3"
    using possiblyQueue_returns [OF p3(2) wf(2)] p3(2) by (cases flag) auto
  obtain p5 where p5: "queue_sub_events E p4 sub now detailed = Inr (True, p5)" "ep_inv p5"
    "ep_config p5 = ep_config p4"
    using queue_sub_events_returns [OF p4(2) sub] by blast
  show ?thesis
    unfolding LDi_processEvaluation_def Let_def f
    using p1 p2 p3 p4 p5 by (simp del: not_None_eq)
qed

section \<open>One flag\<close>

text \<open>An initialised client without backend whose event processor is in order.\<close>

definition client_ok :: "'b LDClient \<Rightarrow> bool" where
  "client_ok cl \<longleftrightarrow> store_initialized (cl_store cl) \<and> memory_ok (cl_store cl) \<and>
     ep_inv (eventProcessor cl) \<and> processor_ok (eventProcessor cl)"

text \<open>What the caller gets for an evaluation with value \<open>v\<close> and details \<open>d\<close>.\<close>

definition answer :: "json \<Rightarrow> (LDJSONType \<Rightarrow> bool) \<Rightarrow> json option \<Rightarrow> LDDetails \<Rightarrow> bool \<times> json \<times> LDDetails" where
  "answer fallback checkType v d =
     (case v of
        None \<Rightarrow> (True, fallback, d)
      | Some j \<Rightarrow>
          if j = JNull then (True, fallback, d)
          else if checkType (json_type j) then (False, j, d)
          else (True, fallback, set_error LD_WRONG_TYPE d))"

lemma report_and_check_answer:
  assumes "client_ok cl" and "user_wf user" and "events_ok sub"
    and "\<exists>e. LDi_newFeatureRequestEvent (eventProcessor cl) key user
      (if hasVariation d then Some (variationIndex d) else None)
      (if LDi_notNull v then v else Some fallback) (Some fallback) None flag d unix = Inr (Some e)"
  shows "\<exists>r cl'. report_and_check E cl user key fallback checkType detailed unix sub v flag d = Inr r \<and>
    (fell_back r, v_result r, v_details r) = answer fallback checkType v d \<and>
    v_client r = Some cl' \<and> client_ok cl' \<and> cl_store cl' = cl_store cl"
proof -
  obtain p' where p': "LDi_processEvaluation E (eventProcessor cl) user sub key v (Some fallback) flag d
      detailed unix = Inr (True, p')" "ep_inv p'" "ep_config p' = ep_config (eventProcessor cl)"
    using process_evaluation_returns [OF _ _ assms(2-4)] assms(1) by (auto simp: client_ok_def)
  then have "client_ok (cl\<lparr>eventProcessor := p'\<rparr>)"
    using assms(1) by (simp add: client_ok_def processor_ok_def)
  then show ?thesis
    unfolding report_and_check_def p'(1)
    by (cases v) (auto simp: Let_def answer_def give_fallback_def)
qed

lemma initialized_variation:
  "store_initialized (cl_store cl) \<Longrightarrow>
    variation depth E (Some cl) (Some user) (Some key) fallback checkType o_dets monotonic unix =
    evaluate_stored depth E cl user key fallback checkType (o_dets \<noteq> None) monotonic unix
      (LDDetailsInit (case o_dets of Some d \<Rightarrow> d | None \<Rightarrow> fresh_details))"
  by (simp add: variation_def LDStoreInitialized_def)

lemma stored_flag_answer:
  assumes "client_ok cl" and "data_ok E user (cl_store cl) rank" and "user_wf user"
    and "stored (cl_store cl) LD_FLAG key = Some flag" and "rank key \<le> n"
  shows "\<exists>s out r cl'.
    LDi_evaluate (Suc n) E (eventProcessor cl) user monotonic unix flag
      \<lparr>o_details = LDDetailsInit (case o_dets of Some d \<Rightarrow> d | None \<Rightarrow> fresh_details),
       o_events = None, o_value = None, o_store = cl_store cl\<rparr> = Inr (s, out) \<and>
    variation (Suc n) E (Some cl) (Some user) (Some key) fallback checkType o_dets
      monotonic unix = Inr r \<and>
    (fell_back r, v_result r, v_details r) = answer fallback checkType (o_value out) (o_details out) \<and>
    reason (o_details out) \<notin> {LD_UNKNOWN, LD_ERROR} \<and>
    (\<forall>v. o_value out = Some v \<longrightarrow>
       LDArrayLookup (LDObjectLookup (Some flag) ''variations'') (variationIndex (o_details out)) = Some v) \<and>
    v_client r = Some cl' \<and> client_ok cl' \<and> cl_store cl' = cl_store cl"
proof -
  let ?d = "LDDetailsInit (case o_dets of Some d \<Rightarrow> d | None \<Rightarrow> fresh_details)"
  let ?st = "\<lparr>o_details = ?d, o_events = None, o_value = None, o_store = cl_store cl\<rparr>"
  have c: "store_initialized (cl_store cl)" "memory_ok (cl_store cl)" "processor_ok (eventProcessor cl)"
    using assms(1) by (auto simp: client_ok_def)
  have f: "flag_ok E user flag" "\<forall>k \<in> prerequisite_keys flag. rank k < n"
    using assms(2,4,5) by (fastforce simp: data_ok_def)+
  obtain s out where s: "LDi_evaluate (Suc n) E (eventProcessor cl) user monotonic unix flag ?st =
      Inr (s, out)" "decided s" "explained flag ?st out" "events_ok (o_events out)"
    using evaluate_ranked [OF assms(2,3) c(3) f, of monotonic unix, unfolded evaluates_def,
        THEN spec, of ?st] by (auto simp: events_ok_def)
  then have out: "o_store out = cl_store cl" "details_ok (o_details out)"
      "reason (o_details out) \<notin> {LD_UNKNOWN, LD_ERROR}" "served flag out"
    by (auto simp: explained_def)
  have "tracking_ok flag" using f(1) by (simp add: flag_ok_def)
  note ev = feature_event_ok [OF c(3) assms(3) this out(2,3)]
  have cl: "cl\<lparr>cl_store := cl_store cl\<rparr> = cl" by simp
  obtain r cl' where r: "report_and_check E cl user key fallback checkType (o_dets \<noteq> None) unix
      (o_events out) (o_value out) (Some flag) (o_details out) = Inr r"
    "(fell_back r, v_result r, v_details r) = answer fallback checkType (o_value out) (o_details out)"
    "v_client r = Some cl'" "client_ok cl'" "cl_store cl' = cl_store cl"
    using report_and_check_answer [OF assms(1,3) s(4) ev] by blast
  have "s \<noteq> EVAL_MEM" "s \<noteq> EVAL_SCHEMA" using s(2) by auto
  then have "evaluate_stored (Suc n) E cl user key fallback checkType (o_dets \<noteq> None)
      monotonic unix ?d = Inr r"
    unfolding evaluate_stored_def stored_get [OF c(2)] assms(4) cl
    using s(1) r(1) out(1) by (simp add: cl)
  with s(1) r out(3,4) show ?thesis
    unfolding initialized_variation [OF c(1)] by (auto simp: served_def)
qed

text \<open>
  C1: a variation call returns what the flag says. On an initialised client whose flags and
  segments are well formed and whose prerequisites have no cycle, a call for a stored flag never
  aborts and always returns: the variation the evaluation selected, which is a member of the
  flag's \<open>variations\<close>, when it is not \<open>null\<close> and of the type the caller asked for; otherwise the
  fallback, with \<open>LD_WRONG_TYPE\<close> in the details on a type mismatch and the evaluation's own
  reason otherwise. The store is unchanged and the event processor keeps its invariant, so the
  next call finds the same situation.
\<close>

theorem variation_serves:
  assumes "client_ok cl" and "data_ok E user (cl_store cl) rank" and "user_wf user"
    and "stored (cl_store cl) LD_FLAG key = Some flag"
  shows "\<exists>s out r cl'.
    LDi_evaluate (Suc (rank key)) E (eventProcessor cl) user monotonic unix flag
      \<lparr>o_details = LDDetailsInit (case o_dets of Some d \<Rightarrow> d | None \<Rightarrow> fresh_details),
       o_events = None, o_value = None, o_store = cl_store cl\<rparr> = Inr (s, out) \<and>
    variation (Suc (rank key)) E (Some cl) (Some user) (Some key) fallback checkType o_dets
      monotonic unix = Inr r \<and>
    (fell_back r, v_result r, v_details r) = answer fallback checkType (o_value out) (o_details out) \<and>
    (\<forall>v. o_value out = Some v \<longrightarrow>
       LDArrayLookup (LDObjectLookup (Some flag) ''variations'') (variationIndex (o_details out)) = Some v) \<and>
    v_client r = Some cl' \<and> client_ok cl' \<and> cl_store cl' = cl_store cl"
  using stored_flag_answer [OF assms order_refl] by blast

definition error_answer ::
    "json \<Rightarrow> LDEvalErrorKind \<Rightarrow> LDDetails option \<Rightarrow> 'b LDClient option \<Rightarrow> 'b variation_out run" where
  "error_answer fallback kind o_dets client =
     Inr \<lparr>fell_back = True, v_result = fallback,
       v_details = set_error kind (LDDetailsInit (case o_dets of Some d \<Rightarrow> d | None \<Rightarrow> fresh_details)),
       v_client = client\<rparr>"

lemma unknown_flag_answer:
  assumes "client_ok cl" and "user_wf user" and "stored (cl_store cl) LD_FLAG key = None"
  shows "\<exists>cl'. variation depth E (Some cl) (Some user) (Some key) fallback checkType o_dets monotonic unix =
      error_answer fallback LD_FLAG_NOT_FOUND o_dets (Some cl') \<and> client_ok cl' \<and>
      cl_store cl' = cl_store cl"
proof -
  define d where "d = LDDetailsInit (case o_dets of Some d \<Rightarrow> d | None \<Rightarrow> fresh_details)"
  have c: "store_initialized (cl_store cl)" "memory_ok (cl_store cl)" "processor_ok (eventProcessor cl)"
    using assms(1) by (auto simp: client_ok_def)
  obtain e0 where "LDi_addUserInfoToEvent (eventProcessor cl) (LDi_newBaseEvent ''feature'' unix) user = Inr e0"
    using user_info_returns [OF c(3) assms(2)] by blast
  then have ev: "\<exists>e. LDi_newFeatureRequestEvent (eventProcessor cl) key user
      (if hasVariation (set_error LD_FLAG_NOT_FOUND d)
       then Some (variationIndex (set_error LD_FLAG_NOT_FOUND d)) else None)
      (if LDi_notNull None then None else Some fallback) (Some fallback) None None
      (set_error LD_FLAG_NOT_FOUND d) unix = Inr (Some e)"
    unfolding LDi_newFeatureRequestEvent_def Let_def
    by (simp add: flag_members_def experiment_tracking_def set_error_def LDReasonToJSON_def
        LDEvalReasonKindToString_def reason_members_def LDEvalErrorKindToString_def)
  have "events_ok None" by (simp add: events_ok_def)
  from report_and_check_answer [OF assms(1,2) this ev, of E checkType "o_dets \<noteq> None"] obtain r cl' where
    r: "report_and_check E cl user key fallback checkType (o_dets \<noteq> None) unix None None None
      (set_error LD_FLAG_NOT_FOUND d) = Inr r"
    "fell_back r" "v_result r = fallback" "v_details r = set_error LD_FLAG_NOT_FOUND d"
    "v_client r = Some cl'" "client_ok cl'" "cl_store cl' = cl_store cl"
    by (auto simp: answer_def)
  have "evaluate_stored depth E cl user key fallback checkType (o_dets \<noteq> None) monotonic unix d = Inr r"
    unfolding evaluate_stored_def stored_get [OF c(2)] assms(3) using r(1) by simp
  then have "variation depth E (Some cl) (Some user) (Some key) fallback checkType o_dets monotonic unix =
      error_answer fallback LD_FLAG_NOT_FOUND o_dets (Some cl')"
    unfolding initialized_variation [OF c(1)] error_answer_def d_def [symmetric]
    using r by (cases r) simp
  with r show ?thesis by blast
qed

text \<open>
  The error a call is to report, given the value its evaluation selects, by the documentation
  of the error kinds in variations.h: the first of a missing client, user or key, a client that
  is not initialised, an unknown flag, and a value of another type than the caller asked for.
\<close>

definition call_error ::
    "'b LDClient option \<Rightarrow> LDUser option \<Rightarrow> string option \<Rightarrow> (LDJSONType \<Rightarrow> bool) \<Rightarrow> (json \<Rightarrow> json option) \<Rightarrow>
     LDEvalErrorKind option" where
  "call_error client user key checkType selected =
     (case (client, user, key) of
        (None, _, _) \<Rightarrow> Some LD_CLIENT_NOT_SPECIFIED
      | (Some _, None, _) \<Rightarrow> Some LD_USER_NOT_SPECIFIED
      | (Some _, Some _, None) \<Rightarrow> Some LD_NULL_KEY
      | (Some cl, Some _, Some k) \<Rightarrow>
          if \<not> store_initialized (cl_store cl) then Some LD_CLIENT_NOT_READY
          else case stored (cl_store cl) LD_FLAG k of
            None \<Rightarrow> Some LD_FLAG_NOT_FOUND
          | Some flag \<Rightarrow>
              (case selected flag of
                 None \<Rightarrow> None
               | Some v \<Rightarrow> if v = JNull \<or> checkType (json_type v) then None else Some LD_WRONG_TYPE))"

text \<open>The value the evaluation of a flag selects, none when it selects none.\<close>

definition selected_value ::
    "nat \<Rightarrow> env \<Rightarrow> 'b LDClient option \<Rightarrow> LDUser option \<Rightarrow> LDDetails option \<Rightarrow> rat \<Rightarrow> rat \<Rightarrow> json \<Rightarrow> json option" where
  "selected_value depth E client user o_dets monotonic unix flag =
     (case LDi_evaluate depth E (eventProcessor (the client)) (the user) monotonic unix flag
        \<lparr>o_details = LDDetailsInit (case o_dets of Some d \<Rightarrow> d | None \<Rightarrow> fresh_details),
         o_events = None, o_value = None, o_store = cl_store (the client)\<rparr> of
        Inl _ \<Rightarrow> None
      | Inr (_, out) \<Rightarrow> o_value out)"

text \<open>A client without backend, initialised or not, on data as in the theorem above.\<close>

definition call_ok :: "env \<Rightarrow> 'b LDClient option \<Rightarrow> LDUser option \<Rightarrow> nat \<Rightarrow> bool" where
  "call_ok E client user n \<longleftrightarrow>
     (\<forall>cl u. client = Some cl \<longrightarrow> user = Some u \<longrightarrow> user_wf u \<and>
        (if store_initialized (cl_store cl)
         then client_ok cl \<and> (\<exists>rank. data_ok E u (cl_store cl) rank \<and> (\<forall>k. rank k \<le> n))
         else backend (cl_store cl) = None))"

text \<open>
  C19: which calls report which error. A variation call on a client without backend and with
  well-formed data, with any of its arguments missing, always returns; its details carry the
  reason \<open>LD_ERROR\<close> just when one of the six conditions above holds, with the kind of the first
  that holds, and then it returns the fallback; in all other cases the reason is neither
  \<open>LD_ERROR\<close> nor \<open>LD_UNKNOWN\<close>. In particular no such call reports \<open>LD_STORE_ERROR\<close>,
  \<open>LD_MALFORMED_FLAG\<close> or \<open>LD_OOM\<close>.
\<close>

theorem variation_errors:
  assumes "call_ok E client user n"
  shows "\<exists>r. variation (Suc n) E client user key fallback checkType o_dets monotonic unix = Inr r \<and>
    (case call_error client user key checkType (selected_value (Suc n) E client user o_dets monotonic unix) of
       Some kind \<Rightarrow> fell_back r \<and> v_result r = fallback \<and> reason (v_details r) = LD_ERROR \<and>
         extra (v_details r) = ExtraErrorKind kind
     | None \<Rightarrow> reason (v_details r) \<notin> {LD_ERROR, LD_UNKNOWN})"
proof (cases "\<exists>cl u k. client = Some cl \<and> user = Some u \<and> key = Some k \<and> store_initialized (cl_store cl)")
  case True
  then obtain cl u k where c: "client = Some cl" "user = Some u" "key = Some k" "store_initialized (cl_store cl)"
    by blast
  with assms obtain rank where ok: "client_ok cl" "user_wf u" "data_ok E u (cl_store cl) rank" "rank k \<le> n"
    by (auto simp: call_ok_def)
  show ?thesis
  proof (cases "stored (cl_store cl) LD_FLAG k")
    case None
    from unknown_flag_answer [OF ok(1,2) None] show ?thesis
      by (fastforce simp: c call_error_def None error_answer_def set_error_def)
  next
    case (Some flag)
    from stored_flag_answer [OF ok(1,3,2) Some ok(4)] obtain s out r where
      e: "LDi_evaluate (Suc n) E (eventProcessor cl) u monotonic unix flag
        \<lparr>o_details = LDDetailsInit (case o_dets of Some d \<Rightarrow> d | None \<Rightarrow> fresh_details),
         o_events = None, o_value = None, o_store = cl_store cl\<rparr> = Inr (s, out)"
      and r: "variation (Suc n) E (Some cl) (Some u) (Some k) fallback checkType o_dets monotonic unix = Inr r"
        "(fell_back r, v_result r, v_details r) = answer fallback checkType (o_value out) (o_details out)"
        "reason (o_details out) \<notin> {LD_UNKNOWN, LD_ERROR}"
      by blast
    have "selected_value (Suc n) E client user o_dets monotonic unix flag = o_value out"
      unfolding selected_value_def c option.sel e by simp
    then show ?thesis
      using r by (auto simp: c(1-3) call_error_def c(4) Some answer_def set_error_def simp del: LDi_evaluate.simps
          split: option.splits if_splits)
  qed
next
  case False
  then show ?thesis
    using assms
    by (cases client; cases user; cases key)
       (auto simp: call_ok_def call_error_def variation_def give_fallback_def set_error_def LDStoreInitialized_def)
qed

text \<open>
  C34: a failing backend is reported when it fails on the flag itself and not when it fails on a
  prerequisite. Let the backend fail to read a flag that is not cached. A call for that flag
  returns the fallback with the error \<open>LD_STORE_ERROR\<close>. But a call for a cached flag that is on
  and has it as first prerequisite returns the fallback with the reason \<open>LD_UNKNOWN\<close>, and no
  event records the evaluation: but for the state of the backend the client is as before.
\<close>

theorem store_failure_unreported:
  assumes "store_initialized (cl_store cl)" and "backend (cl_store cl) = Some be"
    and "memoryGetCollectionItem (cl_store cl) ''features'' key = Some item"
    and "ci_feature item = Some flag" and "\<not> isExpired (cl_store cl) monotonic item"
    and "\<not> LDi_isFeatureDeleted flag" and "LDObjectLookup (Some flag) ''on'' = Some (JBool True)"
    and "LDObjectLookup (Some flag) ''prerequisites'' = Some (JArray (pre # ps))"
    and "LDObjectLookup (Some pre) ''key'' = Some (JText pkey)"
    and "LDObjectLookup (Some pre) ''variation'' = Some (JNumber x)"
    and "memoryGetCollectionItem (cl_store cl) ''features'' pkey = None"
    and "be_get be (be_context be) ''features'' pkey = (False, got, ctx)"
    and "processor_ok (eventProcessor cl)" and "user_wf user"
  shows "variation (Suc depth) E (Some cl) (Some user) (Some pkey) fallback checkType (Some dets) monotonic unix =
      error_answer fallback LD_STORE_ERROR (Some dets) (Some (cl\<lparr>cl_store := set_context be ctx (cl_store cl)\<rparr>)) \<and>
    (\<exists>d. variation (Suc depth) E (Some cl) (Some user) (Some key) fallback checkType (Some dets) monotonic unix =
      Inr \<lparr>fell_back = True, v_result = fallback, v_details = d,
        v_client = Some (cl\<lparr>cl_store := set_context be ctx (cl_store cl)\<rparr>)\<rparr> \<and> reason d = LD_UNKNOWN)"
proof -
  let ?s = "cl_store cl" and ?d = "LDDetailsInit dets"
  define cl' where "cl' = cl\<lparr>cl_store := set_context be ctx ?s\<rparr>"
  have kind: "featureKindToString LD_FLAG = ''features''" by (simp add: featureKindToString_def)
  have pget: "LDStoreGet E ?s monotonic LD_FLAG pkey = Inr (False, None, set_context be ctx ?s)"
    using assms(2,11,12) by (simp add: LDStoreGet_def kind tryGetBackend_def)
  have get: "LDStoreGet E ?s monotonic LD_FLAG key = Inr (True, Some flag, ?s)"
    using assms(3-6) by (simp add: LDStoreGet_def kind LDJSONRCGet_def)
  have obj: "json_type flag = LDObject" using LDObjectLookup_Some_object [OF assms(7)] by auto
  have ev: "LDi_evaluate (Suc depth) E (eventProcessor cl) user monotonic unix flag
      \<lparr>o_details = ?d, o_events = None, o_value = None, o_store = ?s\<rparr> =
      Inr (EVAL_STORE, \<lparr>o_details = ?d, o_events = None, o_value = None, o_store = set_context be ctx ?s\<rparr>)"
    by (simp add: evaluate_flag_def LDi_checkPrerequisites_def array_member_def assms(7-10) obj
        check_prerequisite_def pget LDi_isEvalError_def Let_def)
  obtain e0 where e0: "LDi_addUserInfoToEvent (eventProcessor cl) (LDi_newBaseEvent ''feature'' unix) user = Inr e0"
    using user_info_returns [OF assms(13,14)] by blast
  have "LDReasonToJSON ?d = Inr None"
    by (simp add: LDReasonToJSON_def LDDetailsInit_def LDEvalReasonKindToString_def)
  then have "LDi_newFeatureRequestEvent (eventProcessor cl) key user None (Some fallback) (Some fallback)
      None (Some flag) ?d unix = Inr None"
    unfolding LDi_newFeatureRequestEvent_def Let_def e0
    by (simp split: option.split)
  then have rep: "report_and_check E cl' user key fallback checkType True unix None None (Some flag) ?d =
      give_fallback fallback ?d (Some cl')"
    by (simp add: cl'_def report_and_check_def LDi_processEvaluation_def LDDetailsInit_def)
  have "evaluate_stored (Suc depth) E cl user key fallback checkType True monotonic unix ?d =
      give_fallback fallback ?d (Some cl')"
    using rep unfolding evaluate_stored_def get cl'_def by (simp add: ev del: LDi_evaluate.simps)
  moreover have "evaluate_stored (Suc depth) E cl user pkey fallback checkType True monotonic unix ?d =
      give_fallback fallback (set_error LD_STORE_ERROR ?d) (Some cl')"
    unfolding evaluate_stored_def pget cl'_def by simp
  moreover have "reason ?d = LD_UNKNOWN" by (simp add: LDDetailsInit_def)
  ultimately show ?thesis
    unfolding initialized_variation [OF assms(1)]
    by (simp add: error_answer_def give_fallback_def cl'_def)
qed

section \<open>All flags\<close>

lemma evaluate_all_values:
  assumes ev: "\<forall>f \<in> set fs. evaluates (LDi_evaluate depth E p user monotonic unix) store f \<and>
      LDObjectLookup (Some f) ''key'' = Some (JText (feature_key f))"
    and "distinct (map feature_key fs)" and "is_object acc"
  shows "\<exists>obj. evaluate_all depth E p user monotonic unix fs store acc = Inr (Some obj, store) \<and>
    is_object obj \<and>
    (\<forall>k. k \<notin> feature_key ` set fs \<longrightarrow> LDObjectLookup (Some obj) k = LDObjectLookup (Some acc) k) \<and>
    (\<forall>f \<in> set fs. \<exists>s out. LDi_evaluate depth E p user monotonic unix f
        \<lparr>o_details = LDDetailsInit fresh_details, o_events = None, o_value = None, o_store = store\<rparr> =
        Inr (s, out) \<and>
      LDObjectLookup (Some obj) (feature_key f) =
        (case o_value out of None \<Rightarrow> LDObjectLookup (Some acc) (feature_key f) | Some v \<Rightarrow> Some v))"
  using assms
proof (induction fs arbitrary: acc)
  case (Cons f fs)
  let ?st = "\<lparr>o_details = LDDetailsInit fresh_details, o_events = None, o_value = None, o_store = store\<rparr>"
  have f: "evaluates (LDi_evaluate depth E p user monotonic unix) store f"
    "LDObjectLookup (Some f) ''key'' = Some (JText (feature_key f))"
    using Cons.prems(1) by auto
  obtain s out where s: "LDi_evaluate depth E p user monotonic unix f ?st = Inr (s, out)" "decided s"
    "o_store out = store"
    using f(1) [unfolded evaluates_def, THEN spec, of ?st]
    by (auto simp: events_ok_def explained_def)
  define acc' where "acc' = (case o_value out of None \<Rightarrow> acc | Some v \<Rightarrow> set_key (feature_key f) v acc)"
  have acc': "is_object acc'" "\<And>k. k \<noteq> feature_key f \<Longrightarrow> LDObjectLookup (Some acc') k = LDObjectLookup (Some acc) k"
    "LDObjectLookup (Some acc') (feature_key f) =
      (case o_value out of None \<Rightarrow> LDObjectLookup (Some acc) (feature_key f) | Some v \<Rightarrow> Some v)"
    using Cons.prems(3) by (auto simp: acc'_def obj_laws split: option.split)
  have step: "evaluate_all depth E p user monotonic unix (f # fs) store acc =
      evaluate_all depth E p user monotonic unix fs store acc'"
    using s f(2) Cons.prems(3) by (auto simp: acc'_def is_object_iff split: option.split)
  have new: "feature_key f \<notin> feature_key ` set fs" using Cons.prems(2) by auto
  have rest: "feature_key g \<noteq> feature_key f" if "g \<in> set fs" for g
    using that new by (metis image_eqI)
  from Cons.IH [of acc'] Cons.prems(1,2) acc'(1) obtain obj where obj:
    "evaluate_all depth E p user monotonic unix fs store acc' = Inr (Some obj, store)" "is_object obj"
    "\<forall>k. k \<notin> feature_key ` set fs \<longrightarrow> LDObjectLookup (Some obj) k = LDObjectLookup (Some acc') k"
    "\<forall>g \<in> set fs. \<exists>s out. LDi_evaluate depth E p user monotonic unix g ?st = Inr (s, out) \<and>
      LDObjectLookup (Some obj) (feature_key g) =
        (case o_value out of None \<Rightarrow> LDObjectLookup (Some acc') (feature_key g) | Some v \<Rightarrow> Some v)"
    by auto
  have same: "LDObjectLookup (Some acc') (feature_key g) = LDObjectLookup (Some acc) (feature_key g)"
    if "g \<in> set fs" for g
    by (rule acc'(2)) (rule rest [OF that])
  have tl: "\<exists>s out. LDi_evaluate depth E p user monotonic unix g ?st = Inr (s, out) \<and>
      LDObjectLookup (Some obj) (feature_key g) =
        (case o_value out of None \<Rightarrow> LDObjectLookup (Some acc) (feature_key g) | Some v \<Rightarrow> Some v)"
    if "g \<in> set fs" for g
    using obj(4) [rule_format, OF that] unfolding same [OF that] .
  have other: "LDObjectLookup (Some obj) k = LDObjectLookup (Some acc) k"
    if "k \<notin> feature_key ` set (f # fs)" for k
    using that obj(3) acc'(2) [of k] by simp
  have hd: "LDObjectLookup (Some obj) (feature_key f) =
      (case o_value out of None \<Rightarrow> LDObjectLookup (Some acc) (feature_key f) | Some v \<Rightarrow> Some v)"
    using obj(3) new acc'(3) by simp
  show ?case
    unfolding step
  proof (intro exI [of _ obj] conjI allI impI ballI)
    fix g assume "g \<in> set (f # fs)"
    then show "\<exists>s out. LDi_evaluate depth E p user monotonic unix g ?st = Inr (s, out) \<and>
      LDObjectLookup (Some obj) (feature_key g) =
        (case o_value out of None \<Rightarrow> LDObjectLookup (Some acc) (feature_key g) | Some v \<Rightarrow> Some v)"
      using tl s(1) hd by auto
  qed (use obj other in auto)
qed auto

lemma option_case_id: "(case p of None \<Rightarrow> None | Some v \<Rightarrow> Some v) = p"
  by (cases p) simp_all

lemma stored_feature:
  assumes "memory_ok store" and "stored store kind key = Some f"
  shows "LDObjectLookup (Some f) ''key'' = Some (JText key) \<and> feature_key f = key"
proof -
  from assms obtain item where "map_of (items store) (featureStoreCacheKey (featureKindToString kind) key) = Some item"
    "ci_feature item = Some f"
    by (auto simp: stored_def feature_at_def cached_feature_def visible_def split: option.splits if_splits
        bind_splits)
  moreover have "features_ok (items store) (featureKindToString kind)"
    using assms(1) by (simp add: memory_ok_def kind_ok_def)
  ultimately have "good_feature f" "feature_key f = key"
    unfolding features_ok_def by fastforce+
  then show ?thesis using good_featureD(1) [of f] by (auto simp: LDi_getFeatureKeyTrusted_def)
qed

text \<open>The collection \<open>LDStoreAll\<close> returns: every stored feature under its key, once.\<close>

lemma stored_collection:
  assumes "memory_ok store" and "memoryAllCollectionItem store (featureKindToString kind) \<noteq> None"
  obtains ps where "LDStoreAll E store now kind = Inr (True, Some (JObject ps), store)"
    and "map_of ps = stored store kind" and "distinct (map feature_key (map snd ps))"
    and "map feature_key (map snd ps) = map fst ps"
proof -
  obtain r where r: "LDStoreAll E store now kind = Inr (True, r, store)"
    "\<And>key. LDObjectLookup r key = stored store kind key" "\<And>c. r = Some c \<Longrightarrow> is_object c"
    using LDStoreAll_memory [OF assms(1), of E now kind] by (auto simp: stored_def)
  have "collection_ok (items store) (featureKindToString kind)
      (\<lambda>key. visible (cached_feature (items store) (featureKindToString kind) key))" "backend store = None"
    using assms(1) by (auto simp: memory_ok_def kind_ok_def)
  then have "r \<noteq> None"
    using r(1) assms(2) by (auto simp: LDStoreAll_def memoryAllCollectionItem_def collection_ok_def)
  then obtain ps where ps: "r = Some (JObject ps)" "unique_keys ps" using r(3) by (auto simp: is_object_iff)
  have look: "map_of ps = stored store kind" using r(2) by (auto simp: ps(1) fun_eq_iff)
  have "feature_key f = k" if "(k, f) \<in> set ps" for k f
    using stored_feature [OF assms(1)] map_of_is_SomeI [OF ps(2) that] by (auto simp: look)
  then have keys: "map feature_key (map snd ps) = map fst ps" by auto
  have "distinct (map feature_key (map snd ps))" unfolding keys by (rule ps(2))
  from r(1) [unfolded ps(1)] look this keys show thesis by (rule that)
qed

lemma stored_flag_evaluates:
  assumes "data_ok E user store rank" and "user_wf user" and "processor_ok p" and "memory_ok store"
    and "stored store LD_FLAG k = Some f" and "rank k \<le> n"
  shows "evaluates (LDi_evaluate (Suc n) E p user monotonic unix) store f \<and>
    LDObjectLookup (Some f) ''key'' = Some (JText (feature_key f))"
proof -
  have "flag_ok E user f" "\<forall>p \<in> prerequisite_keys f. rank p < rank k"
    using assms(1,5) by (auto simp: data_ok_def)
  then show ?thesis
    using stored_feature [OF assms(4,5)] assms(6) by (intro conjI evaluate_ranked [OF assms(1-3)]) auto
qed

lemma no_collection:
  assumes "memory_ok store" and "memoryAllCollectionItem store (featureKindToString kind) = None"
  shows "LDStoreAll E store now kind = Inr (True, None, store)" and "stored store kind key = None"
proof -
  have "backend store = None" "collection_ok (items store) (featureKindToString kind)
      (\<lambda>key. visible (cached_feature (items store) (featureKindToString kind) key))"
    using assms(1) by (auto simp: memory_ok_def kind_ok_def)
  then show "LDStoreAll E store now kind = Inr (True, None, store)" and "stored store kind key = None"
    using assms(2)
    by (simp_all add: LDStoreAll_def tryGetAllBackend_def memoryAllCollectionItem_def collection_ok_def
        stored_def feature_at_def)
qed

lemma all_flags_object:
  assumes "client_ok cl" and "data_ok E user (cl_store cl) rank" and "user_wf user"
    and "\<not> offline (cl_config cl)"
    and "\<forall>key flag. stored (cl_store cl) LD_FLAG key = Some flag \<longrightarrow> rank key \<le> n"
    and "memoryAllCollectionItem (cl_store cl) (featureKindToString LD_FLAG) \<noteq> None"
  shows "\<exists>obj. LDAllFlags (Suc n) E (Some cl) (Some user) monotonic unix = Inr (Some obj, Some cl) \<and>
    (\<forall>key. stored (cl_store cl) LD_FLAG key = None \<longrightarrow> LDObjectLookup (Some obj) key = None) \<and>
    (\<forall>key flag. stored (cl_store cl) LD_FLAG key = Some flag \<longrightarrow>
      (\<exists>s out. LDi_evaluate (Suc n) E (eventProcessor cl) user monotonic unix flag
          \<lparr>o_details = LDDetailsInit fresh_details, o_events = None, o_value = None,
           o_store = cl_store cl\<rparr> = Inr (s, out) \<and>
        LDObjectLookup (Some obj) key = o_value out))"
proof -
  let ?s = "cl_store cl"
  have c: "store_initialized ?s" "memory_ok ?s" "processor_ok (eventProcessor cl)"
    using assms(1) by (auto simp: client_ok_def)
  obtain ps where ps: "LDStoreAll E ?s monotonic LD_FLAG = Inr (True, Some (JObject ps), ?s)"
    "map_of ps = stored ?s LD_FLAG" "distinct (map feature_key (map snd ps))"
    "map feature_key (map snd ps) = map fst ps"
    by (rule stored_collection [OF c(2) assms(6)])
  have mem: "stored ?s LD_FLAG k = Some f" if "(k, f) \<in> set ps" for k f
    using ps(3) map_of_is_SomeI [OF _ that] by (simp only: ps(4) ps(2))
  have ev: "\<forall>f \<in> set (map snd ps).
      evaluates (LDi_evaluate (Suc n) E (eventProcessor cl) user monotonic unix) ?s f \<and>
      LDObjectLookup (Some f) ''key'' = Some (JText (feature_key f))"
    using stored_flag_evaluates [OF assms(2,3) c(3,2) mem] mem assms(5) by fastforce
  from evaluate_all_values [OF ev ps(3) is_object_empty] obtain obj where obj:
    "evaluate_all (Suc n) E (eventProcessor cl) user monotonic unix (map snd ps) ?s (JObject []) =
      Inr (Some obj, ?s)"
    "\<forall>k. k \<notin> feature_key ` snd ` set ps \<longrightarrow> LDObjectLookup (Some obj) k = None"
    "\<forall>f \<in> snd ` set ps. \<exists>s out. LDi_evaluate (Suc n) E (eventProcessor cl) user monotonic unix f
        \<lparr>o_details = LDDetailsInit fresh_details, o_events = None, o_value = None, o_store = ?s\<rparr> =
        Inr (s, out) \<and> LDObjectLookup (Some obj) (feature_key f) = o_value out"
    by (auto simp: option_case_id simp del: LDi_evaluate.simps cong: option.case_cong)
  have all: "LDAllFlags (Suc n) E (Some cl) (Some user) monotonic unix = Inr (Some obj, Some cl)"
    using assms(4) c(1) obj(1) by (simp add: LDAllFlags_def LDStoreInitialized_def ps(1) LDJSONRCGet_def)
  have none: "LDObjectLookup (Some obj) key = None" if "stored ?s LD_FLAG key = None" for key
  proof -
    have "key \<notin> fst ` set ps" using that unfolding ps(2) [symmetric] by (simp add: map_of_eq_None_iff)
    then have "key \<notin> feature_key ` snd ` set ps" using arg_cong [OF ps(4), of set] by (simp add: image_image)
    with obj(2) show ?thesis by blast
  qed
  have in_ps: "flag \<in> snd ` set ps" if "stored ?s LD_FLAG key = Some flag" for key flag
    using map_of_SomeD [of ps key flag] that unfolding ps(2) by force
  have val: "\<exists>s out. LDi_evaluate (Suc n) E (eventProcessor cl) user monotonic unix flag
      \<lparr>o_details = LDDetailsInit fresh_details, o_events = None, o_value = None, o_store = ?s\<rparr> =
      Inr (s, out) \<and> LDObjectLookup (Some obj) key = o_value out"
    if "stored ?s LD_FLAG key = Some flag" for key flag
    using obj(3) [rule_format, OF in_ps [OF that]] stored_feature [OF c(2) that] by simp
  show ?thesis
    by (intro exI [of _ obj] conjI allI impI; (rule all none val)?) assumption+
qed

text \<open>
  C18: \<open>LDAllFlags\<close> is complete and agrees with single evaluations, when there is a collection of
  flags to read. On an online, initialised client with well-formed data, it returns an object
  that holds under every key of a stored flag exactly the value a single evaluation of that flag
  yields (no member when the flag serves none), and nothing under any other key; no event is
  recorded and nothing changes. But when no flag was stored since the last initialisation, there
  is no collection, and the call aborts on an assertion instead of returning an empty object.
\<close>

theorem all_flags_complete:
  assumes "client_ok cl" and "data_ok E user (cl_store cl) rank" and "user_wf user"
    and "\<not> offline (cl_config cl)"
    and "\<forall>key flag. stored (cl_store cl) LD_FLAG key = Some flag \<longrightarrow> rank key \<le> n"
  shows "if memoryAllCollectionItem (cl_store cl) ''features'' = None
    then (\<forall>key. stored (cl_store cl) LD_FLAG key = None) \<and>
      LDAllFlags (Suc n) E (Some cl) (Some user) monotonic unix = Inl Assertion
    else \<exists>obj. LDAllFlags (Suc n) E (Some cl) (Some user) monotonic unix = Inr (Some obj, Some cl) \<and>
      (\<forall>key. stored (cl_store cl) LD_FLAG key = None \<longrightarrow> LDObjectLookup (Some obj) key = None) \<and>
      (\<forall>key flag. stored (cl_store cl) LD_FLAG key = Some flag \<longrightarrow>
        (\<exists>s out. LDi_evaluate (Suc n) E (eventProcessor cl) user monotonic unix flag
            \<lparr>o_details = LDDetailsInit fresh_details, o_events = None, o_value = None,
             o_store = cl_store cl\<rparr> = Inr (s, out) \<and>
          LDObjectLookup (Some obj) key = o_value out))"
proof (cases "memoryAllCollectionItem (cl_store cl) ''features'' = None")
  case True
  have c: "store_initialized (cl_store cl)" "memory_ok (cl_store cl)"
    using assms(1) by (auto simp: client_ok_def)
  have kind: "featureKindToString LD_FLAG = ''features''" by (simp add: featureKindToString_def)
  show ?thesis
    using True assms(4) c(1) no_collection [OF c(2) True [folded kind]]
    by (simp add: LDAllFlags_def LDStoreInitialized_def LDJSONRCGet_def)
next
  case False
  have kind: "featureKindToString LD_FLAG = ''features''" by (simp add: featureKindToString_def)
  show ?thesis unfolding if_not_P [OF False] by (rule all_flags_object [OF assms False [folded kind]])
qed

section \<open>Concrete calls\<close>

text \<open>A client over the two sample flags.\<close>

definition new_client :: "unit LDClient" where
  "new_client = the (LDClientInit (LDConfigNew (Some ''sdk'')) 0)"

definition sample_client :: "unit LDClient" where
  "sample_client = new_client\<lparr>cl_store := two_flags\<lparr>store_initialized := True\<rparr>\<rparr>"

lemma sample_client_store:
  "cl_store sample_client = two_flags\<lparr>store_initialized := True\<rparr>"
  "stored (cl_store sample_client) kind key = stored two_flags kind key"
  "data_ok E user (cl_store sample_client) rank = data_ok E user two_flags rank"
  by (simp_all add: sample_client_def stored_def feature_at_def data_ok_def memory_ok_def)

lemma sample_client_ok: "client_ok sample_client" "\<not> offline (cl_config sample_client)"
  using two_flags_ok(1)
  by (simp_all add: client_ok_def sample_client_def new_client_def memory_ok_def LDClientInit_def LDConfigNew_def
      Let_def LDi_newEventProcessor_def ep_inv_def queue_ok_def queue_def lru_inv_init processor_ok_def
      text_array_def)

theorem variation_serves_witness:
  "\<exists>s out r. LDi_evaluate 1 plain_env (eventProcessor sample_client) (LDi_userNew ''bob'') 5 6 flag_g
      \<lparr>o_details = LDDetailsInit fresh_details, o_events = None, o_value = None,
       o_store = cl_store sample_client\<rparr> = Inr (s, out) \<and>
    variation 1 plain_env (Some sample_client) (Some (LDi_userNew ''bob'')) (Some ''g'') (JBool False)
      isBool None 5 6 = Inr r \<and>
    (fell_back r, v_result r, v_details r) = answer (JBool False) isBool (o_value out) (o_details out)"
proof -
  have "data_ok plain_env (LDi_userNew ''bob'') (cl_store sample_client) (\<lambda>k. if k = ''f'' then 1 else 0)"
    "stored (cl_store sample_client) LD_FLAG ''g'' = Some flag_g"
    by (simp_all add: sample_client_store(2,3) sample_ok two_flags_ok)
  from variation_serves [OF sample_client_ok(1) this(1) sample_ok(2) this(2), of 5 6 None "JBool False" isBool]
  show ?thesis unfolding One_nat_def by (simp del: LDi_evaluate.simps) blast
qed

text \<open>A flag the store does not have.\<close>

theorem variation_errors_witness:
  "\<exists>r. variation 2 plain_env (Some sample_client) (Some (LDi_userNew ''bob'')) (Some ''nope'') (JNumber 3)
      isNumber None 5 6 = Inr r \<and> fell_back r \<and> v_result r = JNumber 3 \<and>
     reason (v_details r) = LD_ERROR \<and> extra (v_details r) = ExtraErrorKind LD_FLAG_NOT_FOUND"
proof -
  have "call_ok plain_env (Some sample_client) (Some (LDi_userNew ''bob'')) 1"
    using sample_client_ok(1) sample_ok(1,2)
    by (auto simp: call_ok_def sample_client_store(3) client_ok_def
        intro!: exI [of _ "\<lambda>k. if k = ''f'' then 1 else 0"])
  moreover have "store_initialized (cl_store sample_client)" "stored (cl_store sample_client) LD_FLAG ''nope'' = None"
    using sample_client_ok(1) by (simp_all add: client_ok_def sample_client_store(2) two_flags_ok)
  ultimately show ?thesis
    using variation_errors [of plain_env "Some sample_client" "Some (LDi_userNew ''bob'')" 1 "Some ''nope''" "JNumber 3"
        isNumber None 5 6]
    by (simp add: call_error_def numeral_2_eq_2)
qed

theorem all_flags_complete_witness:
  "\<exists>obj. LDAllFlags 2 plain_env (Some sample_client) (Some (LDi_userNew ''bob'')) 5 6 =
     Inr (Some obj, Some sample_client) \<and> LDObjectLookup (Some obj) ''other'' = None"
proof -
  let ?rank = "\<lambda>k. if k = ''f'' then 1 else 0 :: nat"
  have d: "data_ok plain_env (LDi_userNew ''bob'') (cl_store sample_client) ?rank"
    "stored (cl_store sample_client) LD_FLAG ''g'' = Some flag_g"
    "stored (cl_store sample_client) LD_FLAG ''other'' = None"
    by (simp_all add: sample_client_store(2,3) sample_ok two_flags_ok)
  have r: "\<forall>key flag. stored (cl_store sample_client) LD_FLAG key = Some flag \<longrightarrow> ?rank key \<le> 1"
    by simp
  have "memoryAllCollectionItem (cl_store sample_client) ''features'' \<noteq> None"
    using no_collection(2) [of "cl_store sample_client" LD_FLAG "''g''"] d(2) sample_client_ok(1)
    by (auto simp: client_ok_def featureKindToString_def)
  then show ?thesis
    using all_flags_complete [OF sample_client_ok(1) d(1) sample_ok(2) sample_client_ok(2) r, of 5 6] d(3)
    unfolding numeral_2_eq_2 One_nat_def by auto
qed

text \<open>
  A client of a project without flags: it is initialised with empty collections, and
  \<open>LDAllFlags\<close> aborts.
\<close>

lemma all_flags_no_flags:
  "\<exists>store. LDStoreInit plain_env (cl_store new_client) 1
      (JObject [(''features'', JObject []), (''segments'', JObject [])]) = Inr (True, store) \<and>
    LDAllFlags (Suc n) plain_env (Some (new_client\<lparr>cl_store := store\<rparr>)) (Some (LDi_userNew ''bob'')) 5 6 =
      Inl Assertion"
  by (simp add: new_client_def LDClientInit_def LDConfigNew_def Let_def LDStoreNew_def LDStoreInit_def
      memoryInit_def memoryCacheFlush_def filterAndCacheItems_def LDAllFlags_def LDStoreInitialized_def
      LDStoreAll_def memoryAllCollectionItem_def tryGetAllBackend_def LDJSONRCGet_def)

text \<open>A client whose backend fails while the prerequisite of a cached flag is read.\<close>

definition failing_backend :: "unit LDStoreInterface" where
  "failing_backend = \<lparr>be_context = (), be_init = (\<lambda>c _. (False, c)),
     be_get = (\<lambda>c _ _. (False, \<lparr>buffer = None, item_version = 0\<rparr>, c)),
     be_all = (\<lambda>c _. (False, [], c)), be_upsert = (\<lambda>c _ _ _. (False, c)),
     be_initialized = (\<lambda>c. (True, c))\<rparr>"

definition failing_client :: "unit LDClient" where
  "failing_client = sample_client\<lparr>cl_store := \<lparr>store_initialized = True,
     items = [(featureStoreCacheKey ''features'' ''f'', \<lparr>ci_feature = Some flag_f, updatedOn = 5\<rparr>)],
     backend = Some failing_backend, cacheMilliseconds = 30000\<rparr>\<rparr>"

theorem store_failure_unreported_witness:
  "\<exists>d. variation 1 plain_env (Some failing_client) (Some (LDi_userNew ''bob'')) (Some ''f'')
      (JText ''z'') isText (Some fresh_details) 5 6 =
    Inr \<lparr>fell_back = True, v_result = JText ''z'', v_details = d, v_client = Some failing_client\<rparr> \<and>
    reason d = LD_UNKNOWN"
proof -
  let ?s = "cl_store failing_client" and ?item = "\<lparr>ci_feature = Some flag_f, updatedOn = 5\<rparr>"
  let ?pre = "JObject [(''key'', JText ''g''), (''variation'', JNumber 1)]"
  have pre: "LDObjectLookup (Some flag_f) ''prerequisites'' = Some (JArray [?pre])"
      "LDObjectLookup (Some flag_f) ''on'' = Some (JBool True)"
    by (simp_all add: flag_f_def)
  have "store_initialized ?s" "backend ?s = Some failing_backend"
      "memoryGetCollectionItem ?s ''features'' ''f'' = Some ?item"
      "memoryGetCollectionItem ?s ''features'' ''g'' = None" "\<not> isExpired ?s 5 ?item"
      "be_get failing_backend (be_context failing_backend) ''features'' ''g'' =
        (False, \<lparr>buffer = None, item_version = 0\<rparr>, ())"
      "set_context failing_backend () ?s = ?s"
    by (simp_all add: failing_client_def memoryGetCollectionItem_def featureStoreCacheKey_def isExpired_def
        failing_backend_def to_double_def uint_to_double_def set_context_def)
  moreover have "processor_ok (eventProcessor failing_client)"
    using sample_client_ok(1) by (simp add: client_ok_def failing_client_def)
  ultimately show ?thesis
    using store_failure_unreported [of failing_client failing_backend "''f''" ?item flag_f 5 ?pre "[]" "''g''" 1
        "\<lparr>buffer = None, item_version = 0\<rparr>" "()" "LDi_userNew ''bob''" 0 plain_env "JText ''z''" isText fresh_details 6]
      flags_good(6) sample_ok(2) pre
    by simp
qed

end
