(* ===== verification/LD_Request.thy ===== *)
theory LD_Request
  imports LD_Client LD_Numeric
begin

text \<open>
  What the three network interfaces share: the first part of src/network.c (the preparation
  of a request and the attachment of its handle) and the random numbers of
  c-sdk-common/src/utility.c.

  libcurl is a parameter: the record \<open>curl\<close> says which of its calls succeed. A handle is the
  request it was set up with. A header list (\<open>struct curl_slist\<close>) is \<open>NULL\<close>, a list, or a list
  that was freed while the pointer to it was kept: using it again is the fault
  \<open>UseAfterFree\<close>. The random number generator is a sequence of results.
\<close>

section \<open>Header lists and handles\<close>

datatype CURLoption =
    CURLOPT_URL | CURLOPT_HTTPHEADER | CURLOPT_CONNECTTIMEOUT_MS | CURLOPT_WRITEDATA
  | CURLOPT_WRITEFUNCTION | CURLOPT_PRIVATE | CURLOPT_HEADERFUNCTION | CURLOPT_HEADERDATA
  | CURLOPT_POSTFIELDS

record curl =
  curl_easy_init :: bool
  curl_easy_setopt :: "CURLoption \<Rightarrow> bool"
  curl_slist_append :: "string \<Rightarrow> bool"
  curl_multi_add_handle :: bool
  curl_multi_remove_handle :: bool

text \<open>A library in which every call succeeds.\<close>

definition good_curl :: curl where
  "good_curl = \<lparr>curl_easy_init = True, curl_easy_setopt = (\<lambda>_. True),
     curl_slist_append = (\<lambda>_. True), curl_multi_add_handle = True, curl_multi_remove_handle = True\<rparr>"

datatype slist = NullList | Slist "string list" | FreedList

fun curl_slist_free_all :: "slist \<Rightarrow> unit run" where
  "curl_slist_free_all FreedList = Inl UseAfterFree"
| "curl_slist_free_all _ = Inr ()"

text \<open>The pointer after the list was freed and not reset.\<close>

fun freed :: "slist \<Rightarrow> slist" where
  "freed NullList = NullList"
| "freed _ = FreedList"

record request =
  rq_url :: string
  rq_headers :: "string list"
  rq_timeout :: u32
  rq_body :: "string option"

text \<open>\<open>snprintf\<close> into a buffer of the given size.\<close>

definition snprintf :: "nat \<Rightarrow> string \<Rightarrow> string" where
  "snprintf n s = take (n - 1) s"

definition LD_USER_AGENT :: string where
  "LD_USER_AGENT = ''User-Agent: CServerClient/2.4.0''"

definition wrapper_header :: "'b LDConfig \<Rightarrow> string list" where
  "wrapper_header config =
     (case wrapperName config of
        None \<Rightarrow> []
      | Some name \<Rightarrow>
          [snprintf 256 (case wrapperVersion config of
             Some version \<Rightarrow> ''X-LaunchDarkly-Wrapper: '' @ name @ ''/'' @ version
           | None \<Rightarrow> ''X-LaunchDarkly-Wrapper: '' @ name)])"

text \<open>Failure (\<open>None\<close>) leaves the caller's handle and header pointers as they were.\<close>

definition LDi_prepareShared :: "curl \<Rightarrow> 'b LDConfig \<Rightarrow> string \<Rightarrow> (request \<times> slist) option" where
  "LDi_prepareShared C config url =
     (let headers = [snprintf 256 (''Authorization: '' @ cfg_key config)] @ wrapper_header config @
            [LD_USER_AGENT]
      in if curl_easy_init C \<and> curl_easy_setopt C CURLOPT_URL \<and>
            list_all (curl_slist_append C) headers \<and>
            curl_easy_setopt C CURLOPT_HTTPHEADER \<and> curl_easy_setopt C CURLOPT_CONNECTTIMEOUT_MS
         then Some (\<lparr>rq_url = url, rq_headers = headers, rq_timeout = timeout config, rq_body = None\<rparr>,
           Slist headers)
         else None)"

definition LDi_addHandle :: "curl \<Rightarrow> bool" where
  "LDi_addHandle C = (curl_easy_setopt C CURLOPT_PRIVATE \<and> curl_multi_add_handle C)"

definition LDi_removeAndFreeHandle :: "curl \<Rightarrow> request option \<Rightarrow> bool run" where
  "LDi_removeAndFreeHandle C handle =
     run_bind (LD_ASSERT (handle \<noteq> None)) (\<lambda>_. Inr (curl_multi_remove_handle C))"

section \<open>Clock readings and random numbers\<close>

type_synonym ulong = "64 word"

definition double_to_ulong :: "rat \<Rightarrow> ulong run" where
  "double_to_ulong x =
     (let n = trunc_rat x in if 0 \<le> n \<and> n < 2 ^ 64 then Inr (word_of_int n) else Inl BadConversion)"

definition ulong_to_double :: "ulong \<Rightarrow> rat" where
  "ulong_to_double w = to_double (of_int (uint w))"

text \<open>\<open>RAND_MAX\<close> of the C library.\<close>

definition LD_RAND_MAX :: rat where
  "LD_RAND_MAX = 2147483647"

definition LDi_normalize :: "rat \<Rightarrow> rat \<Rightarrow> rat \<Rightarrow> rat \<Rightarrow> rat \<Rightarrow> rat" where
  "LDi_normalize n nmin nmax omin omax =
     to_double (to_double (to_double (to_double (n - nmin) * to_double (omax - omin)) /
       to_double (nmax - nmin)) + omin)"

type_synonym rng = "nat \<Rightarrow> u32 option"

text \<open>The characters written until the generator fails.\<close>

fun LDi_randomHex :: "rng \<Rightarrow> nat \<Rightarrow> string option" where
  "LDi_randomHex rng 0 = Some []"
| "LDi_randomHex rng (Suc n) =
     (case (LDi_randomHex rng n, rng n) of
        (Some cs, Some r) \<Rightarrow> Some (cs @ [''0123456789ABCDEF'' ! (unat r mod 16)])
      | _ \<Rightarrow> None)"

definition LD_UUID_SIZE :: nat where
  "LD_UUID_SIZE = 36"

definition LDi_UUIDv4 :: "rng \<Rightarrow> string option" where
  "LDi_UUIDv4 rng =
     map_option (\<lambda>cs. cs[8 := CHR ''-'', 13 := CHR ''-'', 18 := CHR ''-'', 23 := CHR ''-''])
       (LDi_randomHex rng LD_UUID_SIZE)"

lemma randomHex_length: "LDi_randomHex rng n = Some cs \<Longrightarrow> length cs = n"
  by (induction n arbitrary: cs) (auto split: option.splits)

lemma UUIDv4_length: "LDi_UUIDv4 rng = Some u \<Longrightarrow> length u = LD_UUID_SIZE"
  by (auto simp: LDi_UUIDv4_def dest!: randomHex_length)

lemma double_to_ulong_Inr: "double_to_ulong x = Inr w \<Longrightarrow> uint w = trunc_rat x"
  by (auto simp: double_to_ulong_def Let_def uint_word_of_int split: if_splits)

lemma double_to_ulong_ok:
  "0 \<le> x \<Longrightarrow> x < 2 ^ 64 \<Longrightarrow> double_to_ulong x = Inr (word_of_int \<lfloor>x\<rfloor>) \<and> uint (word_of_int \<lfloor>x\<rfloor> :: ulong) = \<lfloor>x\<rfloor>"
  by (simp add: double_to_ulong_def trunc_rat_def Let_def floor_less_iff uint_word_of_int)

lemma ulong_to_double_small: "uint w < 2 ^ 53 \<Longrightarrow> ulong_to_double w = of_int (uint w)"
  unfolding ulong_to_double_def by (rule to_double_int) simp_all

lemma prepareShared_request:
  "LDi_prepareShared C config url = Some (rq, hs) \<Longrightarrow>
     rq_url rq = url \<and> rq_body rq = None \<and> hs = Slist (rq_headers rq)"
  by (auto simp: LDi_prepareShared_def Let_def split: if_splits)

lemma prepareShared_good: "LDi_prepareShared good_curl config url \<noteq> None"
  by (simp add: LDi_prepareShared_def good_curl_def wrapper_header_def list_all_def Let_def)

end
