(* ===== verification/LD_SSE.thy ===== *)
theory LD_SSE
  imports LD_Prelude
begin

text \<open>
  c-sdk-common/src/sse.c: the parser of the server-sent event stream. Bytes arrive in chunks
  of any size; complete lines are taken off the buffer and interpreted, an empty line hands the
  collected event to the dispatch callback, which is an argument together with its context.

  The buffer is the memory \<open>parser->buffer\<close>; its first \<open>bufferSize\<close> bytes are the unread input.
  Where a \<open>NULL\<close> buffer meets a size other than zero the code reads memory it never wrote: the
  fault \<open>Uninitialised\<close>. Allocation succeeds.

  The laws: the parser does not depend on how the stream is cut into chunks, it is a scanner
  followed by the dispatch of what it found, and it inverts the encoding of events.
\<close>

section \<open>The parser\<close>

record LDSSEParser =
  ps_buffer :: "string option"
  bufferSize :: nat
  eventName :: "string option"
  eventBody :: "string option"

type_synonym 'c ld_sse_dispatch = "string \<Rightarrow> string \<Rightarrow> 'c \<Rightarrow> (bool \<times> 'c) run"

definition LDSSEParserInitialize :: LDSSEParser where
  "LDSSEParserInitialize = \<lparr>ps_buffer = None, bufferSize = 0, eventName = None, eventBody = None\<rparr>"

text \<open>The size is not reset.\<close>

definition LDSSEParserDestroy :: "LDSSEParser \<Rightarrow> LDSSEParser" where
  "LDSSEParserDestroy parser = parser\<lparr>ps_buffer := None, eventName := None, eventBody := None\<rparr>"

text \<open>The text after a field name: one space after the colon is dropped.\<close>

definition field_value :: "nat \<Rightarrow> string \<Rightarrow> string" where
  "field_value n line =
     (let rest = drop n line in case rest of CHR '' '' # r \<Rightarrow> r | _ \<Rightarrow> rest)"

definition LDi_processLine ::
    "'c ld_sse_dispatch \<Rightarrow> LDSSEParser \<Rightarrow> string \<Rightarrow> 'c \<Rightarrow> (bool \<times> LDSSEParser \<times> 'c) run" where
  "LDi_processLine dispatch parser line context =
     (if take 1 line = '':'' then Inr (True, parser, context)
      else if line = [] then
        run_bind (case (eventName parser, eventBody parser) of
            (Some name, Some body) \<Rightarrow> dispatch name body context
          | _ \<Rightarrow> Inr (True, context))
          (\<lambda>(status, context'). Inr (status, parser\<lparr>eventName := None, eventBody := None\<rparr>, context'))
      else if take 5 line = ''data:'' then
        (let value = field_value 5 line
         in Inr (True, parser\<lparr>eventBody := Some (case eventBody parser of
              None \<Rightarrow> value | Some body \<Rightarrow> body @ CHR 0x0A # value)\<rparr>, context))
      else if take 6 line = ''event:'' then
        Inr (True, parser\<lparr>eventName := Some (field_value 6 line)\<rparr>, context)
      else Inr (True, parser, context))"

text \<open>\<open>memchr\<close> for the newline: what stands before it and after it.\<close>

fun split_newline :: "string \<Rightarrow> (string \<times> string) option" where
  "split_newline [] = None"
| "split_newline (c # cs) =
     (if c = CHR 0x0A then Some ([], cs)
      else map_option (\<lambda>(line, rest). (c # line, rest)) (split_newline cs))"

lemma split_newline_eq:
  "split_newline bytes = Some (line, rest) \<longleftrightarrow> bytes = line @ CHR 0x0A # rest \<and> CHR 0x0A \<notin> set line"
proof (induction bytes arbitrary: line)
  case (Cons c cs)
  then show ?case by (cases line) auto
qed simp

lemma split_newline_none: "split_newline bytes = None \<longleftrightarrow> CHR 0x0A \<notin> set bytes"
  by (induction bytes) auto

lemma split_newline_length [termination_simp]:
  "split_newline bytes = Some (line, rest) \<Longrightarrow> length rest < length bytes"
  by (auto simp: split_newline_eq)

text \<open>
  The loop over complete lines. \<open>before\<close> is what has been consumed, each newline
  overwritten by NUL: a refused event leaves the whole buffer behind in that form.
\<close>

function process_lines ::
    "'c ld_sse_dispatch \<Rightarrow> LDSSEParser \<Rightarrow> string \<Rightarrow> string \<Rightarrow> 'c \<Rightarrow> (bool \<times> LDSSEParser \<times> 'c) run" where
  "process_lines dispatch parser before bytes context =
     (case split_newline bytes of
        None \<Rightarrow> Inr (True, parser\<lparr>ps_buffer := Some bytes, bufferSize := length bytes\<rparr>, context)
      | Some (line, rest) \<Rightarrow>
          run_bind (LDi_processLine dispatch parser (cstr line) context) (\<lambda>(ok, parser', context').
            if ok then process_lines dispatch parser' (before @ line @ [CHR 0x00]) rest context'
            else let all = before @ line @ CHR 0x00 # rest
                 in Inr (False, parser'\<lparr>ps_buffer := Some all, bufferSize := length all\<rparr>, context')))"
  by pat_completeness auto
termination by (relation "measure (\<lambda>(_, _, _, bytes, _). length bytes)") (auto simp: split_newline_length)

declare process_lines.simps [simp del]

text \<open>The unread input of a parser.\<close>

definition pending :: "LDSSEParser \<Rightarrow> string run" where
  "pending parser =
     (case ps_buffer parser of
        Some b \<Rightarrow> Inr (take (bufferSize parser) b)
      | None \<Rightarrow> if bufferSize parser = 0 then Inr [] else Inl Uninitialised)"

definition LDSSEParserProcess ::
    "'c ld_sse_dispatch \<Rightarrow> LDSSEParser \<Rightarrow> string \<Rightarrow> 'c \<Rightarrow> (bool \<times> LDSSEParser \<times> 'c) run" where
  "LDSSEParserProcess dispatch parser bytes context =
     (if bytes = [] then Inr (True, parser, context)
      else run_bind (pending parser) (\<lambda>old. process_lines dispatch parser [] (old @ bytes) context))"

section \<open>Chunks\<close>

text \<open>The parser as the state between two chunks: only the unread input matters.\<close>

lemma processLine_buffer:
  "LDi_processLine dispatch (p\<lparr>ps_buffer := b, bufferSize := n\<rparr>) l c =
   run_bind (LDi_processLine dispatch p l c)
     (\<lambda>r. Inr (fst r, (fst (snd r))\<lparr>ps_buffer := b, bufferSize := n\<rparr>, snd (snd r)))"
  by (cases p) (auto simp: LDi_processLine_def Let_def run_bind_assoc case_prod_beta split: option.split
      intro!: run_bind_cong)

lemma process_lines_buffer:
  "process_lines dispatch (p\<lparr>ps_buffer := b, bufferSize := n\<rparr>) before bytes c =
   process_lines dispatch p before bytes c"
proof (induction dispatch p before bytes c arbitrary: b n rule: process_lines.induct)
  case (1 dispatch p before bytes c)
  show ?case
  proof (cases "split_newline bytes")
    case None
    then show ?thesis by (simp add: process_lines.simps [of _ _ _ bytes])
  next
    case (Some lr)
    then obtain line rest where lr: "split_newline bytes = Some (line, rest)" by (cases lr) auto
    have "process_lines dispatch (p'\<lparr>ps_buffer := b, bufferSize := n\<rparr>) (before @ line @ [CHR 0x00]) rest c' =
        process_lines dispatch p' (before @ line @ [CHR 0x00]) rest c'"
      if "LDi_processLine dispatch p (cstr line) c = Inr (True, p', c')" for p' c'
      using 1 [OF lr refl that] by simp
    then show ?thesis
      by (auto simp: process_lines.simps [of _ _ _ bytes] lr processLine_buffer run_bind_assoc
          case_prod_beta intro!: run_bind_cong)
  qed
qed

text \<open>What a caller sees: the parser matters only while the stream goes on.\<close>

definition outcome ::
    "(bool \<times> LDSSEParser \<times> 'c) run \<Rightarrow> (bool \<times> LDSSEParser option \<times> 'c) run" where
  "outcome r = run_bind r (\<lambda>(ok, p, c). Inr (ok, if ok then Some p else None, c))"

lemma outcome_simps [simp]:
  "outcome (Inl f) = Inl f"
  "outcome (Inr (ok, p, c)) = Inr (ok, if ok then Some p else None, c)"
  by (simp_all add: outcome_def)

lemma outcome_bind:
  "outcome (run_bind m f) = run_bind m (\<lambda>x. outcome (f x))"
  by (cases m) simp_all

text \<open>One line at a time, with the rest of the computation abstract.\<close>

lemma process_lines_step:
  assumes "split_newline bytes = Some (line, rest)"
  shows "outcome (process_lines d p before bytes c) =
    run_bind (LDi_processLine d p (cstr line) c) (\<lambda>(ok, p', c').
      if ok then outcome (process_lines d p' (before @ line @ [CHR 0x00]) rest c')
      else Inr (False, None, c'))"
  by (subst process_lines.simps) (auto simp: assms outcome_bind Let_def intro!: run_bind_cong)

lemma process_lines_before:
  "outcome (process_lines d p before bytes c) = outcome (process_lines d p before' bytes c)"
proof (induction d p before bytes c arbitrary: before' rule: process_lines.induct)
  case (1 d p before bytes c)
  show ?case
  proof (cases "split_newline bytes")
    case None
    then show ?thesis by (simp add: process_lines.simps [of _ _ _ bytes])
  next
    case (Some lr)
    then obtain line rest where lr: "split_newline bytes = Some (line, rest)" by (cases lr) auto
    have rest: "outcome (process_lines d p' (before @ line @ [CHR 0x00]) rest c') =
        outcome (process_lines d p' (before' @ line @ [CHR 0x00]) rest c')"
      if "LDi_processLine d p (cstr line) c = Inr (True, p', c')" for p' c'
      by (rule 1 [OF lr refl that refl refl]) simp
    show ?thesis
      unfolding process_lines_step [OF lr]
      by (rule run_bind_cong [OF refl]) (clarsimp split: prod.split simp: rest)
  qed
qed

lemma process_lines_append:
  "outcome (process_lines d p before (xs @ ys) c) =
   outcome (run_bind (process_lines d p before xs c) (\<lambda>(ok, p', c').
     if ok then process_lines d p' [] (the (ps_buffer p') @ ys) c' else Inr (ok, p', c')))"
proof (induction d p before xs c rule: process_lines.induct)
  case (1 d p before xs c)
  show ?case
  proof (cases "split_newline xs")
    case None
    then show ?thesis
      by (simp add: process_lines.simps [of d p before xs c] process_lines_buffer)
        (rule process_lines_before)
  next
    case (Some lr)
    then obtain line rest where lr: "split_newline xs = Some (line, rest)" by (cases lr) auto
    then have lr': "split_newline (xs @ ys) = Some (line, rest @ ys)" by (auto simp: split_newline_eq)
    have rest: "outcome (process_lines d p' (before @ line @ [CHR 0x00]) (rest @ ys) c') =
        outcome (run_bind (process_lines d p' (before @ line @ [CHR 0x00]) rest c') (\<lambda>(ok, p', c').
          if ok then process_lines d p' [] (the (ps_buffer p') @ ys) c' else Inr (ok, p', c')))"
      if "LDi_processLine d p (cstr line) c = Inr (True, p', c')" for p' c'
      using 1 [OF lr refl that refl refl] by simp
    show ?thesis
      unfolding process_lines_step [OF lr'] process_lines.simps [of d p before xs c] lr option.case prod.case
        run_bind_assoc outcome_bind [of "LDi_processLine d p (cstr line) c"]
      by (rule run_bind_cong [OF refl]) (auto simp: rest Let_def split: prod.split)
  qed
qed

fun process_chunks ::
    "'c ld_sse_dispatch \<Rightarrow> LDSSEParser \<Rightarrow> string list \<Rightarrow> 'c \<Rightarrow> (bool \<times> LDSSEParser \<times> 'c) run" where
  "process_chunks d p [] c = Inr (True, p, c)"
| "process_chunks d p (x # xs) c =
     run_bind (LDSSEParserProcess d p x c) (\<lambda>(ok, p', c').
       if ok then process_chunks d p' xs c' else Inr (False, p', c'))"

lemma process_lines_rest:
  "process_lines d p before xs c = Inr (True, p', c') \<Longrightarrow>
     \<exists>r. ps_buffer p' = Some r \<and> bufferSize p' = length r"
proof (induction d p before xs c rule: process_lines.induct)
  case (1 d p before xs c)
  show ?case
  proof (cases "split_newline xs")
    case None
    then show ?thesis using "1.prems" by (auto simp: process_lines.simps [of d p before xs c])
  next
    case (Some lr)
    then obtain line rest where lr: "split_newline xs = Some (line, rest)" by (cases lr) auto
    obtain p1 c1 where step: "LDi_processLine d p (cstr line) c = Inr (True, p1, c1)"
      "process_lines d p1 (before @ line @ [CHR 0x00]) rest c1 = Inr (True, p', c')"
      using "1.prems"
      by (auto simp: process_lines.simps [of d p before xs c] lr run_simps Let_def split: if_splits)
    show ?thesis by (rule "1.IH" [OF lr refl step(1) refl refl]) (simp_all add: step(2))
  qed
qed

lemma process_nothing [simp]: "LDSSEParserProcess d p [] c = Inr (True, p, c)"
  by (simp add: LDSSEParserProcess_def)

lemma process_append:
  "outcome (LDSSEParserProcess d p (xs @ ys) c) =
   outcome (run_bind (LDSSEParserProcess d p xs c) (\<lambda>(ok, p', c').
     if ok then LDSSEParserProcess d p' ys c' else Inr (ok, p', c')))"
proof (cases "xs = [] \<or> ys = []")
  case True
  have id: "run_bind m (\<lambda>(ok, p', c'). if ok then LDSSEParserProcess d p' [] c' else Inr (ok, p', c')) = m"
    for m
    by (cases m) auto
  from True show ?thesis
  proof
    assume "ys = []"
    then show ?thesis by (simp only: append_Nil2 id)
  qed simp
next
  case False
  have cont: "process_lines d p' [] (the (ps_buffer p') @ ys) c' = LDSSEParserProcess d p' ys c'"
    if "process_lines d p [] (old @ xs) c = Inr (True, p', c')" for old p' c'
    using process_lines_rest [OF that] False by (auto simp: LDSSEParserProcess_def pending_def)
  show ?thesis
  proof (cases "pending p")
    case (Inr old)
    have "outcome (run_bind (process_lines d p [] (old @ xs) c) (\<lambda>(ok, p', c').
        if ok then process_lines d p' [] (the (ps_buffer p') @ ys) c' else Inr (ok, p', c'))) =
      outcome (run_bind (process_lines d p [] (old @ xs) c) (\<lambda>(ok, p', c').
        if ok then LDSSEParserProcess d p' ys c' else Inr (ok, p', c')))"
      by (rule arg_cong [of _ _ outcome], rule run_bind_cong [OF refl]) (auto simp: cont split: prod.split)
    then show ?thesis
      using False Inr process_lines_append [of d p "[]" "old @ xs" ys c]
      by (simp add: LDSSEParserProcess_def [of d p])
  qed (use False in \<open>simp add: LDSSEParserProcess_def\<close>)
qed

lemma chunking:
  "outcome (process_chunks d p chunks c) = outcome (LDSSEParserProcess d p (concat chunks) c)"
proof (induction chunks arbitrary: p c)
  case Nil
  show ?case by (simp add: LDSSEParserProcess_def)
next
  case (Cons x xs)
  have "outcome (process_chunks d p (x # xs) c) =
      run_bind (LDSSEParserProcess d p x c) (\<lambda>(ok, p', c').
        outcome (if ok then LDSSEParserProcess d p' (concat xs) c' else Inr (ok, p', c')))"
    unfolding process_chunks.simps outcome_bind
    by (rule run_bind_cong [OF refl]) (auto simp: Cons split: prod.split)
  also have "\<dots> = outcome (LDSSEParserProcess d p (concat (x # xs)) c)"
    unfolding concat.simps process_append outcome_bind
    by (rule run_bind_cong [OF refl]) (simp split: prod.split)
  finally show ?case .
qed

text \<open>
  The parser does not depend on how the network cuts the stream. Feeding any list of
  chunks, one call of \<open>LDSSEParserProcess\<close> each, has the outcome of a single call with all
  bytes: the same events reach the callback in the same order, the same failure ends the stream
  or the same parser state (pending input, event name and body) is left. The callback and its
  context are arbitrary.
\<close>

theorem sse_chunking:
  "outcome (process_chunks d p chunks c) = outcome (LDSSEParserProcess d p (concat chunks) c)"
  by (rule chunking)

section \<open>Decoding what a server encodes\<close>

fun body_lines :: "string \<Rightarrow> string list" where
  "body_lines [] = [[]]"
| "body_lines (c # cs) =
     (if c = CHR 0x0A then [] # body_lines cs
      else (c # hd (body_lines cs)) # tl (body_lines cs))"

definition data_line :: "string \<Rightarrow> string" where
  "data_line l = ''data: '' @ l @ [CHR 0x0A]"

text \<open>The stream form of an event: its name, one \<open>data\<close> line per line of its body, an empty line.\<close>

fun sse_encode :: "string \<times> string \<Rightarrow> string" where
  "sse_encode (name, body) =
     ''event: '' @ name @ CHR 0x0A # concat (map data_line (body_lines body)) @ [CHR 0x0A]"

fun dispatch_all :: "'c ld_sse_dispatch \<Rightarrow> (string \<times> string) list \<Rightarrow> 'c \<Rightarrow> (bool \<times> 'c) run" where
  "dispatch_all d [] c = Inr (True, c)"
| "dispatch_all d (e # es) c =
     run_bind (d (fst e) (snd e) c) (\<lambda>(ok, c'). if ok then dispatch_all d es c' else Inr (False, c'))"

fun add_lines :: "string option \<Rightarrow> string list \<Rightarrow> string option" where
  "add_lines b [] = b"
| "add_lines b (l # ls) =
     add_lines (Some (case b of None \<Rightarrow> l | Some body \<Rightarrow> body @ CHR 0x0A # l)) ls"

lemma body_lines_not_empty [simp]: "body_lines b \<noteq> []"
  by (cases b) simp_all

lemma add_lines_prefix:
  "add_lines (Some x) ls = Some (x @ concat (map (\<lambda>l. CHR 0x0A # l) ls))"
  by (induction ls arbitrary: x) auto

lemma join_body_lines:
  "hd (body_lines b) @ concat (map (\<lambda>l. CHR 0x0A # l) (tl (body_lines b))) = b"
proof (induction b)
  case (Cons c cs)
  have "concat (map (\<lambda>l. CHR 0x0A # l) (body_lines cs)) = CHR 0x0A # cs"
    using Cons by (cases "body_lines cs") auto
  with Cons show ?case by auto
qed simp

lemma add_body_lines: "add_lines None (body_lines b) = Some b"
  using join_body_lines [of b] by (cases "body_lines b") (auto simp: add_lines_prefix)

lemma body_lines_chars:
  "l \<in> set (body_lines b) \<Longrightarrow> set l \<subseteq> set b - {CHR 0x0A}"
proof (induction b arbitrary: l)
  case (Cons c cs)
  obtain h t where ht: "body_lines cs = h # t" by (cases "body_lines cs") auto
  have "set x \<subseteq> set cs - {CHR 0x0A}" if "x \<in> set (h # t)" for x
    using that by (intro Cons.IH) (simp only: ht)
  then have "set h \<subseteq> set cs - {CHR 0x0A}" "\<And>x. x \<in> set t \<Longrightarrow> set x \<subseteq> set cs - {CHR 0x0A}" by auto
  with Cons.prems show ?case by (cases "c = CHR 0x0A") (auto simp: ht)
qed simp

text \<open>The effect of complete lines, the bytes before them forgotten.\<close>

lemma field_line:
  assumes "CHR 0x0A \<notin> set l" and "CHR 0x00 \<notin> set l"
    and "\<And>c. LDi_processLine d p l c = Inr (True, p', c)"
  shows "outcome (process_lines d p before (l @ CHR 0x0A # rest) c) = outcome (process_lines d p' [] rest c)"
proof -
  have "split_newline (l @ CHR 0x0A # rest) = Some (l, rest)" using assms(1) by (simp add: split_newline_eq)
  from process_lines_step [OF this, of d p before c] show ?thesis
    by (simp add: cstr_id [OF assms(2)] assms(3)) (rule process_lines_before)
qed

lemma data_lines:
  assumes "\<forall>l \<in> set ls. CHR 0x0A \<notin> set l \<and> CHR 0x00 \<notin> set l"
  shows "outcome (process_lines d p before (concat (map data_line ls) @ rest) c) =
    outcome (process_lines d (p\<lparr>eventBody := add_lines (eventBody p) ls\<rparr>) [] rest c)"
  using assms
proof (induction ls arbitrary: p before)
  case Nil
  then show ?case by (simp add: process_lines_before [of d p before])
next
  case (Cons l ls)
  let ?p = "p\<lparr>eventBody := Some (case eventBody p of None \<Rightarrow> l | Some body \<Rightarrow> body @ CHR 0x0A # l)\<rparr>"
  have "LDi_processLine d p (''data: '' @ l) c' = Inr (True, ?p, c')" for c'
    by (simp add: LDi_processLine_def field_value_def)
  then have "outcome (process_lines d p before ((''data: '' @ l) @ CHR 0x0A #
      (concat (map data_line ls) @ rest)) c) =
    outcome (process_lines d ?p [] (concat (map data_line ls) @ rest) c)"
    using Cons.prems by (intro field_line) auto
  also have "\<dots> = outcome (process_lines d (?p\<lparr>eventBody := add_lines (eventBody ?p) ls\<rparr>) [] rest c)"
    using Cons.prems by (intro Cons.IH) simp
  also have "(''data: '' @ l) @ CHR 0x0A # (concat (map data_line ls) @ rest) =
      concat (map data_line (l # ls)) @ rest"
    unfolding list.map concat.simps data_line_def [of l] by simp
  finally show ?case by simp
qed

lemma encoded_event:
  assumes "CHR 0x0A \<notin> set n" and "CHR 0x00 \<notin> set n" and "CHR 0x00 \<notin> set b"
    and "eventName p = None" and "eventBody p = None"
  shows "outcome (process_lines d p before (sse_encode (n, b) @ rest) c) =
    run_bind (d n b c) (\<lambda>(ok, c'). if ok then outcome (process_lines d p [] rest c')
      else Inr (False, None, c'))"
proof -
  let ?p = "p\<lparr>eventName := Some n, eventBody := Some b\<rparr>"
  have "LDi_processLine d p (''event: '' @ n) c' = Inr (True, p\<lparr>eventName := Some n\<rparr>, c')" for c'
    by (simp add: LDi_processLine_def field_value_def)
  then have "outcome (process_lines d p before ((''event: '' @ n) @ CHR 0x0A #
      (concat (map data_line (body_lines b)) @ CHR 0x0A # rest)) c) =
    outcome (process_lines d (p\<lparr>eventName := Some n\<rparr>) []
      (concat (map data_line (body_lines b)) @ CHR 0x0A # rest) c)"
    using assms(1,2) by (intro field_line) auto
  also have "\<dots> = outcome (process_lines d ?p [] (CHR 0x0A # rest) c)"
    using assms(3,5) body_lines_chars [of _ b]
    by (subst data_lines) (auto simp: add_body_lines dest!: body_lines_chars)
  also have "\<dots> = run_bind (d n b c) (\<lambda>(ok, c'). if ok then outcome (process_lines d p [] rest c')
      else Inr (False, None, c'))"
  proof -
    have "split_newline (CHR 0x0A # rest) = Some ([], rest)" by simp
    moreover have "outcome (process_lines d p [CHR 0x00] rest c') = outcome (process_lines d p [] rest c')" for c'
      by (rule process_lines_before)
    moreover have "?p\<lparr>eventName := None, eventBody := None\<rparr> = p" using assms(4,5) by (cases p) simp
    ultimately show ?thesis
      by (subst process_lines_step)
        (auto simp: LDi_processLine_def cstr_def run_bind_assoc intro!: run_bind_cong)
  qed
  also have "(''event: '' @ n) @ CHR 0x0A # (concat (map data_line (body_lines b)) @ CHR 0x0A # rest) =
      sse_encode (n, b) @ rest" by simp
  finally show ?thesis by simp
qed

lemma encoded_events:
  assumes "\<forall>(n, b) \<in> set evs. CHR 0x0A \<notin> set n \<and> CHR 0x00 \<notin> set n \<and> CHR 0x00 \<notin> set b"
    and "eventName p = None" and "eventBody p = None"
  shows "outcome (process_lines d p before (concat (map sse_encode evs)) c) =
    run_bind (dispatch_all d evs c) (\<lambda>(ok, c').
      Inr (ok, if ok then Some (p\<lparr>ps_buffer := Some [], bufferSize := 0\<rparr>) else None, c'))"
  using assms
proof (induction evs arbitrary: before c)
  case Nil
  show ?case by (subst process_lines.simps) simp
next
  case (Cons e evs)
  obtain n b where e: "e = (n, b)" by (cases e)
  have rest: "outcome (process_lines d p [] (concat (map sse_encode evs)) c') =
      run_bind (dispatch_all d evs c') (\<lambda>(ok, c').
        Inr (ok, if ok then Some (p\<lparr>ps_buffer := Some [], bufferSize := 0\<rparr>) else None, c'))" for c'
    using Cons by simp
  have "CHR 0x0A \<notin> set n" "CHR 0x00 \<notin> set n" "CHR 0x00 \<notin> set b" using Cons.prems(1) by (auto simp: e)
  from encoded_event [OF this Cons.prems(2,3), of d before "concat (map sse_encode evs)" c]
  show ?case
    by (auto simp: e rest run_bind_assoc simp del: sse_encode.simps intro!: run_bind_cong)
qed

section \<open>Scanning and dispatching\<close>

text \<open>
  The parser as a pure scanner: the events a chunk completes and the parser left behind. What
  the callback does has no influence on either.
\<close>

definition scan_line :: "LDSSEParser \<Rightarrow> string \<Rightarrow> (string \<times> string) list \<times> LDSSEParser" where
  "scan_line p l =
     (if take 1 l = '':'' then ([], p)
      else if l = [] then
        (case (eventName p, eventBody p) of (Some n, Some b) \<Rightarrow> [(n, b)] | _ \<Rightarrow> [],
         p\<lparr>eventName := None, eventBody := None\<rparr>)
      else if take 5 l = ''data:'' then
        ([], p\<lparr>eventBody := add_lines (eventBody p) [field_value 5 l]\<rparr>)
      else if take 6 l = ''event:'' then ([], p\<lparr>eventName := Some (field_value 6 l)\<rparr>)
      else ([], p))"

function scan_lines :: "LDSSEParser \<Rightarrow> string \<Rightarrow> (string \<times> string) list \<times> LDSSEParser" where
  "scan_lines p bytes =
     (case split_newline bytes of
        None \<Rightarrow> ([], p\<lparr>ps_buffer := Some bytes, bufferSize := length bytes\<rparr>)
      | Some (line, rest) \<Rightarrow>
          let (es, p') = scan_line p (cstr line); (es', p'') = scan_lines p' rest in (es @ es', p''))"
  by pat_completeness auto
termination by (relation "measure (\<lambda>(_, bytes). length bytes)") (auto simp: split_newline_length)

declare scan_lines.simps [simp del]

definition scan_chunk :: "LDSSEParser \<Rightarrow> string \<Rightarrow> (string \<times> string) list \<times> LDSSEParser" where
  "scan_chunk p bytes =
     (if bytes = [] then ([], p) else case pending p of Inl _ \<Rightarrow> ([], p) | Inr old \<Rightarrow> scan_lines p (old @ bytes))"

text \<open>Hand over events, then go on with a parser.\<close>

definition delivered ::
    "'c ld_sse_dispatch \<Rightarrow> (string \<times> string) list \<times> LDSSEParser \<Rightarrow> 'c \<Rightarrow>
     (bool \<times> LDSSEParser option \<times> 'c) run" where
  "delivered d r c =
     run_bind (dispatch_all d (fst r) c) (\<lambda>(ok, c'). Inr (ok, if ok then Some (snd r) else None, c'))"

lemma dispatch_all_append:
  "dispatch_all d (es @ es') c =
   run_bind (dispatch_all d es c) (\<lambda>(ok, c'). if ok then dispatch_all d es' c' else Inr (False, c'))"
  by (induction es arbitrary: c) (auto simp: run_bind_assoc intro!: run_bind_cong)

lemma processLine_scan:
  "LDi_processLine d p l c =
   run_bind (dispatch_all d (fst (scan_line p l)) c) (\<lambda>(ok, c'). Inr (ok, snd (scan_line p l), c'))"
  by (auto simp: LDi_processLine_def scan_line_def Let_def run_bind_assoc split: option.split
      intro!: run_bind_cong)

lemma process_lines_scan: "outcome (process_lines d p before bytes c) = delivered d (scan_lines p bytes) c"
proof (induction bytes arbitrary: p before c rule: measure_induct_rule [of length])
  case (less bytes)
  show ?case
  proof (cases "split_newline bytes")
    case None
    then show ?thesis
      by (simp add: process_lines.simps [of d p] scan_lines.simps [of p] delivered_def)
  next
    case (Some lr)
    then obtain line rest where lr: "split_newline bytes = Some (line, rest)" by (cases lr) auto
    obtain es p' where sl: "scan_line p (cstr line) = (es, p')" by (cases "scan_line p (cstr line)")
    have rest: "outcome (process_lines d p' before' rest c') = delivered d (scan_lines p' rest) c'" for before' c'
      by (rule less) (rule split_newline_length [OF lr])
    show ?thesis
      unfolding process_lines_step [OF lr] scan_lines.simps [of p bytes] processLine_scan sl
      by (auto simp: lr sl rest delivered_def dispatch_all_append run_bind_assoc case_prod_beta
          intro!: run_bind_cong)
  qed
qed

lemma process_scan:
  "pending p = Inr old \<Longrightarrow> outcome (LDSSEParserProcess d p bytes c) = delivered d (scan_chunk p bytes) c"
  by (simp add: LDSSEParserProcess_def scan_chunk_def process_lines_scan) (simp add: delivered_def)

lemma scan_lines_pending: "\<exists>old. pending (snd (scan_lines p bytes)) = Inr old"
proof (induction p bytes rule: scan_lines.induct)
  case (1 p bytes)
  show ?case
  proof (cases "split_newline bytes")
    case (Some lr)
    then obtain line rest where lr: "split_newline bytes = Some (line, rest)" by (cases lr) auto
    obtain es p' where sl: "scan_line p (cstr line) = (es, p')" by (cases "scan_line p (cstr line)")
    from 1 [OF lr refl sl [symmetric] refl] show ?thesis
      by (subst scan_lines.simps) (simp add: lr sl case_prod_beta)
  qed (subst scan_lines.simps, simp add: pending_def)
qed

lemma scan_chunk_pending: "pending p = Inr old \<Longrightarrow> \<exists>old'. pending (snd (scan_chunk p bytes)) = Inr old'"
  using scan_lines_pending by (auto simp: scan_chunk_def)

fun scan_chunks :: "LDSSEParser \<Rightarrow> string list \<Rightarrow> (string \<times> string) list \<times> LDSSEParser" where
  "scan_chunks p [] = ([], p)"
| "scan_chunks p (x # xs) =
     (let (es, p') = scan_chunk p x; (es', p'') = scan_chunks p' xs in (es @ es', p''))"

text \<open>The same with a callback that changes from chunk to chunk, such as one that reads a clock.\<close>

fun process_timed ::
    "('t \<Rightarrow> 'c ld_sse_dispatch) \<Rightarrow> LDSSEParser \<Rightarrow> ('t \<times> string) list \<Rightarrow> 'c \<Rightarrow> (bool \<times> LDSSEParser \<times> 'c) run" where
  "process_timed D p [] c = Inr (True, p, c)"
| "process_timed D p ((t, x) # xs) c =
     run_bind (LDSSEParserProcess (D t) p x c) (\<lambda>(ok, p', c').
       if ok then process_timed D p' xs c' else Inr (False, p', c'))"

fun dispatch_timed :: "('t \<Rightarrow> 'c ld_sse_dispatch) \<Rightarrow> ('t \<times> string \<times> string) list \<Rightarrow> 'c \<Rightarrow> (bool \<times> 'c) run" where
  "dispatch_timed D [] c = Inr (True, c)"
| "dispatch_timed D ((t, e) # es) c =
     run_bind (D t (fst e) (snd e) c) (\<lambda>(ok, c'). if ok then dispatch_timed D es c' else Inr (False, c'))"

lemma dispatch_timed_append:
  "dispatch_timed D (map (Pair t) es @ tes) c =
   run_bind (dispatch_all (D t) es c) (\<lambda>(ok, c'). if ok then dispatch_timed D tes c' else Inr (False, c'))"
  by (induction es arbitrary: c) (auto simp: run_bind_assoc intro!: run_bind_cong)

lemma outcome_continue:
  assumes "outcome m = Inr (True, Some p, c)"
  shows "m = Inr (True, p, c)"
  using assms by (cases m) (auto split: if_splits)

lemma process_timed_events:
  assumes "pending p = Inr old"
  shows "\<exists>tes. map snd tes = fst (scan_chunks p (map snd chunks)) \<and> fst ` set tes \<subseteq> fst ` set chunks \<and>
    (\<forall>c. outcome (process_timed D p chunks c) = run_bind (dispatch_timed D tes c)
      (\<lambda>(ok, c'). Inr (ok, if ok then Some (snd (scan_chunks p (map snd chunks))) else None, c')))"
  using assms
proof (induction chunks arbitrary: p old)
  case (Cons tx chunks)
  obtain t x where tx: "tx = (t, x)" by (cases tx)
  obtain es p1 where sc: "scan_chunk p x = (es, p1)" by (cases "scan_chunk p x")
  obtain old1 where "pending p1 = Inr old1" using scan_chunk_pending [OF Cons.prems, of x] sc by auto
  from Cons.IH [OF this] obtain tes where tes: "map snd tes = fst (scan_chunks p1 (map snd chunks))"
    "fst ` set tes \<subseteq> fst ` set chunks"
    "\<And>c. outcome (process_timed D p1 chunks c) = run_bind (dispatch_timed D tes c)
      (\<lambda>(ok, c'). Inr (ok, if ok then Some (snd (scan_chunks p1 (map snd chunks))) else None, c'))"
    by blast
  have one: "outcome (LDSSEParserProcess (D t) p x c) = delivered (D t) (es, p1) c" for c
    using process_scan [OF Cons.prems, of "D t" x c] by (simp add: sc)
  have step: "outcome (run_bind (LDSSEParserProcess (D t) p x c) (\<lambda>(ok, p', c').
      if ok then process_timed D p' chunks c' else Inr (False, p', c'))) =
    run_bind (dispatch_all (D t) es c) (\<lambda>(ok, c').
      if ok then outcome (process_timed D p1 chunks c') else Inr (False, None, c'))" for c
    using one [of c]
    by (cases "LDSSEParserProcess (D t) p x c"; cases "dispatch_all (D t) es c")
      (auto simp: delivered_def split: if_splits)
  show ?case
  proof (intro exI [of _ "map (Pair t) es @ tes"] conjI allI)
    show "map snd (map (Pair t) es @ tes) = fst (scan_chunks p (map snd (tx # chunks)))"
      using tes(1) by (simp add: tx sc case_prod_beta comp_def)
    show "fst ` set (map (Pair t) es @ tes) \<subseteq> fst ` set (tx # chunks)" using tes(2) by (auto simp: tx)
    show "outcome (process_timed D p (tx # chunks) c) = run_bind (dispatch_timed D (map (Pair t) es @ tes) c)
      (\<lambda>(ok, c'). Inr (ok, if ok then Some (snd (scan_chunks p (map snd (tx # chunks)))) else None, c'))" for c
      by (auto simp: tx step sc tes(3) dispatch_timed_append run_bind_assoc case_prod_beta intro!: run_bind_cong)
  qed
qed simp

text \<open>A callback that records the events, to read them off.\<close>

definition recorder :: "(string \<times> string) list ld_sse_dispatch" where
  "recorder n b seen = Inr (True, seen @ [(n, b)])"

lemma dispatch_recorder: "dispatch_all recorder es seen = Inr (True, seen @ es)"
  by (induction es arbitrary: seen) (auto simp: recorder_def)

lemma chunks_recorder:
  "pending p = Inr old \<Longrightarrow>
     process_chunks recorder p chunks seen = Inr (True, snd (scan_chunks p chunks), seen @ fst (scan_chunks p chunks))"
proof (induction chunks arbitrary: p old seen)
  case (Cons x xs)
  obtain es p1 where sc: "scan_chunk p x = (es, p1)" by (cases "scan_chunk p x")
  obtain old1 where "pending p1 = Inr old1" using scan_chunk_pending [OF Cons.prems, of x] sc by auto
  moreover have "LDSSEParserProcess recorder p x seen = Inr (True, p1, seen @ es)"
    by (rule outcome_continue) (simp add: process_scan [OF Cons.prems] sc delivered_def dispatch_recorder)
  ultimately show ?case by (simp add: Cons.IH sc case_prod_beta)
qed simp

section \<open>The round trip\<close>

definition idle :: "LDSSEParser \<Rightarrow> bool" where
  "idle p \<longleftrightarrow> eventName p = None \<and> eventBody p = None \<and> pending p = Inr []"

lemma encoded_chunks:
  assumes "\<forall>(n, b) \<in> set evs. CHR 0x0A \<notin> set n \<and> CHR 0x00 \<notin> set n \<and> CHR 0x00 \<notin> set b"
    and "concat chunks = concat (map sse_encode evs)" and "evs \<noteq> []" and "idle p"
  shows "outcome (process_chunks d p chunks c) =
    run_bind (dispatch_all d evs c) (\<lambda>(ok, c').
      Inr (ok, if ok then Some (p\<lparr>ps_buffer := Some [], bufferSize := 0\<rparr>) else None, c'))"
proof -
  have split: "outcome (process_chunks d p chunks c) =
      outcome (LDSSEParserProcess d p (concat (map sse_encode evs)) c)"
    unfolding chunking assms(2) ..
  have "concat (map sse_encode evs) \<noteq> []" using assms(3) by (cases evs) auto
  then have one: "LDSSEParserProcess d p (concat (map sse_encode evs)) c =
      process_lines d p [] (concat (map sse_encode evs)) c"
    using assms(4) unfolding LDSSEParserProcess_def idle_def by (simp only: if_False) simp
  have "eventName p = None" "eventBody p = None" using assms(4) by (simp_all add: idle_def)
  from encoded_events [OF assms(1) this, of d "[]" c] show ?thesis unfolding split one .
qed

lemma scan_encoded:
  assumes "\<forall>(n, b) \<in> set evs. CHR 0x0A \<notin> set n \<and> CHR 0x00 \<notin> set n \<and> CHR 0x00 \<notin> set b"
    and "concat chunks = concat (map sse_encode evs)" and "evs \<noteq> []" and "idle p"
  shows "fst (scan_chunks p chunks) = evs"
  using encoded_chunks [OF assms, of recorder "[]"] chunks_recorder [of p "[]" chunks "[]"] assms(4)
  by (simp add: dispatch_recorder idle_def)

text \<open>
  The parser inverts the event-stream encoding. When the chunks that arrive, cut anywhere,
  together are the encoded form of a list of events (names without newline or NUL, bodies of
  several lines allowed), a new parser hands exactly these names and bodies to the callback, in
  order, until the callback refuses one; if it accepts all, nothing is pending and the parser is
  ready for the next event.
\<close>

theorem sse_roundtrip:
  assumes "\<forall>(n, b) \<in> set evs. CHR 0x0A \<notin> set n \<and> CHR 0x00 \<notin> set n \<and> CHR 0x00 \<notin> set b"
    and "concat chunks = concat (map sse_encode evs)" and "evs \<noteq> []"
  shows "outcome (process_chunks d LDSSEParserInitialize chunks c) =
    run_bind (dispatch_all d evs c) (\<lambda>(ok, c').
      Inr (ok, if ok then Some (LDSSEParserInitialize\<lparr>ps_buffer := Some []\<rparr>) else None, c'))"
proof -
  have "idle LDSSEParserInitialize" by (simp add: idle_def LDSSEParserInitialize_def pending_def)
  note all = encoded_chunks [OF assms this, of d c]
  have "LDSSEParserInitialize\<lparr>ps_buffer := Some [], bufferSize := 0\<rparr> =
      LDSSEParserInitialize\<lparr>ps_buffer := Some []\<rparr>" by (simp add: LDSSEParserInitialize_def)
  then show ?thesis unfolding all by (rule arg_cong)
qed

theorem sse_roundtrip_witness:
  "outcome (process_chunks recorder LDSSEParserInitialize
      [take 9 (sse_encode (''put'', ''{}'')), drop 9 (sse_encode (''put'', ''{}''))] []) =
    Inr (True, Some (LDSSEParserInitialize\<lparr>ps_buffer := Some []\<rparr>), [(''put'', ''{}'')])"
  by (subst sse_roundtrip [of "[(''put'', ''{}'')]"]) (simp_all add: recorder_def del: sse_encode.simps)

end
