(* ===== verification/LD_Streaming.thy ===== *)
theory LD_Streaming
  imports LD_Request LD_SSE
begin

text \<open>
  src/streaming.c: the connection that carries flag updates. The handlers of the three kinds
  of events work on the store; \<open>LDi_streamWriteCallback\<close> feeds received bytes to the event
  parser; \<open>stream_poll\<close> and \<open>stream_done\<close> are the \<open>poll\<close> and \<open>done\<close> operations of the network
  interface, with the waiting times between attempts. Clock readings, the random number and
  the outcome of libcurl calls are arguments.

  \<open>unsigned long\<close> has 64 bits. The pointers of the context to its client, its interface and
  the multi handle are the other arguments of the operations.
\<close>

section \<open>Update events\<close>

definition LDi_parsePath :: "string \<Rightarrow> (FeatureKind \<times> string) option" where
  "LDi_parsePath path =
     (if take 10 path = ''/segments/'' then Some (LD_SEGMENT, drop 10 path)
      else if take 7 path = ''/flags/'' then Some (LD_FLAG, drop 7 path)
      else None)"

definition getEventPath :: "json \<Rightarrow> (FeatureKind \<times> string) option run" where
  "getEventPath event =
     run_bind (LD_ASSERT (json_type event = LDObject)) (\<lambda>_.
       case LDObjectLookup (Some event) ''path'' of
         Some (JText path) \<Rightarrow> Inr (LDi_parsePath path)
       | _ \<Rightarrow> Inr None)"

definition validatePutBody :: "json \<Rightarrow> bool" where
  "validatePutBody put =
     (json_type put = LDObject \<and>
      (case LDObjectLookup (Some put) ''flags'' of None \<Rightarrow> False | Some tmp \<Rightarrow> json_type tmp = LDObject) \<and>
      (case LDObjectLookup (Some put) ''segments'' of None \<Rightarrow> False | Some tmp \<Rightarrow> json_type tmp = LDObject))"

text \<open>The member \<open>flags\<close> of a payload becomes \<open>features\<close>; also the end of \<open>updateStore\<close>, polling.c.\<close>

definition init_from :: "env \<Rightarrow> 'b LDStore \<Rightarrow> rat \<Rightarrow> json \<Rightarrow> (bool \<times> 'b LDStore) run" where
  "init_from E store now data =
     (let (features, data1) = LDObjectDetachKey data ''flags''
      in run_bind (LD_ASSERT (features \<noteq> None)) (\<lambda>_.
           let (ok, data2) = LDObjectSetKey data1 (Some ''features'') features
           in if \<not> ok then Inr (False, store) else LDStoreInit E store now data2))"

definition onPut :: "env \<Rightarrow> rat \<Rightarrow> 'b LDStore \<Rightarrow> string \<Rightarrow> (bool \<times> 'b LDStore) run" where
  "onPut E now store eventBuffer =
     (case env_deserialize E eventBuffer of
        None \<Rightarrow> Inr (False, store)
      | Some put \<Rightarrow>
          if json_type put \<noteq> LDObject then Inr (False, store)
          else case fst (LDObjectDetachKey put ''data'') of
            None \<Rightarrow> Inr (False, store)
          | Some data \<Rightarrow>
              if \<not> validatePutBody data then Inr (False, store) else init_from E store now data)"

definition onPatch :: "env \<Rightarrow> rat \<Rightarrow> 'b LDStore \<Rightarrow> string \<Rightarrow> (bool \<times> 'b LDStore) run" where
  "onPatch E now store eventBuffer =
     (case env_deserialize E eventBuffer of
        None \<Rightarrow> Inr (False, store)
      | Some data \<Rightarrow>
          if json_type data \<noteq> LDObject then Inr (False, store)
          else run_bind (getEventPath data) (\<lambda>path.
            case path of
              None \<Rightarrow> Inr (False, store)
            | Some (kind, key) \<Rightarrow>
                (case fst (LDObjectDetachKey data ''data'') of
                   None \<Rightarrow> Inr (False, store)
                 | Some tmp \<Rightarrow> LDStoreUpsert E store now kind tmp)))"

text \<open>The version is passed as \<open>unsigned int\<close>.\<close>

definition onDelete :: "env \<Rightarrow> rat \<Rightarrow> 'b LDStore \<Rightarrow> string \<Rightarrow> (bool \<times> 'b LDStore) run" where
  "onDelete E now store eventBuffer =
     (case env_deserialize E eventBuffer of
        None \<Rightarrow> Inr (False, store)
      | Some data \<Rightarrow>
          if json_type data \<noteq> LDObject then Inr (False, store)
          else run_bind (getEventPath data) (\<lambda>path.
            case path of
              None \<Rightarrow> Inr (False, store)
            | Some (kind, key) \<Rightarrow>
                (case LDObjectLookup (Some data) ''version'' of
                   Some (JNumber n) \<Rightarrow>
                     run_bind (double_to_uint n) (\<lambda>version. LDStoreRemove store now kind key version)
                 | _ \<Rightarrow> Inr (False, store))))"

definition LDi_onEvent :: "env \<Rightarrow> rat \<Rightarrow> 'b LDStore ld_sse_dispatch" where
  "LDi_onEvent E now name eventBuffer store =
     (if name = ''put'' then onPut E now store eventBuffer
      else if name = ''patch'' then onPatch E now store eventBuffer
      else if name = ''delete'' then onDelete E now store eventBuffer
      else Inr (True, store))"

section \<open>The connection\<close>

record StreamContext =
  sc_parser :: LDSSEParser
  sc_active :: bool
  sc_headers :: slist
  attempts :: u32
  waitUntil :: ulong
  startedOn :: ulong
  permanentFailure :: bool
  lastReadTimeMilliseconds :: rat

text \<open>The number of bytes accepted: anything but the number received ends the transfer.\<close>

definition LDi_streamWriteCallback ::
    "env \<Rightarrow> rat \<Rightarrow> StreamContext \<Rightarrow> 'b LDStore \<Rightarrow> string \<Rightarrow> (nat \<times> StreamContext \<times> 'b LDStore) run" where
  "LDi_streamWriteCallback E now context store contents =
     (let context1 = context\<lparr>lastReadTimeMilliseconds := now\<rparr>
      in run_bind (LDSSEParserProcess (LDi_onEvent E now) (sc_parser context1) contents store)
           (\<lambda>(ok, parser, store').
             Inr (if ok then length contents else 0, context1\<lparr>sc_parser := parser\<rparr>, store')))"

definition stream_resetMemory :: "StreamContext \<Rightarrow> StreamContext run" where
  "stream_resetMemory context =
     run_bind (curl_slist_free_all (sc_headers context)) (\<lambda>_.
       Inr (context\<lparr>sc_parser := LDSSEParserDestroy (sc_parser context), sc_headers := NullList\<rparr>))"

definition stream_done :: "rat \<Rightarrow> int \<Rightarrow> StreamContext \<Rightarrow> StreamContext run" where
  "stream_done now responseCode context =
     (let failed = 400 \<le> responseCode \<and> responseCode < 500 \<and> responseCode \<noteq> 400 \<and>
            responseCode \<noteq> 408 \<and> responseCode \<noteq> 429;
          lived = ulong_to_double (startedOn context + 60 * 1000) \<le> now
      in stream_resetMemory (context\<lparr>sc_active := False,
           permanentFailure := permanentFailure context \<or> failed,
           attempts := (if responseCode = 200 \<and> lived then 0 else attempts context + 1)\<rparr>))"

text \<open>The waiting time before attempt \<open>n\<close>, two or more; \<open>pow\<close> overflows to infinity, which is capped.\<close>

definition stream_backoff :: "u32 \<Rightarrow> u32 \<Rightarrow> rat" where
  "stream_backoff n rng =
     (let backoff = min (1000 * 2 ^ unat n / 2) (30 * 1000) / 2
      in to_double (backoff + LDi_normalize (uint_to_double rng) 0 LD_RAND_MAX 0 backoff))"

text \<open>
  The wait between attempts: whether to go on with a request. \<open>random\<close> is the result of
  \<open>LDi_random\<close>.
\<close>

definition stream_wait :: "u32 option \<Rightarrow> rat \<Rightarrow> StreamContext \<Rightarrow> (bool \<times> StreamContext) run" where
  "stream_wait random now context =
     (if attempts context = 0 then Inr (True, context)
      else if waitUntil context \<noteq> 0 then
        (if ulong_to_double (waitUntil context) \<le> now then
           run_bind (double_to_ulong now) (\<lambda>started.
             Inr (True, context\<lparr>waitUntil := 0, startedOn := started\<rparr>))
         else Inr (False, context))
      else if attempts context = 1 then
        run_bind (double_to_ulong (to_double (now + 1000))) (\<lambda>until.
          Inr (False, context\<lparr>waitUntil := until\<rparr>))
      else case random of
        None \<Rightarrow> Inr (False, context)
      | Some rng \<Rightarrow>
          run_bind (double_to_ulong (to_double (now + stream_backoff (attempts context) rng))) (\<lambda>until.
            Inr (False, context\<lparr>waitUntil := until\<rparr>)))"

text \<open>
  The request. \<open>curl_slist_append\<close> extends the list the handle already refers to. The error
  path frees the headers and keeps the pointer.
\<close>

definition stream_request :: "curl \<Rightarrow> 'b LDConfig \<Rightarrow> rat \<Rightarrow> StreamContext \<Rightarrow> (request option \<times> StreamContext) run" where
  "stream_request C config now context =
     (let url = snprintf 4096 (streamURI config @ ''/all'') in
      case LDi_prepareShared C config url of
        None \<Rightarrow> run_bind (curl_slist_free_all (sc_headers context)) (\<lambda>_.
          Inr (None, context\<lparr>sc_headers := freed (sc_headers context)\<rparr>))
      | Some (rq, hs) \<Rightarrow>
          if \<not> curl_slist_append C ''Accept: text/event-stream'' \<or>
             \<not> curl_easy_setopt C CURLOPT_WRITEDATA \<or> \<not> curl_easy_setopt C CURLOPT_WRITEFUNCTION
          then Inr (None, context\<lparr>sc_headers := FreedList\<rparr>)
          else
            let headers = rq_headers rq @ [''Accept: text/event-stream'']
            in Inr (Some (rq\<lparr>rq_headers := headers\<rparr>),
                 context\<lparr>sc_headers := Slist headers, sc_active := True,
                   lastReadTimeMilliseconds := now\<rparr>))"

text \<open>
  \<open>poll\<close>: the handle to attach, the context and the interface's current handle afterwards.
  \<open>now\<close> is the reading the decision rests on, \<open>now'\<close> the one when the request is ready.
\<close>

definition stream_poll ::
    "curl \<Rightarrow> 'b LDConfig \<Rightarrow> u32 option \<Rightarrow> rat \<Rightarrow> rat \<Rightarrow> StreamContext \<Rightarrow> request option \<Rightarrow>
     (request option \<times> StreamContext \<times> request option) run" where
  "stream_poll C config random now now' context current =
     (if \<not> cfg_stream config \<or> permanentFailure context then Inr (None, context, current)
      else if sc_active context then
        (if to_double (lastReadTimeMilliseconds context + 300 * 1000) \<le> now then
           run_bind (LDi_removeAndFreeHandle C current) (\<lambda>removed.
             if \<not> removed then Inr (None, context, current)
             else run_bind (stream_done now 0 context) (\<lambda>context'. Inr (None, context', None)))
         else Inr (None, context, current))
      else run_bind (stream_wait random now context) (\<lambda>(go, context1).
        if \<not> go then Inr (None, context1, current)
        else run_bind (stream_request C config now' context1) (\<lambda>(handle, context2).
          Inr (handle, context2, current))))"

definition LDi_constructStreamContext :: StreamContext where
  "LDi_constructStreamContext =
     \<lparr>sc_parser = LDSSEParserInitialize, sc_active = False, sc_headers = NullList, attempts = 0,
      waitUntil = 0, startedOn = 0, permanentFailure = False, lastReadTimeMilliseconds = 0\<rparr>"

end
