(* ===== verification/LD_Polling.thy ===== *)
theory LD_Polling
  imports LD_Streaming
begin

text \<open>
  src/polling.c: the interface that fetches all data in intervals when streaming is off. The
  write callback collects the response, \<open>done\<close> hands it to the store.
\<close>

definition updateStore :: "env \<Rightarrow> rat \<Rightarrow> 'b LDStore \<Rightarrow> string option \<Rightarrow> (bool \<times> 'b LDStore) run" where
  "updateStore E now store rawupdate =
     (case rawupdate of
        None \<Rightarrow> Inl Assertion
      | Some raw \<Rightarrow>
          (case env_deserialize E (cstr raw) of
             None \<Rightarrow> Inr (False, store)
           | Some update \<Rightarrow>
               if \<not> validatePutBody update then Inr (False, store) else init_from E store now update))"

text \<open>\<open>pc_memory\<close> is the allocation without its terminating NUL; its size is the member \<open>size\<close>.\<close>

record PollContext =
  pc_memory :: "string option"
  pc_headers :: slist
  pc_active :: bool
  lastpoll :: rat

definition poll_writeCallback :: "string \<Rightarrow> PollContext \<Rightarrow> nat \<times> PollContext" where
  "poll_writeCallback contents mem =
     (length contents, mem\<lparr>pc_memory := Some ((case pc_memory mem of None \<Rightarrow> [] | Some m \<Rightarrow> m) @ contents)\<rparr>)"

definition poll_resetMemory :: "PollContext \<Rightarrow> PollContext run" where
  "poll_resetMemory context =
     run_bind (curl_slist_free_all (pc_headers context)) (\<lambda>_.
       Inr (context\<lparr>pc_memory := None, pc_headers := NullList\<rparr>))"

definition poll_done ::
    "env \<Rightarrow> rat \<Rightarrow> int \<Rightarrow> PollContext \<Rightarrow> 'b LDStore \<Rightarrow> (PollContext \<times> 'b LDStore) run" where
  "poll_done E now responseCode context store =
     (let context1 = context\<lparr>pc_active := False\<rparr> in
      if responseCode = 200 then
        run_bind (updateStore E now store (pc_memory context1)) (\<lambda>(_, store').
          run_bind (poll_resetMemory (context1\<lparr>lastpoll := now\<rparr>)) (\<lambda>context2. Inr (context2, store')))
      else run_bind (poll_resetMemory context1) (\<lambda>context2. Inr (context2, store)))"

text \<open>The error path frees the headers and keeps the pointer.\<close>

definition poll_poll :: "curl \<Rightarrow> 'b LDConfig \<Rightarrow> rat \<Rightarrow> PollContext \<Rightarrow> (request option \<times> PollContext) run" where
  "poll_poll C config now context =
     (if pc_active context \<or> cfg_stream config then Inr (None, context)
      else run_bind (LD_ASSERT (lastpoll context \<le> now)) (\<lambda>_.
        if to_double (now - lastpoll context) < uint_to_double (pollInterval config) then Inr (None, context)
        else
          let url = snprintf 4096 (baseURI config @ ''/sdk/latest-all'') in
          case LDi_prepareShared C config url of
            None \<Rightarrow> run_bind (curl_slist_free_all (pc_headers context)) (\<lambda>_.
              Inr (None, context\<lparr>pc_headers := freed (pc_headers context)\<rparr>))
          | Some (rq, hs) \<Rightarrow>
              if \<not> curl_easy_setopt C CURLOPT_WRITEFUNCTION \<or> \<not> curl_easy_setopt C CURLOPT_WRITEDATA
              then Inr (None, context\<lparr>pc_headers := FreedList\<rparr>)
              else Inr (Some rq, context\<lparr>pc_headers := hs, pc_active := True\<rparr>)))"

definition LDi_constructPolling :: PollContext where
  "LDi_constructPolling = \<lparr>pc_memory = None, pc_headers = NullList, pc_active = False, lastpoll = 0\<rparr>"

section \<open>Responses\<close>

text \<open>
  A response of status 200 without a body aborts the process: nothing was collected, and
  \<open>updateStore\<close> asserts that its text is not \<open>NULL\<close>.
\<close>

lemma poll_empty_body_aborts:
  "pc_memory context = None \<Longrightarrow> poll_done E now 200 context store = Inl Assertion"
  by (simp add: poll_done_def updateStore_def)

end
