(* ===== verification/LD_Delivery.thy ===== *)
theory LD_Delivery
  imports LD_Request
begin

text \<open>
  src/events.c: the interface that delivers analytics events. \<open>analytics_poll\<close> takes the
  queue of the event processor when a flush is due and makes a request of it;
  \<open>analytics_done\<close> handles the answer, with one retry; \<open>LDi_onHeader\<close> reads the server time.

  The payload identifier is \<open>None\<close> before the first payload (memory never written). The
  date parser (\<open>strptime\<close> with \<open>mktime\<close>) is a parameter.
\<close>

section \<open>The server time\<close>

definition lower_char :: "char \<Rightarrow> char" where
  "lower_char c = (if 65 \<le> (of_char c :: nat) \<and> (of_char c :: nat) \<le> 90 then char_of (of_char c + 32 :: nat) else c)"

definition strncaseeq :: "string \<Rightarrow> string \<Rightarrow> nat \<Rightarrow> bool" where
  "strncaseeq s t n = (map lower_char (take n s) = map lower_char (take n t))"

text \<open>The number of bytes handled and the client.\<close>

definition LDi_onHeader :: "(string \<Rightarrow> int option) \<Rightarrow> string \<Rightarrow> 'b LDClient \<Rightarrow> nat \<times> 'b LDClient" where
  "LDi_onHeader parseRFC822 header client =
     (let total = length header in
      if CHR 0x0D \<notin> set header then (total, client)
      else if total \<le> 5 then (total, client)
      else if \<not> strncaseeq header ''Date:'' 5 then (total, client)
      else
        let rest = dropWhile (\<lambda>c. c = CHR '' '' \<or> c = CHR 0x09) (drop 5 header);
            date = takeWhile (\<lambda>c. c \<noteq> CHR 0x0D) rest
        in if 128 < length date + 1 then (total, client)
           else case parseRFC822 date of
             None \<Rightarrow> (total, client)
           | Some seconds \<Rightarrow>
               (total, client\<lparr>eventProcessor :=
                  LDi_setServerTime (eventProcessor client) (to_double (1000 * of_int seconds))\<rparr>))"

section \<open>Sending payloads\<close>

record AnalyticsContext =
  ac_active :: bool
  lastFlush :: rat
  ac_headers :: slist
  ac_buffer :: "string option"
  failureTime :: u32
  payloadId :: "string option"

definition analytics_resetMemory :: "AnalyticsContext \<Rightarrow> AnalyticsContext run" where
  "analytics_resetMemory context =
     run_bind (curl_slist_free_all (ac_headers context)) (\<lambda>_.
       Inr (context\<lparr>ac_headers := NullList, ac_buffer := None, failureTime := 0\<rparr>))"

text \<open>The time of the failure is kept as \<open>unsigned int\<close>.\<close>

definition analytics_done ::
    "rat \<Rightarrow> int \<Rightarrow> AnalyticsContext \<Rightarrow> 'b LDClient \<Rightarrow> (AnalyticsContext \<times> 'b LDClient) run" where
  "analytics_done now responseCode context client =
     (let context1 = context\<lparr>ac_active := False\<rparr> in
      if responseCode = 200 \<or> responseCode = 202 then
        run_bind (analytics_resetMemory (context1\<lparr>lastFlush := now\<rparr>)) (\<lambda>context2.
          Inr (context2, client\<lparr>shouldFlush := False\<rparr>))
      else if failureTime context1 \<noteq> 0 then
        run_bind (analytics_resetMemory context1) (\<lambda>context2. Inr (context2, client))
      else
        run_bind (double_to_uint now) (\<lambda>failed.
          run_bind (curl_slist_free_all (ac_headers context1)) (\<lambda>_.
            Inr (context1\<lparr>failureTime := failed, ac_headers := NullList\<rparr>, client))))"

text \<open>A new payload: whether to go on with the request.\<close>

definition new_payload ::
    "env \<Rightarrow> rng \<Rightarrow> rat \<Rightarrow> rat \<Rightarrow> AnalyticsContext \<Rightarrow> 'b LDClient \<Rightarrow> (bool \<times> AnalyticsContext \<times> 'b LDClient) run" where
  "new_payload E rng now unix context client =
     run_bind (LD_ASSERT (shouldFlush client \<or> lastFlush context \<le> now)) (\<lambda>_.
       if \<not> shouldFlush client \<and>
          to_double (now - lastFlush context) < uint_to_double (flushInterval (cl_config client))
       then Inr (False, context, client)
       else run_bind (LDi_bundleEventPayload (eventProcessor client) unix) (\<lambda>(ok, payload, processor).
         let client1 = client\<lparr>eventProcessor := processor\<rparr> in
         if \<not> ok then Inr (False, context, client1)
         else case payload of
           None \<Rightarrow> Inr (False, context, client1)
         | Some es \<Rightarrow>
             (let context1 = context\<lparr>ac_buffer := Some (env_serialize E es)\<rparr> in
              case LDi_UUIDv4 rng of
                None \<Rightarrow> run_bind (curl_slist_free_all (ac_headers context1)) (\<lambda>_.
                  Inr (False, context1\<lparr>ac_headers := freed (ac_headers context1)\<rparr>, client1))
              | Some uuid \<Rightarrow> Inr (True, context1\<lparr>payloadId := Some uuid\<rparr>, client1))))"

definition LD_PAYLOAD_ID_HEADER :: string where
  "LD_PAYLOAD_ID_HEADER = ''X-LaunchDarkly-Payload-ID: ''"

definition event_headers :: "string list" where
  "event_headers = [''Content-Type: application/json'', ''X-LaunchDarkly-Event-Schema: 3'']"

text \<open>
  The request. A header that cannot be appended leaves \<open>NULL\<close> in the context; a later
  failure frees the headers and keeps the pointer.
\<close>

definition analytics_request ::
    "curl \<Rightarrow> 'b LDConfig \<Rightarrow> AnalyticsContext \<Rightarrow> (request option \<times> AnalyticsContext) run" where
  "analytics_request C config context =
     (let url = snprintf 4096 (eventsURI config @ ''/bulk'') in
      case LDi_prepareShared C config url of
        None \<Rightarrow> run_bind (curl_slist_free_all (ac_headers context)) (\<lambda>_.
          Inr (None, context\<lparr>ac_headers := freed (ac_headers context)\<rparr>))
      | Some (rq, hs) \<Rightarrow>
          if \<not> list_all (curl_slist_append C) event_headers
          then Inr (None, context\<lparr>ac_headers := NullList\<rparr>)
          else case payloadId context of
            None \<Rightarrow> Inl Uninitialised
          | Some uuid \<Rightarrow>
              run_bind (LD_ASSERT (length uuid = LD_UUID_SIZE)) (\<lambda>_.
                let headers = rq_headers rq @ event_headers @ [LD_PAYLOAD_ID_HEADER @ uuid] in
                if \<not> curl_slist_append C (LD_PAYLOAD_ID_HEADER @ uuid)
                then Inr (None, context\<lparr>ac_headers := NullList\<rparr>)
                else if \<not> curl_easy_setopt C CURLOPT_HTTPHEADER \<or> \<not> curl_easy_setopt C CURLOPT_HEADERFUNCTION \<or>
                   \<not> curl_easy_setopt C CURLOPT_HEADERDATA \<or> \<not> curl_easy_setopt C CURLOPT_POSTFIELDS
                then Inr (None, context\<lparr>ac_headers := FreedList\<rparr>)
                else Inr (Some (rq\<lparr>rq_headers := headers, rq_body := ac_buffer context\<rparr>),
                       context\<lparr>ac_headers := Slist headers, ac_active := True\<rparr>)))"

text \<open>\<open>poll\<close>; the sum with the time of the failure is one of \<open>unsigned int\<close>.\<close>

definition analytics_poll ::
    "curl \<Rightarrow> env \<Rightarrow> rng \<Rightarrow> rat \<Rightarrow> rat \<Rightarrow> AnalyticsContext \<Rightarrow> 'b LDClient \<Rightarrow>
     (request option \<times> AnalyticsContext \<times> 'b LDClient) run" where
  "analytics_poll C E rng now unix context client =
     (if ac_active context then Inr (None, context, client)
      else if failureTime context \<noteq> 0 \<and> now \<le> uint_to_double (failureTime context + 1000)
      then Inr (None, context, client)
      else run_bind
        (if failureTime context = 0 then new_payload E rng now unix context client
         else Inr (True, context, client))
        (\<lambda>(go, context1, client1).
          if \<not> go then Inr (None, context1, client1)
          else run_bind (analytics_request C (cl_config client1) context1) (\<lambda>(handle, context2).
            Inr (handle, context2, client1))))"

definition LDi_constructAnalytics :: "rat \<Rightarrow> AnalyticsContext" where
  "LDi_constructAnalytics now = \<lparr>ac_active = False, lastFlush = now, ac_headers = NullList,
     ac_buffer = None, failureTime = 0, payloadId = None\<rparr>"

section \<open>Retries\<close>

lemma analytics_request_again:
  assumes "analytics_request C config ctx = Inr (Some rq, ctx')"
  shows "ctx' = ctx\<lparr>ac_headers := Slist (rq_headers rq), ac_active := True\<rparr>"
    and "ac_buffer ctx2 = ac_buffer ctx \<Longrightarrow> payloadId ctx2 = payloadId ctx \<Longrightarrow>
      analytics_request C config ctx2 = Inr (Some rq, ctx2\<lparr>ac_headers := Slist (rq_headers rq), ac_active := True\<rparr>)"
  using assms
  by (auto simp: analytics_request_def Let_def run_simps split: option.splits if_splits)

lemma new_payload_keeps:
  assumes "new_payload E rng now unix ctx client = Inr (go, ctx', client')"
  shows "cl_config client' = cl_config client \<and> failureTime ctx' = failureTime ctx \<and>
    ac_active ctx' = ac_active ctx \<and> shouldFlush client' = shouldFlush client"
proof (cases "LDi_bundleEventPayload (eventProcessor client) unix")
  case (Inr r)
  then obtain ok payload processor where
    "LDi_bundleEventPayload (eventProcessor client) unix = Inr (ok, payload, processor)"
    by (cases r) auto
  with assms show ?thesis
    by (cases payload; cases "LDi_UUIDv4 rng")
      (auto simp: new_payload_def Let_def run_simps split: if_splits)
qed (use assms in \<open>auto simp: new_payload_def run_simps split: if_splits\<close>)

lemma analytics_poll_request:
  assumes "analytics_poll C E rng now unix ctx client = Inr (Some rq, ctx', client')"
  shows "\<exists>ctx1. analytics_request C (cl_config client') ctx1 = Inr (Some rq, ctx') \<and> cl_config client' = cl_config client \<and>
    failureTime ctx1 = failureTime ctx"
proof -
  obtain ctx1 where "(if failureTime ctx = 0 then new_payload E rng now unix ctx client
        else Inr (True, ctx, client)) = Inr (True, ctx1, client')"
    and "analytics_request C (cl_config client') ctx1 = Inr (Some rq, ctx')"
    using assms by (auto simp: analytics_poll_def run_bind_Inr_iff split: if_splits)
  moreover have "cl_config client' = cl_config client \<and> failureTime ctx1 = failureTime ctx"
    using calculation(1) new_payload_keeps by (fastforce split: if_splits)
  ultimately show ?thesis by blast
qed

text \<open>
  C37: a payload that cannot be delivered is sent exactly once more, unchanged, and then given
  up. Let \<open>poll\<close> issue a request with a new payload and let it be answered by anything but 200
  and 202. Then the client is left as it was (a requested flush stays requested), \<open>poll\<close> waits
  for one second, and the next \<open>poll\<close> issues the very same request, same body and same payload
  identifier, without touching the queue of events; whatever the answer to that, the payload is
  dropped and the interface is ready for the next one. The clock must be before the 32 bits of
  the failure time overflow.
\<close>

theorem payload_sent_twice:
  fixes client1 :: "'b LDClient"
  assumes "analytics_poll C E rng now unix ctx client = Inr (Some rq, ctx1, client1)" and "failureTime ctx = 0"
    and "code \<noteq> 200" and "code \<noteq> 202" and "1 \<le> now1" and "now1 < 2 ^ 32 - 1000"
  shows "\<exists>ctx2. analytics_done now1 code ctx1 client1 = Inr (ctx2, client1) \<and>
    (\<forall>t. \<forall>client' :: 'b LDClient. t \<le> of_int \<lfloor>now1\<rfloor> + 1000 \<longrightarrow> analytics_poll C E rng' t unix' ctx2 client' = Inr (None, ctx2, client')) \<and>
    (\<forall>t client'. of_int \<lfloor>now1\<rfloor> + 1000 < t \<and> cl_config client' = cl_config client1 \<longrightarrow>
      (\<exists>ctx3. analytics_poll C E rng' t unix' ctx2 client' = Inr (Some rq, ctx3, client') \<and>
        (\<forall>t2 code2. \<exists>ctx4 client4. analytics_done t2 code2 ctx3 client' = Inr (ctx4, client4) \<and>
           \<not> ac_active ctx4 \<and> ac_buffer ctx4 = None \<and> failureTime ctx4 = 0 \<and>
           eventProcessor client4 = eventProcessor client')))"
proof -
  obtain ctx0 where rq: "analytics_request C (cl_config client1) ctx0 = Inr (Some rq, ctx1)" "failureTime ctx0 = 0"
    using analytics_poll_request [OF assms(1)] assms(2) by auto
  note ctx1 = analytics_request_again(1) [OF rq(1)]
  have fl: "0 \<le> \<lfloor>now1\<rfloor>" "1 \<le> \<lfloor>now1\<rfloor>" "\<lfloor>now1\<rfloor> < 2 ^ 32 - 1000"
    using assms(5,6) by (simp_all add: floor_less_iff le_floor_iff)
  define w :: u32 where "w = word_of_int \<lfloor>now1\<rfloor>"
  have w: "uint w = \<lfloor>now1\<rfloor>" using fl by (simp add: w_def uint_word_of_int)
  have w0: "w \<noteq> 0"
  proof
    assume "w = 0"
    with w have "\<lfloor>now1\<rfloor> = 0" by simp
    with fl(2) show False by linarith
  qed
  have "uint (w + 1000) = \<lfloor>now1\<rfloor> + 1000" using fl by (simp add: uint_word_ariths w)
  then have later: "uint_to_double (w + 1000) = of_int \<lfloor>now1\<rfloor> + 1000"
    unfolding uint_to_double_def by simp
  have conv: "double_to_uint now1 = Inr w"
    using fl assms(5) by (simp add: double_to_uint_def trunc_rat_def Let_def w_def)
  let ?c2 = "ctx1\<lparr>ac_active := False, failureTime := w, ac_headers := NullList\<rparr>"
  have "analytics_done now1 code ctx1 client1 = Inr (?c2, client1)"
    using assms(3,4) rq(2) conv by (simp add: analytics_done_def ctx1)
  moreover have "analytics_poll C E rng' t unix' ?c2 client' = Inr (None, ?c2, client')"
    if "t \<le> of_int \<lfloor>now1\<rfloor> + 1000" for t and client' :: "'b LDClient"
    using that w0 later by (simp add: analytics_poll_def)
  moreover have "\<exists>ctx3. analytics_poll C E rng' t unix' ?c2 client' = Inr (Some rq, ctx3, client') \<and>
      (\<forall>t2 code2. \<exists>ctx4 client4. analytics_done t2 code2 ctx3 client' = Inr (ctx4, client4) \<and>
           \<not> ac_active ctx4 \<and> ac_buffer ctx4 = None \<and> failureTime ctx4 = 0 \<and>
           eventProcessor client4 = eventProcessor client')"
    if "of_int \<lfloor>now1\<rfloor> + 1000 < t" and "cl_config client' = cl_config client1" for t and client' :: "'b LDClient"
  proof -
    have "analytics_request C (cl_config client') ?c2 =
        Inr (Some rq, ?c2\<lparr>ac_headers := Slist (rq_headers rq), ac_active := True\<rparr>)"
      unfolding that(2) by (rule analytics_request_again(2) [OF rq(1)]) (simp_all add: ctx1)
    then have "analytics_poll C E rng' t unix' ?c2 client' =
        Inr (Some rq, ?c2\<lparr>ac_headers := Slist (rq_headers rq), ac_active := True\<rparr>, client')"
      using that(1) w0 later by (simp add: analytics_poll_def)
    then show ?thesis using w0 by (auto simp: analytics_done_def analytics_resetMemory_def Let_def)
  qed
  ultimately show ?thesis by blast
qed

text \<open>A client with one event in the queue, and a generator that always answers zero.\<close>

definition one_event_client :: "unit LDClient" where
  "one_event_client =
     (let cl = the (LDClientInit (LDConfigNew (Some ''key'')) 0)
      in cl\<lparr>eventProcessor := (eventProcessor cl)\<lparr>events := JArray [JNull]\<rparr>\<rparr>)"

definition zero_rng :: rng where
  "zero_rng i = Some 0"

lemma UUIDv4_total: "(\<And>i. rng i \<noteq> None) \<Longrightarrow> \<exists>u. LDi_UUIDv4 rng = Some u"
proof -
  assume rng: "\<And>i. rng i \<noteq> None"
  have "LDi_randomHex rng n \<noteq> None" for n
  proof (induction n)
    case (Suc n)
    then show ?case using rng [of n] by auto
  qed simp
  then show ?thesis by (simp add: LDi_UUIDv4_def)
qed

lemma first_payload:
  "\<exists>rq ctx1 client1. analytics_poll good_curl plain_env zero_rng 5000 0 (LDi_constructAnalytics 0) one_event_client =
     Inr (Some rq, ctx1, client1)"
proof -
  obtain u where u: "LDi_UUIDv4 zero_rng = Some u" using UUIDv4_total [of zero_rng] by (auto simp: zero_rng_def)
  have "to_double 5000 = 5000" using to_double_int [of 5000] by simp
  then have "\<exists>ctx1 client1. new_payload plain_env zero_rng 5000 0 (LDi_constructAnalytics 0) one_event_client =
      Inr (True, ctx1, client1) \<and> payloadId ctx1 = Some u"
    by (simp add: new_payload_def u one_event_client_def LDClientInit_def LDConfigNew_def Let_def
        LDi_constructAnalytics_def LDi_bundleEventPayload_def LDCollectionGetSize_def LDGetIter_def
        LDi_newEventProcessor_def uint_to_double_def)
  then obtain ctx1 client1 where n: "new_payload plain_env zero_rng 5000 0 (LDi_constructAnalytics 0) one_event_client =
      Inr (True, ctx1, client1)" "payloadId ctx1 = Some u" by blast
  obtain rq hs where p: "LDi_prepareShared good_curl (cl_config client1)
      (snprintf 4096 (eventsURI (cl_config client1) @ ''/bulk'')) = Some (rq, hs)"
    using prepareShared_good by (metis old.prod.exhaust option.exhaust)
  have "\<exists>rq ctx2. analytics_request good_curl (cl_config client1) ctx1 = Inr (Some rq, ctx2)"
    unfolding analytics_request_def Let_def p n(2)
    using UUIDv4_length [OF u] by (simp add: good_curl_def list_all_def)
  then show ?thesis using n(1) by (auto simp: analytics_poll_def LDi_constructAnalytics_def)
qed

theorem payload_sent_twice_witness:
  "\<exists>rq ctx1 ctx2 ctx3. \<exists>client1 :: unit LDClient.
     analytics_poll good_curl plain_env zero_rng 5000 0 (LDi_constructAnalytics 0) one_event_client =
       Inr (Some rq, ctx1, client1) \<and>
     analytics_done 6000 500 ctx1 client1 = Inr (ctx2, client1) \<and>
     analytics_poll good_curl plain_env zero_rng 8000 0 ctx2 client1 = Inr (Some rq, ctx3, client1)"
proof -
  obtain rq ctx1 and client1 :: "unit LDClient" where
    p: "analytics_poll good_curl plain_env zero_rng 5000 0 (LDi_constructAnalytics 0) one_event_client =
     Inr (Some rq, ctx1, client1)" using first_payload by blast
  have f: "failureTime (LDi_constructAnalytics 0) = 0" by (simp add: LDi_constructAnalytics_def)
  have "\<exists>ctx2. analytics_done 6000 500 ctx1 client1 = Inr (ctx2, client1) \<and>
    (\<forall>t > 7000. \<exists>ctx3. analytics_poll good_curl plain_env zero_rng t 0 ctx2 client1 = Inr (Some rq, ctx3, client1))"
    by (rule ex_forward [OF payload_sent_twice [OF p f, of 500 6000 zero_rng 0]])
      (simp_all, elim conjE, intro allI impI, elim allE [where x = client1] allE, auto)
  then obtain ctx2 where d: "analytics_done 6000 500 ctx1 client1 = Inr (ctx2, client1)"
    and again: "\<And>t. 7000 < t \<Longrightarrow> \<exists>ctx3. analytics_poll good_curl plain_env zero_rng t 0 ctx2 client1 =
      Inr (Some rq, ctx3, client1)"
    by blast
  from again [of 8000] p d show ?thesis by auto
qed

section \<open>Two defects\<close>

text \<open>
  A requested flush that finds no events stays requested: \<open>poll\<close> resets its local copy of the
  flag and not the member of the client. The next event is then sent without waiting for the
  flush interval.
\<close>

theorem flush_request_stays:
  assumes "shouldFlush client" and "\<not> ac_active ctx" and "failureTime ctx = 0"
    and "LDi_bundleEventPayload (eventProcessor client) unix = Inr (True, None, eventProcessor client)"
  shows "analytics_poll C E rng now unix ctx client = Inr (None, ctx, client)"
  using assms by (simp add: analytics_poll_def new_payload_def)

text \<open>
  After \<open>2\<^sup>3\<^sup>2\<close> milliseconds of the monotonic clock, less than 50 days, the first failed delivery
  converts a \<open>double\<close> out of the range of \<open>unsigned int\<close>: undefined behaviour.
\<close>

theorem failure_time_overflows:
  assumes "2 ^ 32 \<le> now" and "failureTime ctx = 0" and "code \<noteq> 200" and "code \<noteq> 202"
  shows "analytics_done now code ctx client = Inl BadConversion"
proof -
  have "\<not> \<lfloor>now\<rfloor> < 2 ^ 32" "0 \<le> now" using assms(1) by (simp_all add: floor_less_iff)
  then show ?thesis
    using assms by (simp add: analytics_done_def double_to_uint_def trunc_rat_def)
qed

end
