(* ===== verification/LD_Network.thy ===== *)
theory LD_Network
  imports LD_Polling LD_Delivery
begin

text \<open>
  src/network.c, the thread: it owns the three interfaces and drives them with the multi
  handle of libcurl. One pass of its loop lets libcurl work (which calls the write and header
  callbacks), polls every interface for a new request, handles the messages about finished
  requests and waits. What libcurl, the clocks, the generator and the other threads do in a pass
  is its \<open>turn\<close>.

  libcurl reports only on handles that are attached to the multi handle.
\<close>

section \<open>The state of the thread\<close>

datatype iface = Polling | Streaming | Analytics

record 'b network =
  nw_client :: "'b LDClient"
  nw_polling :: PollContext
  nw_stream :: StreamContext
  nw_analytics :: AnalyticsContext
  nw_current :: "iface \<Rightarrow> request option"
  nw_attached :: "iface list"

definition interfaces :: "'b LDConfig \<Rightarrow> iface list" where
  "interfaces config = (if useLDD config then [Analytics] else [Polling, Streaming, Analytics])"

definition network_init :: "'b LDClient \<Rightarrow> rat \<Rightarrow> 'b network" where
  "network_init client now =
     \<lparr>nw_client = client, nw_polling = LDi_constructPolling, nw_stream = LDi_constructStreamContext,
      nw_analytics = LDi_constructAnalytics now, nw_current = (\<lambda>_. None), nw_attached = []\<rparr>"

text \<open>
  A message about a finished request: the response code and the interface, if libcurl can tell
  them, and whether the transfer succeeded.
\<close>

record message =
  msg_handle :: iface
  msg_code :: "int option"
  msg_private :: bool
  msg_ok :: bool

datatype callback = Data iface string | Header string

record 'b turn =
  tn_others :: "'b LDClient \<Rightarrow> 'b LDClient"
  tn_curl :: curl
  tn_now :: rat
  tn_unix :: rat
  tn_random :: "u32 option"
  tn_rng :: rng
  tn_callbacks :: "callback list"
  tn_messages :: "message list"
  tn_wait :: bool

text \<open>The parameters that do not change: the codecs and the date parser.\<close>

type_synonym world = "env \<times> (string \<Rightarrow> int option)"

section \<open>One pass\<close>

definition with_store :: "'b network \<Rightarrow> 'b LDStore \<Rightarrow> 'b network" where
  "with_store nw store = nw\<lparr>nw_client := (nw_client nw)\<lparr>cl_store := store\<rparr>\<rparr>"

text \<open>A callback; libcurl itself writes the answer to analytics requests.\<close>

fun run_callback :: "world \<Rightarrow> 'b turn \<Rightarrow> callback \<Rightarrow> 'b network \<Rightarrow> 'b network run" where
  "run_callback W t (Data Polling bytes) nw =
     Inr (nw\<lparr>nw_polling := snd (poll_writeCallback bytes (nw_polling nw))\<rparr>)"
| "run_callback W t (Data Streaming bytes) nw =
     run_bind (LDi_streamWriteCallback (fst W) (tn_now t) (nw_stream nw) (cl_store (nw_client nw)) bytes)
       (\<lambda>(_, context, store). Inr (with_store (nw\<lparr>nw_stream := context\<rparr>) store))"
| "run_callback W t (Data Analytics bytes) nw = Inr nw"
| "run_callback W t (Header line) nw =
     Inr (nw\<lparr>nw_client := snd (LDi_onHeader (snd W) line (nw_client nw))\<rparr>)"

fun run_callbacks :: "world \<Rightarrow> 'b turn \<Rightarrow> callback list \<Rightarrow> 'b network \<Rightarrow> 'b network run" where
  "run_callbacks W t [] nw = Inr nw"
| "run_callbacks W t (c # cs) nw = run_bind (run_callback W t c nw) (run_callbacks W t cs)"

text \<open>
  The poll operation of an interface. When that of the streaming interface gives up a silent
  connection it also takes its handle off.
\<close>

fun iface_poll :: "world \<Rightarrow> 'b turn \<Rightarrow> iface \<Rightarrow> 'b network \<Rightarrow> (request option \<times> 'b network) run" where
  "iface_poll W t Polling nw =
     run_bind (poll_poll (tn_curl t) (cl_config (nw_client nw)) (tn_now t) (nw_polling nw)) (\<lambda>(handle, context).
       Inr (handle, nw\<lparr>nw_polling := context\<rparr>))"
| "iface_poll W t Streaming nw =
     run_bind (stream_poll (tn_curl t) (cl_config (nw_client nw)) (tn_random t) (tn_now t) (tn_now t)
         (nw_stream nw) (nw_current nw Streaming)) (\<lambda>(handle, context, current).
       let gone = nw_current nw Streaming \<noteq> None \<and> current = None in
       Inr (handle, nw\<lparr>nw_stream := context, nw_current := (nw_current nw)(Streaming := current),
         nw_attached := (if gone then removeAll Streaming (nw_attached nw) else nw_attached nw)\<rparr>))"
| "iface_poll W t Analytics nw =
     run_bind (analytics_poll (tn_curl t) (fst W) (tn_rng t) (tn_now t) (tn_unix t) (nw_analytics nw)
         (nw_client nw)) (\<lambda>(handle, context, client).
       Inr (handle, nw\<lparr>nw_analytics := context, nw_client := client\<rparr>))"

text \<open>The first component says whether the thread goes on.\<close>

definition poll_and_attach :: "world \<Rightarrow> 'b turn \<Rightarrow> iface \<Rightarrow> 'b network \<Rightarrow> (bool \<times> 'b network) run" where
  "poll_and_attach W t i nw =
     run_bind (iface_poll W t i nw) (\<lambda>(handle, nw1).
       case handle of
         None \<Rightarrow> Inr (True, nw1)
       | Some h \<Rightarrow>
           let nw2 = nw1\<lparr>nw_current := (nw_current nw1)(i := Some h)\<rparr> in
           if LDi_addHandle (tn_curl t) then Inr (True, nw2\<lparr>nw_attached := i # nw_attached nw2\<rparr>)
           else Inr (False, nw2))"

fun poll_all :: "world \<Rightarrow> 'b turn \<Rightarrow> iface list \<Rightarrow> 'b network \<Rightarrow> (bool \<times> 'b network) run" where
  "poll_all W t [] nw = Inr (True, nw)"
| "poll_all W t (i # is) nw =
     run_bind (poll_and_attach W t i nw) (\<lambda>(ok, nw'). if ok then poll_all W t is nw' else Inr (False, nw'))"

fun iface_done :: "world \<Rightarrow> 'b turn \<Rightarrow> iface \<Rightarrow> int \<Rightarrow> 'b network \<Rightarrow> 'b network run" where
  "iface_done W t Polling code nw =
     run_bind (poll_done (fst W) (tn_now t) code (nw_polling nw) (cl_store (nw_client nw)))
       (\<lambda>(context, store). Inr (with_store (nw\<lparr>nw_polling := context\<rparr>) store))"
| "iface_done W t Streaming code nw =
     run_bind (stream_done (tn_now t) code (nw_stream nw)) (\<lambda>context. Inr (nw\<lparr>nw_stream := context\<rparr>))"
| "iface_done W t Analytics code nw =
     run_bind (analytics_done (tn_now t) code (nw_analytics nw) (nw_client nw))
       (\<lambda>(context, client). Inr (nw\<lparr>nw_analytics := context, nw_client := client\<rparr>))"

definition handle_message :: "world \<Rightarrow> 'b turn \<Rightarrow> message \<Rightarrow> 'b network \<Rightarrow> (bool \<times> 'b network) run" where
  "handle_message W t m nw =
     (let i = msg_handle m in
      if i \<notin> set (nw_attached nw) then Inr (True, nw)
      else case msg_code m of
        None \<Rightarrow> Inr (False, nw)
      | Some code \<Rightarrow>
          if code = 401 \<or> code = 403 then Inr (False, nw)
          else if \<not> msg_private m then Inr (False, nw)
          else run_bind (iface_done W t i (if msg_ok m then code else 0) nw) (\<lambda>nw1.
            let nw2 = nw1\<lparr>nw_current := (nw_current nw1)(i := None)\<rparr> in
            if curl_multi_remove_handle (tn_curl t)
            then Inr (True, nw2\<lparr>nw_attached := removeAll i (nw_attached nw2)\<rparr>)
            else Inr (False, nw2)))"

fun handle_messages :: "world \<Rightarrow> 'b turn \<Rightarrow> message list \<Rightarrow> 'b network \<Rightarrow> (bool \<times> 'b network) run" where
  "handle_messages W t [] nw = Inr (True, nw)"
| "handle_messages W t (m # ms) nw =
     run_bind (handle_message W t m nw) (\<lambda>(ok, nw'). if ok then handle_messages W t ms nw' else Inr (False, nw'))"

definition network_turn :: "world \<Rightarrow> 'b turn \<Rightarrow> 'b network \<Rightarrow> (bool \<times> 'b network) run" where
  "network_turn W t nw0 =
     (let nw = nw0\<lparr>nw_client := tn_others t (nw_client nw0)\<rparr> in
      if shuttingdown (nw_client nw) then Inr (False, nw)
      else
        run_bind (run_callbacks W t (tn_callbacks t) nw) (\<lambda>nw1.
        run_bind (if offline (cl_config (nw_client nw)) then Inr (True, nw1)
                  else poll_all W t (interfaces (cl_config (nw_client nw))) nw1) (\<lambda>(polled, nw2).
        if \<not> polled then Inr (False, nw2)
        else run_bind (handle_messages W t (tn_messages t) nw2) (\<lambda>(handled, nw3).
          Inr (handled \<and> tn_wait t, nw3)))))"

fun network_loop :: "world \<Rightarrow> 'b turn list \<Rightarrow> 'b network \<Rightarrow> (bool \<times> 'b network) run" where
  "network_loop W [] nw = Inr (True, nw)"
| "network_loop W (t # ts) nw =
     run_bind (network_turn W t nw) (\<lambda>(ok, nw'). if ok then network_loop W ts nw' else Inr (False, nw'))"

text \<open>The end of the thread: the contexts are reset and freed, unless a handle cannot be taken off.\<close>

fun destroy_all :: "curl \<Rightarrow> iface list \<Rightarrow> 'b network \<Rightarrow> unit run" where
  "destroy_all C [] nw = Inr ()"
| "destroy_all C (i # is) nw =
     (if nw_current nw i \<noteq> None \<and> \<not> curl_multi_remove_handle C then Inr ()
      else run_bind
        (case i of
           Polling \<Rightarrow> run_bind (poll_resetMemory (nw_polling nw)) (\<lambda>_. Inr ())
         | Streaming \<Rightarrow> run_bind (stream_resetMemory (nw_stream nw)) (\<lambda>_. Inr ())
         | Analytics \<Rightarrow> run_bind (analytics_resetMemory (nw_analytics nw)) (\<lambda>_. Inr ()))
        (\<lambda>_. destroy_all C is nw))"

end
