(* ===== verification/LD_Streaming_Laws.thy ===== *)
theory LD_Streaming_Laws
  imports LD_Streaming
begin

text \<open>
  Correctness of the streaming connection: the updates a server sends arrive at the store,
  however the network cuts them; a lost connection is taken up again within the documented
  times; and two defects of the reconnection, stated as theorems.
\<close>

section \<open>Updates\<close>

text \<open>What a server sends: all data, one feature, or the removal of one.\<close>

datatype stream_update =
    PutAll json json
  | Patch FeatureKind string json
  | Delete FeatureKind string u32

definition feature_path :: "FeatureKind \<Rightarrow> string \<Rightarrow> string" where
  "feature_path kind key = (case kind of LD_FLAG \<Rightarrow> ''/flags/'' | LD_SEGMENT \<Rightarrow> ''/segments/'') @ key"

fun update_name :: "stream_update \<Rightarrow> string" where
  "update_name (PutAll _ _) = ''put''"
| "update_name (Patch _ _ _) = ''patch''"
| "update_name (Delete _ _ _) = ''delete''"

fun update_doc :: "stream_update \<Rightarrow> json" where
  "update_doc (PutAll flags segments) =
     JObject [(''path'', JText ''/''), (''data'', JObject [(''flags'', flags), (''segments'', segments)])]"
| "update_doc (Patch kind key feature) =
     JObject [(''path'', JText (feature_path kind key)), (''data'', feature)]"
| "update_doc (Delete kind key version) =
     JObject [(''path'', JText (feature_path kind key)), (''version'', JNumber (uint_to_double version))]"

fun update_ok :: "stream_update \<Rightarrow> bool" where
  "update_ok (PutAll flags segments) = (json_type flags = LDObject \<and> json_type segments = LDObject)"
| "update_ok _ = True"

fun stream_apply :: "env \<Rightarrow> rat \<Rightarrow> 'b LDStore \<Rightarrow> stream_update \<Rightarrow> (bool \<times> 'b LDStore) run" where
  "stream_apply E now store (PutAll flags segments) =
     LDStoreInit E store now (JObject [(''segments'', segments), (''features'', flags)])"
| "stream_apply E now store (Patch kind key feature) = LDStoreUpsert E store now kind feature"
| "stream_apply E now store (Delete kind key version) = LDStoreRemove store now kind key version"

fun stream_apply_all :: "env \<Rightarrow> 'b LDStore \<Rightarrow> (rat \<times> stream_update) list \<Rightarrow> (bool \<times> 'b LDStore) run" where
  "stream_apply_all E store [] = Inr (True, store)"
| "stream_apply_all E store ((now, u) # us) =
     run_bind (stream_apply E now store u) (\<lambda>(ok, store'). if ok then stream_apply_all E store' us else Inr (False, store'))"

definition update_event :: "env \<Rightarrow> stream_update \<Rightarrow> string \<times> string" where
  "update_event E u = (update_name u, env_serialize E (update_doc u))"

lemma parse_feature_path: "LDi_parsePath (feature_path kind key) = Some (kind, key)"
  by (cases kind) (simp_all add: LDi_parsePath_def feature_path_def)

lemma onEvent_update:
  assumes "env_deserialize E (env_serialize E (update_doc u)) = Some (update_doc u)" and "update_ok u"
  shows "LDi_onEvent E now (update_name u) (env_serialize E (update_doc u)) store = stream_apply E now store u"
proof (cases u)
  case (PutAll flags segments)
  with assms show ?thesis
    by (simp add: LDi_onEvent_def onPut_def init_from_def validatePutBody_def LDObjectDetachKey_def
        LDObjectLookup_def LDObjectSetKey_def)
next
  case (Patch kind key feature)
  with assms show ?thesis
    by (simp add: LDi_onEvent_def onPatch_def getEventPath_def parse_feature_path LDObjectDetachKey_def
        LDObjectLookup_def)
next
  case (Delete kind key version)
  with assms show ?thesis
    by (simp add: LDi_onEvent_def onDelete_def getEventPath_def parse_feature_path LDObjectLookup_def)
qed

text \<open>The callback fed with what arrives, each chunk with the clock reading at its arrival.\<close>

fun stream_feed ::
    "env \<Rightarrow> StreamContext \<Rightarrow> 'b LDStore \<Rightarrow> (rat \<times> string) list \<Rightarrow> (bool \<times> StreamContext \<times> 'b LDStore) run" where
  "stream_feed E context store [] = Inr (True, context, store)"
| "stream_feed E context store ((now, chunk) # chunks) =
     run_bind (LDi_streamWriteCallback E now context store chunk) (\<lambda>(accepted, context', store').
       if accepted = length chunk then stream_feed E context' store' chunks
       else Inr (False, context', store'))"

text \<open>The status and store at the end.\<close>

definition final_store :: "(bool \<times> 'a \<times> 'c) run \<Rightarrow> (bool \<times> 'c) run" where
  "final_store r = run_bind r (\<lambda>(ok, _, store). Inr (ok, store))"

lemma final_store_bind: "final_store (run_bind m f) = run_bind m (\<lambda>x. final_store (f x))"
  by (simp add: final_store_def run_bind_assoc)

lemma process_empty_ok: "LDSSEParserProcess d p [] c = Inr (ok, p', c') \<Longrightarrow> ok"
  by simp

lemma stream_feed_process:
  "final_store (stream_feed E ctx store chunks) =
   final_store (process_timed (LDi_onEvent E) (sc_parser ctx) chunks store)"
proof (induction chunks arbitrary: ctx store)
  case (Cons tx chunks)
  obtain t x where tx: "tx = (t, x)" by (cases tx)
  show ?case
    using Cons process_empty_ok [of "LDi_onEvent E t" "sc_parser ctx" store]
    by (auto simp: tx LDi_streamWriteCallback_def final_store_bind run_bind_assoc final_store_def
        intro!: run_bind_cong)
qed (simp add: final_store_def)

lemma dispatch_updates:
  assumes "map snd tes = map (update_event E) us"
    and "\<forall>u \<in> set us. update_ok u \<and> env_deserialize E (env_serialize E (update_doc u)) = Some (update_doc u)"
  shows "dispatch_timed (LDi_onEvent E) tes store = stream_apply_all E store (zip (map fst tes) us)"
  using assms
proof (induction us arbitrary: tes store)
  case (Cons u us)
  then obtain t tes' where tes: "tes = (t, update_event E u) # tes'" "map snd tes' = map (update_event E) us"
    by (cases tes) auto
  with Cons show ?case
    by (auto simp: update_event_def onEvent_update intro!: run_bind_cong)
qed simp

lemma final_outcome: "final_store r = run_bind (outcome r) (\<lambda>(ok, _, c). Inr (ok, c))"
  by (cases r) (auto simp: final_store_def)

text \<open>
  Updates reach the store, whatever codec turns documents to text and back, as long as the
  text has no NUL.
\<close>

lemma stream_updates:
  assumes "\<forall>u \<in> set us. update_ok u \<and> CHR 0x00 \<notin> set (env_serialize E (update_doc u)) \<and>
      env_deserialize E (env_serialize E (update_doc u)) = Some (update_doc u)"
    and "concat (map snd chunks) = concat (map (\<lambda>u. sse_encode (update_event E u)) us)" and "us \<noteq> []"
    and "idle (sc_parser context)"
  shows "\<exists>times. length times = length us \<and> set times \<subseteq> fst ` set chunks \<and>
    final_store (stream_feed E context store chunks) = stream_apply_all E store (zip times us)"
proof -
  let ?p = "sc_parser context"
  have names: "CHR 0x0A \<notin> set (update_name u)" "CHR 0x00 \<notin> set (update_name u)" for u
    by (cases u; simp)+
  have "fst (scan_chunks ?p (map snd chunks)) = map (update_event E) us"
    using assms names by (intro scan_encoded) (auto simp: update_event_def comp_def)
  moreover have "pending ?p = Inr []" using assms(4) by (simp add: idle_def)
  ultimately obtain tes where tes: "map snd tes = map (update_event E) us" "fst ` set tes \<subseteq> fst ` set chunks"
    and run: "outcome (process_timed (LDi_onEvent E) ?p chunks store) =
      run_bind (dispatch_timed (LDi_onEvent E) tes store)
      (\<lambda>(ok, c'). Inr (ok, if ok then Some (snd (scan_chunks ?p (map snd chunks))) else None, c'))"
    using process_timed_events [of ?p "[]" chunks "LDi_onEvent E"] by auto
  have "final_store (stream_feed E context store chunks) = dispatch_timed (LDi_onEvent E) tes store"
    unfolding stream_feed_process final_outcome run run_bind_assoc
    by (cases "dispatch_timed (LDi_onEvent E) tes store") auto
  also have "\<dots> = stream_apply_all E store (zip (map fst tes) us)"
    using tes(1) assms(1) by (intro dispatch_updates) auto
  finally show ?thesis using tes map_eq_imp_length_eq [OF tes(1)] by (intro exI [of _ "map fst tes"]) auto
qed

section \<open>Reconnection\<close>

text \<open>The bounds of the wait before the attempt after \<open>n\<close> failures, in milliseconds.\<close>

definition longest_wait :: "u32 \<Rightarrow> int" where
  "longest_wait n = min 30000 (1000 * 2 ^ (unat n - 1))"

definition shortest_wait :: "u32 \<Rightarrow> int" where
  "shortest_wait n = (if n = 1 then 1000 else longest_wait n div 2)"

lemma normalize_bounds:
  assumes "0 \<le> m" and "m \<le> 2147483647" and "0 \<le> k" and "k \<le> 15000"
  shows "0 \<le> LDi_normalize (of_int m) 0 LD_RAND_MAX 0 (of_int k)"
    and "LDi_normalize (of_int m) 0 LD_RAND_MAX 0 (of_int k) \<le> of_int k"
proof -
  have mk: "0 \<le> m * k" "m * k \<le> 2147483647 * k" "m * k \<le> 2147483647 * 15000"
    using assms mult_right_mono [of m 2147483647 k] mult_mono [of m 2147483647 k 15000] by auto
  have "to_double (of_int m * of_int k) = of_int (m * k)"
    using mk to_double_int [of "m * k"] by simp
  moreover have "to_double (2147483647 :: rat) = 2147483647" using to_double_int [of 2147483647] by simp
  ultimately have eq: "LDi_normalize (of_int m) 0 LD_RAND_MAX 0 (of_int k) =
      to_double (to_double (of_int (m * k) / 2147483647))"
    using assms by (simp add: LDi_normalize_def LD_RAND_MAX_def)
  define y :: rat where "y = of_int (m * k) / 2147483647"
  have "of_int (m * k) \<le> (of_int (2147483647 * k) :: rat)" using mk(2) by (simp only: of_int_le_iff)
  then have y: "0 \<le> y" "y \<le> of_int k" using mk(1) assms by (auto simp: y_def field_simps)
  have z: "0 \<le> to_double y" "to_double y \<le> of_int k"
    using y assms to_double_le_int [of y k] round_to_nonneg [of y] by (auto simp: to_double_def)
  show "0 \<le> LDi_normalize (of_int m) 0 LD_RAND_MAX 0 (of_int k)"
    "LDi_normalize (of_int m) 0 LD_RAND_MAX 0 (of_int k) \<le> of_int k"
    using z assms to_double_le_int [of "to_double y" k] round_to_nonneg [of "to_double y"]
    unfolding eq y_def [symmetric] by (auto simp: to_double_def)
qed

lemma backoff_bounds:
  assumes "2 \<le> unat n" and "unat r \<le> 2147483647"
  shows "of_int (shortest_wait n) \<le> stream_backoff n r" and "stream_backoff n r \<le> of_int (longest_wait n)"
    and "longest_wait n = 2 * shortest_wait n"
proof -
  define k where "k = shortest_wait n"
  obtain j where j: "unat n = Suc (Suc j)" using assms(1) by (metis add_2_eq_Suc le_Suc_ex)
  have n1: "n \<noteq> 1" using assms(1) by auto
  have k: "k = min 15000 (1000 * 2 ^ j)" using n1 by (simp add: k_def shortest_wait_def longest_wait_def j min_def)
  have long: "longest_wait n = 2 * k" by (simp add: k longest_wait_def j min_def)
  then show "longest_wait n = 2 * shortest_wait n" by (simp add: k_def)
  have k0: "0 \<le> k" "k \<le> 15000" by (simp_all add: k)
  have half: "min (1000 * 2 ^ unat n / 2) (30 * 1000) / 2 = (of_int k :: rat)"
    using of_int_le_iff [of "2 ^ j" 15, where 'a = rat] of_int_le_iff [of 15 "2 ^ j", where 'a = rat]
    by (auto simp: k j min_def)
  define r' where "r' = LDi_normalize (uint_to_double r) 0 LD_RAND_MAX 0 (of_int k)"
  have "uint r \<le> 2147483647" using assms(2) unfolding unat_eq_nat_uint nat_le_iff by simp
  then have "0 \<le> r'" "r' \<le> of_int k"
    unfolding r'_def uint_to_double_def using k0 by (simp_all only: normalize_bounds uint_ge_0)
  moreover have "stream_backoff n r = to_double (of_int k + r')"
    unfolding stream_backoff_def half Let_def r'_def ..
  ultimately show "of_int (shortest_wait n) \<le> stream_backoff n r" "stream_backoff n r \<le> of_int (longest_wait n)"
    using to_double_ge_int [of k "of_int k + r'"] to_double_le_int [of "of_int k + r'" "2 * k"] k0
    by (auto simp: k_def [symmetric] long)
qed

lemma wait_until:
  assumes "of_int lo \<le> d" and "d \<le> of_int hi" and "0 \<le> lo" and "hi \<le> 30000" and "0 \<le> now" and "now < 2 ^ 52"
  shows "\<exists>w. double_to_ulong (to_double (now + d)) = Inr w \<and> \<lfloor>now\<rfloor> + lo \<le> uint w \<and> uint w \<le> \<lceil>now\<rceil> + hi \<and>
    uint w < 2 ^ 53"
proof -
  let ?x = "to_double (now + d)"
  have fl: "0 \<le> \<lfloor>now\<rfloor>" "\<lfloor>now\<rfloor> < 2 ^ 52" "\<lceil>now\<rceil> \<le> 2 ^ 52"
    using assms(5,6) by (simp_all add: floor_less_iff ceiling_le_iff)
  have "of_int \<lfloor>now\<rfloor> \<le> now" "now \<le> of_int \<lceil>now\<rceil>" by simp_all
  then have "of_int (\<lfloor>now\<rfloor> + lo) \<le> now + d" "now + d \<le> of_int (\<lceil>now\<rceil> + hi)"
    using add_mono [OF _ assms(1)] add_mono [OF _ assms(2)] by auto
  moreover have "lo \<le> hi" using assms(1,2) by (meson of_int_le_iff order_trans)
  moreover have "0 \<le> d" by (rule order_trans [OF _ assms(1)]) (simp add: assms(3))
  moreover have two: "(2 :: int) ^ 53 = 9007199254740992" "(2 :: int) ^ 52 = 4503599627370496" by simp_all
  moreover have "\<lfloor>now\<rfloor> + lo < 2 ^ 53" using fl assms(4) \<open>lo \<le> hi\<close> unfolding two by linarith
  moreover have "\<lceil>now\<rceil> + hi < 2 ^ 53" using fl assms(4) unfolding two by linarith
  moreover have "0 \<le> \<lfloor>now\<rfloor> + lo" using fl assms(3) by linarith
  ultimately have x: "of_int (\<lfloor>now\<rfloor> + lo) \<le> ?x" "?x \<le> of_int (\<lceil>now\<rceil> + hi)"
    using assms(5) by (blast intro: to_double_ge_int to_double_le_int add_nonneg_nonneg)+
  then have b: "\<lfloor>now\<rfloor> + lo \<le> \<lfloor>?x\<rfloor>" "\<lfloor>?x\<rfloor> \<le> \<lceil>now\<rceil> + hi"
    by (simp only: le_floor_iff, simp only: floor_le_iff)
  have "0 \<le> ?x" using x(1) fl assms(3) by (meson add_nonneg_nonneg of_int_0_le_iff order_trans)
  moreover have "\<lfloor>?x\<rfloor> < 18446744073709551616" using b(2) \<open>\<lceil>now\<rceil> + hi < 2 ^ 53\<close> unfolding two by linarith
  then have "?x < 2 ^ 64" by (simp only: floor_less_iff) simp
  ultimately have w: "double_to_ulong ?x = Inr (word_of_int \<lfloor>?x\<rfloor>)"
    "uint (word_of_int \<lfloor>?x\<rfloor> :: ulong) = \<lfloor>?x\<rfloor>" using double_to_ulong_ok [of ?x] by auto
  have c: "\<lfloor>?x\<rfloor> < 2 ^ 53" using b(2) \<open>\<lceil>now\<rceil> + hi < 2 ^ 53\<close> by linarith
  show ?thesis by (intro exI conjI, rule w(1)) (unfold w(2), rule b(1), rule b(2), rule c)
qed

lemma stream_wait_starts:
  assumes "attempts ctx \<noteq> 0" and "waitUntil ctx = 0" and "unat rng \<le> 2147483647" and "0 \<le> now" and "now < 2 ^ 52"
  shows "\<exists>w. stream_wait (Some rng) now ctx = Inr (False, ctx\<lparr>waitUntil := w\<rparr>) \<and>
    \<lfloor>now\<rfloor> + shortest_wait (attempts ctx) \<le> uint w \<and> uint w \<le> \<lceil>now\<rceil> + longest_wait (attempts ctx) \<and> uint w < 2 ^ 53"
proof (cases "attempts ctx = 1")
  case True
  with wait_until [of 1000 1000 1000 now] assms show ?thesis
    by (auto simp: stream_wait_def shortest_wait_def longest_wait_def)
next
  case False
  have "unat (attempts ctx) \<noteq> 0" "unat (attempts ctx) \<noteq> 1"
    using assms(1) False word_unat_eq_iff [of "attempts ctx" 1] by (auto simp: unat_eq_zero)
  then have "2 \<le> unat (attempts ctx)" by linarith
  note b = backoff_bounds [OF this assms(3)]
  have "0 \<le> shortest_wait (attempts ctx)" "longest_wait (attempts ctx) \<le> 30000"
    by (simp_all add: shortest_wait_def longest_wait_def)
  from wait_until [OF b(1,2) this assms(4,5)] show ?thesis
    using assms False by (auto simp: stream_wait_def)
qed

lemma stream_wait_ends:
  assumes "attempts ctx \<noteq> 0" and "waitUntil ctx \<noteq> 0" and "uint (waitUntil ctx) < 2 ^ 53"
  shows "t < of_int (uint (waitUntil ctx)) \<Longrightarrow> stream_wait r t ctx = Inr (False, ctx)"
    and "of_int (uint (waitUntil ctx)) \<le> t \<Longrightarrow> t < 2 ^ 64 \<Longrightarrow>
      stream_wait r t ctx = Inr (True, ctx\<lparr>waitUntil := 0, startedOn := word_of_int \<lfloor>t\<rfloor>\<rparr>)"
proof -
  note w = ulong_to_double_small [OF assms(3)]
  show "stream_wait r t ctx = Inr (False, ctx)" if "t < of_int (uint (waitUntil ctx))"
    using that assms w by (simp add: stream_wait_def)
  assume t: "of_int (uint (waitUntil ctx)) \<le> t" "t < 2 ^ 64"
  have "0 \<le> t" using t(1) by (meson of_int_0_le_iff order_trans uint_ge_0)
  then show "stream_wait r t ctx = Inr (True, ctx\<lparr>waitUntil := 0, startedOn := word_of_int \<lfloor>t\<rfloor>\<rparr>)"
    using t assms w double_to_ulong_ok [of t] by (simp add: stream_wait_def)
qed

lemma stream_request_good:
  "\<exists>rq. stream_request good_curl config now ctx = Inr (Some rq, ctx\<lparr>sc_headers := Slist (rq_headers rq),
     sc_active := True, lastReadTimeMilliseconds := now\<rparr>) \<and> rq_url rq = snprintf 4096 (streamURI config @ ''/all'')"
proof -
  obtain rq hs where "LDi_prepareShared good_curl config (snprintf 4096 (streamURI config @ ''/all'')) = Some (rq, hs)"
    using prepareShared_good by (metis old.prod.exhaust option.exhaust)
  with prepareShared_request [OF this] show ?thesis
    by (auto simp: stream_request_def good_curl_def Let_def
        intro!: exI [of _ "rq\<lparr>rq_headers := rq_headers rq @ [''Accept: text/event-stream'']\<rparr>"])
qed

text \<open>
  C40: a lost connection is taken up again, after the documented wait. After \<open>n > 0\<close> failed
  attempts the first call of \<open>poll\<close> starts a wait of one second for \<open>n = 1\<close> and otherwise of
  between half of and all of \<open>min 30000 (1000 * 2 ^ (n - 1))\<close> milliseconds, up to the rounding of
  the clock reading to whole milliseconds; until it is over \<open>poll\<close> does nothing, and the first
  \<open>poll\<close> after it issues the request for the stream and makes the connection active, provided
  libcurl accepts it. No number of failures overflows the computation.
\<close>

theorem stream_reconnects:
  assumes "cfg_stream config" and "\<not> permanentFailure ctx" and "\<not> sc_active ctx" and "attempts ctx \<noteq> 0"
    and "waitUntil ctx = 0" and "unat rng \<le> 2147483647" and "0 \<le> now" and "now < 2 ^ 52"
  shows "\<exists>ctx'. stream_poll C config (Some rng) now now' ctx cur = Inr (None, ctx', cur) \<and>
    \<lfloor>now\<rfloor> + shortest_wait (attempts ctx) \<le> uint (waitUntil ctx') \<and>
    uint (waitUntil ctx') \<le> \<lceil>now\<rceil> + longest_wait (attempts ctx) \<and>
    (\<forall>t < of_int (uint (waitUntil ctx')). stream_poll C config r t t' ctx' cur = Inr (None, ctx', cur)) \<and>
    (\<forall>t \<ge> of_int (uint (waitUntil ctx')). t < 2 ^ 64 \<longrightarrow>
       (\<exists>rq ctx''. stream_poll good_curl config r t t' ctx' cur = Inr (Some rq, ctx'', cur) \<and>
          rq_url rq = snprintf 4096 (streamURI config @ ''/all'') \<and> sc_active ctx''))"
proof -
  obtain w where w: "stream_wait (Some rng) now ctx = Inr (False, ctx\<lparr>waitUntil := w\<rparr>)"
    "\<lfloor>now\<rfloor> + shortest_wait (attempts ctx) \<le> uint w" "uint w \<le> \<lceil>now\<rceil> + longest_wait (attempts ctx)"
    "uint w < 2 ^ 53"
    using stream_wait_starts [OF assms(4-8)] by blast
  let ?c = "ctx\<lparr>waitUntil := w\<rparr>"
  have "0 < shortest_wait (attempts ctx)"
    by (simp add: shortest_wait_def longest_wait_def min_def)
  then have w0: "w \<noteq> 0" using w(2) zero_le_floor [of now] assms(7) by (auto simp del: zero_le_floor)
  note ends = stream_wait_ends [of ?c]
  show ?thesis
  proof (intro exI [of _ ?c] conjI allI impI)
    show "stream_poll C config (Some rng) now now' ctx cur = Inr (None, ?c, cur)"
      using assms(1-3) w(1) by (simp add: stream_poll_def)
    show "\<lfloor>now\<rfloor> + shortest_wait (attempts ctx) \<le> uint (waitUntil ?c)"
      "uint (waitUntil ?c) \<le> \<lceil>now\<rceil> + longest_wait (attempts ctx)" using w by simp_all
    show "stream_poll C config r t t' ?c cur = Inr (None, ?c, cur)" if "t < of_int (uint (waitUntil ?c))" for t
      using ends(1) [OF _ _ _ that] assms(1-4) w(4) w0 by (simp add: stream_poll_def)
    show "\<exists>rq ctx''. stream_poll good_curl config r t t' ?c cur = Inr (Some rq, ctx'', cur) \<and>
          rq_url rq = snprintf 4096 (streamURI config @ ''/all'') \<and> sc_active ctx''"
      if "of_int (uint (waitUntil ?c)) \<le> t" and "t < 2 ^ 64" for t
      using ends(2) [OF _ _ _ that, of r] assms(1-4) w(4) w0
        stream_request_good [of config t' "?c\<lparr>waitUntil := 0, startedOn := word_of_int \<lfloor>t\<rfloor>\<rparr>"]
      by (auto simp: stream_poll_def)
  qed
qed

section \<open>Two defects of the reconnection\<close>

text \<open>An accepted connection that was not preceded by a wait: its start was never recorded.\<close>

definition first_connection :: "StreamContext \<Rightarrow> bool" where
  "first_connection ctx \<longleftrightarrow> sc_active ctx \<and> attempts ctx = 0 \<and> startedOn ctx = 0 \<and>
     sc_headers ctx \<noteq> FreedList \<and> \<not> permanentFailure ctx"

lemma slist_free_ok: "sl \<noteq> FreedList \<Longrightarrow> curl_slist_free_all sl = Inr ()"
  by (cases sl) simp_all

text \<open>
  A stream that the server accepts and closes at once is reopened at once, again and
  again. \<open>done\<close> means to count a connection that lived less than a minute as a failure, but the
  start time is only recorded after a wait: for a connection that was the first attempt it is
  zero, so from one minute after the start of the clock on (that of the machine) \<open>attempts\<close>
  stays zero, the next \<open>poll\<close>, at the same instant, issues the request, and the context is again
  in the state this starts from.
\<close>

theorem stream_reopened_at_once:
  assumes "first_connection ctx" and "60000 \<le> now" and "cfg_stream config"
  shows "\<exists>ctx' rq ctx''. stream_done now 200 ctx = Inr ctx' \<and>
    stream_poll good_curl config r now now ctx' None = Inr (Some rq, ctx'', None) \<and> first_connection ctx''"
proof -
  have "ulong_to_double 60000 = 60000"
    using ulong_to_double_small [of 60000] by simp
  then have d: "stream_done now 200 ctx = Inr (ctx\<lparr>sc_active := False,
      sc_parser := LDSSEParserDestroy (sc_parser ctx), sc_headers := NullList\<rparr>)" (is "_ = Inr ?c")
    using assms(1,2) slist_free_ok [of "sc_headers ctx"]
    by (cases ctx) (simp add: stream_done_def stream_resetMemory_def first_connection_def Let_def)
  obtain rq where "stream_request good_curl config now ?c = Inr (Some rq, ?c\<lparr>sc_headers := Slist (rq_headers rq),
     sc_active := True, lastReadTimeMilliseconds := now\<rparr>)" (is "_ = Inr (_, ?c'')")
    using stream_request_good by blast
  then have "stream_poll good_curl config r now now ?c None = Inr (Some rq, ?c'', None)"
    using assms by (simp add: stream_poll_def stream_wait_def first_connection_def)
  moreover have "first_connection ?c''" using assms(1) by (simp add: first_connection_def)
  ultimately show ?thesis using d by blast
qed

lemma stream_request_parser: "stream_request C config now ctx = Inr (h, ctx') \<Longrightarrow> sc_parser ctx' = sc_parser ctx"
  by (auto simp: stream_request_def Let_def run_simps split: option.splits if_splits)

lemma stream_wait_parser: "stream_wait r now ctx = Inr (go, ctx') \<Longrightarrow> sc_parser ctx' = sc_parser ctx"
  by (auto simp: stream_wait_def run_simps split: option.splits if_splits)

lemma stream_poll_parser:
  "stream_poll C config r now now' ctx cur = Inr (Some rq, ctx', cur') \<Longrightarrow> sc_parser ctx' = sc_parser ctx"
  by (auto simp: stream_poll_def run_simps split: if_splits
      dest!: stream_request_parser stream_wait_parser)

text \<open>
  After a connection that broke off in the middle of a line the parser reads memory that
  was never written. \<open>LDSSEParserDestroy\<close> frees the buffer and keeps its size; when the stream is
  opened again the first bytes are stored behind a gap of that size in a new allocation, and the
  search for the end of the line starts in the gap.
\<close>

theorem stream_reads_uninitialised:
  assumes "bufferSize (sc_parser ctx) \<noteq> 0" and "stream_done now code ctx = Inr ctx1"
    and "stream_poll C config r t t' ctx1 cur = Inr (Some rq, ctx2, cur')" and "chunk \<noteq> []"
  shows "LDi_streamWriteCallback E t'' ctx2 store chunk = Inl Uninitialised"
proof -
  have "sc_parser ctx1 = LDSSEParserDestroy (sc_parser ctx)"
    using assms(2) by (auto simp: stream_done_def stream_resetMemory_def Let_def run_simps)
  then have "sc_parser ctx2 = LDSSEParserDestroy (sc_parser ctx)"
    using stream_poll_parser [OF assms(3)] by simp
  then show ?thesis
    using assms(1,4)
    by (simp add: LDi_streamWriteCallback_def LDSSEParserProcess_def pending_def LDSSEParserDestroy_def)
qed

section \<open>Witnesses\<close>

text \<open>A configuration.\<close>

definition sample_config :: "unit LDStoreInterface LDConfig" where
  "sample_config = the (LDConfigNew (Some ''key''))"

theorem stream_reconnects_witness:
  "\<exists>ctx'. stream_poll good_curl sample_config (Some 5) 7 7 (LDi_constructStreamContext\<lparr>attempts := 3\<rparr>) None =
      Inr (None, ctx', None) \<and> 2007 \<le> uint (waitUntil ctx') \<and> uint (waitUntil ctx') \<le> 4007"
  using stream_reconnects [of sample_config "LDi_constructStreamContext\<lparr>attempts := 3\<rparr>" 5 7 good_curl 7 None None 0]
  by (auto simp: sample_config_def LDConfigNew_def LDi_constructStreamContext_def shortest_wait_def
      longest_wait_def)

theorem stream_reopened_at_once_witness:
  "\<exists>ctx' rq ctx''. stream_done 60000 200 (LDi_constructStreamContext\<lparr>sc_active := True\<rparr>) = Inr ctx' \<and>
    stream_poll good_curl sample_config None 60000 60000 ctx' None = Inr (Some rq, ctx'', None)"
  using stream_reopened_at_once [of "LDi_constructStreamContext\<lparr>sc_active := True\<rparr>" 60000 sample_config None]
  by (auto simp: sample_config_def LDConfigNew_def LDi_constructStreamContext_def first_connection_def)

text \<open>A connection that broke off after the byte \<open>e\<close>, one minute after the start of the clock.\<close>

definition broken_context :: StreamContext where
  "broken_context = LDi_constructStreamContext\<lparr>sc_active := True,
     sc_parser := LDSSEParserInitialize\<lparr>ps_buffer := Some ''e'', bufferSize := 1\<rparr>\<rparr>"

theorem stream_reads_uninitialised_witness:
  "\<exists>ctx1 rq ctx2. stream_done 60000 200 broken_context = Inr ctx1 \<and>
    stream_poll good_curl sample_config None 60000 60000 ctx1 None = Inr (Some rq, ctx2, None) \<and>
    LDi_streamWriteCallback plain_env 60001 ctx2 (LDStoreNew sample_config) ''vent: put'' = Inl Uninitialised"
proof -
  have "ulong_to_double 60000 = 60000" using ulong_to_double_small [of 60000] by simp
  then obtain ctx1 where c1: "stream_done 60000 200 broken_context = Inr ctx1" "\<not> sc_active ctx1"
    "attempts ctx1 = 0" "\<not> permanentFailure ctx1"
    by (auto simp: stream_done_def broken_context_def LDi_constructStreamContext_def stream_resetMemory_def)
  obtain rq ctx2 where "stream_request good_curl sample_config 60000 ctx1 = Inr (Some rq, ctx2)"
    using stream_request_good by blast
  then have c2: "stream_poll good_curl sample_config None 60000 60000 ctx1 None = Inr (Some rq, ctx2, None)"
    using c1 by (simp add: stream_poll_def stream_wait_def sample_config_def LDConfigNew_def)
  have "bufferSize (sc_parser broken_context) \<noteq> 0" by (simp add: broken_context_def)
  from stream_reads_uninitialised [OF this c1(1) c2, of "''vent: put''" plain_env 60001 "LDStoreNew sample_config"]
  show ?thesis using c1(1) c2 by auto
qed

end
