(* ===== verification/LD_Network_Laws.thy ===== *)
theory LD_Network_Laws
  imports LD_Network LD_Streaming_Laws
begin

text \<open>
  The network thread keeps at most one request per interface outstanding. The contract between
  the loop and an interface is a locale, which the three interfaces of the program satisfy; the
  invariant of the loop rests on it alone.
\<close>

section \<open>The contract of an interface\<close>

text \<open>
  An interface is active exactly while its request is current; it issues a request only when
  it is not, and is not active after \<open>done\<close>.
\<close>

locale network_interface =
  fixes active :: "'n \<Rightarrow> bool"
    and current :: "'n \<Rightarrow> 'h option"
    and poll :: "'t \<Rightarrow> 'n \<Rightarrow> ('h option \<times> 'n) run"
    and finish :: "'t \<Rightarrow> int \<Rightarrow> 'n \<Rightarrow> 'n run"
  assumes poll_request: "poll t n = Inr (Some h, n') \<Longrightarrow> active n = (current n \<noteq> None) \<Longrightarrow>
      current n = None \<and> current n' = None \<and> active n'"
    and poll_nothing: "poll t n = Inr (None, n') \<Longrightarrow> active n = (current n \<noteq> None) \<Longrightarrow>
      active n' = (current n' \<noteq> None) \<and> (current n' = None \<or> current n' = current n)"
    and finish_inactive: "finish t code n = Inr n' \<Longrightarrow> \<not> active n'"
begin

lemma poll_consistent:
  assumes "poll t n = Inr (h, n')" and "active n = (current n \<noteq> None)"
  shows "active n' = ((if h = None then current n' else h) \<noteq> None)"
  using assms poll_request [of t n] poll_nothing [of t n n'] by (cases h) auto

lemma request_when_idle:
  "poll t n = Inr (Some h, n') \<Longrightarrow> active n = (current n \<noteq> None) \<Longrightarrow> \<not> active n"
  using poll_request [of t n h n'] by simp

end

section \<open>The three interfaces\<close>

fun iface_active :: "iface \<Rightarrow> 'b network \<Rightarrow> bool" where
  "iface_active Polling nw = pc_active (nw_polling nw)"
| "iface_active Streaming nw = sc_active (nw_stream nw)"
| "iface_active Analytics nw = ac_active (nw_analytics nw)"

lemma poll_poll_active:
  assumes "poll_poll C config now ctx = Inr (h, ctx')"
  shows "if h = None then pc_active ctx' = pc_active ctx
    else \<not> pc_active ctx \<and> pc_active ctx' \<and> \<not> cfg_stream config"
  using assms
  by (cases "LDi_prepareShared C config (snprintf 4096 (baseURI config @ ''/sdk/latest-all''))")
    (auto simp: poll_poll_def Let_def run_simps split: if_splits)

lemma stream_wait_active: "stream_wait r now ctx = Inr (go, ctx') \<Longrightarrow> sc_active ctx' = sc_active ctx"
  by (auto simp: stream_wait_def run_simps split: option.splits if_splits)

lemma stream_request_active:
  "stream_request C config now ctx = Inr (h, ctx') \<Longrightarrow> sc_active ctx' = (if h = None then sc_active ctx else True)"
  by (cases "LDi_prepareShared C config (snprintf 4096 (streamURI config @ ''/all''))")
    (auto simp: stream_request_def Let_def run_simps split: if_splits)

lemma stream_done_inactive: "stream_done now code ctx = Inr ctx' \<Longrightarrow> \<not> sc_active ctx'"
  by (auto simp: stream_done_def stream_resetMemory_def Let_def run_simps)

lemma stream_poll_active:
  assumes "stream_poll C config r now now' ctx cur = Inr (h, ctx', cur')"
  shows "if h = None
    then sc_active ctx' = sc_active ctx \<and> cur' = cur \<or>
      sc_active ctx \<and> cur \<noteq> None \<and> \<not> sc_active ctx' \<and> cur' = None
    else \<not> sc_active ctx \<and> sc_active ctx' \<and> cur' = cur \<and> cfg_stream config"
  using assms
  by (auto simp: stream_poll_def LDi_removeAndFreeHandle_def run_simps split: if_splits
      dest!: stream_request_active stream_wait_active stream_done_inactive)

lemma analytics_request_active:
  "analytics_request C config ctx = Inr (h, ctx') \<Longrightarrow> ac_active ctx' = (if h = None then ac_active ctx else True)"
  by (cases "LDi_prepareShared C config (snprintf 4096 (eventsURI config @ ''/bulk''))"; cases "payloadId ctx")
    (auto simp: analytics_request_def Let_def run_simps split: if_splits)

lemma analytics_poll_active:
  assumes "analytics_poll C E rng now unix ctx client = Inr (h, ctx', client')"
  shows "(if h = None then ac_active ctx' = ac_active ctx else \<not> ac_active ctx \<and> ac_active ctx') \<and>
    cl_config client' = cl_config client"
proof (cases "ac_active ctx \<or> failureTime ctx \<noteq> 0 \<and> now \<le> uint_to_double (failureTime ctx + 1000)")
  case False
  then obtain go ctx1 client1 where n: "(if failureTime ctx = 0 then new_payload E rng now unix ctx client
      else Inr (True, ctx, client)) = Inr (go, ctx1, client1)"
    and r: "if go then client' = client1 \<and> analytics_request C (cl_config client1) ctx1 = Inr (h, ctx')
      else h = None \<and> ctx' = ctx1 \<and> client' = client1"
    using assms by (auto simp: analytics_poll_def run_bind_Inr_iff split: if_splits)
  have "cl_config client1 = cl_config client \<and> ac_active ctx1 = ac_active ctx"
    using n new_payload_keeps [of E rng now unix ctx client go ctx1 client1] by (simp split: if_splits)
  then show ?thesis
    using r False analytics_request_active [of C "cl_config client1" ctx1 h ctx'] by (auto split: if_splits)
qed (use assms in \<open>auto simp: analytics_poll_def split: if_splits\<close>)

lemma iface_done_inactive: "iface_done W t i code nw = Inr nw' \<Longrightarrow> \<not> iface_active i nw'"
  by (cases i)
    (auto simp: run_simps poll_done_def poll_resetMemory_def analytics_done_def analytics_resetMemory_def
      with_store_def Let_def split: if_splits dest!: stream_done_inactive)

lemma stream_iface_poll:
  assumes "iface_poll W t Streaming nw = Inr (h, nw')"
  obtains ctx cur where "stream_poll (tn_curl t) (cl_config (nw_client nw)) (tn_random t) (tn_now t) (tn_now t)
      (nw_stream nw) (nw_current nw Streaming) = Inr (h, ctx, cur)"
    and "nw' = nw\<lparr>nw_stream := ctx, nw_current := (nw_current nw)(Streaming := cur),
      nw_attached := (if nw_current nw Streaming \<noteq> None \<and> cur = None then removeAll Streaming (nw_attached nw)
        else nw_attached nw)\<rparr>"
  using assms by (simp only: iface_poll.simps run_simps Let_def split_paired_Ex prod.case sum.inject prod.inject) blast

lemma iface_poll_active:
  assumes "iface_poll W t i nw = Inr (h, nw')"
  shows "if h = None
    then iface_active i nw' = iface_active i nw \<and> nw_current nw' i = nw_current nw i \<or>
      iface_active i nw \<and> nw_current nw i \<noteq> None \<and> \<not> iface_active i nw' \<and> nw_current nw' i = None
    else \<not> iface_active i nw \<and> iface_active i nw' \<and> nw_current nw' i = nw_current nw i"
proof (cases i)
  case Polling
  with assms show ?thesis by (auto simp: run_simps dest!: poll_poll_active split: if_splits)
next
  case Streaming
  obtain ctx cur where sp: "stream_poll (tn_curl t) (cl_config (nw_client nw)) (tn_random t) (tn_now t)
      (tn_now t) (nw_stream nw) (nw_current nw Streaming) = Inr (h, ctx, cur)"
    and nw': "nw_stream nw' = ctx" "nw_current nw' Streaming = cur"
    by (rule stream_iface_poll [OF assms [unfolded Streaming]]) simp
  from stream_poll_active [OF sp] show ?thesis by (auto simp: Streaming nw' split: if_splits)
next
  case Analytics
  with assms show ?thesis by (auto simp: run_simps dest!: analytics_poll_active split: if_splits)
qed

interpretation iface: network_interface "iface_active i" "\<lambda>nw :: 'b network. nw_current nw i"
  "\<lambda>(W, t). iface_poll W t i" "\<lambda>(W, t). iface_done W t i" for i
proof (unfold_locales, goal_cases)
  case (1 t nw h nw')
  then show ?case by (cases t) (auto dest!: iface_poll_active)
next
  case (2 t nw nw')
  then show ?case by (cases t) (auto dest!: iface_poll_active)
next
  case (3 t code nw nw')
  then show ?case by (cases t) (auto dest!: iface_done_inactive)
qed

section \<open>The invariant of the loop\<close>

text \<open>Streaming excludes polling, and what is active, current and attached agrees.\<close>

definition modes_ok :: "'b network \<Rightarrow> bool" where
  "modes_ok nw \<longleftrightarrow> (pc_active (nw_polling nw) \<longrightarrow> \<not> cfg_stream (cl_config (nw_client nw))) \<and>
     (sc_active (nw_stream nw) \<longrightarrow> cfg_stream (cl_config (nw_client nw)))"

definition linked :: "'b network \<Rightarrow> iface \<Rightarrow> bool" where
  "linked nw i \<longleftrightarrow> iface_active i nw = (nw_current nw i \<noteq> None) \<and>
     count_list (nw_attached nw) i = (if nw_current nw i = None then 0 else 1)"

definition network_ok :: "'b network \<Rightarrow> bool" where
  "network_ok nw \<longleftrightarrow> modes_ok nw \<and> (\<forall>i. linked nw i)"

text \<open>What an operation on one interface leaves alone.\<close>

definition others_kept :: "iface \<Rightarrow> 'b network \<Rightarrow> 'b network \<Rightarrow> bool" where
  "others_kept i nw nw' \<longleftrightarrow> cl_config (nw_client nw') = cl_config (nw_client nw) \<and>
     (\<forall>j. j \<noteq> i \<longrightarrow> iface_active j nw' = iface_active j nw \<and> nw_current nw' j = nw_current nw j \<and>
        count_list (nw_attached nw') j = count_list (nw_attached nw) j)"

lemma count_removeAll: "count_list (removeAll x xs) y = (if x = y then 0 else count_list xs y)"
  by (induction xs) auto

lemma iface_cases: "(\<forall>j. j \<noteq> i \<longrightarrow> P j) \<longleftrightarrow>
  (i = Polling \<or> P Polling) \<and> (i = Streaming \<or> P Streaming) \<and> (i = Analytics \<or> P Analytics)"
  by (metis iface.exhaust)

lemma iface_poll_kept:
  assumes "iface_poll W t i nw = Inr (h, nw')"
  shows "others_kept i nw nw' \<and> (h \<noteq> None \<longrightarrow> (i = Polling \<longrightarrow> \<not> cfg_stream (cl_config (nw_client nw))) \<and>
      (i = Streaming \<longrightarrow> cfg_stream (cl_config (nw_client nw)))) \<and>
    count_list (nw_attached nw') i =
      (if nw_current nw i \<noteq> None \<and> nw_current nw' i = None then 0 else count_list (nw_attached nw) i)"
proof (cases i)
  case Polling
  with assms show ?thesis
    by (auto simp: run_simps others_kept_def iface_cases dest!: poll_poll_active split: if_splits)
next
  case Streaming
  obtain ctx cur where sp: "stream_poll (tn_curl t) (cl_config (nw_client nw)) (tn_random t) (tn_now t)
      (tn_now t) (nw_stream nw) (nw_current nw Streaming) = Inr (h, ctx, cur)"
    and nw': "nw' = nw\<lparr>nw_stream := ctx, nw_current := (nw_current nw)(Streaming := cur),
      nw_attached := (if nw_current nw Streaming \<noteq> None \<and> cur = None then removeAll Streaming (nw_attached nw)
        else nw_attached nw)\<rparr>"
    by (rule stream_iface_poll [OF assms [unfolded Streaming]])
  show ?thesis
    using stream_poll_active [OF sp] unfolding Streaming nw'
    by (auto simp: others_kept_def iface_cases count_removeAll split: if_splits)
next
  case Analytics
  with assms show ?thesis
    by (auto simp: run_simps others_kept_def iface_cases dest!: analytics_poll_active split: if_splits)
qed

lemma linked_kept: "others_kept i nw nw' \<Longrightarrow> linked nw j \<Longrightarrow> j \<noteq> i \<Longrightarrow> linked nw' j"
  by (auto simp: others_kept_def linked_def)

lemma modes_kept:
  assumes "others_kept i nw nw'" and "modes_ok nw"
    and "iface_active i nw' \<Longrightarrow> iface_active i nw \<or> (i = Polling \<longrightarrow> \<not> cfg_stream (cl_config (nw_client nw))) \<and>
      (i = Streaming \<longrightarrow> cfg_stream (cl_config (nw_client nw)))"
  shows "modes_ok nw'"
  using assms by (cases i) (auto simp: others_kept_def modes_ok_def iface_cases)

lemma network_ok_step:
  assumes "others_kept i nw nw'" and "network_ok nw" and "linked nw' i" and "modes_ok nw'"
  shows "network_ok nw' \<and> cl_config (nw_client nw') = cl_config (nw_client nw)"
proof -
  have "linked nw' j" for j
    using assms linked_kept [OF assms(1), of j] by (cases "j = i") (auto simp: network_ok_def)
  with assms(1,4) show ?thesis by (simp add: network_ok_def others_kept_def)
qed

lemma poll_and_attach_ok:
  assumes "network_ok nw" and "poll_and_attach W t i nw = Inr (True, nw')"
  shows "network_ok nw' \<and> cl_config (nw_client nw') = cl_config (nw_client nw)"
proof -
  obtain h nw1 where p: "iface_poll W t i nw = Inr (h, nw1)"
    and nw': "nw' = (if h = None then nw1 else nw1\<lparr>nw_current := (nw_current nw1)(i := h),
      nw_attached := i # nw_attached nw1\<rparr>)"
  proof (cases "iface_poll W t i nw")
    case (Inr r)
    then obtain h nw1 where r: "iface_poll W t i nw = Inr (h, nw1)" by (cases r) auto
    with assms(2) show thesis
      by (cases h) (auto simp: poll_and_attach_def Let_def split: if_splits intro: that [OF r])
  qed (use assms(2) in \<open>simp add: poll_and_attach_def\<close>)
  have l: "linked nw i" "modes_ok nw" using assms(1) by (auto simp: network_ok_def)
  note kept = iface_poll_kept [OF p]
  have kept': "others_kept i nw nw'" using kept by (auto simp: nw' others_kept_def iface_cases)
  have act: "iface_active i nw' = iface_active i nw1" by (cases i) (simp_all add: nw')
  have "linked nw' i"
    using l(1) kept iface_poll_active [OF p] iface.poll_consistent [where t = "(W, t)" and n = nw and i = i] p act
    by (auto simp: linked_def nw' split: if_splits)
  moreover have "modes_ok nw'"
    using kept iface_poll_active [OF p] act by (intro modes_kept [OF kept' l(2)]) (auto split: if_splits)
  ultimately show ?thesis by (rule network_ok_step [OF kept' assms(1)])
qed

lemma poll_all_ok:
  "network_ok nw \<Longrightarrow> poll_all W t is nw = Inr (True, nw') \<Longrightarrow>
     network_ok nw' \<and> cl_config (nw_client nw') = cl_config (nw_client nw)"
proof (induction "is" arbitrary: nw)
  case (Cons i "is")
  then obtain nw1 where "poll_and_attach W t i nw = Inr (True, nw1)" "poll_all W t is nw1 = Inr (True, nw')"
    by (auto simp: run_simps split: if_splits)
  with Cons.IH [of nw1] Cons.prems(1) poll_and_attach_ok show ?case by metis
qed simp

lemma iface_done_kept:
  assumes "iface_done W t i code nw = Inr nw'"
  shows "others_kept i nw nw' \<and> nw_attached nw' = nw_attached nw"
  using assms
  by (cases i) (auto simp: run_simps others_kept_def iface_cases with_store_def analytics_done_def Let_def
      split: if_splits)

lemma handle_message_ok:
  assumes "network_ok nw" and "handle_message W t m nw = Inr (True, nw')"
  shows "network_ok nw' \<and> cl_config (nw_client nw') = cl_config (nw_client nw)"
proof (cases "msg_handle m \<in> set (nw_attached nw)")
  case True
  define i where "i = msg_handle m"
  obtain code nw1 where d: "iface_done W t i code nw = Inr nw1"
    and nw': "nw' = nw1\<lparr>nw_current := (nw_current nw1)(i := None), nw_attached := removeAll i (nw_attached nw1)\<rparr>"
    using assms(2) True
    by (auto simp: handle_message_def run_simps Let_def i_def split: option.splits if_splits)
  note kept = iface_done_kept [OF d]
  have kept': "others_kept i nw nw'" using kept by (auto simp: nw' others_kept_def iface_cases count_removeAll)
  have act: "\<not> iface_active i nw'" using iface_done_inactive [OF d] by (cases i) (simp_all add: nw')
  then have "linked nw' i" by (simp add: linked_def nw' count_removeAll)
  moreover have "modes_ok nw'"
    using assms(1) act by (intro modes_kept [OF kept']) (auto simp: network_ok_def)
  ultimately show ?thesis by (rule network_ok_step [OF kept' assms(1)])
qed (use assms in \<open>simp add: handle_message_def Let_def\<close>)

lemma handle_messages_ok:
  "network_ok nw \<Longrightarrow> handle_messages W t ms nw = Inr (True, nw') \<Longrightarrow>
     network_ok nw' \<and> cl_config (nw_client nw') = cl_config (nw_client nw)"
proof (induction ms arbitrary: nw)
  case (Cons m ms)
  then obtain nw1 where "handle_message W t m nw = Inr (True, nw1)" "handle_messages W t ms nw1 = Inr (True, nw')"
    by (auto simp: run_simps split: if_splits)
  with Cons.IH [of nw1] Cons.prems(1) handle_message_ok show ?case by metis
qed simp

text \<open>The callbacks change no interface in a way the invariant can see.\<close>

definition same_links :: "'b network \<Rightarrow> 'b network \<Rightarrow> bool" where
  "same_links nw nw' \<longleftrightarrow> cl_config (nw_client nw') = cl_config (nw_client nw) \<and>
     (\<forall>i. iface_active i nw' = iface_active i nw) \<and> nw_current nw' = nw_current nw \<and>
     nw_attached nw' = nw_attached nw"

lemma all_ifaces: "(\<forall>i. P i) \<longleftrightarrow> P Polling \<and> P Streaming \<and> P Analytics"
  by (metis iface.exhaust)

lemma same_links_ok: "same_links nw nw' \<Longrightarrow> network_ok nw \<Longrightarrow> network_ok nw'"
  by (auto simp: same_links_def network_ok_def modes_ok_def linked_def all_ifaces)

lemma onHeader_config: "cl_config (snd (LDi_onHeader parse line client)) = cl_config client"
  by (auto simp: LDi_onHeader_def Let_def split: option.split)

lemma run_callback_links: "run_callback W t c nw = Inr nw' \<Longrightarrow> same_links nw nw'"
proof (induction W t c nw rule: run_callback.induct)
  case (2 W t bytes nw)
  then show ?case
    by (auto simp: run_simps same_links_def all_ifaces with_store_def LDi_streamWriteCallback_def Let_def)
qed (auto simp: same_links_def all_ifaces poll_writeCallback_def onHeader_config)

lemma run_callbacks_links: "run_callbacks W t cs nw = Inr nw' \<Longrightarrow> same_links nw nw'"
proof (induction cs arbitrary: nw)
  case (Cons c cs)
  then obtain nw1 where "run_callback W t c nw = Inr nw1" "run_callbacks W t cs nw1 = Inr nw'"
    by (auto simp: run_simps)
  with Cons.IH run_callback_links show ?case by (fastforce simp: same_links_def)
qed (simp add: same_links_def)

lemma network_turn_ok:
  assumes "network_ok nw" and others: "\<forall>c. cl_config (tn_others t c) = cl_config c"
    and "network_turn W t nw = Inr (True, nw')"
  shows "network_ok nw'"
proof -
  let ?nw = "nw\<lparr>nw_client := tn_others t (nw_client nw)\<rparr>"
  have "same_links nw ?nw" using others by (simp add: same_links_def all_ifaces)
  then have ok: "network_ok ?nw" using assms(1) by (rule same_links_ok)
  have "\<exists>nw1 nw2. run_callbacks W t (tn_callbacks t) ?nw = Inr nw1 \<and>
      (nw2 = nw1 \<or> poll_all W t (interfaces (cl_config (nw_client ?nw))) nw1 = Inr (True, nw2)) \<and>
      handle_messages W t (tn_messages t) nw2 = Inr (True, nw')"
    using assms(3)
    by (cases "offline (cl_config (nw_client ?nw))")
      (auto simp: network_turn_def run_bind_Inr_iff Let_def split: if_splits)
  then obtain nw1 nw2 where cb: "run_callbacks W t (tn_callbacks t) ?nw = Inr nw1"
    and po: "nw2 = nw1 \<or> poll_all W t (interfaces (cl_config (nw_client ?nw))) nw1 = Inr (True, nw2)"
    and me: "handle_messages W t (tn_messages t) nw2 = Inr (True, nw')" by blast
  have "network_ok nw1" using same_links_ok [OF run_callbacks_links [OF cb] ok] .
  then have "network_ok nw2" using po poll_all_ok by blast
  with me handle_messages_ok show ?thesis by blast
qed

lemma network_loop_ok:
  "network_ok nw \<Longrightarrow> \<forall>t \<in> set turns. \<forall>c. cl_config (tn_others t c) = cl_config c \<Longrightarrow>
     network_loop W turns nw = Inr (True, nw') \<Longrightarrow> network_ok nw'"
proof (induction turns arbitrary: nw)
  case (Cons t ts)
  then obtain nw1 where "network_turn W t nw = Inr (True, nw1)" "network_loop W ts nw1 = Inr (True, nw')"
    by (auto simp: run_simps split: if_splits)
  with Cons.IH [of nw1] Cons.prems network_turn_ok show ?case by (metis list.set_intros)
qed simp

lemma network_init_ok: "network_ok (network_init client now)"
  by (simp add: network_ok_def modes_ok_def linked_def network_init_def all_ifaces LDi_constructPolling_def
      LDi_constructStreamContext_def LDi_constructAnalytics_def)

text \<open>
  C36: at most one request per interface is outstanding, and polling and streaming exclude each
  other. However many passes the network thread makes, whatever bytes, headers, response codes,
  failures and clock readings it meets and whatever other threads do to the client (short of
  replacing its configuration), as long as it goes on: an interface is active exactly when it
  has a current request, its handle is then attached to the multi handle exactly once and
  otherwise not at all, so every request is answered by at most one \<open>done\<close>.
\<close>

theorem network_one_request:
  assumes "\<forall>t \<in> set turns. \<forall>c. cl_config (tn_others t c) = cl_config c"
    and "network_loop W turns (network_init client now) = Inr (True, nw)"
  shows "(iface_active i nw \<longleftrightarrow> nw_current nw i \<noteq> None) \<and>
    count_list (nw_attached nw) i = (if iface_active i nw then 1 else 0) \<and>
    \<not> (iface_active Polling nw \<and> iface_active Streaming nw)"
proof -
  have "linked nw i" "modes_ok nw"
    using network_loop_ok [OF network_init_ok assms] by (simp_all add: network_ok_def)
  then show ?thesis by (auto simp: modes_ok_def linked_def)
qed

text \<open>A denied request ends the thread: no further pass polls anything.\<close>

lemma denied_access_stops:
  assumes "msg_handle m \<in> set (nw_attached nw)" and "msg_code m = Some code" and "code = 401 \<or> code = 403"
  shows "handle_messages W t (m # ms) nw = Inr (False, nw)"
  using assms by (auto simp: handle_message_def)

text \<open>
  The end of the thread after a request that libcurl refused to set up: the headers were freed
  by \<open>poll\<close> and are freed again.
\<close>

lemma cleanup_frees_twice:
  assumes "nw_current nw Polling = None" and "pc_headers (nw_polling nw) = FreedList"
  shows "destroy_all C (Polling # is) nw = Inl UseAfterFree"
  using assms by (simp add: poll_resetMemory_def)

section \<open>Witness\<close>

definition sample_turn :: "unit turn" where
  "sample_turn = \<lparr>tn_others = (\<lambda>c. c), tn_curl = good_curl, tn_now = 5, tn_unix = 7, tn_random = None,
     tn_rng = zero_rng, tn_callbacks = [], tn_messages = [], tn_wait = True\<rparr>"

lemma sample_pass:
  "\<exists>nw. network_loop (plain_env, \<lambda>_. None) [sample_turn] (network_init one_event_client 0) = Inr (True, nw) \<and>
     nw_attached nw = [Streaming]"
proof -
  have cfg: "cl_config one_event_client = sample_config"
    by (simp add: one_event_client_def LDClientInit_def LDConfigNew_def sample_config_def Let_def)
  have stream: "cfg_stream sample_config" "\<not> offline sample_config" "flushInterval sample_config = 5000"
    "interfaces sample_config = [Polling, Streaming, Analytics]"
    by (simp_all add: sample_config_def LDConfigNew_def interfaces_def)
  have flags: "\<not> shuttingdown one_event_client" "\<not> shouldFlush one_event_client"
    by (simp_all add: one_event_client_def LDClientInit_def LDConfigNew_def Let_def)
  obtain rq ctx where rq: "stream_request good_curl sample_config 5 LDi_constructStreamContext = Inr (Some rq, ctx)"
    using stream_request_good by blast
  have "to_double 5 = 5" using to_double_int [of 5] by simp
  then have an: "analytics_poll good_curl plain_env zero_rng 5 7 (LDi_constructAnalytics 0) one_event_client =
      Inr (None, LDi_constructAnalytics 0, one_event_client)"
    by (simp add: analytics_poll_def new_payload_def LDi_constructAnalytics_def cfg stream flags uint_to_double_def)
  have st: "stream_poll good_curl sample_config None 5 5 LDi_constructStreamContext None = Inr (Some rq, ctx, None)"
    using rq stream by (simp add: stream_poll_def stream_wait_def LDi_constructStreamContext_def)
  have po: "poll_poll good_curl sample_config 5 LDi_constructPolling = Inr (None, LDi_constructPolling)"
    using stream by (simp add: poll_poll_def)
  have "LDi_addHandle good_curl" by (simp add: LDi_addHandle_def good_curl_def)
  then show ?thesis
    by (simp add: network_turn_def sample_turn_def network_init_def flags cfg stream poll_and_attach_def po st an
        Let_def)
qed

theorem network_one_request_witness:
  "\<exists>nw. network_loop (plain_env, \<lambda>_. None) [sample_turn] (network_init one_event_client 0) = Inr (True, nw) \<and>
     iface_active Streaming nw \<and> \<not> iface_active Polling nw"
proof -
  obtain nw where nw: "network_loop (plain_env, \<lambda>_. None) [sample_turn] (network_init one_event_client 0) = Inr (True, nw)"
    "nw_attached nw = [Streaming]" using sample_pass by blast
  have "\<forall>t \<in> set [sample_turn]. \<forall>c. cl_config (tn_others t c) = cl_config c" by (simp add: sample_turn_def)
  from network_one_request [OF this nw(1), of Streaming] network_one_request [OF this nw(1), of Polling] nw
  show ?thesis by (auto split: if_splits)
qed

end
