(* ===== verification/LD_Redis.thy ===== *)
theory LD_Redis
  imports LD_Store LD_SSE
begin

text \<open>
  stores/redis/src/redis.c: the persistent store over a Redis server, with its pool of
  connections. hiredis and the server are parameters: the record \<open>redis\<close> has what a connection
  attempt and a command answer in a state of the outside world. A command is its name and its
  arguments, as the format of \<open>redisCommand\<close> separates them.

  An operation runs alone; waiting for a connection that no other thread returns is the fault
  \<open>Blocked\<close>. The repetition of an upsert after a conflict is bounded by an argument. Allocation
  succeeds, of zero bytes too.
\<close>

section \<open>Configuration\<close>

type_synonym u16 = "16 word"

record LDRedisConfig =
  rc_host :: "string option"
  rc_port :: u16
  poolSize :: u32
  rc_prefix :: "string option"

definition LDRedisConfigGetPrefix :: "LDRedisConfig \<Rightarrow> string" where
  "LDRedisConfigGetPrefix config = (case rc_prefix config of Some p \<Rightarrow> p | None \<Rightarrow> ''launchdarkly'')"

definition LDRedisConfigGetHost :: "LDRedisConfig \<Rightarrow> string" where
  "LDRedisConfigGetHost config = (case rc_host config of Some h \<Rightarrow> h | None \<Rightarrow> ''127.0.0.1'')"

definition LDRedisConfigNew :: LDRedisConfig where
  "LDRedisConfigNew = \<lparr>rc_host = None, rc_port = 6379, poolSize = 10, rc_prefix = None\<rparr>"

definition LDRedisConfigSetHost :: "LDRedisConfig \<Rightarrow> string \<Rightarrow> bool \<times> LDRedisConfig" where
  "LDRedisConfigSetHost config host = (True, config\<lparr>rc_host := Some host\<rparr>)"

definition LDRedisConfigSetPort :: "LDRedisConfig \<Rightarrow> u16 \<Rightarrow> bool \<times> LDRedisConfig" where
  "LDRedisConfigSetPort config port = (True, config\<lparr>rc_port := port\<rparr>)"

definition LDRedisConfigSetPrefix :: "LDRedisConfig \<Rightarrow> string \<Rightarrow> bool \<times> LDRedisConfig" where
  "LDRedisConfigSetPrefix config p = (True, config\<lparr>rc_prefix := Some p\<rparr>)"

definition LDRedisConfigSetPoolSize :: "LDRedisConfig \<Rightarrow> u32 \<Rightarrow> bool \<times> LDRedisConfig" where
  "LDRedisConfigSetPoolSize config n = (True, config\<lparr>poolSize := n\<rparr>)"

section \<open>The library and the server\<close>

datatype redisReply =
    ReplyStatus string | ReplyError string | ReplyString string | ReplyNil
  | ReplyInteger int | ReplyArray "redisReply list"

datatype command =
    MULTI | EXEC | WATCH string | DEL string | HSET string string string | SET string string
  | HGET string string | HGETALL string | EXISTS string

type_synonym connection = nat

text \<open>
  \<open>redisConnect\<close> yields \<open>NULL\<close> or a connection; \<open>redisErr\<close> is the member \<open>err\<close> of a connection.
\<close>

record 'w redis =
  redisConnect :: "string \<Rightarrow> u16 \<Rightarrow> 'w \<Rightarrow> connection option \<times> 'w"
  redisCommand :: "connection \<Rightarrow> command \<Rightarrow> 'w \<Rightarrow> redisReply option \<times> 'w"
  redisErr :: "connection \<Rightarrow> 'w \<Rightarrow> bool"

section \<open>The pool of connections\<close>

record Context =
  connections :: "connection list"
  pool_count :: u32
  redis_config :: LDRedisConfig

definition LDStoreInterfaceRedisNew :: "LDRedisConfig \<Rightarrow> Context" where
  "LDStoreInterfaceRedisNew config = \<lparr>connections = [], pool_count = 0, redis_config = config\<rparr>"

definition borrowConnection :: "'w redis \<Rightarrow> Context \<Rightarrow> 'w \<Rightarrow> (connection option \<times> Context \<times> 'w) run" where
  "borrowConnection R context world =
     (case connections context of
        c # cs \<Rightarrow> Inr (Some c, context\<lparr>connections := cs\<rparr>, world)
      | [] \<Rightarrow>
          if pool_count context < poolSize (redis_config context) then
            (let (conn, world1) = redisConnect R (LDRedisConfigGetHost (redis_config context))
                   (rc_port (redis_config context)) world
             in case conn of
                  None \<Rightarrow> Inr (None, context, world1)
                | Some c \<Rightarrow>
                    if redisErr R c world1 then Inr (None, context, world1)
                    else Inr (Some c, context\<lparr>pool_count := pool_count context + 1\<rparr>, world1))
          else Inl Blocked)"

definition returnConnection :: "'w redis \<Rightarrow> connection \<Rightarrow> Context \<Rightarrow> 'w \<Rightarrow> Context" where
  "returnConnection R c context world =
     (if \<not> redisErr R c world then context\<lparr>connections := c # connections context\<rparr>
      else context\<lparr>pool_count := pool_count context - 1\<rparr>)"

text \<open>
  An operation on a borrowed connection: what every function does with its label \<open>cleanup\<close>.
  \<open>failure\<close> is the result when there is no connection.
\<close>

definition with_connection ::
    "'w redis \<Rightarrow> 'a \<Rightarrow> (connection \<Rightarrow> 'w \<Rightarrow> ('a \<times> 'w) run) \<Rightarrow> Context \<Rightarrow> 'w \<Rightarrow> ('a \<times> Context \<times> 'w) run" where
  "with_connection R failure body context world =
     run_bind (borrowConnection R context world) (\<lambda>(conn, context1, world1).
       case conn of
         None \<Rightarrow> Inr (failure, context1, world1)
       | Some c \<Rightarrow>
           run_bind (body c world1) (\<lambda>(result, world2).
             Inr (result, returnConnection R c context1 world2, world2)))"

section \<open>Replies\<close>

definition redisCheckStatus :: "redisReply option \<Rightarrow> string \<Rightarrow> bool" where
  "redisCheckStatus reply expectedStatus =
     (case reply of Some (ReplyStatus s) \<Rightarrow> cstr s = expectedStatus | _ \<Rightarrow> False)"

text \<open>
  Commands that each must be answered by a status; false ends the operation. \<open>None\<close> is a command
  one of whose arguments for \<open>%s\<close> is \<open>NULL\<close>.
\<close>

fun expect_all ::
    "'w redis \<Rightarrow> connection \<Rightarrow> (command option \<times> string) list \<Rightarrow> 'w \<Rightarrow> (bool \<times> 'w) run" where
  "expect_all R c [] world = Inr (True, world)"
| "expect_all R c ((None, status) # cmds) world = Inl NullPointer"
| "expect_all R c ((Some cmd, status) # cmds) world =
     (let (reply, world1) = redisCommand R c cmd world
      in if redisCheckStatus reply status then expect_all R c cmds world1 else Inr (False, world1))"

definition kind_key :: "Context \<Rightarrow> string \<Rightarrow> string" where
  "kind_key context kind = LDRedisConfigGetPrefix (redis_config context) @ '':'' @ kind"

definition initedKey :: string where
  "initedKey = ''$inited''"

section \<open>The operations\<close>

definition item_command :: "string \<Rightarrow> string option \<times> LDStoreCollectionItem \<Rightarrow> command option \<times> string" where
  "item_command key entry =
     (case (fst entry, buffer (snd entry)) of
        (Some name, Some text) \<Rightarrow> (Some (HSET key name text), ''QUEUED'')
      | _ \<Rightarrow> (None, ''QUEUED''))"

definition collection_commands ::
    "Context \<Rightarrow> string \<times> (string option \<times> LDStoreCollectionItem) list \<Rightarrow> (command option \<times> string) list" where
  "collection_commands context collection =
     (let key = kind_key context (fst collection)
      in (Some (DEL key), ''QUEUED'') # map (item_command key) (snd collection))"

definition storeInit :: "'w redis \<Rightarrow> collection_state \<Rightarrow> Context \<Rightarrow> 'w \<Rightarrow> (bool \<times> Context \<times> 'w) run" where
  "storeInit R collections context world =
     with_connection R False (\<lambda>c world1.
       run_bind (expect_all R c ((Some MULTI, ''OK'') # concat (map (collection_commands context) collections) @
           [(Some (SET (kind_key context initedKey) []), ''QUEUED'')]) world1) (\<lambda>(ok, world2).
         if \<not> ok then Inr (False, world2)
         else case redisCommand R c EXEC world2 of
           (Some (ReplyArray _), world3) \<Rightarrow> Inr (True, world3)
         | (_, world3) \<Rightarrow> Inr (False, world3))) context world"

text \<open>A value as the code reads it: its text up to NUL and the version in it.\<close>

definition read_item :: "env \<Rightarrow> string \<Rightarrow> LDStoreCollectionItem option run" where
  "read_item E raw =
     (case env_deserialize E (cstr raw) of
        None \<Rightarrow> Inr None
      | Some feature \<Rightarrow>
          run_bind (LDi_getFeatureVersion feature) (\<lambda>version.
            Inr (Some \<lparr>buffer = Some (cstr raw), item_version = version\<rparr>)))"

text \<open>For an absent value only \<open>buffer\<close> of the caller's item is written.\<close>

definition storeGet ::
    "'w redis \<Rightarrow> env \<Rightarrow> string \<Rightarrow> string \<Rightarrow> LDStoreCollectionItem \<Rightarrow> Context \<Rightarrow> 'w \<Rightarrow>
     ((bool \<times> LDStoreCollectionItem) \<times> Context \<times> 'w) run" where
  "storeGet R E kind key result context world =
     with_connection R (False, result) (\<lambda>c world1.
       case redisCommand R c (HGET (kind_key context kind) key) world1 of
         (Some ReplyNil, world2) \<Rightarrow> Inr ((True, result\<lparr>buffer := None\<rparr>), world2)
       | (Some (ReplyString raw), world2) \<Rightarrow>
           run_bind (read_item E raw) (\<lambda>item.
             case item of
               None \<Rightarrow> Inr ((False, result), world2)
             | Some it \<Rightarrow> Inr ((True, it), world2))
       | (_, world2) \<Rightarrow> Inr ((False, result), world2)) context world"

text \<open>
  The elements are names and values in turn; after an odd number of elements the loop reads
  behind the array.
\<close>

fun all_items :: "env \<Rightarrow> redisReply list \<Rightarrow> LDStoreCollectionItem list option run" where
  "all_items E [] = Inr (Some [])"
| "all_items E [_] = Inl Uninitialised"
| "all_items E (_ # ReplyString raw # rest) =
     run_bind (read_item E raw) (\<lambda>item.
       case item of
         None \<Rightarrow> Inr None
       | Some it \<Rightarrow> run_bind (all_items E rest) (\<lambda>its. Inr (map_option ((#) it) its)))"
| "all_items E (_ # _ # rest) = Inr None"

text \<open>The reply is used before it is checked.\<close>

definition storeAll ::
    "'w redis \<Rightarrow> env \<Rightarrow> string \<Rightarrow> Context \<Rightarrow> 'w \<Rightarrow> ((bool \<times> LDStoreCollectionItem list) \<times> Context \<times> 'w) run" where
  "storeAll R E kind context world =
     with_connection R (False, []) (\<lambda>c world1.
       case redisCommand R c (HGETALL (kind_key context kind)) world1 of
         (None, world2) \<Rightarrow> Inl NullPointer
       | (Some ReplyNil, world2) \<Rightarrow> Inr ((True, []), world2)
       | (Some (ReplyArray elements), world2) \<Rightarrow>
           run_bind (all_items E elements) (\<lambda>its.
             case its of None \<Rightarrow> Inr ((False, []), world2) | Some l \<Rightarrow> Inr ((True, l), world2))
       | (_, world2) \<Rightarrow> Inr ((False, []), world2)) context world"

text \<open>What an upsert writes: the text given, or that of a placeholder for a deletion.\<close>

definition upsert_text :: "env \<Rightarrow> LDStoreCollectionItem \<Rightarrow> string \<Rightarrow> string" where
  "upsert_text E feature featureKey =
     (case buffer feature of
        Some text \<Rightarrow> text
      | None \<Rightarrow> env_serialize E (LDi_makeDeleted featureKey (item_version feature)))"

text \<open>
  Whether an upsert has to write, from the reply to \<open>HGET\<close>; \<open>None\<close> on failure. A deleted feature
  counts as absent.
\<close>

definition needs_write :: "env \<Rightarrow> LDStoreCollectionItem \<Rightarrow> redisReply option \<Rightarrow> bool option run" where
  "needs_write E feature reply =
     (case reply of
        Some ReplyNil \<Rightarrow> Inr (Some True)
      | Some (ReplyString raw) \<Rightarrow>
          (case env_deserialize E (cstr raw) of
             None \<Rightarrow> Inr None
           | Some existing \<Rightarrow>
               if LDi_isFeatureDeleted existing then Inr (Some True)
               else run_bind (LDi_getFeatureVersion existing) (\<lambda>version.
                 Inr (Some (\<not> item_version feature \<le> version))))
      | _ \<Rightarrow> Inr None)"

text \<open>The loop; \<open>hook\<close> is what happens between the read and the transaction.\<close>

fun upsert_loop ::
    "nat \<Rightarrow> 'w redis \<Rightarrow> env \<Rightarrow> string \<Rightarrow> LDStoreCollectionItem \<Rightarrow> string \<Rightarrow> ('w \<Rightarrow> 'w) \<Rightarrow> connection \<Rightarrow> 'w \<Rightarrow>
     (bool \<times> 'w) run" where
  "upsert_loop 0 R E key feature featureKey hook c world = Inl OutOfFuel"
| "upsert_loop (Suc n) R E key feature featureKey hook c world =
     run_bind (expect_all R c [(Some (WATCH key), ''OK'')] world) (\<lambda>(watched, world1).
       if \<not> watched then Inr (False, world1)
       else
         let (reply, world2) = redisCommand R c (HGET key featureKey) world1
         in run_bind (needs_write E feature reply) (\<lambda>write.
           case write of
             None \<Rightarrow> Inr (False, world2)
           | Some False \<Rightarrow> Inr (True, world2)
           | Some True \<Rightarrow>
               run_bind (expect_all R c [(Some MULTI, ''OK''),
                   (Some (HSET key featureKey (upsert_text E feature featureKey)), ''QUEUED'')] (hook world2))
                 (\<lambda>(queued, world3).
                   if \<not> queued then Inr (False, world3)
                   else case redisCommand R c EXEC world3 of
                     (Some (ReplyArray _), world4) \<Rightarrow> Inr (True, world4)
                   | (Some ReplyNil, world4) \<Rightarrow>
                       upsert_loop n R E key feature featureKey hook c world4
                   | (_, world4) \<Rightarrow> Inr (False, world4))))"

definition storeUpsertInternal ::
    "nat \<Rightarrow> 'w redis \<Rightarrow> env \<Rightarrow> string \<Rightarrow> LDStoreCollectionItem \<Rightarrow> string \<Rightarrow> ('w \<Rightarrow> 'w) \<Rightarrow> Context \<Rightarrow> 'w \<Rightarrow>
     (bool \<times> Context \<times> 'w) run" where
  "storeUpsertInternal tries R E kind feature featureKey hook context world =
     with_connection R False (upsert_loop tries R E (kind_key context kind) feature featureKey hook) context world"

definition storeUpsert ::
    "nat \<Rightarrow> 'w redis \<Rightarrow> env \<Rightarrow> string \<Rightarrow> LDStoreCollectionItem \<Rightarrow> string \<Rightarrow> Context \<Rightarrow> 'w \<Rightarrow>
     (bool \<times> Context \<times> 'w) run" where
  "storeUpsert tries R E kind feature featureKey =
     storeUpsertInternal tries R E kind feature featureKey (\<lambda>w. w)"

text \<open>Any reply but an integer counts as initialised.\<close>

definition storeInitialized :: "'w redis \<Rightarrow> Context \<Rightarrow> 'w \<Rightarrow> (bool \<times> Context \<times> 'w) run" where
  "storeInitialized R context world =
     with_connection R False (\<lambda>c world1.
       case redisCommand R c (EXISTS (kind_key context initedKey)) world1 of
         (Some (ReplyInteger n), world2) \<Rightarrow> Inr (n \<noteq> 0, world2)
       | (_, world2) \<Rightarrow> Inr (True, world2)) context world"

section \<open>The pool\<close>

text \<open>Between operations every open connection is idle, and there are at most \<open>poolSize\<close>.\<close>

definition pool_ok :: "Context \<Rightarrow> bool" where
  "pool_ok context \<longleftrightarrow> length (connections context) = unat (pool_count context) \<and>
     pool_count context \<le> poolSize (redis_config context)"

lemma unat_pred: "w \<noteq> 0 \<Longrightarrow> unat (w - 1 :: u32) = unat w - 1"
  by (simp add: unat_minus_one)

text \<open>A borrowed connection is missing from the pool.\<close>

definition lent_ok :: "Context \<Rightarrow> bool" where
  "lent_ok context \<longleftrightarrow> length (connections context) + 1 = unat (pool_count context) \<and>
     pool_count context \<le> poolSize (redis_config context)"

lemma borrow_ok:
  assumes "pool_ok context" and "poolSize (redis_config context) \<noteq> 0"
  shows "\<exists>conn context' world'. borrowConnection R context world = Inr (conn, context', world') \<and>
    redis_config context' = redis_config context \<and> (if conn = None then pool_ok context' else lent_ok context')"
proof (cases "connections context")
  case Nil
  then have "pool_count context = 0" using assms(1) by (simp add: pool_ok_def unat_eq_zero)
  moreover have "0 < poolSize (redis_config context)" using assms(2) by (simp add: word_neq_0_conv)
  moreover have "1 \<le> poolSize (redis_config context)" using calculation(2) by (simp add: word_le_nat_alt word_less_nat_alt)
  moreover obtain conn world1 where c: "redisConnect R (LDRedisConfigGetHost (redis_config context))
      (rc_port (redis_config context)) world = (conn, world1)" by (meson surj_pair)
  ultimately show ?thesis
    using Nil assms(1)
    by (cases conn; cases "redisErr R (the conn) world1")
      (auto simp: borrowConnection_def pool_ok_def lent_ok_def)
next
  case (Cons c cs)
  with assms(1) show ?thesis by (auto simp: borrowConnection_def pool_ok_def lent_ok_def)
qed

lemma return_ok:
  assumes "lent_ok context"
  shows "pool_ok (returnConnection R c context world) \<and>
    redis_config (returnConnection R c context world) = redis_config context"
proof -
  have "pool_count context \<noteq> 0" using assms by (auto simp: lent_ok_def)
  moreover have "pool_count context - 1 \<le> poolSize (redis_config context)"
    using assms unat_pred [OF calculation] by (auto simp: lent_ok_def word_le_nat_alt)
  ultimately show ?thesis
    using assms unat_pred [of "pool_count context"] by (auto simp: returnConnection_def lent_ok_def pool_ok_def)
qed

lemma with_connection_ok:
  assumes "pool_ok context" and "poolSize (redis_config context) \<noteq> 0" and "\<And>c w. body c w \<noteq> Inl Blocked"
  shows "with_connection R failure body context world \<noteq> Inl Blocked" (is ?block)
    and "with_connection R failure body context world = Inr (r, context', world') \<Longrightarrow>
      pool_ok context' \<and> redis_config context' = redis_config context" (is "?run \<Longrightarrow> ?ok")
proof -
  obtain conn context1 world1 where b: "borrowConnection R context world = Inr (conn, context1, world1)"
    "redis_config context1 = redis_config context" "if conn = None then pool_ok context1 else lent_ok context1"
    using borrow_ok [OF assms(1,2), of R world] by blast
  show ?block
  proof (cases conn)
    case (Some c)
    with assms(3) [of c world1] b show ?thesis
      by (cases "body c world1") (auto simp: with_connection_def)
  qed (use b in \<open>simp add: with_connection_def\<close>)
  show ?ok if ?run
    using that b return_ok [of context1 R]
    by (cases conn) (auto simp: with_connection_def run_simps)
qed

section \<open>Calls in sequence\<close>

datatype redis_call =
    CallInit collection_state | CallGet string string | CallAll string
  | CallUpsert string LDStoreCollectionItem string | CallInitialized

fun run_call ::
    "nat \<Rightarrow> 'w redis \<Rightarrow> env \<Rightarrow> redis_call \<Rightarrow> Context \<Rightarrow> 'w \<Rightarrow> (Context \<times> 'w) run" where
  "run_call n R E (CallInit cs) ctx w = run_bind (storeInit R cs ctx w) (\<lambda>(_, r). Inr r)"
| "run_call n R E (CallGet kind key) ctx w =
     run_bind (storeGet R E kind key \<lparr>buffer = None, item_version = 0\<rparr> ctx w) (\<lambda>(_, r). Inr r)"
| "run_call n R E (CallAll kind) ctx w = run_bind (storeAll R E kind ctx w) (\<lambda>(_, r). Inr r)"
| "run_call n R E (CallUpsert kind feature key) ctx w =
     run_bind (storeUpsert n R E kind feature key ctx w) (\<lambda>(_, r). Inr r)"
| "run_call n R E CallInitialized ctx w = run_bind (storeInitialized R ctx w) (\<lambda>(_, r). Inr r)"

fun run_calls ::
    "nat \<Rightarrow> 'w redis \<Rightarrow> env \<Rightarrow> redis_call list \<Rightarrow> Context \<Rightarrow> 'w \<Rightarrow> (Context \<times> 'w) run" where
  "run_calls n R E [] ctx w = Inr (ctx, w)"
| "run_calls n R E (c # cs) ctx w = run_bind (run_call n R E c ctx w) (\<lambda>(ctx', w'). run_calls n R E cs ctx' w')"

lemma expect_all_waits_not: "expect_all R c cmds w \<noteq> Inl Blocked"
  by (induction R c cmds w rule: expect_all.induct) (auto simp: Let_def split: prod.split)

lemma version_waits_not: "LDi_getFeatureVersion f \<noteq> Inl Blocked"
  by (auto simp: LDi_getFeatureVersion_def double_to_uint_def Let_def split: option.split)

lemma read_item_waits_not: "read_item E raw \<noteq> Inl Blocked"
  using version_waits_not by (auto simp: read_item_def run_bind_Inl_iff split: option.split)

lemma all_items_waits_not: "all_items E rs \<noteq> Inl Blocked"
  by (induction E rs rule: all_items.induct)
    (auto simp: run_bind_Inl_iff read_item_waits_not split: option.split)

lemma upsert_loop_waits_not: "upsert_loop n R E key feature fkey hook c w \<noteq> Inl Blocked"
proof (induction n arbitrary: w)
  case (Suc n)
  have "needs_write E feature reply \<noteq> Inl Blocked" for reply
    using version_waits_not
    by (auto simp: needs_write_def run_bind_Inl_iff split: option.split redisReply.split)
  with Suc show ?case
    by (auto simp: run_bind_Inl_iff expect_all_waits_not Let_def
        simp del: expect_all.simps split: prod.splits option.splits bool.splits redisReply.splits)
qed simp

lemma call_bodies_wait_not:
  "run_bind (expect_all R c cmds w) (\<lambda>(ok, w2). if \<not> ok then Inr (False, w2)
     else case redisCommand R c EXEC w2 of (Some (ReplyArray _), w3) \<Rightarrow> Inr (True, w3) | (_, w3) \<Rightarrow> Inr (False, w3)) \<noteq>
   Inl Blocked"
  by (auto simp: run_bind_Inl_iff expect_all_waits_not split: prod.splits option.splits redisReply.splits)

definition pool_safe :: "Context \<Rightarrow> ('a \<times> Context \<times> 'w) run \<Rightarrow> bool" where
  "pool_safe ctx r \<longleftrightarrow> r \<noteq> Inl Blocked \<and>
     (\<forall>a ctx' w'. r = Inr (a, ctx', w') \<longrightarrow> pool_ok ctx' \<and> redis_config ctx' = redis_config ctx)"

lemma pool_safe_connection:
  assumes "pool_ok ctx" and "poolSize (redis_config ctx) \<noteq> 0" and "\<And>c w. body c w \<noteq> Inl Blocked"
  shows "pool_safe ctx (with_connection R failure body ctx w)"
  using with_connection_ok [OF assms(1,2), of body R failure w] assms(3) unfolding pool_safe_def by blast

lemma operations_safe:
  assumes "pool_ok ctx" and "poolSize (redis_config ctx) \<noteq> 0"
  shows "pool_safe ctx (storeInit R cs ctx w)" and "pool_safe ctx (storeGet R E kind key it ctx w)"
    and "pool_safe ctx (storeAll R E kind ctx w)" and "pool_safe ctx (storeUpsert n R E kind feature fkey ctx w)"
    and "pool_safe ctx (storeInitialized R ctx w)"
proof -
  note safe = pool_safe_connection [OF assms]
  show "pool_safe ctx (storeInit R cs ctx w)"
    unfolding storeInit_def by (rule safe) (rule call_bodies_wait_not)
  show "pool_safe ctx (storeGet R E kind key it ctx w)"
    unfolding storeGet_def
    by (rule safe) (auto simp: run_bind_Inl_iff read_item_waits_not split: prod.splits option.splits redisReply.splits)
  show "pool_safe ctx (storeAll R E kind ctx w)"
    unfolding storeAll_def
    by (rule safe) (auto simp: run_bind_Inl_iff all_items_waits_not split: prod.splits option.splits redisReply.splits)
  show "pool_safe ctx (storeUpsert n R E kind feature fkey ctx w)"
    unfolding storeUpsert_def storeUpsertInternal_def by (rule safe) (rule upsert_loop_waits_not)
  show "pool_safe ctx (storeInitialized R ctx w)"
    unfolding storeInitialized_def by (rule safe) (auto split: prod.splits option.splits redisReply.splits)
qed

lemma run_call_safe:
  assumes "pool_ok ctx" and "poolSize (redis_config ctx) \<noteq> 0"
  shows "run_call n R E call ctx w \<noteq> Inl Blocked \<and>
    (\<forall>ctx' w'. run_call n R E call ctx w = Inr (ctx', w') \<longrightarrow> pool_ok ctx' \<and> redis_config ctx' = redis_config ctx)"
  using operations_safe [OF assms]
  by (cases call) (fastforce simp: pool_safe_def run_bind_Inl_iff run_bind_Inr_iff)+

lemma run_calls_safe:
  "pool_ok ctx \<Longrightarrow> poolSize (redis_config ctx) \<noteq> 0 \<Longrightarrow> run_calls n R E calls ctx w \<noteq> Inl Blocked \<and>
    (\<forall>ctx' w'. run_calls n R E calls ctx w = Inr (ctx', w') \<longrightarrow> pool_ok ctx' \<and> redis_config ctx' = redis_config ctx)"
proof (induction calls arbitrary: ctx w)
  case (Cons c cs)
  note safe = run_call_safe [OF Cons.prems, of n R E c w]
  show ?case
  proof (cases "run_call n R E c ctx w")
    case (Inr r)
    then obtain ctx1 w1 where r: "run_call n R E c ctx w = Inr (ctx1, w1)" by (cases r) auto
    with safe Cons.IH [of ctx1 w1] Cons.prems(2) show ?thesis by simp
  qed (use safe in simp)
qed simp

text \<open>
  C39: the pool of connections never blocks its only user and never outgrows its size. For every
  sequence of operations on a new store with a pool of at least one connection, whatever the
  library and the server answer, no operation waits for a connection; after each of them every
  open connection is idle and counted, and there are at most \<open>poolSize\<close>: a connection that failed
  is given up and one that did not is returned, on every path through every operation.
\<close>

theorem redis_pool:
  assumes "poolSize config \<noteq> 0"
  shows "run_calls n R E calls (LDStoreInterfaceRedisNew config) w \<noteq> Inl Blocked \<and>
    (\<forall>ctx' w'. run_calls n R E calls (LDStoreInterfaceRedisNew config) w = Inr (ctx', w') \<longrightarrow>
       length (connections ctx') = unat (pool_count ctx') \<and> pool_count ctx' \<le> poolSize config)"
proof -
  have "pool_ok (LDStoreInterfaceRedisNew config)" "redis_config (LDStoreInterfaceRedisNew config) = config"
    by (simp_all add: pool_ok_def LDStoreInterfaceRedisNew_def)
  with run_calls_safe [of "LDStoreInterfaceRedisNew config" n R E calls w] assms show ?thesis
    by (auto simp: pool_ok_def)
qed

section \<open>The newest version\<close>

text \<open>
  What the upsert relies on, of a connection in order and a server no other client disturbs,
  about one key: \<open>WATCH\<close> is accepted, \<open>HGET\<close> reads a field, a transaction of one \<open>HSET\<close> sets it.
  \<open>ready\<close> are the states in which no transaction is open and the key is free or holds a hash;
  of a key that holds a string, such as the \<open>$inited\<close> mark, nothing is asked, as a server
  answers these commands there with an error.
\<close>

definition redis_laws ::
    "'w redis \<Rightarrow> connection \<Rightarrow> ('w \<Rightarrow> bool) \<Rightarrow> ('w \<Rightarrow> string \<Rightarrow> string \<Rightarrow> string option) \<Rightarrow> string \<Rightarrow> bool" where
  "redis_laws R c ready table key \<longleftrightarrow>
     (\<forall>w. ready w \<longrightarrow> \<not> redisErr R c w) \<and>
     (\<forall>w. ready w \<longrightarrow> (\<exists>w'. redisCommand R c (WATCH key) w = (Some (ReplyStatus ''OK''), w') \<and>
        ready w' \<and> table w' = table w)) \<and>
     (\<forall>w f. ready w \<longrightarrow> (\<exists>w'. redisCommand R c (HGET key f) w =
        (Some (case table w key f of None \<Rightarrow> ReplyNil | Some v \<Rightarrow> ReplyString v), w') \<and>
        ready w' \<and> table w' = table w)) \<and>
     (\<forall>w f v. ready w \<longrightarrow> (\<exists>w1 w2 w3 rs. redisCommand R c MULTI w = (Some (ReplyStatus ''OK''), w1) \<and>
        redisCommand R c (HSET key f v) w1 = (Some (ReplyStatus ''QUEUED''), w2) \<and>
        redisCommand R c EXEC w2 = (Some (ReplyArray rs), w3) \<and> ready w3 \<and>
        table w3 = (table w)(key := (table w key)(f := Some v))))"

text \<open>Whether the stored text makes an upsert of a version superfluous.\<close>

definition stored_at_least :: "env \<Rightarrow> u32 \<Rightarrow> string option \<Rightarrow> bool" where
  "stored_at_least E version stored =
     (case stored of
        None \<Rightarrow> False
      | Some raw \<Rightarrow>
          (case env_deserialize E (cstr raw) of
             None \<Rightarrow> False
           | Some f \<Rightarrow> \<not> LDi_isFeatureDeleted f \<and>
               (case LDi_getFeatureVersion f of Inl _ \<Rightarrow> False | Inr v \<Rightarrow> version \<le> v)))"

definition readable_text :: "env \<Rightarrow> string option \<Rightarrow> bool" where
  "readable_text E stored =
     (case stored of
        None \<Rightarrow> True
      | Some raw \<Rightarrow>
          (case env_deserialize E (cstr raw) of None \<Rightarrow> False | Some f \<Rightarrow> returns (LDi_getFeatureVersion f)))"

lemma needs_write_readable:
  assumes "readable_text E stored"
  shows "needs_write E feature (Some (case stored of None \<Rightarrow> ReplyNil | Some v \<Rightarrow> ReplyString v)) =
    Inr (Some (\<not> stored_at_least E (item_version feature) stored))"
  using assms
  by (auto simp: needs_write_def readable_text_def stored_at_least_def returns_iff split: option.splits)

lemma cstr_status: "cstr ''OK'' = ''OK''" "cstr ''QUEUED'' = ''QUEUED''"
  by (simp_all add: cstr_def)

lemma upsert_loop_newest:
  assumes laws: "redis_laws R c ready table key" and "ready w" and r: "readable_text E (table w key fkey)"
  shows "\<exists>w'. upsert_loop (Suc n) R E key feature fkey (\<lambda>w. w) c w = Inr (True, w') \<and> ready w' \<and>
    table w' = (if stored_at_least E (item_version feature) (table w key fkey) then table w
      else (table w)(key := (table w key)(fkey := Some (upsert_text E feature fkey))))"
proof -
  obtain w1 where w1: "redisCommand R c (WATCH key) w = (Some (ReplyStatus ''OK''), w1)" "ready w1" "table w1 = table w"
    using laws assms(2) unfolding redis_laws_def by metis
  obtain w2 where w2: "redisCommand R c (HGET key fkey) w1 =
      (Some (case table w key fkey of None \<Rightarrow> ReplyNil | Some v \<Rightarrow> ReplyString v), w2)" "ready w2" "table w2 = table w"
    using laws w1 unfolding redis_laws_def by metis
  obtain w3 w4 w5 rs where w5: "redisCommand R c MULTI w2 = (Some (ReplyStatus ''OK''), w3)"
    "redisCommand R c (HSET key fkey (upsert_text E feature fkey)) w3 = (Some (ReplyStatus ''QUEUED''), w4)"
    "redisCommand R c EXEC w4 = (Some (ReplyArray rs), w5)" "ready w5"
    "table w5 = (table w)(key := (table w key)(fkey := Some (upsert_text E feature fkey)))"
    using laws w2 unfolding redis_laws_def by metis
  show ?thesis
    using w2(2,3) w5(4,5)
    by (cases "stored_at_least E (item_version feature) (table w key fkey)")
      (simp_all add: w1(1) w2(1) w5(1-3) redisCheckStatus_def cstr_status needs_write_readable [OF r])
qed

text \<open>
  C38: an upsert keeps the newest version. On an idle connection to a server that no other client
  disturbs, where the key of the kind is free or holds a hash, and the stored text, if any, parses
  to a feature with a version that can be read, \<open>storeUpsert\<close> succeeds in its first attempt and leaves the pool as it was; it writes the
  text of the feature, or a placeholder with the version for a deletion, and nothing else,
  unless the stored feature is at least as new, in which case it writes nothing. A stored
  placeholder of a deleted feature never counts as newer, whatever its version: a late update
  brings the feature back, unlike in the memory store.
\<close>

theorem redis_upsert_newest:
  assumes "redis_laws R c ready table (kind_key ctx kind)" and "connections ctx = c # cs" and "ready w"
    and "readable_text E (table w (kind_key ctx kind) fkey)"
  shows "\<exists>w'. storeUpsert (Suc n) R E kind feature fkey ctx w = Inr (True, ctx, w') \<and>
    table w' = (if stored_at_least E (item_version feature) (table w (kind_key ctx kind) fkey) then table w
      else (table w)(kind_key ctx kind := (table w (kind_key ctx kind))(fkey := Some (upsert_text E feature fkey))))"
proof -
  obtain w' where w': "upsert_loop (Suc n) R E (kind_key ctx kind) feature fkey (\<lambda>w. w) c w = Inr (True, w')" "ready w'"
    "table w' = (if stored_at_least E (item_version feature) (table w (kind_key ctx kind) fkey) then table w
      else (table w)(kind_key ctx kind := (table w (kind_key ctx kind))(fkey := Some (upsert_text E feature fkey))))"
    using upsert_loop_newest [OF assms(1,3,4), of n feature] by blast
  have "\<not> redisErr R c w'" using assms(1) w'(2) by (simp add: redis_laws_def)
  then have "storeUpsert (Suc n) R E kind feature fkey ctx w = Inr (True, ctx, w')"
    using w'(1) assms(2)
    by (simp add: storeUpsert_def storeUpsertInternal_def with_connection_def borrowConnection_def
        returnConnection_def del: upsert_loop.simps)
  with w'(3) show ?thesis by blast
qed

section \<open>Defects\<close>

text \<open>A server that cannot be asked counts as an initialised store.\<close>

lemma failed_check_initialized:
  assumes "connections ctx = c # cs" and "redisCommand R c (EXISTS (kind_key ctx initedKey)) w = (None, w')"
  shows "\<exists>ctx'. storeInitialized R ctx w = Inr (True, ctx', w')"
  using assms by (simp add: storeInitialized_def with_connection_def borrowConnection_def)

text \<open>A lost connection crashes the read of a collection.\<close>

lemma lost_connection_crashes:
  assumes "connections ctx = c # cs" and "redisCommand R c (HGETALL (kind_key ctx kind)) w = (None, w')"
  shows "storeAll R E kind ctx w = Inl NullPointer"
  using assms by (simp add: storeAll_def with_connection_def borrowConnection_def)

section \<open>Witnesses\<close>

text \<open>
  A server for one client: a key holds a string or a hash, commands between \<open>MULTI\<close> and
  \<open>EXEC\<close> are queued, and the commands on hashes answer with an error at a key that holds a
  string.
\<close>

datatype redis_value = RString string | RHash "(string \<times> string) list"

type_synonym database = "(string \<times> redis_value) list"

type_synonym small_world = "database \<times> command list option"

definition wrong_type :: redisReply where
  "wrong_type = ReplyError ''WRONGTYPE Operation against a key holding the wrong kind of value''"

fun execute :: "command \<Rightarrow> database \<Rightarrow> redisReply \<times> database" where
  "execute (SET k v) db = (ReplyStatus ''OK'', (k, RString v) # assoc_delete k db)"
| "execute (DEL k) db = (ReplyInteger (if map_of db k = None then 0 else 1), assoc_delete k db)"
| "execute (EXISTS k) db = (ReplyInteger (if map_of db k = None then 0 else 1), db)"
| "execute (HGET k f) db =
     ((case map_of db k of
         None \<Rightarrow> ReplyNil
       | Some (RString _) \<Rightarrow> wrong_type
       | Some (RHash h) \<Rightarrow> (case map_of h f of None \<Rightarrow> ReplyNil | Some v \<Rightarrow> ReplyString v)), db)"
| "execute (HGETALL k) db =
     ((case map_of db k of
         None \<Rightarrow> ReplyArray []
       | Some (RString _) \<Rightarrow> wrong_type
       | Some (RHash h) \<Rightarrow> ReplyArray (concat (map (\<lambda>(f, v). [ReplyString f, ReplyString v]) h))), db)"
| "execute (HSET k f v) db =
     (case map_of db k of
        Some (RString _) \<Rightarrow> (wrong_type, db)
      | Some (RHash h) \<Rightarrow> (ReplyInteger (if map_of h f = None then 1 else 0),
          (k, RHash ((f, v) # assoc_delete f h)) # assoc_delete k db)
      | None \<Rightarrow> (ReplyInteger 1, (k, RHash [(f, v)]) # db))"
| "execute _ db = (ReplyStatus ''OK'', db)"

fun execute_all :: "command list \<Rightarrow> database \<Rightarrow> redisReply list \<times> database" where
  "execute_all [] db = ([], db)"
| "execute_all (c # cs) db =
     (let (r, db1) = execute c db; (rs, db2) = execute_all cs db1 in (r # rs, db2))"

definition small_command :: "command \<Rightarrow> small_world \<Rightarrow> redisReply option \<times> small_world" where
  "small_command c w =
     (let db = fst w in
      case snd w of
        None \<Rightarrow>
          if c = MULTI then (Some (ReplyStatus ''OK''), db, Some [])
          else if c = EXEC then (Some (ReplyError ''ERR EXEC without MULTI''), w)
          else let (r, db') = execute c db in (Some r, db', None)
      | Some q \<Rightarrow>
          if c = EXEC then let (rs, db') = execute_all q db in (Some (ReplyArray rs), db', None)
          else (Some (ReplyStatus ''QUEUED''), db, Some (q @ [c])))"

definition small_redis :: "small_world redis" where
  "small_redis = \<lparr>redisConnect = (\<lambda>_ _ w. (Some 0, w)), redisCommand = (\<lambda>_ cmd w. small_command cmd w),
     redisErr = (\<lambda>_ _. False)\<rparr>"

definition hash_table :: "small_world \<Rightarrow> string \<Rightarrow> string \<Rightarrow> string option" where
  "hash_table w k f = (case map_of (fst w) k of Some (RHash h) \<Rightarrow> map_of h f | _ \<Rightarrow> None)"

definition hash_ready :: "string \<Rightarrow> small_world \<Rightarrow> bool" where
  "hash_ready key w \<longleftrightarrow> snd w = None \<and> unique_keys (fst w) \<and>
     (\<forall>h. map_of (fst w) key = Some (RHash h) \<longrightarrow> unique_keys h) \<and>
     (\<forall>s. map_of (fst w) key \<noteq> Some (RString s))"

lemma hset_law:
  assumes "hash_ready key (db, None)"
  shows "\<exists>r db'. execute (HSET key f v) db = (r, db') \<and> hash_ready key (db', None) \<and>
    hash_table (db', None) = (hash_table (db, None))(key := (hash_table (db, None) key)(f := Some v))"
proof (cases "map_of db key")
  case None
  then have "key \<notin> fst ` set db" by (simp add: map_of_eq_None_iff)
  with None show ?thesis
    using assms by (simp add: hash_ready_def hash_table_def fun_eq_iff)
next
  case (Some x)
  then obtain h where x: "x = RHash h" "unique_keys h" "unique_keys db"
    using assms by (cases x) (auto simp: hash_ready_def)
  then show ?thesis
    using Some by (simp add: hash_ready_def hash_table_def fun_eq_iff assoc_simps keys_assoc_delete)
qed

lemma small_redis_laws: "redis_laws small_redis 0 (hash_ready key) hash_table key"
  unfolding redis_laws_def
proof (intro conjI allI impI)
  fix w f v assume "hash_ready key w"
  then obtain db where w: "w = (db, None)" "hash_ready key (db, None)" by (cases w) (auto simp: hash_ready_def)
  from hset_law [OF w(2), of f v] show "\<exists>w1 w2 w3 rs.
      redisCommand small_redis 0 MULTI w = (Some (ReplyStatus ''OK''), w1) \<and>
      redisCommand small_redis 0 (HSET key f v) w1 = (Some (ReplyStatus ''QUEUED''), w2) \<and>
      redisCommand small_redis 0 EXEC w2 = (Some (ReplyArray rs), w3) \<and> hash_ready key w3 \<and>
      hash_table w3 = (hash_table w)(key := (hash_table w key)(f := Some v))"
    by (auto simp: small_redis_def small_command_def w(1) simp del: execute.simps)
next
  fix w f assume "hash_ready key w"
  then show "\<exists>w'. redisCommand small_redis 0 (HGET key f) w =
      (Some (case hash_table w key f of None \<Rightarrow> ReplyNil | Some v \<Rightarrow> ReplyString v), w') \<and>
      hash_ready key w' \<and> hash_table w' = hash_table w"
    by (cases w) (auto simp: small_redis_def small_command_def hash_ready_def hash_table_def split: option.splits redis_value.splits)
qed (auto simp: small_redis_def small_command_def hash_ready_def)

text \<open>An upsert into an initialised store.\<close>

definition inited_world :: small_world where
  "inited_world = ([(''launchdarkly:$inited'', RString [])], None)"

theorem redis_upsert_newest_witness:
  "\<exists>w'. storeUpsert 1 small_redis plain_env ''features'' \<lparr>buffer = Some ''{}'', item_version = 1\<rparr> ''a''
      ((LDStoreInterfaceRedisNew LDRedisConfigNew)\<lparr>connections := [0]\<rparr>) inited_world =
    Inr (True, (LDStoreInterfaceRedisNew LDRedisConfigNew)\<lparr>connections := [0]\<rparr>, w') \<and>
    hash_table w' ''launchdarkly:features'' ''a'' = Some ''{}''"
proof -
  let ?ctx = "(LDStoreInterfaceRedisNew LDRedisConfigNew)\<lparr>connections := [0]\<rparr>"
  have k: "kind_key ?ctx ''features'' = ''launchdarkly:features''"
    by (simp add: kind_key_def LDStoreInterfaceRedisNew_def LDRedisConfigNew_def LDRedisConfigGetPrefix_def)
  have t: "hash_ready ''launchdarkly:features'' inited_world" "hash_table inited_world ''launchdarkly:features'' ''a'' = None"
    by (simp_all add: inited_world_def hash_ready_def hash_table_def)
  show ?thesis
    using redis_upsert_newest [OF small_redis_laws, where ctx = ?ctx and cs = "[]" and w = inited_world and n = 0
        and kind = "''features''" and E = plain_env and fkey = "''a''"
        and feature = "\<lparr>buffer = Some ''{}'', item_version = 1\<rparr>"] t
    by (auto simp: k readable_text_def stored_at_least_def upsert_text_def)
qed

theorem redis_pool_witness:
  "run_calls 1 small_redis plain_env [CallInitialized, CallGet ''features'' ''a'']
     (LDStoreInterfaceRedisNew LDRedisConfigNew) inited_world \<noteq> Inl Blocked"
  using redis_pool [of LDRedisConfigNew 1 small_redis plain_env "[CallInitialized, CallGet ''features'' ''a'']"
      inited_world]
  by (simp add: LDRedisConfigNew_def)

end
