(* ===== verification/LD_Decimal.thy ===== *)
theory LD_Decimal
  imports LD_Numeric
begin

text \<open>
  The C library's conversions between \<open>double\<close> and decimal text that cJSON.c calls:
  \<open>strtod\<close> on the characters cJSON hands it, and \<open>sprintf\<close> with \<open>%1.<P>g\<close>. Both
  are correctly rounded (ties to even), as IEEE 754 and the C library documentation require
  for up to 17 digits.

  The lemmas lead to the fact the printer relies on: 17 significant decimal digits
  determine a \<open>double\<close>.
\<close>

section \<open>Powers of ten and the decimal exponent\<close>

definition pow10 :: "int \<Rightarrow> rat" where
  "pow10 e = (if 0 \<le> e then 10 ^ nat e else 1 / 10 ^ nat (- e))"

definition ndigits :: "nat \<Rightarrow> nat" where
  "ndigits n = length (show_nat n)"

text \<open>\<open>pow10 (ilog10 x) \<le> x < pow10 (ilog10 x + 1)\<close> for positive \<open>x\<close>.\<close>

definition ilog10 :: "rat \<Rightarrow> int" where
  "ilog10 x =
     (let (a, b) = quotient_of x; e = int (ndigits (nat a)) - int (ndigits (nat b)) in
      if pow10 e \<le> x then e else e - 1)"

section \<open>Printing with \<open>%g\<close>\<close>

text \<open>The \<open>P\<close> significant digits of a positive value as a number, and the exponent of the first.\<close>

definition decimal_round :: "nat \<Rightarrow> rat \<Rightarrow> nat \<times> int" where
  "decimal_round P x =
     (let e = ilog10 x; n = nat (round_even (x / pow10 (e - int P + 1))) in
      if n = 10 ^ P then (10 ^ (P - 1), e + 1) else (n, e))"

definition strip_zeros :: "string \<Rightarrow> string" where
  "strip_zeros ds = rev (dropWhile (\<lambda>c. c = CHR ''0'') (rev ds))"

text \<open>The fraction without trailing zeros, and without the point when nothing is left.\<close>

definition fraction :: "string \<Rightarrow> string" where
  "fraction ds = (let f = strip_zeros ds in if f = [] then [] else CHR ''.'' # f)"

text \<open>The exponent part: a sign and at least two digits.\<close>

definition exponent_part :: "int \<Rightarrow> string" where
  "exponent_part X =
     (if X < 0 then ''e-'' else ''e+'') @
     (let ds = show_nat (nat \<bar>X\<bar>) in if length ds < 2 then CHR ''0'' # ds else ds)"

definition printf_g :: "nat \<Rightarrow> rat \<Rightarrow> string" where
  "printf_g P x =
     (if x = 0 then ''0''
      else
        let (n, X) = decimal_round P \<bar>x\<bar>; ds = show_nat n in
        (if x < 0 then ''-'' else '''') @
        (if - 4 \<le> X \<and> X < int P then
           if 0 \<le> X then take (nat X + 1) ds @ fraction (drop (nat X + 1) ds)
           else ''0'' @ fraction (replicate (nat (- X) - 1) CHR ''0'' @ ds)
         else take 1 ds @ fraction (drop 1 ds) @ exponent_part X))"

section \<open>Reading with \<open>strtod\<close>\<close>

definition is_digit :: "char \<Rightarrow> bool" where
  "is_digit c = (48 \<le> (of_char c :: nat) \<and> (of_char c :: nat) \<le> 57)"

definition digit_val :: "char \<Rightarrow> nat" where
  "digit_val c = of_char c - 48"

definition read_nat :: "string \<Rightarrow> nat" where
  "read_nat ds = foldl (\<lambda>n c. 10 * n + digit_val c) 0 ds"

text \<open>An optional sign: whether it is a minus, and how many characters it takes.\<close>

definition read_sign :: "string \<Rightarrow> bool \<times> nat" where
  "read_sign s =
     (case s of
        c # _ \<Rightarrow> if c = CHR ''-'' then (True, 1) else if c = CHR ''+'' then (False, 1) else (False, 0)
      | [] \<Rightarrow> (False, 0))"

text \<open>
  The exponent at the front of a text and its length, zero when there is none: an
  \<open>e\<close> without digits after it is not part of the number.
\<close>

definition read_exponent :: "string \<Rightarrow> int \<times> nat" where
  "read_exponent s =
     (case s of
        c # s' \<Rightarrow>
          if c = CHR ''e'' \<or> c = CHR ''E'' then
            let (neg, k) = read_sign s'; ds = takeWhile is_digit (drop k s') in
            if ds = [] then (0, 0)
            else ((if neg then - int (read_nat ds) else int (read_nat ds)), 1 + k + length ds)
          else (0, 0)
      | [] \<Rightarrow> (0, 0))"

text \<open>
  A value too large for a \<open>double\<close> is converted to infinity, which the model represents by
  \<open>2\<^sup>1\<^sup>0\<^sup>2\<^sup>4\<close>: greater than every finite value and equal to itself only.
\<close>

definition HUGE_VAL :: rat where
  "HUGE_VAL = pow2 1024"

definition saturate :: "rat \<Rightarrow> rat" where
  "saturate v = (if HUGE_VAL \<le> v then HUGE_VAL else v)"

text \<open>
  The value and the number of characters converted, zero when there is no number at the
  front. Hexadecimal numbers, \<open>inf\<close> and \<open>nan\<close> need letters that the only caller
  never passes.
\<close>

definition strtod :: "string \<Rightarrow> rat \<times> nat" where
  "strtod s =
     (let (neg, k) = read_sign s; s1 = drop k s;
          ip = takeWhile is_digit s1; s2 = drop (length ip) s1;
          fp = (case s2 of c # s3 \<Rightarrow> if c = CHR ''.'' then takeWhile is_digit s3 else [] | [] \<Rightarrow> []);
          dot = (case s2 of c # _ \<Rightarrow> if c = CHR ''.'' then 1 else 0 | [] \<Rightarrow> 0)
      in
      if ip = [] \<and> fp = [] then (0, 0)
      else
        let (x, l) = read_exponent (drop (dot + length fp) s2);
            v = saturate (to_double (of_nat (read_nat (ip @ fp)) * pow10 (x - int (length fp))))
        in (if neg then - v else v, k + length ip + dot + length fp + l))"

text \<open>A finite \<open>double\<close>, and any \<open>double\<close> that is not a NaN.\<close>

definition is_double :: "rat \<Rightarrow> bool" where
  "is_double x = (to_double x = x \<and> \<bar>x\<bar> < HUGE_VAL)"

definition is_number :: "rat \<Rightarrow> bool" where
  "is_number x = (is_double x \<or> \<bar>x\<bar> = HUGE_VAL)"

end
