(* ===== verification/LD_CJSON.thy ===== *)
theory LD_CJSON
  imports LD_JSON LD_Decimal
begin

text \<open>
  The parser and the printer of the vendored c-sdk-common/src/cJSON.c, down to its
  buffers: every read of the input and every write to the output goes through a check that
  it lies inside the memory the code owns, and yields the fault \<open>OutOfBounds\<close> otherwise.

  A parse function returns the item, or \<open>None\<close> for its \<open>false\<close>, with the buffer as it
  leaves it. \<open>size_t\<close> values are natural numbers: all of them are offsets into the input or
  the output. The items are the trees of \<open>LD_JSON\<close>: of the members of a \<open>cJSON\<close>, the
  \<open>valueint\<close> copy of a number is never read in this program and is left out. Allocation
  succeeds. The recursion of the parser takes fuel, one unit per call or per element; the
  entry point provides four units per byte.
\<close>

section \<open>The input\<close>

record parse_buffer =
  pb_content :: string
  pb_offset :: nat
  pb_depth :: nat

definition can_read :: "parse_buffer \<Rightarrow> nat \<Rightarrow> bool" where
  "can_read b n = (pb_offset b + n \<le> length (pb_content b))"

definition can_access_at_index :: "parse_buffer \<Rightarrow> nat \<Rightarrow> bool" where
  "can_access_at_index b index = (pb_offset b + index < length (pb_content b))"

text \<open>\<open>buffer_at_offset(b)[i]\<close>.\<close>

definition buffer_at :: "parse_buffer \<Rightarrow> nat \<Rightarrow> char run" where
  "buffer_at b i =
     (if can_access_at_index b i then Inr (pb_content b ! (pb_offset b + i)) else Inl OutOfBounds)"

text \<open>The guarded test \<open>can_access_at_index(b, 0) && buffer_at_offset(b)[0] == c\<close>.\<close>

definition looking_at :: "parse_buffer \<Rightarrow> char \<Rightarrow> bool" where
  "looking_at b c = (can_access_at_index b 0 \<and> pb_content b ! pb_offset b = c)"

text \<open>The guarded comparison \<open>can_read(b, n) && strncmp(buffer_at_offset(b), lit, n) == 0\<close>.\<close>

definition literal_at :: "parse_buffer \<Rightarrow> string \<Rightarrow> bool" where
  "literal_at b lit =
     (can_read b (length lit) \<and> take (length lit) (drop (pb_offset b) (pb_content b)) = lit)"

abbreviation advance :: "nat \<Rightarrow> parse_buffer \<Rightarrow> parse_buffer" where
  "advance n b \<equiv> b\<lparr>pb_offset := pb_offset b + n\<rparr>"

abbreviation step_back :: "parse_buffer \<Rightarrow> parse_buffer" where
  "step_back b \<equiv> b\<lparr>pb_offset := pb_offset b - 1\<rparr>"

definition blank :: "char \<Rightarrow> bool" where
  "blank c = ((of_char c :: nat) \<le> 32)"

definition buffer_skip_whitespace :: "parse_buffer \<Rightarrow> parse_buffer" where
  "buffer_skip_whitespace b =
     (let o' = pb_offset b + length (takeWhile blank (drop (pb_offset b) (pb_content b))) in
      b\<lparr>pb_offset := if o' = length (pb_content b) then o' - 1 else o'\<rparr>)"

definition utf8_bom :: string where
  "utf8_bom = [CHR 0xEF, CHR 0xBB, CHR 0xBF]"

text \<open>Called with the offset at zero.\<close>

definition skip_utf8_bom :: "parse_buffer \<Rightarrow> parse_buffer" where
  "skip_utf8_bom b =
     (if can_access_at_index b 4 \<and> take 3 (drop (pb_offset b) (pb_content b)) = utf8_bom
      then advance 3 b else b)"

section \<open>Numbers\<close>

text \<open>
  The characters are copied to a buffer of 64 bytes; \<open>get_decimal_point\<close> is \<open>'.'\<close> in this
  build, so the copy changes nothing.
\<close>

definition parse_number_chars :: "parse_buffer \<Rightarrow> string" where
  "parse_number_chars b =
     takeWhile (\<lambda>c. is_digit c \<or> c \<in> {CHR ''+'', CHR ''-'', CHR ''e'', CHR ''E'', CHR ''.''})
       (take 63 (drop (pb_offset b) (pb_content b)))"

definition parse_number :: "parse_buffer \<Rightarrow> (json option \<times> parse_buffer) run" where
  "parse_number b =
     (let (number, consumed) = strtod (parse_number_chars b) in
      if consumed = 0 then Inr (None, b)
      else Inr (Some (JNumber number), advance consumed b))"

section \<open>Strings\<close>

definition hex_nibble :: "char \<Rightarrow> nat option" where
  "hex_nibble c =
     (let n = of_char c :: nat in
      if 48 \<le> n \<and> n \<le> 57 then Some (n - 48)
      else if 65 \<le> n \<and> n \<le> 70 then Some (10 + n - 65)
      else if 97 \<le> n \<and> n \<le> 102 then Some (10 + n - 97)
      else None)"

text \<open>The loop of \<open>parse_hex4\<close> at index \<open>i\<close>, with the value so far.\<close>

fun parse_hex4_loop :: "nat \<Rightarrow> u32 \<Rightarrow> string \<Rightarrow> u32 run" where
  "parse_hex4_loop i h input =
     (if 4 \<le> i then Inr h
      else case input of
        [] \<Rightarrow> Inl OutOfBounds
      | c # rest \<Rightarrow>
          (case hex_nibble c of
             None \<Rightarrow> Inr 0
           | Some v \<Rightarrow>
               let h' = h + of_nat v in
               parse_hex4_loop (i + 1) (if i < 3 then push_bit 4 h' else h') rest))"

declare parse_hex4_loop.simps [simp del]

definition parse_hex4 :: "string \<Rightarrow> u32 run" where
  "parse_hex4 = parse_hex4_loop 0 0"

unbundle bit_operations_syntax

definition byte :: "64 word \<Rightarrow> char" where
  "byte w = char_of (unat w)"

text \<open>
  The encoding loop, from the last byte to the first: \<open>n\<close> continuation bytes, then the
  first byte with its mark.
\<close>

fun utf8_bytes :: "nat \<Rightarrow> 64 word \<Rightarrow> 64 word \<Rightarrow> string" where
  "utf8_bytes 0 mark cp = [byte ((cp OR mark) AND 0xFF)]"
| "utf8_bytes (Suc n) mark cp = utf8_bytes n mark (drop_bit 6 cp) @ [byte ((cp OR 0x80) AND 0xBF)]"

definition encode_utf8 :: "64 word \<Rightarrow> string option" where
  "encode_utf8 codepoint =
     (if codepoint < 0x80 then Some [byte (codepoint AND 0x7F)]
      else if codepoint < 0x800 then Some (utf8_bytes 1 0xC0 codepoint)
      else if codepoint < 0x10000 then Some (utf8_bytes 2 0xE0 codepoint)
      else if codepoint \<le> 0x10FFFF then Some (utf8_bytes 3 0xF0 codepoint)
      else None)"

text \<open>
  \<open>input\<close> is the memory from \<open>input_pointer\<close> on and \<open>left\<close> the distance to
  \<open>input_end\<close>. The result is what is written and the length of the sequence; \<open>None\<close> is
  the length zero of a failure.
\<close>

definition utf16_literal_to_utf8 :: "nat \<Rightarrow> string \<Rightarrow> (string \<times> nat) option run" where
  "utf16_literal_to_utf8 left input =
     (if left < 6 then Inr None
      else
        run_bind (parse_hex4 (drop 2 input)) (\<lambda>first_code.
          if 0xDC00 \<le> first_code \<and> first_code \<le> 0xDFFF then Inr None
          else if 0xD800 \<le> first_code \<and> first_code \<le> 0xDBFF then
            if left - 6 < 6 then Inr None
            else if length input < 8 then Inl OutOfBounds
            else if input ! 6 \<noteq> CHR 0x5C \<or> input ! 7 \<noteq> CHR ''u'' then Inr None
            else
              run_bind (parse_hex4 (drop 8 input)) (\<lambda>second_code.
                if second_code < 0xDC00 \<or> 0xDFFF < second_code then Inr None
                else
                  Inr (map_option (\<lambda>out. (out, 12))
                    (encode_utf8 (0x10000 +
                      ucast (push_bit 10 (first_code AND 0x3FF) OR (second_code AND 0x3FF))))))
          else Inr (map_option (\<lambda>out. (out, 6)) (encode_utf8 (ucast first_code)))))"

lemma utf16_sequence_length:
  "utf16_literal_to_utf8 left input = Inr (Some (out, l)) \<Longrightarrow> l = 6 \<or> l = 12"
  by (auto simp: utf16_literal_to_utf8_def run_simps split: if_splits)

text \<open>
  The search for the closing quote from \<open>input_end\<close> on: its distance and the number of
  backslashes that were skipped, or \<open>None\<close> when the input ends first.
\<close>

fun scan_string :: "string \<Rightarrow> (nat \<times> nat) option" where
  "scan_string [] = None"
| "scan_string (c # cs) =
     (if c = CHR 0x22 then Some (0, 0)
      else if c = CHR 0x5C then
        (case cs of
           [] \<Rightarrow> None
         | _ # cs' \<Rightarrow> map_option (\<lambda>(n, k). (n + 2, k + 1)) (scan_string cs'))
      else map_option (\<lambda>(n, k). (n + 1, k)) (scan_string cs))"

text \<open>The one-character escapes.\<close>

definition simple_escape :: "char \<Rightarrow> char option" where
  "simple_escape c =
     (if c = CHR ''b'' then Some CHR 0x08
      else if c = CHR ''f'' then Some CHR 0x0C
      else if c = CHR ''n'' then Some CHR 0x0A
      else if c = CHR ''r'' then Some CHR 0x0D
      else if c = CHR ''t'' then Some CHR 0x09
      else if c = CHR 0x22 \<or> c = CHR 0x5C \<or> c = CHR ''/'' then Some c
      else None)"

text \<open>
  The loop that decodes the literal: \<open>left\<close> bytes remain before \<open>input_end\<close>, \<open>input\<close> is
  the memory from \<open>input_pointer\<close> on. The result is the output, the bytes left when the
  loop ended and whether it succeeded. The last escape may end one byte after
  \<open>input_end\<close>; the loop then ends as well.
\<close>

function (sequential) decode_string :: "nat \<Rightarrow> string \<Rightarrow> (string \<times> nat \<times> bool) run" where
  "decode_string left input =
     (if left = 0 then Inr ([], 0, True)
      else case input of
        [] \<Rightarrow> Inl OutOfBounds
      | c # rest \<Rightarrow>
          if c \<noteq> CHR 0x5C then
            run_bind (decode_string (left - 1) rest) (\<lambda>(out, l, ok). Inr (c # out, l, ok))
          else
            (case rest of
               [] \<Rightarrow> Inl OutOfBounds
             | d # rest' \<Rightarrow>
                 if d = CHR ''u'' then
                   run_bind (utf16_literal_to_utf8 left input) (\<lambda>r.
                     case r of
                       None \<Rightarrow> Inr ([], left, False)
                     | Some (bytes, sequence_length) \<Rightarrow>
                         run_bind (decode_string (left - sequence_length) (drop sequence_length input))
                           (\<lambda>(out, l, ok). Inr (bytes @ out, l, ok)))
                 else
                   (case simple_escape d of
                      None \<Rightarrow> Inr ([], left, False)
                    | Some e \<Rightarrow>
                        run_bind (decode_string (left - 2) rest') (\<lambda>(out, l, ok). Inr (e # out, l, ok)))))"
  by pat_completeness auto
termination
  by (relation "measure fst") (auto dest: utf16_sequence_length)

declare decode_string.simps [simp del]

text \<open>
  On failure the offset is left at \<open>input_pointer\<close>. The output has room for
  \<open>allocation_length + 1\<close> bytes; the item's string is what a C function reads there.
\<close>

definition parse_string :: "parse_buffer \<Rightarrow> (string option \<times> parse_buffer) run" where
  "parse_string b =
     run_bind (buffer_at b 0) (\<lambda>c.
       if c \<noteq> CHR 0x22 then Inr (None, advance 1 b)
       else
         let input = drop (pb_offset b + 1) (pb_content b) in
         case scan_string input of
           None \<Rightarrow> Inr (None, advance 1 b)
         | Some (distance, skipped_bytes) \<Rightarrow>
             let allocation_length = distance + 1 - skipped_bytes in
             run_bind (decode_string distance input) (\<lambda>(out, left, ok).
               if allocation_length + 1 < length out + (if ok then 1 else 0) then Inl OutOfBounds
               else if ok then Inr (Some (cstr out), advance (distance + 2) b)
               else Inr (None, advance (1 + (distance - left)) b)))"

section \<open>Values, arrays and objects\<close>

definition CJSON_NESTING_LIMIT :: nat where
  "CJSON_NESTING_LIMIT = 1000"

abbreviation deeper :: "parse_buffer \<Rightarrow> parse_buffer" where
  "deeper b \<equiv> b\<lparr>pb_depth := pb_depth b + 1\<rparr>"

text \<open>The end of an array or object: the depth is restored and the bracket consumed.\<close>

abbreviation close_bracket :: "parse_buffer \<Rightarrow> parse_buffer" where
  "close_bracket b \<equiv> b\<lparr>pb_depth := pb_depth b - 1, pb_offset := pb_offset b + 1\<rparr>"

text \<open>
  \<open>parse_elements\<close> and \<open>parse_members\<close> are the loops of \<open>parse_array\<close> and
  \<open>parse_object\<close>, entered with the offset in front of the next element.
\<close>

fun parse_value :: "nat \<Rightarrow> parse_buffer \<Rightarrow> (json option \<times> parse_buffer) run"
  and parse_array :: "nat \<Rightarrow> parse_buffer \<Rightarrow> (json option \<times> parse_buffer) run"
  and parse_elements :: "nat \<Rightarrow> parse_buffer \<Rightarrow> (json list option \<times> parse_buffer) run"
  and parse_object :: "nat \<Rightarrow> parse_buffer \<Rightarrow> (json option \<times> parse_buffer) run"
  and parse_members :: "nat \<Rightarrow> parse_buffer \<Rightarrow> ((string \<times> json) list option \<times> parse_buffer) run"
where
  "parse_value 0 b = Inl OutOfFuel"
| "parse_value (Suc n) b =
     (if literal_at b ''null'' then Inr (Some JNull, advance 4 b)
      else if literal_at b ''false'' then Inr (Some (JBool False), advance 5 b)
      else if literal_at b ''true'' then Inr (Some (JBool True), advance 4 b)
      else if looking_at b CHR 0x22 then
        run_bind (parse_string b) (\<lambda>(s, b'). Inr (map_option JText s, b'))
      else if can_access_at_index b 0 \<and>
          (pb_content b ! pb_offset b = CHR ''-'' \<or> is_digit (pb_content b ! pb_offset b)) then
        parse_number b
      else if looking_at b CHR ''['' then parse_array n b
      else if looking_at b CHR ''{'' then parse_object n b
      else Inr (None, b))"
| "parse_array 0 b = Inl OutOfFuel"
| "parse_array (Suc n) b =
     (if CJSON_NESTING_LIMIT \<le> pb_depth b then Inr (None, b)
      else
        run_bind (buffer_at b 0) (\<lambda>c.
          if c \<noteq> CHR ''['' then Inr (None, deeper b)
          else
            let b1 = buffer_skip_whitespace (advance 1 (deeper b)) in
            if looking_at b1 CHR '']'' then Inr (Some (JArray []), close_bracket b1)
            else if \<not> can_access_at_index b1 0 then Inr (None, step_back b1)
            else
              run_bind (parse_elements n (step_back b1)) (\<lambda>(r, b2).
                case r of
                  None \<Rightarrow> Inr (None, b2)
                | Some xs \<Rightarrow>
                    if looking_at b2 CHR '']'' then Inr (Some (JArray xs), close_bracket b2)
                    else Inr (None, b2))))"
| "parse_elements 0 b = Inl OutOfFuel"
| "parse_elements (Suc n) b =
     run_bind (parse_value n (buffer_skip_whitespace (advance 1 b))) (\<lambda>(v, b1).
       case v of
         None \<Rightarrow> Inr (None, b1)
       | Some x \<Rightarrow>
           let b2 = buffer_skip_whitespace b1 in
           if looking_at b2 CHR '','' then
             run_bind (parse_elements n b2) (\<lambda>(r, b3). Inr (map_option ((#) x) r, b3))
           else Inr (Some [x], b2))"
| "parse_object 0 b = Inl OutOfFuel"
| "parse_object (Suc n) b =
     (if CJSON_NESTING_LIMIT \<le> pb_depth b then Inr (None, b)
      else if \<not> looking_at b CHR ''{'' then Inr (None, deeper b)
      else
        let b1 = buffer_skip_whitespace (advance 1 (deeper b)) in
        if looking_at b1 CHR ''}'' then Inr (Some (JObject []), close_bracket b1)
        else if \<not> can_access_at_index b1 0 then Inr (None, step_back b1)
        else
          run_bind (parse_members n (step_back b1)) (\<lambda>(r, b2).
            case r of
              None \<Rightarrow> Inr (None, b2)
            | Some ps \<Rightarrow>
                if looking_at b2 CHR ''}'' then Inr (Some (JObject ps), close_bracket b2)
                else Inr (None, b2)))"
| "parse_members 0 b = Inl OutOfFuel"
| "parse_members (Suc n) b =
     run_bind (parse_string (buffer_skip_whitespace (advance 1 b))) (\<lambda>(k, b1).
       case k of
         None \<Rightarrow> Inr (None, b1)
       | Some key \<Rightarrow>
           let b2 = buffer_skip_whitespace b1 in
           if \<not> looking_at b2 CHR '':'' then Inr (None, b2)
           else
             run_bind (parse_value n (buffer_skip_whitespace (advance 1 b2))) (\<lambda>(v, b3).
               case v of
                 None \<Rightarrow> Inr (None, b3)
               | Some x \<Rightarrow>
                   let b4 = buffer_skip_whitespace b3 in
                   if looking_at b4 CHR '','' then
                     run_bind (parse_members n b4) (\<lambda>(r, b5). Inr (map_option ((#) (key, x)) r, b5))
                   else Inr (Some [(key, x)], b4)))"

text \<open>
  The entry point: the tree or \<open>None\<close>, and the position it reports through
  \<open>return_parse_end\<close> (and, on failure, \<open>global_error\<close>). The buffer includes the
  terminator of the text.
\<close>

definition start_buffer :: "string \<Rightarrow> parse_buffer" where
  "start_buffer text =
     buffer_skip_whitespace (skip_utf8_bom \<lparr>pb_content = text @ [CHR 0x00], pb_offset = 0, pb_depth = 0\<rparr>)"

definition error_position :: "parse_buffer \<Rightarrow> nat" where
  "error_position b =
     (if pb_offset b < length (pb_content b) then pb_offset b
      else if 0 < length (pb_content b) then length (pb_content b) - 1 else 0)"

definition cJSON_ParseWithOpts :: "string option \<Rightarrow> bool \<Rightarrow> (json option \<times> nat) run" where
  "cJSON_ParseWithOpts text require_null_terminated =
     (case text of
        None \<Rightarrow> Inr (None, 0)
      | Some s \<Rightarrow>
          run_bind (parse_value (4 * length s + 4) (start_buffer s)) (\<lambda>(r, b).
            case r of
              None \<Rightarrow> Inr (None, error_position b)
            | Some j \<Rightarrow>
                let b1 = (if require_null_terminated then buffer_skip_whitespace b else b) in
                if require_null_terminated \<and> \<not> looking_at b1 CHR 0x00 then Inr (None, error_position b1)
                else Inr (Some j, pb_offset b1)))"

definition cJSON_Parse :: "string option \<Rightarrow> json option run" where
  "cJSON_Parse text = run_bind (cJSON_ParseWithOpts text False) (\<lambda>(r, _). Inr r)"

definition LDJSONDeserialize :: "string option \<Rightarrow> json option run" where
  "LDJSONDeserialize text = (case text of None \<Rightarrow> Inr None | Some s \<Rightarrow> cJSON_Parse (Some s))"

end
