(* ===== verification/LD_Decimal_Laws.thy ===== *)
theory LD_Decimal_Laws
  imports LD_Decimal
begin

text \<open>
  Properties of the decimal conversions: reading inverts the printing of digits, the text
  of \<open>%g\<close> reads back as the rounded value, and a value within half a unit of the 17th
  digit of a \<open>double\<close> rounds to that \<open>double\<close>.
\<close>

section \<open>Powers of ten\<close>

lemma pow10_powi: "pow10 e = 10 powi e"
  by (simp add: pow10_def power_int_def inverse_eq_divide power_one_over)

lemma pow10_pos [simp]: "0 < pow10 e"
  by (simp add: pow10_def)

lemma pow10_nonzero [simp]: "pow10 e \<noteq> 0"
  by (rule less_imp_neq [OF pow10_pos, symmetric])

lemma pow10_add: "pow10 (a + b) = pow10 a * pow10 b"
  by (simp add: pow10_powi power_int_add)

lemma pow10_diff: "pow10 a / pow10 b = pow10 (a - b)"
  using pow10_add [of "a - b" b] by (simp add: field_simps)

lemma pow10_0 [simp]: "pow10 0 = 1"
  by (simp add: pow10_def)

lemma pow10_of_nat: "0 \<le> e \<Longrightarrow> pow10 e = of_nat (10 ^ nat e)"
  by (simp add: pow10_def)

lemma pow10_int [simp]: "pow10 (int n) = of_nat (10 ^ n)"
  by (simp add: pow10_def)

lemma pow10_mono: "a \<le> b \<Longrightarrow> pow10 a \<le> pow10 b"
  by (simp add: pow10_powi power_int_increasing)

lemma pow10_less_iff: "pow10 a < pow10 b \<longleftrightarrow> a < b"
  using power_int_strict_increasing [of a b "10::rat"] pow10_mono [of b a]
  by (auto simp: pow10_powi not_le [symmetric])

section \<open>Digits\<close>

lemma is_digit_char_of [simp]: "d < 10 \<Longrightarrow> is_digit (char_of (48 + d :: nat))"
  by (simp add: is_digit_def)

lemma digit_val_char_of [simp]: "d < 10 \<Longrightarrow> digit_val (char_of (48 + d :: nat)) = d"
  by (simp add: digit_val_def)

lemma digit_val_less: "is_digit c \<Longrightarrow> digit_val c < 10"
  unfolding is_digit_def digit_val_def by linarith

lemma read_nat_Nil [simp]: "read_nat [] = 0"
  by (simp add: read_nat_def)

lemma read_nat_snoc [simp]: "read_nat (ds @ [c]) = 10 * read_nat ds + digit_val c"
  by (simp add: read_nat_def)

lemma read_nat_append: "read_nat (xs @ ys) = read_nat xs * 10 ^ length ys + read_nat ys"
proof (induction ys rule: rev_induct)
  case (snoc c ys)
  then show ?case by (simp add: algebra_simps flip: append_assoc)
qed simp

lemma read_nat_zeros [simp]: "read_nat (replicate k CHR ''0'') = 0"
proof (induction k)
  case (Suc k)
  have "replicate (Suc k) CHR ''0'' = replicate k CHR ''0'' @ [CHR ''0'']"
    by (simp add: replicate_append_same)
  with Suc show ?case by (simp only: read_nat_snoc) (simp add: digit_val_def)
qed simp

lemma show_nat_digits: "\<forall>c \<in> set (show_nat n). is_digit c"
proof (induction n rule: show_nat.induct)
  case (1 n)
  then show ?case by (subst show_nat.simps) auto
qed

lemma show_nat_nonempty [simp]: "show_nat n \<noteq> []"
  by (subst show_nat.simps) simp

lemma read_show_nat [simp]: "read_nat (show_nat n) = n"
proof (induction n rule: show_nat.induct)
  case (1 n)
  show ?case
  proof (cases "n < 10")
    case True
    then show ?thesis by (subst show_nat.simps) (simp add: read_nat_def)
  next
    case False
    with 1 show ?thesis by (subst show_nat.simps) simp
  qed
qed

lemma ndigits_range:
  assumes "0 < n"
  shows "10 ^ (ndigits n - 1) \<le> n" and "n < 10 ^ ndigits n"
proof -
  have "10 ^ (ndigits n - 1) \<le> n \<and> n < 10 ^ ndigits n \<and> 1 \<le> ndigits n"
    using assms
  proof (induction n rule: show_nat.induct)
    case (1 n)
    show ?case
    proof (cases "n < 10")
      case True
      then have "ndigits n = 1" unfolding ndigits_def by (subst show_nat.simps) simp
      with True 1 show ?thesis by simp
    next
      case False
      define k where "k = ndigits (n div 10)"
      have n: "ndigits n = Suc k"
        using False unfolding ndigits_def k_def by (subst show_nat.simps) simp
      from False 1 have ih: "10 ^ (k - 1) \<le> n div 10" "n div 10 < 10 ^ k" "1 \<le> k"
        by (simp_all add: k_def)
      then have "10 ^ k = 10 * (10::nat) ^ (k - 1)" by (cases k) auto
      moreover have "10 * 10 ^ (k - 1) \<le> n" "n < 10 * 10 ^ k" using ih by linarith+
      ultimately show ?thesis by (simp add: n)
    qed
  qed
  then show "10 ^ (ndigits n - 1) \<le> n" "n < 10 ^ ndigits n" by auto
qed

lemma ndigits_pos [simp]: "0 < ndigits n"
  by (simp add: ndigits_def)

lemma ndigits_unique:
  assumes "10 ^ k \<le> n" and "n < 10 ^ Suc k"
  shows "ndigits n = Suc k"
proof -
  have pos: "0 < n" using assms(1) by (cases "n = 0") auto
  from assms ndigits_range [OF pos] have "(10::nat) ^ (ndigits n - 1) < 10 ^ Suc k" "(10::nat) ^ k < 10 ^ ndigits n"
    by linarith+
  then have "ndigits n - 1 < Suc k" "k < ndigits n"
    by (simp_all only: power_strict_increasing_iff [of "10::nat"] one_less_numeral_iff semiring_norm)
  then show ?thesis by linarith
qed

section \<open>The decimal exponent\<close>

lemma ilog10_bounds:
  assumes "0 < x"
  shows "pow10 (ilog10 x) \<le> x" and "x < pow10 (ilog10 x + 1)"
proof -
  obtain a b where ab: "quotient_of x = (a, b)" by (cases "quotient_of x")
  have b: "0 < b" by (rule quotient_of_denom_pos [OF ab])
  have x: "x = of_int a / of_int b" by (rule quotient_of_div [OF ab])
  have a: "0 < a" using assms b by (simp add: x zero_less_divide_iff)
  define m n where "m = nat a" and "n = nat b"
  have mn: "0 < m" "0 < n" "x = of_nat m / of_nat n" using a b by (simp_all add: m_def n_def x)
  define e where "e = int (ndigits m) - int (ndigits n)"
  have bd: "pow10 (int (ndigits k) - 1) \<le> of_nat k" "of_nat k < pow10 (int (ndigits k))" if "0 < k" for k
  proof -
    have "int (ndigits k) - 1 = int (ndigits k - 1)" by (simp add: Suc_leI)
    then show "pow10 (int (ndigits k) - 1) \<le> of_nat k"
      using ndigits_range(1) [OF that] by (simp only: pow10_int of_nat_le_iff)
    show "of_nat k < pow10 (int (ndigits k))"
      using ndigits_range(2) [OF that] by (simp only: pow10_int of_nat_less_iff)
  qed
  have up: "x < pow10 (e + 1)"
  proof -
    have "x \<le> of_nat m / pow10 (int (ndigits n) - 1)"
      unfolding mn(3) using bd(1) [OF mn(2)] mn by (intro divide_left_mono) auto
    also have "\<dots> < pow10 (int (ndigits m)) / pow10 (int (ndigits n) - 1)"
      using bd(2) [OF mn(1)] by (intro divide_strict_right_mono) auto
    also have "\<dots> = pow10 (e + 1)" by (simp only: pow10_diff) (simp add: e_def algebra_simps)
    finally show ?thesis .
  qed
  have low: "pow10 (e - 1) \<le> x"
  proof -
    have "pow10 (e - 1) = pow10 (int (ndigits m) - 1) / pow10 (int (ndigits n))"
      by (simp only: pow10_diff) (simp add: e_def algebra_simps)
    also have "\<dots> \<le> of_nat m / pow10 (int (ndigits n))"
      using bd(1) [OF mn(1)] by (intro divide_right_mono) (auto simp: less_imp_le)
    also have "\<dots> \<le> x"
      unfolding mn(3) using bd(2) [OF mn(2)] mn by (intro divide_left_mono) (auto simp del: pow10_int)
    finally show ?thesis .
  qed
  show "pow10 (ilog10 x) \<le> x" "x < pow10 (ilog10 x + 1)"
    using up low by (auto simp: ilog10_def ab m_def [symmetric] n_def [symmetric] e_def [symmetric] Let_def)
qed

lemma ilog10_less: "0 < x \<Longrightarrow> x < pow10 k \<Longrightarrow> ilog10 x < k"
  using ilog10_bounds(1) [of x] pow10_less_iff [of "ilog10 x" k] by linarith

lemma ilog10_ge: "0 < x \<Longrightarrow> pow10 k \<le> x \<Longrightarrow> k \<le> ilog10 x"
  using ilog10_bounds(2) [of x] pow10_less_iff [of k "ilog10 x + 1"] by linarith

section \<open>Reading what was printed\<close>

lemma takeWhile_digits:
  "\<forall>c \<in> set ds. is_digit c \<Longrightarrow> rest = [] \<or> \<not> is_digit (hd rest) \<Longrightarrow> takeWhile is_digit (ds @ rest) = ds"
  by (cases rest; induction ds) auto

lemma not_digit [simp]:
  "\<not> is_digit CHR ''.''" "\<not> is_digit CHR ''e''" "\<not> is_digit CHR ''E''"
  "\<not> is_digit CHR ''-''" "\<not> is_digit CHR ''+''"
  by (simp_all add: is_digit_def)

lemma digit_0 [simp]: "is_digit CHR ''0''" "digit_val CHR ''0'' = 0"
  by (simp_all add: is_digit_def digit_val_def)

lemma is_digit_sign [simp]: "is_digit c \<Longrightarrow> c \<noteq> CHR ''-'' \<and> c \<noteq> CHR ''+'' \<and> c \<noteq> CHR ''.''"
  by (auto simp: is_digit_def)

lemma read_nat_0 [simp]: "read_nat (CHR ''0'' # ds) = read_nat ds"
  by (simp add: read_nat_def)

text \<open>The exponent texts: none, or what \<open>%g\<close> writes.\<close>

definition exponent_text :: "int option \<Rightarrow> string" where
  "exponent_text x = (case x of None \<Rightarrow> [] | Some X \<Rightarrow> exponent_part X)"

lemma read_exponent_text: "read_exponent (exponent_text x) = (case x of None \<Rightarrow> 0 | Some X \<Rightarrow> X, length (exponent_text x))"
proof (cases x)
  case (Some X)
  define ds where "ds = (let ds = show_nat (nat \<bar>X\<bar>) in if length ds < 2 then CHR ''0'' # ds else ds)"
  have dig: "\<forall>c \<in> set ds. is_digit c" using show_nat_digits [of "nat \<bar>X\<bar>"] by (auto simp: ds_def Let_def)
  have "read_nat ds = nat \<bar>X\<bar>" by (simp add: ds_def Let_def)
  moreover have "ds \<noteq> []" by (simp add: ds_def Let_def)
  moreover have "exponent_text x = (if X < 0 then ''e-'' else ''e+'') @ ds"
    by (simp add: Some exponent_text_def exponent_part_def ds_def)
  ultimately show ?thesis
    by (simp add: Some read_exponent_def read_sign_def Let_def takeWhile_eq_all_conv [THEN iffD2, OF dig])
qed (simp add: exponent_text_def read_exponent_def)

lemma exponent_text_hd: "exponent_text x = [] \<or> hd (exponent_text x) = CHR ''e''"
  by (cases x) (auto simp: exponent_text_def exponent_part_def)

definition sign_text :: "bool \<Rightarrow> string" where
  "sign_text neg = (if neg then ''-'' else '''')"

definition with_sign :: "bool \<Rightarrow> rat \<Rightarrow> rat" where
  "with_sign neg v = (if neg then - v else v)"

text \<open>The fraction as it is written: a point and digits, or nothing.\<close>

definition dotted :: "string \<Rightarrow> string" where
  "dotted fp = (if fp = [] then [] else CHR ''.'' # fp)"

lemma strtod_text:
  assumes ip: "\<forall>c \<in> set ip. is_digit c" "ip \<noteq> []" and fp: "\<forall>c \<in> set fp. is_digit c"
    and t_def: "t = sign_text neg @ ip @ dotted fp @ exponent_text x"
  shows "strtod t =
    (with_sign neg (saturate (to_double (of_nat (read_nat (ip @ fp)) *
       pow10 ((case x of None \<Rightarrow> 0 | Some X \<Rightarrow> X) - int (length fp))))), length t)"
proof -
  let ?e = "exponent_text x"
  from ip obtain c ip' where c: "ip = c # ip'" "is_digit c" by (cases ip) auto
  have sg: "read_sign t = (neg, length (sign_text neg))"
    using c by (simp add: t_def sign_text_def read_sign_def)
  have e: "?e = [] \<or> \<not> is_digit (hd ?e)" "?e = [] \<or> hd ?e \<noteq> CHR ''.''" using exponent_text_hd [of x] by auto
  have 1: "drop (length (sign_text neg)) t = ip @ dotted fp @ ?e" by (simp add: t_def)
  have 2: "takeWhile is_digit (ip @ dotted fp @ ?e) = ip"
    using e by (intro takeWhile_digits ip) (auto simp: dotted_def)
  have 3: "(case dotted fp @ ?e of c # s3 \<Rightarrow> if c = CHR ''.'' then takeWhile is_digit s3 else [] | [] \<Rightarrow> []) = fp"
    using e takeWhile_digits [OF fp e(1)] by (cases ?e) (auto simp: dotted_def)
  have 4: "(case dotted fp @ ?e of c # _ \<Rightarrow> if c = CHR ''.'' then 1 else 0 | [] \<Rightarrow> 0) = length (dotted fp) - length fp"
    using e by (cases ?e) (auto simp: dotted_def)
  have 5: "length (dotted fp) - length fp + length fp = length (dotted fp)" by (simp add: dotted_def)
  show ?thesis
    unfolding strtod_def sg Let_def prod.case 1 2 using ip(2)
    by (simp add: 3 4 5 read_exponent_text) (simp add: t_def with_sign_def 5 dotted_def)
qed

section \<open>Trailing zeros\<close>

lemma strip_zeros_split: "\<exists>k. ds = strip_zeros ds @ replicate k CHR ''0''"
proof -
  have "\<exists>k. takeWhile (\<lambda>c. c = CHR ''0'') (rev ds) = replicate k CHR ''0''"
    by (rule exI, rule replicate_length_same [symmetric]) (auto dest: set_takeWhileD)
  then obtain k where k: "takeWhile (\<lambda>c. c = CHR ''0'') (rev ds) = replicate k CHR ''0''" ..
  have "rev ds = replicate k CHR ''0'' @ dropWhile (\<lambda>c. c = CHR ''0'') (rev ds)"
    unfolding k [symmetric] by simp
  then have "ds = strip_zeros ds @ replicate k CHR ''0''"
    unfolding strip_zeros_def by (metis rev_append rev_replicate rev_rev_ident)
  then show ?thesis ..
qed

lemma strip_zeros_value:
  "of_nat (read_nat (ip @ strip_zeros fp)) * pow10 (X - int (length (strip_zeros fp))) =
   of_nat (read_nat (ip @ fp)) * pow10 (X - int (length fp))"
proof -
  obtain k where k: "fp = strip_zeros fp @ replicate k CHR ''0''" using strip_zeros_split by blast
  define g where "g = strip_zeros fp"
  from k have k: "fp = g @ replicate k CHR ''0''" unfolding g_def .
  have r: "read_nat (ip @ fp) = read_nat (ip @ g) * 10 ^ k"
    unfolding k append_assoc [symmetric] by (subst read_nat_append) simp
  have "pow10 (X - int (length g)) = of_nat (10 ^ k) * pow10 (X - int (length fp))"
    using pow10_add [of "int k" "X - int (length fp)"] by (simp add: k algebra_simps)
  then show ?thesis by (simp add: r g_def [symmetric])
qed

lemma strip_zeros_digits: "\<forall>c \<in> set fp. is_digit c \<Longrightarrow> \<forall>c \<in> set (strip_zeros fp). is_digit c"
  by (auto simp: strip_zeros_def dest: set_dropWhileD)

lemma fraction_dotted: "fraction fp = dotted (strip_zeros fp)"
  by (simp add: fraction_def dotted_def Let_def)

lemma strtod_fraction:
  assumes "\<forall>c \<in> set ip. is_digit c" "ip \<noteq> []" "\<forall>c \<in> set fp. is_digit c"
  shows "strtod (sign_text neg @ ip @ fraction fp @ exponent_text x) =
    (with_sign neg (saturate (to_double (of_nat (read_nat (ip @ fp)) *
       pow10 ((case x of None \<Rightarrow> 0 | Some X \<Rightarrow> X) - int (length fp))))),
     length (sign_text neg @ ip @ fraction fp @ exponent_text x))"
  unfolding fraction_dotted
  by (simp only: strtod_text [OF assms(1,2) strip_zeros_digits [OF assms(3)] refl] strip_zeros_value)

section \<open>Rounding to decimal digits\<close>

lemma round_even_dist: "\<bar>of_int (round_even y) - y\<bar> \<le> 1 / 2"
proof -
  define f where "f = \<lfloor>y\<rfloor>"
  have "of_int f \<le> y" "y < of_int f + 1" by (simp_all add: f_def) linarith
  then show ?thesis unfolding round_even_def Let_def f_def [symmetric] by (auto simp: abs_le_iff)
qed

text \<open>The result has exactly \<open>P\<close> digits and is within half a unit of the last one.\<close>

lemma decimal_round_spec:
  assumes x: "0 < x" and P: "0 < P" and r: "decimal_round P x = (n, X)"
  shows "10 ^ (P - 1) \<le> n" and "n < 10 ^ P"
    and "\<bar>of_nat n * pow10 (X - int P + 1) - x\<bar> \<le> pow10 (ilog10 x - int P + 1) / 2"
    and "X = ilog10 x \<or> X = ilog10 x + 1"
proof -
  define e where "e = ilog10 x"
  define u where "u = pow10 (e - int P + 1)"
  define m where "m = nat (round_even (x / u))"
  have u: "0 < u" by (simp add: u_def)
  have lo: "pow10 e / u = of_nat (10 ^ (P - 1))" and hi: "pow10 (e + 1) / u = of_nat (10 ^ P)"
    using P by (simp_all add: u_def pow10_diff pow10_of_nat nat_diff_distrib del: of_nat_power)
  have q: "of_nat (10 ^ (P - 1)) \<le> x / u" "x / u \<le> of_nat (10 ^ P)"
    unfolding lo [symmetric] hi [symmetric] e_def using ilog10_bounds [OF x] u
    by (auto intro!: divide_right_mono simp: less_imp_le)
  have "int (10 ^ (P - 1)) \<le> round_even (x / u)" "round_even (x / u) \<le> int (10 ^ P)"
    using q by (auto intro!: round_even_ge round_even_le simp del: of_nat_power)
  then have m: "10 ^ (P - 1) \<le> m" "m \<le> 10 ^ P" "int m = round_even (x / u)"
    unfolding m_def by linarith+
  have "(of_nat m :: rat) = of_int (round_even (x / u))" by (simp flip: m(3))
  then have "\<bar>of_nat m - x / u\<bar> \<le> 1 / 2" using round_even_dist [of "x / u"] by simp
  then have "\<bar>of_nat m - x / u\<bar> * u \<le> 1 / 2 * u" using u by (intro mult_right_mono) auto
  moreover have "\<bar>of_nat m - x / u\<bar> * u = \<bar>of_nat m * u - x\<bar>"
    using u by (simp add: abs_mult_pos left_diff_distrib)
  ultimately have d: "\<bar>of_nat m * u - x\<bar> \<le> u / 2" by simp
  have r: "(n, X) = (if m = 10 ^ P then (10 ^ (P - 1), e + 1) else (m, e))"
    using r unfolding decimal_round_def Let_def e_def [symmetric] u_def [symmetric] m_def [symmetric] by simp
  have v: "of_nat n * pow10 (X - int P + 1) = of_nat m * u"
  proof (cases "m = 10 ^ P")
    case True
    have "of_nat (10 ^ (P - 1)) * pow10 (e + 1 - int P + 1) = pow10 (e + 1)"
      unfolding pow10_int [symmetric] pow10_add [symmetric] using P
      by (intro arg_cong [of _ _ pow10]) (simp add: of_nat_diff)
    moreover have "of_nat (10 ^ P) * u = pow10 (e + 1)"
      unfolding hi [symmetric] using u by simp
    ultimately show ?thesis using True r by simp
  qed (use r u_def in simp)
  show "10 ^ (P - 1) \<le> n" "n < 10 ^ P"
    using m r P by (auto split: if_splits intro!: power_strict_increasing)
  show "\<bar>of_nat n * pow10 (X - int P + 1) - x\<bar> \<le> pow10 (ilog10 x - int P + 1) / 2"
    unfolding v e_def [symmetric] u_def [symmetric] by (rule d)
  show "X = ilog10 x \<or> X = ilog10 x + 1" using r by (auto simp: e_def split: if_splits)
qed

section \<open>The text of \<open>%g\<close>\<close>

text \<open>
  The three layouts of \<open>%g\<close> have one shape: digits, a fraction without trailing zeros,
  perhaps an exponent; and the digits denote the rounded value.
\<close>

lemma printf_g_layout:
  assumes x: "x \<noteq> 0" and P: "0 < P" and r: "decimal_round P \<bar>x\<bar> = (n, X)"
  shows "\<exists>ip fp xo. printf_g P x = sign_text (x < 0) @ ip @ fraction fp @ exponent_text xo \<and>
    (\<forall>c \<in> set (ip @ fp). is_digit c) \<and> ip \<noteq> [] \<and> xo \<in> {None, Some X} \<and>
    length (ip @ fp) \<le> P + 4 \<and> (xo \<noteq> None \<longrightarrow> length (ip @ fp) \<le> P) \<and>
    of_nat (read_nat (ip @ fp)) * pow10 ((case xo of None \<Rightarrow> 0 | Some X \<Rightarrow> X) - int (length fp)) =
      of_nat n * pow10 (X - int P + 1)"
proof -
  define ds where "ds = show_nat n"
  have pos: "0 < \<bar>x\<bar>" using x by simp
  note spec = decimal_round_spec [OF pos P r]
  have "ndigits n = Suc (P - 1)" using spec(1,2) P by (intro ndigits_unique) simp_all
  then have len: "length ds = P" using P by (simp add: ds_def ndigits_def)
  have dig: "\<forall>c \<in> set ds. is_digit c" by (simp add: ds_def show_nat_digits)
  have val: "read_nat ds = n" by (simp add: ds_def)
  have shape: "printf_g P x = sign_text (x < 0) @
      (if - 4 \<le> X \<and> X < int P then
         if 0 \<le> X then take (nat X + 1) ds @ fraction (drop (nat X + 1) ds)
         else ''0'' @ fraction (replicate (nat (- X) - 1) CHR ''0'' @ ds)
       else take 1 ds @ fraction (drop 1 ds) @ exponent_part X)"
    using x by (simp add: printf_g_def r ds_def [symmetric] sign_text_def)
  consider (f) "0 \<le> X" "X < int P" | (z) "- 4 \<le> X" "X < 0" | (e) "X < - 4 \<or> int P \<le> X" by linarith
  then show ?thesis
  proof cases
    case f
    have tl: "0 - int (length (drop (nat X + 1) ds)) = X - int P + 1" using f len by auto
    show ?thesis
      apply (rule exI [of _ "take (nat X + 1) ds"], rule exI [of _ "drop (nat X + 1) ds"], rule exI [of _ None])
      unfolding option.case append_take_drop_id val tl
      using f P dig len shape by (auto simp: exponent_text_def)
  next
    case z
    define zs where "zs = replicate (nat (- X) - 1) CHR ''0''"
    have tl: "0 - int (length (zs @ ds)) = X - int P + 1" using z len by (simp add: zs_def)
    have v: "read_nat (''0'' @ zs @ ds) = n" by (simp add: read_nat_append zs_def val)
    show ?thesis
      apply (rule exI [of _ "''0''"], rule exI [of _ "zs @ ds"], rule exI [of _ None])
      unfolding option.case v tl
      using z P dig len shape by (auto simp: exponent_text_def zs_def)
  next
    case e
    have tl: "X - int (length (drop 1 ds)) = X - int P + 1" using len P by auto
    have "printf_g P x = sign_text (x < 0) @ take 1 ds @ fraction (drop 1 ds) @ exponent_part X"
      unfolding shape using e by (subst if_not_P) auto
    moreover have "take 1 ds \<noteq> []" using len P by (cases ds) auto
    ultimately show ?thesis
      apply -
      apply (rule exI [of _ "take 1 ds"], rule exI [of _ "drop 1 ds"], rule exI [of _ "Some X"])
      unfolding option.case append_take_drop_id val tl
      using dig len by (simp add: exponent_text_def)
  qed
qed

lemma strtod_printf_g:
  assumes "x \<noteq> 0" and "0 < P" and r: "decimal_round P \<bar>x\<bar> = (n, X)"
  shows "strtod (printf_g P x) =
    (with_sign (x < 0) (saturate (to_double (of_nat n * pow10 (X - int P + 1)))), length (printf_g P x))"
proof -
  from printf_g_layout [OF assms] obtain ip fp xo where
    t: "printf_g P x = sign_text (x < 0) @ ip @ fraction fp @ exponent_text xo"
    and d: "\<forall>c \<in> set ip. is_digit c" "ip \<noteq> []" "\<forall>c \<in> set fp. is_digit c"
    and v: "of_nat (read_nat (ip @ fp)) * pow10 ((case xo of None \<Rightarrow> 0 | Some X \<Rightarrow> X) - int (length fp)) =
      of_nat n * pow10 (X - int P + 1)" by auto
  show ?thesis unfolding t strtod_fraction [OF d] v ..
qed

section \<open>Rounding is odd and exact near a representable value\<close>

lemma round_even_minus: "round_even (- y) = - round_even y"
proof (cases "y = of_int \<lfloor>y\<rfloor>")
  case True
  then show ?thesis by (metis of_int_minus round_even_of_int)
next
  case False
  define f where "f = \<lfloor>y\<rfloor>"
  have f: "of_int f < y" "y < of_int f + 1" using False floor_correct [of y] unfolding f_def by linarith+
  then have "\<lfloor>- y\<rfloor> = - f - 1" by (intro floor_unique) auto
  then show ?thesis unfolding round_even_def Let_def f_def [symmetric] using f by auto
qed

lemma pow2_plus: "0 \<le> k \<Longrightarrow> pow2 (a + k) = 2 ^ nat k * pow2 a"
  by (simp add: pow2_add) (simp add: pow2_def [of k])

lemma to_double_minus: "to_double (- x) = - to_double x"
  by (simp add: to_double_def round_to_def Let_def round_even_minus)

lemma round_even_close: "\<bar>y - of_int m\<bar> < 1 / 2 \<Longrightarrow> round_even y = m"
proof -
  assume "\<bar>y - of_int m\<bar> < 1 / 2"
  then have "\<bar>of_int (round_even y) - (of_int m :: rat)\<bar> < 1"
    using round_even_dist [of y] by linarith
  then have "\<bar>round_even y - m\<bar> < 1" by (simp flip: of_int_diff of_int_abs)
  then show ?thesis by simp
qed

lemma abs_scaled: "0 < u \<Longrightarrow> \<bar>y / u - of_int k\<bar> = \<bar>y - of_int k * u\<bar> / (u :: rat)"
proof -
  assume u: "0 < u"
  then have "y / u - of_int k = (y - of_int k * u) / u" by (simp add: field_simps)
  with u show ?thesis by (simp add: abs_divide)
qed

text \<open>The grid of a positive double: a multiple of its unit, below \<open>2\<^sup>5\<^sup>3\<close> units.\<close>

lemma double_grid:
  assumes d: "0 < d" "to_double d = d"
  defines "E \<equiv> max (ilog2 d) (- 1022)"
  shows "\<exists>m :: int. d = of_int m * pow2 (E - 52) \<and> m < 2 ^ 53"
proof -
  have "d = of_int (round_even (d / pow2 (E - 52))) * pow2 (E - 52)"
    using d by (simp add: to_double_def round_to_def Let_def E_def)
  then obtain m where m: "d = of_int m * pow2 (E - 52)" by blast
  have "d < pow2 (E + 1)"
    using ilog2_bounds(2) [OF d(1)] pow2_mono [of "ilog2 d + 1" "E + 1"] by (simp add: E_def)
  also have "\<dots> = 2 ^ 53 * pow2 (E - 52)" using pow2_plus [of 53 "E - 52"] by (simp add: algebra_simps)
  finally have "(of_int m :: rat) < of_int (2 ^ 53)" unfolding m by simp
  then have "m < 2 ^ 53" by (simp only: of_int_less_iff)
  with m show ?thesis by blast
qed

lemma to_double_near:
  assumes d: "0 < d" "to_double d = d" and y: "\<bar>y - d\<bar> \<le> h / 2" and h: "0 \<le> h" "h * 2 ^ 53 < d"
  shows "to_double y = d"
proof -
  define e where "e = ilog2 d"
  define E where "E = max e (- 1022)"
  define q where "q = pow2 (E - 52)"
  have eb: "pow2 e \<le> d" "d < pow2 (e + 1)" unfolding e_def by (rule ilog2_bounds [OF d(1)])+
  obtain m where m: "d = of_int m * q" "m < 2 ^ 53"
    using double_grid [OF d] by (auto simp: q_def E_def e_def)
  have q: "0 < q" by (simp add: q_def)
  have m1: "1 \<le> m" using d(1) m(1) q by (simp add: zero_less_mult_iff)
  have pE: "pow2 (E + 1) = 2 ^ 53 * q" using pow2_plus [of 53 "E - 52"] by (simp add: q_def algebra_simps)
  have "h * 2 ^ 53 < pow2 (e + 1)" using h(2) eb(2) by linarith
  also have "\<dots> \<le> pow2 (E + 1)" by (rule pow2_mono) (simp add: E_def)
  finally have hq: "h < q" unfolding pE using q by simp
  have "h < d" using h by simp
  then have y0: "0 < y" using y by linarith
  define f where "f = max (ilog2 y) (- 1022)"
  have yb: "pow2 (ilog2 y) \<le> y" "y < pow2 (ilog2 y + 1)" by (rule ilog2_bounds [OF y0])+
  have td: "to_double y = of_int (round_even (y / pow2 (f - 52))) * pow2 (f - 52)"
    using y0 by (simp add: to_double_def round_to_def Let_def f_def)
  have fE: "f \<le> E"
  proof -
    have "(of_int m :: rat) \<le> of_int (2 ^ 53 - 1)" using m(2) by (simp only: of_int_le_iff)
    then have "of_int m \<le> (2 ^ 53 - 1 :: rat)" by simp
    then have "d \<le> (2 ^ 53 - 1) * q" unfolding m(1) using q by (intro mult_right_mono) auto
    then have "d + q \<le> 2 ^ 53 * q" by (simp add: algebra_simps)
    moreover have "y < d + q" using y hq q by linarith
    ultimately have "y < pow2 (E + 1)" unfolding pE by linarith
    then show ?thesis using yb(1) ilog2_le [OF y0] by (auto simp: f_def E_def)
  qed
  show ?thesis
  proof (cases "f = E")
    case True
    have "\<bar>y / q - of_int m\<bar> = \<bar>y - d\<bar> / q" using q by (simp add: m(1) field_simps)
    also have "\<dots> < 1 / 2" using y hq q by (simp add: field_simps)
    finally have "round_even (y / q) = m" by (rule round_even_close)
    then show ?thesis using td True by (simp add: q_def [symmetric] m(1))
  next
    case False
    with fE have f: "f < E" by simp
    then have E: "E = e" "- 1022 < e" by (auto simp: E_def f_def)
    have pe: "pow2 e = 2 ^ 52 * q" using pow2_plus [of 52 "e - 52"] by (simp add: q_def E)
    have "pow2 (ilog2 y + 1) \<le> pow2 e" using f by (intro pow2_mono) (auto simp: f_def E)
    with yb(2) have ye: "y < 2 ^ 52 * q" unfolding pe [symmetric] by linarith
    have m52: "m = 2 ^ 52"
    proof (rule antisym)
      have "d < 2 ^ 52 * q + q" using y ye hq by linarith
      then have "of_int m * q < (2 ^ 52 + 1) * q" unfolding m(1) by (simp add: algebra_simps)
      then have "(of_int m :: rat) < of_int (2 ^ 52 + 1)" using q by simp
      then show "m \<le> 2 ^ 52" by (simp only: of_int_less_iff)
      have "of_int (2 ^ 52) * q \<le> of_int m * q" using eb(1) unfolding pe m(1) by simp
      then show "2 ^ 52 \<le> m" using q by (simp only: mult_le_cancel_right) simp
    qed
    have hq2: "h < q / 2" using h(2) by (simp add: m(1) m52)
    have d52: "d = 2 ^ 52 * q" by (simp add: m(1) m52)
    have "2 * pow2 (e - 1) = d" using pow2_plus [of 1 "e - 1"] pe d52 by simp
    moreover have "q \<le> d" using q by (simp add: d52)
    ultimately have "pow2 (e - 1) \<le> y" using y hq2 q by linarith
    then have "e - 1 \<le> ilog2 y" using yb(2) pow2_less_iff [of "e - 1" "ilog2 y + 1"] by linarith
    with f E have fe: "f = e - 1" by (auto simp: f_def)
    have q': "pow2 (f - 52) = q / 2" using pow2_plus [of 1 "e - 53"] by (simp add: fe q_def E)
    have "\<bar>y / (q / 2) - of_int (2 ^ 53)\<bar> = \<bar>y - d\<bar> / (q / 2)" using q by (subst abs_scaled) (simp_all add: d52)
    also have "\<dots> < 1 / 2" using y hq2 q by (simp add: field_simps)
    finally have "round_even (y / (q / 2)) = 2 ^ 53" by (rule round_even_close)
    then show ?thesis unfolding td q' by (simp add: m(1) m52)
  qed
qed

section \<open>Seventeen digits are enough\<close>

lemma is_double_minus: "is_double (- x) = is_double x"
  by (simp add: is_double_def to_double_minus)

lemma is_double_abs: "is_double x \<Longrightarrow> is_double \<bar>x\<bar>"
  by (simp add: abs_if is_double_minus)

lemma with_sign_abs: "with_sign (x < 0) \<bar>x\<bar> = x"
  by (simp add: with_sign_def)

lemma printf_g_17:
  assumes "is_double x"
  shows "strtod (printf_g 17 x) = (x, length (printf_g 17 x))"
proof (cases "x = 0")
  case True
  then show ?thesis
    by (simp add: printf_g_def strtod_def read_sign_def read_exponent_def to_double_def saturate_def HUGE_VAL_def not_le)
next
  case False
  define d where "d = \<bar>x\<bar>"
  obtain n X where r: "decimal_round 17 d = (n, X)" by fastforce
  have d: "0 < d" "to_double d = d" "saturate d = d"
    using False is_double_abs [OF assms] by (auto simp: d_def is_double_def saturate_def)
  define h where "h = pow10 (ilog10 d - 16)"
  have "\<bar>of_nat n * pow10 (X - 16) - d\<bar> \<le> h / 2"
    using decimal_round_spec(3) [OF d(1) _ r] by (simp add: h_def)
  moreover have "h * 2 ^ 53 < d"
  proof -
    have "h * 2 ^ 53 < h * 10 ^ 16" by (rule mult_strict_left_mono) (simp_all add: h_def)
    also have "\<dots> = pow10 (ilog10 d)"
      using pow10_add [of "ilog10 d - 16" 16] by (simp add: h_def pow10_def [of 16])
    also have "\<dots> \<le> d" by (rule ilog10_bounds(1) [OF d(1)])
    finally show ?thesis .
  qed
  moreover have "0 \<le> h" by (simp add: h_def less_imp_le)
  ultimately have "to_double (of_nat n * pow10 (X - 16)) = d" by (intro to_double_near [OF d(1,2)])
  with strtod_printf_g [OF False _ r [unfolded d_def]] show ?thesis
    using d(3) by (simp add: d_def with_sign_abs)
qed

lemma double_exponent:
  assumes "is_double x" and "x \<noteq> 0"
  shows "- 324 \<le> ilog10 \<bar>x\<bar>" and "ilog10 \<bar>x\<bar> < 309"
proof -
  define d where "d = \<bar>x\<bar>"
  have d: "0 < d" "to_double d = d" "d < pow2 1024"
    using assms is_double_abs [OF assms(1)] by (auto simp: d_def is_double_def HUGE_VAL_def)
  have "pow2 1024 < pow10 309" by (simp add: pow2_def pow10_def)
  with d show "ilog10 \<bar>x\<bar> < 309" unfolding d_def [symmetric] by (intro ilog10_less) auto
  define E where "E = max (ilog2 d) (- 1022) - 52"
  obtain m where m: "d = of_int m * pow2 E" using double_grid [OF d(1,2)] by (auto simp: E_def)
  have "0 < m" using d(1) pow2_pos [of E] by (simp add: m zero_less_mult_iff)
  have "pow10 (- 324) \<le> pow2 (- 1074)" by (simp add: pow2_def pow10_def)
  also have "\<dots> \<le> pow2 E" by (rule pow2_mono) (simp add: E_def)
  also have "\<dots> \<le> d" using \<open>0 < m\<close> by (simp add: m)
  finally show "- 324 \<le> ilog10 \<bar>x\<bar>" unfolding d_def [symmetric] by (intro ilog10_ge d)
qed

lemma ndigits_le: "n < 10 ^ k \<Longrightarrow> 0 < k \<Longrightarrow> ndigits n \<le> k"
proof (cases "n = 0")
  case False
  assume "n < 10 ^ k"
  with ndigits_range(1) [of n] False have "(10::nat) ^ (ndigits n - 1) < 10 ^ k" by linarith
  then have "ndigits n - 1 < k" by (rule power_less_imp_less_exp [rotated]) simp
  then show ?thesis by linarith
qed (simp add: ndigits_def show_nat.simps)

lemma length_exponent_part: "\<bar>X\<bar> < 1000 \<Longrightarrow> length (exponent_part X) \<le> 5"
proof -
  assume "\<bar>X\<bar> < 1000"
  then have "nat \<bar>X\<bar> < 10 ^ 3" by simp
  then have "length (show_nat (nat \<bar>X\<bar>)) \<le> 3"
    unfolding ndigits_def [symmetric] by (rule ndigits_le) simp
  then show ?thesis by (auto simp: exponent_part_def Let_def)
qed

lemma length_strip_zeros: "length (strip_zeros fp) \<le> length fp"
  by (simp add: strip_zeros_def length_dropWhile_le [of _ "rev fp", simplified])

text \<open>The text fits the 26 bytes \<open>print_number\<close> reserves for it, with its terminator.\<close>

lemma length_printf_g:
  assumes "is_double x" and P: "0 < P" "P \<le> 17"
  shows "length (printf_g P x) \<le> 24"
proof (cases "x = 0")
  case False
  obtain n X where r: "decimal_round P \<bar>x\<bar> = (n, X)" by fastforce
  have "\<bar>X\<bar> < 1000"
    using double_exponent [OF assms(1) False] decimal_round_spec(4) [OF _ P(1) r] False by auto
  note len = length_exponent_part [OF this]
  from printf_g_layout [OF False P(1) r] obtain ip fp xo where
    t: "printf_g P x = sign_text (x < 0) @ ip @ fraction fp @ exponent_text xo"
    and d: "xo \<in> {None, Some X}" "length ip + length fp \<le> P + 4"
      "xo \<noteq> None \<longrightarrow> length ip + length fp \<le> P" by auto
  have "length (sign_text (x < 0)) \<le> 1" by (simp add: sign_text_def)
  moreover have "length (fraction fp) \<le> 1 + length fp"
    using length_strip_zeros [of fp] by (simp add: fraction_dotted dotted_def)
  ultimately show ?thesis unfolding t using d P len by (auto simp: exponent_text_def)
qed (simp add: printf_g_def)

text \<open>Its characters are those cJSON recognises as part of a number; it starts with a digit or a minus.\<close>

definition number_char :: "char \<Rightarrow> bool" where
  "number_char c = (is_digit c \<or> c \<in> {CHR ''+'', CHR ''-'', CHR ''e'', CHR ''E'', CHR ''.''})"

lemma printf_g_chars:
  assumes P: "0 < P"
  shows "(\<forall>c \<in> set (printf_g P x). number_char c) \<and>
    (\<exists>c cs. printf_g P x = c # cs \<and> (c = CHR ''-'' \<or> is_digit c))"
proof (cases "x = 0")
  case False
  obtain n X where r: "decimal_round P \<bar>x\<bar> = (n, X)" by fastforce
  from printf_g_layout [OF False P(1) r] obtain ip fp xo where
    t: "printf_g P x = sign_text (x < 0) @ ip @ fraction fp @ exponent_text xo"
    and d: "\<forall>c \<in> set ip. is_digit c" "ip \<noteq> []" "\<forall>c \<in> set fp. is_digit c" by auto
  have "\<forall>c \<in> set (fraction fp). number_char c"
    using strip_zeros_digits [OF d(3)] by (auto simp: fraction_dotted dotted_def number_char_def)
  moreover have "\<forall>c \<in> set (exponent_text xo). number_char c"
    using show_nat_digits
    by (cases xo) (auto simp: exponent_text_def exponent_part_def number_char_def Let_def)
  ultimately show ?thesis
    unfolding t using d by (cases ip) (auto simp: sign_text_def number_char_def)
qed (simp add: printf_g_def number_char_def)

end
