(* ===== verification/LD_CJSON_Laws.thy ===== *)
theory LD_CJSON_Laws
  imports LD_CJSON LD_Decimal_Laws
begin

text \<open>
  Properties of the cJSON parser: it reads only its input and writes only what it
  allocated, ends on every text, and what it returns is a well-formed tree. The argument
  about strings compares the two passes of \<open>parse_string\<close>: the first counts the escapes as
  they pair up from the opening quote, the second may lose that pairing after a malformed
  \<open>\u\<close> sequence and still writes no more than the first allowed for.
\<close>

section \<open>Unicode escapes\<close>

lemma hex_nibble_less: "hex_nibble c = Some v \<Longrightarrow> v < 16"
  by (auto simp: hex_nibble_def Let_def split: if_splits)

lemma unat_push_4: "unat h < 2 ^ 20 \<Longrightarrow> unat (push_bit 4 h :: u32) = 16 * unat h"
  by (simp add: push_bit_eq_mult unat_word_ariths)

lemma hex4_loop_bound:
  "i \<le> 4 \<Longrightarrow> (i < 4 \<longrightarrow> unat h + 16 \<le> 16 ^ (i + 1)) \<Longrightarrow> (i = 4 \<longrightarrow> unat h < 16 ^ 4) \<Longrightarrow>
   parse_hex4_loop i h input = Inr r \<Longrightarrow> unat r < 16 ^ 4"
proof (induction i h input rule: parse_hex4_loop.induct)
  case (1 i h input)
  show ?case
  proof (cases "i = 4")
    case False
    with 1(2,5) obtain c rest where input: "input = c # rest"
      by (cases input) (auto simp: parse_hex4_loop.simps [of i])
    show ?thesis
    proof (cases "hex_nibble c")
      case None
      with 1(5) False 1(2) show ?thesis by (simp add: input parse_hex4_loop.simps [of i])
    next
      case (Some v)
      define h' where "h' = h + of_nat v"
      have pw: "(16::nat) ^ (i + 1) \<le> 16 ^ 4" using False 1(2) by (intro power_increasing) auto
      have h': "unat h' < 16 ^ (i + 1)"
        using 1(2,3) False hex_nibble_less [OF Some] pw
        by (simp add: h'_def unat_word_ariths unat_of_nat)
      have step: "parse_hex4_loop (i + 1) (if i < 3 then push_bit 4 h' else h') rest = Inr r"
        using 1(5) False 1(2) by (simp add: input Some Let_def h'_def parse_hex4_loop.simps [of i] split: if_splits)
      show ?thesis
      proof (rule 1(1) [OF _ input Some h'_def])
        show "\<not> 4 \<le> i" "i + 1 \<le> 4" using False 1(2) by auto
        show "parse_hex4_loop (i + 1) (if i < 3 then push_bit 4 h' else h') rest = Inr r" by (rule step)
        show "i + 1 < 4 \<longrightarrow> unat (if i < 3 then push_bit 4 h' else h') + 16 \<le> 16 ^ (i + 1 + 1)"
          using h' pw by (auto simp: unat_push_4)
        show "i + 1 = 4 \<longrightarrow> unat (if i < 3 then push_bit 4 h' else h') < 16 ^ 4" using h' by auto
      qed
    qed
  qed (use 1 in \<open>simp add: parse_hex4_loop.simps [of 4]\<close>)
qed

lemma parse_hex4_bound: "parse_hex4 input = Inr r \<Longrightarrow> unat r < 65536"
  using hex4_loop_bound [of 0 0 input r] by (simp add: parse_hex4_def)

lemma hex4_loop_returns: "4 \<le> i + length input \<Longrightarrow> returns (parse_hex4_loop i h input)"
proof (induction i h input rule: parse_hex4_loop.induct)
  case (1 i h input)
  then show ?case
    by (subst parse_hex4_loop.simps) (auto simp: Let_def split: list.split option.split)
qed

lemma parse_hex4_returns: "4 \<le> length input \<Longrightarrow> \<exists>r. parse_hex4 input = Inr r"
  using hex4_loop_returns [of 0 input 0] by (simp add: parse_hex4_def returns_iff)

lemma length_utf8_bytes [simp]: "length (utf8_bytes n mark cp) = Suc n"
  by (induction n arbitrary: cp) auto

lemma encode_utf8_length:
  "encode_utf8 cp = Some out \<Longrightarrow> length out \<le> 4"
  "encode_utf8 cp = Some out \<Longrightarrow> cp < 0x10000 \<Longrightarrow> length out \<le> 3"
  by (auto simp: encode_utf8_def split: if_splits)

lemma utf16_returns:
  assumes "left < length input"
  shows "\<exists>r. utf16_literal_to_utf8 left input = Inr r"
proof (cases "left < 6")
  case True
  then show ?thesis by (simp add: utf16_literal_to_utf8_def)
next
  case False
  with assms have "4 \<le> length (drop 2 input)" by simp
  then obtain f where f: "parse_hex4 (drop 2 input) = Inr f" using parse_hex4_returns by blast
  show ?thesis
  proof (cases "left - 6 < 6")
    case True
    with False show ?thesis by (auto simp: utf16_literal_to_utf8_def f)
  next
    case left: False
    with assms have "4 \<le> length (drop 8 input)" by simp
    then obtain s where "parse_hex4 (drop 8 input) = Inr s" using parse_hex4_returns by blast
    with False left assms show ?thesis by (auto simp: utf16_literal_to_utf8_def f)
  qed
qed

text \<open>An escape writes at most half of what it reads.\<close>

lemma utf16_output:
  assumes "utf16_literal_to_utf8 left input = Inr (Some (out, l))"
  shows "2 * length out \<le> l" and "l \<le> left"
proof -
  have short: "length out \<le> 3"
    if "parse_hex4 xs = Inr c" and "encode_utf8 (ucast c) = Some out" for xs and c :: u32
  proof (rule encode_utf8_length(2) [OF that(2)])
    have "unat c < 65536" by (rule parse_hex4_bound [OF that(1)])
    then show "(ucast c :: 64 word) < 0x10000" by (simp add: word_less_nat_alt unsigned_ucast_eq take_bit_nat_eq_self)
  qed
  show "2 * length out \<le> l" "l \<le> left"
    using assms short
    by (auto simp: utf16_literal_to_utf8_def run_simps split: if_splits dest: encode_utf8_length(1))
qed

section \<open>Strings\<close>

text \<open>
  The pairing of escapes in a text, from a state that says whether the next byte is the
  second of a pair: the number of pairs that start, and the state after the text.
\<close>

fun escapes :: "bool \<Rightarrow> string \<Rightarrow> nat \<times> bool" where
  "escapes inside [] = (0, inside)"
| "escapes inside (c # cs) =
     (if inside then escapes False cs
      else if c = CHR 0x5C then (let (k, i) = escapes True cs in (Suc k, i))
      else escapes False cs)"

lemma escapes_append:
  "escapes i (u @ v) = (let (k, i') = escapes i u; (k', i'') = escapes i' v in (k + k', i''))"
  by (induction i u rule: escapes.induct) (auto simp: Let_def split: prod.split)

lemma escapes_half: "2 * fst (escapes i u) \<le> length u + (if i then 0 else 1)"
proof (induction i u rule: escapes.induct)
  case (2 i c cs)
  then show ?case by (auto simp: Let_def split: prod.splits if_splits)
qed simp

lemma scan_string_escapes:
  "scan_string input = Some (n, k) \<Longrightarrow>
     n < length input \<and> input ! n = CHR 0x22 \<and> escapes False (take n input) = (k, False)"
proof (induction input arbitrary: n k rule: scan_string.induct)
  case (2 c cs)
  then show ?case by (auto split: if_splits list.splits)
qed simp

text \<open>
  What the second pass writes while it reads \<open>left\<close> bytes, together with the pairs of the
  first pass in them, is at most \<open>left\<close>.
\<close>

lemma decode_string_chunk:
  assumes "escapes i (take left input) = (k, False)" and "l \<le> left" and "left < length input"
  shows "\<exists>k1 i1 k2. escapes i (take l input) = (k1, i1) \<and>
    escapes i1 (take (left - l) (drop l input)) = (k2, False) \<and> k = k1 + k2 \<and> 2 * k1 \<le> l + 1"
proof -
  have "take left input = take l input @ take (left - l) (drop l input)"
    using assms(2) by (metis le_add_diff_inverse take_add)
  moreover obtain k1 i1 where 1: "escapes i (take l input) = (k1, i1)" by fastforce
  moreover obtain k2 i2 where "escapes i1 (take (left - l) (drop l input)) = (k2, i2)" by fastforce
  ultimately show ?thesis
    using assms escapes_half [of i "take l input"]
    by (auto simp: escapes_append Let_def split: if_splits)
qed

lemma decode_string_fits:
  assumes "left < length input" and "escapes i (take left input) = (k, False)"
  shows "\<exists>out l ok. decode_string left input = Inr (out, l, ok) \<and> length out + k \<le> left \<and> l \<le> left"
  using assms
proof (induction left input arbitrary: i k rule: decode_string.induct)
  case (1 left input)
  note chunk = decode_string_chunk [OF 1(5) _ 1(4)]
  consider (fin) "left = 0"
    | (plain) c rest where "left \<noteq> 0" "input = c # rest" "c \<noteq> CHR 0x5C"
    | (esc) d rest where "left \<noteq> 0" "input = CHR 0x5C # d # rest"
    using 1(4) by (cases input; cases "tl input") auto
  then show ?case
  proof cases
    case fin
    with 1(5) show ?thesis by (auto simp: decode_string.simps [of 0])
  next
    case plain
    then obtain l where l: "left = Suc l" by (cases left) auto
    have "escapes False (take (left - 1) rest) = (k, False)"
      using 1(5) plain by (auto simp: l split: if_splits)
    from 1(1) [OF plain(1,2,3) _ this] 1(4) plain show ?thesis
      by (auto simp: decode_string.simps [of "Suc l"] l)
  next
    case esc
    have few: "k \<le> left" using escapes_half [of i "take left input"] 1(4,5) esc(1) by (auto split: if_splits)
    show ?thesis
    proof (cases "d = CHR ''u''")
      case u: True
      obtain r where r: "utf16_literal_to_utf8 left input = Inr r" using utf16_returns [OF 1(4)] by blast
      show ?thesis
      proof (cases r)
        case None
        with esc u r few show ?thesis by (auto simp: decode_string.simps [of left])
      next
        case (Some bl)
        then obtain bytes n where bl: "r = Some (bytes, n)" by (cases bl) auto
        have out: "2 * length bytes \<le> n" "n \<le> left" using utf16_output [OF r [unfolded bl]] by auto
        have n: "n = 6 \<or> n = 12" using utf16_sequence_length [OF r [unfolded bl]] .
        from chunk [OF out(2)] obtain k1 i1 k2 where
          c: "escapes i1 (take (left - n) (drop n input)) = (k2, False)" "k = k1 + k2" "2 * k1 \<le> n + 1" by auto
        have "\<exists>out l ok. decode_string (left - n) (drop n input) = Inr (out, l, ok) \<and>
            length out + k2 \<le> left - n \<and> l \<le> left - n"
          using 1(4) n out(2) by (intro 1(2) [OF esc(1,2) _ refl u r bl refl _ c(1)]) auto
        with esc u r bl c n out show ?thesis by (auto simp: decode_string.simps [of left])
      qed
    next
      case False
      show ?thesis
      proof (cases "simple_escape d")
        case None
        with esc False few show ?thesis by (auto simp: decode_string.simps [of left])
      next
        case (Some e)
        note IH = 1(3) [OF esc(1,2) _ refl False Some]
        show ?thesis
        proof (cases "left = 1")
          case True
          with 1(5) have "k = 0" by (auto simp: esc split: if_splits)
          with True esc False Some show ?thesis
            by (auto simp: decode_string.simps [of "Suc 0"] decode_string.simps [of 0])
        next
          case ge: False
          with esc(1) have "2 \<le> left" by linarith
          from chunk [OF this] obtain k1 i1 k2 where
            c: "escapes i1 (take (left - 2) rest) = (k2, False)" "k = k1 + k2" "2 * k1 \<le> 3"
            by (auto simp: esc)
          have "\<exists>out l ok. decode_string (left - 2) rest = Inr (out, l, ok) \<and>
              length out + k2 \<le> left - 2 \<and> l \<le> left - 2"
            using 1(4) ge esc by (intro IH [OF _ _ c(1)]) auto
          with esc ge False Some c show ?thesis by (auto simp: decode_string.simps [of left])
        qed
      qed
    qed
  qed
qed

section \<open>What a parse function guarantees\<close>

text \<open>Bytes other than NUL end before the terminator.\<close>

lemma consumed_inner:
  assumes "last content = CHR 0x00" and "k + n \<le> length content" and "0 < n"
    and "CHR 0x00 \<notin> set (take n (drop k content))"
  shows "k + n < length content"
proof (rule ccontr)
  assume "\<not> ?thesis"
  with assms(2) have l: "length content = k + n" by simp
  with assms(3) have "drop k content \<noteq> []" "take n (drop k content) = drop k content" by auto
  then have "last content \<in> set (take n (drop k content))" by (metis last_drop last_in_set drop_eq_Nil not_le)
  with assms(1,4) show False by simp
qed

text \<open>
  The buffer a parse function is called with: the offset is inside, and the last byte is
  the terminator of the text.
\<close>

definition buffer_ok :: "parse_buffer \<Rightarrow> bool" where
  "buffer_ok b = (pb_offset b < length (pb_content b) \<and> last (pb_content b) = CHR 0x00)"

definition parsed :: "(nat \<Rightarrow> 'a \<Rightarrow> bool) \<Rightarrow> parse_buffer \<Rightarrow> ('a option \<times> parse_buffer) run \<Rightarrow> bool" where
  "parsed P b m =
     (case m of
        Inl _ \<Rightarrow> False
      | Inr (r, b') \<Rightarrow>
          pb_content b' = pb_content b \<and>
          (\<forall>v. r = Some v \<longrightarrow> pb_offset b < pb_offset b' \<and> pb_offset b' < length (pb_content b) \<and>
             pb_depth b' = pb_depth b \<and> P (pb_depth b) v))"

lemma parsed_fail [simp]: "parsed P b (Inr (None, b')) \<longleftrightarrow> pb_content b' = pb_content b"
  by (simp add: parsed_def)

lemma parsed_Some:
  "parsed P b (Inr (Some v, b')) \<longleftrightarrow>
     pb_content b' = pb_content b \<and> pb_offset b < pb_offset b' \<and> pb_offset b' < length (pb_content b) \<and>
     pb_depth b' = pb_depth b \<and> P (pb_depth b) v"
  by (auto simp: parsed_def)

lemma parsed_bind:
  assumes "parsed P b m"
    and "\<And>b'. pb_content b' = pb_content b \<Longrightarrow> parsed Q c (f (None, b'))"
    and "\<And>v b'. pb_content b' = pb_content b \<Longrightarrow> pb_offset b < pb_offset b' \<Longrightarrow>
      pb_offset b' < length (pb_content b) \<Longrightarrow> pb_depth b' = pb_depth b \<Longrightarrow> P (pb_depth b) v \<Longrightarrow>
      parsed Q c (f (Some v, b'))"
  shows "parsed Q c (run_bind m f)"
proof (cases m)
  case (Inr rb)
  then obtain r b' where m: "m = Inr (r, b')" by (cases rb) auto
  with assms show ?thesis by (cases r) (auto simp: parsed_def [of P])
qed (use assms(1) in \<open>simp add: parsed_def\<close>)

lemma looking_at_access: "looking_at b c \<Longrightarrow> can_access_at_index b 0"
  by (simp add: looking_at_def)

lemma skip_simps [simp]:
  "pb_content (buffer_skip_whitespace b) = pb_content b"
  "pb_depth (buffer_skip_whitespace b) = pb_depth b"
  by (simp_all add: buffer_skip_whitespace_def Let_def)

lemma length_takeWhile_drop: "o' \<le> length xs \<Longrightarrow> o' + length (takeWhile P (drop o' xs)) \<le> length xs"
  using length_takeWhile_le [of P "drop o' xs"] by simp

lemma skip_offset:
  assumes "pb_content b \<noteq> []"
  shows "pb_offset b \<le> length (pb_content b) \<Longrightarrow> pb_offset (buffer_skip_whitespace b) < length (pb_content b)"
    and "pb_offset b < length (pb_content b) \<Longrightarrow> pb_offset b \<le> pb_offset (buffer_skip_whitespace b)"
  using assms length_takeWhile_drop [of "pb_offset b" "pb_content b" blank]
  by (auto simp: buffer_skip_whitespace_def Let_def)

lemma buffer_ok_skip:
  assumes "pb_offset b \<le> length (pb_content b)" and "pb_content b \<noteq> []" and "last (pb_content b) = CHR 0x00"
  shows "buffer_ok (buffer_skip_whitespace b)"
  using skip_offset(1) [OF assms(2,1)] assms by (simp add: buffer_ok_def)

text \<open>A byte other than NUL is not the last one.\<close>

lemma looking_at_inner:
  assumes "buffer_ok b" and "looking_at b c" and "c \<noteq> CHR 0x00"
  shows "Suc (pb_offset b) < length (pb_content b)"
proof (rule ccontr)
  assume "\<not> ?thesis"
  with assms have "pb_offset b = length (pb_content b) - 1" by (auto simp: buffer_ok_def)
  moreover have "pb_content b \<noteq> []" using assms(1) by (auto simp: buffer_ok_def)
  ultimately show False using assms by (auto simp: looking_at_def buffer_ok_def last_conv_nth)
qed

lemma parse_string_parsed:
  assumes "buffer_ok b"
  shows "parsed (\<lambda>_ s. CHR 0x00 \<notin> set s) b (parse_string b)"
proof -
  define input where "input = drop (pb_offset b + 1) (pb_content b)"
  have c: "buffer_at b 0 = Inr (pb_content b ! pb_offset b)"
    using assms by (simp add: buffer_at_def can_access_at_index_def buffer_ok_def)
  show ?thesis
  proof (cases "scan_string input")
    case None
    then show ?thesis by (simp add: parse_string_def c Let_def input_def)
  next
    case (Some nk)
    then obtain n k where nk: "scan_string input = Some (n, k)" by (cases nk) auto
    note scan = scan_string_escapes [OF nk]
    then obtain out l ok where d: "decode_string n input = Inr (out, l, ok)" "length out + k \<le> n"
      using decode_string_fits [of n input False k] by blast
    have "pb_offset b + 1 + n < length (pb_content b)" "pb_content b ! (pb_offset b + 1 + n) = CHR 0x22"
      using scan assms by (auto simp: input_def buffer_ok_def)
    then have "n + 2 + pb_offset b < length (pb_content b)"
      using assms consumed_inner [of "pb_content b" "pb_offset b + 1 + n" 1]
      by (simp add: buffer_ok_def take_Suc_conv_app_nth hd_drop_conv_nth)
    moreover have "length out \<le> n + 1 - k" using d(2) by simp
    ultimately show ?thesis using nk d(1) by (auto simp: parse_string_def c input_def Let_def parsed_Some)
  qed
qed

section \<open>Numbers\<close>

lemma read_sign_length: "snd (read_sign s) \<le> length s"
  by (auto simp: read_sign_def split: list.split)

lemma read_exponent_length: "snd (read_exponent s) \<le> length s"
proof (cases s)
  case (Cons c s')
  obtain neg k where sg: "read_sign s' = (neg, k)" by fastforce
  have "length (takeWhile is_digit (drop k s')) \<le> length s' - k"
    using length_takeWhile_le [of is_digit "drop k s'"] by simp
  with read_sign_length [of s'] show ?thesis by (auto simp: Cons read_exponent_def sg Let_def)
qed (simp add: read_exponent_def)

lemma strtod_consumed: "snd (strtod s) \<le> length s"
proof -
  obtain neg k where sg: "read_sign s = (neg, k)" by fastforce
  define ip where "ip = takeWhile is_digit (drop k s)"
  define s2 where "s2 = drop (length ip) (drop k s)"
  define fp where "fp = (case s2 of c # s3 \<Rightarrow> if c = CHR ''.'' then takeWhile is_digit s3 else [] | [] \<Rightarrow> [])"
  define dot where "dot = (case s2 of c # _ \<Rightarrow> if c = CHR ''.'' then 1 else 0 | [] \<Rightarrow> (0::nat))"
  obtain x l where ex: "read_exponent (drop (dot + length fp) s2) = (x, l)" by fastforce
  have "length ip \<le> length (drop k s)" unfolding ip_def by (rule length_takeWhile_le)
  moreover have "dot + length fp \<le> length s2"
    by (auto simp: dot_def fp_def length_takeWhile_le split: list.split)
  moreover have "l \<le> length (drop (dot + length fp) s2)"
    using read_exponent_length [of "drop (dot + length fp) s2"] by (simp add: ex)
  ultimately have "k + length ip + dot + length fp + l \<le> length s"
    using read_sign_length [of s] by (auto simp: s2_def sg)
  then show ?thesis
    unfolding strtod_def sg Let_def prod.case ip_def [symmetric] s2_def [symmetric]
      fp_def [symmetric] dot_def [symmetric] ex by simp
qed

text \<open>Rounding twice is rounding once.\<close>

lemma to_double_idem [simp]: "to_double (to_double x) = to_double x"
proof (cases "x = 0")
  case False
  define e where "e = max (ilog2 \<bar>x\<bar>) (- 1022) - 52"
  define m where "m = round_even (x / pow2 e)"
  have x: "to_double x = of_int m * pow2 e"
    using False by (simp add: to_double_def round_to_def Let_def e_def m_def)
  have "\<bar>x\<bar> < pow2 (e + 53)"
    using ilog2_bounds(2) [of "\<bar>x\<bar>"] False pow2_mono [of "ilog2 \<bar>x\<bar> + 1" "e + 53"] by (simp add: e_def)
  then have "x / pow2 e < of_int (2 ^ 53)" "of_int (- (2 ^ 53)) < x / pow2 e"
    by (auto simp: pow2_plus abs_less_iff pos_divide_less_eq pos_less_divide_eq)
  then have "- (2 ^ 53) \<le> m" "m \<le> 2 ^ 53"
    unfolding m_def by (auto intro!: round_even_ge round_even_le)
  then consider "\<bar>m\<bar> < 2 ^ 53" | "m = 2 ^ 53" | "m = - (2 ^ 53)" by linarith
  then show ?thesis
  proof cases
    case 1
    then have "round_to 53 (- 1022) (of_int m * pow2 e) = of_int m * pow2 e"
      by (intro round_to_exact) (simp_all add: e_def)
    then show ?thesis unfolding x by (simp add: to_double_def)
  next
    case 2
    then have x2: "to_double x = of_int (2 ^ 52) * pow2 (e + 1)" by (simp add: x pow2_plus)
    have "round_to 53 (- 1022) (of_int (2 ^ 52) * pow2 (e + 1)) = of_int (2 ^ 52) * pow2 (e + 1)"
      by (intro round_to_exact) (simp_all add: e_def)
    then show ?thesis unfolding x2 by (simp add: to_double_def)
  next
    case 3
    then have x3: "to_double x = of_int (- (2 ^ 52)) * pow2 (e + 1)" by (simp add: x pow2_plus)
    have "round_to 53 (- 1022) (of_int (- (2 ^ 52)) * pow2 (e + 1)) = of_int (- (2 ^ 52)) * pow2 (e + 1)"
      by (intro round_to_exact) (simp_all add: e_def)
    then show ?thesis unfolding x3 by (simp add: to_double_def)
  qed
qed (simp add: to_double_def)

lemma saturate_number: "0 \<le> x \<Longrightarrow> is_number (saturate (to_double x))"
proof -
  assume "0 \<le> x"
  then have "0 \<le> to_double x" unfolding to_double_def by (rule round_to_nonneg)
  moreover have "0 \<le> HUGE_VAL" by (simp add: HUGE_VAL_def less_imp_le)
  ultimately show ?thesis by (simp add: saturate_def is_number_def is_double_def)
qed

lemma is_number_0 [simp]: "is_number 0"
  by (simp add: is_number_def is_double_def to_double_def HUGE_VAL_def)

lemma is_number_minus: "is_number (- x) = is_number x"
  by (simp add: is_number_def is_double_minus)

lemma strtod_number: "is_number (fst (strtod s))"
proof -
  have "0 \<le> of_nat n * pow10 e" for n e by (simp add: less_imp_le)
  then show ?thesis
    by (auto simp: strtod_def Let_def is_number_minus saturate_number split: prod.split)
qed

lemma parse_number_chars_nul: "CHR 0x00 \<notin> set (parse_number_chars b)"
  by (auto simp: parse_number_chars_def is_digit_def dest: set_takeWhileD)

lemma take_prefix:
  "n \<le> length (takeWhile P (take m xs)) \<Longrightarrow> take n (takeWhile P (take m xs)) = take n xs"
  using length_takeWhile_le [of P "take m xs"]
  by (subst takeWhile_eq_take) (simp add: take_take min_absorb1)

lemma parse_number_parsed:
  assumes "buffer_ok b"
  shows "parsed (\<lambda>_ j. \<exists>x. j = JNumber x \<and> is_number x) b (parse_number b)"
proof -
  obtain x n where s: "strtod (parse_number_chars b) = (x, n)" by fastforce
  have n: "n \<le> length (parse_number_chars b)" using strtod_consumed [of "parse_number_chars b"] by (simp add: s)
  also have "\<dots> \<le> length (pb_content b) - pb_offset b"
    unfolding parse_number_chars_def by (rule order_trans [OF length_takeWhile_le]) simp
  finally have "pb_offset b + n \<le> length (pb_content b)" using assms by (auto simp: buffer_ok_def)
  moreover have "take n (drop (pb_offset b) (pb_content b)) = take n (parse_number_chars b)"
    unfolding parse_number_chars_def
    by (rule take_prefix [symmetric], use n in \<open>simp add: parse_number_chars_def\<close>)
  then have "CHR 0x00 \<notin> set (take n (drop (pb_offset b) (pb_content b)))"
    using parse_number_chars_nul [of b] by (auto dest: in_set_takeD)
  ultimately have "0 < n \<Longrightarrow> pb_offset b + n < length (pb_content b)"
    using assms by (intro consumed_inner) (auto simp: buffer_ok_def)
  moreover have "is_number x" using strtod_number [of "parse_number_chars b"] by (simp add: s)
  ultimately show ?thesis by (auto simp: parse_number_def s parsed_Some)
qed

section \<open>Values\<close>

text \<open>The trees a parse at nesting depth \<open>d\<close> may return.\<close>

definition value_ok :: "nat \<Rightarrow> json \<Rightarrow> bool" where
  "value_ok d j = (json_ok is_number j \<and> d + json_depth j \<le> CJSON_NESTING_LIMIT)"

abbreviation elements_ok :: "nat \<Rightarrow> json list \<Rightarrow> bool" where
  "elements_ok d xs \<equiv> \<forall>x \<in> set xs. value_ok d x"

abbreviation members_ok :: "nat \<Rightarrow> (string \<times> json) list \<Rightarrow> bool" where
  "members_ok d ps \<equiv> \<forall>p \<in> set ps. CHR 0x00 \<notin> set (fst p) \<and> value_ok d (snd p)"

lemma array_ok: "d < CJSON_NESTING_LIMIT \<Longrightarrow> elements_ok (Suc d) xs \<Longrightarrow> value_ok d (JArray xs)"
  using json_depth_array_le [of xs "CJSON_NESTING_LIMIT - d - 1"] by (auto simp: value_ok_def)

lemma object_ok: "d < CJSON_NESTING_LIMIT \<Longrightarrow> members_ok (Suc d) ps \<Longrightarrow> value_ok d (JObject ps)"
  using json_depth_object_le [of ps "CJSON_NESTING_LIMIT - d - 1"] by (auto simp: value_ok_def)

text \<open>The bytes that remain, the measure of the fuel.\<close>

definition rest_of :: "parse_buffer \<Rightarrow> nat" where
  "rest_of b = length (pb_content b) - pb_offset b"

text \<open>What the callees guarantee with the fuel \<open>n\<close>.\<close>

definition parses :: "nat \<Rightarrow> bool" where
  "parses n =
     (\<forall>b. buffer_ok b \<longrightarrow> pb_depth b \<le> CJSON_NESTING_LIMIT \<longrightarrow>
        (4 * rest_of b \<le> n \<longrightarrow> parsed value_ok b (parse_value n b)) \<and>
        (4 * rest_of b \<le> n + 1 \<longrightarrow> parsed value_ok b (parse_array n b)) \<and>
        (4 * rest_of b \<le> n + 1 \<longrightarrow> parsed value_ok b (parse_object n b)) \<and>
        (4 * rest_of b \<le> n + 2 \<longrightarrow> Suc (pb_offset b) < length (pb_content b) \<longrightarrow>
           parsed elements_ok b (parse_elements n b)) \<and>
        (4 * rest_of b \<le> n + 2 \<longrightarrow> Suc (pb_offset b) < length (pb_content b) \<longrightarrow>
           parsed members_ok b (parse_members n b)))"

lemma parsesD:
  assumes "parses n" and "buffer_ok b" and "pb_depth b \<le> CJSON_NESTING_LIMIT"
  shows "4 * rest_of b \<le> n \<Longrightarrow> parsed value_ok b (parse_value n b)"
    and "4 * rest_of b \<le> n + 1 \<Longrightarrow> parsed value_ok b (parse_array n b)"
    and "4 * rest_of b \<le> n + 1 \<Longrightarrow> parsed value_ok b (parse_object n b)"
    and "4 * rest_of b \<le> n + 2 \<Longrightarrow> Suc (pb_offset b) < length (pb_content b) \<Longrightarrow>
      parsed elements_ok b (parse_elements n b)"
    and "4 * rest_of b \<le> n + 2 \<Longrightarrow> Suc (pb_offset b) < length (pb_content b) \<Longrightarrow>
      parsed members_ok b (parse_members n b)"
  using assms by (auto simp: parses_def)

lemma literal_at_length:
  assumes "buffer_ok b" and "literal_at b lit" and "CHR 0x00 \<notin> set lit" and "lit \<noteq> []"
  shows "pb_offset b + length lit < length (pb_content b)"
  using assms by (intro consumed_inner) (auto simp: literal_at_def can_read_def buffer_ok_def)

lemma parse_value_step:
  assumes IH: "parses n" and b: "buffer_ok b" "pb_depth b \<le> CJSON_NESTING_LIMIT" "4 * rest_of b \<le> Suc n"
  shows "parsed value_ok b (parse_value (Suc n) b)"
proof -
  have str: "parsed value_ok b (run_bind (parse_string b) (\<lambda>(s, b'). Inr (map_option JText s, b')))"
    by (rule parsed_bind [OF parse_string_parsed [OF b(1)]])
       (auto simp: parsed_Some value_ok_def b(2))
  have num: "parsed value_ok b (parse_number b)"
    using parse_number_parsed [OF b(1)] b(2)
    by (auto simp: parsed_def value_ok_def split: sum.splits)
  have arr: "parsed value_ok b (parse_array n b)" by (rule parsesD(2) [OF IH b(1,2)]) (use b(3) in simp)
  have obj: "parsed value_ok b (parse_object n b)" by (rule parsesD(3) [OF IH b(1,2)]) (use b(3) in simp)
  have lit: "literal_at b ''null'' \<Longrightarrow> pb_offset b + 4 < length (pb_content b)"
    "literal_at b ''true'' \<Longrightarrow> pb_offset b + 4 < length (pb_content b)"
    "literal_at b ''false'' \<Longrightarrow> pb_offset b + 5 < length (pb_content b)"
    using literal_at_length [OF b(1)] by force+
  show ?thesis
    using str num arr obj b(2) lit by (simp add: parsed_Some value_ok_def)
qed

text \<open>The buffer in front of an element, and behind the blanks after a value.\<close>

lemma next_element:
  assumes "buffer_ok b" and "Suc (pb_offset b) < length (pb_content b)"
  defines "b1 \<equiv> buffer_skip_whitespace (advance 1 b)"
  shows "buffer_ok b1" and "pb_offset b < pb_offset b1" and "4 * rest_of b1 + 4 \<le> 4 * rest_of b"
proof -
  have ne: "pb_content b \<noteq> []" using assms(1) by (auto simp: buffer_ok_def)
  show "buffer_ok b1"
    unfolding b1_def using assms(1,2) ne by (intro buffer_ok_skip) (auto simp: buffer_ok_def)
  show o: "pb_offset b < pb_offset b1"
    using assms skip_offset(2) [of "advance 1 b"] ne by (auto simp: b1_def buffer_ok_def)
  show "4 * rest_of b1 + 4 \<le> 4 * rest_of b"
    using o assms(2) by (simp add: rest_of_def b1_def)
qed

lemma after_value:
  assumes "buffer_ok b" and "pb_content b1 = pb_content b" and "pb_offset b < pb_offset b1"
    and "pb_offset b1 < length (pb_content b)"
  defines "b2 \<equiv> buffer_skip_whitespace b1"
  shows "buffer_ok b2" and "pb_offset b < pb_offset b2"
    and "looking_at b2 c \<Longrightarrow> c \<noteq> CHR 0x00 \<Longrightarrow> Suc (pb_offset b2) < length (pb_content b2)"
proof -
  have ne: "pb_content b \<noteq> []" using assms(1) by (auto simp: buffer_ok_def)
  show ok: "buffer_ok b2"
    unfolding b2_def using assms(1,2,4) ne by (intro buffer_ok_skip) (auto simp: buffer_ok_def)
  have "pb_offset b1 \<le> pb_offset b2"
    unfolding b2_def using assms(2,4) ne by (intro skip_offset) auto
  with assms(3) show o: "pb_offset b < pb_offset b2" by simp
  assume "looking_at b2 c" "c \<noteq> CHR 0x00"
  then show "Suc (pb_offset b2) < length (pb_content b2)" by (rule looking_at_inner [OF ok])
qed

lemma close_inner:
  "looking_at b c \<Longrightarrow> pb_content b = t \<Longrightarrow> last t = CHR 0x00 \<Longrightarrow> c \<noteq> CHR 0x00 \<Longrightarrow>
   Suc (pb_offset b) < length t"
  by (drule sym, simp, rule looking_at_inner) (auto simp: buffer_ok_def looking_at_def can_access_at_index_def)

lemma parse_elements_step:
  assumes IH: "parses n" and b: "buffer_ok b" "pb_depth b \<le> CJSON_NESTING_LIMIT" "4 * rest_of b \<le> Suc n + 2"
    and inner: "Suc (pb_offset b) < length (pb_content b)"
  shows "parsed elements_ok b (parse_elements (Suc n) b)"
proof -
  define b1 where "b1 = buffer_skip_whitespace (advance 1 b)"
  note el = next_element [OF b(1) inner, folded b1_def]
  have d1: "pb_depth b1 = pb_depth b" "pb_content b1 = pb_content b" by (simp_all add: b1_def)
  have v: "parsed value_ok b1 (parse_value n b1)"
    by (rule parsesD(1) [OF IH el(1)]) (use b el d1 in auto)
  show ?thesis
    unfolding parse_elements.simps b1_def [symmetric]
  proof (rule parsed_bind [OF v], goal_cases)
    case (2 x b2)
    define b3 where "b3 = buffer_skip_whitespace b2"
    note av = after_value [OF el(1) 2(1,2,3), folded b3_def]
    have d3: "pb_depth b3 = pb_depth b" "pb_content b3 = pb_content b" using 2 d1 by (simp_all add: b3_def)
    show ?case
    proof (cases "looking_at b3 CHR '',''")
      case True
      then have at: "pb_offset b1 < pb_offset b3" "Suc (pb_offset b3) < length (pb_content b3)" using av(2) av(3) by auto
      have "rest_of b3 \<le> rest_of b1" using at d1 d3 by (simp add: rest_of_def)
      then have "4 * rest_of b3 \<le> n + 2" using el(3) b(3) by linarith
      then have e: "parsed elements_ok b3 (parse_elements n b3)"
        using at d3 b by (intro parsesD(4) [OF IH av(1)]) auto
      have "parsed elements_ok b (run_bind (parse_elements n b3) (\<lambda>(r, b4). Inr (map_option ((#) x) r, b4)))"
        by (rule parsed_bind [OF e]) (use 2 d1 d3 at el in \<open>auto simp: parsed_Some\<close>)
      with True show ?thesis by (simp add: b3_def [symmetric] Let_def)
    next
      case False
      with 2 d1 d3 av el show ?thesis
        by (simp add: b3_def [symmetric] Let_def parsed_Some) (simp add: buffer_ok_def)
    qed
  qed (simp add: d1)
qed

lemma parse_members_step:
  assumes IH: "parses n" and b: "buffer_ok b" "pb_depth b \<le> CJSON_NESTING_LIMIT" "4 * rest_of b \<le> Suc n + 2"
    and inner: "Suc (pb_offset b) < length (pb_content b)"
  shows "parsed members_ok b (parse_members (Suc n) b)"
proof -
  define b0 where "b0 = buffer_skip_whitespace (advance 1 b)"
  note key = next_element [OF b(1) inner, folded b0_def]
  have d0: "pb_depth b0 = pb_depth b" "pb_content b0 = pb_content b" by (simp_all add: b0_def)
  show ?thesis
    unfolding parse_members.simps b0_def [symmetric]
  proof (rule parsed_bind [OF parse_string_parsed [OF key(1)]], goal_cases)
    case (2 k b0')
    define c where "c = buffer_skip_whitespace b0'"
    note ac = after_value [OF key(1) 2(1,2,3), folded c_def]
    have dc: "pb_depth c = pb_depth b" "pb_content c = pb_content b" using 2 d0 by (simp_all add: c_def)
    show ?case
    proof (cases "looking_at c CHR '':''")
      case colon: True
      define b1 where "b1 = buffer_skip_whitespace (advance 1 c)"
      have at: "pb_offset b0 < pb_offset c" "Suc (pb_offset c) < length (pb_content c)"
        using ac(2) ac(3) colon by auto
      note el = next_element [OF ac(1) at(2), folded b1_def]
      have d1: "pb_depth b1 = pb_depth b" "pb_content b1 = pb_content b" by (simp_all add: b1_def dc)
      have r1: "rest_of b1 \<le> rest_of b0" using at el(2) d0 d1 by (simp add: rest_of_def)
      have v: "parsed value_ok b1 (parse_value n b1)"
        by (rule parsesD(1) [OF IH el(1)]) (use b key r1 d1 in auto)
      have "parsed members_ok b
          (run_bind (parse_value n b1) (\<lambda>(v, b3). case v of None \<Rightarrow> Inr (None, b3)
             | Some x \<Rightarrow> let b4 = buffer_skip_whitespace b3 in
                 if looking_at b4 CHR '','' then
                   run_bind (parse_members n b4) (\<lambda>(r, b5). Inr (map_option ((#) (k, x)) r, b5))
                 else Inr (Some [(k, x)], b4)))"
      proof (rule parsed_bind [OF v], goal_cases)
        case val: (2 x b2)
        define b3 where "b3 = buffer_skip_whitespace b2"
        note av = after_value [OF el(1) val(1,2,3), folded b3_def]
        have d3: "pb_depth b3 = pb_depth b" "pb_content b3 = pb_content b" using val d1 by (simp_all add: b3_def)
        show ?case
        proof (cases "looking_at b3 CHR '',''")
          case True
          then have at3: "pb_offset b1 < pb_offset b3" "Suc (pb_offset b3) < length (pb_content b3)" using av(2) av(3) by auto
          have "rest_of b3 \<le> rest_of b1" using at3 d1 d3 by (simp add: rest_of_def)
          then have "4 * rest_of b3 \<le> n + 2" using key(3) r1 b(3) by linarith
          then have e: "parsed members_ok b3 (parse_members n b3)"
            using at3 d3 b by (intro parsesD(5) [OF IH av(1)]) auto
          have "parsed members_ok b (run_bind (parse_members n b3) (\<lambda>(r, b4). Inr (map_option ((#) (k, x)) r, b4)))"
            by (rule parsed_bind [OF e]) (use val 2(5) d1 d3 at at3 el key in \<open>auto simp: parsed_Some\<close>)
          with True show ?thesis by (simp add: b3_def [symmetric] Let_def)
        next
          case False
          with val 2(5) d1 d3 at av el key show ?thesis
            by (simp add: b3_def [symmetric] Let_def parsed_Some) (simp add: buffer_ok_def)
        qed
      qed (simp add: d1)
      with colon show ?thesis by (simp add: c_def [symmetric] b1_def Let_def)
    next
      case False
      with 2 d0 dc show ?thesis by (simp add: c_def [symmetric] Let_def)
    qed
  qed (simp add: d0)
qed

text \<open>The first byte after an opening bracket and blanks: a full buffer, one deeper.\<close>

lemma open_bracket:
  assumes b: "buffer_ok b" "looking_at b c" "c \<noteq> CHR 0x00"
  defines "b1 \<equiv> buffer_skip_whitespace (advance 1 (deeper b))"
  shows "buffer_ok b1" "can_access_at_index b1 0" "pb_offset b < pb_offset b1"
    "buffer_ok (step_back b1)" "Suc (pb_offset (step_back b1)) < length (pb_content b)"
    "4 * rest_of (step_back b1) \<le> 4 * rest_of b" "pb_offset b \<le> pb_offset (step_back b1)"
proof -
  have inner: "Suc (pb_offset (deeper b)) < length (pb_content (deeper b))"
    using looking_at_inner [OF b] by simp
  have "buffer_ok (deeper b)" using b(1) by (simp add: buffer_ok_def)
  note el = next_element [OF this inner]
  have eq: "buffer_skip_whitespace (advance 1 (deeper b)) = b1" by (simp add: b1_def)
  show ok: "buffer_ok b1" using el(1) by (simp add: b1_def)
  show o: "pb_offset b < pb_offset b1" using el(2) by (simp add: b1_def)
  have c: "pb_content b1 = pb_content b" by (simp add: b1_def)
  show "can_access_at_index b1 0" using ok by (simp add: can_access_at_index_def buffer_ok_def)
  show "buffer_ok (step_back b1)" "Suc (pb_offset (step_back b1)) < length (pb_content b)"
    "4 * rest_of (step_back b1) \<le> 4 * rest_of b" "pb_offset b \<le> pb_offset (step_back b1)"
    using ok o c by (auto simp: buffer_ok_def rest_of_def)
qed

lemma char_neq_nul: "CHR ''['' \<noteq> CHR 0x00" "CHR ''{'' \<noteq> CHR 0x00"
  by simp_all

lemma parse_array_step:
  assumes IH: "parses n" and b: "buffer_ok b" "pb_depth b \<le> CJSON_NESTING_LIMIT" "4 * rest_of b \<le> Suc n + 1"
  shows "parsed value_ok b (parse_array (Suc n) b)"
proof -
  define b1 where "b1 = buffer_skip_whitespace (advance 1 (deeper b))"
  have c: "buffer_at b 0 = Inr (pb_content b ! pb_offset b)"
    using b(1) by (simp add: buffer_at_def can_access_at_index_def buffer_ok_def)
  have d1: "pb_depth b1 = Suc (pb_depth b)" "pb_content b1 = pb_content b" by (simp_all add: b1_def)
  show ?thesis
  proof (cases "pb_depth b < CJSON_NESTING_LIMIT \<and> pb_content b ! pb_offset b = CHR ''[''")
    case True
    then have "looking_at b CHR ''[''" using b(1) by (simp add: looking_at_def can_access_at_index_def buffer_ok_def)
    note ob = open_bracket [OF b(1) this char_neq_nul(1), folded b1_def]
    have e: "parsed elements_ok (step_back b1) (parse_elements n (step_back b1))"
      by (rule parsesD(4) [OF IH ob(4)]) (use True b ob d1 in auto)
    have "parsed value_ok b (run_bind (parse_elements n (step_back b1)) (\<lambda>(r, b2).
        case r of None \<Rightarrow> Inr (None, b2)
        | Some xs \<Rightarrow> if looking_at b2 CHR '']'' then Inr (Some (JArray xs), close_bracket b2) else Inr (None, b2)))"
      by (rule parsed_bind [OF e])
         (use True ob d1 b(1) array_ok in \<open>auto simp: parsed_Some buffer_ok_def intro: close_inner\<close>)
    with True ob d1 array_ok [of "pb_depth b" "[]"] show ?thesis
      unfolding parse_array.simps Let_def c run_bind.simps b1_def [symmetric]
      by (auto simp: parsed_Some buffer_ok_def intro: close_inner)
  next
    case False
    then show ?thesis by (auto simp: c)
  qed
qed

lemma parse_object_step:
  assumes IH: "parses n" and b: "buffer_ok b" "pb_depth b \<le> CJSON_NESTING_LIMIT" "4 * rest_of b \<le> Suc n + 1"
  shows "parsed value_ok b (parse_object (Suc n) b)"
proof -
  define b1 where "b1 = buffer_skip_whitespace (advance 1 (deeper b))"
  have d1: "pb_depth b1 = Suc (pb_depth b)" "pb_content b1 = pb_content b" by (simp_all add: b1_def)
  show ?thesis
  proof (cases "pb_depth b < CJSON_NESTING_LIMIT \<and> looking_at b CHR ''{''")
    case True
    then have "looking_at b CHR ''{''" by simp
    note ob = open_bracket [OF b(1) this char_neq_nul(2), folded b1_def]
    have e: "parsed members_ok (step_back b1) (parse_members n (step_back b1))"
      by (rule parsesD(5) [OF IH ob(4)]) (use True b ob d1 in auto)
    have "parsed value_ok b (run_bind (parse_members n (step_back b1)) (\<lambda>(r, b2).
        case r of None \<Rightarrow> Inr (None, b2)
        | Some xs \<Rightarrow> if looking_at b2 CHR ''}'' then Inr (Some (JObject xs), close_bracket b2) else Inr (None, b2)))"
      by (rule parsed_bind [OF e])
         (use True ob d1 b(1) object_ok in \<open>auto simp: parsed_Some buffer_ok_def intro: close_inner\<close>)
    with True ob d1 object_ok [of "pb_depth b" "[]"] show ?thesis
      unfolding parse_object.simps Let_def b1_def [symmetric]
      by (auto simp: parsed_Some buffer_ok_def intro: close_inner)
  next
    case False
    then show ?thesis by auto
  qed
qed

lemma parses_all: "parses n"
proof (induction n)
  case 0
  then show ?case by (auto simp: parses_def rest_of_def buffer_ok_def)
next
  case (Suc n)
  show ?case
    unfolding parses_def
    using parse_value_step [OF Suc] parse_array_step [OF Suc] parse_object_step [OF Suc]
      parse_elements_step [OF Suc] parse_members_step [OF Suc] by blast
qed

section \<open>The entry point\<close>

lemma start_buffer_props:
  "buffer_ok (start_buffer s)" "pb_content (start_buffer s) = s @ [CHR 0x00]" "pb_depth (start_buffer s) = 0"
proof -
  define b where "b = skip_utf8_bom \<lparr>pb_content = s @ [CHR 0x00], pb_offset = 0, pb_depth = 0\<rparr>"
  have b: "pb_content b = s @ [CHR 0x00]" "pb_depth b = 0" "pb_offset b \<le> length (pb_content b)"
    by (auto simp: b_def skip_utf8_bom_def can_access_at_index_def)
  then show "buffer_ok (start_buffer s)" unfolding start_buffer_def b_def [symmetric] by (intro buffer_ok_skip) auto
  show "pb_content (start_buffer s) = s @ [CHR 0x00]" "pb_depth (start_buffer s) = 0"
    using b by (simp_all add: start_buffer_def b_def)
qed

lemma parse_start: "parsed value_ok (start_buffer s) (parse_value (4 * length s + 4) (start_buffer s))"
  using start_buffer_props [of s]
  by (intro parsesD(1) [OF parses_all]) (auto simp: rest_of_def)

lemma error_position_bound: "pb_content b = s @ [CHR 0x00] \<Longrightarrow> error_position b \<le> length s"
  by (simp add: error_position_def)

text \<open>The outcomes of the entry point, in one place.\<close>

lemma parse_with_opts_cases:
  obtains (ok) j pos where "cJSON_ParseWithOpts (Some s) req = Inr (Some j, pos)" "pos \<le> length s" "value_ok 0 j"
  | (bad) pos where "cJSON_ParseWithOpts (Some s) req = Inr (None, pos)" "pos \<le> length s"
proof -
  note p = parse_start [of s] and sb = start_buffer_props [of s]
  obtain r b where m: "parse_value (4 * length s + 4) (start_buffer s) = Inr (r, b)"
    using p by (auto simp: parsed_def split: sum.splits)
  have c: "pb_content b = s @ [CHR 0x00]" using p sb by (simp add: m parsed_def)
  show ?thesis
  proof (cases r)
    case None
    with m error_position_bound [OF c] show ?thesis by (intro bad) (auto simp: cJSON_ParseWithOpts_def)
  next
    case (Some j)
    define b1 where "b1 = (if req then buffer_skip_whitespace b else b)"
    have v: "value_ok 0 j" "pb_offset b < length (pb_content b)" using p sb c by (auto simp: m Some parsed_def)
    have c1: "pb_content b1 = s @ [CHR 0x00]" using c by (simp add: b1_def)
    have o1: "pb_offset b1 < length (pb_content b1)"
      using v(2) skip_offset(1) [of b] c by (auto simp: b1_def)
    have eq: "cJSON_ParseWithOpts (Some s) req =
        (if req \<and> \<not> looking_at b1 CHR 0x00 then Inr (None, error_position b1) else Inr (Some j, pb_offset b1))"
      by (simp add: cJSON_ParseWithOpts_def m Some Let_def b1_def)
    show ?thesis
      using eq v(1) o1 c1 error_position_bound [OF c1] by (cases "req \<and> \<not> looking_at b1 CHR 0x00") (auto intro: ok bad)
  qed
qed

text \<open>
  C11: parsing any text ends, reads no byte outside it and its terminator, writes no
  byte outside the strings it allocates, and the position it reports lies in the text.\<close>

theorem cjson_parse_safe:
  "\<exists>r pos. cJSON_ParseWithOpts (Some s) require_null_terminated = Inr (r, pos) \<and> pos \<le> length s"
  by (rule parse_with_opts_cases [of s require_null_terminated]) auto

text \<open>
  C29: what the parser returns is a well-formed tree: its strings have no NUL byte, its
  numbers are doubles (infinite when the text overflows), and it nests at most
  \<open>CJSON_NESTING_LIMIT\<close> arrays and objects.\<close>

theorem cjson_parse_typed:
  assumes "cJSON_Parse (Some s) = Inr (Some j)"
  shows "json_ok is_number j \<and> json_depth j \<le> CJSON_NESTING_LIMIT"
proof (rule parse_with_opts_cases [of s False])
  fix j' pos
  assume "cJSON_ParseWithOpts (Some s) False = Inr (Some j', pos)" "value_ok 0 j'"
  with assms show ?thesis by (simp add: cJSON_Parse_def value_ok_def)
qed (use assms in \<open>simp add: cJSON_Parse_def\<close>)

theorem cjson_parse_typed_witness:
  "cJSON_Parse (Some ''[1.5]'') = Inr (Some (JArray [JNumber (3/2)])) \<and>
   json_ok is_number (JArray [JNumber (3/2)]) \<and> json_depth (JArray [JNumber (3/2)]) \<le> CJSON_NESTING_LIMIT"
proof -
  have "cJSON_Parse (Some ''[1.5]'') = Inr (Some (JArray [JNumber (3/2)]))" by code_simp
  with cjson_parse_typed [OF this] show ?thesis by blast
qed

end
