(* ===== verification/LD_CJSON_Print.thy ===== *)
theory LD_CJSON_Print
  imports LD_JSON LD_Decimal
begin

text \<open>
  The printer of c-sdk-common/src/cJSON.c over its growing \<open>printbuffer\<close>. The buffer is a
  list of bytes with the length of the allocation; a write outside it, or a scan for a
  terminator that is not there, is the fault \<open>OutOfBounds\<close>. A print function returns the
  buffer, or \<open>None\<close> for its \<open>false\<close>.

  The allocator is a parameter: whether \<open>realloc\<close> is available (\<open>LDGlobalInit\<close> installs hooks
  without it, so the printer allocates and copies), and the bytes fresh memory holds.
  Allocation succeeds.
\<close>

section \<open>The output buffer\<close>

record allocator =
  reallocates :: bool
  fresh :: "nat \<Rightarrow> char"

record printbuffer =
  po_buffer :: string
  po_offset :: nat
  po_depth :: nat
  po_noalloc :: bool
  po_format :: bool

definition INT_MAX :: nat where
  "INT_MAX = 2147483647"

definition fresh_bytes :: "allocator \<Rightarrow> nat \<Rightarrow> nat \<Rightarrow> string" where
  "fresh_bytes A n m = map (fresh A) [n..<m]"

text \<open>The new buffer: by \<open>realloc\<close>, or by copying the bytes up to the offset and one more.\<close>

definition grow :: "allocator \<Rightarrow> printbuffer \<Rightarrow> nat \<Rightarrow> printbuffer option run" where
  "grow A p newsize =
     (if reallocates A then
        Inr (Some (p\<lparr>po_buffer := po_buffer p @ fresh_bytes A (length (po_buffer p)) newsize\<rparr>))
      else if length (po_buffer p) < po_offset p + 1 then Inl OutOfBounds
      else
        Inr (Some (p\<lparr>po_buffer :=
          take (po_offset p + 1) (po_buffer p) @ fresh_bytes A (po_offset p + 1) newsize\<rparr>)))"

definition ensure :: "allocator \<Rightarrow> printbuffer \<Rightarrow> nat \<Rightarrow> printbuffer option run" where
  "ensure A p needed =
     (if 0 < length (po_buffer p) \<and> length (po_buffer p) \<le> po_offset p then Inr None
      else if INT_MAX < needed then Inr None
      else
        let needed' = needed + (po_offset p + 1) in
        if needed' \<le> length (po_buffer p) then Inr (Some p)
        else if po_noalloc p then Inr None
        else if INT_MAX div 2 < needed' then
          if needed' \<le> INT_MAX then grow A p INT_MAX else Inr None
        else grow A p (needed' * 2))"

text \<open>Bytes written at a distance from the offset.\<close>

definition put :: "nat \<Rightarrow> string \<Rightarrow> printbuffer \<Rightarrow> printbuffer run" where
  "put i cs p =
     (let k = po_offset p + i in
      if k + length cs \<le> length (po_buffer p)
      then Inr (p\<lparr>po_buffer := take k (po_buffer p) @ cs @ drop (k + length cs) (po_buffer p)\<rparr>)
      else Inl OutOfBounds)"

definition update_offset :: "printbuffer \<Rightarrow> printbuffer run" where
  "update_offset p =
     (let tail = drop (po_offset p) (po_buffer p) in
      if CHR 0x00 \<in> set tail then Inr (p\<lparr>po_offset := po_offset p + length (cstr tail)\<rparr>)
      else Inl OutOfBounds)"

abbreviation move :: "nat \<Rightarrow> printbuffer \<Rightarrow> printbuffer" where
  "move n p \<equiv> p\<lparr>po_offset := po_offset p + n\<rparr>"

text \<open>
  The idiom of the printer: reserve, write, and either leave the offset to
  \<open>update_offset\<close> or move it.
\<close>

definition write_text :: "allocator \<Rightarrow> nat \<Rightarrow> string \<Rightarrow> printbuffer \<Rightarrow> printbuffer option run" where
  "write_text A needed cs p = check (ensure A p needed) (\<lambda>q. run_bind (put 0 cs q) (\<lambda>q. Inr (Some q)))"

definition write_move :: "allocator \<Rightarrow> nat \<Rightarrow> string \<Rightarrow> nat \<Rightarrow> printbuffer \<Rightarrow> printbuffer option run" where
  "write_move A needed cs n p = check (write_text A needed cs p) (\<lambda>q. Inr (Some (move n q)))"

section \<open>Numbers\<close>

text \<open>
  The digits for a number: 15 significant ones when they read back as the same value,
  else 17; infinities as \<open>null\<close>. \<open>sscanf\<close> with \<open>%lg\<close> reads what \<open>strtod\<close> does.
\<close>

definition number_text :: "rat \<Rightarrow> string" where
  "number_text d =
     (if HUGE_VAL \<le> \<bar>d\<bar> then ''null''
      else
        let t = printf_g 15 d; (test, n) = strtod t in
        if n = 0 \<or> test \<noteq> d then printf_g 17 d else t)"

definition print_number :: "allocator \<Rightarrow> rat \<Rightarrow> printbuffer \<Rightarrow> printbuffer option run" where
  "print_number A d p =
     (let t = number_text d in
      if \<bar>d\<bar> < HUGE_VAL \<and> 26 < length (printf_g 15 d) + 1 \<or> 26 < length t + 1 then Inl OutOfBounds
      else if 25 < length t then Inr None
      else write_move A (length t + 1) (t @ [CHR 0x00]) (length t) p)"

section \<open>Strings\<close>

definition short_escape :: "char \<Rightarrow> char option" where
  "short_escape c =
     (if c = CHR 0x5C then Some CHR 0x5C
      else if c = CHR 0x22 then Some CHR 0x22
      else if c = CHR 0x08 then Some CHR ''b''
      else if c = CHR 0x0C then Some CHR ''f''
      else if c = CHR 0x0A then Some CHR ''n''
      else if c = CHR 0x0D then Some CHR ''r''
      else if c = CHR 0x09 then Some CHR ''t''
      else None)"

text \<open>The first pass: how many bytes the escapes add.\<close>

definition escape_extra :: "char \<Rightarrow> nat" where
  "escape_extra c =
     (if short_escape c \<noteq> None then 1 else if (of_char c :: nat) < 32 then 5 else 0)"

definition hex_char :: "nat \<Rightarrow> char" where
  "hex_char n = (if n < 10 then char_of (48 + n) else char_of (87 + n))"

text \<open>\<open>sprintf\<close> with \<open>u%04x\<close>, and its terminator.\<close>

definition sprintf_u04x :: "char \<Rightarrow> string" where
  "sprintf_u04x c =
     (let n = of_char c :: nat in [CHR ''u'', CHR ''0'', CHR ''0'', hex_char (n div 16), hex_char (n mod 16), CHR 0x00])"

text \<open>The second pass, writing at a distance from the offset.\<close>

fun write_escaped :: "nat \<Rightarrow> string \<Rightarrow> printbuffer \<Rightarrow> printbuffer run" where
  "write_escaped i [] p = Inr p"
| "write_escaped i (c # cs) p =
     (if 31 < (of_char c :: nat) \<and> c \<noteq> CHR 0x22 \<and> c \<noteq> CHR 0x5C then
        run_bind (put i [c] p) (write_escaped (i + 1) cs)
      else
        run_bind (put i [CHR 0x5C] p) (\<lambda>p.
          case short_escape c of
            Some e \<Rightarrow> run_bind (put (i + 1) [e] p) (write_escaped (i + 2) cs)
          | None \<Rightarrow> run_bind (put (i + 1) (sprintf_u04x c) p) (write_escaped (i + 6) cs)))"

definition print_string_ptr :: "allocator \<Rightarrow> string option \<Rightarrow> printbuffer \<Rightarrow> printbuffer option run" where
  "print_string_ptr A input p =
     (case input of
        None \<Rightarrow> write_text A 3 [CHR 0x22, CHR 0x22, CHR 0x00] p
      | Some s \<Rightarrow>
          let escape_characters = sum_list (map escape_extra s);
              output_length = length s + escape_characters
          in
          check (ensure A p (output_length + 3)) (\<lambda>q.
            run_bind (put 0 [CHR 0x22] q) (\<lambda>q.
            run_bind (if escape_characters = 0 then put 1 s q else write_escaped 1 s q) (\<lambda>q.
            run_bind (put (output_length + 1) [CHR 0x22] q) (\<lambda>q.
            run_bind (put (output_length + 2) [CHR 0x00] q) (\<lambda>q. Inr (Some q)))))))"

section \<open>Values\<close>

text \<open>The bytes that only formatted output has.\<close>

abbreviation when_format :: "printbuffer \<Rightarrow> string \<Rightarrow> string" where
  "when_format p s \<equiv> (if po_format p then s else [])"

abbreviation tabs :: "nat \<Rightarrow> string" where
  "tabs n \<equiv> replicate n CHR 0x09"

function (sequential)
  print_value :: "allocator \<Rightarrow> json \<Rightarrow> printbuffer \<Rightarrow> printbuffer option run"
  and print_elements :: "allocator \<Rightarrow> json list \<Rightarrow> printbuffer \<Rightarrow> printbuffer option run"
  and print_members :: "allocator \<Rightarrow> (string \<times> json) list \<Rightarrow> printbuffer \<Rightarrow> printbuffer option run"
where
  "print_value A JNull p = write_text A 5 (''null'' @ [CHR 0x00]) p"
| "print_value A (JBool False) p = write_text A 6 (''false'' @ [CHR 0x00]) p"
| "print_value A (JBool True) p = write_text A 5 (''true'' @ [CHR 0x00]) p"
| "print_value A (JNumber x) p = print_number A x p"
| "print_value A (JText s) p = print_string_ptr A (Some s) p"
| "print_value A (JArray xs) p =
     check (write_move A 1 ''['' 1 p) (\<lambda>p.
     check (print_elements A xs (p\<lparr>po_depth := po_depth p + 1\<rparr>)) (\<lambda>p.
     check (write_text A 2 ('']'' @ [CHR 0x00]) p) (\<lambda>p.
       Inr (Some (p\<lparr>po_depth := po_depth p - 1\<rparr>)))))"
| "print_value A (JObject ps) p =
     (let len = (if po_format p then 2 else 1) in
      check (write_move A (len + 1) (''{'' @ when_format p [CHR 0x0A]) len p) (\<lambda>p.
      check (print_members A ps (p\<lparr>po_depth := po_depth p + 1\<rparr>)) (\<lambda>p.
      check (write_text A (if po_format p then po_depth p + 1 else 2)
               (when_format p (tabs (po_depth p - 1)) @ ''}'' @ [CHR 0x00]) p) (\<lambda>p.
        Inr (Some (p\<lparr>po_depth := po_depth p - 1\<rparr>))))))"
| "print_elements A [] p = Inr (Some p)"
| "print_elements A (x # xs) p =
     check (print_value A x p) (\<lambda>p.
     run_bind (update_offset p) (\<lambda>p.
       if xs = [] then print_elements A xs p
       else
         let len = (if po_format p then 2 else 1) in
         check (write_move A (len + 1) ('','' @ when_format p '' '' @ [CHR 0x00]) len p)
           (print_elements A xs)))"
| "print_members A [] p = Inr (Some p)"
| "print_members A ((key, x) # ps) p =
     check (if po_format p then write_move A (po_depth p) (tabs (po_depth p)) (po_depth p) p
            else Inr (Some p)) (\<lambda>p.
     check (print_string_ptr A (Some key) p) (\<lambda>p.
     run_bind (update_offset p) (\<lambda>p.
     let len = (if po_format p then 2 else 1) in
     check (write_move A len ('':'' @ when_format p [CHR 0x09]) len p) (\<lambda>p.
     check (print_value A x p) (\<lambda>p.
     run_bind (update_offset p) (\<lambda>p.
     let len = (if po_format p then 1 else 0) + (if ps \<noteq> [] then 1 else 0) in
     check (write_move A (len + 1)
              ((if ps \<noteq> [] then '','' else []) @ when_format p [CHR 0x0A] @ [CHR 0x00]) len p)
       (print_members A ps)))))))"
  by pat_completeness auto
termination
  by (relation "measure (\<lambda>s. case s of
        Inl (A, j, p) \<Rightarrow> size j
      | Inr (Inl (A, xs, p)) \<Rightarrow> size_list size xs
      | Inr (Inr (A, ps, p)) \<Rightarrow> size_list (size_prod (\<lambda>_. 0) size) ps)") auto

section \<open>Entry points\<close>

definition print :: "allocator \<Rightarrow> json \<Rightarrow> bool \<Rightarrow> string option run" where
  "print A item fmt =
     (let p = \<lparr>po_buffer = fresh_bytes A 0 256, po_offset = 0, po_depth = 0, po_noalloc = False, po_format = fmt\<rparr> in
      check (print_value A item p) (\<lambda>p.
      run_bind (update_offset p) (\<lambda>p.
        let n = po_offset p in
        if reallocates A then Inr (Some (cstr (take (n + 1) (po_buffer p))))
        else Inr (Some (cstr (take n (po_buffer p) @ [CHR 0x00]))))))"

definition cJSON_Print :: "allocator \<Rightarrow> json \<Rightarrow> string option run" where
  "cJSON_Print A item = print A item True"

definition cJSON_PrintUnformatted :: "allocator \<Rightarrow> json \<Rightarrow> string option run" where
  "cJSON_PrintUnformatted A item = print A item False"

definition cJSON_PrintBuffered :: "allocator \<Rightarrow> json \<Rightarrow> int \<Rightarrow> bool \<Rightarrow> string option run" where
  "cJSON_PrintBuffered A item prebuffer fmt =
     (if prebuffer < 0 then Inr None
      else
        check (print_value A item \<lparr>po_buffer = fresh_bytes A 0 (nat prebuffer), po_offset = 0,
          po_depth = 0, po_noalloc = False, po_format = fmt\<rparr>) (\<lambda>p. Inr (Some (cstr (po_buffer p)))))"

text \<open>The caller's buffer after the call, and the result.\<close>

definition cJSON_PrintPreallocated :: "allocator \<Rightarrow> json \<Rightarrow> string option \<Rightarrow> bool \<Rightarrow> string option run" where
  "cJSON_PrintPreallocated A item buf fmt =
     (case buf of
        None \<Rightarrow> Inr None
      | Some b \<Rightarrow>
          check (print_value A item \<lparr>po_buffer = b, po_offset = 0, po_depth = 0,
            po_noalloc = True, po_format = fmt\<rparr>) (\<lambda>p. Inr (Some (po_buffer p))))"

definition LDJSONSerialize :: "allocator \<Rightarrow> json option \<Rightarrow> string option run" where
  "LDJSONSerialize A j = (case j of None \<Rightarrow> Inr None | Some item \<Rightarrow> cJSON_PrintUnformatted A item)"

end
