(* ===== verification/LD_CJSON_Print_Laws.thy ===== *)
theory LD_CJSON_Print_Laws
  imports LD_CJSON_Print LD_Decimal_Laws
begin

text \<open>
  The printer against a specification: the text of a tree as a function of the tree. The
  refinement shows that the code with its growing buffer computes that text, never writes
  outside the buffer, and fails only for outputs that approach \<open>INT_MAX\<close> bytes.
\<close>

section \<open>The text of a tree\<close>

definition escape_char :: "char \<Rightarrow> string" where
  "escape_char c =
     (case short_escape c of
        Some e \<Rightarrow> [CHR 0x5C, e]
      | None \<Rightarrow> if (of_char c :: nat) < 32 then CHR 0x5C # butlast (sprintf_u04x c) else [c])"

definition quoted :: "string \<Rightarrow> string" where
  "quoted s = CHR 0x22 # concat (map escape_char s) @ [CHR 0x22]"

function (sequential)
  json_text :: "bool \<Rightarrow> nat \<Rightarrow> json \<Rightarrow> string"
  and elements_text :: "bool \<Rightarrow> nat \<Rightarrow> json list \<Rightarrow> string"
  and members_text :: "bool \<Rightarrow> nat \<Rightarrow> (string \<times> json) list \<Rightarrow> string"
where
  "json_text fmt d JNull = ''null''"
| "json_text fmt d (JBool b) = (if b then ''true'' else ''false'')"
| "json_text fmt d (JNumber x) = number_text x"
| "json_text fmt d (JText s) = quoted s"
| "json_text fmt d (JArray xs) = ''['' @ elements_text fmt (d + 1) xs @ '']''"
| "json_text fmt d (JObject ps) =
     ''{'' @ (if fmt then [CHR 0x0A] else []) @ members_text fmt (d + 1) ps @
     (if fmt then tabs d else []) @ ''}''"
| "elements_text fmt d [] = []"
| "elements_text fmt d (x # xs) =
     json_text fmt d x @
     (if xs = [] then [] else '','' @ (if fmt then '' '' else [])) @ elements_text fmt d xs"
| "members_text fmt d [] = []"
| "members_text fmt d ((k, x) # ps) =
     (if fmt then tabs d else []) @ quoted k @ '':'' @ (if fmt then [CHR 0x09] else []) @
     json_text fmt d x @ (if ps = [] then [] else '','') @ (if fmt then [CHR 0x0A] else []) @
     members_text fmt d ps"
  by pat_completeness auto
termination
  by (relation "measure (\<lambda>s. case s of
        Inl (f, d, j) \<Rightarrow> size j
      | Inr (Inl (f, d, xs)) \<Rightarrow> size_list size xs
      | Inr (Inr (f, d, ps)) \<Rightarrow> size_list (size_prod (\<lambda>_. 0) size) ps)") auto

section \<open>States of the buffer\<close>

text \<open>\<open>pre\<close> has been written and the offset is behind it, inside the buffer.\<close>

definition wrote :: "string \<Rightarrow> printbuffer \<Rightarrow> bool" where
  "wrote pre p =
     (po_offset p = length pre \<and> take (length pre) (po_buffer p) = pre \<and>
      length pre < length (po_buffer p) \<and> \<not> po_noalloc p)"

text \<open>\<open>t\<close> has been written behind \<open>pre\<close> with its terminator; the offset is somewhere in it.\<close>

definition awaiting :: "string \<Rightarrow> string \<Rightarrow> printbuffer \<Rightarrow> bool" where
  "awaiting pre t p =
     ((\<exists>i \<le> length t. po_offset p = length pre + i) \<and>
      (\<exists>rest. po_buffer p = pre @ t @ CHR 0x00 # rest) \<and> \<not> po_noalloc p)"

text \<open>What the operations leave alone.\<close>

definition same_style :: "printbuffer \<Rightarrow> printbuffer \<Rightarrow> bool" where
  "same_style p q = (po_depth q = po_depth p \<and> po_format q = po_format p)"

lemma same_style_refl [simp]: "same_style p p"
  by (simp add: same_style_def)

lemma same_style_trans: "same_style p q \<Longrightarrow> same_style q r \<Longrightarrow> same_style p r"
  by (simp add: same_style_def)

lemma length_fresh_bytes [simp]: "length (fresh_bytes A n m) = m - n"
  by (simp add: fresh_bytes_def)

lemma grow_ok:
  assumes "wrote pre p" and "length pre + 1 \<le> n"
  shows "\<exists>q. grow A p n = Inr (Some q) \<and> wrote pre q \<and> same_style p q \<and>
    (n \<le> length (po_buffer q) \<or> length (po_buffer p) > n)"
  using assms
  by (auto simp: grow_def wrote_def same_style_def take_append)

text \<open>Reserving \<open>n\<close> bytes gives \<open>n + 1\<close>.\<close>

lemma ensure_ok:
  assumes "wrote pre p" and "n + length pre + 1 \<le> INT_MAX"
  shows "\<exists>q. ensure A p n = Inr (Some q) \<and> wrote pre q \<and> same_style p q \<and>
    length pre + n + 1 \<le> length (po_buffer q)"
proof (cases "n + length pre + 1 \<le> length (po_buffer p)")
  case True
  with assms show ?thesis by (auto simp: ensure_def wrote_def Let_def)
next
  case False
  define m where "m = (if INT_MAX div 2 < n + length pre + 1 then INT_MAX else (n + length pre + 1) * 2)"
  have m: "n + length pre + 1 \<le> m" using assms(2) by (simp add: m_def)
  have "ensure A p n = grow A p m"
    using assms False by (auto simp: ensure_def wrote_def Let_def m_def)
  with grow_ok [OF assms(1), of m A] m False show ?thesis by auto
qed

lemma put_ok:
  assumes "wrote pre p" and "length pre + length t + 1 \<le> length (po_buffer p)"
  shows "\<exists>q. put 0 (t @ [CHR 0x00]) p = Inr q \<and> awaiting pre t q \<and> po_offset q = length pre \<and> same_style p q"
  using assms by (auto simp: put_def wrote_def awaiting_def same_style_def Let_def)

lemma put_move_ok:
  assumes "wrote pre p" and "length pre + length t + 1 \<le> length (po_buffer p)" and "u = [] \<or> u = [CHR 0x00]"
  shows "\<exists>q. put 0 (t @ u) p = Inr q \<and> wrote (pre @ t) (move (length t) q) \<and> same_style p q"
  using assms by (auto simp: put_def wrote_def same_style_def Let_def)

lemma write_text_ok:
  assumes "wrote pre p" and "length t \<le> n" and "n + length pre + 1 \<le> INT_MAX"
  shows "\<exists>q. write_text A n (t @ [CHR 0x00]) p = Inr (Some q) \<and> awaiting pre t q \<and>
    po_offset q = length pre \<and> same_style p q"
proof -
  obtain q where q: "ensure A p n = Inr (Some q)" "wrote pre q" "same_style p q"
      "length pre + n + 1 \<le> length (po_buffer q)" using ensure_ok [OF assms(1,3)] by blast
  have "length pre + length t + 1 \<le> length (po_buffer q)" using q(4) assms(2) by simp
  from put_ok [OF q(2) this] q show ?thesis by (auto simp: write_text_def intro: same_style_trans)
qed

lemma write_move_ok:
  assumes "wrote pre p" and "length t \<le> n" and "n + length pre + 1 \<le> INT_MAX"
    and "u = [] \<or> u = [CHR 0x00]" and "k = length t"
  shows "\<exists>q. write_move A n (t @ u) k p = Inr (Some q) \<and> wrote (pre @ t) q \<and> same_style p q"
proof -
  obtain q where q: "ensure A p n = Inr (Some q)" "wrote pre q" "same_style p q"
      "length pre + n + 1 \<le> length (po_buffer q)" using ensure_ok [OF assms(1,3)] by blast
  have "length pre + length t + 1 \<le> length (po_buffer q)" using q(4) assms(2) by simp
  from put_move_ok [OF q(2) this assms(4)] obtain r where
    r: "put 0 (t @ u) q = Inr r" "wrote (pre @ t) (move (length t) r)" "same_style q r" by blast
  have "same_style p (move (length t) r)" using q(3) r(3) by (simp add: same_style_def)
  with q r assms(5) show ?thesis by (simp add: write_move_def write_text_def)
qed

lemma update_offset_ok:
  assumes "awaiting pre t p" and "CHR 0x00 \<notin> set t"
  shows "\<exists>q. update_offset p = Inr q \<and> wrote (pre @ t) q \<and> same_style p q \<and> po_buffer q ! po_offset q = CHR 0x00"
proof -
  from assms(1) obtain i rest where i: "i \<le> length t" "po_offset p = length pre + i"
    "po_buffer p = pre @ t @ CHR 0x00 # rest" "\<not> po_noalloc p" by (auto simp: awaiting_def)
  have d: "drop (po_offset p) (po_buffer p) = drop i t @ CHR 0x00 # rest" using i by simp
  have c: "cstr (drop i t @ CHR 0x00 # rest) = drop i t"
    using assms(2) by (intro cstr_append) (auto dest: in_set_dropD)
  show ?thesis using i by (simp add: update_offset_def d c Let_def wrote_def same_style_def nth_append)
qed

section \<open>Numbers\<close>

lemma number_text_double:
  assumes "is_double x"
  shows "strtod (number_text x) = (x, length (number_text x))"
    and "\<exists>P. 0 < P \<and> P \<le> 17 \<and> number_text x = printf_g P x"
proof -
  have fin: "\<not> HUGE_VAL \<le> \<bar>x\<bar>" using assms by (simp add: is_double_def)
  obtain y n where t: "strtod (printf_g 15 x) = (y, n)" by fastforce
  have n: "n = length (printf_g 15 x)"
  proof (cases "x = 0")
    case False
    obtain m X where "decimal_round 15 \<bar>x\<bar> = (m, X)" by fastforce
    from strtod_printf_g [OF False _ this] t show ?thesis by simp
  next
    case True
    with t show ?thesis
      by (simp add: printf_g_def strtod_def read_sign_def read_exponent_def)
  qed
  show "strtod (number_text x) = (x, length (number_text x))"
    using fin t n printf_g_17 [OF assms] by (auto simp: number_text_def Let_def)
  show "\<exists>P. 0 < P \<and> P \<le> 17 \<and> number_text x = printf_g P x"
    using fin t by (cases "n = 0 \<or> y \<noteq> x")
      (auto simp: number_text_def Let_def intro: exI [of _ 15] exI [of _ 17])
qed

lemma number_text_infinite: "\<not> is_double x \<Longrightarrow> is_number x \<Longrightarrow> number_text x = ''null''"
  by (simp add: is_number_def number_text_def)

lemma number_text_chars:
  assumes "is_number x"
  shows "length (number_text x) \<le> 24" and "CHR 0x00 \<notin> set (number_text x)"
proof -
  show "length (number_text x) \<le> 24"
    using assms number_text_double(2) [of x] length_printf_g [of x] number_text_infinite [of x]
    by (cases "is_double x") auto
  show "CHR 0x00 \<notin> set (number_text x)"
  proof (cases "is_double x")
    case True
    then obtain P where "0 < P" "number_text x = printf_g P x" using number_text_double(2) by blast
    with printf_g_chars [of P x] show ?thesis by (auto simp: number_char_def is_digit_def)
  qed (use assms in \<open>simp add: number_text_infinite\<close>)
qed

text \<open>What a print function does for a value whose text is \<open>t\<close>.\<close>

definition prints :: "(printbuffer \<Rightarrow> printbuffer option run) \<Rightarrow> (bool \<Rightarrow> nat \<Rightarrow> string) \<Rightarrow> bool" where
  "prints f txt =
     (\<forall>pre p. wrote pre p \<longrightarrow> length pre + length (txt (po_format p) (po_depth p)) + 2 \<le> INT_MAX \<longrightarrow>
        (\<exists>q. f p = Inr (Some q) \<and> awaiting pre (txt (po_format p) (po_depth p)) q \<and> same_style p q))"

lemma printsI:
  assumes "\<And>pre p. wrote pre p \<Longrightarrow> length pre + length (txt (po_format p) (po_depth p)) + 2 \<le> INT_MAX \<Longrightarrow>
    \<exists>q. f p = Inr (Some q) \<and> awaiting pre (txt (po_format p) (po_depth p)) q \<and> same_style p q"
  shows "prints f txt"
  using assms by (simp add: prints_def)

lemma print_literal:
  "prints (write_text A (Suc (length t)) (t @ [CHR 0x00])) (\<lambda>_ _. t)"
proof (rule printsI)
  fix pre p
  assume "wrote pre p" "length pre + length t + 2 \<le> INT_MAX"
  with write_text_ok [of pre p t "Suc (length t)" A]
  show "\<exists>q. write_text A (Suc (length t)) (t @ [CHR 0x00]) p = Inr (Some q) \<and> awaiting pre t q \<and> same_style p q"
    by auto
qed

lemma print_number_ok:
  assumes "is_number x"
  shows "prints (print_number A x) (\<lambda>_ _. number_text x)"
proof (rule printsI)
  fix pre p
  let ?t = "number_text x"
  assume w: "wrote pre p" and small: "length pre + length ?t + 2 \<le> INT_MAX"
  have len: "length ?t \<le> 24" by (rule number_text_chars(1) [OF assms])
  have "\<bar>x\<bar> < HUGE_VAL \<Longrightarrow> length (printf_g 15 x) \<le> 24"
    using assms length_printf_g [of x 15] by (auto simp: is_number_def)
  with len have eq: "print_number A x p = write_move A (length ?t + 1) (?t @ [CHR 0x00]) (length ?t) p"
    by (auto simp: print_number_def Let_def)
  obtain q where q: "write_text A (length ?t + 1) (?t @ [CHR 0x00]) p = Inr (Some q)"
    "awaiting pre ?t q" "po_offset q = length pre" "same_style p q"
    using write_text_ok [OF w, of ?t "length ?t + 1" A] small by auto
  then show "\<exists>q. print_number A x p = Inr (Some q) \<and> awaiting pre ?t q \<and> same_style p q"
    unfolding eq write_move_def by (auto simp: awaiting_def same_style_def)
qed

section \<open>Strings\<close>

lemma length_escape_char: "length (escape_char c) = Suc (escape_extra c)"
  by (auto simp: escape_char_def escape_extra_def sprintf_u04x_def Let_def split: option.split)

lemma length_escaped: "length (concat (map escape_char s)) = length s + sum_list (map escape_extra s)"
  by (induction s) (simp_all add: length_escape_char)

lemma escaped_id: "sum_list (map escape_extra s) = 0 \<Longrightarrow> concat (map escape_char s) = s"
  by (induction s) (auto simp: escape_char_def escape_extra_def split: if_splits)

lemma of_hex_char: "n < 16 \<Longrightarrow> (of_char (hex_char n) :: nat) = (if n < 10 then 48 + n else 87 + n)"
  by (simp add: hex_char_def)

lemma hex_char_nul: "n < 16 \<Longrightarrow> hex_char n \<noteq> CHR 0x00"
  using of_hex_char [of n] by (auto split: if_splits)

lemma escape_char_nul: "c \<noteq> CHR 0x00 \<Longrightarrow> CHR 0x00 \<notin> set (escape_char c)"
  using hex_char_nul [of "of_char c div 16"] less_mult_imp_div_less [of "of_char c" 16 16] hex_char_nul [of "of_char c mod 16"]
  by (auto simp: escape_char_def short_escape_def sprintf_u04x_def Let_def split: option.splits if_splits)

lemma escaped_nul: "CHR 0x00 \<notin> set s \<Longrightarrow> CHR 0x00 \<notin> set (concat (map escape_char s))"
  by (induction s) (auto simp: escape_char_nul)

lemma quoted_nul: "CHR 0x00 \<notin> set s \<Longrightarrow> CHR 0x00 \<notin> set (quoted s)"
  using escaped_nul [of s] by (auto simp: quoted_def)

text \<open>The buffer starts with \<open>ts\<close>.\<close>

definition filled :: "string \<Rightarrow> printbuffer \<Rightarrow> bool" where
  "filled ts p = (take (length ts) (po_buffer p) = ts \<and> length ts \<le> length (po_buffer p))"

definition same_place :: "printbuffer \<Rightarrow> printbuffer \<Rightarrow> bool" where
  "same_place p q =
     (same_style p q \<and> po_offset q = po_offset p \<and> po_noalloc q = po_noalloc p \<and>
      length (po_buffer q) = length (po_buffer p))"

lemma put_filled:
  assumes "filled ts p" and "length ts = po_offset p + i" and "length ts + length (t @ u) \<le> length (po_buffer p)"
  shows "\<exists>q. put i (t @ u) p = Inr q \<and> filled (ts @ t) q \<and> same_place p q"
  using assms by (auto simp: put_def filled_def same_place_def same_style_def Let_def)

lemma same_place_trans: "same_place p q \<Longrightarrow> same_place q r \<Longrightarrow> same_place p r"
  by (auto simp: same_place_def same_style_def)

text \<open>The second pass writes the escaped text; the terminator of \<open>sprintf\<close> needs one byte more.\<close>

lemma write_escaped_filled:
  assumes "filled ts p" and "length ts = po_offset p + i"
    and "length ts + length (concat (map escape_char s)) + 1 \<le> length (po_buffer p)"
  shows "\<exists>q. write_escaped i s p = Inr q \<and> filled (ts @ concat (map escape_char s)) q \<and> same_place p q"
  using assms
proof (induction s arbitrary: i ts p)
  case (Cons c s)
  define e where "e = concat (map escape_char s)"
  have next_step: "\<exists>r. write_escaped j s q = Inr r \<and> filled (us @ e) r \<and> same_place p r"
    if "filled us q" "length us = po_offset q + j" "length us + length e + 1 \<le> length (po_buffer q)" "same_place p q"
    for us q j
    using Cons.IH [OF that(1,2)] that(3,4) by (auto simp: e_def dest: same_place_trans)
  consider (plain) "31 < (of_char c :: nat)" "c \<noteq> CHR 0x22" "c \<noteq> CHR 0x5C" "escape_char c = [c]"
    | (short) x where "\<not> (31 < (of_char c :: nat) \<and> c \<noteq> CHR 0x22 \<and> c \<noteq> CHR 0x5C)"
        "short_escape c = Some x" "escape_char c = [CHR 0x5C, x]"
    | (long) "\<not> (31 < (of_char c :: nat) \<and> c \<noteq> CHR 0x22 \<and> c \<noteq> CHR 0x5C)"
        "short_escape c = None" "escape_char c = CHR 0x5C # butlast (sprintf_u04x c)"
    by (fastforce simp: escape_char_def short_escape_def split: option.splits if_splits)
  then show ?case
  proof cases
    case plain
    with Cons.prems put_filled [of ts p i "[c]" "[]"] obtain q where
      q: "put i [c] p = Inr q" "filled (ts @ [c]) q" "same_place p q" by auto
    with plain Cons.prems next_step [OF q(2), of "i + 1"] show ?thesis
      by (auto simp: e_def [symmetric] same_place_def)
  next
    case short
    with Cons.prems put_filled [of ts p i "[CHR 0x5C]" "[]"] obtain q where
      q: "put i [CHR 0x5C] p = Inr q" "filled (ts @ [CHR 0x5C]) q" "same_place p q" by auto
    with short Cons.prems put_filled [OF q(2), of "i + 1" "[x]" "[]"] obtain r where
      r: "put (i + 1) [x] q = Inr r" "filled (ts @ [CHR 0x5C, x]) r" "same_place q r"
      by (auto simp: same_place_def)
    with q short Cons.prems next_step [OF r(2), of "i + 2"] show ?thesis
      by (auto simp: e_def [symmetric] same_place_def same_style_def)
  next
    case long
    define u where "u = butlast (sprintf_u04x c)"
    have su: "sprintf_u04x c = u @ [CHR 0x00]" "length u = 5" by (simp_all add: u_def sprintf_u04x_def Let_def)
    with long Cons.prems put_filled [of ts p i "[CHR 0x5C]" "[]"] obtain q where
      q: "put i [CHR 0x5C] p = Inr q" "filled (ts @ [CHR 0x5C]) q" "same_place p q" by (auto simp: u_def [symmetric])
    with long Cons.prems su put_filled [OF q(2), of "i + 1" u "[CHR 0x00]"] obtain r where
      r: "put (i + 1) (sprintf_u04x c) q = Inr r" "filled (ts @ CHR 0x5C # u) r" "same_place q r"
      by (auto simp: same_place_def u_def [symmetric])
    with q long su Cons.prems next_step [OF r(2), of "i + 6"] show ?thesis
      by (auto simp: e_def [symmetric] same_place_def same_style_def u_def [symmetric])
  qed
qed (simp add: same_place_def)

lemma print_string_ok:
  "prints (print_string_ptr A (Some s)) (\<lambda>_ _. quoted s)"
proof (rule printsI)
  fix pre p
  assume w: "wrote pre p" and small: "length pre + length (quoted s) + 2 \<le> INT_MAX"
  define e where "e = concat (map escape_char s)"
  define n where "n = length s + sum_list (map escape_extra s)"
  have len: "length e = n" by (simp add: e_def n_def length_escaped)
  obtain q where q: "ensure A p (n + 3) = Inr (Some q)" "wrote pre q" "same_style p q"
      "length pre + (n + 3) + 1 \<le> length (po_buffer q)"
    using ensure_ok [OF w, of "n + 3" A] small by (auto simp: quoted_def e_def [symmetric] len)
  have f: "filled pre q" "po_offset q = length pre" using q(2) by (auto simp: wrote_def filled_def)
  obtain q1 where q1: "put 0 [CHR 0x22] q = Inr q1" "filled (pre @ [CHR 0x22]) q1" "same_place q q1"
    using put_filled [OF f(1), of 0 "[CHR 0x22]" "[]"] f q by auto
  have o1: "po_offset q1 = length pre" "length (po_buffer q1) = length (po_buffer q)" using q1(3) f by (auto simp: same_place_def)
  obtain q2 where q2: "(if sum_list (map escape_extra s) = 0 then put 1 s q1 else write_escaped 1 s q1) = Inr q2"
      "filled (pre @ CHR 0x22 # e) q2" "same_place q1 q2"
  proof (cases "sum_list (map escape_extra s) = 0")
    case True
    with put_filled [OF q1(2), of 1 s "[]"] o1 q len escaped_id [OF True] show ?thesis
      by (auto simp: n_def e_def intro: that)
  next
    case False
    have "\<exists>r. write_escaped 1 s q1 = Inr r \<and> filled ((pre @ [CHR 0x22]) @ e) r \<and> same_place q1 r"
      unfolding e_def using o1 q(4) len by (intro write_escaped_filled q1) (simp_all add: e_def)
    then obtain r where "write_escaped 1 s q1 = Inr r" "filled (pre @ CHR 0x22 # e) r" "same_place q1 r" by auto
    with False show ?thesis by (intro that [of r]) auto
  qed
  have o2: "po_offset q2 = length pre" "length (po_buffer q2) = length (po_buffer q)" using q2(3) o1 by (auto simp: same_place_def)
  obtain q3 where q3: "put (n + 1) [CHR 0x22] q2 = Inr q3" "filled (pre @ quoted s) q3" "same_place q2 q3"
    using put_filled [OF q2(2), of "n + 1" "[CHR 0x22]" "[]"] o2 q len by (auto simp: quoted_def e_def)
  have o3: "po_offset q3 = length pre" "length (po_buffer q3) = length (po_buffer q)" using q3(3) o2 by (auto simp: same_place_def)
  obtain q4 where q4: "put (n + 2) [CHR 0x00] q3 = Inr q4" "filled ((pre @ quoted s) @ [CHR 0x00]) q4" "same_place q3 q4"
    using put_filled [OF q3(2), of "n + 2" "[CHR 0x00]" "[]"] o3 q len by (auto simp: quoted_def e_def [symmetric])
  have "po_buffer q4 = (pre @ quoted s @ [CHR 0x00]) @ drop (length (pre @ quoted s @ [CHR 0x00])) (po_buffer q4)"
    using q4(2) append_take_drop_id [of "length (pre @ quoted s @ [CHR 0x00])" "po_buffer q4"] by (simp add: filled_def)
  moreover have "\<not> po_noalloc q4" "po_offset q4 = length pre" "same_style p q4"
    using q q1(3) q2(3) q3(3) q4(3) o3 by (auto simp: wrote_def same_place_def same_style_def)
  ultimately have "awaiting pre (quoted s) q4" by (auto simp: awaiting_def)
  with q q1 q2 q3 q4 \<open>same_style p q4\<close>
  show "\<exists>q. print_string_ptr A (Some s) p = Inr (Some q) \<and> awaiting pre (quoted s) q \<and> same_style p q"
    by (simp add: print_string_ptr_def Let_def n_def [symmetric])
qed

section \<open>Values\<close>

text \<open>The trees the printer can render: their strings are C strings, their numbers doubles.\<close>

abbreviation printable :: "json \<Rightarrow> bool" where
  "printable \<equiv> json_ok is_number"

lemma tabs_nul [simp]: "CHR 0x00 \<notin> set (tabs n)"
  by simp

lemma text_nul:
  "printable j \<Longrightarrow> CHR 0x00 \<notin> set (json_text fmt d j)"
  "\<forall>x \<in> set xs. printable x \<Longrightarrow> CHR 0x00 \<notin> set (elements_text fmt d xs)"
  "\<forall>p \<in> set ps. CHR 0x00 \<notin> set (fst p) \<and> printable (snd p) \<Longrightarrow> CHR 0x00 \<notin> set (members_text fmt d ps)"
  by (induction fmt d j and fmt d xs and fmt d ps rule: json_text_elements_text_members_text.induct)
     (auto simp: number_text_chars(2) quoted_nul)

text \<open>A value followed by \<open>update_offset\<close>.\<close>

lemma print_update:
  assumes "prints f txt" and "CHR 0x00 \<notin> set (txt (po_format p) (po_depth p))" and "wrote pre p"
    and "length pre + length (txt (po_format p) (po_depth p)) + 2 \<le> INT_MAX"
  shows "\<exists>q r. f p = Inr (Some q) \<and> update_offset q = Inr r \<and>
    wrote (pre @ txt (po_format p) (po_depth p)) r \<and> same_style p r \<and> po_buffer r ! po_offset r = CHR 0x00"
proof -
  from assms obtain q where q: "f p = Inr (Some q)" "awaiting pre (txt (po_format p) (po_depth p)) q" "same_style p q"
    unfolding prints_def by blast
  from update_offset_ok [OF q(2) assms(2)] q show ?thesis by (auto intro: same_style_trans)
qed

text \<open>What a loop over children does.\<close>

definition writes :: "(printbuffer \<Rightarrow> printbuffer option run) \<Rightarrow> (bool \<Rightarrow> nat \<Rightarrow> string) \<Rightarrow> bool" where
  "writes f txt =
     (\<forall>pre p. wrote pre p \<longrightarrow> length pre + length (txt (po_format p) (po_depth p)) + 2 \<le> INT_MAX \<longrightarrow>
        (\<exists>q. f p = Inr (Some q) \<and> wrote (pre @ txt (po_format p) (po_depth p)) q \<and> same_style p q))"

lemma writesD:
  "writes f txt \<Longrightarrow> wrote pre p \<Longrightarrow> length pre + length (txt (po_format p) (po_depth p)) + 2 \<le> INT_MAX \<Longrightarrow>
   \<exists>q. f p = Inr (Some q) \<and> wrote (pre @ txt (po_format p) (po_depth p)) q \<and> same_style p q"
  by (simp add: writes_def)

lemma print_elements_step:
  assumes x: "prints (print_value A x) (\<lambda>f d. json_text f d x)" "printable x"
    and xs: "writes (print_elements A xs) (\<lambda>f d. elements_text f d xs)"
  shows "writes (print_elements A (x # xs)) (\<lambda>f d. elements_text f d (x # xs))"
  unfolding writes_def
proof (intro allI impI)
  fix pre and p :: printbuffer
  let ?f = "po_format p" and ?d = "po_depth p"
  let ?x = "json_text ?f ?d x" and ?sep = "'','' @ (if ?f then '' '' else [])"
  assume w: "wrote pre p" and small: "length pre + length (elements_text ?f ?d (x # xs)) + 2 \<le> INT_MAX"
  have "length pre + length ?x + 2 \<le> INT_MAX" using small by simp
  from print_update [OF x(1) _ w] this text_nul(1) [OF x(2)] obtain q r where
    r: "print_value A x p = Inr (Some q)" "update_offset q = Inr r" "wrote (pre @ ?x) r" "same_style p r" by blast
  show "\<exists>q. print_elements A (x # xs) p = Inr (Some q) \<and>
      wrote (pre @ elements_text ?f ?d (x # xs)) q \<and> same_style p q"
  proof (cases "xs = []")
    case True
    with r show ?thesis by simp
  next
    case False
    have st: "po_format r = ?f" "po_depth r = ?d" using r(4) by (simp_all add: same_style_def)
    obtain s where s: "write_move A ((if ?f then 2 else 1) + 1) (?sep @ [CHR 0x00]) (if ?f then 2 else 1) r = Inr (Some s)"
        "wrote ((pre @ ?x) @ ?sep) s" "same_style r s"
      using write_move_ok [OF r(3), of ?sep "(if ?f then 2 else 1) + 1" "[CHR 0x00]" "if ?f then 2 else 1" A] small False
      by (cases ?f) auto
    have st': "po_format s = ?f" "po_depth s = ?d" using s(3) st by (simp_all add: same_style_def)
    from writesD [OF xs s(2)] small False obtain t where
      "print_elements A xs s = Inr (Some t)" "wrote (((pre @ ?x) @ ?sep) @ elements_text ?f ?d xs) t" "same_style s t"
      by (auto simp: st')
    with r s st False show ?thesis by (auto simp: Let_def intro: same_style_trans)
  qed
qed

lemma print_members_step:
  assumes x: "prints (print_value A x) (\<lambda>f d. json_text f d x)" "printable x" "CHR 0x00 \<notin> set k"
    and ps: "writes (print_members A ps) (\<lambda>f d. members_text f d ps)"
  shows "writes (print_members A ((k, x) # ps)) (\<lambda>f d. members_text f d ((k, x) # ps))"
  unfolding writes_def
proof (intro allI impI)
  fix pre and p :: printbuffer
  let ?f = "po_format p" and ?d = "po_depth p"
  let ?x = "json_text ?f ?d x" and ?tabs = "if ?f then tabs ?d else []"
    and ?colon = "'':'' @ (if ?f then [CHR 0x09] else [])"
    and ?sep = "(if ps = [] then [] else '','') @ (if ?f then [CHR 0x0A] else [])"
  assume w: "wrote pre p" and small: "length pre + length (members_text ?f ?d ((k, x) # ps)) + 2 \<le> INT_MAX"
  have style: "same_style p q \<Longrightarrow> po_format q = ?f \<and> po_depth q = ?d" for q by (simp add: same_style_def)
  obtain a where a: "(if ?f then write_move A ?d (tabs ?d) ?d p else Inr (Some p)) = Inr (Some a)"
      "wrote (pre @ ?tabs) a" "same_style p a"
    using write_move_ok [OF w, of "tabs ?d" ?d "[]" ?d A] small w by (cases ?f) auto
  from print_update [OF print_string_ok _ a(2)] small quoted_nul [OF x(3)] obtain b b' where
    b: "print_string_ptr A (Some k) a = Inr (Some b)" "update_offset b = Inr b'"
      "wrote ((pre @ ?tabs) @ quoted k) b'" "same_style a b'" by fastforce
  obtain c where c: "write_move A (if ?f then 2 else 1) ?colon (if ?f then 2 else 1) b' = Inr (Some c)"
      "wrote (((pre @ ?tabs) @ quoted k) @ ?colon) c" "same_style b' c"
    using write_move_ok [OF b(3), of ?colon "if ?f then 2 else 1" "[]" "if ?f then 2 else 1" A] small by (cases ?f) auto
  have pc: "same_style p c" using a b c by (blast intro: same_style_trans)
  from print_update [OF x(1) _ c(2)] small text_nul(1) [OF x(2)] style [OF pc] obtain d e where
    e: "print_value A x c = Inr (Some d)" "update_offset d = Inr e"
      "wrote ((((pre @ ?tabs) @ quoted k) @ ?colon) @ ?x) e" "same_style c e" by fastforce
  have pe: "same_style p e" using pc e by (blast intro: same_style_trans)
  define n where "n = (if ?f then 1 else 0) + (if ps \<noteq> [] then 1 else (0::nat))"
  obtain g where g: "write_move A (n + 1) (?sep @ [CHR 0x00]) n e = Inr (Some g)"
      "wrote (((((pre @ ?tabs) @ quoted k) @ ?colon) @ ?x) @ ?sep) g" "same_style e g"
    using write_move_ok [OF e(3), of ?sep "n + 1" "[CHR 0x00]" n A] small
    by (cases ?f; cases "ps = []") (auto simp: n_def)
  have pg: "same_style p g" using pe g by (blast intro: same_style_trans)
  from writesD [OF ps g(2)] small style [OF pg] obtain h where
    h: "print_members A ps g = Inr (Some h)"
      "wrote ((((((pre @ ?tabs) @ quoted k) @ ?colon) @ ?x) @ ?sep) @ members_text ?f ?d ps) h" "same_style g h"
    by auto
  have "print_members A ((k, x) # ps) p = Inr (Some h)"
    using a(1) b(1,2) c(1) e(1,2) g(1) h(1) style [OF pe] style [OF same_style_trans [OF a(3) b(4)]]
    by (cases ?f; cases "ps = []") (simp_all add: Let_def n_def)
  moreover have "same_style p h" using pg h by (blast intro: same_style_trans)
  ultimately show "\<exists>q. print_members A ((k, x) # ps) p = Inr (Some q) \<and>
      wrote (pre @ members_text ?f ?d ((k, x) # ps)) q \<and> same_style p q"
    using h(2) by simp
qed

lemma awaiting_append: "awaiting (pre @ a) b q \<Longrightarrow> awaiting pre (a @ b) q"
proof -
  assume "awaiting (pre @ a) b q"
  then obtain i rest where "i \<le> length b" "po_offset q = length pre + (length a + i)"
      "po_buffer q = (pre @ a) @ b @ CHR 0x00 # rest" "\<not> po_noalloc q"
    by (auto simp: awaiting_def)
  then show ?thesis unfolding awaiting_def by (auto intro!: exI [of _ "length a + i"])
qed

lemma awaiting_depth [simp]: "awaiting pre t (q\<lparr>po_depth := n\<rparr>) = awaiting pre t q"
  by (simp add: awaiting_def)

lemma print_array_step:
  assumes xs: "writes (print_elements A xs) (\<lambda>f d. elements_text f d xs)"
  shows "prints (print_value A (JArray xs)) (\<lambda>f d. json_text f d (JArray xs))"
proof (rule printsI)
  fix pre and p :: printbuffer
  let ?f = "po_format p" and ?d = "po_depth p"
  let ?es = "elements_text ?f (?d + 1) xs"
  assume w: "wrote pre p" and small: "length pre + length (json_text ?f ?d (JArray xs)) + 2 \<le> INT_MAX"
  obtain a where a: "write_move A 1 ''['' 1 p = Inr (Some a)" "wrote (pre @ ''['') a" "same_style p a"
    using write_move_ok [OF w, of "''[''" 1 "[]" 1 A] small by auto
  define b where "b = a\<lparr>po_depth := po_depth a + 1\<rparr>"
  have b: "wrote (pre @ ''['') b" "po_format b = ?f" "po_depth b = ?d + 1"
    using a(2,3) by (simp_all add: b_def wrote_def same_style_def)
  from writesD [OF xs b(1)] small obtain c where
    c: "print_elements A xs b = Inr (Some c)" "wrote ((pre @ ''['') @ ?es) c" "same_style b c" by (auto simp: b)
  obtain d where d: "write_text A 2 ('']'' @ [CHR 0x00]) c = Inr (Some d)"
      "awaiting ((pre @ ''['') @ ?es) '']'' d" "same_style c d"
    using write_text_ok [OF c(2), of "'']''" 2 A] small by auto
  define q where "q = d\<lparr>po_depth := po_depth d - 1\<rparr>"
  have "print_value A (JArray xs) p = Inr (Some q)" using a(1) c(1) d(1) by (simp add: b_def q_def)
  moreover have "same_style p q" using c(3) d(3) b by (simp add: q_def same_style_def)
  moreover have "awaiting pre (json_text ?f ?d (JArray xs)) q"
    using awaiting_append [of pre "''['' @ ?es" "'']''" d] d(2) by (simp add: q_def)
  ultimately show "\<exists>q. print_value A (JArray xs) p = Inr (Some q) \<and>
      awaiting pre (json_text ?f ?d (JArray xs)) q \<and> same_style p q" by blast
qed

lemma print_object_step:
  assumes ps: "writes (print_members A ps) (\<lambda>f d. members_text f d ps)"
  shows "prints (print_value A (JObject ps)) (\<lambda>f d. json_text f d (JObject ps))"
proof (rule printsI)
  fix pre and p :: printbuffer
  let ?f = "po_format p" and ?d = "po_depth p"
  let ?ms = "members_text ?f (?d + 1) ps" and ?open = "''{'' @ (if ?f then [CHR 0x0A] else [])"
    and ?close = "(if ?f then tabs ?d else []) @ ''}''"
  assume w: "wrote pre p" and small: "length pre + length (json_text ?f ?d (JObject ps)) + 2 \<le> INT_MAX"
  define len where "len = (if ?f then 2 else (1::nat))"
  obtain a where a: "write_move A (len + 1) ?open len p = Inr (Some a)" "wrote (pre @ ?open) a" "same_style p a"
    using write_move_ok [OF w, of ?open "len + 1" "[]" len A] small by (cases ?f) (auto simp: len_def)
  define b where "b = a\<lparr>po_depth := po_depth a + 1\<rparr>"
  have b: "wrote (pre @ ?open) b" "po_format b = ?f" "po_depth b = ?d + 1"
    using a(2,3) by (simp_all add: b_def wrote_def same_style_def)
  from writesD [OF ps b(1)] small obtain c where
    c: "print_members A ps b = Inr (Some c)" "wrote ((pre @ ?open) @ ?ms) c" "same_style b c" by (auto simp: b)
  have sc: "po_format c = ?f" "po_depth c = ?d + 1" using c(3) b by (simp_all add: same_style_def)
  obtain d where d: "write_text A (if ?f then ?d + 2 else 2) (?close @ [CHR 0x00]) c = Inr (Some d)"
      "awaiting ((pre @ ?open) @ ?ms) ?close d" "same_style c d"
    using write_text_ok [OF c(2), of ?close "if ?f then ?d + 2 else 2" A] small by (cases ?f) auto
  define q where "q = d\<lparr>po_depth := po_depth d - 1\<rparr>"
  have "print_value A (JObject ps) p = Inr (Some q)"
    using a(1) c(1) d(1) sc by (cases ?f) (simp_all add: b_def q_def len_def)
  moreover have "same_style p q" using d(3) sc by (simp add: q_def same_style_def)
  moreover have "awaiting pre (json_text ?f ?d (JObject ps)) q"
    using awaiting_append [of pre "?open @ ?ms" ?close d] d(2) by (simp add: q_def)
  ultimately show "\<exists>q. print_value A (JObject ps) p = Inr (Some q) \<and>
      awaiting pre (json_text ?f ?d (JObject ps)) q \<and> same_style p q" by blast
qed

lemma print_value_ok:
  shows "printable j \<Longrightarrow> prints (print_value A j) (\<lambda>f d. json_text f d j)"
proof (induction j)
  case (JBool b)
  then show ?case
    using print_literal [of A "''true''"] print_literal [of A "''false''"] by (cases b) (simp_all add: prints_def eval_nat_numeral)
next
  case JNull
  then show ?case using print_literal [of A "''null''"] by (simp add: prints_def eval_nat_numeral)
next
  case (JNumber x)
  then show ?case using print_number_ok [of x A] by (simp add: prints_def)
next
  case (JText s)
  then show ?case using print_string_ok [of A s] by (simp add: prints_def)
next
  case (JArray xs)
  have "\<forall>x \<in> set ys. prints (print_value A x) (\<lambda>f d. json_text f d x) \<and> printable x \<Longrightarrow>
      writes (print_elements A ys) (\<lambda>f d. elements_text f d ys)" for ys
  proof (induction ys)
    case (Cons y ys)
    then show ?case by (intro print_elements_step) auto
  qed (simp add: writes_def)
  with JArray show ?case by (intro print_array_step) auto
next
  case (JObject ps)
  have "\<forall>p \<in> set qs. prints (print_value A (snd p)) (\<lambda>f d. json_text f d (snd p)) \<and> printable (snd p) \<and>
        CHR 0x00 \<notin> set (fst p) \<Longrightarrow> writes (print_members A qs) (\<lambda>f d. members_text f d qs)" for qs
  proof (induction qs)
    case (Cons q qs)
    have "writes (print_members A ((fst q, snd q) # qs)) (\<lambda>f d. members_text f d ((fst q, snd q) # qs))"
      using Cons by (intro print_members_step) auto
    then show ?case by simp
  qed (simp add: writes_def)
  with JObject show ?case by (intro print_object_step) (auto simp: snds.simps)
qed

lemma print_text:
  assumes "printable j" and "length (json_text fmt 0 j) + 2 \<le> INT_MAX"
  shows "print A j fmt = Inr (Some (json_text fmt 0 j))"
proof -
  define p where "p = \<lparr>po_buffer = fresh_bytes A 0 256, po_offset = 0, po_depth = 0, po_noalloc = False, po_format = fmt\<rparr>"
  have w: "wrote [] p" by (simp add: p_def wrote_def)
  note nul = text_nul(1) [OF assms(1), of fmt 0]
  from print_update [OF print_value_ok [OF assms(1), of A] _ w] assms(2) nul obtain q r where
    r: "print_value A j p = Inr (Some q)" "update_offset q = Inr r" "wrote (json_text fmt 0 j) r" "po_buffer r ! po_offset r = CHR 0x00"
    by (auto simp: p_def)
  have t: "take (po_offset r) (po_buffer r) = json_text fmt 0 j" "po_offset r = length (json_text fmt 0 j)"
    using r(3) by (auto simp: wrote_def)
  have "take (po_offset r + 1) (po_buffer r) = json_text fmt 0 j @ [CHR 0x00]"
    using r(3,4) t by (simp add: wrote_def take_Suc_conv_app_nth)
  moreover have "cstr (json_text fmt 0 j @ [CHR 0x00]) = json_text fmt 0 j"
    by (rule cstr_append [OF nul])
  ultimately show ?thesis
    using r(1,2) t by (simp add: print_def p_def [symmetric] Let_def)
qed

text \<open>
  C13: the printer implements its specification: with either allocator and any contents
  of fresh memory it returns the text of the tree, formatted or not, and writes nowhere
  outside its buffer, as long as the text is shorter than \<open>INT_MAX\<close> by two bytes.\<close>

theorem cjson_print_refines:
  assumes "printable j" and "length (json_text fmt 0 j) + 2 \<le> INT_MAX"
  shows "print A j fmt = Inr (Some (json_text fmt 0 j))"
  by (rule print_text [OF assms])

theorem cjson_print_refines_witness:
  "print \<lparr>reallocates = True, fresh = (\<lambda>_. CHR ''?'')\<rparr> (JArray [JNull, JBool True]) True =
     Inr (Some ''[null, true]'')"
  using cjson_print_refines [of "JArray [JNull, JBool True]" True "\<lparr>reallocates = True, fresh = (\<lambda>_. CHR ''?'')\<rparr>"]
  by (simp add: INT_MAX_def)

end
