(* ===== verification/LD_CJSON_Roundtrip.thy ===== *)
theory LD_CJSON_Roundtrip
  imports LD_CJSON_Laws LD_CJSON_Print_Laws
begin

text \<open>
  The parser inverts the printer: strings through their escapes, numbers through their
  decimal digits, and trees, formatted or not, as long as they nest no deeper than the
  parser accepts.
\<close>

section \<open>Buffers as a text before and a text after the offset\<close>

abbreviation at_text :: "string \<Rightarrow> string \<Rightarrow> nat \<Rightarrow> parse_buffer" where
  "at_text pre rest d \<equiv> \<lparr>pb_content = pre @ rest, pb_offset = length pre, pb_depth = d\<rparr>"

lemma advance_text: "n = length t \<Longrightarrow> advance n (at_text pre (t @ rest) d) = at_text (pre @ t) rest d"
  by simp

lemma looking_at_text [simp]: "looking_at (at_text pre (c # rest) d) c' \<longleftrightarrow> c = c'"
  by (auto simp: looking_at_def can_access_at_index_def)

lemma access_text [simp]: "can_access_at_index (at_text pre (c # rest) d) 0"
  by (simp add: can_access_at_index_def)

lemma buffer_at_text [simp]: "buffer_at (at_text pre (c # rest) d) 0 = Inr c"
  by (simp add: buffer_at_def)

lemma literal_at_text:
  "literal_at (at_text pre rest d) lit \<longleftrightarrow> length lit \<le> length rest \<and> take (length lit) rest = lit"
  by (simp add: literal_at_def can_read_def)

lemma skip_text:
  assumes "\<forall>c \<in> set ws. blank c" and "\<not> blank c"
  shows "buffer_skip_whitespace (at_text pre (ws @ c # rest) d) = at_text (pre @ ws) (c # rest) d"
proof -
  have "takeWhile blank (ws @ c # rest) = ws" using assms by (simp add: takeWhile_append2)
  then show ?thesis by (simp add: buffer_skip_whitespace_def)
qed

lemma skip_text_none: "\<not> blank c \<Longrightarrow> buffer_skip_whitespace (at_text pre (c # rest) d) = at_text pre (c # rest) d"
  using skip_text [of "[]" c pre rest d] by simp

lemma step_back_text: "step_back (at_text (pre @ [c]) rest d) = at_text pre (c # rest) d"
  by simp

lemma blank_simps [simp]:
  "blank CHR 0x0A" "blank CHR 0x09" "blank CHR '' ''" "\<not> blank CHR 0x22" "\<not> blank CHR '',''" "\<not> blank CHR '':''"
  "\<not> blank CHR '']''" "\<not> blank CHR ''}''" "\<not> blank CHR ''[''" "\<not> blank CHR ''{''" "\<not> blank CHR ''-''"
  by (simp_all add: blank_def)

section \<open>Numbers\<close>

text \<open>A text that ends a number: something follows, and it is not part of a number.\<close>

definition delimits :: "string \<Rightarrow> bool" where
  "delimits rest = (rest \<noteq> [] \<and> \<not> number_char (hd rest))"

lemma parse_number_text:
  assumes "is_double x" and "delimits rest"
  shows "parse_number (at_text pre (number_text x @ rest) d) =
    Inr (Some (JNumber x), at_text (pre @ number_text x) rest d)"
proof -
  let ?t = "number_text x"
  obtain P where P: "0 < P" "?t = printf_g P x" using number_text_double(2) [OF assms(1)] by blast
  have chars: "\<forall>c \<in> set ?t. number_char c" and ne: "?t \<noteq> []" using printf_g_chars [OF P(1), of x] P(2) by auto
  have len: "length ?t \<le> 24" using assms(1) by (intro number_text_chars) (simp add: is_number_def)
  obtain c rest' where rest: "rest = c # rest'" "\<not> number_char c" using assms(2) by (cases rest) (auto simp: delimits_def)
  have nc: "(\<lambda>c. is_digit c \<or> c \<in> {CHR ''+'', CHR ''-'', CHR ''e'', CHR ''E'', CHR ''.''}) = number_char"
    by (rule ext) (simp add: number_char_def)
  have "take 63 (?t @ rest) = ?t @ c # take (62 - length ?t) rest'"
    using len by (simp add: rest take_Cons' Suc_diff_le)
  then have "parse_number_chars (at_text pre (?t @ rest) d) = ?t"
    unfolding parse_number_chars_def nc using chars rest(2) by (simp add: takeWhile_append2)
  with number_text_double(1) [OF assms(1)] ne show ?thesis by (simp add: parse_number_def)
qed

lemma number_text_head:
  assumes "is_double x"
  shows "\<exists>c cs. number_text x = c # cs \<and> (c = CHR ''-'' \<or> is_digit c)"
proof -
  obtain P where "0 < P" "number_text x = printf_g P x" using number_text_double(2) [OF assms] by blast
  with printf_g_chars [of P x] show ?thesis by auto
qed

section \<open>Code points\<close>

lemma hex_nibble_char [simp]: "n < 16 \<Longrightarrow> hex_nibble (hex_char n) = Some n"
  using of_hex_char [of n] by (auto simp: hex_nibble_def Let_def split: if_splits)

text \<open>UTF-8 as the standard defines it, by division.\<close>

definition utf8 :: "nat \<Rightarrow> string" where
  "utf8 n =
     map char_of
       (if n < 0x80 then [n]
        else if n < 0x800 then [0xC0 + n div 64, 0x80 + n mod 64]
        else if n < 0x10000 then [0xE0 + n div 4096, 0x80 + n div 64 mod 64, 0x80 + n mod 64]
        else [0xF0 + n div 262144, 0x80 + n div 4096 mod 64, 0x80 + n div 64 mod 64, 0x80 + n mod 64])"

unbundle bit_operations_syntax

lemma or_push: "take_bit k a = a \<Longrightarrow> a OR push_bit k b = a + push_bit k (b :: 'a::len word)"
proof -
  assume a: "take_bit k a = a"
  have "a + push_bit k b = a OR push_bit k b"
  proof (rule disjunctive_add)
    fix n
    show "\<not> bit a n \<or> \<not> bit (push_bit k b) n"
      by (subst a [symmetric]) (auto simp: bit_take_bit_iff bit_push_bit_iff)
  qed
  then show ?thesis by simp
qed

lemma or_and_or: "(a OR c) AND (b OR c) = (a AND b) OR (c :: 'a::len word)"
  by (rule bit_word_eqI) (auto simp: bit_and_iff bit_or_iff)

lemma low_byte: "unat (((cp :: 64 word) OR 0x80) AND 0xBF) = 128 + unat cp mod 64"
proof -
  have "(cp OR 0x80) AND 0xBF = (cp OR 0x80) AND (0x3F OR 0x80)" by simp
  also have "\<dots> = take_bit 6 cp OR push_bit 7 1"
    unfolding or_and_or by (simp add: take_bit_eq_mask mask_eq_exp_minus_1)
  also have "\<dots> = take_bit 6 cp + push_bit 7 1" by (rule or_push) simp
  finally have eq: "(cp OR 0x80) AND 0xBF = take_bit 6 cp + 0x80" by simp
  have "unat (take_bit 6 cp) = unat cp mod 64" by (simp add: take_bit_eq_mod unat_mod_distrib)
  then show ?thesis unfolding eq by (simp add: unat_word_ariths)
qed

lemma first_byte:
  assumes "unat (cp :: 64 word) < 2 ^ k" and "unat cp + unat (push_bit k m) < 256"
  shows "unat ((cp OR push_bit k m) AND 0xFF) = unat cp + unat (push_bit k m)"
proof -
  have "unat (take_bit k cp) = unat cp" using assms(1) by (simp add: unsigned_take_bit_eq take_bit_nat_eq_self)
  then have "take_bit k cp = cp" by (simp add: word_unat_eq_iff)
  then have eq: "(cp OR push_bit k m) AND 0xFF = take_bit 8 (cp + push_bit k m)"
    by (simp add: or_push take_bit_eq_mask mask_eq_exp_minus_1)
  have "unat (cp + push_bit k m) = unat cp + unat (push_bit k m)" using assms(2) by (simp add: unat_word_ariths)
  then show ?thesis unfolding eq using assms(2) by (simp add: unsigned_take_bit_eq take_bit_nat_eq_self)
qed

lemma unat_drop:
  "unat (drop_bit 6 (cp :: 64 word)) = unat cp div 64"
  "unat (drop_bit 12 (cp :: 64 word)) = unat cp div 4096"
  "unat (drop_bit 18 (cp :: 64 word)) = unat cp div 262144"
  by (simp_all add: drop_bit_eq_div unat_div_distrib)

lemma first_byte_marks:
  "unat (cp :: 64 word) < 32 \<Longrightarrow> unat ((cp OR 0xC0) AND 0xFF) = 0xC0 + unat cp"
  "unat (cp :: 64 word) < 16 \<Longrightarrow> unat ((cp OR 0xE0) AND 0xFF) = 0xE0 + unat cp"
  "unat (cp :: 64 word) < 8 \<Longrightarrow> unat ((cp OR 0xF0) AND 0xFF) = 0xF0 + unat cp"
  using first_byte [of cp 6 3] first_byte [of cp 5 7] first_byte [of cp 4 15] by simp_all

lemma utf8_bytes_simps:
  "utf8_bytes 1 m cp = [byte ((drop_bit 6 cp OR m) AND 0xFF), byte ((cp OR 0x80) AND 0xBF)]"
  "utf8_bytes 2 m cp = [byte ((drop_bit 12 cp OR m) AND 0xFF),
     byte ((drop_bit 6 cp OR 0x80) AND 0xBF), byte ((cp OR 0x80) AND 0xBF)]"
  "utf8_bytes 3 m cp = [byte ((drop_bit 18 cp OR m) AND 0xFF),
     byte ((drop_bit 12 cp OR 0x80) AND 0xBF),
     byte ((drop_bit 6 cp OR 0x80) AND 0xBF), byte ((cp OR 0x80) AND 0xBF)]"
  unfolding One_nat_def numeral_2_eq_2 numeral_3_eq_3 by simp_all

lemma encode_utf8_spec:
  assumes "unat cp < 0x110000"
  shows "encode_utf8 cp = Some (utf8 (unat cp))"
proof -
  have ascii: "unat (cp AND 0x7F) = unat cp" if "unat cp < 128"
  proof -
    have "cp AND 0x7F = take_bit 7 cp" by (simp add: take_bit_eq_mask mask_eq_exp_minus_1)
    with that show ?thesis by (simp only: unsigned_take_bit_eq) (simp add: take_bit_nat_eq_self)
  qed
  have le: "cp < numeral k \<longleftrightarrow> unat cp < unat (numeral k :: 64 word)" for k by (simp add: word_less_nat_alt)
  consider "unat cp < 0x80" | "0x80 \<le> unat cp" "unat cp < 0x800" | "0x800 \<le> unat cp" "unat cp < 0x10000"
    | "0x10000 \<le> unat cp" by linarith
  then show ?thesis
  proof cases
    case 1
    then show ?thesis by (simp add: encode_utf8_def le ascii byte_def utf8_def)
  next
    case 2
    then have "unat (drop_bit 6 cp) < 32" by (simp add: unat_drop less_mult_imp_div_less)
    with 2 show ?thesis by (simp add: encode_utf8_def le byte_def utf8_def utf8_bytes_simps low_byte first_byte_marks unat_drop)
  next
    case 3
    then have "unat (drop_bit 12 cp) < 16" by (simp add: unat_drop less_mult_imp_div_less)
    with 3 show ?thesis
      by (simp add: encode_utf8_def le byte_def utf8_def utf8_bytes_simps low_byte first_byte_marks unat_drop)
  next
    case 4
    with assms have "unat (drop_bit 18 cp) < 8" by (simp add: unat_drop less_mult_imp_div_less)
    with 4 assms show ?thesis
      by (simp add: encode_utf8_def le word_le_nat_alt byte_def utf8_def utf8_bytes_simps low_byte first_byte_marks unat_drop)
  qed
qed

section \<open>Strings\<close>

text \<open>
  The four hexadecimal digits of a number, and the escape of a code point: one
  sequence, or a surrogate pair.
\<close>

definition hex4_text :: "nat \<Rightarrow> string" where
  "hex4_text n = map hex_char [n div 4096, n div 256 mod 16, n div 16 mod 16, n mod 16]"

definition unicode_escape :: "nat \<Rightarrow> string" where
  "unicode_escape n =
     (if n < 0x10000 then [CHR 0x5C, CHR ''u''] @ hex4_text n
      else [CHR 0x5C, CHR ''u''] @ hex4_text (0xD800 + (n - 0x10000) div 1024) @
           [CHR 0x5C, CHR ''u''] @ hex4_text (0xDC00 + (n - 0x10000) mod 1024))"

lemma hex4_step:
  "i < 4 \<Longrightarrow> v < 16 \<Longrightarrow> parse_hex4_loop i h (hex_char v # rest) =
     parse_hex4_loop (Suc i) (if i < 3 then 16 * (h + of_nat v) else h + of_nat v) rest"
  by (simp add: parse_hex4_loop.simps [of i] push_bit_eq_mult mult.commute)

lemma hex4_done: "parse_hex4_loop (Suc (Suc (Suc (Suc 0)))) h rest = Inr h"
  by (simp add: parse_hex4_loop.simps)

lemma parse_hex4_text:
  assumes "n < 65536"
  shows "parse_hex4 (hex4_text n @ rest) = Inr (of_nat n)"
proof -
  define a b c d where "a = n div 4096" and "b = n div 256 mod 16" and "c = n div 16 mod 16" and "d = n mod 16"
  have less: "a < 16" "b < 16" "c < 16" "d < 16" using assms by (simp_all add: a_def b_def c_def d_def less_mult_imp_div_less)
  have n: "n = 4096 * a + 256 * b + 16 * c + d" 
  proof -
    have "n = 16 * (n div 16) + d" "n div 16 = 16 * (n div 256) + c" "n div 256 = 16 * a + b"
      using mult_div_mod_eq [of 16 n] mult_div_mod_eq [of 16 "n div 16"] mult_div_mod_eq [of 16 "n div 256"]
      by (simp_all add: a_def b_def c_def d_def flip: div_mult2_eq)
    then show ?thesis by simp
  qed
  have t: "hex4_text n = [hex_char a, hex_char b, hex_char c, hex_char d]"
    by (simp add: hex4_text_def a_def b_def c_def d_def)
  have "parse_hex4 (hex4_text n @ rest) = Inr (16 * (16 * (16 * (0 + of_nat a) + of_nat b) + of_nat c) + of_nat d)"
    unfolding t parse_hex4_def append.simps using less by (simp only: hex4_step hex4_done) simp
  then show ?thesis by (simp add: n algebra_simps)
qed

text \<open>\<open>e\<close> is an escaped form of \<open>out\<close>, for both passes of \<open>parse_string\<close>.\<close>

definition decodes :: "string \<Rightarrow> string \<Rightarrow> bool" where
  "decodes e out =
     ((\<forall>n xs. decode_string (length e + n) (e @ xs) =
        run_bind (decode_string n xs) (\<lambda>(o', l, ok). Inr (out @ o', l, ok))) \<and>
      (\<exists>j. \<forall>xs. scan_string (e @ xs) = map_option (\<lambda>(n, k). (length e + n, k + j)) (scan_string xs)))"

lemma decodesI:
  assumes "\<And>n xs. decode_string (length e + n) (e @ xs) =
      run_bind (decode_string n xs) (\<lambda>(o', l, ok). Inr (out @ o', l, ok))"
    and "\<And>xs. scan_string (e @ xs) = map_option (\<lambda>(n, k). (length e + n, k + j)) (scan_string xs)"
  shows "decodes e out"
  using assms unfolding decodes_def by blast

lemma decodes_Nil: "decodes [] []"
proof -
  have "run_bind m (\<lambda>(o', l, ok). Inr (o', l, ok)) = m" for m :: "(string \<times> nat \<times> bool) run"
    by (cases m) (auto simp: split_def)
  moreover have "map_option (\<lambda>(n, k). (n, k)) m = m" for m :: "(nat \<times> nat) option"
    by (cases m) auto
  ultimately show ?thesis by (auto simp: decodes_def intro: exI [of _ 0])
qed

lemma decodes_append:
  assumes "decodes e out" and "decodes e' out'"
  shows "decodes (e @ e') (out @ out')"
proof -
  from assms obtain j j' where j:
    "\<And>xs. scan_string (e @ xs) = map_option (\<lambda>(n, k). (length e + n, k + j)) (scan_string xs)"
    "\<And>xs. scan_string (e' @ xs) = map_option (\<lambda>(n, k). (length e' + n, k + j')) (scan_string xs)"
    unfolding decodes_def by blast
  have "\<forall>xs. scan_string ((e @ e') @ xs) = map_option (\<lambda>(n, k). (length (e @ e') + n, k + (j + j'))) (scan_string xs)"
    by (auto simp: j option.map_comp o_def split_def algebra_simps intro!: option.map_cong0)
  moreover have "decode_string (length (e @ e') + n) ((e @ e') @ xs) =
      run_bind (decode_string n xs) (\<lambda>(o', l, ok). Inr ((out @ out') @ o', l, ok))" for n xs
    using assms by (simp add: decodes_def add.assoc run_bind_assoc split_def)
  ultimately show ?thesis unfolding decodes_def by blast
qed

lemma decodes_concat: "\<forall>x \<in> set xs. decodes (f x) (g x) \<Longrightarrow> decodes (concat (map f xs)) (concat (map g xs))"
  by (induction xs) (auto intro: decodes_Nil decodes_append)

lemma decodes_plain: "c \<noteq> CHR 0x22 \<Longrightarrow> c \<noteq> CHR 0x5C \<Longrightarrow> decodes [c] [c]"
  by (auto simp: decodes_def decode_string.simps [of "Suc _"] intro!: exI [of _ 0])

lemma decodes_short: "simple_escape d = Some c \<Longrightarrow> decodes [CHR 0x5C, d] [c]"
proof -
  assume d: "simple_escape d = Some c"
  then have "d \<noteq> CHR ''u''" by (auto simp: simple_escape_def)
  with d show ?thesis
    by (intro decodesI [where j = 1]) (simp_all add: decode_string.simps [of "Suc (Suc _)"] split_def)
qed

lemma length_hex4_text [simp]: "length (hex4_text n) = 4"
  by (simp add: hex4_text_def)

lemma hex_char_plain: "n < 16 \<Longrightarrow> hex_char n \<noteq> CHR 0x22 \<and> hex_char n \<noteq> CHR 0x5C"
  using of_hex_char [of n] by (auto split: if_splits)

lemma scan_plain:
  "\<forall>c \<in> set cs. c \<noteq> CHR 0x22 \<and> c \<noteq> CHR 0x5C \<Longrightarrow>
   scan_string (cs @ xs) = map_option (\<lambda>(n, k). (length cs + n, k)) (scan_string xs)"
proof (induction cs)
  case Nil
  then show ?case by (cases "scan_string xs") auto
next
  case (Cons c cs)
  then show ?case by (simp add: option.map_comp o_def split_def)
qed

lemma hex4_text_plain: "n < 65536 \<Longrightarrow> \<forall>c \<in> set (hex4_text n). c \<noteq> CHR 0x22 \<and> c \<noteq> CHR 0x5C"
  using hex_char_plain by (auto simp: hex4_text_def less_mult_imp_div_less)

lemma scan_escape:
  "n < 65536 \<Longrightarrow> scan_string (CHR 0x5C # CHR ''u'' # hex4_text n @ xs) =
     map_option (\<lambda>(n, k). (6 + n, k + 1)) (scan_string xs)"
  by (simp add: scan_plain hex4_text_plain option.map_comp o_def split_def)

lemma unat_of_nat_small: "n < 2 ^ LENGTH('a) \<Longrightarrow> unat (of_nat n :: 'a::len word) = n"
  by (simp add: unat_of_nat)

lemma unat_small: "n < 65536 \<Longrightarrow> unat (of_nat n :: u32) = n"
  by (simp add: unat_of_nat)

lemma ucast_small: "n < 4294967296 \<Longrightarrow> ucast (of_nat n :: u32) = (of_nat n :: 64 word)"
  by (simp add: word_unat_eq_iff unsigned_ucast_eq unat_of_nat take_bit_nat_eq_self)

text \<open>A code point that is not a surrogate.\<close>

definition scalar :: "nat \<Rightarrow> bool" where
  "scalar n = (n < 0x110000 \<and> \<not> (0xD800 \<le> n \<and> n \<le> 0xDFFF))"

lemma utf16_single:
  assumes "n < 65536" and "scalar n" and "6 \<le> left"
  shows "utf16_literal_to_utf8 left (CHR 0x5C # CHR ''u'' # hex4_text n @ xs) = Inr (Some (utf8 n, 6))"
proof -
  have u: "unat (of_nat n :: 64 word) = n" using assms(1) by (simp add: unat_of_nat)
  have "encode_utf8 (of_nat n) = Some (utf8 n)" using encode_utf8_spec [of "of_nat n"] assms(1) by (simp add: u)
  with assms unat_small [OF assms(1)] parse_hex4_text [OF assms(1), of xs] ucast_small [of n] show ?thesis
    by (auto simp: utf16_literal_to_utf8_def scalar_def word_le_nat_alt word_less_nat_alt)
qed

lemma surrogate_bits:
  assumes "a < 1024" and "b < 1024"
  shows "push_bit 10 ((of_nat (0xD800 + a) :: u32) AND 0x3FF) OR (of_nat (0xDC00 + b) AND 0x3FF) = of_nat (a * 1024 + b)"
proof -
  have low: "unat ((of_nat (k * 1024 + c) :: u32) AND 0x3FF) = c" if "c < 1024" "k < 64" for k c
  proof -
    have "(of_nat (k * 1024 + c) :: u32) AND 0x3FF = take_bit 10 (of_nat (k * 1024 + c))"
      by (simp add: take_bit_eq_mask mask_eq_exp_minus_1)
    moreover have "unat (of_nat (k * 1024 + c) :: u32) = k * 1024 + c"
      using that by (intro unat_of_nat_small) simp
    ultimately show ?thesis using that by (simp only: unsigned_take_bit_eq) (simp add: take_bit_eq_mod)
  qed
  have x: "(of_nat (0xD800 + a) :: u32) AND 0x3FF = of_nat a"
    using low [of a 54] assms(1) by (simp add: word_unat_eq_iff unat_of_nat)
  have y: "(of_nat (0xDC00 + b) :: u32) AND 0x3FF = of_nat b"
    using low [of b 55] assms(2) by (simp add: word_unat_eq_iff unat_of_nat)
  have "take_bit 10 (of_nat b :: u32) = of_nat b"
    using assms(2) by (simp add: word_unat_eq_iff unsigned_take_bit_eq unat_of_nat take_bit_nat_eq_self)
  then have "of_nat b OR push_bit 10 (of_nat a) = of_nat b + push_bit 10 (of_nat a :: u32)" by (rule or_push)
  then show ?thesis unfolding x y by (simp add: or.commute push_bit_eq_mult algebra_simps)
qed

lemma utf16_pair:
  assumes "a < 1024" and "b < 1024" and "12 \<le> left"
  shows "utf16_literal_to_utf8 left (CHR 0x5C # CHR ''u'' # hex4_text (0xD800 + a) @
    CHR 0x5C # CHR ''u'' # hex4_text (0xDC00 + b) @ xs) = Inr (Some (utf8 (0x10000 + a * 1024 + b), 12))"
proof -
  let ?h = "hex4_text (0xD800 + a)" and ?l = "hex4_text (0xDC00 + b)"
  let ?input = "CHR 0x5C # CHR ''u'' # ?h @ CHR 0x5C # CHR ''u'' # ?l @ xs"
  have cp: "0x10000 + ucast (of_nat (a * 1024 + b) :: u32) = (of_nat (0x10000 + a * 1024 + b) :: 64 word)"
    using assms by (subst ucast_small) simp_all
  have "unat (of_nat (0x10000 + a * 1024 + b) :: 64 word) = 0x10000 + a * 1024 + b"
    using assms by (intro unat_of_nat_small) simp
  with assms have e: "encode_utf8 (of_nat (0x10000 + a * 1024 + b)) = Some (utf8 (0x10000 + a * 1024 + b))"
    using encode_utf8_spec [of "of_nat (0x10000 + a * 1024 + b)"] by (simp del: of_nat_add)
  have p: "parse_hex4 (drop 2 ?input) = Inr (of_nat (0xD800 + a))" "parse_hex4 (drop 8 ?input) = Inr (of_nat (0xDC00 + b))"
    using assms parse_hex4_text [of "0xD800 + a"] parse_hex4_text [of "0xDC00 + b"] by (simp_all del: of_nat_add)
  have i: "?input ! 6 = CHR 0x5C" "?input ! 7 = CHR ''u''" "8 \<le> length ?input" by (simp_all add: nth_append)
  have u: "unat (of_nat (0xD800 + a) :: u32) = 0xD800 + a" "unat (of_nat (0xDC00 + b) :: u32) = 0xDC00 + b"
    using assms by (intro unat_small; simp)+
  have code: "encode_utf8 (0x10000 + ucast (push_bit 10 ((of_nat (0xD800 + a) :: u32) AND 0x3FF) OR
      (of_nat (0xDC00 + b) AND 0x3FF))) = Some (utf8 (0x10000 + a * 1024 + b))"
    unfolding surrogate_bits [OF assms(1,2)] cp by (rule e)
  have first: "\<not> (0xDC00 \<le> (of_nat (0xD800 + a) :: u32) \<and> (of_nat (0xD800 + a) :: u32) \<le> 0xDFFF)"
      "0xD800 \<le> (of_nat (0xD800 + a) :: u32) \<and> (of_nat (0xD800 + a) :: u32) \<le> 0xDBFF"
    and second: "\<not> ((of_nat (0xDC00 + b) :: u32) < 0xDC00 \<or> 0xDFFF < (of_nat (0xDC00 + b) :: u32))"
    using assms by (simp_all add: word_le_nat_alt word_less_nat_alt u del: of_nat_add)
  have len: "\<not> left < 6" "\<not> left - 6 < 6" "\<not> length ?input < 8" "\<not> (?input ! 6 \<noteq> CHR 0x5C \<or> ?input ! 7 \<noteq> CHR ''u'')"
    using assms(3) i by auto
  show ?thesis
    unfolding utf16_literal_to_utf8_def
    by (simp only: len p run_bind.simps if_not_P [OF first(1)] if_P [OF first(2)] if_not_P [OF second] if_False code option.map)
qed

lemma decodes_utf16:
  assumes "\<And>left xs. length e \<le> left \<Longrightarrow> utf16_literal_to_utf8 left (e @ xs) = Inr (Some (out, length e))"
    and "e = CHR 0x5C # CHR ''u'' # e'"
    and "\<And>xs. scan_string (e @ xs) = map_option (\<lambda>(n, k). (length e + n, k + j)) (scan_string xs)"
  shows "decodes e out"
proof (rule decodesI [where j = j])
  fix n xs
  have "decode_string (length e + n) (e @ xs) =
      run_bind (decode_string (length e + n - length e) (drop (length e) (e @ xs))) (\<lambda>(o', l, ok). Inr (out @ o', l, ok))"
    using assms(1) [of "length e + n" xs] by (subst decode_string.simps) (simp add: assms(2))
  then show "decode_string (length e + n) (e @ xs) =
      run_bind (decode_string n xs) (\<lambda>(o', l, ok). Inr (out @ o', l, ok))" by simp
qed (rule assms(3))

lemma decodes_unicode:
  assumes "scalar n"
  shows "decodes (unicode_escape n) (utf8 n)"
proof (cases "n < 0x10000")
  case True
  then have e: "unicode_escape n = CHR 0x5C # CHR ''u'' # hex4_text n" by (simp add: unicode_escape_def)
  show ?thesis
    unfolding e using True assms
    by (intro decodes_utf16 [where j = 1, OF _ refl])
       (simp_all add: utf16_single scan_escape del: scan_string.simps)
next
  case False
  define a b where "a = (n - 0x10000) div 1024" and "b = (n - 0x10000) mod 1024"
  have ab: "a < 1024" "b < 1024" using assms False
    by (simp_all add: a_def b_def scalar_def less_mult_imp_div_less)
  have n: "0x10000 + a * 1024 + b = n"
    using False div_mult_mod_eq [of "n - 0x10000" 1024] by (simp add: a_def b_def)
  have e: "unicode_escape n = CHR 0x5C # CHR ''u'' # hex4_text (0xD800 + a) @ CHR 0x5C # CHR ''u'' # hex4_text (0xDC00 + b)"
    using False by (simp add: unicode_escape_def a_def b_def)
  have scan: "scan_string (unicode_escape n @ xs) = map_option (\<lambda>(n, k). (12 + n, k + 2)) (scan_string xs)" for xs
    using ab scan_escape [of "0xD800 + a" "CHR 0x5C # CHR ''u'' # hex4_text (0xDC00 + b) @ xs"] scan_escape [of "0xDC00 + b" xs]
    unfolding e by (simp del: scan_string.simps add: option.map_comp o_def split_def)
  show ?thesis
  proof (rule decodes_utf16 [where j = 2, OF _ e])
    show "utf16_literal_to_utf8 left (unicode_escape n @ xs) = Inr (Some (utf8 n, length (unicode_escape n)))"
      if "length (unicode_escape n) \<le> left" for left xs
      using utf16_pair [OF ab, of left xs] that by (simp add: e n)
    show "scan_string (unicode_escape n @ xs) =
        map_option (\<lambda>(n', k). (length (unicode_escape n) + n', k + 2)) (scan_string xs)" for xs
      unfolding scan by (simp add: e)
  qed
qed

lemma parse_string_text:
  assumes "decodes e out"
  shows "parse_string (at_text pre (CHR 0x22 # e @ CHR 0x22 # rest) d) =
    Inr (Some (cstr out), at_text (pre @ CHR 0x22 # e @ [CHR 0x22]) rest d)"
proof -
  define b where "b = at_text pre (CHR 0x22 # e @ CHR 0x22 # rest) d"
  define input where "input = e @ CHR 0x22 # rest"
  have i: "drop (pb_offset b + 1) (pb_content b) = input" by (simp add: b_def input_def)
  obtain k where scan: "scan_string input = Some (length e, k)" using assms by (auto simp: decodes_def input_def)
  have dec: "decode_string (length e) input = Inr (out, 0, True)"
  proof -
    have "decode_string (length e + 0) (e @ CHR 0x22 # rest) =
        run_bind (decode_string 0 (CHR 0x22 # rest)) (\<lambda>(o', l, ok). Inr (out @ o', l, ok))"
      using assms unfolding decodes_def by blast
    then show ?thesis by (simp add: input_def decode_string.simps [of 0])
  qed
  have "length out + k \<le> length e"
    using scan_string_escapes [OF scan] decode_string_fits [of "length e" input False k] dec by auto
  then have "parse_string b = Inr (Some (cstr out), advance (length e + 2) b)"
    unfolding parse_string_def Let_def i scan by (simp add: dec b_def buffer_at_def can_access_at_index_def)
  also have "advance (length e + 2) b = at_text (pre @ CHR 0x22 # e @ [CHR 0x22]) rest d" by (simp add: b_def)
  finally show ?thesis by (simp add: b_def)
qed

lemma char_of_nul: "0 < m \<Longrightarrow> m < 256 \<Longrightarrow> char_of (m :: nat) \<noteq> CHR 0x00"
  by (auto dest: arg_cong [of _ _ "of_char :: char \<Rightarrow> nat"])

lemma utf8_nul: "scalar n \<Longrightarrow> n \<noteq> 0 \<Longrightarrow> CHR 0x00 \<notin> set (utf8 n)"
proof -
  assume n: "scalar n" "n \<noteq> 0"
  define ms where "ms = (if n < 0x80 then [n]
        else if n < 0x800 then [0xC0 + n div 64, 0x80 + n mod 64]
        else if n < 0x10000 then [0xE0 + n div 4096, 0x80 + n div 64 mod 64, 0x80 + n mod 64]
        else [0xF0 + n div 262144, 0x80 + n div 4096 mod 64, 0x80 + n div 64 mod 64, 0x80 + n mod 64])"
  have tail: "0x80 + m mod 64 < (256 :: nat)" for m by (rule less_trans [of _ "0x80 + 64"]) simp_all
  have "\<forall>m \<in> set ms. 0 < m \<and> m < 256"
    using n less_mult_imp_div_less [of n 32 64] less_mult_imp_div_less [of n 16 4096]
      less_mult_imp_div_less [of n 5 262144] tail
    by (auto simp: ms_def scalar_def)
  then have "\<forall>m \<in> set ms. char_of m \<noteq> CHR 0x00" using char_of_nul by blast
  then show ?thesis by (auto simp: utf8_def ms_def [symmetric])
qed

text \<open>
  C28: a string literal of Unicode escapes, one sequence per code point of the basic
  plane and a surrogate pair for the others, is decoded to the UTF-8 encoding of those
  code points (zero would end the C string and is left out).\<close>

theorem cjson_unicode:
  assumes "\<forall>n \<in> set ns. scalar n \<and> n \<noteq> 0"
  shows "parse_string (at_text pre (CHR 0x22 # concat (map unicode_escape ns) @ CHR 0x22 # rest) d) =
    Inr (Some (concat (map utf8 ns)), at_text (pre @ CHR 0x22 # concat (map unicode_escape ns) @ [CHR 0x22]) rest d)"
proof -
  have "CHR 0x00 \<notin> set (concat (map utf8 ns))" using assms utf8_nul by auto
  moreover have "decodes (concat (map unicode_escape ns)) (concat (map utf8 ns))"
    using assms by (intro decodes_concat) (auto intro: decodes_unicode)
  ultimately show ?thesis using parse_string_text by (metis cstr_id)
qed

theorem cjson_unicode_witness:
  "parse_string (at_text [] (CHR 0x22 # concat (map unicode_escape [0xE9, 0x1F600]) @ [CHR 0x22]) 0) =
     Inr (Some [CHR 0xC3, CHR 0xA9, CHR 0xF0, CHR 0x9F, CHR 0x98, CHR 0x80],
       at_text (CHR 0x22 # concat (map unicode_escape [0xE9, 0x1F600]) @ [CHR 0x22]) [] 0)"
proof -
  have "\<forall>n \<in> set [0xE9, 0x1F600]. scalar n \<and> n \<noteq> 0" by (simp add: scalar_def)
  note c = cjson_unicode [OF this, of "[]" "[]" 0]
  have u: "concat (map utf8 [0xE9, 0x1F600]) = [CHR 0xC3, CHR 0xA9, CHR 0xF0, CHR 0x9F, CHR 0x98, CHR 0x80]"
    by (simp add: utf8_def char_of_def bit_0)
  show ?thesis using c unfolding u by (simp only: append_Nil append_Nil2)
qed

section \<open>Printed strings\<close>

lemma escape_control:
  assumes "(of_char c :: nat) < 32"
  shows "CHR 0x5C # butlast (sprintf_u04x c) = unicode_escape (of_char c)"
proof -
  define n where "n = (of_char c :: nat)"
  have "n div 16 mod 16 = n div 16" "n div 4096 = 0" "n div 256 = 0" "n < 0x10000"
    using assms less_mult_imp_div_less [of n 16 16] by (simp_all add: n_def)
  moreover have "hex_char 0 = CHR ''0''" by code_simp
  ultimately show ?thesis
    unfolding sprintf_u04x_def Let_def n_def [symmetric] by (simp add: unicode_escape_def hex4_text_def)
qed

lemma decodes_escape_char: "decodes (escape_char c) [c]"
proof (cases "short_escape c")
  case (Some e)
  then have "simple_escape e = Some c" by (auto simp: short_escape_def simple_escape_def split: if_splits)
  with Some show ?thesis by (simp add: escape_char_def decodes_short)
next
  case None
  show ?thesis
  proof (cases "(of_char c :: nat) < 32")
    case True
    then have "scalar (of_char c)" "utf8 (of_char c) = [c]" by (simp_all add: scalar_def utf8_def)
    with True None decodes_unicode [of "of_char c"] show ?thesis by (simp add: escape_char_def escape_control)
  next
    case False
    with None show ?thesis by (auto simp: escape_char_def short_escape_def intro!: decodes_plain split: if_splits)
  qed
qed

lemma parse_quoted:
  assumes "CHR 0x00 \<notin> set s"
  shows "parse_string (at_text pre (quoted s @ rest) d) = Inr (Some s, at_text (pre @ quoted s) rest d)"
proof -
  have "decodes (concat (map escape_char s)) (concat (map (\<lambda>c. [c]) s))"
    by (intro decodes_concat) (simp add: decodes_escape_char)
  then have "decodes (concat (map escape_char s)) s" by simp
  from parse_string_text [OF this, of pre rest d] show ?thesis by (simp add: quoted_def cstr_id [OF assms])
qed

section \<open>Printed trees\<close>

text \<open>The trees that survive: printable, with finite numbers.\<close>

abbreviation finite_json :: "json \<Rightarrow> bool" where
  "finite_json \<equiv> json_ok is_double"

lemma delimits_simps [simp]:
  "delimits (CHR '','' # xs)" "delimits (CHR '']'' # xs)" "delimits (CHR ''}'' # xs)" "delimits (CHR 0x0A # xs)"
  "delimits (CHR 0x00 # xs)"
  by (simp_all add: delimits_def number_char_def is_digit_def)

lemma delimits_blank: "\<forall>w \<in> set ws. blank w \<Longrightarrow> delimits rest \<Longrightarrow> delimits (ws @ rest)"
  by (cases ws) (auto simp: delimits_def number_char_def is_digit_def blank_def)

text \<open>
  The text of \<open>j\<close> parses back at nesting depth \<open>pd\<close>, whatever is around it, with fuel for
  the bytes that remain.
\<close>

definition reads :: "bool \<Rightarrow> json \<Rightarrow> bool" where
  "reads fmt j =
     (\<forall>n d pre rest pd. delimits rest \<longrightarrow> pd + json_depth j \<le> CJSON_NESTING_LIMIT \<longrightarrow>
        4 * length (json_text fmt d j @ rest) \<le> n \<longrightarrow>
        parse_value n (at_text pre (json_text fmt d j @ rest) pd) =
          Inr (Some j, at_text (pre @ json_text fmt d j) rest pd))"

lemma readsD:
  "reads fmt j \<Longrightarrow> delimits rest \<Longrightarrow> pd + json_depth j \<le> CJSON_NESTING_LIMIT \<Longrightarrow>
   4 * length (json_text fmt d j @ rest) \<le> n \<Longrightarrow>
   parse_value n (at_text pre (json_text fmt d j @ rest) pd) =
     Inr (Some j, at_text (pre @ json_text fmt d j) rest pd)"
  by (simp add: reads_def)

text \<open>The first byte of a text, which selects the parse function.\<close>

lemma text_head:
  assumes "finite_json j"
  shows "\<exists>c cs. json_text fmt d j = c # cs \<and> \<not> blank c \<and> c \<noteq> CHR '']''"
proof (cases j)
  case (JNumber x)
  with assms number_text_head [of x] show ?thesis by (auto simp: blank_def is_digit_def)
qed (auto simp: quoted_def blank_def)

lemma reads_intro:
  assumes "\<And>n d pre rest pd. delimits rest \<Longrightarrow> pd + json_depth j \<le> CJSON_NESTING_LIMIT \<Longrightarrow>
      4 * length (json_text fmt d j @ rest) \<le> Suc n \<Longrightarrow>
      parse_value (Suc n) (at_text pre (json_text fmt d j @ rest) pd) =
        Inr (Some j, at_text (pre @ json_text fmt d j) rest pd)"
  shows "reads fmt j"
  unfolding reads_def
proof (intro allI impI)
  fix n d pre rest pd
  assume *: "delimits rest" "pd + json_depth j \<le> CJSON_NESTING_LIMIT" "4 * length (json_text fmt d j @ rest) \<le> n"
  then have "0 < n" by (cases rest) (auto simp: delimits_def)
  then obtain m where "n = Suc m" by (cases n) auto
  with assms [OF *(1,2)] *(3) show "parse_value n (at_text pre (json_text fmt d j @ rest) pd) =
        Inr (Some j, at_text (pre @ json_text fmt d j) rest pd)" by simp
qed

lemma literal_head: "c \<noteq> c' \<Longrightarrow> \<not> literal_at (at_text pre (c # cs) d) (c' # lit)"
  by (simp add: literal_at_text)

lemma parse_value_head:
  "parse_value (Suc n) (at_text pre (CHR 0x22 # cs) d) =
     run_bind (parse_string (at_text pre (CHR 0x22 # cs) d)) (\<lambda>(s, b'). Inr (map_option JText s, b'))"
  "parse_value (Suc n) (at_text pre (CHR ''['' # cs) d) = parse_array n (at_text pre (CHR ''['' # cs) d)"
  "parse_value (Suc n) (at_text pre (CHR ''{'' # cs) d) = parse_object n (at_text pre (CHR ''{'' # cs) d)"
  by (simp_all add: literal_head is_digit_def)

lemma parse_value_number:
  assumes "c = CHR ''-'' \<or> is_digit c"
  shows "parse_value (Suc n) (at_text pre (c # cs) d) = parse_number (at_text pre (c # cs) d)"
proof -
  have "c \<noteq> CHR ''n''" "c \<noteq> CHR ''t''" "c \<noteq> CHR ''f''" "c \<noteq> CHR 0x22" using assms by (auto simp: is_digit_def)
  with assms show ?thesis by (simp add: literal_head)
qed

lemma parse_value_literal:
  "parse_value (Suc n) (at_text pre (''null'' @ rest) d) = Inr (Some JNull, at_text (pre @ ''null'') rest d)"
  "parse_value (Suc n) (at_text pre (''false'' @ rest) d) = Inr (Some (JBool False), at_text (pre @ ''false'') rest d)"
  "parse_value (Suc n) (at_text pre (''true'' @ rest) d) = Inr (Some (JBool True), at_text (pre @ ''true'') rest d)"
  by (simp_all add: literal_at_text)

lemma reads_literal: "reads fmt JNull" "reads fmt (JBool b)"
  by (rule reads_intro, simp only: json_text.simps parse_value_literal)
     (rule reads_intro, cases b, simp_all only: json_text.simps parse_value_literal if_True if_False)

lemma reads_number:
  assumes "is_double x"
  shows "reads fmt (JNumber x)"
proof (rule reads_intro)
  fix n d pre rest pd
  assume "delimits rest"
  then have p: "parse_number (at_text pre (number_text x @ rest) pd) =
      Inr (Some (JNumber x), at_text (pre @ number_text x) rest pd)" by (rule parse_number_text [OF assms])
  obtain c cs where t: "number_text x = c # cs" "c = CHR ''-'' \<or> is_digit c" using number_text_head [OF assms] by blast
  from parse_value_number [OF t(2), of n pre "cs @ rest" pd] p
  show "parse_value (Suc n) (at_text pre (json_text fmt d (JNumber x) @ rest) pd) =
      Inr (Some (JNumber x), at_text (pre @ json_text fmt d (JNumber x)) rest pd)"
    by (simp only: json_text.simps t(1) append_Cons)
qed

lemma reads_text:
  assumes "CHR 0x00 \<notin> set s"
  shows "reads fmt (JText s)"
proof (rule reads_intro)
  fix n d pre rest pd
  have "parse_value (Suc n) (at_text pre (quoted s @ rest) pd) =
      run_bind (parse_string (at_text pre (quoted s @ rest) pd)) (\<lambda>(s, b'). Inr (map_option JText s, b'))"
    unfolding quoted_def append_Cons by (rule parse_value_head(1))
  then show "parse_value (Suc n) (at_text pre (json_text fmt d (JText s) @ rest) pd) =
      Inr (Some (JText s), at_text (pre @ json_text fmt d (JText s)) rest pd)"
    by (simp only: parse_quoted [OF assms] run_bind.simps json_text.simps prod.case option.map)
qed

text \<open>One turn of the loops over the elements and the members: the last one, or one more.\<close>

lemma parse_elements_shapes:
  assumes "parse_value n (buffer_skip_whitespace (advance 1 b)) = Inr (Some x, b1)"
    and "buffer_skip_whitespace b1 = b2"
  shows "\<not> looking_at b2 CHR '','' \<Longrightarrow> parse_elements (Suc n) b = Inr (Some [x], b2)"
    and "looking_at b2 CHR '','' \<Longrightarrow> parse_elements n b2 = Inr (Some xs, b3) \<Longrightarrow>
      parse_elements (Suc n) b = Inr (Some (x # xs), b3)"
  using assms by simp_all

lemma parse_members_shapes:
  assumes "parse_string (buffer_skip_whitespace (advance 1 b)) = Inr (Some k, b1)"
    and "buffer_skip_whitespace b1 = b2" and "looking_at b2 CHR '':''"
    and "parse_value n (buffer_skip_whitespace (advance 1 b2)) = Inr (Some x, b3)"
    and "buffer_skip_whitespace b3 = b4"
  shows "\<not> looking_at b4 CHR '','' \<Longrightarrow> parse_members (Suc n) b = Inr (Some [(k, x)], b4)"
    and "looking_at b4 CHR '','' \<Longrightarrow> parse_members n b4 = Inr (Some ps, b5) \<Longrightarrow>
      parse_members (Suc n) b = Inr (Some ((k, x) # ps), b5)"
  using assms by simp_all

text \<open>The loop over the elements, from the byte in front of the first.\<close>

lemma parse_elements_text:
  assumes "xs \<noteq> []" and "\<forall>x \<in> set xs. reads fmt x \<and> finite_json x \<and> pd + json_depth x \<le> CJSON_NESTING_LIMIT"
    and "\<forall>w \<in> set ws. blank w" and "4 * length (c # ws @ elements_text fmt d xs @ CHR '']'' # rest) \<le> n + 2"
  shows "parse_elements n (at_text pre (c # ws @ elements_text fmt d xs @ CHR '']'' # rest) pd) =
    Inr (Some xs, at_text (pre @ c # ws @ elements_text fmt d xs) (CHR '']'' # rest) pd)"
  using assms
proof (induction xs arbitrary: n pre c ws)
  case (Cons x xs)
  let ?t = "json_text fmt d x" and ?sep = "if xs = [] then [] else '','' @ (if fmt then '' '' else [])"
  define tail where "tail = ?sep @ elements_text fmt d xs @ CHR '']'' # rest"
  obtain m where m: "n = Suc m" using Cons.prems(4) by (cases n) auto
  obtain c' cs where hd: "?t = c' # cs" "\<not> blank c'" using text_head [of x fmt d] Cons.prems(2) by auto
  have skip: "buffer_skip_whitespace (advance 1 (at_text pre (c # ws @ ?t @ tail) pd)) = at_text (pre @ c # ws) (?t @ tail) pd"
    using skip_text [OF Cons.prems(3) hd(2), of "pre @ [c]" "cs @ tail" pd] by (simp add: hd(1))
  have tl: "delimits tail" "\<exists>t ts. tail = t # ts \<and> \<not> blank t" by (auto simp: tail_def)
  have len: "4 * length (?t @ tail) \<le> m" using Cons.prems(4) m by (simp add: tail_def)
  have v: "parse_value m (at_text (pre @ c # ws) (?t @ tail) pd) = Inr (Some x, at_text ((pre @ c # ws) @ ?t) tail pd)"
    using Cons.prems(2) by (intro readsD tl len) auto
  have eq: "c # ws @ elements_text fmt d (x # xs) @ CHR '']'' # rest = c # ws @ ?t @ tail" by (simp add: tail_def)
  have sk2: "buffer_skip_whitespace (at_text ((pre @ c # ws) @ ?t) tail pd) = at_text ((pre @ c # ws) @ ?t) tail pd"
  proof -
    from tl(2) obtain t ts where "tail = t # ts" "\<not> blank t" by blast
    then show ?thesis by (simp only: skip_text_none not_False_eq_True)
  qed
  show ?case
  proof (cases "xs = []")
    case True
    then have t: "tail = CHR '']'' # rest" by (simp add: tail_def)
    have "\<not> looking_at (at_text ((pre @ c # ws) @ ?t) tail pd) CHR '',''" unfolding t looking_at_text by simp
    from parse_elements_shapes(1) [OF v [folded skip] sk2 this] show ?thesis
      unfolding eq m by (simp add: t True)
  next
    case False
    define ws' where "ws' = (if fmt then '' '' else [])"
    have t: "tail = CHR '','' # ws' @ elements_text fmt d xs @ CHR '']'' # rest" using False by (simp add: tail_def ws'_def)
    have "parse_elements m (at_text ((pre @ c # ws) @ ?t) tail pd) =
        Inr (Some xs, at_text (((pre @ c # ws) @ ?t) @ CHR '','' # ws' @ elements_text fmt d xs) (CHR '']'' # rest) pd)"
      unfolding t
    proof (rule Cons.IH [OF False])
      show "4 * length (CHR '','' # ws' @ elements_text fmt d xs @ CHR '']'' # rest) \<le> m + 2" using len by (simp add: t)
    qed (use Cons.prems(2) in \<open>auto simp: ws'_def\<close>)
    moreover have "looking_at (at_text ((pre @ c # ws) @ ?t) tail pd) CHR '',''" unfolding t looking_at_text ..
    ultimately show ?thesis
      using parse_elements_shapes(2) [OF v [folded skip] sk2] unfolding eq m by (simp add: False ws'_def)
  qed
qed simp

text \<open>
  The loop over the members, from the byte in front of the first key: \<open>members_body\<close> is
  the text of the members without the tabs in front.
\<close>

abbreviation lead :: "bool \<Rightarrow> nat \<Rightarrow> string" where
  "lead fmt d \<equiv> (if fmt then tabs d else [])"

definition members_body :: "bool \<Rightarrow> nat \<Rightarrow> (string \<times> json) list \<Rightarrow> string" where
  "members_body fmt d ps = drop (length (lead fmt d)) (members_text fmt d ps)"

lemma members_text_body: "ps \<noteq> [] \<Longrightarrow> members_text fmt d ps = lead fmt d @ members_body fmt d ps"
  by (cases ps) (auto simp: members_body_def)

lemma blank_lead: "\<forall>w \<in> set (lead fmt d). blank w"
  by auto

lemma parse_members_text:
  assumes "ps \<noteq> []"
    and "\<forall>p \<in> set ps. CHR 0x00 \<notin> set (fst p) \<and> reads fmt (snd p) \<and> finite_json (snd p) \<and>
      pd + json_depth (snd p) \<le> CJSON_NESTING_LIMIT"
    and "\<forall>w \<in> set ws. blank w" and "\<forall>w \<in> set cl. blank w"
    and "4 * length (c # ws @ members_body fmt d ps @ cl @ CHR ''}'' # rest) \<le> n + 2"
  shows "parse_members n (at_text pre (c # ws @ members_body fmt d ps @ cl @ CHR ''}'' # rest) pd) =
    Inr (Some ps, at_text (pre @ c # ws @ members_body fmt d ps @ cl) (CHR ''}'' # rest) pd)"
  using assms
proof (induction ps arbitrary: n pre c ws)
  case (Cons p ps)
  obtain k x where p: "p = (k, x)" by (cases p)
  define tab nl where tab: "tab = (if fmt then [CHR 0x09] else [])" and nl: "nl = (if fmt then [CHR 0x0A] else [])"
  let ?t = "json_text fmt d x" and ?k = "quoted k"
  define tail where "tail = (if ps = [] then [] else '','') @ nl @ members_text fmt d ps @ cl @ CHR ''}'' # rest"
  define after where "after = tab @ ?t @ tail"
  have eq: "c # ws @ members_body fmt d (p # ps) @ cl @ CHR ''}'' # rest = c # ws @ ?k @ CHR '':'' # after"
    by (simp add: members_body_def p after_def tail_def tab nl)
  obtain m where m: "n = Suc m" using Cons.prems(5) by (cases n) auto
  obtain q qs where q: "?k = q # qs" "\<not> blank q" by (auto simp: quoted_def)
  obtain c' cs where hd: "?t = c' # cs" "\<not> blank c'" using text_head [of x fmt d] Cons.prems(2) p by auto
  let ?pre1 = "(pre @ c # ws) @ ?k" and ?pre3 = "((pre @ c # ws) @ ?k @ '':'' @ tab) @ ?t"
  have skip1: "buffer_skip_whitespace (advance 1 (at_text pre (c # ws @ ?k @ CHR '':'' # after) pd)) =
      at_text (pre @ c # ws) (?k @ CHR '':'' # after) pd"
    using skip_text [OF Cons.prems(3) q(2), of "pre @ [c]" "qs @ CHR '':'' # after" pd] by (simp add: q(1))
  have key: "parse_string (at_text (pre @ c # ws) (?k @ CHR '':'' # after) pd) = Inr (Some k, at_text ?pre1 (CHR '':'' # after) pd)"
    using Cons.prems(2) p by (intro parse_quoted) simp
  have skip2: "buffer_skip_whitespace (at_text ?pre1 (CHR '':'' # after) pd) = at_text ?pre1 (CHR '':'' # after) pd"
    by (rule skip_text_none) simp
  have colon: "looking_at (at_text ?pre1 (CHR '':'' # after) pd) CHR '':''" unfolding looking_at_text ..
  have "\<forall>w \<in> set tab. blank w" by (simp add: tab)
  from skip_text [OF this hd(2), of "?pre1 @ '':''" "cs @ tail" pd]
  have skip3: "buffer_skip_whitespace (advance 1 (at_text ?pre1 (CHR '':'' # after) pd)) =
      at_text ((pre @ c # ws) @ ?k @ '':'' @ tab) (?t @ tail) pd" by (simp add: after_def hd(1))
  have len: "4 * length (?t @ tail) \<le> m" using Cons.prems(5) m unfolding eq by (simp add: after_def)
  have tl: "delimits tail" using Cons.prems(4) by (auto simp: tail_def nl intro: delimits_blank)
  have v: "parse_value m (at_text ((pre @ c # ws) @ ?k @ '':'' @ tab) (?t @ tail) pd) = Inr (Some x, at_text ?pre3 tail pd)"
    using Cons.prems(2) p by (intro readsD tl len) auto
  note turn = parse_members_shapes [where ?b3.0 = "at_text ?pre3 tail pd", OF key [folded skip1] skip2 colon v [folded skip3]]
  show ?case
  proof (cases "ps = []")
    case True
    then have t: "tail = (nl @ cl) @ CHR ''}'' # rest" by (simp add: tail_def)
    have "\<forall>w \<in> set (nl @ cl). blank w" using Cons.prems(4) by (auto simp: nl)
    then have skip4: "buffer_skip_whitespace (at_text ?pre3 tail pd) = at_text (?pre3 @ nl @ cl) (CHR ''}'' # rest) pd"
      unfolding t by (rule skip_text) simp
    have "\<not> looking_at (at_text (?pre3 @ nl @ cl) (CHR ''}'' # rest) pd) CHR '',''" unfolding looking_at_text by simp
    from turn(1) [OF skip4 this] show ?thesis
      unfolding eq m by (simp add: p True members_body_def tab nl after_def tail_def)
  next
    case False
    let ?ws = "nl @ lead fmt d"
    have t: "tail = CHR '','' # ?ws @ members_body fmt d ps @ cl @ CHR ''}'' # rest"
      using False by (simp add: tail_def members_text_body)
    have "parse_members m (at_text ?pre3 tail pd) =
        Inr (Some ps, at_text (?pre3 @ CHR '','' # ?ws @ members_body fmt d ps @ cl) (CHR ''}'' # rest) pd)"
      unfolding t
    proof (rule Cons.IH [OF False])
      show "4 * length (CHR '','' # ?ws @ members_body fmt d ps @ cl @ CHR ''}'' # rest) \<le> m + 2" using len by (simp add: t)
    qed (use Cons.prems(2,4) in \<open>auto simp: nl\<close>)
    moreover have "looking_at (at_text ?pre3 tail pd) CHR '',''" unfolding t looking_at_text ..
    moreover have "buffer_skip_whitespace (at_text ?pre3 tail pd) = at_text ?pre3 tail pd"
      unfolding t by (rule skip_text_none) simp
    ultimately have "parse_members (Suc m) (at_text pre (c # ws @ ?k @ CHR '':'' # after) pd) =
        Inr (Some ((k, x) # ps), at_text (?pre3 @ CHR '','' # ?ws @ members_body fmt d ps @ cl) (CHR ''}'' # rest) pd)"
      by (intro turn(2))
    moreover have "?pre3 @ CHR '','' # ?ws @ members_body fmt d ps @ cl = pre @ c # ws @ members_body fmt d (p # ps) @ cl"
      using False by (simp add: p members_body_def [of _ _ "(k, x) # ps"] members_text_body tab nl)
    ultimately show ?thesis unfolding m eq unfolding p by (simp only:)
  qed
qed simp

lemma depth_children:
  "pd + json_depth (JArray xs) \<le> L \<Longrightarrow> pd < L \<and> (\<forall>x \<in> set xs. Suc pd + json_depth x \<le> L)"
  "pd + json_depth (JObject ps) \<le> L \<Longrightarrow> pd < L \<and> (\<forall>p \<in> set ps. Suc pd + json_depth (snd p) \<le> L)"
proof -
  show "pd < L \<and> (\<forall>x \<in> set xs. Suc pd + json_depth x \<le> L)" if "pd + json_depth (JArray xs) \<le> L"
  proof -
    have "0 < json_depth (JArray xs)" by (simp add: json_depth.simps(1) [of xs])
    with that json_depth_array_le [of xs "L - pd - 1"] show ?thesis by force
  qed
  show "pd < L \<and> (\<forall>p \<in> set ps. Suc pd + json_depth (snd p) \<le> L)" if "pd + json_depth (JObject ps) \<le> L"
  proof -
    have "0 < json_depth (JObject ps)" by (simp add: json_depth.simps(2) [of ps])
    with that json_depth_object_le [of ps "L - pd - 1"] show ?thesis by force
  qed
qed

text \<open>The bracket that closes an array or object, one level up.\<close>

lemma close_text: "close_bracket (at_text pre (c # rest) (Suc d)) = at_text (pre @ [c]) rest d"
  by simp

text \<open>The two ways through \<open>parse_array\<close> and \<open>parse_object\<close>: at once closed, or over the loop.\<close>

lemma parse_array_shapes:
  assumes "pb_depth b < CJSON_NESTING_LIMIT" and "buffer_at b 0 = Inr CHR ''[''"
    and "buffer_skip_whitespace (advance 1 (deeper b)) = b1"
  shows "looking_at b1 CHR '']'' \<Longrightarrow> parse_array (Suc n) b = Inr (Some (JArray []), close_bracket b1)"
    and "\<not> looking_at b1 CHR '']'' \<Longrightarrow> can_access_at_index b1 0 \<Longrightarrow>
      parse_elements n (step_back b1) = Inr (Some xs, b2) \<Longrightarrow> looking_at b2 CHR '']'' \<Longrightarrow>
      parse_array (Suc n) b = Inr (Some (JArray xs), close_bracket b2)"
  using assms(1,2) unfolding parse_array.simps Let_def assms(3) by simp_all

lemma parse_object_shapes:
  assumes "pb_depth b < CJSON_NESTING_LIMIT" and "looking_at b CHR ''{''"
    and "buffer_skip_whitespace (advance 1 (deeper b)) = b1"
  shows "looking_at b1 CHR ''}'' \<Longrightarrow> parse_object (Suc n) b = Inr (Some (JObject []), close_bracket b1)"
    and "\<not> looking_at b1 CHR ''}'' \<Longrightarrow> can_access_at_index b1 0 \<Longrightarrow>
      parse_members n (step_back b1) = Inr (Some ps, b2) \<Longrightarrow> looking_at b2 CHR ''}'' \<Longrightarrow>
      parse_object (Suc n) b = Inr (Some (JObject ps), close_bracket b2)"
  using assms(1,2) unfolding parse_object.simps Let_def assms(3) by simp_all

lemma reads_array:
  assumes "\<forall>x \<in> set xs. reads fmt x \<and> finite_json x"
  shows "reads fmt (JArray xs)"
proof (rule reads_intro)
  fix n d pre rest pd
  let ?es = "elements_text fmt (d + 1) xs" and ?L = CJSON_NESTING_LIMIT
  assume deep: "pd + json_depth (JArray xs) \<le> ?L" and fuel: "4 * length (json_text fmt d (JArray xs) @ rest) \<le> Suc n"
  note dc = depth_children(1) [OF deep]
  obtain m where m: "n = Suc m" using fuel by (cases n) auto
  let ?b = "at_text pre (CHR ''['' # ?es @ CHR '']'' # rest) pd"
  let ?b1 = "at_text (pre @ ''['') (?es @ CHR '']'' # rest) (Suc pd)"
  let ?b2 = "at_text (pre @ CHR ''['' # ?es) (CHR '']'' # rest) (Suc pd)"
  have b: "pb_depth ?b < ?L" "buffer_at ?b 0 = Inr CHR ''[''" using dc by simp_all
  have "\<exists>c cs. ?es @ CHR '']'' # rest = c # cs \<and> \<not> blank c \<and> (xs \<noteq> [] \<longrightarrow> c \<noteq> CHR '']'')"
  proof (cases xs)
    case (Cons x xs')
    with text_head [of x fmt "d + 1"] assms show ?thesis by auto
  qed simp
  then obtain c cs where hd: "?es @ CHR '']'' # rest = c # cs" "\<not> blank c" "xs \<noteq> [] \<Longrightarrow> c \<noteq> CHR '']''" by blast
  have adv: "advance 1 (deeper ?b) = ?b1" by simp
  have b1: "buffer_skip_whitespace (advance 1 (deeper ?b)) = ?b1" unfolding adv unfolding hd(1) by (rule skip_text_none [OF hd(2)])
  have "parse_array n ?b = Inr (Some (JArray xs), close_bracket ?b2)"
  proof (cases "xs = []")
    case True
    then have e: "?b1 = at_text (pre @ ''['') (CHR '']'' # rest) (Suc pd)" by simp
    have "looking_at ?b1 CHR '']''" unfolding e looking_at_text by simp
    from parse_array_shapes(1) [OF b b1 this] show ?thesis unfolding m by (simp add: True)
  next
    case False
    have sb: "step_back ?b1 = at_text pre (CHR ''['' # [] @ ?es @ CHR '']'' # rest) (Suc pd)" by simp
    have "parse_elements m (step_back ?b1) = Inr (Some xs, ?b2)"
      using parse_elements_text [OF False, of fmt "Suc pd" "[]" "CHR ''[''" "d + 1" rest m pre] dc assms fuel
      unfolding sb by (auto simp: m)
    moreover have "\<not> looking_at ?b1 CHR '']''" unfolding hd(1) looking_at_text using hd(3) False by simp
    moreover have "can_access_at_index ?b1 0" unfolding hd(1) by (rule access_text)
    moreover have "looking_at ?b2 CHR '']''" unfolding looking_at_text ..
    ultimately show ?thesis unfolding m by (intro parse_array_shapes(2) [OF b b1])
  qed
  then show "parse_value (Suc n) (at_text pre (json_text fmt d (JArray xs) @ rest) pd) =
      Inr (Some (JArray xs), at_text (pre @ json_text fmt d (JArray xs)) rest pd)"
    unfolding json_text.simps append_Cons append_assoc append_Nil parse_value_head(2) by simp
qed

lemma reads_object:
  assumes "\<forall>p \<in> set ps. CHR 0x00 \<notin> set (fst p) \<and> reads fmt (snd p) \<and> finite_json (snd p)"
  shows "reads fmt (JObject ps)"
proof (rule reads_intro)
  fix n d pre rest pd
  define nl where nl: "nl = (if fmt then [CHR 0x0A] else [])"
  let ?L = CJSON_NESTING_LIMIT
  define inner where "inner = nl @ members_text fmt (d + 1) ps @ lead fmt d"
  assume deep: "pd + json_depth (JObject ps) \<le> ?L" and "4 * length (json_text fmt d (JObject ps) @ rest) \<le> Suc n"
  then have fuel: "4 * length (CHR ''{'' # inner @ CHR ''}'' # rest) \<le> Suc n" by (simp add: inner_def nl)
  note dc = depth_children(2) [OF deep]
  obtain m where m: "n = Suc m" using fuel by (cases n) auto
  let ?b = "at_text pre (CHR ''{'' # inner @ CHR ''}'' # rest) pd"
  let ?b2 = "at_text (pre @ CHR ''{'' # inner) (CHR ''}'' # rest) (Suc pd)"
  have b: "pb_depth ?b < ?L" "looking_at ?b CHR ''{''" using dc by simp_all
  have adv: "advance 1 (deeper ?b) = at_text (pre @ ''{'') (inner @ CHR ''}'' # rest) (Suc pd)" by simp
  have b2: "looking_at ?b2 CHR ''}''" unfolding looking_at_text ..
  have "parse_object n ?b = Inr (Some (JObject ps), close_bracket ?b2)"
  proof (cases "ps = []")
    case True
    then have "\<forall>w \<in> set inner. blank w" by (auto simp: inner_def nl)
    then have "buffer_skip_whitespace (advance 1 (deeper ?b)) = at_text ((pre @ ''{'') @ inner) (CHR ''}'' # rest) (Suc pd)"
      unfolding adv by (rule skip_text) simp
    also have "(pre @ ''{'') @ inner = pre @ CHR ''{'' # inner" by simp
    finally show ?thesis using b2 unfolding m True by (intro parse_object_shapes(1) [OF b])
  next
    case False
    define ws where "ws = nl @ lead fmt (d + 1)"
    define body where "body = members_body fmt (d + 1) ps"
    have inner: "inner = ws @ body @ lead fmt d" using False by (simp add: inner_def ws_def body_def members_text_body)
    obtain bs where bs: "body = CHR 0x22 # bs"
      using False by (cases ps) (auto simp: body_def members_body_def quoted_def)
    have "CHR ''{'' # ws \<noteq> []" by simp
    then obtain c pre' where ws: "CHR ''{'' # ws = pre' @ [c]" by (metis rev_exhaust)
    let ?b1 = "at_text (pre @ CHR ''{'' # ws) (body @ lead fmt d @ CHR ''}'' # rest) (Suc pd)"
    have "\<forall>w \<in> set ws. blank w" by (auto simp: ws_def nl)
    from skip_text [OF this, of "CHR 0x22" "pre @ ''{''" "bs @ lead fmt d @ CHR ''}'' # rest" "Suc pd"]
    have b1: "buffer_skip_whitespace (advance 1 (deeper ?b)) = ?b1" by (simp add: inner bs)
    have sb: "step_back ?b1 = at_text (pre @ pre') (c # [] @ body @ lead fmt d @ CHR ''}'' # rest) (Suc pd)"
      unfolding ws by simp
    have len: "4 * length (c # [] @ body @ lead fmt d @ CHR ''}'' # rest) \<le> m + 2"
      using fuel by (simp add: inner m)
    have at: "(pre @ pre') @ c # [] @ body @ lead fmt d = pre @ CHR ''{'' # inner"
      using arg_cong [OF ws, of "\<lambda>xs. pre @ xs @ body @ lead fmt d"] by (simp add: inner)
    have "parse_members m (step_back ?b1) = Inr (Some ps, at_text ((pre @ pre') @ c # [] @ body @ lead fmt d) (CHR ''}'' # rest) (Suc pd))"
      unfolding sb unfolding body_def
      by (rule parse_members_text [OF False]) (use dc assms len body_def in auto)
    moreover have "\<not> looking_at ?b1 CHR ''}''" unfolding bs append_Cons looking_at_text by simp
    moreover have "can_access_at_index ?b1 0" unfolding bs append_Cons by (rule access_text)
    ultimately show ?thesis using b2 unfolding m at by (intro parse_object_shapes(2) [OF b b1])
  qed
  then show "parse_value (Suc n) (at_text pre (json_text fmt d (JObject ps) @ rest) pd) =
      Inr (Some (JObject ps), at_text (pre @ json_text fmt d (JObject ps)) rest pd)"
    unfolding json_text.simps append_Cons append_assoc append_Nil parse_value_head(3)
    by (simp add: inner_def nl)
qed

lemma reads_all: "finite_json j \<Longrightarrow> reads fmt j"
proof (induction j)
  case (JArray xs)
  then show ?case by (intro reads_array) simp
next
  case (JObject ps)
  then show ?case by (intro reads_object) (auto simp: snds.simps)
qed (simp_all add: reads_literal reads_number reads_text)

text \<open>The text the printer writes starts with neither a byte order mark nor a blank.\<close>

lemma text_head_ascii:
  assumes "finite_json j" and "json_text fmt d j = c # cs"
  shows "c \<noteq> CHR 0xEF"
proof (cases j)
  case (JNumber x)
  with assms number_text_head [of x] show ?thesis by (auto simp: is_digit_def)
qed (use assms in \<open>auto simp: quoted_def split: if_splits\<close>)

lemma start_text:
  assumes "finite_json j"
  shows "start_buffer (json_text fmt d j) = at_text [] (json_text fmt d j @ [CHR 0x00]) 0"
proof -
  obtain c cs where t: "json_text fmt d j = c # cs" "\<not> blank c" using text_head [OF assms] by blast
  then have "c \<noteq> CHR 0xEF" using text_head_ascii [OF assms] by blast
  then have "skip_utf8_bom (at_text [] ((c # cs) @ [CHR 0x00]) 0) = at_text [] ((c # cs) @ [CHR 0x00]) 0"
    by (simp add: skip_utf8_bom_def utf8_bom_def)
  then show ?thesis
    using skip_text_none [OF t(2), of "[]" "cs @ [CHR 0x00]" 0] by (simp add: start_buffer_def t(1))
qed

lemma parse_text:
  assumes "finite_json j" and "json_depth j \<le> CJSON_NESTING_LIMIT"
  shows "cJSON_ParseWithOpts (Some (json_text fmt 0 j)) require_null_terminated =
    Inr (Some j, length (json_text fmt 0 j))"
proof -
  let ?t = "json_text fmt 0 j"
  have "parse_value (4 * length ?t + 4) (at_text [] (?t @ [CHR 0x00]) 0) = Inr (Some j, at_text ([] @ ?t) [CHR 0x00] 0)"
    by (rule readsD [OF reads_all]) (use assms in simp_all)
  moreover have "buffer_skip_whitespace (at_text ?t [CHR 0x00] 0) = at_text ?t [CHR 0x00] 0"
    by (simp add: buffer_skip_whitespace_def)
  ultimately show ?thesis
    using start_text [OF assms(1), of fmt 0] by (simp add: cJSON_ParseWithOpts_def)
qed

lemma double_number: "is_double x \<Longrightarrow> is_number x"
  by (simp add: is_number_def)

lemma finite_printable: "finite_json j \<Longrightarrow> printable j"
  by (induction j) (auto simp: double_number snds.simps)

text \<open>
  C9: printing and parsing are inverse: a tree of finite doubles and NUL-free strings that
  nests no deeper than the parser accepts is printed, formatted or not, to a text that
  parses back to the same tree, to its last byte and with nothing left over.\<close>

theorem cjson_roundtrip:
  assumes "finite_json j" and "json_depth j \<le> CJSON_NESTING_LIMIT"
    and "length (json_text fmt 0 j) + 2 \<le> INT_MAX"
  shows "\<exists>t. print A j fmt = Inr (Some t) \<and>
    cJSON_ParseWithOpts (Some t) require_null_terminated = Inr (Some j, length t)"
  using print_text [OF finite_printable [OF assms(1)] assms(3)] parse_text [OF assms(1,2)] by blast

theorem cjson_roundtrip_witness:
  "\<exists>t. print \<lparr>reallocates = False, fresh = (\<lambda>_. CHR ''?'')\<rparr>
        (JObject [(''a'', JArray [JNull, JNumber (3/2)]), (''b'', JText ''c'')]) True = Inr (Some t) \<and>
    cJSON_ParseWithOpts (Some t) True = 
      Inr (Some (JObject [(''a'', JArray [JNull, JNumber (3/2)]), (''b'', JText ''c'')]), length t)"
proof (rule cjson_roundtrip)
  let ?j = "JObject [(''a'', JArray [JNull, JNumber (3/2)]), (''b'', JText ''c'')]"
  have d: "is_double (3/2)" by code_simp
  then have "length (number_text (3/2)) \<le> 24" by (intro number_text_chars) (simp add: is_number_def)
  then show "length (json_text True 0 ?j) + 2 \<le> INT_MAX"
    by (simp add: INT_MAX_def quoted_def escape_char_def short_escape_def)
  show "finite_json ?j" using d by simp
  show "json_depth ?j \<le> CJSON_NESTING_LIMIT" by (simp add: json_depth.simps(1,2) CJSON_NESTING_LIMIT_def)
qed

end
