(* ===== verification/LD_Semver.thy ===== *)
theory LD_Semver
  imports LD_Operators LD_Decimal_Laws
begin

text \<open>
  third-party/src/semver.c: parsing, ordering, matching and rendering of semantic versions.
  Strings are C strings without NUL; \<open>long\<close> has 64 bits and \<open>int\<close> 32, and the
  conversion from the one to the other keeps the low bits. Arithmetic on \<open>int\<close> that leaves
  its range is a fault. Results are the C integers: zero and minus one of the parser, minus
  one, zero and one of the comparisons.
\<close>

section \<open>Integers\<close>

definition c_int :: "int \<Rightarrow> int" where
  "c_int n = sint (word_of_int n :: u32)"

definition int_add :: "int \<Rightarrow> int \<Rightarrow> int run" where
  "int_add a b = (if - (2 ^ 31) \<le> a + b \<and> a + b < 2 ^ 31 then Inr (a + b) else Inl SignedOverflow)"

definition isspace :: "char \<Rightarrow> bool" where
  "isspace c = (c \<in> {CHR '' '', CHR 0x09, CHR 0x0A, CHR 0x0B, CHR 0x0C, CHR 0x0D})"

text \<open>
  \<open>strtol\<close> in base ten: the value, clamped to \<open>long\<close>, and the number of characters
  up to \<open>endptr\<close>.
\<close>

definition strtol :: "string \<Rightarrow> int \<times> nat" where
  "strtol s =
     (let w = length (takeWhile isspace s); (neg, k) = read_sign (drop w s);
          ds = takeWhile is_digit (drop (w + k) s); n = int (read_nat ds)
      in
      if ds = [] then (0, 0)
      else (if neg then max (- (2 ^ 63)) (- n) else min (2 ^ 63 - 1) n, w + k + length ds))"

section \<open>Helpers\<close>

definition SLICE_SIZE :: nat where "SLICE_SIZE = 50"

definition MAX_SIZE :: nat where "MAX_SIZE = 255"

definition NUMBERS :: string where "NUMBERS = ''0123456789''"

definition VALID_CHARS :: string where
  "VALID_CHARS = NUMBERS @ ''abcdefghijklmnopqrstuvwxyzABCDEFGHIJKLMNOPQRSTUVWXYZ'' @ ''.-+''"

text \<open>The string without the characters cut out, and how many they are.\<close>

definition strcut :: "string \<Rightarrow> nat \<Rightarrow> int \<Rightarrow> string \<times> int" where
  "strcut str begin len =
     (let l = int (length str) in
      if 2 ^ 31 \<le> l then (str, - 1)
      else
        let len = (if len < 0 then l - int begin + 1 else len);
            len = (if int begin + len > l then l - int begin else len)
        in (take begin str @ drop (begin + nat len) str, len))"

fun contains :: "char \<Rightarrow> string \<Rightarrow> bool" where
  "contains c [] = False"
| "contains c (x # matrix) = (if x = c then True else contains c matrix)"

fun has_valid_chars :: "string \<Rightarrow> string \<Rightarrow> bool" where
  "has_valid_chars [] matrix = True"
| "has_valid_chars (c # str) matrix = (if \<not> contains c matrix then False else has_valid_chars str matrix)"

definition binary_comparison :: "int \<Rightarrow> int \<Rightarrow> int" where
  "binary_comparison x y = (if x = y then 0 else if x > y then 1 else - 1)"

definition parse_int :: "string \<Rightarrow> int" where
  "parse_int s = (if \<not> has_valid_chars s NUMBERS then - 1 else c_int (fst (strtol s)))"

text \<open>What follows the separator, and the buffer cut off in front of it.\<close>

definition parse_slice :: "string \<Rightarrow> char \<Rightarrow> string option \<times> string" where
  "parse_slice buf sep =
     (if sep \<in> set buf then (Some (tl (dropWhile (\<lambda>c. c \<noteq> sep) buf)), takeWhile (\<lambda>c. c \<noteq> sep) buf)
      else (None, buf))"

section \<open>Parsing\<close>

definition has_valid_length :: "string \<Rightarrow> bool" where
  "has_valid_length s = (length s \<le> MAX_SIZE)"

definition semver_is_valid :: "string \<Rightarrow> bool" where
  "semver_is_valid s = (has_valid_length s \<and> has_valid_chars s VALID_CHARS)"

abbreviation component :: "string \<Rightarrow> string" where
  "component s \<equiv> takeWhile (\<lambda>c. c \<noteq> CHR ''.'') s"

definition store_component :: "nat \<Rightarrow> int \<Rightarrow> semver_t \<Rightarrow> semver_t" where
  "store_component index v ver =
     (if index = 1 then ver\<lparr>sv_major := v\<rparr>
      else if index = 2 then ver\<lparr>sv_minor := v\<rparr>
      else if index = 3 then ver\<lparr>sv_patch := v\<rparr> else ver)"

text \<open>The loop, with the value of \<open>index\<close> after its increment.\<close>

function parse_version_loop :: "nat \<Rightarrow> string \<Rightarrow> semver_t \<Rightarrow> int \<times> semver_t" where
  "parse_version_loop index part ver =
     (let len = length (component part); more = CHR ''.'' \<in> set part; (v, n) = strtol part in
      if len > SLICE_SIZE then (- 1, ver)
      else if \<not> (more \<and> n = len) \<and> n \<noteq> length part then (- 1, ver)
      else if part \<noteq> [] \<and> hd part = CHR ''0'' \<and> n > 1 then (- 1, ver)
      else
        let ver = store_component index (c_int v) ver in
        if index = 3 \<and> more then (- 1, ver)
        else if more \<and> index < 4 then parse_version_loop (index + 1) (drop (len + 1) part) ver
        else (0, ver))"
  by pat_completeness auto
termination
  by (relation "measure (\<lambda>(index, part, ver). 4 - index)") auto

declare parse_version_loop.simps [simp del]

definition semver_parse_version :: "string \<Rightarrow> semver_t \<Rightarrow> int \<times> semver_t" where
  "semver_parse_version str ver = parse_version_loop 1 str ver"

definition semver_parse :: "string \<Rightarrow> semver_t \<Rightarrow> int \<times> semver_t" where
  "semver_parse str ver =
     (if \<not> semver_is_valid str then (- 1, ver)
      else
        let (meta, buf) = parse_slice str CHR ''+''; (pre, buf) = parse_slice buf CHR ''-'' in
        semver_parse_version buf (ver\<lparr>sv_metadata := meta, sv_prerelease := pre\<rparr>))"

section \<open>Comparison\<close>

text \<open>The sign of \<open>strncmp\<close>, which compares bytes as \<open>unsigned char\<close>.\<close>

fun strncmp :: "string \<Rightarrow> string \<Rightarrow> nat \<Rightarrow> int" where
  "strncmp s t 0 = 0"
| "strncmp [] [] (Suc n) = 0"
| "strncmp [] (b # t) (Suc n) = - 1"
| "strncmp (a # s) [] (Suc n) = 1"
| "strncmp (a # s) (b # t) (Suc n) =
     (if a = b then strncmp s t n else if (of_char a :: nat) < of_char b then - 1 else 1)"

text \<open>One turn of the loop on the components at \<open>lastx\<close> and \<open>lasty\<close>.\<close>

definition compare_component :: "string \<Rightarrow> string \<Rightarrow> int" where
  "compare_component lastx lasty =
     (let xn = length (component lastx); yn = length (component lasty);
          (xv, xe) = strtol lastx; (yv, ye) = strtol lasty;
          xnum = c_int xv; ynum = c_int yv; xisnum = (xe = xn); yisnum = (ye = yn)
      in
      if xisnum \<and> \<not> yisnum then - 1
      else if \<not> xisnum \<and> yisnum then 1
      else if xisnum \<and> yisnum then (if xnum \<noteq> ynum then (if xnum < ynum then - 1 else 1) else 0)
      else
        let res = strncmp lastx lasty (min xn yn) in
        if res \<noteq> 0 then (if res < 0 then - 1 else 1)
        else if xn \<noteq> yn then (if xn < yn then - 1 else 1) else 0)"

function compare_prerelease_loop :: "string \<Rightarrow> string \<Rightarrow> int" where
  "compare_prerelease_loop lastx lasty =
     (let c = compare_component lastx lasty in
      if c \<noteq> 0 then c
      else if CHR ''.'' \<notin> set lastx \<and> CHR ''.'' \<notin> set lasty then 0
      else if CHR ''.'' \<notin> set lastx then - 1
      else if CHR ''.'' \<notin> set lasty then 1
      else
        compare_prerelease_loop (drop (length (component lastx) + 1) lastx)
          (drop (length (component lasty) + 1) lasty))"
  by pat_completeness auto
termination
  by (relation "measure (\<lambda>(x, y). length x)") (auto simp: Let_def intro: diff_less length_pos_if_in_set)

declare compare_prerelease_loop.simps [simp del]

definition compare_prerelease :: "string option \<Rightarrow> string option \<Rightarrow> int" where
  "compare_prerelease x y =
     (case (x, y) of
        (None, None) \<Rightarrow> 0
      | (Some _, None) \<Rightarrow> - 1
      | (None, Some _) \<Rightarrow> 1
      | (Some x, Some y) \<Rightarrow> compare_prerelease_loop x y)"

definition semver_compare_prerelease :: "semver_t \<Rightarrow> semver_t \<Rightarrow> int" where
  "semver_compare_prerelease x y = compare_prerelease (sv_prerelease x) (sv_prerelease y)"

definition semver_compare_version :: "semver_t \<Rightarrow> semver_t \<Rightarrow> int" where
  "semver_compare_version x y =
     (let res = binary_comparison (sv_major x) (sv_major y) in
      if res = 0 then
        let res = binary_comparison (sv_minor x) (sv_minor y) in
        if res = 0 then binary_comparison (sv_patch x) (sv_patch y) else res
      else res)"

definition semver_compare :: "semver_t \<Rightarrow> semver_t \<Rightarrow> int" where
  "semver_compare x y =
     (let res = semver_compare_version x y in
      if res = 0 then semver_compare_prerelease x y else res)"

definition semver_gt :: "semver_t \<Rightarrow> semver_t \<Rightarrow> bool" where "semver_gt x y = (semver_compare x y = 1)"

definition semver_lt :: "semver_t \<Rightarrow> semver_t \<Rightarrow> bool" where "semver_lt x y = (semver_compare x y = - 1)"

definition semver_eq :: "semver_t \<Rightarrow> semver_t \<Rightarrow> bool" where "semver_eq x y = (semver_compare x y = 0)"

definition semver_neq :: "semver_t \<Rightarrow> semver_t \<Rightarrow> bool" where "semver_neq x y = (semver_compare x y \<noteq> 0)"

definition semver_gte :: "semver_t \<Rightarrow> semver_t \<Rightarrow> bool" where "semver_gte x y = (semver_compare x y \<ge> 0)"

definition semver_lte :: "semver_t \<Rightarrow> semver_t \<Rightarrow> bool" where "semver_lte x y = (semver_compare x y \<le> 0)"

section \<open>Matching, rendering, cleaning\<close>

definition semver_satisfies_caret :: "semver_t \<Rightarrow> semver_t \<Rightarrow> bool" where
  "semver_satisfies_caret x y =
     (if sv_major x = sv_major y then if sv_major x = 0 then sv_minor x \<ge> sv_minor y else True else False)"

definition semver_satisfies_patch :: "semver_t \<Rightarrow> semver_t \<Rightarrow> bool" where
  "semver_satisfies_patch x y = (sv_major x = sv_major y \<and> sv_minor x = sv_minor y)"

text \<open>
  The operator is a C string: its first byte may be the terminator, and the second is read
  in any case, which an empty operator does not have.
\<close>

definition semver_satisfies :: "semver_t \<Rightarrow> semver_t \<Rightarrow> string \<Rightarrow> bool run" where
  "semver_satisfies x y op =
     (if op = [] then Inl OutOfBounds
      else
        let first = hd op; second = (op @ [CHR 0x00]) ! 1 in
        Inr (if first = CHR ''^'' then semver_satisfies_caret x y
          else if first = CHR ''~'' then semver_satisfies_patch x y
          else if first = CHR ''='' then semver_eq x y
          else if first = CHR ''>'' then if second = CHR ''='' then semver_gte x y else semver_gt x y
          else if first = CHR ''<'' then if second = CHR ''='' then semver_lte x y else semver_lt x y
          else False))"

definition semver_free :: "semver_t \<Rightarrow> semver_t" where
  "semver_free x = x\<lparr>sv_metadata := None, sv_prerelease := None\<rparr>"

text \<open>The text appended; the buffer on the stack has room for \<open>SLICE_SIZE\<close> bytes.\<close>

definition concat_num :: "string \<Rightarrow> int \<Rightarrow> string option \<Rightarrow> string run" where
  "concat_num str x sep =
     (let buf = (case sep of None \<Rightarrow> show_int x | Some sep \<Rightarrow> sep @ show_int x) in
      if length buf < SLICE_SIZE then Inr (str @ buf) else Inl OutOfBounds)"

definition concat_char :: "string \<Rightarrow> string \<Rightarrow> string \<Rightarrow> string run" where
  "concat_char str x sep =
     (let buf = sep @ x in if length buf < SLICE_SIZE then Inr (str @ buf) else Inl OutOfBounds)"

abbreviation concat_if :: "bool \<Rightarrow> (string \<Rightarrow> string run) \<Rightarrow> string \<Rightarrow> string run" where
  "concat_if c f s \<equiv> (if c then f s else Inr s)"

definition concat_text :: "string option \<Rightarrow> string \<Rightarrow> string \<Rightarrow> string run" where
  "concat_text x sep s = (case x of None \<Rightarrow> Inr s | Some t \<Rightarrow> concat_char s t sep)"

definition semver_render :: "semver_t \<Rightarrow> string \<Rightarrow> string run" where
  "semver_render x dest =
     run_bind (concat_if (sv_major x \<noteq> 0) (\<lambda>s. concat_num s (sv_major x) None) dest) (\<lambda>s.
     run_bind (concat_if (sv_minor x \<noteq> 0) (\<lambda>s. concat_num s (sv_minor x) (Some ''.'')) s) (\<lambda>s.
     run_bind (concat_if (sv_patch x \<noteq> 0) (\<lambda>s. concat_num s (sv_patch x) (Some ''.'')) s) (\<lambda>s.
     run_bind (concat_text (sv_prerelease x) ''-'' s) (\<lambda>s.
     concat_text (sv_metadata x) ''+'' s))))"

definition semver_bump :: "semver_t \<Rightarrow> semver_t run" where
  "semver_bump x = run_bind (int_add (sv_major x) 1) (\<lambda>n. Inr (x\<lparr>sv_major := n\<rparr>))"

definition semver_bump_minor :: "semver_t \<Rightarrow> semver_t run" where
  "semver_bump_minor x = run_bind (int_add (sv_minor x) 1) (\<lambda>n. Inr (x\<lparr>sv_minor := n\<rparr>))"

definition semver_bump_patch :: "semver_t \<Rightarrow> semver_t run" where
  "semver_bump_patch x = run_bind (int_add (sv_patch x) 1) (\<lambda>n. Inr (x\<lparr>sv_patch := n\<rparr>))"

text \<open>
  The loop of \<open>semver_clean\<close>: a character that is cut out is replaced by the next, at the
  same index (\<open>--i\<close> and the increment of the loop cancel out, through zero).
\<close>

function clean_loop :: "nat \<Rightarrow> string \<Rightarrow> int \<times> string" where
  "clean_loop i s =
     (if i < length s then
        if \<not> contains (s ! i) VALID_CHARS then
          let (s', res) = strcut s i 1 in
          if res = - 1 then (- 1, s') else clean_loop i s'
        else clean_loop (i + 1) s
      else (0, s))"
  by pat_completeness auto
termination
  by (relation "measure (\<lambda>(i, s). length s - i)") (auto simp: strcut_def Let_def split: if_splits)

declare clean_loop.simps [simp del]

definition semver_clean :: "string \<Rightarrow> int \<times> string" where
  "semver_clean s = (if \<not> has_valid_length s then (- 1, s) else clean_loop 0 s)"

fun char_to_int_loop :: "string \<Rightarrow> int \<Rightarrow> int run" where
  "char_to_int_loop [] buf = Inr buf"
| "char_to_int_loop (c # str) buf =
     (if contains c VALID_CHARS then run_bind (int_add buf (of_char c)) (char_to_int_loop str)
      else char_to_int_loop str buf)"

definition char_to_int :: "string \<Rightarrow> int run" where
  "char_to_int str = char_to_int_loop str 0"

definition add_text :: "string option \<Rightarrow> int \<Rightarrow> int run" where
  "add_text x num = (case x of None \<Rightarrow> Inr num | Some t \<Rightarrow> run_bind (char_to_int t) (int_add num))"

text \<open>The buffer has three times \<open>SLICE_SIZE\<close> bytes, enough for three integers.\<close>

definition semver_numeric :: "semver_t \<Rightarrow> int run" where
  "semver_numeric x =
     run_bind (concat_if (sv_major x \<noteq> 0) (\<lambda>s. concat_num s (sv_major x) None) []) (\<lambda>s.
     run_bind (concat_if (sv_minor x \<noteq> 0) (\<lambda>s. concat_num s (sv_minor x) None) s) (\<lambda>s.
     run_bind (concat_if (sv_patch x \<noteq> 0) (\<lambda>s. concat_num s (sv_patch x) None) s) (\<lambda>s.
     let num = parse_int s in
     if num = - 1 then Inr (- 1)
     else run_bind (add_text (sv_prerelease x) num) (add_text (sv_metadata x)))))"

section \<open>Comparison functions\<close>

text \<open>
  What a comparison function promises: its result is a sign, changes with the order of the
  arguments, and is transitive.
\<close>

locale comparison =
  fixes cmp :: "'a \<Rightarrow> 'a \<Rightarrow> int"
  assumes range: "cmp x y \<in> {- 1, 0, 1}"
    and swap: "cmp y x = - cmp x y"
    and trans: "cmp x y \<le> 0 \<Longrightarrow> cmp y z \<le> 0 \<Longrightarrow> cmp x z \<le> 0"
begin

lemma refl: "cmp x x = 0"
  using swap [of x x] by simp

lemma eq_left: "cmp x y = 0 \<Longrightarrow> cmp x z = cmp y z"
proof -
  assume e: "cmp x y = 0"
  have le: "cmp x z \<le> 0 \<longleftrightarrow> cmp y z \<le> 0" using trans [of x y z] trans [of y x z] swap [of x y] e by auto
  have ge: "cmp z x \<le> 0 \<longleftrightarrow> cmp z y \<le> 0" using trans [of z y x] trans [of z x y] swap [of x y] e by auto
  show ?thesis using le ge range [of x z] range [of y z] swap [of z x] swap [of z y] by auto
qed

lemma eq_right: "cmp y z = 0 \<Longrightarrow> cmp x y = cmp x z"
  using eq_left [of y z x] swap [of x y] swap [of x z] by simp

lemma less_trans: "cmp x y < 0 \<Longrightarrow> cmp y z \<le> 0 \<Longrightarrow> cmp x z < 0"
proof (rule ccontr)
  assume *: "cmp x y < 0" "cmp y z \<le> 0" "\<not> cmp x z < 0"
  then have "cmp x z = 0" using trans [of x y z] by simp
  then have "cmp y x \<le> 0" using eq_right [of x z y] *(2) by simp
  then show False using * swap [of x y] by simp
qed

lemma less_trans': "cmp x y \<le> 0 \<Longrightarrow> cmp y z < 0 \<Longrightarrow> cmp x z < 0"
  using less_trans [of x y z] eq_left [of x y z] by (cases "cmp x y = 0") auto

text \<open>One comparison after another, when the first finds no difference.\<close>

lemma then_by:
  assumes "comparison cmp'"
  shows "comparison (\<lambda>x y. if cmp (f x) (f y) = 0 then cmp' (g x) (g y) else cmp (f x) (f y))"
proof
  note c' = comparison.range [OF assms] comparison.swap [OF assms] comparison.trans [OF assms]
  fix x y z
  show "(if cmp (f x) (f y) = 0 then cmp' (g x) (g y) else cmp (f x) (f y)) \<in> {- 1, 0, 1}"
    using range [of "f x" "f y"] c'(1) [of "g x" "g y"] by auto
  show "(if cmp (f y) (f x) = 0 then cmp' (g y) (g x) else cmp (f y) (f x)) =
      - (if cmp (f x) (f y) = 0 then cmp' (g x) (g y) else cmp (f x) (f y))"
    using swap [of "f x" "f y"] c'(2) [of "g x" "g y"] by simp
  show "(if cmp (f x) (f z) = 0 then cmp' (g x) (g z) else cmp (f x) (f z)) \<le> 0"
    if "(if cmp (f x) (f y) = 0 then cmp' (g x) (g y) else cmp (f x) (f y)) \<le> 0"
      "(if cmp (f y) (f z) = 0 then cmp' (g y) (g z) else cmp (f y) (f z)) \<le> 0"
    using that eq_left [of "f x" "f y" "f z"] eq_right [of "f y" "f z" "f x"] c'(3) [of "g x" "g y" "g z"]
      less_trans [of "f x" "f y" "f z"] by (cases "cmp (f x) (f y) = 0"; cases "cmp (f y) (f z) = 0") auto
qed

end

text \<open>Lists, component by component; a list is greater than its proper prefixes.\<close>

fun compare_lists :: "('a \<Rightarrow> 'a \<Rightarrow> int) \<Rightarrow> 'a list \<Rightarrow> 'a list \<Rightarrow> int" where
  "compare_lists cmp [] [] = 0"
| "compare_lists cmp [] (y # ys) = - 1"
| "compare_lists cmp (x # xs) [] = 1"
| "compare_lists cmp (x # xs) (y # ys) = (if cmp x y = 0 then compare_lists cmp xs ys else cmp x y)"

context comparison
begin

lemma lists: "comparison (compare_lists cmp)"
proof
  fix xs ys zs
  show "compare_lists cmp xs ys \<in> {- 1, 0, 1}"
    using range by (induction cmp xs ys rule: compare_lists.induct) auto
  show "compare_lists cmp ys xs = - compare_lists cmp xs ys"
  proof (induction xs arbitrary: ys)
    case Nil
    then show ?case by (cases ys) simp_all
  next
    case (Cons x xs)
    then show ?case by (cases ys) (simp_all add: swap [of x])
  qed
  show "compare_lists cmp xs zs \<le> 0" if "compare_lists cmp xs ys \<le> 0" "compare_lists cmp ys zs \<le> 0"
    using that
  proof (induction xs arbitrary: ys zs)
    case Nil
    then show ?case by (cases zs) auto
  next
    case (Cons x xs)
    then obtain y ys' where y: "ys = y # ys'" by (cases ys) auto
    with Cons.prems(2) obtain z zs' where z: "zs = z # zs'" by (cases zs) auto
    have le: "cmp x y \<le> 0" "cmp y z \<le> 0" using Cons.prems by (simp_all add: y z split: if_splits)
    show ?case
    proof (cases "cmp x y = 0 \<and> cmp y z = 0")
      case True
      then have "cmp x z = 0" using eq_left [of x y z] by simp
      with True Cons.IH [of ys' zs'] Cons.prems show ?thesis by (simp add: y z)
    next
      case False
      then have "cmp x z < 0" using le less_trans [of x y z] less_trans' [of x y z] by linarith
      then show ?thesis by (simp add: z)
    qed
  qed
qed

end

interpretation ints: comparison binary_comparison
  by unfold_locales (auto simp: binary_comparison_def split: if_splits)

section \<open>The order of versions\<close>

text \<open>
  The order the loop computes: identifiers of a pre-release compare as numbers when
  \<open>strtol\<close> reads them to their end, else as texts behind all numbers. The section on the
  precedence of SemVer compares it with the specification.
\<close>

function idents :: "string \<Rightarrow> string list" where
  "idents s =
     (if CHR ''.'' \<in> set s then component s # idents (drop (length (component s) + 1) s) else [s])"
  by pat_completeness auto
termination
  by (relation "measure length") (auto intro: diff_less length_pos_if_in_set)

declare idents.simps [simp del]

definition is_numeric :: "string \<Rightarrow> bool" where
  "is_numeric s = (snd (strtol s) = length s)"

definition byte_comparison :: "char \<Rightarrow> char \<Rightarrow> int" where
  "byte_comparison a b = binary_comparison (int (of_char a)) (int (of_char b))"

interpretation bytes: comparison byte_comparison
  by unfold_locales (auto simp: byte_comparison_def binary_comparison_def split: if_splits)

interpretation texts: comparison "compare_lists byte_comparison"
  by (rule bytes.lists)

definition number_of :: "string \<Rightarrow> int" where
  "number_of s = (if is_numeric s then c_int (fst (strtol s)) else 0)"

definition text_of :: "string \<Rightarrow> string" where
  "text_of s = (if is_numeric s then [] else s)"

definition ident_comparison :: "string \<Rightarrow> string \<Rightarrow> int" where
  "ident_comparison x y =
     (if binary_comparison (of_bool (\<not> is_numeric x)) (of_bool (\<not> is_numeric y)) = 0 then
        if binary_comparison (number_of x) (number_of y) = 0 then compare_lists byte_comparison (text_of x) (text_of y)
        else binary_comparison (number_of x) (number_of y)
      else binary_comparison (of_bool (\<not> is_numeric x)) (of_bool (\<not> is_numeric y)))"

interpretation idents_order: comparison ident_comparison
  unfolding ident_comparison_def [abs_def]
  by (rule ints.then_by [where g = "\<lambda>x. x"], rule ints.then_by, rule texts.comparison_axioms)

lemma component_digits: "takeWhile is_digit (component s) = takeWhile is_digit s"
  "takeWhile isspace (component s) = takeWhile isspace s"
  by (induction s) (auto simp: is_digit_def isspace_def)

lemma component_drop: "n \<le> length (component s) \<Longrightarrow> drop n (component s) = component (drop n s)"
proof (induction s arbitrary: n)
  case (Cons c s)
  then show ?case by (cases n) (auto split: if_splits)
qed simp

lemma read_sign_component: "read_sign (component s) = read_sign s"
  by (cases s) (auto simp: read_sign_def)

lemma sign_length: "read_sign (component s) = (neg, k) \<Longrightarrow> k \<le> length (component s)"
  by (auto simp: read_sign_def split: list.splits if_splits)

lemma strtol_component: "strtol (component s) = strtol s"
proof -
  define w where "w = length (takeWhile isspace s)"
  have w: "w \<le> length (component s)"
    using length_takeWhile_le [of isspace "component s"] by (simp add: w_def component_digits)
  obtain neg k where nk: "read_sign (drop w s) = (neg, k)" by fastforce
  have nk': "read_sign (drop w (component s)) = (neg, k)"
    using nk by (simp only: component_drop [OF w] read_sign_component)
  have "k \<le> length (drop w (component s))"
    unfolding component_drop [OF w] by (rule sign_length) (use nk in \<open>simp only: read_sign_component\<close>)
  then have "w + k \<le> length (component s)" using w by simp
  then have "takeWhile is_digit (drop (w + k) (component s)) = takeWhile is_digit (drop (w + k) s)"
    by (simp only: component_drop component_digits)
  then show ?thesis
    unfolding strtol_def Let_def component_digits(2) w_def [symmetric] nk nk' by simp
qed

lemma strncmp_take: "n \<le> length s \<Longrightarrow> n \<le> length t \<Longrightarrow> strncmp s t n = strncmp (take n s) (take n t) n"
  by (induction s t n rule: strncmp.induct) auto

lemma strncmp_lists:
  "compare_lists byte_comparison s t =
     (let res = strncmp s t (min (length s) (length t)) in
      if res \<noteq> 0 then (if res < 0 then - 1 else 1)
      else if length s \<noteq> length t then (if length s < length t then - 1 else 1) else 0)"
proof (induction "byte_comparison" s t rule: compare_lists.induct)
  case (4 x xs y ys)
  then show ?case
    by (cases "x = y") (auto simp: byte_comparison_def binary_comparison_def Let_def split: if_splits)
qed simp_all

lemma take_component: "n \<le> length (component s) \<Longrightarrow> take n (component s) = take n s"
  by (subst takeWhile_eq_take) (simp add: min_absorb1)

lemma compare_component_ident:
  "compare_component x y = ident_comparison (component x) (component y)"
proof -
  let ?x = "component x" and ?y = "component y"
  let ?n = "min (length ?x) (length ?y)"
  have "strncmp x y ?n = strncmp (take ?n x) (take ?n y) ?n"
    using length_takeWhile_le [of "\<lambda>c. c \<noteq> CHR ''.''"] by (intro strncmp_take) (auto intro: order_trans [OF min.cobounded1] order_trans [OF min.cobounded2])
  moreover have "take ?n x = take ?n ?x" "take ?n y = take ?n ?y" by (simp_all add: take_component)
  ultimately have s: "strncmp x y ?n = strncmp ?x ?y ?n" using strncmp_take [of ?n ?x ?y] by simp
  obtain xv xe yv ye where e: "strtol x = (xv, xe)" "strtol y = (yv, ye)" by fastforce
  show ?thesis
    unfolding compare_component_def ident_comparison_def number_of_def text_of_def is_numeric_def strtol_component
      Let_def s e prod.case fst_conv snd_conv
    by (cases "xe = length ?x"; cases "ye = length ?y") (simp_all add: binary_comparison_def strncmp_lists Let_def)
qed

lemma prerelease_loop_idents:
  "compare_prerelease_loop x y = compare_lists ident_comparison (idents x) (idents y)"
proof (induction x y rule: compare_prerelease_loop.induct)
  case (1 x y)
  have c: "component s = s" if "CHR ''.'' \<notin> set s" for s using that by (induction s) auto
  show ?case
    unfolding compare_prerelease_loop.simps [of x y] idents.simps [of x] idents.simps [of y]
      compare_component_ident Let_def
    using 1 by (auto simp: c compare_component_ident idents.simps [of "drop _ _"])
qed

definition prerelease_rank :: "string option \<Rightarrow> int" where
  "prerelease_rank x = of_bool (x = None)"

definition prerelease_idents :: "string option \<Rightarrow> string list" where
  "prerelease_idents x = (case x of None \<Rightarrow> [] | Some s \<Rightarrow> idents s)"

lemma compare_prerelease_order:
  "compare_prerelease x y =
     (if binary_comparison (prerelease_rank x) (prerelease_rank y) = 0
      then compare_lists ident_comparison (prerelease_idents x) (prerelease_idents y)
      else binary_comparison (prerelease_rank x) (prerelease_rank y))"
  by (cases x; cases y)
     (simp_all add: compare_prerelease_def prerelease_rank_def prerelease_idents_def prerelease_loop_idents
       binary_comparison_def)

interpretation prereleases: comparison compare_prerelease
  unfolding compare_prerelease_order [abs_def]
  by (rule ints.then_by, rule idents_order.lists)

lemma semver_compare_order:
  "semver_compare x y =
     (if binary_comparison (sv_major x) (sv_major y) = 0 then
        if binary_comparison (sv_minor x) (sv_minor y) = 0 then
          if binary_comparison (sv_patch x) (sv_patch y) = 0 then compare_prerelease (sv_prerelease x) (sv_prerelease y)
          else binary_comparison (sv_patch x) (sv_patch y)
        else binary_comparison (sv_minor x) (sv_minor y)
      else binary_comparison (sv_major x) (sv_major y))"
  by (simp add: semver_compare_def semver_compare_version_def semver_compare_prerelease_def)

interpretation versions: comparison semver_compare
  unfolding semver_compare_order [abs_def]
  by (intro ints.then_by [where g = "\<lambda>x. x"] ints.then_by [where f = sv_patch] prereleases.comparison_axioms)

text \<open>
  The comparisons order all versions: one of less, equal and greater holds of any
  two, each the mirror image of its opposite, and less-or-equal is transitive, strictly so
  when one of its steps is strict.\<close>

theorem semver_total_preorder:
  assumes "semver_lte x y" and "semver_lte y z"
  shows "semver_lte x z \<and> (semver_lt x y \<or> semver_lt y z \<longrightarrow> semver_lt x z) \<and>
    (semver_lt x z \<or> semver_eq x z \<or> semver_gt x z) \<and>
    semver_gt z x = semver_lt x z \<and> semver_eq z x = semver_eq x z \<and> semver_gte z x = semver_lte x z \<and>
    semver_neq x z = (\<not> semver_eq x z)"
proof -
  have r: "semver_compare a b \<in> {- 1, 0, 1}" "semver_compare b a = - semver_compare a b" for a b
    by (rule versions.range, rule versions.swap)
  have "semver_compare x z < 0" if "semver_lt x y \<or> semver_lt y z"
    using that assms versions.less_trans [of x y z] versions.less_trans' [of x y z]
    by (auto simp: semver_lt_def semver_lte_def)
  moreover have "semver_compare x z \<le> 0" using assms versions.trans [of x y z] by (simp add: semver_lte_def)
  ultimately show ?thesis
    using r(1) [of x z] r(2) [of x z]
    by (auto simp: semver_lte_def semver_lt_def semver_eq_def semver_gt_def semver_gte_def semver_neq_def)
qed

section \<open>Parsing the text of a version\<close>

lemma contains_set: "contains c matrix \<longleftrightarrow> c \<in> set matrix"
  by (induction matrix) auto

lemma has_valid_chars_set: "has_valid_chars s matrix \<longleftrightarrow> set s \<subseteq> set matrix"
  by (induction s) (auto simp: contains_set)

definition version_text :: "nat \<Rightarrow> nat \<Rightarrow> nat \<Rightarrow> string option \<Rightarrow> string option \<Rightarrow> string" where
  "version_text major minor patch pre meta =
     show_nat major @ ''.'' @ show_nat minor @ ''.'' @ show_nat patch @
     (case pre of None \<Rightarrow> [] | Some p \<Rightarrow> CHR ''-'' # p) @ (case meta of None \<Rightarrow> [] | Some m \<Rightarrow> CHR ''+'' # m)"

lemma c_int_id: "- (2 ^ 31) \<le> n \<Longrightarrow> n < 2 ^ 31 \<Longrightarrow> c_int n = n"
  unfolding c_int_def by (simp add: sint_sbintrunc' signed_take_bit_int_eq_self)

lemma digit_isspace: "is_digit c \<Longrightarrow> \<not> isspace c"
  by (auto simp: is_digit_def isspace_def)

lemma show_nat_hd: "\<exists>c cs. show_nat n = c # cs \<and> is_digit c \<and> (c = CHR ''0'' \<longrightarrow> cs = [])"
proof (induction n rule: show_nat.induct)
  case (1 n)
  show ?case
  proof (cases "n < 10")
    case True
    then show ?thesis by (subst show_nat.simps) simp
  next
    case False
    then obtain c cs where c: "show_nat (n div 10) = c # cs" "is_digit c" "c = CHR ''0'' \<longrightarrow> cs = []" using 1 by blast
    have "c \<noteq> CHR ''0''"
    proof
      assume "c = CHR ''0''"
      with c have "read_nat (show_nat (n div 10)) = 0" by simp
      then show False using False by simp
    qed
    with c False show ?thesis by (subst show_nat.simps) simp
  qed
qed

lemma show_nat_small: "n < 10 ^ k \<Longrightarrow> 0 < k \<Longrightarrow> length (show_nat n) \<le> k"
proof (induction k arbitrary: n)
  case (Suc k)
  show ?case
  proof (cases "n < 10")
    case True
    then show ?thesis by (subst show_nat.simps) simp
  next
    case False
    then have "0 < k" using Suc.prems by (cases k) auto
    with Suc.IH [of "n div 10"] Suc.prems False show ?thesis
      by (subst show_nat.simps) (simp add: less_mult_imp_div_less mult.commute)
  qed
qed simp

lemma strtol_digits:
  assumes "n < 2 ^ 31" and "rest = [] \<or> \<not> is_digit (hd rest)"
  shows "strtol (show_nat n @ rest) = (int n, length (show_nat n))"
proof -
  obtain c cs where c: "show_nat n = c # cs" "is_digit c" using show_nat_hd by blast
  have "takeWhile isspace (show_nat n @ rest) = []" using c by (simp add: digit_isspace)
  moreover have "read_sign (show_nat n @ rest) = (False, 0)" using c by (auto simp: read_sign_def)
  moreover have "takeWhile is_digit (show_nat n @ rest) = show_nat n"
    using show_nat_digits [of n] assms(2) by (cases rest) (auto simp: takeWhile_append2)
  moreover have "show_nat n \<noteq> []" using c by simp
  ultimately show ?thesis using assms(1) by (simp add: strtol_def)
qed

lemma show_nat_no_dot: "CHR ''.'' \<notin> set (show_nat n)" "CHR ''-'' \<notin> set (show_nat n)" "CHR ''+'' \<notin> set (show_nat n)"
  using show_nat_digits [of n] by auto

lemma component_show: "component (show_nat n) = show_nat n" "component (show_nat n @ CHR ''.'' # rest) = show_nat n"
proof -
  have "\<forall>c \<in> set (show_nat n). c \<noteq> CHR ''.''" using show_nat_no_dot(1) [of n] by metis
  then show "component (show_nat n) = show_nat n" "component (show_nat n @ CHR ''.'' # rest) = show_nat n"
    by (simp_all add: takeWhile_eq_all_conv takeWhile_append2)
qed

lemma loop_slice:
  assumes "n < 2 ^ 31"
  shows "0 < i \<Longrightarrow> i < 3 \<Longrightarrow> parse_version_loop i (show_nat n @ CHR ''.'' # rest) ver =
      parse_version_loop (i + 1) rest (store_component i (int n) ver)"
    and "parse_version_loop 3 (show_nat n) ver = (0, store_component 3 (int n) ver)"
proof -
  obtain c cs where c: "show_nat n = c # cs" "is_digit c" "c = CHR ''0'' \<longrightarrow> cs = []" using show_nat_hd by blast
  have len: "length (show_nat n) \<le> 50" using show_nat_small [of n 10] assms by simp
  have z: "\<not> (hd (show_nat n @ r) = CHR ''0'' \<and> length (show_nat n) > 1)" for r using c by auto
  have i: "c_int (int n) = int n" using assms by (intro c_int_id) auto
  note st = strtol_digits [OF assms]
  show "parse_version_loop i (show_nat n @ CHR ''.'' # rest) ver =
      parse_version_loop (i + 1) rest (store_component i (int n) ver)" if "0 < i" "i < 3"
    unfolding parse_version_loop.simps [of i] Let_def component_show
    using that len z [of "CHR ''.'' # rest"] i by (auto simp: st SLICE_SIZE_def)
  show "parse_version_loop 3 (show_nat n) ver = (0, store_component 3 (int n) ver)"
    unfolding parse_version_loop.simps [of 3] Let_def component_show
    using len z [of "[]"] i st [of "[]"] show_nat_no_dot(1) [of n] by (simp add: SLICE_SIZE_def)
qed

lemma parse_slice_found: "sep \<notin> set s \<Longrightarrow> parse_slice (s @ sep # t) sep = (Some t, s)"
proof -
  assume "sep \<notin> set s"
  then have "takeWhile (\<lambda>c. c \<noteq> sep) (s @ sep # t) = s" "dropWhile (\<lambda>c. c \<noteq> sep) (s @ sep # t) = sep # t"
    by (induction s) auto
  then show ?thesis by (simp add: parse_slice_def)
qed

lemma parse_slice_absent: "sep \<notin> set s \<Longrightarrow> parse_slice s sep = (None, s)"
  by (simp add: parse_slice_def)

text \<open>
  C27: the text of a version is parsed to its parts: three numbers below \<open>2\<^sup>3\<^sup>1\<close>, the
  pre-release up to the plus sign and the metadata behind it, whatever hyphens and dots
  these contain, as long as the text has at most \<open>MAX_SIZE\<close> allowed characters.\<close>

theorem semver_parse_roundtrip:
  assumes "major < 2 ^ 31" and "minor < 2 ^ 31" and "patch < 2 ^ 31"
    and "\<forall>p. pre = Some p \<longrightarrow> CHR ''+'' \<notin> set p"
    and "semver_is_valid (version_text major minor patch pre meta)"
  shows "semver_parse (version_text major minor patch pre meta) ver =
    (0, \<lparr>sv_major = int major, sv_minor = int minor, sv_patch = int patch,
       sv_metadata = meta, sv_prerelease = pre\<rparr>)"
proof -
  define core where "core = show_nat major @ CHR ''.'' # show_nat minor @ CHR ''.'' # show_nat patch"
  define head where "head = core @ (case pre of None \<Rightarrow> [] | Some p \<Rightarrow> CHR ''-'' # p)"
  have core: "CHR ''-'' \<notin> set core" "CHR ''+'' \<notin> set core" by (simp_all add: core_def show_nat_no_dot)
  then have head: "CHR ''+'' \<notin> set head" using assms(4) by (auto simp: head_def split: option.splits)
  have t: "version_text major minor patch pre meta = head @ (case meta of None \<Rightarrow> [] | Some m \<Rightarrow> CHR ''+'' # m)"
    by (simp add: version_text_def head_def core_def)
  have 1: "parse_slice (version_text major minor patch pre meta) CHR ''+'' = (meta, head)"
    unfolding t using head by (cases meta) (simp_all add: parse_slice_found parse_slice_absent)
  have 2: "parse_slice head CHR ''-'' = (pre, core)"
    unfolding head_def using core(1) by (cases pre) (simp_all add: parse_slice_found parse_slice_absent)
  have 3: "parse_version_loop 1 core ver' =
      (0, ver'\<lparr>sv_major := int major, sv_minor := int minor, sv_patch := int patch\<rparr>)" for ver'
    unfolding core_def
    using loop_slice(1) [OF assms(1), of 1] loop_slice(1) [OF assms(2), of 2] loop_slice(2) [OF assms(3)]
    by (simp add: store_component_def flip: numeral_2_eq_2)
  show ?thesis
    using assms(5) by (cases ver) (simp add: semver_parse_def semver_parse_version_def 1 2 3 [unfolded One_nat_def])
qed

theorem semver_total_preorder_witness:
  "semver_lt \<lparr>sv_major = 1, sv_minor = 2, sv_patch = 3, sv_metadata = None, sv_prerelease = Some ''beta''\<rparr>
     \<lparr>sv_major = 2, sv_minor = 0, sv_patch = 0, sv_metadata = None, sv_prerelease = None\<rparr>"
proof -
  let ?x = "\<lparr>sv_major = 1, sv_minor = 2, sv_patch = 3, sv_metadata = None, sv_prerelease = Some ''beta''\<rparr>"
  let ?y = "\<lparr>sv_major = 1, sv_minor = 2, sv_patch = 3, sv_metadata = Some ''x'', sv_prerelease = None\<rparr>"
  let ?z = "\<lparr>sv_major = 2, sv_minor = 0, sv_patch = 0, sv_metadata = None, sv_prerelease = None\<rparr>"
  have "semver_compare ?x ?y = - 1" "semver_compare ?y ?z = - 1"
    by (simp_all add: semver_compare_order binary_comparison_def compare_prerelease_def)
  then have "semver_lte ?x ?y" "semver_lte ?y ?z" "semver_lt ?x ?y" by (simp_all add: semver_lte_def semver_lt_def)
  with semver_total_preorder [of ?x ?y ?z] show ?thesis by blast
qed

theorem semver_parse_roundtrip_witness:
  "semver_parse (version_text 1 2 3 (Some ''rc-1.0'') (Some ''b.7''))
     \<lparr>sv_major = 0, sv_minor = 0, sv_patch = 0, sv_metadata = None, sv_prerelease = None\<rparr> =
     (0, \<lparr>sv_major = 1, sv_minor = 2, sv_patch = 3, sv_metadata = Some ''b.7'', sv_prerelease = Some ''rc-1.0''\<rparr>)"
  using semver_parse_roundtrip [of 1 2 3 "Some ''rc-1.0''" "Some ''b.7''"]
  by (simp add: semver_is_valid_def has_valid_length_def has_valid_chars_set MAX_SIZE_def version_text_def show_nat.simps
      VALID_CHARS_def NUMBERS_def char_of_def bit_0 bit_Suc)

section \<open>Cleaning\<close>

lemma clean_loop_filter:
  assumes "length s < 2 ^ 31"
  shows "clean_loop i s = (0, take i s @ filter (\<lambda>c. c \<in> set VALID_CHARS) (drop i s))"
  using assms
proof (induction i s rule: clean_loop.induct)
  case (1 i s)
  show ?case
  proof (cases "i < length s")
    case True
    then have d: "drop i s = s ! i # drop (Suc i) s" by (simp add: Cons_nth_drop_Suc)
    show ?thesis
    proof (cases "contains (s ! i) VALID_CHARS")
      case valid: True
      have "take (Suc i) s = take i s @ [s ! i]" using True by (rule take_Suc_conv_app_nth)
      with 1 True valid show ?thesis
        unfolding clean_loop.simps [of i s] by (simp add: d contains_set)
    next
      case invalid: False
      define s' where "s' = take i s @ drop (Suc i) s"
      have cut: "strcut s i 1 = (s', 1)" using True 1(3) by (simp add: strcut_def s'_def)
      have "clean_loop i s' = (0, take i s' @ filter (\<lambda>c. c \<in> set VALID_CHARS) (drop i s'))"
        using 1(1) [OF True] invalid cut 1(3) True by (simp add: s'_def)
      with True invalid show ?thesis
        unfolding clean_loop.simps [of i s] by (simp add: cut d contains_set s'_def)
    qed
  next
    case False
    then show ?thesis by (simp add: clean_loop.simps)
  qed
qed

text \<open>
  Cleaning a text of at most \<open>MAX_SIZE\<close> bytes removes just the characters that no
  version may contain, so that the result is valid; a longer text is refused.\<close>

theorem semver_clean_filter:
  "semver_clean s =
     (if length s \<le> MAX_SIZE then (0, filter (\<lambda>c. c \<in> set VALID_CHARS) s) else (- 1, s)) \<and>
   (fst (semver_clean s) = 0) = semver_is_valid (snd (semver_clean s))"
proof -
  have "length (filter P s) \<le> MAX_SIZE" if "length s \<le> MAX_SIZE" for P :: "char \<Rightarrow> bool"
    using that length_filter_le [of P s] by linarith
  then show ?thesis
    by (auto simp: semver_clean_def has_valid_length_def clean_loop_filter semver_is_valid_def has_valid_chars_set MAX_SIZE_def)
qed

section \<open>What rendering loses\<close>

text \<open>
  Rendering leaves out every component that is zero, also one in front of another, so
  version 1.0.3 is rendered as the text of version 1.3.0.
\<close>

lemma semver_render_ambiguous:
  "semver_render \<lparr>sv_major = 1, sv_minor = 0, sv_patch = 3, sv_metadata = m, sv_prerelease = p\<rparr> dest =
   semver_render \<lparr>sv_major = 1, sv_minor = 3, sv_patch = 0, sv_metadata = m, sv_prerelease = p\<rparr> dest"
  by (simp add: semver_render_def)

text \<open>A pre-release of 49 characters or more does not fit in the buffer it is copied to.\<close>

lemma concat_char_overflow: "49 \<le> length x \<Longrightarrow> concat_char str x ''-'' = Inl OutOfBounds"
  by (simp add: concat_char_def SLICE_SIZE_def)

text \<open>A version that is refused after its pre-release was copied leaves the copy with the caller.\<close>

lemma semver_parse_keeps:
  "semver_parse ''1.x-beta'' ver = (- 1, ver\<lparr>sv_major := 1, sv_metadata := None, sv_prerelease := Some ''beta''\<rparr>)"
  by (simp add: semver_parse_def semver_is_valid_def has_valid_length_def has_valid_chars_set MAX_SIZE_def
      VALID_CHARS_def NUMBERS_def parse_slice_def semver_parse_version_def parse_version_loop.simps strtol_def
      read_sign_def isspace_def is_digit_def read_nat_def digit_val_def SLICE_SIZE_def store_component_def c_int_id)

section \<open>The precedence of SemVer 2.0.0\<close>

text \<open>
  Precedence as items 9 and 11 of the SemVer specification have it, with natural numbers
  and no reference to the code: an identifier of a pre-release is a number or a text, a
  number is before a text, numbers compare as numbers, texts character by character.
\<close>

datatype pre_identifier = Numeric nat | Alphanumeric string

fun identifier_precedes :: "pre_identifier \<Rightarrow> pre_identifier \<Rightarrow> bool" where
  "identifier_precedes (Numeric m) (Numeric n) = (m < n)"
| "identifier_precedes (Numeric m) (Alphanumeric t) = True"
| "identifier_precedes (Alphanumeric s) (Numeric n) = False"
| "identifier_precedes (Alphanumeric s) (Alphanumeric t) =
     ((s, t) \<in> lexord {(a, b). (of_char a :: nat) < of_char b})"

record version =
  v_major :: nat
  v_minor :: nat
  v_patch :: nat
  v_prerelease :: "pre_identifier list"

text \<open>
  An empty list stands for a version without pre-release, which is after all versions that
  have one.
\<close>

definition prerelease_precedes :: "pre_identifier list \<Rightarrow> pre_identifier list \<Rightarrow> bool" where
  "prerelease_precedes xs ys \<longleftrightarrow>
     xs \<noteq> [] \<and> (ys = [] \<or> (xs, ys) \<in> lexord {(a, b). identifier_precedes a b})"

definition version_precedes :: "version \<Rightarrow> version \<Rightarrow> bool" where
  "version_precedes v w \<longleftrightarrow>
     v_major v < v_major w \<or> v_major v = v_major w \<and>
       (v_minor v < v_minor w \<or> v_minor v = v_minor w \<and>
         (v_patch v < v_patch w \<or> v_patch v = v_patch w \<and>
           prerelease_precedes (v_prerelease v) (v_prerelease w)))"

text \<open>
  The identifiers on which the code can agree: numbers below two to the power of 31, and
  texts of letters, digits and hyphens with a letter or an inner hyphen. A text that is a
  hyphen and digits only, which SemVer counts among the alphanumeric ones, is a negative
  number to the code (\<open>semver_precedence_gaps\<close> below).
\<close>

fun identifier_text :: "pre_identifier \<Rightarrow> string" where
  "identifier_text (Numeric n) = show_nat n"
| "identifier_text (Alphanumeric t) = t"

definition identifier_char :: "char \<Rightarrow> bool" where
  "identifier_char c \<longleftrightarrow> is_digit c \<or> c = CHR ''-'' \<or> of_char c \<in> {65 .. 90 :: nat} \<or>
     of_char c \<in> {97 .. 122 :: nat}"

fun identifier_ok :: "pre_identifier \<Rightarrow> bool" where
  "identifier_ok (Numeric n) = (n < 2 ^ 31)"
| "identifier_ok (Alphanumeric t) =
     (list_all identifier_char t \<and> t \<noteq> [] \<and> \<not> list_all is_digit t \<and>
      \<not> (hd t = CHR ''-'' \<and> tl t \<noteq> [] \<and> list_all is_digit (tl t)))"

definition version_ok :: "version \<Rightarrow> bool" where
  "version_ok v \<longleftrightarrow> v_major v < 2 ^ 31 \<and> v_minor v < 2 ^ 31 \<and> v_patch v < 2 ^ 31 \<and>
     list_all identifier_ok (v_prerelease v)"

fun dotted :: "string list \<Rightarrow> string" where
  "dotted [] = []"
| "dotted [s] = s"
| "dotted (s # t # ss) = s @ CHR ''.'' # dotted (t # ss)"

text \<open>The structure the code has of a version, with any metadata.\<close>

definition semver_of :: "version \<Rightarrow> string option \<Rightarrow> semver_t" where
  "semver_of v meta = \<lparr>sv_major = int (v_major v), sv_minor = int (v_minor v), sv_patch = int (v_patch v),
     sv_metadata = meta,
     sv_prerelease = (if v_prerelease v = [] then None
        else Some (dotted (map identifier_text (v_prerelease v))))\<rparr>"

lemma idents_dotted:
  "list_all (\<lambda>s. CHR ''.'' \<notin> set s) ss \<Longrightarrow> ss \<noteq> [] \<Longrightarrow> idents (dotted ss) = ss"
proof (induction ss rule: dotted.induct)
  case (3 s t ss)
  have c: "component (s @ CHR ''.'' # r) = s" for r using 3(2) by (subst takeWhile_append2) auto
  show ?case using 3 by (subst idents.simps) (simp add: c)
qed (auto simp: idents.simps)

lemma identifier_no_dot: "identifier_ok a \<Longrightarrow> CHR ''.'' \<notin> set (identifier_text a)"
  by (cases a) (auto simp: show_nat_no_dot list_all_iff identifier_char_def is_digit_def)

lemma numeric_show: "n < 2 ^ 31 \<Longrightarrow> is_numeric (show_nat n) \<and> number_of (show_nat n) = int n"
  using strtol_digits [of n "[]"] by (simp add: is_numeric_def number_of_def c_int_id)

lemma takeWhile_length: "length (takeWhile P xs) = length xs \<longleftrightarrow> list_all P xs"
  by (induction xs) auto

lemma strtol_end:
  "takeWhile isspace t = [] \<Longrightarrow> read_sign t = (neg, k) \<Longrightarrow>
     snd (strtol t) = (let ds = takeWhile is_digit (drop k t) in if ds = [] then 0 else k + length ds)"
  by (simp add: strtol_def Let_def)

lemma not_numeric:
  assumes "identifier_ok (Alphanumeric t)"
  shows "\<not> is_numeric t"
proof -
  obtain c cs where t: "t = c # cs" using assms by (cases t) auto
  have space: "takeWhile isspace t = []" and plus: "c \<noteq> CHR ''+''"
    using assms by (auto simp: t identifier_char_def isspace_def is_digit_def)
  show ?thesis
  proof (cases "c = CHR ''-''")
    case True
    then have sign: "read_sign t = (True, 1)" by (simp add: t read_sign_def)
    have "cs = [] \<or> length (takeWhile is_digit cs) \<noteq> length cs"
      using assms True by (simp add: takeWhile_length t)
    then show ?thesis unfolding is_numeric_def strtol_end [OF space sign] by (auto simp: t Let_def split: if_splits)
  next
    case False
    then have sign: "read_sign t = (False, 0)" using plus by (simp add: t read_sign_def)
    have "length (takeWhile is_digit t) \<noteq> length t"
      using assms by (simp add: takeWhile_length)
    moreover have "t \<noteq> []" by (simp add: t)
    ultimately show ?thesis unfolding is_numeric_def strtol_end [OF space sign] by (auto simp: Let_def)
  qed
qed

lemma byte_comparison_iffs:
  "byte_comparison a b = - 1 \<longleftrightarrow> (of_char a :: nat) < of_char b" "byte_comparison a b = 0 \<longleftrightarrow> a = b"
  by (cases "of_char a :: nat" "of_char b :: nat" rule: linorder_cases;
      auto simp: byte_comparison_def binary_comparison_def)+

lemma text_comparison:
  "compare_lists byte_comparison s t = - 1 \<longleftrightarrow> (s, t) \<in> lexord {(a, b). (of_char a :: nat) < of_char b}"
  "compare_lists byte_comparison s t = 0 \<longleftrightarrow> s = t"
  by (induction "byte_comparison" s t rule: compare_lists.induct)
     (auto simp: byte_comparison_iffs)

lemma ident_comparison_precedes:
  assumes "identifier_ok a" and "identifier_ok b"
  shows "ident_comparison (identifier_text a) (identifier_text b) = - 1 \<longleftrightarrow> identifier_precedes a b"
    and "ident_comparison (identifier_text a) (identifier_text b) = 0 \<longleftrightarrow> a = b"
  using assms numeric_show not_numeric text_comparison
  by (cases a; cases b; simp add: ident_comparison_def binary_comparison_def number_of_def text_of_def)+

text \<open>A comparison of lists decides the lexicographic order its components decide.\<close>

lemma compare_lists_lexord:
  assumes "\<And>a b. a \<in> set xs \<Longrightarrow> b \<in> set ys \<Longrightarrow> cmp (f a) (f b) = - 1 \<longleftrightarrow> lt a b"
    and "\<And>a b. a \<in> set xs \<Longrightarrow> b \<in> set ys \<Longrightarrow> cmp (f a) (f b) = 0 \<longleftrightarrow> a = b"
    and "\<And>a. a \<in> set xs \<Longrightarrow> \<not> lt a a"
  shows "(compare_lists cmp (map f xs) (map f ys) = - 1 \<longleftrightarrow> (xs, ys) \<in> lexord {(a, b). lt a b}) \<and>
    (compare_lists cmp (map f xs) (map f ys) = 0 \<longleftrightarrow> xs = ys)"
  using assms
proof (induction xs arbitrary: ys)
  case Nil
  then show ?case by (cases ys) auto
next
  case (Cons x xs)
  show ?case
  proof (cases ys)
    case Nil
    then show ?thesis by simp
  next
    case (Cons y zs)
    from Cons.IH [of zs] Cons.prems show ?thesis unfolding Cons by auto
  qed
qed

lemma compare_prerelease_precedes:
  assumes "list_all identifier_ok (v_prerelease v)" and "list_all identifier_ok (v_prerelease w)"
  shows "compare_prerelease (sv_prerelease (semver_of v m)) (sv_prerelease (semver_of w n)) = - 1 \<longleftrightarrow>
      prerelease_precedes (v_prerelease v) (v_prerelease w)"
    and "compare_prerelease (sv_prerelease (semver_of v m)) (sv_prerelease (semver_of w n)) = 0 \<longleftrightarrow>
      v_prerelease v = v_prerelease w"
proof -
  have dots: "list_all identifier_ok xs \<Longrightarrow> xs \<noteq> [] \<Longrightarrow>
      idents (dotted (map identifier_text xs)) = map identifier_text xs" for xs
    by (rule idents_dotted) (auto simp: list_all_iff identifier_no_dot)
  note lex = compare_lists_lexord [where f = identifier_text and cmp = ident_comparison
      and lt = identifier_precedes and xs = "v_prerelease v" and ys = "v_prerelease w"]
  have irrefl: "\<not> identifier_precedes a a" for a
  proof (cases a)
    case (Alphanumeric t)
    then show ?thesis using text_comparison(2) [of t t] text_comparison(1) [of t t] by simp
  qed simp
  show "compare_prerelease (sv_prerelease (semver_of v m)) (sv_prerelease (semver_of w n)) = - 1 \<longleftrightarrow>
      prerelease_precedes (v_prerelease v) (v_prerelease w)"
    using lex assms dots ident_comparison_precedes irrefl
    by (auto simp: compare_prerelease_def semver_of_def prerelease_loop_idents prerelease_precedes_def list_all_iff)
  show "compare_prerelease (sv_prerelease (semver_of v m)) (sv_prerelease (semver_of w n)) = 0 \<longleftrightarrow>
      v_prerelease v = v_prerelease w"
    using lex assms dots ident_comparison_precedes irrefl
    by (auto simp: compare_prerelease_def semver_of_def prerelease_loop_idents list_all_iff)
qed

text \<open>
  C24: on versions with numbers below two to the power of 31 and pre-release identifiers
  as above, \<open>semver_compare\<close> decides the precedence of SemVer 2.0.0: it answers minus one just
  when the first version precedes the second, one just when the second precedes the first,
  and zero just when they are the same up to metadata, which plays no part.\<close>

theorem semver_compare_precedence:
  assumes "version_ok v" and "version_ok w"
  shows "semver_compare (semver_of v m) (semver_of w n) =
    (if version_precedes v w then - 1 else if version_precedes w v then 1 else 0) \<and>
    (semver_compare (semver_of v m) (semver_of w n) = 0 \<longleftrightarrow> v = w)"
proof -
  let ?c = "semver_compare (semver_of v m) (semver_of w n)"
  have less: "semver_compare (semver_of v m) (semver_of w n) = - 1 \<longleftrightarrow> version_precedes v w"
    if "version_ok v" "version_ok w" for v w m n
    using that compare_prerelease_precedes(1) [of v w m n]
    by (auto simp: semver_compare_order version_precedes_def version_ok_def semver_of_def binary_comparison_def)
  have "?c = 0 \<longleftrightarrow> v = w"
    using assms compare_prerelease_precedes(2) [of v w m n]
    by (cases v; cases w)
       (auto simp: semver_compare_order version_ok_def semver_of_def binary_comparison_def)
  moreover have "?c = 1 \<longleftrightarrow> version_precedes w v"
    using less [OF assms(2,1), of n m] versions.swap [of "semver_of v m" "semver_of w n"] by auto
  moreover have "?c \<in> {- 1, 0, 1}" by (rule versions.range)
  ultimately show ?thesis using less [OF assms, of m n] by auto
qed

text \<open>Identifiers that differ in their numbers only: 1.0.0-beta.2 precedes 1.0.0-beta.11.\<close>

theorem semver_compare_precedence_witness:
  "semver_compare
     \<lparr>sv_major = 1, sv_minor = 0, sv_patch = 0, sv_metadata = Some ''x'', sv_prerelease = Some ''beta.2''\<rparr>
     \<lparr>sv_major = 1, sv_minor = 0, sv_patch = 0, sv_metadata = None, sv_prerelease = Some ''beta.11''\<rparr> = - 1"
proof -
  let ?v = "\<lambda>n. \<lparr>v_major = 1, v_minor = 0, v_patch = 0, v_prerelease = [Alphanumeric ''beta'', Numeric n]\<rparr>"
  have "version_ok (?v 2)" "version_ok (?v 11)" "version_precedes (?v 2) (?v 11)"
    by (simp_all add: version_ok_def identifier_char_def is_digit_def version_precedes_def prerelease_precedes_def)
  with semver_compare_precedence [of "?v 2" "?v 11" "Some ''x''" None] show ?thesis
    by (simp add: semver_of_def show_nat.simps char_of_def bit_0 bit_Suc)
qed

text \<open>
  Outside these bounds the code departs from the precedence: a pre-release number of more than
  32 bits loses its high bits, as the number of a version itself does when it is parsed, and a
  text of a hyphen and digits counts as a negative number.
\<close>

lemma semver_precedence_gaps:
  "compare_prerelease (Some ''4294967297'') (Some ''2'') = - 1"
  "compare_prerelease (Some ''-5'') (Some ''3'') = - 1"
  "parse_int ''4294967297'' = 1"
  by (simp_all add: compare_prerelease_def compare_prerelease_loop.simps compare_component_def
      strtol_def isspace_def read_sign_def is_digit_def read_nat_def digit_val_def c_int_def parse_int_def
      has_valid_chars_set NUMBERS_def)

end
