(* ===== verification/LD_Timestamp.thy ===== *)
theory LD_Timestamp
  imports LD_Operators LD_Decimal_Laws
begin

unbundle bit_operations_syntax

text \<open>
  third-party/src/timestamp_parse.c: RFC 3339 timestamps. The text is a C string, so the
  parser may read its terminator and nothing behind it. Years, months and the other fields are
  \<open>uint16_t\<close> read from at most four digits and stay far below the width; the
  nanoseconds are accumulated modulo \<open>2\<^sup>3\<^sup>2\<close> before their digits are counted.
\<close>

section \<open>The parser\<close>

definition byte_at :: "string \<Rightarrow> nat \<Rightarrow> char run" where
  "byte_at str i = (if i < length (str @ [CHR 0x00]) then Inr ((str @ [CHR 0x00]) ! i) else Inl OutOfBounds)"

definition leap_year :: "nat \<Rightarrow> bool" where
  "leap_year y = (y AND 3 = 0 \<and> (y mod 100 \<noteq> 0 \<or> y mod 400 = 0))"

definition month_days :: "nat \<Rightarrow> nat \<Rightarrow> nat" where
  "month_days y m =
     (if m = 2 \<and> leap_year y
      then [0, 31, 29, 31, 30, 31, 30, 31, 31, 30, 31, 30, 31]
      else [0, 31, 28, 31, 30, 31, 30, 31, 31, 30, 31, 30, 31]) ! m"

text \<open>The value of the digit at an index, \<open>None\<close> when the byte is not one.\<close>

definition digit_at :: "string \<Rightarrow> nat \<Rightarrow> nat option run" where
  "digit_at p i = run_bind (byte_at p i) (\<lambda>c. Inr (if is_digit c then Some (digit_val c) else None))"

definition parse_2d :: "string \<Rightarrow> nat \<Rightarrow> nat option run" where
  "parse_2d p i =
     check (digit_at p i) (\<lambda>d0.
     check (digit_at p (i + 1)) (\<lambda>d1.
     Inr (Some (d0 * 10 + d1))))"

definition parse_4d :: "string \<Rightarrow> nat \<Rightarrow> nat option run" where
  "parse_4d p i =
     check (digit_at p i) (\<lambda>d0.
     check (digit_at p (i + 1)) (\<lambda>d1.
     check (digit_at p (i + 2)) (\<lambda>d2.
     check (digit_at p (i + 3)) (\<lambda>d3.
     Inr (Some (d0 * 1000 + d1 * 100 + d2 * 10 + d3))))))"

definition Pow10 :: "nat \<Rightarrow> u32" where
  "Pow10 i = [1, 10, 100, 1000, 10000, 100000, 1000000, 10000000, 100000000, 1000000000] ! i"

definition DayOffset :: "nat \<Rightarrow> nat" where
  "DayOffset m = [0, 306, 337, 0, 31, 61, 92, 122, 153, 184, 214, 245, 275] ! m"

text \<open>
  The day number of a date, counted from the first of January of the year one; January
  and February belong to the year before. The subtraction is done in \<open>int\<close> and the result
  converted to \<open>uint32_t\<close>.
\<close>

definition day_number :: "nat \<Rightarrow> nat \<Rightarrow> nat \<Rightarrow> u32" where
  "day_number year month day =
     (let year = (if month < 3 then year - 1 else year) in
      word_of_int (int ((1461 * year) div 4) - int (year div 100) + int (year div 400) +
        int (DayOffset month) + int day - 306))"

text \<open>The digits of a fraction from an index on, until \<open>end\<close> or another byte.\<close>

fun fraction_loop :: "string \<Rightarrow> nat \<Rightarrow> u32 \<Rightarrow> u32 \<times> nat" where
  "fraction_loop [] n nsec = (nsec, n)"
| "fraction_loop (c # cs) n nsec =
     (if is_digit c then fraction_loop cs (n + 1) (nsec * 10 + of_nat (digit_val c)) else (nsec, n))"

text \<open>
  The part behind the seconds: \<open>cur\<close> is the index of the byte after \<open>ch\<close>. The result
  is the nanoseconds, the last byte read and the index behind it.
\<close>

definition parse_fraction :: "string \<Rightarrow> nat \<Rightarrow> nat \<Rightarrow> char \<Rightarrow> (u32 \<times> char \<times> nat) option run" where
  "parse_fraction str len cur ch =
     (if ch = CHR ''.'' then
        let (nsec, ndigits) = fraction_loop (take (len - cur) (drop cur str)) 0 0; cur = cur + ndigits in
        unless (ndigits < 1 \<or> ndigits > 9)
          (unless (cur = len)
            (run_bind (byte_at str cur) (\<lambda>ch. Inr (Some (nsec * Pow10 (9 - ndigits), ch, cur + 1)))))
      else Inr (Some (0, ch, cur)))"

text \<open>The offset from UTC in minutes and the index behind it.\<close>

definition parse_offset :: "string \<Rightarrow> nat \<Rightarrow> nat \<Rightarrow> char \<Rightarrow> (int \<times> nat) option run" where
  "parse_offset str len cur ch =
     (if \<not> (ch = CHR ''Z'' \<or> ch = CHR ''z'') then
        unless (cur + 5 < len \<or> \<not> (ch = CHR ''+'' \<or> ch = CHR ''-''))
          (run_bind (byte_at str (cur + 2)) (\<lambda>c.
            unless (c \<noteq> CHR '':'')
              (check (parse_2d str cur) (\<lambda>hour.
               unless (hour > 23)
                 (check (parse_2d str (cur + 3)) (\<lambda>min.
                  unless (min > 59)
                    (let off = int (hour * 60 + min) in
                     Inr (Some (if ch = CHR ''-'' then - off else off, cur + 5)))))))))
      else Inr (Some (0, cur)))"

definition timestamp_parse :: "string \<Rightarrow> nat \<Rightarrow> timestamp_t option run" where
  "timestamp_parse str len =
     (unless (len < 20)
       (run_bind (byte_at str 4) (\<lambda>c. unless (c \<noteq> CHR ''-'')
       (run_bind (byte_at str 7) (\<lambda>c. unless (c \<noteq> CHR ''-'')
       (run_bind (byte_at str 13) (\<lambda>c. unless (c \<noteq> CHR '':'')
       (run_bind (byte_at str 16) (\<lambda>c. unless (c \<noteq> CHR '':'')
       (run_bind (byte_at str 10) (\<lambda>ch. unless (\<not> (ch = CHR ''T'' \<or> ch = CHR '' '' \<or> ch = CHR ''t''))
       (check (parse_4d str 0) (\<lambda>year. unless (year < 1)
       (check (parse_2d str 5) (\<lambda>month. unless (month < 1 \<or> month > 12)
       (check (parse_2d str 8) (\<lambda>day. unless (day < 1 \<or> day > 31)
       (check (parse_2d str 11) (\<lambda>hour. unless (hour > 23)
       (check (parse_2d str 14) (\<lambda>min. unless (min > 59)
       (check (parse_2d str 17) (\<lambda>sec. unless (sec > 59)
       (unless (day > 28 \<and> day > month_days year month)
         (let rdn = day_number year month day; sod = hour * 3600 + min * 60 + sec in
          run_bind (byte_at str 19) (\<lambda>ch.
          check (parse_fraction str len 20 ch) (\<lambda>(nsec, ch, cur).
          check (parse_offset str len cur ch) (\<lambda>(off, cur).
          unless (cur \<noteq> len)
            (Inr (Some \<lparr>ts_sec = (uint rdn - 719163) * 86400 + int sod - off * 60,
               ts_nsec = uint nsec, ts_offset = off\<rparr>))))))
       ))))))))))))))))))))))))"

section \<open>The calendar\<close>

text \<open>
  The reference: the Gregorian calendar counted year by year and month by month from
  the first of January of the year one, which is day one.
\<close>

definition year_length :: "nat \<Rightarrow> nat" where
  "year_length y = (if 4 dvd y \<and> (\<not> 100 dvd y \<or> 400 dvd y) then 366 else 365)"

definition gregorian_days :: "nat \<Rightarrow> nat \<Rightarrow> nat" where
  "gregorian_days y m =
     (if m \<in> {4, 6, 9, 11} then 30 else if m = 2 then (if year_length y = 366 then 29 else 28)
      else 31)"

definition rata_die :: "nat \<Rightarrow> nat \<Rightarrow> nat \<Rightarrow> nat" where
  "rata_die y m d = (\<Sum>i = 1..<y. year_length i) + (\<Sum>j \<leftarrow> [1..<m]. gregorian_days y j) + d"

lemma leap_year_dvd: "leap_year y \<longleftrightarrow> 4 dvd y \<and> (\<not> 100 dvd y \<or> 400 dvd y)"
proof -
  have "y AND 3 = y mod 4" using take_bit_eq_mask [of 2 y] by (simp add: take_bit_eq_mod mask_eq_exp_minus_1)
  then show ?thesis by (simp add: leap_year_def dvd_eq_mod_eq_0)
qed

lemma year_length_leap: "year_length y = (if leap_year y then 366 else 365)"
  by (simp add: year_length_def leap_year_dvd)

lemma div_Suc_dvd: "0 < k \<Longrightarrow> int (Suc n div k) = int (n div k) + of_bool (k dvd Suc n)" for k :: nat
  by (simp add: div_Suc dvd_eq_mod_eq_0)

lemma year_length_count:
  "int (year_length y) = 365 + of_bool (4 dvd y) - of_bool (100 dvd y) + of_bool (400 dvd y)"
proof -
  have "100 dvd y \<Longrightarrow> 4 dvd y" "400 dvd y \<Longrightarrow> 100 dvd y"
    by (erule dvd_trans [rotated], simp)+
  then show ?thesis unfolding year_length_def
    by (cases "4 dvd y"; cases "100 dvd y"; cases "400 dvd y") simp_all
qed

lemma years_closed:
  "int (\<Sum>i = 1..<Suc y. year_length i) =
     365 * int y + int (y div 4) - int (y div 100) + int (y div 400)"
proof (induction y)
  case (Suc y)
  have "int (\<Sum>i = 1..<Suc (Suc y). year_length i) = int (\<Sum>i = 1..<Suc y. year_length i) + int (year_length (Suc y))"
    by simp
  also have "\<dots> = 365 * int (Suc y) + int (Suc y div 4) - int (Suc y div 100) + int (Suc y div 400)"
    unfolding Suc year_length_count by (simp only: div_Suc_dvd) simp
  finally show ?case .
qed simp

lemma month_cases:
  "1 \<le> m \<Longrightarrow> m \<le> 12 \<Longrightarrow>
   m = 1 \<or> m = 2 \<or> m = 3 \<or> m = 4 \<or> m = 5 \<or> m = 6 \<or> m = 7 \<or> m = 8 \<or> m = 9 \<or> m = 10 \<or> m = 11 \<or> m = (12 :: nat)"
  by presburger

text \<open>The table of the code has the lengths of the Gregorian months.\<close>

lemma month_days_gregorian: "1 \<le> m \<Longrightarrow> m \<le> 12 \<Longrightarrow> month_days y m = gregorian_days y m"
  by (drule (1) month_cases)
     (elim disjE; simp add: month_days_def gregorian_days_def year_length_leap)

lemma months_closed:
  assumes "1 \<le> m" and "m \<le> 12"
  shows "(\<Sum>j \<leftarrow> [1..<m]. gregorian_days y j) =
    (if m < 3 then DayOffset m - 306 else DayOffset m + (if leap_year y then 60 else 59))"
  using month_cases [OF assms]
  by (elim disjE) (simp_all add: gregorian_days_def year_length_leap DayOffset_def upt_conv_Cons)

lemma day_number_calendar:
  assumes "1 \<le> y" and "y \<le> 9999" and "1 \<le> m" and "m \<le> 12" and "1 \<le> d" and "d \<le> 31"
  shows "uint (day_number y m d) = int (rata_die y m d)"
proof -
  let ?Y = "if m < 3 then y - 1 else y"
  let ?n = "int ((1461 * ?Y) div 4) - int (?Y div 100) + int (?Y div 400) + int (DayOffset m) + int d - 306"
  have q: "(1461 * k) div 4 = 365 * k + k div 4" for k :: nat
  proof -
    have "1461 * k = k + 4 * (365 * k)" by simp
    then show ?thesis by (metis div_mult_self2 zero_neq_numeral add.commute)
  qed
  have before: "int (\<Sum>i = 1..<y. year_length i) =
      365 * int (y - 1) + int ((y - 1) div 4) - int ((y - 1) div 100) + int ((y - 1) div 400)"
    using years_closed [of "y - 1"] assms(1) by simp
  have through: "int (\<Sum>i = 1..<y. year_length i) + int (year_length y) =
      365 * int y + int (y div 4) - int (y div 100) + int (y div 400)"
    using years_closed [of y] assms(1) by simp
  have off: "m < 3 \<Longrightarrow> 306 \<le> DayOffset m" using month_cases [OF assms(3,4)] by (auto simp: DayOffset_def)
  have n: "?n = int (rata_die y m d)"
  proof (cases "m < 3")
    case True
    then show ?thesis using before off months_closed [OF assms(3,4), of y] unfolding rata_die_def q by simp
  next
    case False
    then show ?thesis using through months_closed [OF assms(3,4), of y]
      unfolding rata_die_def q by (simp add: year_length_leap split: if_splits)
  qed
  have "DayOffset m \<le> 337" using month_cases [OF assms(3,4)] by (auto simp: DayOffset_def)
  moreover have "?Y \<le> 9999" "?Y div 400 \<le> ?Y" using assms(2) by auto
  ultimately have "?n < 2 ^ 32" using assms(6) unfolding q by (simp del: of_nat_div)
  then have "int (rata_die y m d) < 2 ^ 32" unfolding n .
  then have "uint (word_of_int (int (rata_die y m d)) :: u32) = int (rata_die y m d)"
    by (simp only: uint_word_of_int) simp
  then show ?thesis unfolding day_number_def Let_def n .
qed

section \<open>Texts\<close>

text \<open>
  The texts of RFC 3339 the parser accepts: a date and a time of day, the digits of a
  fraction of a second, if any, and the zone. Of the texts of the RFC three kinds are not
  among them: the year 0000, the leap second 60, and fractions of more than nine digits.
\<close>

datatype zone = Utc char | Offset bool nat nat

definition digits2 :: "nat \<Rightarrow> string" where
  "digits2 n = [char_of (48 + n div 10), char_of (48 + n mod 10)]"

definition digits4 :: "nat \<Rightarrow> string" where
  "digits4 n = digits2 (n div 100) @ digits2 (n mod 100)"

definition date_time_text :: "nat \<Rightarrow> nat \<Rightarrow> nat \<Rightarrow> char \<Rightarrow> nat \<Rightarrow> nat \<Rightarrow> nat \<Rightarrow> string" where
  "date_time_text y mo d sep h mi s =
     digits4 y @ ''-'' @ digits2 mo @ ''-'' @ digits2 d @ [sep] @
     digits2 h @ '':'' @ digits2 mi @ '':'' @ digits2 s"

definition fraction_text :: "string \<Rightarrow> string" where
  "fraction_text ds = (if ds = [] then [] else CHR ''.'' # ds)"

fun zone_text :: "zone \<Rightarrow> string" where
  "zone_text (Utc c) = [c]"
| "zone_text (Offset neg h m) = (if neg then ''-'' else ''+'') @ digits2 h @ '':'' @ digits2 m"

fun zone_offset :: "zone \<Rightarrow> int" where
  "zone_offset (Utc c) = 0"
| "zone_offset (Offset neg h m) = (if neg then - int (h * 60 + m) else int (h * 60 + m))"

fun zone_ok :: "zone \<Rightarrow> bool" where
  "zone_ok (Utc c) = (c = CHR ''Z'' \<or> c = CHR ''z'')"
| "zone_ok (Offset neg h m) = (h \<le> 23 \<and> m \<le> 59)"

definition date_time_ok :: "nat \<Rightarrow> nat \<Rightarrow> nat \<Rightarrow> char \<Rightarrow> nat \<Rightarrow> nat \<Rightarrow> nat \<Rightarrow> bool" where
  "date_time_ok y mo d sep h mi s =
     (1 \<le> y \<and> y \<le> 9999 \<and> 1 \<le> mo \<and> mo \<le> 12 \<and> 1 \<le> d \<and> d \<le> gregorian_days y mo \<and>
      sep \<in> {CHR ''T'', CHR '' '', CHR ''t''} \<and> h \<le> 23 \<and> mi \<le> 59 \<and> s \<le> 59)"

definition fraction_ok :: "string \<Rightarrow> bool" where
  "fraction_ok ds = (length ds \<le> 9 \<and> (\<forall>c \<in> set ds. is_digit c))"

text \<open>The instant: seconds since 1970 in UTC, nanoseconds, and the offset as written.\<close>

definition instant :: "nat \<Rightarrow> nat \<Rightarrow> nat \<Rightarrow> nat \<Rightarrow> nat \<Rightarrow> nat \<Rightarrow> string \<Rightarrow> zone \<Rightarrow> timestamp_t" where
  "instant y mo d h mi s ds z =
     \<lparr>ts_sec = (int (rata_die y mo d) - int (rata_die 1970 1 1)) * 86400 +
        int (h * 3600 + mi * 60 + s) - zone_offset z * 60,
      ts_nsec = int (read_nat ds * 10 ^ (9 - length ds)), ts_offset = zone_offset z\<rparr>"

lemma length_digits [simp]: "length (digits2 n) = 2" "length (digits4 n) = 4"
  by (simp_all add: digits2_def digits4_def)

lemma length_date_time [simp]: "length (date_time_text y mo d sep h mi s) = 19"
  by (simp add: date_time_text_def)

lemma byte_at_nth: "i < length s \<Longrightarrow> byte_at s i = Inr (s ! i)"
  by (simp add: byte_at_def nth_append)

lemma digit_at_iff:
  "digit_at p i = Inr (Some d) \<longleftrightarrow> i < length p \<and> is_digit (p ! i) \<and> d = digit_val (p ! i)"
  by (auto simp: digit_at_def byte_at_def nth_append is_digit_def split: if_splits)

lemma char_of_digit: "is_digit c \<Longrightarrow> char_of (48 + digit_val c) = c"
  by (simp add: is_digit_def digit_val_def)

lemma parse_2d_iff:
  "parse_2d p i = Inr (Some n) \<longleftrightarrow> i + 1 < length p \<and> n < 100 \<and> [p ! i, p ! (i + 1)] = digits2 n"
proof
  assume "parse_2d p i = Inr (Some n)"
  then obtain d0 d1 where d: "digit_at p i = Inr (Some d0)" "digit_at p (i + 1) = Inr (Some d1)" "n = d0 * 10 + d1"
    by (auto simp: parse_2d_def check_def run_simps split: option.splits)
  then have "d0 < 10" "d1 < 10" by (auto simp: digit_at_iff digit_val_less)
  with d show "i + 1 < length p \<and> n < 100 \<and> [p ! i, p ! (i + 1)] = digits2 n"
    by (auto simp: digit_at_iff digits2_def char_of_digit)
next
  assume *: "i + 1 < length p \<and> n < 100 \<and> [p ! i, p ! (i + 1)] = digits2 n"
  then have "n div 10 < 10" "n mod 10 < 10" by auto
  with * have "digit_at p i = Inr (Some (n div 10))" "digit_at p (i + 1) = Inr (Some (n mod 10))"
    by (auto simp: digit_at_iff digits2_def)
  then show "parse_2d p i = Inr (Some n)" by (simp add: parse_2d_def)
qed

lemma parse_4d_2d:
  "parse_4d p i = check (parse_2d p i) (\<lambda>a. check (parse_2d p (i + 2)) (\<lambda>b. Inr (Some (a * 100 + b))))"
  by (simp add: parse_4d_def parse_2d_def check_assoc algebra_simps numeral_3_eq_3)

lemma parse_4d_iff:
  "parse_4d p i = Inr (Some n) \<longleftrightarrow>
     i + 3 < length p \<and> n < 10000 \<and> [p ! i, p ! (i + 1), p ! (i + 2), p ! (i + 3)] = digits4 n"
proof
  assume "parse_4d p i = Inr (Some n)"
  then obtain a b where "parse_2d p i = Inr (Some a)" "parse_2d p (i + 2) = Inr (Some b)" "n = a * 100 + b"
    by (auto simp: parse_4d_2d check_iff)
  then show "i + 3 < length p \<and> n < 10000 \<and> [p ! i, p ! (i + 1), p ! (i + 2), p ! (i + 3)] = digits4 n"
    by (auto simp: parse_2d_iff digits4_def digits2_def numeral_3_eq_3)
next
  assume *: "i + 3 < length p \<and> n < 10000 \<and> [p ! i, p ! (i + 1), p ! (i + 2), p ! (i + 3)] = digits4 n"
  then have "parse_2d p i = Inr (Some (n div 100))" "parse_2d p (i + 2) = Inr (Some (n mod 100))"
    by (auto simp: parse_2d_iff digits4_def digits2_def numeral_3_eq_3)
  then show "parse_4d p i = Inr (Some n)" by (simp add: parse_4d_2d)
qed

text \<open>The first nineteen bytes.\<close>

lemma take_19:
  assumes "20 \<le> length s"
  shows "take 19 s = [s ! 0, s ! 1, s ! 2, s ! 3, s ! 4, s ! 5, s ! 6, s ! 7, s ! 8, s ! 9, s ! 10,
    s ! 11, s ! 12, s ! 13, s ! 14, s ! 15, s ! 16, s ! 17, s ! 18]"
proof -
  have "take 19 s = map ((!) s) [0..<19]" using assms by (intro nth_equalityI) simp_all
  also have "[0..<19] = [0, 1, 2, 3, 4, 5, 6, 7, 8, 9, 10, 11, 12, 13, 14, 15, 16, 17, 18]" by code_simp
  finally show ?thesis by simp
qed

lemma date_time_bytes:
  assumes "20 \<le> length s"
  shows "take 19 s = date_time_text y mo d sep h mi sc \<longleftrightarrow>
    s ! 4 = CHR ''-'' \<and> s ! 7 = CHR ''-'' \<and> s ! 13 = CHR '':'' \<and> s ! 16 = CHR '':'' \<and> s ! 10 = sep \<and>
    [s ! 0, s ! 1, s ! 2, s ! 3] = digits4 y \<and> [s ! 5, s ! 6] = digits2 mo \<and> [s ! 8, s ! 9] = digits2 d \<and>
    [s ! 11, s ! 12] = digits2 h \<and> [s ! 14, s ! 15] = digits2 mi \<and> [s ! 17, s ! 18] = digits2 sc"
  unfolding take_19 [OF assms] date_time_text_def digits4_def digits2_def by auto

text \<open>The fraction.\<close>

lemma read_nat_Cons: "read_nat (c # ds) = digit_val c * 10 ^ length ds + read_nat ds"
  using read_nat_append [of "[c]" ds] by (simp add: read_nat_def)

lemma fraction_loop_spec:
  "fraction_loop cs n w =
     (w * 10 ^ length (takeWhile is_digit cs) + of_nat (read_nat (takeWhile is_digit cs)),
      n + length (takeWhile is_digit cs))"
  by (induction cs n w rule: fraction_loop.induct) (auto simp: read_nat_Cons algebra_simps)

lemma read_nat_bound: "\<forall>c \<in> set ds. is_digit c \<Longrightarrow> read_nat ds < 10 ^ length ds"
proof (induction ds)
  case (Cons c ds)
  then have "digit_val c * 10 ^ length ds \<le> 9 * 10 ^ length ds" using digit_val_less [of c] by (intro mult_right_mono) auto
  moreover have "read_nat ds < 10 ^ length ds" using Cons by simp
  ultimately show ?case unfolding read_nat_Cons list.size add_0_right add_Suc_right power_Suc by linarith
qed simp

lemma Pow10_power: "i \<le> 9 \<Longrightarrow> Pow10 i = 10 ^ i"
proof -
  assume "i \<le> 9"
  then have "i \<in> {0..9}" by simp
  also have "{0..9::nat} = {0, 1, 2, 3, 4, 5, 6, 7, 8, 9}" by auto
  finally show ?thesis by (auto simp: Pow10_def)
qed

lemma nanoseconds:
  assumes "fraction_ok ds"
  shows "uint (of_nat (read_nat ds) * Pow10 (9 - length ds) :: u32) = int (read_nat ds * 10 ^ (9 - length ds))"
    and "read_nat ds * 10 ^ (9 - length ds) < 10 ^ 9"
proof -
  have "read_nat ds < 10 ^ length ds" "length ds \<le> 9" using assms read_nat_bound by (auto simp: fraction_ok_def)
  then have "read_nat ds * 10 ^ (9 - length ds) < 10 ^ length ds * 10 ^ (9 - length ds)" by simp
  then show lt: "read_nat ds * 10 ^ (9 - length ds) < 10 ^ 9" using \<open>length ds \<le> 9\<close> by (simp flip: power_add)
  have "of_nat (read_nat ds) * Pow10 (9 - length ds) = (of_nat (read_nat ds * 10 ^ (9 - length ds)) :: u32)"
    by (simp add: Pow10_power)
  moreover have "uint (of_nat n :: u32) = int n" if "n < 10 ^ 9" for n
    using that by (simp add: unsigned_of_nat take_bit_nat_eq_self)
  ultimately show "uint (of_nat (read_nat ds) * Pow10 (9 - length ds) :: u32) = int (read_nat ds * 10 ^ (9 - length ds))"
    using lt by presburger
qed

lemma parse_fraction_sound:
  assumes "parse_fraction s (length s) cur ch = Inr (Some (nsec, ch', cur'))" and "cur \<le> length s"
  shows "\<exists>ds. fraction_ok ds \<and> ch # drop cur s = fraction_text ds @ ch' # drop cur' s \<and>
    uint nsec = int (read_nat ds * 10 ^ (9 - length ds)) \<and> cur' \<le> length s"
proof (cases "ch = CHR ''.''")
  case True
  define ds where "ds = takeWhile is_digit (drop cur s)"
  from assms(1) True have d: "1 \<le> length ds" "length ds \<le> 9" "cur + length ds \<noteq> length s"
    "byte_at s (cur + length ds) = Inr ch'" "nsec = of_nat (read_nat ds) * Pow10 (9 - length ds)" "cur' = cur + length ds + 1"
    by (auto simp: parse_fraction_def fraction_loop_spec ds_def [symmetric] run_iffs Let_def Suc_le_eq split: if_splits)
  have len: "cur + length ds \<le> length s" using assms(2) length_takeWhile_le [of is_digit "drop cur s"] by (simp add: ds_def)
  with d have ch': "ch' = s ! (cur + length ds)" "cur' \<le> length s" by (auto simp: byte_at_nth)
  have "drop cur s = ds @ drop (length ds) (drop cur s)" 
    using takeWhile_dropWhile_id [of is_digit "drop cur s"] by (simp only: ds_def dropWhile_eq_drop)
  also have "drop (length ds) (drop cur s) = ch' # drop cur' s"
    using d(3,6) len ch' Cons_nth_drop_Suc [of "cur + length ds" s] by (simp add: add.commute)
  finally have "ch # drop cur s = fraction_text ds @ ch' # drop cur' s" using True d(1) by (auto simp: fraction_text_def)
  moreover have "fraction_ok ds" using d(2) by (auto simp: fraction_ok_def ds_def dest: set_takeWhileD)
  ultimately show ?thesis using nanoseconds(1) d(5) ch'(2) by blast
next
  case False
  with assms show ?thesis by (intro exI [of _ "[]"]) (auto simp: parse_fraction_def fraction_ok_def fraction_text_def)
qed

lemma parse_fraction_complete:
  assumes "fraction_ok ds" and "ch # drop cur s = fraction_text ds @ c # rest" and "cur \<le> length s"
    and "\<not> is_digit c" and "c \<noteq> CHR ''.''"
  shows "parse_fraction s (length s) cur ch =
    Inr (Some (of_nat (read_nat ds) * Pow10 (9 - length ds), c, length s - length rest))"
proof (cases "ds = []")
  case True
  with assms(2,3,5) show ?thesis
    by (auto simp: parse_fraction_def fraction_text_def)
next
  case False
  with assms(2) have e: "ch = CHR ''.''" "drop cur s = ds @ c # rest" by (auto simp: fraction_text_def)
  then have t: "takeWhile is_digit (drop cur s) = ds"
    using assms(1,4) by (simp add: fraction_ok_def takeWhile_append2)
  have len: "length s = cur + length ds + 1 + length rest"
    using arg_cong [OF e(2), of length] assms(3) by simp
  have "s ! (cur + length ds) = (ds @ c # rest) ! length ds" using assms(3) by (simp flip: e(2))
  then have "byte_at s (cur + length ds) = Inr c" using len by (simp add: byte_at_nth)
  moreover have "1 \<le> length ds" "length ds \<le> 9" using False assms(1) by (auto simp: fraction_ok_def Suc_le_eq)
  ultimately show ?thesis
    using len by (auto simp: parse_fraction_def e(1) fraction_loop_spec t Let_def)
qed

text \<open>The zone.\<close>

lemma drop_5:
  assumes "length s = cur + 5"
  shows "drop cur s = [s ! cur, s ! (cur + 1), s ! (cur + 2), s ! (cur + 3), s ! (cur + 4)]"
  using assms by (simp add: Cons_nth_drop_Suc [symmetric] numeral_eq_Suc)

lemma parse_offset_signed:
  assumes "\<not> (ch = CHR ''Z'' \<or> ch = CHR ''z'')"
  shows "parse_offset s len cur ch = Inr (Some (off, n)) \<longleftrightarrow>
    len \<le> cur + 5 \<and> (ch = CHR ''+'' \<or> ch = CHR ''-'') \<and> byte_at s (cur + 2) = Inr CHR '':'' \<and>
    (\<exists>h m. parse_2d s cur = Inr (Some h) \<and> h \<le> 23 \<and> parse_2d s (cur + 3) = Inr (Some m) \<and> m \<le> 59 \<and>
      off = (if ch = CHR ''-'' then - int (h * 60 + m) else int (h * 60 + m)) \<and> n = cur + 5)"
  unfolding parse_offset_def Let_def if_P [OF assms] by (simp only: run_iffs) (auto simp: not_less)

lemma parse_offset_text:
  assumes "cur \<le> length s"
  shows "parse_offset s (length s) cur ch = Inr (Some (off, length s)) \<longleftrightarrow>
    (\<exists>z. zone_ok z \<and> ch # drop cur s = zone_text z \<and> off = zone_offset z)" (is "?L \<longleftrightarrow> ?R")
proof (cases "ch = CHR ''Z'' \<or> ch = CHR ''z''")
  case True
  show ?thesis
  proof
    assume ?L
    with True show ?R by (intro exI [of _ "Utc ch"]) (auto simp: parse_offset_def)
  next
    assume ?R
    then obtain z where z: "zone_ok z" "ch # drop cur s = zone_text z" "off = zone_offset z" by blast
    with True assms show ?L by (cases z) (auto simp: parse_offset_def split: if_splits)
  qed
next
  case False
  show ?thesis
  proof
    assume ?L
    with False obtain h m where p: "ch = CHR ''+'' \<or> ch = CHR ''-''" "cur + 5 = length s" "byte_at s (cur + 2) = Inr CHR '':''"
      "parse_2d s cur = Inr (Some h)" "h \<le> 23" "parse_2d s (cur + 3) = Inr (Some m)" "m \<le> 59"
      "off = (if ch = CHR ''-'' then - int (h * 60 + m) else int (h * 60 + m))"
      unfolding parse_offset_signed [OF False] by fastforce
    then have "ch # drop cur s = zone_text (Offset (ch = CHR ''-'') h m)"
      by (auto simp: drop_5 parse_2d_iff byte_at_nth numeral_eq_Suc)
    with p show ?R by (intro exI [of _ "Offset (ch = CHR ''-'') h m"]) auto
  next
    assume ?R
    then obtain z where z: "zone_ok z" "ch # drop cur s = zone_text z" "off = zone_offset z" by blast
    with False obtain neg h m where o: "z = Offset neg h m" by (cases z) auto
    have len: "length s = cur + 5" using arg_cong [OF z(2), of length] assms by (simp add: o split: if_splits)
    have t: "[s ! cur, s ! (cur + 1), s ! (cur + 2), s ! (cur + 3), s ! (cur + 4)] = digits2 h @ '':'' @ digits2 m"
      and c: "ch = (if neg then CHR ''-'' else CHR ''+'')"
      using z(2) unfolding o drop_5 [OF len] by (auto split: if_splits)
    have hm: "h \<le> 23" "m \<le> 59" using z(1) by (simp_all add: o)
    have "parse_2d s cur = Inr (Some h)" "parse_2d s (cur + 3) = Inr (Some m)" "byte_at s (cur + 2) = Inr CHR '':''"
      unfolding parse_2d_iff add.assoc using t len hm by (simp_all add: byte_at_nth digits2_def)
    with hm show ?L unfolding parse_offset_signed [OF False] using len c z(3) by (simp add: o)
  qed
qed

section \<open>Correctness\<close>

lemma month_days_bounds: "1 \<le> m \<Longrightarrow> m \<le> 12 \<Longrightarrow> 28 \<le> month_days y m \<and> month_days y m \<le> 31"
  by (drule (1) month_cases) (elim disjE; simp add: month_days_def)

text \<open>A call that returns a timestamp, step by step.\<close>

lemma timestamp_parse_steps:
  "timestamp_parse s (length s) = Inr (Some t) \<longleftrightarrow>
    20 \<le> length s \<and> s ! 4 = CHR ''-'' \<and> s ! 7 = CHR ''-'' \<and> s ! 13 = CHR '':'' \<and> s ! 16 = CHR '':'' \<and>
    s ! 10 \<in> {CHR ''T'', CHR '' '', CHR ''t''} \<and>
    (\<exists>y mo d h mi sc. parse_4d s 0 = Inr (Some y) \<and> 1 \<le> y \<and> parse_2d s 5 = Inr (Some mo) \<and> 1 \<le> mo \<and> mo \<le> 12 \<and>
      parse_2d s 8 = Inr (Some d) \<and> 1 \<le> d \<and> d \<le> 31 \<and> parse_2d s 11 = Inr (Some h) \<and> h \<le> 23 \<and>
      parse_2d s 14 = Inr (Some mi) \<and> mi \<le> 59 \<and> parse_2d s 17 = Inr (Some sc) \<and> sc \<le> 59 \<and>
      \<not> (d > 28 \<and> d > month_days y mo) \<and>
      (\<exists>nsec ch cur off. parse_fraction s (length s) 20 (s ! 19) = Inr (Some (nsec, ch, cur)) \<and>
        parse_offset s (length s) cur ch = Inr (Some (off, length s)) \<and>
        t = \<lparr>ts_sec = (uint (day_number y mo d) - 719163) * 86400 + int (h * 3600 + mi * 60 + sc) - off * 60,
           ts_nsec = uint nsec, ts_offset = off\<rparr>))"
proof (cases "20 \<le> length s")
  case True
  then have b: "i < 20 \<Longrightarrow> byte_at s i = Inr (s ! i)" for i by (simp add: byte_at_nth)
  show ?thesis
    unfolding timestamp_parse_def Let_def
    by (simp only: run_iffs b) (auto simp: True run_iffs b not_less split: prod.splits)
qed (simp add: timestamp_parse_def)

lemma date_time_parsed:
  assumes "20 \<le> length s"
  shows "(s ! 4 = CHR ''-'' \<and> s ! 7 = CHR ''-'' \<and> s ! 13 = CHR '':'' \<and> s ! 16 = CHR '':'' \<and>
      s ! 10 \<in> {CHR ''T'', CHR '' '', CHR ''t''} \<and> parse_4d s 0 = Inr (Some y) \<and> 1 \<le> y \<and>
      parse_2d s 5 = Inr (Some mo) \<and> 1 \<le> mo \<and> mo \<le> 12 \<and> parse_2d s 8 = Inr (Some d) \<and> 1 \<le> d \<and> d \<le> 31 \<and>
      parse_2d s 11 = Inr (Some h) \<and> h \<le> 23 \<and> parse_2d s 14 = Inr (Some mi) \<and> mi \<le> 59 \<and>
      parse_2d s 17 = Inr (Some sc) \<and> sc \<le> 59 \<and> \<not> (d > 28 \<and> d > month_days y mo)) \<longleftrightarrow>
    take 19 s = date_time_text y mo d (s ! 10) h mi sc \<and> date_time_ok y mo d (s ! 10) h mi sc"
proof -
  have d: "1 \<le> mo \<and> mo \<le> 12 \<and> 1 \<le> d \<Longrightarrow> d \<le> 31 \<and> \<not> (d > 28 \<and> d > month_days y mo) \<longleftrightarrow> d \<le> gregorian_days y mo"
    using month_days_bounds [of mo y] month_days_gregorian [of mo y] by auto
  show ?thesis
    unfolding date_time_bytes [OF assms] date_time_ok_def parse_4d_iff parse_2d_iff add_0_left
    using assms d by (simp add: not_less del: insert_iff) (auto simp del: insert_iff)
qed

lemma timestamp_parse_shape:
  assumes "timestamp_parse s (length s) = Inr (Some t)"
  obtains y mo d h mi sc nsec ch cur off where "20 \<le> length s"
    "take 19 s = date_time_text y mo d (s ! 10) h mi sc" "date_time_ok y mo d (s ! 10) h mi sc"
    "parse_fraction s (length s) 20 (s ! 19) = Inr (Some (nsec, ch, cur))"
    "parse_offset s (length s) cur ch = Inr (Some (off, length s))"
  using assms unfolding timestamp_parse_steps
  apply (elim conjE exE)
  subgoal premises p for y mo d h mi sc nsec ch cur off
    using iffD1 [OF date_time_parsed [of s y mo d h mi sc]] p(2-24) by (intro p(1)) blast+
  done

lemma timestamp_parse_text:
  assumes "date_time_ok y mo d sep h mi s" and "fraction_ok ds" and "zone_ok z"
    and t: "t = date_time_text y mo d sep h mi s @ fraction_text ds @ zone_text z"
  shows "timestamp_parse t (length t) = Inr (Some (instant y mo d h mi s ds z))"
proof -
  have "\<exists>zc zs. zone_text z = zc # zs \<and> \<not> is_digit zc \<and> zc \<noteq> CHR ''.''"
    using assms(3) by (cases z) (auto simp: is_digit_def)
  then obtain zc zs where z: "zone_text z = zc # zs" "\<not> is_digit zc" "zc \<noteq> CHR ''.''" by blast
  define rest where "rest = fraction_text ds @ zone_text z"
  have t': "t = date_time_text y mo d sep h mi s @ rest" "rest \<noteq> []" by (simp_all add: t rest_def z(1))
  then have len: "20 \<le> length t" by (cases rest) auto
  have tk: "take 19 t = date_time_text y mo d sep h mi s" by (simp add: t'(1))
  then have sep: "t ! 10 = sep" unfolding date_time_bytes [OF len] by blast
  have d19: "t ! 19 # drop 20 t = rest"
    using len t'(2) Cons_nth_drop_Suc [of 19 t] by (simp add: t'(1))
  have f: "parse_fraction t (length t) 20 (t ! 19) =
      Inr (Some (of_nat (read_nat ds) * Pow10 (9 - length ds), zc, length t - length zs))"
    using d19 len by (intro parse_fraction_complete assms(2) z) (simp_all add: rest_def z(1))
  have "drop (length t - length zs) t = zs" by (simp add: t z(1))
  then have o: "parse_offset t (length t) (length t - length zs) zc = Inr (Some (zone_offset z, length t))"
    by (subst parse_offset_text) (use assms(3) z(1) in auto)
  have rd: "uint (day_number y mo d) = int (rata_die y mo d)"
    using assms(1) month_days_bounds [of mo y] month_days_gregorian [of mo y] by (intro day_number_calendar) (auto simp: date_time_ok_def)
  have "int (rata_die 1970 1 1) = 719163" using years_closed [of 1969] by (simp add: rata_die_def)
  then show ?thesis
    unfolding timestamp_parse_steps
    using date_time_parsed [OF len, of y mo d h mi s] tk sep assms(1) len f o rd nanoseconds(1) [OF assms(2)]
    by (simp add: instant_def)
qed

text \<open>
  C12: the parser accepts a text just when it is a date of the Gregorian calendar in the
  years 1 to 9999, a time of day with seconds from 0 to 59, no fraction or one of one to
  nine digits, and a zone \<open>Z\<close> or a signed offset of less than 24 hours, in the form of
  RFC 3339; the timestamp is then the instant that the calendar, counted year by year and
  month by month, gives the text, with the offset subtracted.\<close>

theorem timestamp_parse_correct:
  "timestamp_parse str (length str) = Inr (Some t) \<longleftrightarrow>
     (\<exists>y mo d sep h mi s ds z. date_time_ok y mo d sep h mi s \<and> fraction_ok ds \<and> zone_ok z \<and>
        str = date_time_text y mo d sep h mi s @ fraction_text ds @ zone_text z \<and>
        t = instant y mo d h mi s ds z)"
proof
  assume p: "timestamp_parse str (length str) = Inr (Some t)"
  then obtain y mo d h mi s nsec ch cur off where len: "20 \<le> length str"
    and dt: "take 19 str = date_time_text y mo d (str ! 10) h mi s" "date_time_ok y mo d (str ! 10) h mi s"
    and f: "parse_fraction str (length str) 20 (str ! 19) = Inr (Some (nsec, ch, cur))"
    and o: "parse_offset str (length str) cur ch = Inr (Some (off, length str))"
    by (rule timestamp_parse_shape)
  obtain ds where ds: "fraction_ok ds" "str ! 19 # drop 20 str = fraction_text ds @ ch # drop cur str" "cur \<le> length str"
    using parse_fraction_sound [OF f len] by blast
  obtain z where z: "zone_ok z" "ch # drop cur str = zone_text z" using o ds(3) parse_offset_text by blast
  have "str = take 19 str @ str ! 19 # drop 20 str"
    using len Cons_nth_drop_Suc [of 19 str] append_take_drop_id [of 19 str] by simp
  then have e: "str = date_time_text y mo d (str ! 10) h mi s @ fraction_text ds @ zone_text z"
    using dt(1) ds(2) z(2) by metis
  have "t = instant y mo d h mi s ds z" using timestamp_parse_text [OF dt(2) ds(1) z(1) e] p by simp
  with e dt(2) ds(1) z(1) show "\<exists>y mo d sep h mi s ds z. date_time_ok y mo d sep h mi s \<and> fraction_ok ds \<and> zone_ok z \<and>
        str = date_time_text y mo d sep h mi s @ fraction_text ds @ zone_text z \<and>
        t = instant y mo d h mi s ds z" by blast
qed (auto intro: timestamp_parse_text)

text \<open>
  Texts that RFC 3339 admits and the parser refuses: a leap second, the year 0000, and a
  fraction of ten digits.
\<close>

lemma timestamp_parse_refuses:
  "timestamp_parse ''2016-12-31T23:59:60Z'' 20 = Inr None"
  "timestamp_parse ''0000-01-01T00:00:00Z'' 20 = Inr None"
  "timestamp_parse ''2020-01-01T00:00:00.1234567890Z'' 31 = Inr None"
  by (simp_all add: timestamp_parse_def parse_4d_def parse_2d_def digit_at_def byte_at_def is_digit_def
      digit_val_def parse_fraction_def month_days_def)

section \<open>Reads outside the text\<close>

lemma returns_byte_at: "i \<le> length s \<Longrightarrow> returns (byte_at s i)"
  by (simp add: byte_at_def)

lemma returns_digit_at: "i \<le> length s \<Longrightarrow> returns (digit_at s i)"
  by (simp add: digit_at_def byte_at_def)

lemma returns_parse_2d: "i \<le> length s \<Longrightarrow> returns (parse_2d s i)"
  unfolding parse_2d_def by (intro returns_check returns_digit_at) (auto simp: digit_at_iff)

lemma returns_parse_4d: "i \<le> length s \<Longrightarrow> returns (parse_4d s i)"
  unfolding parse_4d_2d by (intro returns_check returns_parse_2d) (auto simp: parse_2d_iff)

lemma returns_parse_fraction: "cur \<le> length s \<Longrightarrow> returns (parse_fraction s (length s) cur ch)"
  using length_takeWhile_le [of is_digit "drop cur s"]
  by (auto simp: parse_fraction_def fraction_loop_spec Let_def intro!: returns_bind returns_byte_at)

text \<open>
  The length check of the zone is inverted (\<open>cur + 5 < end\<close> rejects texts that are too long,
  which the comparison at the end would do anyway, and accepts those that are too short), so
  the colon is looked for behind the terminator when at most one byte follows the sign.
\<close>

definition ends_with_sign :: "string \<Rightarrow> bool" where
  "ends_with_sign s = (\<exists>c \<in> set (drop (length s - 2) s). c = CHR ''+'' \<or> c = CHR ''-'')"

lemma returns_parse_offset:
  assumes "0 < cur" and "cur \<le> length s" and "ch = s ! (cur - 1)" and "\<not> ends_with_sign s"
  shows "returns (parse_offset s (length s) cur ch)"
proof (cases "ch = CHR ''+'' \<or> ch = CHR ''-''")
  case True
  have "cur + 2 \<le> length s"
  proof (rule ccontr)
    assume "\<not> cur + 2 \<le> length s"
    then have i: "length s - 2 \<le> cur - 1" "cur - 1 < length s" using assms(1,2) by auto
    then have "(length s - 2) + (cur - 1 - (length s - 2)) = cur - 1" by simp
    then have "ch = drop (length s - 2) s ! (cur - 1 - (length s - 2))" using assms(3) by (simp only: nth_drop diff_le_self)
    then have "ch \<in> set (drop (length s - 2) s)" using i by (metis diff_less_mono length_drop nth_mem)
    with True assms(4) show False by (auto simp: ends_with_sign_def)
  qed
  moreover have "cur + 3 \<le> length s" if "byte_at s (cur + 2) = Inr CHR '':''"
    using that by (auto simp: byte_at_def nth_append split: if_splits)
  ultimately show ?thesis
    unfolding parse_offset_def Let_def
    by (auto intro!: returns_unless returns_bind returns_byte_at returns_check returns_parse_2d)
qed (simp add: parse_offset_def)

lemma parse_fraction_last:
  assumes "parse_fraction s (length s) 20 (s ! 19) = Inr (Some (nsec, ch, cur))" and "20 \<le> length s"
  shows "0 < cur \<and> cur \<le> length s \<and> ch = s ! (cur - 1)"
  using assms length_takeWhile_le [of is_digit "drop 20 s"]
  by (auto simp: parse_fraction_def fraction_loop_spec Let_def run_bind_Inr_iff byte_at_nth split: if_splits)

text \<open>
  C30: the parser reads nothing outside the text and its terminator, whatever the text,
  unless one of its last two bytes is a sign.\<close>

theorem timestamp_parse_safe:
  assumes "\<not> ends_with_sign str"
  shows "returns (timestamp_parse str (length str))"
proof (cases "length str < 20")
  case False
  have zone: "returns (case x of (nsec, ch, cur) \<Rightarrow>
      check (parse_offset str (length str) cur ch) (\<lambda>(off, cur). unless (cur \<noteq> length str) (Inr (Some (T nsec off)))))"
    if "byte_at str 19 = Inr ch" "parse_fraction str (length str) 20 ch = Inr (Some x)"
    for ch x and T :: "u32 \<Rightarrow> int \<Rightarrow> timestamp_t"
    using that False parse_fraction_last [of str] assms
    by (auto simp: byte_at_nth intro!: returns_check returns_parse_offset split: prod.split)
  show ?thesis
    unfolding timestamp_parse_def Let_def
    by (intro returns_unless returns_bind returns_byte_at returns_check returns_parse_2d returns_parse_4d
        returns_parse_fraction; (rule zone, assumption, assumption | use False in \<open>simp; fail\<close>))
qed (simp add: timestamp_parse_def)

theorem timestamp_parse_safe_witness:
  "returns (timestamp_parse ''2013-12-31T23:59:59.5+01:30'' (length ''2013-12-31T23:59:59.5+01:30''))"
  by (rule timestamp_parse_safe) (simp add: ends_with_sign_def)

text \<open>
  A date and time followed by a sign only, or by a sign and one more byte, makes the
  parser read behind the terminator of the text.\<close>

theorem timestamp_parse_overread:
  assumes "date_time_ok y mo d sep h mi s" and "sign = CHR ''+'' \<or> sign = CHR ''-''" and "length rest \<le> 1"
    and "str = date_time_text y mo d sep h mi s @ sign # rest"
  shows "timestamp_parse str (length str) = Inl OutOfBounds"
proof -
  have len: "20 \<le> length str" "length str \<le> 21" using assms(3) by (simp_all add: assms(4))
  have "take 19 str = date_time_text y mo d sep h mi s" by (simp add: assms(4))
  moreover from this have "str ! 10 = sep" unfolding date_time_bytes [OF len(1)] by blast
  ultimately have *: "str ! 4 = CHR ''-''" "str ! 7 = CHR ''-''" "str ! 13 = CHR '':''" "str ! 16 = CHR '':''"
      "str ! 10 \<in> {CHR ''T'', CHR '' '', CHR ''t''}" "parse_4d str 0 = Inr (Some y)" "1 \<le> y"
      "parse_2d str 5 = Inr (Some mo)" "1 \<le> mo" "mo \<le> 12" "parse_2d str 8 = Inr (Some d)" "1 \<le> d" "d \<le> 31"
      "parse_2d str 11 = Inr (Some h)" "h \<le> 23" "parse_2d str 14 = Inr (Some mi)" "mi \<le> 59"
      "parse_2d str 17 = Inr (Some s)" "s \<le> 59" "\<not> (d > 28 \<and> d > month_days y mo)"
    using date_time_parsed [OF len(1), of y mo d h mi s] assms(1) by blast+
  have "str ! 19 = sign" by (simp add: assms(4) nth_append)
  then have "parse_fraction str (length str) 20 (str ! 19) = Inr (Some (0, sign, 20))"
    using assms(2) by (auto simp: parse_fraction_def)
  moreover have "parse_offset str (length str) 20 sign = Inl OutOfBounds"
    using len(2) assms(2) by (auto simp: parse_offset_def byte_at_def)
  moreover have "i < 20 \<Longrightarrow> byte_at str i = Inr (str ! i)" for i using len(1) by (simp add: byte_at_nth)
  ultimately show ?thesis
    using * len(1) by (simp add: timestamp_parse_def Let_def del: insert_iff) (auto simp: not_less)
qed

theorem timestamp_parse_overread_witness:
  "timestamp_parse ''2013-12-31T23:59:59+'' (length ''2013-12-31T23:59:59+'') = Inl OutOfBounds"
  by (rule timestamp_parse_overread [of 2013 12 31 "CHR ''T''" 23 59 59 "CHR ''+''" "[]"])
     (simp_all add: date_time_ok_def gregorian_days_def date_time_text_def digits4_def digits2_def char_of_def bit_0 bit_Suc)

end
