(* ===== verification/LD_Libraries.thy ===== *)
theory LD_Libraries
  imports LD_Streaming_Laws LD_Events_Laws LD_CJSON_Roundtrip LD_Semver LD_Timestamp
begin

text \<open>
  The parameters of the client instantiated with the models of the libraries it links: the
  version and timestamp parsers and the JSON codec. Only PCRE and the allocator stay open. The
  theorems about the client hold for every value of the parameters, so also for this one; here
  are those that need to know what the libraries do.
\<close>

section \<open>The instance\<close>

text \<open>\<open>compareSemVer\<close> clears the structure before it parses.\<close>

definition zero_version :: semver_t where
  "zero_version = \<lparr>sv_major = 0, sv_minor = 0, sv_patch = 0, sv_metadata = None, sv_prerelease = None\<rparr>"

definition parse_version :: "string \<Rightarrow> semver_t option" where
  "parse_version s = (let (res, ver) = semver_parse s zero_version in if res = 0 then Some ver else None)"

text \<open>
  A text on which the parser reads outside its argument (\<open>timestamp_parse_safe\<close> says which) counts
  as one it refuses: the program has no defined behaviour there.
\<close>

definition parse_time :: "string \<Rightarrow> timestamp_t option" where
  "parse_time s = (case timestamp_parse s (length s) of Inl _ \<Rightarrow> None | Inr r \<Rightarrow> r)"

definition serialize :: "allocator \<Rightarrow> json \<Rightarrow> string" where
  "serialize A j = (case LDJSONSerialize A (Some j) of Inr (Some t) \<Rightarrow> t | _ \<Rightarrow> [])"

definition deserialize :: "string \<Rightarrow> json option" where
  "deserialize s = (case LDJSONDeserialize (Some s) of Inl _ \<Rightarrow> None | Inr r \<Rightarrow> r)"

definition sdk_env :: "allocator \<Rightarrow> (string \<Rightarrow> (string \<Rightarrow> int) option) \<Rightarrow> env" where
  "sdk_env A pcre =
     \<lparr>env_pcre = pcre, env_semver_parse = parse_version,
      env_semver_eq = semver_eq, env_semver_lt = semver_lt, env_semver_gt = semver_gt,
      env_timestamp_parse = parse_time, env_serialize = serialize A, env_deserialize = deserialize\<rparr>"

section \<open>The codec\<close>

text \<open>The documents that survive the codec.\<close>

definition portable :: "json \<Rightarrow> bool" where
  "portable j = (finite_json j \<and> json_depth j \<le> CJSON_NESTING_LIMIT \<and> length (json_text False 0 j) + 2 \<le> INT_MAX)"

lemma codec:
  assumes "portable j"
  shows "serialize A j = json_text False 0 j" and "deserialize (serialize A j) = Some j"
    and "CHR 0x00 \<notin> set (serialize A j)"
proof -
  have j: "finite_json j" "json_depth j \<le> CJSON_NESTING_LIMIT" "length (json_text False 0 j) + 2 \<le> INT_MAX"
    using assms by (simp_all add: portable_def)
  show s: "serialize A j = json_text False 0 j"
    using print_text [OF finite_printable [OF j(1)] j(3)]
    by (simp add: serialize_def LDJSONSerialize_def cJSON_PrintUnformatted_def)
  show "deserialize (serialize A j) = Some j"
    unfolding s using parse_text [OF j(1,2), of False False]
    by (simp add: deserialize_def LDJSONDeserialize_def cJSON_Parse_def)
  show "CHR 0x00 \<notin> set (serialize A j)" unfolding s by (rule text_nul(1) [OF finite_printable [OF j(1)]])
qed

text \<open>
  C35: updates reach the store. When the bytes that arrive on a stream, in chunks cut anywhere
  and received at any times, are the event-stream form of a list of updates (\<open>put\<close>, \<open>patch\<close>,
  \<open>delete\<close>) printed by cJSON, then feeding them to the write callback has on the store exactly
  the effect of initialising it with the data of each put, upserting the feature of each patch
  and removing that of each delete, in the order they were sent, each at the arrival of the
  chunk that completed it, up to the first update the store refuses. The documents have finite
  numbers and strings without NUL and nest no deeper than the parser accepts.
\<close>

theorem stream_applies_updates:
  assumes "\<forall>u \<in> set us. update_ok u \<and> portable (update_doc u)"
    and "concat (map snd chunks) = concat (map (\<lambda>u. sse_encode (update_event (sdk_env A pcre) u)) us)" and "us \<noteq> []"
    and "idle (sc_parser context)"
  shows "\<exists>times. length times = length us \<and> set times \<subseteq> fst ` set chunks \<and>
    final_store (stream_feed (sdk_env A pcre) context store chunks) =
      stream_apply_all (sdk_env A pcre) store (zip times us)"
  using assms(1) codec by (intro stream_updates assms(2-4)) (auto simp: sdk_env_def)

section \<open>The counters of the summary\<close>

text \<open>
  The summary key of an event is the JSON text of its variation and version. Distinct pairs of
  finite doubles are printed differently, since the parser reads them back.
\<close>

definition double_label :: "rat option \<times> rat option \<Rightarrow> bool" where
  "double_label l = (pred_option is_double (fst l) \<and> pred_option is_double (snd l))"

lemma number_text_short: "is_double x \<Longrightarrow> length (number_text x) \<le> 24"
  by (intro number_text_chars) (simp add: is_number_def)

lemma label_portable:
  assumes "double_label l"
  shows "portable (label_doc l)"
proof -
  obtain v w where l: "l = (v, w)" by (cases l)
  let ?n = "case_option 0 (\<lambda>x. length (number_text x))"
  have d: "pred_option is_double v" "pred_option is_double w" using assms by (simp_all add: l double_label_def)
  then have "?n v \<le> 24" "?n w \<le> 24" by (auto simp: number_text_short split: option.split)
  then show ?thesis
    using d by (cases v; cases w)
      (simp_all add: l portable_def label_doc_def INT_MAX_def quoted_def escape_char_def
         short_escape_def json_depth.simps CJSON_NESTING_LIMIT_def)
qed

lemma label_doc_inject: "label_doc l = label_doc l' \<Longrightarrow> l = l'"
  by (cases l; cases l') (auto simp: label_doc_def split: option.splits)

lemma labels_told_apart:
  "inj_on (\<lambda>l. env_serialize (sdk_env A pcre) (label_doc l)) (Collect double_label)"
proof (rule inj_onI)
  fix l l' assume l: "l \<in> Collect double_label" "l' \<in> Collect double_label"
    and "env_serialize (sdk_env A pcre) (label_doc l) = env_serialize (sdk_env A pcre) (label_doc l')"
  then have "serialize A (label_doc l) = serialize A (label_doc l')" by (simp add: sdk_env_def)
  moreover have "deserialize (serialize A (label_doc l)) = Some (label_doc l)"
      "deserialize (serialize A (label_doc l')) = Some (label_doc l')"
    using l by (simp_all add: codec(2) label_portable)
  ultimately have "Some (label_doc l) = Some (label_doc l')" by metis
  then have "label_doc l = label_doc l'" by (rule option.inject [THEN iffD1])
  then show "l = l'" by (rule label_doc_inject)
qed

text \<open>
  C15: the summary counts every evaluation once, per flag, variation and version. Summarising
  any list of evaluation events (fewer than \<open>2\<^sup>5\<^sup>3\<close>, where \<open>double\<close> counting is exact) on a
  processor without counters succeeds; then for every flag and every pair of a variation and a
  version, either of which may be absent, the flag has no counter with that variation and
  version when no event has them, and else exactly one, whose count is the number of these
  events. Queue and user-key cache are untouched.
\<close>

theorem summary_counts_exact:
  assumes "summaryCounters ctx = JObject []" and "\<forall>e \<in> set es. event_wf e \<and> double_label (label_of e)"
    and "length es < 2 ^ 53"
  shows "\<exists>ctx'. summarize_all (sdk_env A pcre) ctx es now = Inr (True, ctx') \<and>
    (\<forall>f l. map (\<lambda>c. LDGetNumber (LDObjectLookup (Some c) ''count''))
        (filter (\<lambda>c. label_of c = l) (flag_counters (summaryCounters ctx') f)) =
      (let n = length (filter (\<lambda>e. event_flag e = f \<and> label_of e = l) es)
       in if n = 0 then [] else [of_nat n])) \<and>
    events ctx' = events ctx \<and> userKeys ctx' = userKeys ctx"
  using assms by (intro summary_counts [where D = "Collect double_label"] labels_told_apart) simp_all

section \<open>The version operators\<close>

text \<open>
  C26: the version operators order version texts: on two strings that parse, exactly one of
  equal, less and greater holds, and less is greater with its arguments exchanged; on anything
  else all three are false.\<close>

theorem semver_operators_order:
  "\<exists>eq lt gt. operatorSemVerEqual (sdk_env A pcre) u c = Inr eq \<and>
     operatorSemVerLessThan (sdk_env A pcre) u c = Inr lt \<and>
     operatorSemVerGreaterThan (sdk_env A pcre) u c = Inr gt \<and>
     operatorSemVerGreaterThan (sdk_env A pcre) c u = Inr lt \<and>
     (case (u, c) of
        (JText s, JText t) \<Rightarrow>
          if parse_version s \<noteq> None \<and> parse_version t \<noteq> None
          then (eq \<and> \<not> lt \<and> \<not> gt) \<or> (\<not> eq \<and> lt \<and> \<not> gt) \<or> (\<not> eq \<and> \<not> lt \<and> gt)
          else \<not> eq \<and> \<not> lt \<and> \<not> gt
      | _ \<Rightarrow> \<not> eq \<and> \<not> lt \<and> \<not> gt)"
proof -
  have r: "semver_compare a b \<in> {- 1, 0, 1}" "semver_compare b a = - semver_compare a b" for a b
    by (rule versions.range, rule versions.swap)
  have one: "(semver_eq a b \<and> \<not> semver_lt a b \<and> \<not> semver_gt a b) \<or> (\<not> semver_eq a b \<and> semver_lt a b \<and> \<not> semver_gt a b) \<or>
      (\<not> semver_eq a b \<and> \<not> semver_lt a b \<and> semver_gt a b)" for a b
    using r(1) [of a b] by (auto simp: semver_eq_def semver_lt_def semver_gt_def)
  have swap: "semver_gt b a = semver_lt a b" for a b using r(2) [of a b] by (auto simp: semver_lt_def semver_gt_def)
  note ops = operatorSemVerEqual_def operatorSemVerLessThan_def operatorSemVerGreaterThan_def compareSemVer_def
    with_strings_def sdk_env_def
  show ?thesis
  proof (cases "\<exists>s t a b. u = JText s \<and> c = JText t \<and> parse_version s = Some a \<and> parse_version t = Some b")
    case True
    then obtain s t a b where e: "u = JText s" "c = JText t" "parse_version s = Some a" "parse_version t = Some b" by blast
    show ?thesis using one [of a b] by (simp add: ops e swap)
  next
    case False
    then show ?thesis by (cases u; cases c) (auto simp: ops split: option.splits)
  qed
qed

section \<open>The date operators\<close>

text \<open>The instant in nanoseconds since 1970.\<close>

definition nanoseconds_of :: "timestamp_t \<Rightarrow> int" where
  "nanoseconds_of t = ts_sec t * 10 ^ 9 + ts_nsec t"

lemma instant_order:
  fixes n n' s s' :: int
  assumes "0 \<le> n" "n < 10 ^ 9" "0 \<le> n'" "n' < 10 ^ 9"
  shows "s < s' \<or> s = s' \<and> n < n' \<longleftrightarrow> s * 10 ^ 9 + n < s' * 10 ^ 9 + n'"
  using assms by (cases s s' rule: linorder_cases) auto

lemma parse_time_text:
  assumes "date_time_ok y mo d sep h mi s" and "fraction_ok ds" and "zone_ok z"
  shows "parse_time (date_time_text y mo d sep h mi s @ fraction_text ds @ zone_text z) = Some (instant y mo d h mi s ds z)"
    and "0 \<le> ts_nsec (instant y mo d h mi s ds z) \<and> ts_nsec (instant y mo d h mi s ds z) < 10 ^ 9"
  using timestamp_parse_text [OF assms refl] nanoseconds(2) [OF assms(2)]
  by (simp_all add: parse_time_def instant_def flip: of_nat_less_iff [where 'a = int])

text \<open>
  C25: on two RFC 3339 texts, in whatever zones and with whatever fractions, the date
  operators compare the instants the texts name.\<close>

theorem date_text_operators:
  assumes "date_time_ok y mo d sep h mi s" and "fraction_ok ds" and "zone_ok z"
    and "date_time_ok y' mo' d' sep' h' mi' s'" and "fraction_ok ds'" and "zone_ok z'"
    and "u = JText (date_time_text y mo d sep h mi s @ fraction_text ds @ zone_text z)"
    and "c = JText (date_time_text y' mo' d' sep' h' mi' s' @ fraction_text ds' @ zone_text z')"
  shows "operatorBefore (sdk_env A pcre) u c =
      Inr (nanoseconds_of (instant y mo d h mi s ds z) < nanoseconds_of (instant y' mo' d' h' mi' s' ds' z')) \<and>
    operatorAfter (sdk_env A pcre) u c =
      Inr (nanoseconds_of (instant y mo d h mi s ds z) > nanoseconds_of (instant y' mo' d' h' mi' s' ds' z'))"
proof -
  let ?t = "instant y mo d h mi s ds z" and ?t' = "instant y' mo' d' h' mi' s' ds' z'"
  note p = parse_time_text [OF assms(1-3)] and p' = parse_time_text [OF assms(4-6)]
  have "timestamp_compare ?t ?t' < 0 \<longleftrightarrow> nanoseconds_of ?t < nanoseconds_of ?t'"
    "timestamp_compare ?t' ?t < 0 \<longleftrightarrow> nanoseconds_of ?t' < nanoseconds_of ?t"
    using p(2) p'(2) unfolding timestamp_compare_less nanoseconds_of_def by (intro instant_order; simp)+
  then show ?thesis
    using p(1) p'(1) timestamp_compare_swap [of ?t ?t']
    by (simp add: operatorBefore_def operatorAfter_def compareTime_def LDi_parseTime_def sdk_env_def assms(7,8))
qed

section \<open>Witnesses\<close>

definition plain_allocator :: allocator where
  "plain_allocator = \<lparr>reallocates = True, fresh = (\<lambda>_. CHR ''?'')\<rparr>"

theorem date_text_operators_witness:
  "operatorBefore (sdk_env plain_allocator (\<lambda>_. None)) (JText ''2019-12-31T23:30:00.5+01:00'') (JText ''2019-12-31 22:30:01Z'') =
     Inr True"
proof -
  let ?u = "JText ''2019-12-31T23:30:00.5+01:00''" and ?c = "JText ''2019-12-31 22:30:01Z''"
  let ?z = "Offset False 1 0" and ?z' = "Utc CHR ''Z''"
  have ok: "date_time_ok 2019 12 31 CHR ''T'' 23 30 0" "date_time_ok 2019 12 31 CHR '' '' 22 30 1"
      "fraction_ok ''5''" "fraction_ok []" "zone_ok ?z" "zone_ok ?z'"
    by (simp_all add: date_time_ok_def gregorian_days_def fraction_ok_def is_digit_def)
  have t: "?u = JText (date_time_text 2019 12 31 CHR ''T'' 23 30 0 @ fraction_text ''5'' @ zone_text ?z)"
      "?c = JText (date_time_text 2019 12 31 CHR '' '' 22 30 1 @ fraction_text [] @ zone_text ?z')"
    by (simp_all add: date_time_text_def digits4_def digits2_def fraction_text_def char_of_def bit_0 bit_Suc)
  have "nanoseconds_of (instant 2019 12 31 23 30 0 ''5'' ?z) < nanoseconds_of (instant 2019 12 31 22 30 1 [] ?z')"
    by (simp add: nanoseconds_of_def instant_def read_nat_def digit_val_def)
  with date_text_operators [OF ok(1,3,5) ok(2,4,6) t, of plain_allocator "\<lambda>_. None"] show ?thesis by simp
qed

text \<open>Three evaluations of one flag, two of them of the same version.\<close>

definition versioned_event :: "rat \<Rightarrow> json" where
  "versioned_event v = JObject [(''key'', JText ''f''), (''variation'', JNumber 1), (''version'', JNumber v)]"

theorem summary_counts_exact_witness:
  "\<exists>ctx'. summarize_all (sdk_env plain_allocator (\<lambda>_. None)) small_processor
       [versioned_event 1, versioned_event 2, versioned_event 1] 7 = Inr (True, ctx') \<and>
     map (\<lambda>c. LDGetNumber (LDObjectLookup (Some c) ''count''))
       (filter (\<lambda>c. label_of c = (Some 1, Some 1)) (flag_counters (summaryCounters ctx') ''f'')) = [2] \<and>
     map (\<lambda>c. LDGetNumber (LDObjectLookup (Some c) ''count''))
       (filter (\<lambda>c. label_of c = (Some 1, Some 2)) (flag_counters (summaryCounters ctx') ''f'')) = [1]"
proof -
  have d: "is_double 1" "is_double 2"
    using to_double_int [of 1] to_double_int [of 2] by (simp_all add: is_double_def HUGE_VAL_def pow2_def)
  have e: "event_wf (versioned_event v)" "label_of (versioned_event v) = (Some 1, Some v)"
      "event_flag (versioned_event v) = ''f''" for v
    by (simp_all add: versioned_event_def event_wf_def label_of_def member_number_def event_flag_def)
  let ?es = "[versioned_event 1, versioned_event 2, versioned_event 1]"
  let ?counts = "\<lambda>ctx' f l. map (\<lambda>c. LDGetNumber (LDObjectLookup (Some c) ''count''))
      (filter (\<lambda>c. label_of c = l) (flag_counters (summaryCounters ctx') f))"
  have "summaryCounters small_processor = JObject []" "length ?es < 2 ^ 53"
      "\<forall>e \<in> set ?es. event_wf e \<and> double_label (label_of e)"
    by (simp_all add: small_defs e d double_label_def)
  from summary_counts_exact [OF this(1,3,2), of plain_allocator "\<lambda>_. None" 7]
  obtain ctx' where r: "summarize_all (sdk_env plain_allocator (\<lambda>_. None)) small_processor ?es 7 = Inr (True, ctx')"
    and c: "\<forall>f l. ?counts ctx' f l = (let n = length (filter (\<lambda>e. event_flag e = f \<and> label_of e = l) ?es)
       in if n = 0 then [] else [of_nat n])"
    by (elim exE conjE) (rule that; assumption)
  have "?counts ctx' ''f'' (Some 1, Some 1) = [2]" "?counts ctx' ''f'' (Some 1, Some 2) = [1]"
    by (simp_all only: c [rule_format]) (simp_all add: e Let_def)
  with r show ?thesis by (intro exI conjI)
qed

theorem stream_applies_updates_witness:
  "let u = Patch LD_FLAG ''a'' (JObject [(''on'', JBool True)]); E = sdk_env plain_allocator (\<lambda>_. None);
       bytes = sse_encode (update_event E u)
   in \<exists>times. length times = 1 \<and> set times \<subseteq> {10, 20} \<and>
     final_store (stream_feed E LDi_constructStreamContext (LDStoreNew sample_config)
       [(10, take 5 bytes), (20, drop 5 bytes)]) =
     stream_apply_all E (LDStoreNew sample_config) (zip times [u])"
proof -
  let ?u = "Patch LD_FLAG ''a'' (JObject [(''on'', JBool True)])" and ?E = "sdk_env plain_allocator (\<lambda>_. None)"
  let ?b = "sse_encode (update_event ?E ?u)"
  have "\<forall>u \<in> set [?u]. update_ok u \<and> portable (update_doc u)"
    by (simp add: portable_def feature_path_def json_depth.simps(1,2) CJSON_NESTING_LIMIT_def INT_MAX_def quoted_def
        escape_char_def short_escape_def)
  moreover have "concat (map snd [(10 :: rat, take 5 ?b), (20, drop 5 ?b)]) =
      concat (map (\<lambda>u. sse_encode (update_event ?E u)) [?u])" by simp
  moreover have "idle (sc_parser LDi_constructStreamContext)"
    by (simp add: idle_def LDi_constructStreamContext_def LDSSEParserInitialize_def pending_def)
  ultimately show ?thesis
    using stream_applies_updates [of "[?u]" "[(10, take 5 ?b), (20, drop 5 ?b)]" plain_allocator "\<lambda>_. None"
        LDi_constructStreamContext "LDStoreNew sample_config"]
    by (simp only: Let_def) simp
qed

end
