(* ===== verification/LD_Base64.thy ===== *)
theory LD_Base64
  imports LD_Prelude
begin

unbundle bit_operations_syntax

text \<open>
  third-party/src/base64.c: the URL flavour of base64, without line feeds. Bytes are
  \<open>8 word\<close>, lengths \<open>size_t\<close> of 64 bits; allocation succeeds.
\<close>

type_synonym u8 = "8 word"
type_synonym size_t = "64 word"

section \<open>The code\<close>

definition base64_table :: "u8 list" where
  "base64_table = map of_char ''ABCDEFGHIJKLMNOPQRSTUVWXYZabcdefghijklmnopqrstuvwxyz0123456789-_''"

abbreviation code :: "u8 \<Rightarrow> u8" where
  "code i \<equiv> base64_table ! unat i"

abbreviation pad_byte :: u8 where
  "pad_byte \<equiv> 61"

text \<open>The bytes written, the terminator apart.\<close>

fun encode_loop :: "u8 list \<Rightarrow> u8 list" where
  "encode_loop (a # b # c # src) =
     [code (drop_bit 2 a),
      code (push_bit 4 (a AND 0x03) OR drop_bit 4 b),
      code (push_bit 2 (b AND 0x0f) OR drop_bit 6 c),
      code (c AND 0x3f)] @ encode_loop src"
| "encode_loop [a, b] =
     [code (drop_bit 2 a),
      code (push_bit 4 (a AND 0x03) OR drop_bit 4 b),
      code (push_bit 2 (b AND 0x0f)), pad_byte]"
| "encode_loop [a] = [code (drop_bit 2 a), code (push_bit 4 (a AND 0x03)), pad_byte, pad_byte]"
| "encode_loop [] = []"

text \<open>\<open>NULL\<close> when the computation of the size wraps around.\<close>

definition LDi_base64_encode :: "u8 list \<Rightarrow> u8 list option run" where
  "LDi_base64_encode src =
     (let len = (of_nat (length src) :: size_t); olen = len * 4 div 3 + 4;
          olen = olen + olen div 72; olen = olen + 1; out = encode_loop src in
      if olen < len then Inr None
      else if unat olen < length out + 1 then Inl OutOfBounds
      else Inr (Some out))"

text \<open>The table of \<open>LDi_base64_decode\<close>: \<open>0x80\<close> marks the bytes that are skipped.\<close>

fun position :: "u8 list \<Rightarrow> u8 \<Rightarrow> u8 \<Rightarrow> u8" where
  "position [] i c = 0x80"
| "position (x # xs) i c = (if x = c then i else position xs (i + 1) c)"

definition dtable :: "u8 \<Rightarrow> u8" where
  "dtable c = (if c = pad_byte then 0 else position base64_table 0 c)"

text \<open>
  The second loop: the block collected so far, the padding seen and the bytes written to a
  buffer of \<open>olen\<close> bytes.
\<close>

fun decode_loop :: "nat \<Rightarrow> u8 list \<Rightarrow> u8 list \<Rightarrow> nat \<Rightarrow> u8 list \<Rightarrow> u8 list option run" where
  "decode_loop olen [] block pad out = Inr (Some out)"
| "decode_loop olen (c # src) block pad out =
     (let tmp = dtable c in
      if tmp = 0x80 then decode_loop olen src block pad out
      else
        let pad = (if c = pad_byte then pad + 1 else pad); block = block @ [tmp] in
        if length block = 4 then
          let out = out @ [push_bit 2 (block ! 0) OR drop_bit 4 (block ! 1),
                push_bit 4 (block ! 1) OR drop_bit 2 (block ! 2),
                push_bit 6 (block ! 2) OR block ! 3]
          in
          if olen < length out then Inl OutOfBounds
          else if pad \<noteq> 0 then
            if pad = 1 then Inr (Some (take (length out - 1) out))
            else if pad = 2 then Inr (Some (take (length out - 2) out))
            else Inr None
          else decode_loop olen src [] pad out
        else decode_loop olen src block pad out)"

definition LDi_base64_decode :: "u8 list \<Rightarrow> u8 list option run" where
  "LDi_base64_decode src =
     (let count = length (filter (\<lambda>c. dtable c \<noteq> 0x80) src) in
      if count = 0 \<or> count mod 4 \<noteq> 0 then Inr None
      else decode_loop (count div 4 * 3) src [] 0 [])"

section \<open>The alphabet\<close>

lemma length_table: "length base64_table = 64"
  by (simp add: base64_table_def)

lemma table_distinct: "distinct base64_table" "pad_byte \<notin> set base64_table"
  by (simp_all add: base64_table_def)

lemma position_nth: "distinct xs \<Longrightarrow> k < length xs \<Longrightarrow> position xs i (xs ! k) = i + of_nat k"
proof (induction xs arbitrary: i k)
  case (Cons x xs)
  then show ?case by (cases k) (auto simp: algebra_simps)
qed simp

lemma dtable_code:
  assumes "unat i < 64"
  shows "dtable (code i) = i" and "code i \<noteq> pad_byte"
proof -
  have "code i \<in> set base64_table" using assms length_table by simp
  then show p: "code i \<noteq> pad_byte" using table_distinct(2) by metis
  show "dtable (code i) = i"
    using position_nth [OF table_distinct(1), of "unat i" 0] assms p by (simp add: dtable_def length_table)
qed

lemma less_64: "take_bit 6 x = x \<Longrightarrow> unat x < 64" for x :: u8
proof -
  assume "take_bit 6 x = x"
  then have "unat x = take_bit 6 (unat x)" by (metis unsigned_take_bit_eq)
  then show ?thesis using take_bit_nat_less_exp [of 6 "unat x"] by simp
qed

lemma masks: "a AND 0x03 = take_bit 2 a" "a AND 0x0f = take_bit 4 a" "a AND 0x3f = take_bit 6 a" for a :: u8
  by (simp_all add: take_bit_eq_mask mask_eq_exp_minus_1)

lemma six_bits:
  fixes a b :: u8
  shows "unat (drop_bit 2 a) < 64" "unat (push_bit 4 (a AND 0x03) OR drop_bit 4 b) < 64"
    "unat (push_bit 2 (a AND 0x0f) OR drop_bit 6 b) < 64" "unat (a AND 0x3f) < 64"
    "unat (push_bit 4 (a AND 0x03)) < 64" "unat (push_bit 2 (a AND 0x0f)) < 64"
  unfolding masks by (rule less_64, rule bit_word_eqI, auto simp: bit_simps dest: bit_imp_le_length)+

lemma u8_eqI:
  fixes x y :: u8
  assumes "bit x 0 = bit y 0" "bit x 1 = bit y 1" "bit x 2 = bit y 2" "bit x 3 = bit y 3"
    "bit x 4 = bit y 4" "bit x 5 = bit y 5" "bit x 6 = bit y 6" "bit x 7 = bit y 7"
  shows "x = y"
proof (rule bit_word_eqI)
  fix n assume "n < LENGTH(8)"
  then have "n \<in> {0, 1, 2, 3, 4, 5, 6, 7}" by auto
  then show "bit x n = bit y n" using assms by blast
qed

lemma regroup:
  fixes a b c :: u8
  shows "push_bit 2 (drop_bit 2 a) OR drop_bit 4 (push_bit 4 (a AND 0x03) OR drop_bit 4 b) = a"
    "push_bit 4 (push_bit 4 (a AND 0x03) OR drop_bit 4 b) OR drop_bit 2 (push_bit 2 (b AND 0x0f) OR drop_bit 6 c) = b"
    "push_bit 6 (push_bit 2 (b AND 0x0f) OR drop_bit 6 c) OR (c AND 0x3f) = c"
  unfolding masks
  by (rule u8_eqI; simp add: bit_simps)+

section \<open>Decoding what was encoded\<close>

lemma not_marked: "unat i < 64 \<Longrightarrow> i \<noteq> 0x80" for i :: u8
  by auto

lemma dtable_pad: "dtable pad_byte = 0"
  by (simp add: dtable_def)

lemma decode_blocks:
  assumes "unat i < 64" "unat j < 64" "unat k < 64" "unat l < 64"
    and "out1 = push_bit 2 i OR drop_bit 4 j" "out2 = push_bit 4 j OR drop_bit 2 k" "out3 = push_bit 6 k OR l"
    and "length out + 3 \<le> olen"
  shows "decode_loop olen (code i # code j # code k # code l # src) [] 0 out =
      decode_loop olen src [] 0 (out @ [out1, out2, out3])"
    and "decode_loop olen [code i, code j, code k, pad_byte] [] 0 out = Inr (Some (out @ [out1, out2]))"
    and "decode_loop olen [code i, code j, pad_byte, pad_byte] [] 0 out = Inr (Some (out @ [out1]))"
  using assms(8) by (simp_all add: dtable_code not_marked assms(1-7) Let_def dtable_pad)

lemma blocks_Suc: "(n + 3 + 2) div 3 = Suc ((n + 2) div 3)" for n :: nat
  by presburger

lemma length_encode: "length (encode_loop src) = 4 * ((length src + 2) div 3)"
proof (induction src rule: encode_loop.induct)
  case (1 a b c src)
  then show ?case using blocks_Suc [of "length src"] by simp
qed auto

lemma encode_recognised: "\<forall>c \<in> set (encode_loop src). dtable c \<noteq> 0x80"
proof (induction src rule: encode_loop.induct)
  case (1 a b c src)
  then show ?case by (simp only: encode_loop.simps) (simp only: set_append list.set ball_Un ball_simps dtable_code six_bits not_marked not_False_eq_True simp_thms)
next
  case (2 a b)
  show ?case by (simp only: encode_loop.simps list.set ball_simps dtable_code six_bits not_marked) (simp add: dtable_pad)
next
  case (3 a)
  show ?case by (simp only: encode_loop.simps list.set ball_simps dtable_code six_bits not_marked) (simp add: dtable_pad)
qed simp

lemma decode_encode_loop:
  assumes "length out + 3 * ((length src + 2) div 3) \<le> olen"
  shows "decode_loop olen (encode_loop src) [] 0 out = Inr (Some (out @ src))"
  using assms
proof (induction src arbitrary: out rule: encode_loop.induct)
  case (1 a b c src)
  have l: "length out + 3 * Suc ((length src + 2) div 3) \<le> olen"
    using 1(2) blocks_Suc [of "length src"] by simp
  have "decode_loop olen (encode_loop (a # b # c # src)) [] 0 out = decode_loop olen (encode_loop src) [] 0 (out @ [a, b, c])"
    unfolding encode_loop.simps append_Cons append_Nil
    by (rule decode_blocks(1)) (use l in \<open>simp_all only: six_bits regroup\<close>, simp)
  also have "\<dots> = Inr (Some ((out @ [a, b, c]) @ src))" using l by (intro 1(1)) simp
  finally show ?case by simp
next
  case (2 a b)
  have "push_bit 4 (push_bit 4 (a AND 0x03) OR drop_bit 4 b) OR drop_bit 2 (push_bit 2 (b AND 0x0f)) = b"
    using regroup(2) [of a b 0] by (simp only: drop_bit_of_0 or.right_neutral)
  note e = regroup(1) [of a b, symmetric] this [symmetric]
  show ?case unfolding encode_loop.simps
    by (rule decode_blocks(2) [OF six_bits(1) six_bits(2) six_bits(6) six_bits(1) e refl]) (use 2 in simp)
next
  case (3 a)
  have "push_bit 2 (drop_bit 2 a) OR drop_bit 4 (push_bit 4 (a AND 0x03)) = a"
    using regroup(1) [of a 0] by (simp only: drop_bit_of_0 or.right_neutral)
  note e = this [symmetric]
  show ?case unfolding encode_loop.simps
    by (rule decode_blocks(3) [OF six_bits(1) six_bits(5) six_bits(1) six_bits(1) e refl refl]) (use 3 in simp)
qed simp

lemma encode_fits:
  assumes "length src < 2 ^ 61"
  shows "LDi_base64_encode src = Inr (Some (encode_loop src))"
proof -
  define n where "n = length src"
  define len where "len = (of_nat n :: size_t)"
  define k where "k = n * 4 div 3 + 4"
  have len: "unat len = n" using assms by (simp add: len_def n_def unat_of_nat)
  have m: "unat (len * 4) = n * 4" using assms by (simp add: unat_mult_lem [THEN iffD1] unat_word_ariths len n_def)
  define w where "w = len * 4 div 3 + 4"
  define w' where "w' = w + w div 72"
  have w: "unat w = k" using assms m by (simp add: w_def unat_word_ariths unat_div_distrib k_def n_def)
  have kb: "k < 2 ^ 62" using assms by (simp add: k_def n_def)
  have w': "unat w' = k + k div 72" using w kb by (simp add: w'_def unat_word_ariths unat_div_distrib)
  have o: "unat (w' + 1) = k + k div 72 + 1" using w' kb by (simp add: unat_word_ariths)
  have "length (encode_loop src) + 1 \<le> k + 1" unfolding length_encode k_def n_def by linarith
  moreover have "n \<le> k" by (simp add: k_def)
  ultimately show ?thesis
    unfolding LDi_base64_encode_def Let_def n_def [symmetric] len_def [symmetric] unfolding w_def [symmetric]
    unfolding w'_def [symmetric] word_less_nat_alt o len by simp
qed

text \<open>
  C31: encoding a byte string and decoding the result gives it back, for every string but
  the empty one and up to sizes no memory has; the output fits in the buffer computed for
  it in both directions.\<close>

theorem base64_roundtrip:
  assumes "src \<noteq> []" and "length src < 2 ^ 61"
  shows "\<exists>t. LDi_base64_encode src = Inr (Some t) \<and> length t = 4 * ((length src + 2) div 3) \<and>
    LDi_base64_decode t = Inr (Some src)"
proof -
  let ?t = "encode_loop src" and ?m = "(length src + 2) div 3"
  have "filter (\<lambda>c. dtable c \<noteq> 0x80) ?t = ?t" using encode_recognised [of src] by (simp add: filter_id_conv)
  moreover have "?m \<noteq> 0" using assms(1) by (cases src) auto
  ultimately have "LDi_base64_decode ?t = decode_loop (?m * 3) ?t [] 0 []"
    using length_encode [of src] by (simp add: LDi_base64_decode_def Let_def)
  also have "\<dots> = Inr (Some ([] @ src))" by (rule decode_encode_loop) simp
  finally show ?thesis using encode_fits [OF assms(2)] length_encode [of src] by simp
qed

theorem base64_roundtrip_witness:
  "\<exists>t. LDi_base64_encode [0x4C, 0x44, 0xFF, 0x00] = Inr (Some t) \<and> LDi_base64_decode t = Inr (Some [0x4C, 0x44, 0xFF, 0x00])"
  using base64_roundtrip [of "[0x4C, 0x44, 0xFF, 0x00]"] by auto

text \<open>The empty string is encoded to the empty text, which the decoder refuses.\<close>

lemma base64_empty: "LDi_base64_encode [] = Inr (Some [])" "LDi_base64_decode [] = Inr None"
  using encode_fits [of "[]"] by (simp_all add: LDi_base64_decode_def)

end
