(* ===== verification/LD_CJSON_Heap.thy ===== *)
theory LD_CJSON_Heap
  imports LD_JSON
begin

unbundle bit_operations_syntax

text \<open>
  The trees of c-sdk-common/src/cJSON.c in memory: nodes with pointers to their neighbours and
  to the first child, and every operation on them that json.c calls. A pointer is \<open>None\<close> for
  \<open>NULL\<close> or an address; following it faults when it is \<open>NULL\<close> or the node was freed. The
  strings a node owns are part of the node, so that they live and die with it. Allocation
  succeeds. Loops and recursions over pointers take the number of addresses ever handed out as
  fuel, which no chain of distinct nodes exceeds.
\<close>

section \<open>Memory\<close>

type_synonym ptr = "nat option"

text \<open>What a node says, apart from its links.\<close>

record item =
  it_type :: u32
  it_valuestring :: "string option"
  it_valueint :: int
  it_valuedouble :: rat
  it_string :: "string option"

record cJSON =
  cj_next :: ptr
  cj_prev :: ptr
  cj_child :: ptr
  cj_item :: item

record memory =
  mem :: "nat \<Rightarrow> cJSON option"
  brk :: nat

definition load :: "memory \<Rightarrow> ptr \<Rightarrow> cJSON run" where
  "load h p =
     (case p of
        None \<Rightarrow> Inl NullPointer
      | Some a \<Rightarrow> (case mem h a of None \<Rightarrow> Inl UseAfterFree | Some nd \<Rightarrow> Inr nd))"

definition modify :: "memory \<Rightarrow> ptr \<Rightarrow> (cJSON \<Rightarrow> cJSON) \<Rightarrow> memory run" where
  "modify h p f =
     (case p of
        None \<Rightarrow> Inl NullPointer
      | Some a \<Rightarrow>
          (case mem h a of
             None \<Rightarrow> Inl UseAfterFree
           | Some nd \<Rightarrow> Inr (h\<lparr>mem := (mem h)(a := Some (f nd))\<rparr>)))"

definition free :: "memory \<Rightarrow> ptr \<Rightarrow> memory run" where
  "free h p =
     (case p of
        None \<Rightarrow> Inr h
      | Some a \<Rightarrow>
          (case mem h a of
             None \<Rightarrow> Inl UseAfterFree
           | Some nd \<Rightarrow> Inr (h\<lparr>mem := (mem h)(a := None)\<rparr>)))"

section \<open>Types\<close>

definition cJSON_Invalid :: u32 where "cJSON_Invalid = 0"
definition cJSON_False :: u32 where "cJSON_False = push_bit 0 1"
definition cJSON_True :: u32 where "cJSON_True = push_bit 1 1"
definition cJSON_NULL :: u32 where "cJSON_NULL = push_bit 2 1"
definition cJSON_Number :: u32 where "cJSON_Number = push_bit 3 1"
definition cJSON_String :: u32 where "cJSON_String = push_bit 4 1"
definition cJSON_Array :: u32 where "cJSON_Array = push_bit 5 1"
definition cJSON_Object :: u32 where "cJSON_Object = push_bit 6 1"
definition cJSON_Raw :: u32 where "cJSON_Raw = push_bit 7 1"
definition cJSON_IsReference :: u32 where "cJSON_IsReference = 256"
definition cJSON_StringIsConst :: u32 where "cJSON_StringIsConst = 512"

definition has_flag :: "item \<Rightarrow> u32 \<Rightarrow> bool" where
  "has_flag it flag = (it_type it AND flag \<noteq> 0)"

text \<open>The tests \<open>cJSON_IsNull\<close> and so on: a null pointer has no type.\<close>

definition is_type :: "u32 \<Rightarrow> memory \<Rightarrow> ptr \<Rightarrow> bool run" where
  "is_type t h p = (if p = None then Inr False else run_bind (load h p) (\<lambda>nd. Inr (it_type (cj_item nd) AND 0xFF = t)))"

definition cJSON_IsInvalid :: "memory \<Rightarrow> ptr \<Rightarrow> bool run" where "cJSON_IsInvalid = is_type cJSON_Invalid"
definition cJSON_IsFalse :: "memory \<Rightarrow> ptr \<Rightarrow> bool run" where "cJSON_IsFalse = is_type cJSON_False"
definition cJSON_IsTrue :: "memory \<Rightarrow> ptr \<Rightarrow> bool run" where "cJSON_IsTrue = is_type cJSON_True"
definition cJSON_IsNull :: "memory \<Rightarrow> ptr \<Rightarrow> bool run" where "cJSON_IsNull = is_type cJSON_NULL"
definition cJSON_IsNumber :: "memory \<Rightarrow> ptr \<Rightarrow> bool run" where "cJSON_IsNumber = is_type cJSON_Number"
definition cJSON_IsString :: "memory \<Rightarrow> ptr \<Rightarrow> bool run" where "cJSON_IsString = is_type cJSON_String"
definition cJSON_IsArray :: "memory \<Rightarrow> ptr \<Rightarrow> bool run" where "cJSON_IsArray = is_type cJSON_Array"
definition cJSON_IsObject :: "memory \<Rightarrow> ptr \<Rightarrow> bool run" where "cJSON_IsObject = is_type cJSON_Object"
definition cJSON_IsRaw :: "memory \<Rightarrow> ptr \<Rightarrow> bool run" where "cJSON_IsRaw = is_type cJSON_Raw"

definition cJSON_IsBool :: "memory \<Rightarrow> ptr \<Rightarrow> bool run" where
  "cJSON_IsBool h p =
     (if p = None then Inr False
      else run_bind (load h p) (\<lambda>nd. Inr (it_type (cj_item nd) AND (cJSON_True OR cJSON_False) \<noteq> 0)))"

section \<open>Creation and deletion\<close>

definition zero_item :: item where
  "zero_item = \<lparr>it_type = 0, it_valuestring = None, it_valueint = 0, it_valuedouble = 0, it_string = None\<rparr>"

definition cJSON_New_Item :: "memory \<Rightarrow> nat \<times> memory" where
  "cJSON_New_Item h =
     (let a = brk h in
      (a, h\<lparr>mem := (mem h)(a := Some \<lparr>cj_next = None, cj_prev = None, cj_child = None, cj_item = zero_item\<rparr>),
            brk := a + 1\<rparr>))"

text \<open>A new node whose other fields are set at once.\<close>

definition create :: "memory \<Rightarrow> item \<Rightarrow> nat \<times> memory" where
  "create h it =
     (let (a, h) = cJSON_New_Item h in
      (a, h\<lparr>mem := (mem h)(a := Some \<lparr>cj_next = None, cj_prev = None, cj_child = None, cj_item = it\<rparr>)\<rparr>))"

fun delete_loop :: "nat \<Rightarrow> memory \<Rightarrow> ptr \<Rightarrow> memory run" where
  "delete_loop 0 h p = Inl OutOfFuel"
| "delete_loop (Suc n) h p =
     (if p = None then Inr h
      else
        run_bind (load h p) (\<lambda>nd.
        run_bind (if \<not> has_flag (cj_item nd) cJSON_IsReference \<and> cj_child nd \<noteq> None
                  then delete_loop n h (cj_child nd) else Inr h) (\<lambda>h.
        run_bind (free h p) (\<lambda>h. delete_loop n h (cj_next nd)))))"

definition cJSON_Delete :: "memory \<Rightarrow> ptr \<Rightarrow> memory run" where
  "cJSON_Delete h p = delete_loop (brk h + 1) h p"

definition saturated_int :: "rat \<Rightarrow> int" where
  "saturated_int x =
     (if x \<ge> 2147483647 then 2147483647 else if x \<le> - 2147483648 then - 2147483648 else trunc_rat x)"

definition cJSON_CreateNull :: "memory \<Rightarrow> nat \<times> memory" where
  "cJSON_CreateNull h = create h (zero_item\<lparr>it_type := cJSON_NULL\<rparr>)"

definition cJSON_CreateTrue :: "memory \<Rightarrow> nat \<times> memory" where
  "cJSON_CreateTrue h = create h (zero_item\<lparr>it_type := cJSON_True\<rparr>)"

definition cJSON_CreateFalse :: "memory \<Rightarrow> nat \<times> memory" where
  "cJSON_CreateFalse h = create h (zero_item\<lparr>it_type := cJSON_False\<rparr>)"

definition cJSON_CreateBool :: "memory \<Rightarrow> bool \<Rightarrow> nat \<times> memory" where
  "cJSON_CreateBool h b = create h (zero_item\<lparr>it_type := if b then cJSON_True else cJSON_False\<rparr>)"

definition cJSON_CreateNumber :: "memory \<Rightarrow> rat \<Rightarrow> nat \<times> memory" where
  "cJSON_CreateNumber h num =
     create h (zero_item\<lparr>it_type := cJSON_Number, it_valuedouble := num, it_valueint := saturated_int num\<rparr>)"

text \<open>Copying \<open>NULL\<close> fails, and the node is given back.\<close>

definition create_text :: "memory \<Rightarrow> u32 \<Rightarrow> string option \<Rightarrow> (ptr \<times> memory) run" where
  "create_text h t string =
     (let (a, h') = create h (zero_item\<lparr>it_type := t, it_valuestring := string\<rparr>) in
      if string = None then run_bind (cJSON_Delete h' (Some a)) (\<lambda>h. Inr (None, h))
      else Inr (Some a, h'))"

definition cJSON_CreateString :: "memory \<Rightarrow> string option \<Rightarrow> (ptr \<times> memory) run" where
  "cJSON_CreateString h string = create_text h cJSON_String string"

definition cJSON_CreateRaw :: "memory \<Rightarrow> string option \<Rightarrow> (ptr \<times> memory) run" where
  "cJSON_CreateRaw h raw = create_text h cJSON_Raw raw"

definition cJSON_CreateStringReference :: "memory \<Rightarrow> string option \<Rightarrow> nat \<times> memory" where
  "cJSON_CreateStringReference h string =
     create h (zero_item\<lparr>it_type := cJSON_String OR cJSON_IsReference, it_valuestring := string\<rparr>)"

definition create_link :: "memory \<Rightarrow> u32 \<Rightarrow> ptr \<Rightarrow> nat \<times> memory" where
  "create_link h t child =
     (let (a, h) = create h (zero_item\<lparr>it_type := t OR cJSON_IsReference\<rparr>) in
      (a, h\<lparr>mem := (mem h)(a := map_option (\<lambda>nd. nd\<lparr>cj_child := child\<rparr>) (mem h a))\<rparr>))"

definition cJSON_CreateObjectReference :: "memory \<Rightarrow> ptr \<Rightarrow> nat \<times> memory" where
  "cJSON_CreateObjectReference h child = create_link h cJSON_Object child"

definition cJSON_CreateArrayReference :: "memory \<Rightarrow> ptr \<Rightarrow> nat \<times> memory" where
  "cJSON_CreateArrayReference h child = create_link h cJSON_Array child"

definition cJSON_CreateArray :: "memory \<Rightarrow> nat \<times> memory" where
  "cJSON_CreateArray h = create h (zero_item\<lparr>it_type := cJSON_Array\<rparr>)"

definition cJSON_CreateObject :: "memory \<Rightarrow> nat \<times> memory" where
  "cJSON_CreateObject h = create h (zero_item\<lparr>it_type := cJSON_Object\<rparr>)"

section \<open>Reading\<close>

text \<open>Following \<open>next\<close> from a pointer, until \<open>NULL\<close> or \<open>n\<close> steps, or while a test of the node says so.\<close>

fun size_loop :: "nat \<Rightarrow> memory \<Rightarrow> ptr \<Rightarrow> nat run" where
  "size_loop 0 h child = Inl OutOfFuel"
| "size_loop (Suc n) h child =
     (if child = None then Inr 0
      else run_bind (load h child) (\<lambda>nd. run_bind (size_loop n h (cj_next nd)) (\<lambda>k. Inr (k + 1))))"

text \<open>The count converted to \<open>int\<close> and, by json.c, to \<open>unsigned int\<close>.\<close>

definition cJSON_GetArraySize :: "memory \<Rightarrow> ptr \<Rightarrow> u32 run" where
  "cJSON_GetArraySize h array =
     (if array = None then Inr 0
      else run_bind (load h array) (\<lambda>nd. run_bind (size_loop (brk h + 1) h (cj_child nd)) (\<lambda>k. Inr (of_nat k))))"

fun index_loop :: "nat \<Rightarrow> memory \<Rightarrow> ptr \<Rightarrow> ptr run" where
  "index_loop 0 h child = Inr child"
| "index_loop (Suc index) h child =
     (if child = None then Inr None else run_bind (load h child) (\<lambda>nd. index_loop index h (cj_next nd)))"

definition get_array_item :: "memory \<Rightarrow> ptr \<Rightarrow> nat \<Rightarrow> ptr run" where
  "get_array_item h array index =
     (if array = None then Inr None else run_bind (load h array) (\<lambda>nd. index_loop index h (cj_child nd)))"

definition cJSON_GetArrayItem :: "memory \<Rightarrow> ptr \<Rightarrow> int \<Rightarrow> ptr run" where
  "cJSON_GetArrayItem h array index = (if index < 0 then Inr None else get_array_item h array (nat index))"

definition tolower :: "char \<Rightarrow> char" where
  "tolower c =
     (if 65 \<le> (of_char c :: nat) \<and> (of_char c :: nat) \<le> 90 then char_of (of_char c + 32 :: nat) else c)"

text \<open>Equality of C strings up to case, as \<open>case_insensitive_strcmp\<close> returning 0; \<open>NULL\<close> equals nothing.\<close>

definition case_insensitive_equal :: "string option \<Rightarrow> string option \<Rightarrow> bool" where
  "case_insensitive_equal string1 string2 =
     (case (string1, string2) of (Some s, Some t) \<Rightarrow> map tolower s = map tolower t | _ \<Rightarrow> False)"

text \<open>
  The case-sensitive loop stops at a member without a key, the other one passes over it.
\<close>

fun object_loop :: "nat \<Rightarrow> memory \<Rightarrow> string \<Rightarrow> bool \<Rightarrow> ptr \<Rightarrow> ptr run" where
  "object_loop 0 h name case_sensitive current = Inl OutOfFuel"
| "object_loop (Suc n) h name case_sensitive current =
     (if current = None then Inr None
      else
        run_bind (load h current) (\<lambda>nd.
          if case_sensitive
          then if it_string (cj_item nd) = None then Inr None
               else if it_string (cj_item nd) = Some name then Inr current
               else object_loop n h name case_sensitive (cj_next nd)
          else if case_insensitive_equal (Some name) (it_string (cj_item nd)) then Inr current
          else object_loop n h name case_sensitive (cj_next nd)))"

definition get_object_item :: "memory \<Rightarrow> ptr \<Rightarrow> string option \<Rightarrow> bool \<Rightarrow> ptr run" where
  "get_object_item h object name case_sensitive =
     (case name of
        None \<Rightarrow> Inr None
      | Some key \<Rightarrow>
          if object = None then Inr None
          else run_bind (load h object) (\<lambda>nd. object_loop (brk h + 1) h key case_sensitive (cj_child nd)))"

definition cJSON_GetObjectItem :: "memory \<Rightarrow> ptr \<Rightarrow> string option \<Rightarrow> ptr run" where
  "cJSON_GetObjectItem h object string = get_object_item h object string False"

definition cJSON_GetObjectItemCaseSensitive :: "memory \<Rightarrow> ptr \<Rightarrow> string option \<Rightarrow> ptr run" where
  "cJSON_GetObjectItemCaseSensitive h object string = get_object_item h object string True"

definition cJSON_HasObjectItem :: "memory \<Rightarrow> ptr \<Rightarrow> string option \<Rightarrow> bool run" where
  "cJSON_HasObjectItem h object string = run_bind (cJSON_GetObjectItem h object string) (\<lambda>p. Inr (p \<noteq> None))"

definition cJSON_GetStringValue :: "memory \<Rightarrow> ptr \<Rightarrow> string option run" where
  "cJSON_GetStringValue h p =
     run_bind (cJSON_IsString h p) (\<lambda>b.
       if \<not> b then Inr None else run_bind (load h p) (\<lambda>nd. Inr (it_valuestring (cj_item nd))))"

definition cJSON_SetNumberHelper :: "memory \<Rightarrow> ptr \<Rightarrow> rat \<Rightarrow> memory run" where
  "cJSON_SetNumberHelper h object num =
     modify h object (\<lambda>nd. nd\<lparr>cj_item := (cj_item nd)\<lparr>it_valueint := saturated_int num, it_valuedouble := num\<rparr>\<rparr>)"

section \<open>Adding\<close>

definition set_next :: "memory \<Rightarrow> ptr \<Rightarrow> ptr \<Rightarrow> memory run" where
  "set_next h p q = modify h p (\<lambda>nd. nd\<lparr>cj_next := q\<rparr>)"

definition set_prev :: "memory \<Rightarrow> ptr \<Rightarrow> ptr \<Rightarrow> memory run" where
  "set_prev h p q = modify h p (\<lambda>nd. nd\<lparr>cj_prev := q\<rparr>)"

definition set_child :: "memory \<Rightarrow> ptr \<Rightarrow> ptr \<Rightarrow> memory run" where
  "set_child h p q = modify h p (\<lambda>nd. nd\<lparr>cj_child := q\<rparr>)"

definition suffix_object :: "memory \<Rightarrow> ptr \<Rightarrow> ptr \<Rightarrow> memory run" where
  "suffix_object h prev item = run_bind (set_next h prev item) (\<lambda>h. set_prev h item prev)"

definition create_reference :: "memory \<Rightarrow> ptr \<Rightarrow> (ptr \<times> memory) run" where
  "create_reference h p =
     (if p = None then Inr (None, h)
      else
        let (a, h') = cJSON_New_Item h in
        run_bind (load h' p) (\<lambda>nd.
        run_bind (modify h' (Some a)
            (\<lambda>_. \<lparr>cj_next = None, cj_prev = None, cj_child = cj_child nd,
                  cj_item = (cj_item nd)\<lparr>it_string := None,
                    it_type := it_type (cj_item nd) OR cJSON_IsReference\<rparr>\<rparr>)) (\<lambda>h.
        Inr (Some a, h))))"

text \<open>The last node of a chain.\<close>

fun last_loop :: "nat \<Rightarrow> memory \<Rightarrow> ptr \<Rightarrow> ptr run" where
  "last_loop 0 h child = Inl OutOfFuel"
| "last_loop (Suc n) h child =
     run_bind (load h child) (\<lambda>nd. if cj_next nd = None then Inr child else last_loop n h (cj_next nd))"

definition add_item_to_array :: "memory \<Rightarrow> ptr \<Rightarrow> ptr \<Rightarrow> (bool \<times> memory) run" where
  "add_item_to_array h array item =
     (if item = None \<or> array = None then Inr (False, h)
      else
        run_bind (load h array) (\<lambda>nd.
        run_bind (if cj_child nd = None then set_child h array item
                  else run_bind (last_loop (brk h + 1) h (cj_child nd)) (\<lambda>child. suffix_object h child item))
          (\<lambda>h. Inr (True, h))))"

definition cJSON_AddItemToArray :: "memory \<Rightarrow> ptr \<Rightarrow> ptr \<Rightarrow> memory run" where
  "cJSON_AddItemToArray h array item = run_bind (add_item_to_array h array item) (\<lambda>(_, h). Inr h)"

text \<open>
  The key is copied, or kept by the caller when it is constant; either way the node names it.
\<close>

definition add_item_to_object :: "memory \<Rightarrow> ptr \<Rightarrow> string option \<Rightarrow> ptr \<Rightarrow> bool \<Rightarrow> (bool \<times> memory) run" where
  "add_item_to_object h object string item constant_key =
     (if object = None \<or> string = None \<or> item = None then Inr (False, h)
      else
        run_bind (modify h item (\<lambda>nd. nd\<lparr>cj_item := (cj_item nd)\<lparr>it_string := string,
            it_type := (if constant_key then it_type (cj_item nd) OR cJSON_StringIsConst
                        else it_type (cj_item nd) AND NOT cJSON_StringIsConst)\<rparr>\<rparr>)) (\<lambda>h.
        add_item_to_array h object item))"

definition cJSON_AddItemToObject :: "memory \<Rightarrow> ptr \<Rightarrow> string option \<Rightarrow> ptr \<Rightarrow> memory run" where
  "cJSON_AddItemToObject h object string item =
     run_bind (add_item_to_object h object string item False) (\<lambda>(_, h). Inr h)"

definition cJSON_AddItemToObjectCS :: "memory \<Rightarrow> ptr \<Rightarrow> string option \<Rightarrow> ptr \<Rightarrow> memory run" where
  "cJSON_AddItemToObjectCS h object string item =
     run_bind (add_item_to_object h object string item True) (\<lambda>(_, h). Inr h)"

definition cJSON_AddItemReferenceToArray :: "memory \<Rightarrow> ptr \<Rightarrow> ptr \<Rightarrow> memory run" where
  "cJSON_AddItemReferenceToArray h array item =
     (if array = None then Inr h
      else run_bind (create_reference h item) (\<lambda>(r, h). cJSON_AddItemToArray h array r))"

definition cJSON_AddItemReferenceToObject :: "memory \<Rightarrow> ptr \<Rightarrow> string option \<Rightarrow> ptr \<Rightarrow> memory run" where
  "cJSON_AddItemReferenceToObject h object string item =
     (if object = None \<or> string = None then Inr h
      else run_bind (create_reference h item) (\<lambda>(r, h). cJSON_AddItemToObject h object string r))"

text \<open>A new node is added under a name, or given back when it cannot be.\<close>

definition add_or_delete :: "ptr \<times> memory \<Rightarrow> ptr \<Rightarrow> string option \<Rightarrow> (ptr \<times> memory) run" where
  "add_or_delete new object name =
     (let (item, h) = new in
      run_bind (add_item_to_object h object name item False) (\<lambda>(added, h).
        if added then Inr (item, h)
        else run_bind (cJSON_Delete h item) (\<lambda>h. Inr (None, h))))"

abbreviation as_ptr :: "nat \<times> memory \<Rightarrow> ptr \<times> memory" where
  "as_ptr r \<equiv> (Some (fst r), snd r)"

definition cJSON_AddNullToObject :: "memory \<Rightarrow> ptr \<Rightarrow> string option \<Rightarrow> (ptr \<times> memory) run" where
  "cJSON_AddNullToObject h object name = add_or_delete (as_ptr (cJSON_CreateNull h)) object name"

definition cJSON_AddTrueToObject :: "memory \<Rightarrow> ptr \<Rightarrow> string option \<Rightarrow> (ptr \<times> memory) run" where
  "cJSON_AddTrueToObject h object name = add_or_delete (as_ptr (cJSON_CreateTrue h)) object name"

definition cJSON_AddFalseToObject :: "memory \<Rightarrow> ptr \<Rightarrow> string option \<Rightarrow> (ptr \<times> memory) run" where
  "cJSON_AddFalseToObject h object name = add_or_delete (as_ptr (cJSON_CreateFalse h)) object name"

definition cJSON_AddBoolToObject :: "memory \<Rightarrow> ptr \<Rightarrow> string option \<Rightarrow> bool \<Rightarrow> (ptr \<times> memory) run" where
  "cJSON_AddBoolToObject h object name b = add_or_delete (as_ptr (cJSON_CreateBool h b)) object name"

definition cJSON_AddNumberToObject :: "memory \<Rightarrow> ptr \<Rightarrow> string option \<Rightarrow> rat \<Rightarrow> (ptr \<times> memory) run" where
  "cJSON_AddNumberToObject h object name num = add_or_delete (as_ptr (cJSON_CreateNumber h num)) object name"

definition cJSON_AddStringToObject ::
    "memory \<Rightarrow> ptr \<Rightarrow> string option \<Rightarrow> string option \<Rightarrow> (ptr \<times> memory) run" where
  "cJSON_AddStringToObject h object name string =
     run_bind (cJSON_CreateString h string) (\<lambda>new. add_or_delete new object name)"

definition cJSON_AddRawToObject ::
    "memory \<Rightarrow> ptr \<Rightarrow> string option \<Rightarrow> string option \<Rightarrow> (ptr \<times> memory) run" where
  "cJSON_AddRawToObject h object name raw =
     run_bind (cJSON_CreateRaw h raw) (\<lambda>new. add_or_delete new object name)"

definition cJSON_AddObjectToObject :: "memory \<Rightarrow> ptr \<Rightarrow> string option \<Rightarrow> (ptr \<times> memory) run" where
  "cJSON_AddObjectToObject h object name = add_or_delete (as_ptr (cJSON_CreateObject h)) object name"

definition cJSON_AddArrayToObject :: "memory \<Rightarrow> ptr \<Rightarrow> string option \<Rightarrow> (ptr \<times> memory) run" where
  "cJSON_AddArrayToObject h object name = add_or_delete (as_ptr (cJSON_CreateArray h)) object name"

section \<open>Detaching, inserting and replacing\<close>

text \<open>The writes guarded by a test of the pointer, and the write to the parent of a first child.\<close>

definition set_next_if :: "memory \<Rightarrow> ptr \<Rightarrow> ptr \<Rightarrow> memory run" where
  "set_next_if h p q = (if p \<noteq> None then set_next h p q else Inr h)"

definition set_prev_if :: "memory \<Rightarrow> ptr \<Rightarrow> ptr \<Rightarrow> memory run" where
  "set_prev_if h p q = (if p \<noteq> None then set_prev h p q else Inr h)"

definition set_first :: "memory \<Rightarrow> ptr \<Rightarrow> ptr \<Rightarrow> ptr \<Rightarrow> memory run" where
  "set_first h parent item q =
     run_bind (load h parent) (\<lambda>pd. if cj_child pd = item then set_child h parent q else Inr h)"

definition cJSON_DetachItemViaPointer :: "memory \<Rightarrow> ptr \<Rightarrow> ptr \<Rightarrow> (ptr \<times> memory) run" where
  "cJSON_DetachItemViaPointer h parent item =
     (if parent = None \<or> item = None then Inr (None, h)
      else
        run_bind (load h item) (\<lambda>nd.
        run_bind (set_next_if h (cj_prev nd) (cj_next nd)) (\<lambda>h.
        run_bind (load h item) (\<lambda>nd.
        run_bind (set_prev_if h (cj_next nd) (cj_prev nd)) (\<lambda>h.
        run_bind (load h item) (\<lambda>nd.
        run_bind (set_first h parent item (cj_next nd)) (\<lambda>h.
        run_bind (set_prev h item None) (\<lambda>h.
        run_bind (set_next h item None) (\<lambda>h.
        Inr (item, h))))))))))"

definition cJSON_DetachItemFromArray :: "memory \<Rightarrow> ptr \<Rightarrow> int \<Rightarrow> (ptr \<times> memory) run" where
  "cJSON_DetachItemFromArray h array which =
     (if which < 0 then Inr (None, h)
      else run_bind (get_array_item h array (nat which)) (\<lambda>item. cJSON_DetachItemViaPointer h array item))"

definition cJSON_DeleteItemFromArray :: "memory \<Rightarrow> ptr \<Rightarrow> int \<Rightarrow> memory run" where
  "cJSON_DeleteItemFromArray h array which =
     run_bind (cJSON_DetachItemFromArray h array which) (\<lambda>(item, h). cJSON_Delete h item)"

definition cJSON_DetachItemFromObject :: "memory \<Rightarrow> ptr \<Rightarrow> string option \<Rightarrow> (ptr \<times> memory) run" where
  "cJSON_DetachItemFromObject h object string =
     run_bind (cJSON_GetObjectItem h object string) (\<lambda>to_detach. cJSON_DetachItemViaPointer h object to_detach)"

definition cJSON_DetachItemFromObjectCaseSensitive ::
    "memory \<Rightarrow> ptr \<Rightarrow> string option \<Rightarrow> (ptr \<times> memory) run" where
  "cJSON_DetachItemFromObjectCaseSensitive h object string =
     run_bind (cJSON_GetObjectItemCaseSensitive h object string)
       (\<lambda>to_detach. cJSON_DetachItemViaPointer h object to_detach)"

definition cJSON_DeleteItemFromObject :: "memory \<Rightarrow> ptr \<Rightarrow> string option \<Rightarrow> memory run" where
  "cJSON_DeleteItemFromObject h object string =
     run_bind (cJSON_DetachItemFromObject h object string) (\<lambda>(item, h). cJSON_Delete h item)"

definition cJSON_DeleteItemFromObjectCaseSensitive :: "memory \<Rightarrow> ptr \<Rightarrow> string option \<Rightarrow> memory run" where
  "cJSON_DeleteItemFromObjectCaseSensitive h object string =
     run_bind (cJSON_DetachItemFromObjectCaseSensitive h object string) (\<lambda>(item, h). cJSON_Delete h item)"

definition cJSON_InsertItemInArray :: "memory \<Rightarrow> ptr \<Rightarrow> int \<Rightarrow> ptr \<Rightarrow> memory run" where
  "cJSON_InsertItemInArray h array which newitem =
     (if which < 0 then Inr h
      else
        run_bind (get_array_item h array (nat which)) (\<lambda>after_inserted.
        if after_inserted = None then cJSON_AddItemToArray h array newitem
        else
          run_bind (set_next h newitem after_inserted) (\<lambda>h.
          run_bind (load h after_inserted) (\<lambda>after.
          run_bind (set_prev h newitem (cj_prev after)) (\<lambda>h.
          run_bind (set_prev h after_inserted newitem) (\<lambda>h.
          run_bind (load h array) (\<lambda>ad.
          if after_inserted = cj_child ad then set_child h array newitem
          else run_bind (load h newitem) (\<lambda>nd. set_next h (cj_prev nd) newitem))))))))"

text \<open>The replacement takes the place of the item, which keeps its own links.\<close>

definition take_place :: "memory \<Rightarrow> ptr \<Rightarrow> ptr \<Rightarrow> ptr \<Rightarrow> memory run" where
  "take_place h parent item replacement =
     run_bind (load h item) (\<lambda>nd.
     run_bind (set_next h replacement (cj_next nd)) (\<lambda>h.
     run_bind (load h item) (\<lambda>nd.
     run_bind (set_prev h replacement (cj_prev nd)) (\<lambda>h.
     run_bind (load h replacement) (\<lambda>rd.
     run_bind (set_prev_if h (cj_next rd) replacement) (\<lambda>h.
     run_bind (load h replacement) (\<lambda>rd.
     run_bind (set_next_if h (cj_prev rd) replacement) (\<lambda>h.
     set_first h parent item replacement))))))))"

definition cJSON_ReplaceItemViaPointer :: "memory \<Rightarrow> ptr \<Rightarrow> ptr \<Rightarrow> ptr \<Rightarrow> (bool \<times> memory) run" where
  "cJSON_ReplaceItemViaPointer h parent item replacement =
     (if parent = None \<or> replacement = None \<or> item = None then Inr (False, h)
      else if replacement = item then Inr (True, h)
      else
        run_bind (take_place h parent item replacement) (\<lambda>h.
        run_bind (set_next h item None) (\<lambda>h.
        run_bind (set_prev h item None) (\<lambda>h.
        run_bind (cJSON_Delete h item) (\<lambda>h. Inr (True, h))))))"

definition cJSON_ReplaceItemInArray :: "memory \<Rightarrow> ptr \<Rightarrow> int \<Rightarrow> ptr \<Rightarrow> memory run" where
  "cJSON_ReplaceItemInArray h array which newitem =
     (if which < 0 then Inr h
      else
        run_bind (get_array_item h array (nat which)) (\<lambda>item.
        run_bind (cJSON_ReplaceItemViaPointer h array item newitem) (\<lambda>(_, h). Inr h)))"

definition replace_item_in_object ::
    "memory \<Rightarrow> ptr \<Rightarrow> string option \<Rightarrow> ptr \<Rightarrow> bool \<Rightarrow> (bool \<times> memory) run" where
  "replace_item_in_object h object string replacement case_sensitive =
     (if replacement = None \<or> string = None then Inr (False, h)
      else
        run_bind (modify h replacement (\<lambda>nd. nd\<lparr>cj_item := (cj_item nd)\<lparr>it_string := string,
            it_type := it_type (cj_item nd) AND NOT cJSON_StringIsConst\<rparr>\<rparr>)) (\<lambda>h.
        run_bind (get_object_item h object string case_sensitive) (\<lambda>item.
        run_bind (cJSON_ReplaceItemViaPointer h object item replacement) (\<lambda>(_, h). Inr (True, h)))))"

definition cJSON_ReplaceItemInObject :: "memory \<Rightarrow> ptr \<Rightarrow> string option \<Rightarrow> ptr \<Rightarrow> memory run" where
  "cJSON_ReplaceItemInObject h object string newitem =
     run_bind (replace_item_in_object h object string newitem False) (\<lambda>(_, h). Inr h)"

definition cJSON_ReplaceItemInObjectCaseSensitive ::
    "memory \<Rightarrow> ptr \<Rightarrow> string option \<Rightarrow> ptr \<Rightarrow> memory run" where
  "cJSON_ReplaceItemInObjectCaseSensitive h object string newitem =
     run_bind (replace_item_in_object h object string newitem True) (\<lambda>(_, h). Inr h)"

section \<open>Arrays from C arrays\<close>

text \<open>
  The loop shared by the four constructors: \<open>build\<close> makes the next element, \<open>p\<close> is the
  previous one, \<open>None\<close> before the first.
\<close>

fun fill_array :: "(memory \<Rightarrow> 'a \<Rightarrow> (ptr \<times> memory) run) \<Rightarrow> memory \<Rightarrow> ptr \<Rightarrow> ptr \<Rightarrow> 'a list \<Rightarrow> (ptr \<times> memory) run" where
  "fill_array build h a p [] = Inr (a, h)"
| "fill_array build h a p (x # xs) =
     run_bind (build h x) (\<lambda>(n, h).
     if n = None then run_bind (cJSON_Delete h a) (\<lambda>h. Inr (None, h))
     else
       run_bind (if p = None then set_child h a n else suffix_object h p n) (\<lambda>h.
       fill_array build h a n xs))"

text \<open>
  \<open>count\<close> elements are read from the caller's array, which ends in \<open>OutOfBounds\<close> when it
  holds fewer.
\<close>

definition create_array ::
    "(memory \<Rightarrow> 'a \<Rightarrow> (ptr \<times> memory) run) \<Rightarrow> memory \<Rightarrow> 'a list option \<Rightarrow> int \<Rightarrow> (ptr \<times> memory) run" where
  "create_array build h elements count =
     (case elements of
        None \<Rightarrow> Inr (None, h)
      | Some xs \<Rightarrow>
          if count < 0 then Inr (None, h)
          else if length xs < nat count then Inl OutOfBounds
          else let (a, h) = cJSON_CreateArray h in fill_array build h (Some a) None (take (nat count) xs))"

definition cJSON_CreateIntArray :: "memory \<Rightarrow> int list option \<Rightarrow> int \<Rightarrow> (ptr \<times> memory) run" where
  "cJSON_CreateIntArray = create_array (\<lambda>h n. Inr (as_ptr (cJSON_CreateNumber h (of_int n))))"

definition cJSON_CreateFloatArray :: "memory \<Rightarrow> rat list option \<Rightarrow> int \<Rightarrow> (ptr \<times> memory) run" where
  "cJSON_CreateFloatArray = create_array (\<lambda>h x. Inr (as_ptr (cJSON_CreateNumber h x)))"

definition cJSON_CreateDoubleArray :: "memory \<Rightarrow> rat list option \<Rightarrow> int \<Rightarrow> (ptr \<times> memory) run" where
  "cJSON_CreateDoubleArray = create_array (\<lambda>h x. Inr (as_ptr (cJSON_CreateNumber h x)))"

definition cJSON_CreateStringArray :: "memory \<Rightarrow> string option list option \<Rightarrow> int \<Rightarrow> (ptr \<times> memory) run" where
  "cJSON_CreateStringArray = create_array cJSON_CreateString"

section \<open>Duplication\<close>

text \<open>
  \<open>duplicate\<close> copies a node and, when asked, its children; \<open>duplicate_children\<close> is the loop
  over the children, with the new parent and the last copy made.
\<close>

fun duplicate :: "nat \<Rightarrow> memory \<Rightarrow> ptr \<Rightarrow> bool \<Rightarrow> (ptr \<times> memory) run"
and duplicate_children :: "nat \<Rightarrow> memory \<Rightarrow> ptr \<Rightarrow> ptr \<Rightarrow> ptr \<Rightarrow> (ptr \<times> memory) run" where
  "duplicate 0 h p recurse = Inl OutOfFuel"
| "duplicate (Suc n) h p recurse =
     (if p = None then Inr (None, h)
      else
        run_bind (load h p) (\<lambda>nd.
        let (a, h) = create h ((cj_item nd)\<lparr>it_type := it_type (cj_item nd) AND NOT cJSON_IsReference\<rparr>) in
        if \<not> recurse then Inr (Some a, h) else duplicate_children n h (Some a) None (cj_child nd)))"
| "duplicate_children 0 h newitem next child = Inl OutOfFuel"
| "duplicate_children (Suc n) h newitem next child =
     (if child = None then Inr (newitem, h)
      else
        run_bind (duplicate n h child True) (\<lambda>(newchild, h).
        if newchild = None then run_bind (cJSON_Delete h newitem) (\<lambda>h. Inr (None, h))
        else
          run_bind (if next \<noteq> None then suffix_object h next newchild else set_child h newitem newchild) (\<lambda>h.
          run_bind (load h child) (\<lambda>cd.
          duplicate_children n h newitem newchild (cj_next cd)))))"

definition cJSON_Duplicate :: "memory \<Rightarrow> ptr \<Rightarrow> bool \<Rightarrow> (ptr \<times> memory) run" where
  "cJSON_Duplicate h p recurse = duplicate (2 * brk h + 2) h p recurse"

end
