(* ===== verification/LD_JSON_Heap.thy ===== *)
theory LD_JSON_Heap
  imports LD_CJSON_Heap
begin

text \<open>
  c-sdk-common/src/json.c over the nodes in memory, function by function, with the argument
  checks of the defensive build. LD\_JSON has the same functions on values; LD\_JSON\_Heap\_Laws
  shows that these implement them. A key is a string of the caller: it does not live in a
  node that the call frees.
\<close>

section \<open>Construction\<close>

definition LDNewNull_at :: "memory \<Rightarrow> ptr \<times> memory" where
  "LDNewNull_at h = as_ptr (cJSON_CreateNull h)"

definition LDNewBool_at :: "memory \<Rightarrow> bool \<Rightarrow> ptr \<times> memory" where
  "LDNewBool_at h b = as_ptr (cJSON_CreateBool h b)"

definition LDNewNumber_at :: "memory \<Rightarrow> rat \<Rightarrow> ptr \<times> memory" where
  "LDNewNumber_at h num = as_ptr (cJSON_CreateNumber h num)"

definition LDNewText_at :: "memory \<Rightarrow> string option \<Rightarrow> (ptr \<times> memory) run" where
  "LDNewText_at h s = (if s = None then Inr (None, h) else cJSON_CreateString h s)"

definition LDNewObject_at :: "memory \<Rightarrow> ptr \<times> memory" where
  "LDNewObject_at h = as_ptr (cJSON_CreateObject h)"

definition LDNewArray_at :: "memory \<Rightarrow> ptr \<times> memory" where
  "LDNewArray_at h = as_ptr (cJSON_CreateArray h)"

definition LDSetNumber_at :: "memory \<Rightarrow> ptr \<Rightarrow> rat \<Rightarrow> (bool \<times> memory) run" where
  "LDSetNumber_at h node num =
     (if node = None then Inr (False, h)
      else
        run_bind (cJSON_IsNumber h node) (\<lambda>ok.
        if \<not> ok then Inr (False, h)
        else
          run_bind (modify h node (\<lambda>nd. nd\<lparr>cj_item := (cj_item nd)\<lparr>it_valuedouble := num\<rparr>\<rparr>)) (\<lambda>h.
          Inr (True, h))))"

definition LDJSONFree_at :: "memory \<Rightarrow> ptr \<Rightarrow> memory run" where
  "LDJSONFree_at h json = cJSON_Delete h json"

definition LDJSONDuplicate_at :: "memory \<Rightarrow> ptr \<Rightarrow> (ptr \<times> memory) run" where
  "LDJSONDuplicate_at h input = (if input = None then Inr (None, h) else cJSON_Duplicate h input True)"

section \<open>Reading\<close>

definition LDJSONGetType_at :: "memory \<Rightarrow> ptr \<Rightarrow> LDJSONType run" where
  "LDJSONGetType_at h input =
     (if input = None then Inr LDNull
      else
        run_bind (cJSON_IsBool h input) (\<lambda>b. if b then Inr LDBool else
        run_bind (cJSON_IsNumber h input) (\<lambda>b. if b then Inr LDNumber else
        run_bind (cJSON_IsNull h input) (\<lambda>b. if b then Inr LDNull else
        run_bind (cJSON_IsObject h input) (\<lambda>b. if b then Inr LDObject else
        run_bind (cJSON_IsArray h input) (\<lambda>b. if b then Inr LDArray else
        run_bind (cJSON_IsString h input) (\<lambda>b. if b then Inr LDText else Inr LDNull)))))))"

text \<open>The guard of the readers and writers: the node is there and passes a test.\<close>

definition guarded :: "(memory \<Rightarrow> ptr \<Rightarrow> bool run) \<Rightarrow> memory \<Rightarrow> ptr \<Rightarrow> 'a \<Rightarrow> 'a run \<Rightarrow> 'a run" where
  "guarded test h node otherwise k =
     (if node = None then Inr otherwise
      else run_bind (test h node) (\<lambda>ok. if \<not> ok then Inr otherwise else k))"

definition LDGetBool_at :: "memory \<Rightarrow> ptr \<Rightarrow> bool run" where
  "LDGetBool_at h node = guarded cJSON_IsBool h node False (cJSON_IsTrue h node)"

definition LDGetNumber_at :: "memory \<Rightarrow> ptr \<Rightarrow> rat run" where
  "LDGetNumber_at h node =
     guarded cJSON_IsNumber h node 0 (run_bind (load h node) (\<lambda>nd. Inr (it_valuedouble (cj_item nd))))"

definition LDGetText_at :: "memory \<Rightarrow> ptr \<Rightarrow> string option run" where
  "LDGetText_at h node =
     guarded cJSON_IsString h node None (run_bind (load h node) (\<lambda>nd. Inr (it_valuestring (cj_item nd))))"

definition is_collection :: "memory \<Rightarrow> ptr \<Rightarrow> bool run" where
  "is_collection h p =
     run_bind (cJSON_IsArray h p) (\<lambda>a. if a then Inr True else cJSON_IsObject h p)"

definition LDGetIter_at :: "memory \<Rightarrow> ptr \<Rightarrow> ptr run" where
  "LDGetIter_at h collection =
     guarded is_collection h collection None (run_bind (load h collection) (\<lambda>nd. Inr (cj_child nd)))"

definition LDIterNext_at :: "memory \<Rightarrow> ptr \<Rightarrow> ptr run" where
  "LDIterNext_at h iter = (if iter = None then Inr None else run_bind (load h iter) (\<lambda>nd. Inr (cj_next nd)))"

definition LDIterKey_at :: "memory \<Rightarrow> ptr \<Rightarrow> string option run" where
  "LDIterKey_at h iter =
     (if iter = None then Inr None else run_bind (load h iter) (\<lambda>nd. Inr (it_string (cj_item nd))))"

definition LDCollectionGetSize_at :: "memory \<Rightarrow> ptr \<Rightarrow> u32 run" where
  "LDCollectionGetSize_at h collection =
     guarded is_collection h collection 0 (cJSON_GetArraySize h collection)"

definition LDArrayLookup_at :: "memory \<Rightarrow> ptr \<Rightarrow> u32 \<Rightarrow> ptr run" where
  "LDArrayLookup_at h array index =
     guarded cJSON_IsArray h array None (cJSON_GetArrayItem h array (sint index))"

definition LDObjectLookup_at :: "memory \<Rightarrow> ptr \<Rightarrow> string option \<Rightarrow> ptr run" where
  "LDObjectLookup_at h object key =
     guarded cJSON_IsObject h object None
       (if key = None then Inr None else cJSON_GetObjectItemCaseSensitive h object key)"

section \<open>Writing\<close>

definition LDCollectionDetachIter_at :: "memory \<Rightarrow> ptr \<Rightarrow> ptr \<Rightarrow> (ptr \<times> memory) run" where
  "LDCollectionDetachIter_at h collection iter =
     guarded is_collection h collection (None, h)
       (if iter = None then Inr (None, h) else cJSON_DetachItemViaPointer h collection iter)"

definition LDArrayPush_at :: "memory \<Rightarrow> ptr \<Rightarrow> ptr \<Rightarrow> (bool \<times> memory) run" where
  "LDArrayPush_at h array item =
     guarded cJSON_IsArray h array (False, h)
       (if item = None then Inr (False, h)
        else run_bind (cJSON_AddItemToArray h array item) (\<lambda>h. Inr (True, h)))"

fun append_loop :: "nat \<Rightarrow> memory \<Rightarrow> ptr \<Rightarrow> ptr \<Rightarrow> (bool \<times> memory) run" where
  "append_loop 0 h pre iter = Inl OutOfFuel"
| "append_loop (Suc n) h pre iter =
     (if iter = None then Inr (True, h)
      else
        run_bind (cJSON_Duplicate h iter True) (\<lambda>(dupe, h).
        if dupe = None then Inr (False, h)
        else
          run_bind (cJSON_AddItemToArray h pre dupe) (\<lambda>h.
          run_bind (load h iter) (\<lambda>nd. append_loop n h pre (cj_next nd)))))"

definition LDArrayAppend_at :: "memory \<Rightarrow> ptr \<Rightarrow> ptr \<Rightarrow> (bool \<times> memory) run" where
  "LDArrayAppend_at h pre suf =
     guarded cJSON_IsArray h pre (False, h)
       (guarded cJSON_IsArray h suf (False, h)
         (run_bind (load h suf) (\<lambda>nd. append_loop (brk h + 1) h pre (cj_child nd))))"

definition LDObjectSetKey_at :: "memory \<Rightarrow> ptr \<Rightarrow> string option \<Rightarrow> ptr \<Rightarrow> (bool \<times> memory) run" where
  "LDObjectSetKey_at h object key item =
     guarded cJSON_IsObject h object (False, h)
       (if key = None \<or> item = None then Inr (False, h)
        else
          run_bind (cJSON_DeleteItemFromObjectCaseSensitive h object key) (\<lambda>h.
          run_bind (cJSON_AddItemToObject h object key item) (\<lambda>h. Inr (True, h))))"

definition LDObjectDeleteKey_at :: "memory \<Rightarrow> ptr \<Rightarrow> string option \<Rightarrow> memory run" where
  "LDObjectDeleteKey_at h object key =
     guarded cJSON_IsObject h object h
       (if key = None then Inr h else cJSON_DeleteItemFromObjectCaseSensitive h object key)"

definition LDObjectDetachKey_at :: "memory \<Rightarrow> ptr \<Rightarrow> string option \<Rightarrow> (ptr \<times> memory) run" where
  "LDObjectDetachKey_at h object key =
     guarded cJSON_IsObject h object (None, h)
       (if key = None then Inr (None, h) else cJSON_DetachItemFromObjectCaseSensitive h object key)"

fun merge_loop :: "nat \<Rightarrow> memory \<Rightarrow> ptr \<Rightarrow> ptr \<Rightarrow> (bool \<times> memory) run" where
  "merge_loop 0 h to iter = Inl OutOfFuel"
| "merge_loop (Suc n) h to iter =
     (if iter = None then Inr (True, h)
      else
        run_bind (LDJSONDuplicate_at h iter) (\<lambda>(dupe, h).
        if dupe = None then Inr (False, h)
        else
          run_bind (LDIterKey_at h iter) (\<lambda>key.
          run_bind (LDObjectSetKey_at h to key dupe) (\<lambda>(_, h).
          run_bind (LDIterNext_at h iter) (\<lambda>iter. merge_loop n h to iter)))))"

definition LDObjectMerge_at :: "memory \<Rightarrow> ptr \<Rightarrow> ptr \<Rightarrow> (bool \<times> memory) run" where
  "LDObjectMerge_at h to from =
     guarded cJSON_IsObject h to (False, h)
       (guarded cJSON_IsObject h from (False, h)
         (run_bind (LDGetIter_at h from) (\<lambda>iter. merge_loop (brk h + 1) h to iter)))"

end
