(* ===== verification/LD_CJSON_Heap_Laws.thy ===== *)
theory LD_CJSON_Heap_Laws
  imports LD_CJSON_Heap
begin

text \<open>
  What the operations on nodes do to the trees in memory. A located tree lists the address and
  the contents of every node; \<open>seg\<close> says that a chain of siblings is laid out as a list of
  located trees, between the pointer before and the pointer after it. Each operation has one
  rule: it returns, the trees are laid out as a list operation says, and nothing else changes.
\<close>

section \<open>Located trees\<close>

datatype tree = Tree (tr_addr: nat) (tr_item: item) (tr_kids: "tree list")

fun addrs_of :: "tree \<Rightarrow> nat list" where
  "addrs_of (Tree a it ks) = a # concat (map addrs_of ks)"

definition addrs :: "tree list \<Rightarrow> nat list" where
  "addrs ts = concat (map addrs_of ts)"

lemma addrs_simps [simp]:
  "addrs [] = []" "addrs (t # ts) = addrs_of t @ addrs ts" "addrs (ts @ us) = addrs ts @ addrs us"
  by (simp_all add: addrs_def)

lemma addrs_of_Tree [simp]: "addrs_of (Tree a it ks) = a # addrs ks"
  by (simp add: addrs_def)

declare addrs_of.simps [simp del]

lemma tr_addr_in [simp]: "tr_addr t \<in> set (addrs_of t)"
  by (cases t) simp

fun hd_ptr :: "tree list \<Rightarrow> ptr \<Rightarrow> ptr" where
  "hd_ptr [] q = q"
| "hd_ptr (t # ts) q = Some (tr_addr t)"

definition last_ptr :: "tree list \<Rightarrow> ptr \<Rightarrow> ptr" where
  "last_ptr ts q = (if ts = [] then q else Some (tr_addr (last ts)))"

lemma last_ptr_simps [simp]:
  "last_ptr [] q = q" "last_ptr (t # ts) q = last_ptr ts (Some (tr_addr t))"
  "last_ptr (ts @ us) q = last_ptr us (last_ptr ts q)"
  by (simp_all add: last_ptr_def)

lemma hd_ptr_append [simp]: "hd_ptr (ts @ us) q = hd_ptr ts (hd_ptr us q)"
  by (cases ts) simp_all

lemma hd_ptr_None [simp]: "hd_ptr ts q = None \<longleftrightarrow> ts = [] \<and> q = None"
  by (cases ts) simp_all

lemma hd_ptr_self [simp]:
  "b \<notin> set (addrs xs) \<Longrightarrow> hd_ptr xs (Some b) = Some b \<longleftrightarrow> xs = []"
  "b \<notin> set (addrs xs) \<Longrightarrow> Some b = hd_ptr xs (Some b) \<longleftrightarrow> xs = []"
  by (cases xs; auto)+

lemma last_ptr_None [simp]: "last_ptr ts q = None \<longleftrightarrow> ts = [] \<and> q = None"
  by (simp add: last_ptr_def)

fun seg :: "memory \<Rightarrow> ptr \<Rightarrow> tree list \<Rightarrow> ptr \<Rightarrow> bool" where
  "seg h pv [] nx = True"
| "seg h pv (Tree a it ks # ts) nx =
     (mem h a = Some \<lparr>cj_next = hd_ptr ts nx, cj_prev = pv, cj_child = hd_ptr ks None, cj_item = it\<rparr> \<and>
      seg h None ks None \<and> seg h (Some a) ts nx)"

lemma seg_append [simp]:
  "seg h pv (ts @ us) nx \<longleftrightarrow> seg h pv ts (hd_ptr us nx) \<and> seg h (last_ptr ts pv) us nx"
  by (induction h pv ts nx rule: seg.induct) auto

lemma seg_Cons [simp]:
  "seg h pv (t # u # ts) nx \<longleftrightarrow> seg h pv [t] (Some (tr_addr u)) \<and> seg h (Some (tr_addr t)) (u # ts) nx"
  by (cases t) auto

lemma seg_frame:
  "seg h pv ts nx \<Longrightarrow> (\<And>a. a \<in> set (addrs ts) \<Longrightarrow> mem h' a = mem h a) \<Longrightarrow> seg h' pv ts nx"
  by (induction h pv ts nx rule: seg.induct) auto

lemma seg_live: "seg h pv ts nx \<Longrightarrow> a \<in> set (addrs ts) \<Longrightarrow> mem h a \<noteq> None"
  by (induction h pv ts nx rule: seg.induct) auto

text \<open>The step of the heap: nothing but the nodes of a set is written, and none appears or goes.\<close>

definition changed :: "nat set \<Rightarrow> memory \<Rightarrow> memory \<Rightarrow> bool" where
  "changed A h h' \<longleftrightarrow> brk h' = brk h \<and> dom (mem h') = dom (mem h) \<and> (\<forall>b. b \<notin> A \<longrightarrow> mem h' b = mem h b)"

lemma changed_refl [simp]: "changed A h h"
  by (simp add: changed_def)

lemma changed_trans: "changed A h h' \<Longrightarrow> changed B h' h'' \<Longrightarrow> changed (A \<union> B) h h''"
  by (simp add: changed_def)

lemma changed_mono: "changed A h h' \<Longrightarrow> A \<subseteq> B \<Longrightarrow> changed B h h'"
  by (auto simp: changed_def)

lemma seg_changed:
  "seg h pv ts nx \<Longrightarrow> changed A h h' \<Longrightarrow> A \<inter> set (addrs ts) = {} \<Longrightarrow> seg h' pv ts nx"
  by (erule seg_frame) (auto simp: changed_def)

section \<open>Single steps\<close>

lemma load_Some [simp]: "mem h a = Some nd \<Longrightarrow> load h (Some a) = Inr nd"
  by (simp add: load_def)

definition upd :: "memory \<Rightarrow> nat \<Rightarrow> cJSON \<Rightarrow> memory" where
  "upd h a nd = h\<lparr>mem := (mem h)(a := Some nd)\<rparr>"

lemma upd_simps [simp]: "mem (upd h a nd) b = (if b = a then Some nd else mem h b)" "brk (upd h a nd) = brk h"
  by (simp_all add: upd_def)

lemma modify_Some [simp]: "mem h a = Some nd \<Longrightarrow> modify h (Some a) f = Inr (upd h a (f nd))"
  by (simp add: modify_def upd_def)

lemma changed_upd: "mem h a \<noteq> None \<Longrightarrow> changed {a} h (upd h a nd)"
  by (auto simp: changed_def split: if_splits)

lemma changed_upd2: "mem h a \<noteq> None \<Longrightarrow> changed {a} h (upd (upd h a nd) a nd')"
  by (auto simp: changed_def split: if_splits)

lemma seg_upd [simp]: "a \<notin> set (addrs ts) \<Longrightarrow> seg h pv ts nx \<Longrightarrow> seg (upd h a nd) pv ts nx"
  by (erule seg_frame) auto

lemma set_next_seg:
  assumes "seg h pv (xs @ [t]) nx" and "distinct (addrs (xs @ [t]))"
  shows "\<exists>h'. set_next h (Some (tr_addr t)) q = Inr h' \<and> seg h' pv (xs @ [t]) q \<and> changed {tr_addr t} h h'"
  using assms by (cases t) (auto simp: set_next_def intro!: changed_upd)

lemma set_prev_seg:
  assumes "seg h pv (t # xs) nx" and "distinct (addrs (t # xs))"
  shows "\<exists>h'. set_prev h (Some (tr_addr t)) q = Inr h' \<and> seg h' q (t # xs) nx \<and> changed {tr_addr t} h h'"
  using assms by (cases t) (auto simp: set_prev_def intro!: changed_upd)

lemma set_child_seg:
  assumes "mem h a = Some \<lparr>cj_next = nx, cj_prev = pv, cj_child = c, cj_item = it\<rparr>"
    and "seg h None ks' None" and "a \<notin> set (addrs ks')"
  shows "\<exists>h'. set_child h (Some a) (hd_ptr ks' None) = Inr h' \<and> seg h' pv [Tree a it ks'] nx \<and> changed {a} h h'"
  using assms by (auto simp: set_child_def intro!: changed_upd)

section \<open>Enough fuel\<close>

definition bounded :: "memory \<Rightarrow> bool" where
  "bounded h \<longleftrightarrow> (\<forall>a. mem h a \<noteq> None \<longrightarrow> a < brk h)"

lemma bounded_changed: "changed A h h' \<Longrightarrow> bounded h \<Longrightarrow> bounded h'"
  by (auto simp: changed_def bounded_def dom_def set_eq_iff)

lemma length_le_addrs: "length ts \<le> length (addrs ts)"
proof (induction ts)
  case (Cons t ts)
  then show ?case by (cases t) simp
qed simp

text \<open>A chain of distinct live nodes is no longer than the number of addresses handed out.\<close>

lemma addrs_bound:
  assumes "bounded h" and "seg h pv ts nx" and "distinct (addrs ts)"
  shows "length (addrs ts) \<le> brk h"
proof -
  from assms(1,2) have "set (addrs ts) \<subseteq> {..<brk h}"
    by (auto simp: bounded_def dest: seg_live)
  from card_mono [OF _ this] show ?thesis
    by (simp add: distinct_card [OF assms(3)])
qed

lemma chain_bound: "bounded h \<Longrightarrow> seg h pv ts nx \<Longrightarrow> distinct (addrs ts) \<Longrightarrow> length ts \<le> brk h"
  by (rule order_trans [OF length_le_addrs addrs_bound])

section \<open>Reading\<close>

lemma size_loop_seg: "seg h pv ts None \<Longrightarrow> length ts < n \<Longrightarrow> size_loop n h (hd_ptr ts None) = Inr (length ts)"
proof (induction ts arbitrary: n pv)
  case Nil
  then show ?case by (cases n) simp_all
next
  case (Cons t ts)
  then show ?case by (cases n; cases t) auto
qed

lemma index_loop_seg: "seg h pv ts None \<Longrightarrow> index_loop i h (hd_ptr ts None) = Inr (hd_ptr (drop i ts) None)"
proof (induction i arbitrary: ts pv)
  case (Suc i)
  show ?case
  proof (cases ts)
    case (Cons t us)
    with Suc show ?thesis by (cases t) auto
  qed simp
qed simp

lemma last_loop_seg:
  "seg h pv ts None \<Longrightarrow> ts \<noteq> [] \<Longrightarrow> length ts \<le> n \<Longrightarrow> last_loop n h (hd_ptr ts None) = Inr (last_ptr ts None)"
proof (induction ts arbitrary: n pv)
  case (Cons t ts)
  then show ?case by (cases n; cases t; cases ts) (auto simp: last_ptr_def)
qed simp

abbreviation key_of :: "tree \<Rightarrow> string option" where
  "key_of t \<equiv> it_string (tr_item t)"

lemma object_loop_seg:
  "seg h pv ts None \<Longrightarrow> length ts < n \<Longrightarrow> (\<forall>t \<in> set ts. key_of t \<noteq> None) \<Longrightarrow>
     object_loop n h name True (hd_ptr ts None) = Inr (hd_ptr (dropWhile (\<lambda>t. key_of t \<noteq> Some name) ts) None)"
proof (induction ts arbitrary: n pv)
  case Nil
  then show ?case by (cases n) simp_all
next
  case (Cons t ts)
  then show ?case by (cases n; cases t) auto
qed

lemma object_loop_nocase_seg:
  "seg h pv ts None \<Longrightarrow> length ts < n \<Longrightarrow>
     object_loop n h name False (hd_ptr ts None) =
       Inr (hd_ptr (dropWhile (\<lambda>t. \<not> case_insensitive_equal (Some name) (key_of t)) ts) None)"
proof (induction ts arbitrary: n pv)
  case Nil
  then show ?case by (cases n) simp_all
next
  case (Cons t ts)
  then show ?case by (cases n; cases t) auto
qed

text \<open>The context of a rule: a tree in a memory that is laid out and bounded.\<close>

definition tree_at :: "memory \<Rightarrow> ptr \<Rightarrow> tree \<Rightarrow> ptr \<Rightarrow> bool" where
  "tree_at h pv t nx \<longleftrightarrow> bounded h \<and> seg h pv [t] nx \<and> distinct (addrs [t])"

lemma tree_at_kids:
  assumes "tree_at h pv (Tree a it ks) nx"
  shows "load h (Some a) = Inr \<lparr>cj_next = nx, cj_prev = pv, cj_child = hd_ptr ks None, cj_item = it\<rparr>"
    and "seg h None ks None" and "distinct (addrs ks)" and "length ks < brk h + 1" and "a \<notin> set (addrs ks)"
  using assms chain_bound [of h None ks None] by (auto simp: tree_at_def)

lemma cJSON_GetArraySize_at:
  assumes "tree_at h pv (Tree a it ks) nx"
  shows "cJSON_GetArraySize h (Some a) = Inr (of_nat (length ks))"
  using size_loop_seg [OF tree_at_kids(2,4) [OF assms]]
  by (simp add: cJSON_GetArraySize_def tree_at_kids(1) [OF assms] del: size_loop.simps)

lemma get_array_item_at:
  "tree_at h pv (Tree a it ks) nx \<Longrightarrow> get_array_item h (Some a) i = Inr (hd_ptr (drop i ks) None)"
  by (simp add: get_array_item_def tree_at_kids index_loop_seg [OF tree_at_kids(2)])

lemma get_object_item_at:
  assumes "tree_at h pv (Tree a it ks) nx" and "\<forall>t \<in> set ks. key_of t \<noteq> None"
  shows "get_object_item h (Some a) (Some name) True =
    Inr (hd_ptr (dropWhile (\<lambda>t. key_of t \<noteq> Some name) ks) None)"
  using object_loop_seg [OF tree_at_kids(2) [OF assms(1)] tree_at_kids(4) [OF assms(1)] assms(2)]
  by (simp add: get_object_item_def tree_at_kids(1) [OF assms(1)] del: object_loop.simps)

section \<open>Writing\<close>

text \<open>Linking a new last child, by the parent when there was none and by its neighbour otherwise.\<close>

lemma append_kid:
  assumes A: "tree_at h pv (Tree a it ks) nx" and T: "tree_at h None t None"
    and D: "set (addrs_of (Tree a it ks)) \<inter> set (addrs_of t) = {}"
  shows "\<exists>h'. (if ks = [] then set_child h (Some a) (Some (tr_addr t))
                else suffix_object h (last_ptr ks None) (Some (tr_addr t))) = Inr h' \<and>
    tree_at h' pv (Tree a it (ks @ [t])) nx \<and> changed (set (addrs_of (Tree a it (ks @ [t])))) h h'"
proof (cases ks rule: rev_cases)
  case Nil
  from A T D have "mem h a = Some \<lparr>cj_next = nx, cj_prev = pv, cj_child = None, cj_item = it\<rparr>"
      "seg h None [t] None" "a \<notin> set (addrs [t])"
    by (simp_all add: tree_at_def Nil)
  from set_child_seg [OF this] obtain h' where h':
    "set_child h (Some a) (Some (tr_addr t)) = Inr h'" "seg h' pv [Tree a it [t]] nx" "changed {a} h h'"
    by auto
  then show ?thesis
    using A T D bounded_changed [OF h'(3)] changed_mono [OF h'(3)] by (simp add: Nil tree_at_def)
next
  case (snoc xs l)
  note K = tree_at_kids [OF A]
  from K(2,3) obtain h1 where h1: "set_next h (Some (tr_addr l)) (Some (tr_addr t)) = Inr h1"
      "seg h1 None ks (Some (tr_addr t))" "changed {tr_addr l} h h1"
    using set_next_seg [of h None xs l None "Some (tr_addr t)"] unfolding snoc by blast
  have l: "tr_addr l \<in> set (addrs ks)" by (simp add: snoc)
  from D l have nin: "tr_addr l \<notin> set (addrs_of t)" "a \<notin> set (addrs_of t)" "tr_addr l \<noteq> a"
    using K(5) by auto
  from T nin have "seg h1 None [t] None"
    using seg_changed [OF _ h1(3), of None "[t]" None] by (simp add: tree_at_def)
  with T obtain h2 where h2: "set_prev h1 (Some (tr_addr t)) (Some (tr_addr l)) = Inr h2"
      "seg h2 (Some (tr_addr l)) [t] None" "changed {tr_addr t} h1 h2"
    using set_prev_seg [of h1 None t "[]" None "Some (tr_addr l)"] by (auto simp: tree_at_def)
  from D have "tr_addr t \<notin> set (addrs ks)" "tr_addr t \<noteq> a"
    using tr_addr_in [of t] by auto
  with h1(2) h2(3) have ks: "seg h2 None ks (Some (tr_addr t))"
    by (auto intro: seg_changed)
  from changed_trans [OF h1(3) h2(3)] have c: "changed {tr_addr l, tr_addr t} h h2"
    by (simp add: insert_commute)
  from c \<open>tr_addr t \<noteq> a\<close> nin(3) have "mem h2 a = mem h a"
    by (simp add: changed_def)
  then have "tree_at h2 pv (Tree a it (ks @ [t])) nx"
    using A T D ks h2(2) bounded_changed [OF c] by (auto simp: tree_at_def snoc)
  moreover have "changed (set (addrs_of (Tree a it (ks @ [t])))) h h2"
    using c l by (rule_tac changed_mono) auto
  moreover have "suffix_object h (last_ptr ks None) (Some (tr_addr t)) = Inr h2"
    using h1(1) h2(1) by (simp add: snoc suffix_object_def)
  ultimately show ?thesis by (auto simp: snoc)
qed

lemma add_item_to_array_at:
  assumes A: "tree_at h pv (Tree a it ks) nx" and T: "tree_at h None t None"
    and D: "set (addrs_of (Tree a it ks)) \<inter> set (addrs_of t) = {}"
  shows "\<exists>h'. add_item_to_array h (Some a) (Some (tr_addr t)) = Inr (True, h') \<and>
    tree_at h' pv (Tree a it (ks @ [t])) nx \<and> changed (set (addrs_of (Tree a it (ks @ [t])))) h h'"
proof -
  note K = tree_at_kids [OF A]
  have "ks \<noteq> [] \<Longrightarrow> last_loop (brk h + 1) h (hd_ptr ks None) = Inr (last_ptr ks None)"
    using last_loop_seg [OF K(2), of "brk h + 1"] K(4) by (simp del: last_loop.simps)
  then show ?thesis
    using append_kid [OF assms] by (cases "ks = []") (auto simp: add_item_to_array_def K(1) simp del: last_loop.simps)
qed

definition rekey :: "string \<Rightarrow> tree \<Rightarrow> tree" where
  "rekey k t = Tree (tr_addr t) ((tr_item t)\<lparr>it_string := Some k,
     it_type := it_type (tr_item t) AND NOT cJSON_StringIsConst\<rparr>) (tr_kids t)"

lemma rekey_simps [simp]: "tr_addr (rekey k t) = tr_addr t" "tr_kids (rekey k t) = tr_kids t"
    "addrs_of (rekey k t) = addrs_of t"
  by (cases t; simp add: rekey_def)+

lemma rekey_at:
  assumes "tree_at h pv t nx"
  shows "\<exists>h'. modify h (Some (tr_addr t)) (\<lambda>nd. nd\<lparr>cj_item := (cj_item nd)\<lparr>it_string := Some k,
      it_type := it_type (cj_item nd) AND NOT cJSON_StringIsConst\<rparr>\<rparr>) = Inr h' \<and>
    tree_at h' pv (rekey k t) nx \<and> changed {tr_addr t} h h'"
proof (cases t)
  case (Tree b bi bs)
  from assms have m: "mem h b = Some \<lparr>cj_next = nx, cj_prev = pv, cj_child = hd_ptr bs None, cj_item = bi\<rparr>"
    by (simp add: tree_at_def Tree)
  have c: "changed {b} h (upd h b nd)" for nd
    using m by (intro changed_upd) simp
  show ?thesis
    using assms m c bounded_changed [OF c] by (auto simp: tree_at_def Tree rekey_def)
qed

lemma tree_at_changed:
  "tree_at h pv t nx \<Longrightarrow> changed A h h' \<Longrightarrow> A \<inter> set (addrs_of t) = {} \<Longrightarrow> tree_at h' pv t nx"
  using seg_changed [of h pv "[t]" nx A h'] bounded_changed [of A h h'] by (simp add: tree_at_def)

lemma add_item_to_object_at:
  assumes A: "tree_at h pv (Tree a it ks) nx" and T: "tree_at h None t None"
    and D: "set (addrs_of (Tree a it ks)) \<inter> set (addrs_of t) = {}"
  shows "\<exists>h'. add_item_to_object h (Some a) (Some k) (Some (tr_addr t)) False = Inr (True, h') \<and>
    tree_at h' pv (Tree a it (ks @ [rekey k t])) nx \<and> changed (set (addrs_of (Tree a it (ks @ [t])))) h h'"
proof -
  from rekey_at [OF T, of k] obtain h1 where h1:
    "modify h (Some (tr_addr t)) (\<lambda>nd. nd\<lparr>cj_item := (cj_item nd)\<lparr>it_string := Some k,
      it_type := it_type (cj_item nd) AND NOT cJSON_StringIsConst\<rparr>\<rparr>) = Inr h1"
    "tree_at h1 None (rekey k t) None" "changed {tr_addr t} h h1" by blast
  from A h1(3) D have "tree_at h1 pv (Tree a it ks) nx"
    by (rule_tac tree_at_changed) (auto dest: sym)
  from add_item_to_array_at [OF this h1(2)] D obtain h2 where h2:
    "add_item_to_array h1 (Some a) (Some (tr_addr t)) = Inr (True, h2)"
    "tree_at h2 pv (Tree a it (ks @ [rekey k t])) nx" "changed (set (addrs_of (Tree a it (ks @ [t])))) h1 h2"
    by auto
  have "changed (set (addrs_of (Tree a it (ks @ [t])))) h h2"
    by (rule changed_mono [OF changed_trans [OF h1(3) h2(3)]]) auto
  with h1(1) h2(1,2) show ?thesis
    by (intro exI [of _ h2]) (simp add: add_item_to_object_def del: modify_Some)
qed

text \<open>The optional writes to the neighbours, which an end of the chain does not have.\<close>

lemma relink_next:
  assumes "seg h pv xs nx" and "distinct (addrs xs)"
  shows "\<exists>h'. set_next_if h (last_ptr xs None) q = Inr h' \<and>
    seg h' pv xs q \<and> changed (set (addrs xs)) h h'"
proof (cases xs rule: rev_cases)
  case (snoc ys l)
  from set_next_seg [OF assms(1,2) [unfolded snoc], of q] show ?thesis
    by (auto simp: set_next_if_def snoc elim!: changed_mono)
qed (simp add: set_next_if_def)

lemma relink_prev:
  assumes "seg h pv ys nx" and "distinct (addrs ys)"
  shows "\<exists>h'. set_prev_if h (hd_ptr ys None) q = Inr h' \<and>
    seg h' q ys nx \<and> changed (set (addrs ys)) h h'"
proof (cases ys)
  case (Cons t us)
  from set_prev_seg [OF assms(1,2) [unfolded Cons], of q] show ?thesis
    by (auto simp: set_prev_if_def Cons elim!: changed_mono)
qed (simp add: set_prev_if_def)

lemma cJSON_DetachItemViaPointer_at:
  assumes A: "tree_at h pv (Tree a it (xs @ t # ys)) nx"
  shows "\<exists>h'. cJSON_DetachItemViaPointer h (Some a) (Some (tr_addr t)) = Inr (Some (tr_addr t), h') \<and>
    tree_at h' pv (Tree a it (xs @ ys)) nx \<and> tree_at h' None t None \<and>
    changed (set (addrs_of (Tree a it (xs @ t # ys)))) h h'"
proof -
  obtain b bi bs where t: "t = Tree b bi bs" by (cases t)
  have d: "distinct (addrs xs)" "distinct (addrs ys)" "a \<notin> set (addrs (xs @ t # ys))"
      "distinct (addrs (xs @ t # ys))"
    using A by (simp_all add: tree_at_def)
  from A have s: "seg h None xs (Some b)" "seg h (Some b) ys None"
    and m: "mem h b = Some \<lparr>cj_next = hd_ptr ys None, cj_prev = last_ptr xs None, cj_child = hd_ptr bs None, cj_item = bi\<rparr>"
    and bs: "seg h None bs None"
    by (auto simp: tree_at_def t)
  from relink_next [OF s(1) d(1), of "hd_ptr ys None"] obtain h1 where h1:
    "set_next_if h (last_ptr xs None) (hd_ptr ys None) = Inr h1"
    "seg h1 None xs (hd_ptr ys None)" "changed (set (addrs xs)) h h1" by blast
  with s(2) d(4) have ys1: "seg h1 (Some b) ys None" by (auto intro: seg_changed)
  from relink_prev [OF ys1 d(2), of "last_ptr xs None"] obtain h2 where h2:
    "set_prev_if h1 (hd_ptr ys None) (last_ptr xs None) = Inr h2"
    "seg h2 (last_ptr xs None) ys None" "changed (set (addrs ys)) h1 h2" by blast
  have c2: "changed (set (addrs (xs @ ys))) h h2"
    using changed_trans [OF h1(3) h2(3)] by simp
  have seg2: "seg h2 None (xs @ ys) None"
    using h1(2) h2(2) seg_changed [OF h1(2) h2(3)] d(4) by auto
  have ma: "mem h2 a = Some \<lparr>cj_next = nx, cj_prev = pv, cj_child = hd_ptr xs (Some b), cj_item = it\<rparr>"
    using c2 A d(3) by (simp add: changed_def tree_at_def t)
  have mb: "mem h2 b = mem h b" "mem h1 b = mem h b"
    using c2 h1(3) d(4) by (auto simp: changed_def t)
  have "\<exists>h3. set_first h2 (Some a) (Some b) (hd_ptr ys None) = Inr h3 \<and>
      seg h3 pv [Tree a it (xs @ ys)] nx \<and> changed {a} h2 h3"
  proof (cases xs)
    case Nil
    from ma seg2 d(3) show ?thesis
      using set_child_seg [of h2 a nx pv "Some b" it ys] by (simp add: Nil set_first_def)
  next
    case (Cons u us)
    have "tr_addr u \<noteq> b" using d(4) tr_addr_in [of u] by (auto simp: Cons t)
    with ma seg2 show ?thesis by (simp add: Cons set_first_def)
  qed
  then obtain h3 where h3:
    "set_first h2 (Some a) (Some b) (hd_ptr ys None) = Inr h3"
    "seg h3 pv [Tree a it (xs @ ys)] nx" "changed {a} h2 h3" by blast
  have m3: "mem h3 b = mem h b" using h3(3) mb d(3) by (auto simp: changed_def t)
  define h5 where "h5 = upd (upd h3 b \<lparr>cj_next = hd_ptr ys None, cj_prev = None, cj_child = hd_ptr bs None, cj_item = bi\<rparr>)
    b \<lparr>cj_next = None, cj_prev = None, cj_child = hd_ptr bs None, cj_item = bi\<rparr>"
  have run: "cJSON_DetachItemViaPointer h (Some a) (Some b) = Inr (Some b, h5)"
    using h1(1) h2(1) h3(1) m m3 mb ma
    by (simp add: cJSON_DetachItemViaPointer_def set_prev_def set_next_def h5_def)
  have "changed ({a, b} \<union> set (addrs (xs @ ys))) h h5"
    using changed_trans [OF changed_trans [OF c2 h3(3)] changed_upd2 [of h3 b]] m m3
    by (simp add: h5_def insert_commute)
  then have c5: "changed (set (addrs_of (Tree a it (xs @ t # ys)))) h h5"
    by (rule changed_mono) (auto simp: t)
  have "seg h5 pv [Tree a it (xs @ ys)] nx"
    using h3(2) d(3,4) unfolding h5_def by (intro seg_upd) (auto simp: t)
  moreover have "seg h5 None bs None"
    using seg_changed [OF seg_changed [OF bs c2] h3(3)] d(3,4) unfolding h5_def
    by (intro seg_upd) (auto simp: t)
  ultimately show ?thesis
    using run c5 bounded_changed [OF c5] A by (auto simp: tree_at_def t h5_def)
qed

section \<open>Deletion\<close>

text \<open>A tree without references owns all its nodes, so that deleting it frees exactly those.\<close>

fun owned :: "tree \<Rightarrow> bool" where
  "owned (Tree a it ks) = (\<not> has_flag it cJSON_IsReference \<and> (\<forall>k \<in> set ks. owned k))"

definition freed :: "nat set \<Rightarrow> memory \<Rightarrow> memory" where
  "freed A h = h\<lparr>mem := (\<lambda>b. if b \<in> A then None else mem h b)\<rparr>"

lemma freed_simps [simp]:
  "mem (freed A h) b = (if b \<in> A then None else mem h b)" "brk (freed A h) = brk h"
  "freed A (freed B h) = freed (A \<union> B) h" "freed {} h = h"
  by (auto simp: freed_def intro!: memory.equality)

lemma free_Some [simp]: "mem h a = Some nd \<Longrightarrow> free h (Some a) = Inr (freed {a} h)"
  by (simp add: free_def freed_def fun_upd_def)

lemma seg_freed: "seg h pv ts nx \<Longrightarrow> A \<inter> set (addrs ts) = {} \<Longrightarrow> seg (freed A h) pv ts nx"
  by (erule seg_frame) auto

lemma bounded_freed [simp]: "bounded h \<Longrightarrow> bounded (freed A h)"
  by (simp add: bounded_def)

lemma tree_at_freed: "tree_at h pv t nx \<Longrightarrow> A \<inter> set (addrs_of t) = {} \<Longrightarrow> tree_at (freed A h) pv t nx"
  using seg_freed [of h pv "[t]" nx A] by (simp add: tree_at_def)

lemma delete_loop_seg:
  "seg h pv ts None \<Longrightarrow> distinct (addrs ts) \<Longrightarrow> (\<forall>t \<in> set ts. owned t) \<Longrightarrow> length (addrs ts) < n \<Longrightarrow>
     delete_loop n h (hd_ptr ts None) = Inr (freed (set (addrs ts)) h)"
proof (induction n arbitrary: h pv ts)
  case (Suc n)
  show ?case
  proof (cases ts)
    case (Cons t us)
    obtain a it ks where t: "t = Tree a it ks" by (cases t)
    from Suc.prems have m: "mem h a = Some \<lparr>cj_next = hd_ptr us None, cj_prev = pv, cj_child = hd_ptr ks None, cj_item = it\<rparr>"
      and s: "seg h None ks None" "seg h (Some a) us None" and r: "\<not> has_flag it cJSON_IsReference"
      and d: "distinct (addrs ks)" "a \<notin> set (addrs ks)" "a \<notin> set (addrs us)" "set (addrs ks) \<inter> set (addrs us) = {}"
      by (auto simp: Cons t)
    from Suc.prems have kids: "delete_loop n h (hd_ptr ks None) = Inr (freed (set (addrs ks)) h)"
      by (intro Suc.IH [OF s(1)]) (auto simp: Cons t)
    have "seg (freed (insert a (set (addrs ks))) h) (Some a) us None"
      using s(2) d by (intro seg_freed) auto
    from Suc.IH [OF this] Suc.prems have rest:
      "delete_loop n (freed (insert a (set (addrs ks))) h) (hd_ptr us None) = Inr (freed (set (addrs ts)) h)"
      by (auto simp: Cons t Un_commute)
    show ?thesis
      using m r kids rest d(2) by (cases "ks = []") (simp_all add: Cons t)
  qed simp
qed simp

lemma cJSON_Delete_at:
  assumes "tree_at h None t None" and "owned t"
  shows "cJSON_Delete h (Some (tr_addr t)) = Inr (freed (set (addrs_of t)) h)"
  using delete_loop_seg [of h None "[t]" "brk h + 1"] addrs_bound [of h None "[t]" None] assms
  by (simp add: cJSON_Delete_def tree_at_def del: delete_loop.simps)

lemma owned_rekey [simp]: "owned (rekey k t) = owned t"
  by (cases t) (simp add: rekey_def has_flag_def cJSON_IsReference_def cJSON_StringIsConst_def and.assoc)

section \<open>Insertion and replacement\<close>

text \<open>Both give a free node the two neighbours of a place in the chain.\<close>

lemma set_links:
  assumes "tree_at h None t None"
  shows "\<exists>h1 h2. set_next h (Some (tr_addr t)) q = Inr h1 \<and> set_prev h1 (Some (tr_addr t)) p = Inr h2 \<and>
    seg h2 p [t] q \<and> changed {tr_addr t} h h1 \<and> changed {tr_addr t} h h2"
proof -
  from assms obtain h1 where h1: "set_next h (Some (tr_addr t)) q = Inr h1" "seg h1 None [t] q" "changed {tr_addr t} h h1"
    using set_next_seg [of h None "[]" t None q] by (auto simp: tree_at_def)
  from assms h1(2) obtain h2 where h2: "set_prev h1 (Some (tr_addr t)) p = Inr h2" "seg h2 p [t] q" "changed {tr_addr t} h1 h2"
    using set_prev_seg [of h1 None t "[]" q p] by (auto simp: tree_at_def)
  from h1 h2 changed_trans [OF h1(3) h2(3)] show ?thesis by auto
qed

text \<open>The link to the new node, from the parent or from the node before it.\<close>

lemma link_place:
  assumes "seg h None xs q" and tz: "seg h (last_ptr xs None) (t # zs) None" and d: "distinct (addrs (xs @ t # zs))"
    and ma: "mem h a = Some \<lparr>cj_next = nx, cj_prev = pv, cj_child = hd_ptr xs c, cj_item = it\<rparr>"
    and a: "a \<notin> set (addrs (xs @ t # zs))"
  shows "\<exists>h'. (if xs = [] then set_child h (Some a) (Some (tr_addr t))
                else set_next h (last_ptr xs None) (Some (tr_addr t))) = Inr h' \<and>
    seg h' pv [Tree a it (xs @ t # zs)] nx \<and> changed (insert a (set (addrs xs))) h h'"
proof (cases xs rule: rev_cases)
  case Nil
  then show ?thesis
    using set_child_seg [of h a nx pv c it "t # zs"] tz ma a by (auto elim!: changed_mono)
next
  case (snoc us l)
  obtain h' where h': "set_next h (Some (tr_addr l)) (Some (tr_addr t)) = Inr h'" "seg h' None xs (Some (tr_addr t))"
      "changed {tr_addr l} h h'"
    using set_next_seg [of h None us l q "Some (tr_addr t)"] assms(1) d by (auto simp: snoc)
  have l: "tr_addr l \<in> set (addrs xs)" by (simp add: snoc)
  have "seg h' (last_ptr xs None) (t # zs) None"
    using tz h'(3) by (rule seg_changed) (use d l in auto)
  moreover have "a \<noteq> tr_addr l" using a l by auto
  then have "mem h' a = mem h a" using h'(3) by (simp add: changed_def)
  ultimately show ?thesis
    using h' l ma by (auto simp: snoc elim!: changed_mono)
qed

lemma cJSON_InsertItemInArray_at:
  assumes A: "tree_at h pv (Tree a it (xs @ s # ys)) nx" and T: "tree_at h None t None"
    and D: "set (addrs_of (Tree a it (xs @ s # ys))) \<inter> set (addrs_of t) = {}"
  shows "\<exists>h'. cJSON_InsertItemInArray h (Some a) (int (length xs)) (Some (tr_addr t)) = Inr h' \<and>
    tree_at h' pv (Tree a it (xs @ t # s # ys)) nx \<and> changed (set (addrs_of (Tree a it (xs @ t # s # ys)))) h h'"
proof -
  obtain b bi bs where s: "s = Tree b bi bs" by (cases s)
  have d: "distinct (addrs (xs @ t # s # ys))" "a \<notin> set (addrs (xs @ t # s # ys))"
    "tr_addr t \<notin> set (addrs (xs @ s # ys))" "tr_addr t \<noteq> a"
    using A T D tr_addr_in [of t] by (auto simp: tree_at_def)
  from A have sg: "seg h None xs (Some b)" "seg h (last_ptr xs None) (s # ys) None"
    and ma: "mem h a = Some \<lparr>cj_next = nx, cj_prev = pv, cj_child = hd_ptr xs (Some b), cj_item = it\<rparr>"
    by (auto simp: tree_at_def s)
  obtain h1 h2 where h12: "set_next h (Some (tr_addr t)) (Some b) = Inr h1"
      "set_prev h1 (Some (tr_addr t)) (last_ptr xs None) = Inr h2" "seg h2 (last_ptr xs None) [t] (Some b)"
      "changed {tr_addr t} h h1" "changed {tr_addr t} h h2"
    using set_links [OF T, of "Some b" "last_ptr xs None"] by blast
  have s2: "seg h2 (last_ptr xs None) (s # ys) None"
    using sg(2) h12(5) by (rule seg_changed) (use d in auto)
  obtain h3 where h3: "set_prev h2 (Some b) (Some (tr_addr t)) = Inr h3" "seg h3 (Some (tr_addr t)) (s # ys) None"
      "changed {b} h2 h3"
    using set_prev_seg [OF s2, of "Some (tr_addr t)"] d(1) by (auto simp: s)
  have c3: "changed {tr_addr t, b} h h3"
    using changed_trans [OF h12(5) h3(3)] by (simp add: insert_commute)
  have t3: "seg h3 (last_ptr xs None) [t] (Some b)"
    using h12(3) h3(3) by (rule seg_changed) (use D in \<open>auto simp: s\<close>)
  have x3: "seg h3 None xs (Some b)"
    using sg(1) c3 by (rule seg_changed) (use d in \<open>auto simp: s\<close>)
  have m3: "mem h3 a = mem h a" using c3 d by (auto simp: changed_def s)
  obtain nd where mt: "load h3 (Some (tr_addr t)) = Inr nd" "cj_prev nd = last_ptr xs None"
    using t3 by (cases t) auto
  have mb: "load h1 (Some b) = Inr \<lparr>cj_next = hd_ptr ys None, cj_prev = last_ptr xs None, cj_child = hd_ptr bs None, cj_item = bi\<rparr>"
    using sg(2) h12(4) d(3) by (auto simp: changed_def s)
  obtain h4 where h4: "(if xs = [] then set_child h3 (Some a) (Some (tr_addr t))
               else set_next h3 (last_ptr xs None) (Some (tr_addr t))) = Inr h4"
      "seg h4 pv [Tree a it (xs @ t # s # ys)] nx" "changed (insert a (set (addrs xs))) h3 h4"
    using link_place [OF x3 _ d(1) _ d(2)] t3 h3(2) ma m3 by (auto simp: s)
  have "b \<notin> set (addrs xs)" using d(1) by (auto simp: s)
  then have "cJSON_InsertItemInArray h (Some a) (int (length xs)) (Some (tr_addr t)) = Inr h4"
    using get_array_item_at [OF A] h12(1,2) mb h3(1) m3 ma mt h4(1)
    by (cases "xs = []") (simp_all add: cJSON_InsertItemInArray_def s)
  moreover have c4: "changed (set (addrs_of (Tree a it (xs @ t # s # ys)))) h h4"
    using changed_trans [OF c3 h4(3)] by (rule changed_mono) (auto simp: s)
  ultimately show ?thesis
    using h4(2) d(1,2) bounded_changed [OF c4] A by (auto simp: tree_at_def)
qed

lemma link_unless_first:
  assumes "(if xs = [] then set_child h (Some a) r else set_next h (last_ptr xs None) r) = Inr h'"
    and "changed (insert a (set (addrs xs))) h h'" and "b \<notin> set (addrs xs)" and "a \<notin> set (addrs xs)"
    and "mem h a = Some \<lparr>cj_next = nx, cj_prev = pv, cj_child = hd_ptr xs (Some b), cj_item = it\<rparr>"
  shows "run_bind (set_next_if h (last_ptr xs None) r) (\<lambda>h. set_first h (Some a) (Some b) r) = Inr h'"
proof (cases "xs = []")
  case False
  then have "last_ptr xs None = Some (tr_addr (last xs))" "tr_addr (last xs) \<in> set (addrs xs)"
    by (auto simp: last_ptr_def addrs_def intro!: bexI [of _ "last xs"])
  with False assms have "mem h' a = mem h a"
    by (auto simp: set_next_def modify_def split: option.splits)
  with False assms show ?thesis by (simp add: set_next_if_def set_first_def)
qed (use assms in \<open>simp add: set_next_if_def set_first_def\<close>)

lemma clear_links:
  assumes "bounded h" and "mem h b = Some \<lparr>cj_next = q, cj_prev = p, cj_child = hd_ptr bs None, cj_item = bi\<rparr>"
    and "seg h None bs None" and "b \<notin> set (addrs bs)" and "distinct (addrs bs)"
  shows "\<exists>h1 h2. set_next h (Some b) None = Inr h1 \<and> set_prev h1 (Some b) None = Inr h2 \<and>
    tree_at h2 None (Tree b bi bs) None \<and> changed {b} h h2"
proof -
  have c: "changed {b} h (upd (upd h b nd) b nd')" for nd nd'
    using assms(2) by (intro changed_upd2) simp
  show ?thesis
    using assms c bounded_changed [OF c assms(1)] by (auto simp: set_next_def set_prev_def tree_at_def)
qed

lemma take_place_at:
  assumes A: "tree_at h pv (Tree a it (xs @ Tree b bi bs # ys)) nx" and T: "tree_at h None t None"
    and D: "set (addrs_of (Tree a it (xs @ Tree b bi bs # ys))) \<inter> set (addrs_of t) = {}"
  shows "\<exists>h'. take_place h (Some a) (Some b) (Some (tr_addr t)) = Inr h' \<and>
    seg h' pv [Tree a it (xs @ t # ys)] nx \<and> changed ({a, tr_addr t} \<union> set (addrs (xs @ ys))) h h'"
proof -
  let ?nd = "\<lparr>cj_next = hd_ptr ys None, cj_prev = last_ptr xs None, cj_child = hd_ptr bs None, cj_item = bi\<rparr>"
  have d: "distinct (addrs (xs @ t # ys))" "a \<notin> set (addrs (xs @ t # ys))" "tr_addr t \<noteq> a" "tr_addr t \<noteq> b" "b \<noteq> a"
    "b \<notin> set (addrs (xs @ t # ys))" "tr_addr t \<notin> set (addrs (xs @ ys))"
    using A T D tr_addr_in [of t] by (auto simp: tree_at_def)
  from A have sg: "seg h None xs (Some b)" "seg h (Some b) ys None" "mem h b = Some ?nd"
    and ma: "mem h a = Some \<lparr>cj_next = nx, cj_prev = pv, cj_child = hd_ptr xs (Some b), cj_item = it\<rparr>"
    by (auto simp: tree_at_def)
  obtain h1 h2 where h12: "set_next h (Some (tr_addr t)) (hd_ptr ys None) = Inr h1"
      "set_prev h1 (Some (tr_addr t)) (last_ptr xs None) = Inr h2" "seg h2 (last_ptr xs None) [t] (hd_ptr ys None)"
      "changed {tr_addr t} h h1" "changed {tr_addr t} h h2"
    using set_links [OF T, of "hd_ptr ys None" "last_ptr xs None"] by blast
  have "seg h2 (Some b) ys None"
    using sg(2) h12(5) by (rule seg_changed) (use d in auto)
  then obtain h3 where h3: "set_prev_if h2 (hd_ptr ys None) (Some (tr_addr t)) = Inr h3"
      "seg h3 (Some (tr_addr t)) ys None" "changed (set (addrs ys)) h2 h3"
    using relink_prev [of h2 "Some b" ys None "Some (tr_addr t)"] d(1) by auto
  have c3: "changed (insert (tr_addr t) (set (addrs ys))) h h3"
    using changed_trans [OF h12(5) h3(3)] by simp
  have t3: "seg h3 (last_ptr xs None) [t] (hd_ptr ys None)"
    using h12(3) h3(3) by (rule seg_changed) (use d in auto)
  have x3: "seg h3 None xs (Some b)" using sg(1) c3 by (rule seg_changed) (use d in auto)
  have m: "load h1 (Some b) = Inr ?nd" "mem h3 a = mem h a"
    using h12(4) c3 d sg(3) by (auto simp: changed_def)
  have ty: "seg h3 (last_ptr xs None) (t # ys) None" using t3 h3(2) by (cases ys) simp_all
  obtain rd re where rd: "load h2 (Some (tr_addr t)) = Inr rd" "cj_next rd = hd_ptr ys None"
      "load h3 (Some (tr_addr t)) = Inr re" "cj_prev re = last_ptr xs None"
    using h12(3) t3 by (cases t) auto
  obtain h4 where h4: "(if xs = [] then set_child h3 (Some a) (Some (tr_addr t))
               else set_next h3 (last_ptr xs None) (Some (tr_addr t))) = Inr h4"
      "seg h4 pv [Tree a it (xs @ t # ys)] nx" "changed (insert a (set (addrs xs))) h3 h4"
    using link_place [OF x3 ty d(1) _ d(2)] ma m(2) by auto
  obtain hx where link: "set_next_if h3 (last_ptr xs None) (Some (tr_addr t)) = Inr hx"
      "set_first hx (Some a) (Some b) (Some (tr_addr t)) = Inr h4"
    using link_unless_first [OF h4(1,3), of b nx pv it] d ma m(2) by (auto simp: run_simps)
  have "changed ({a, tr_addr t} \<union> set (addrs (xs @ ys))) h h4"
    using changed_trans [OF c3 h4(3)] by (simp add: insert_commute Un_commute)
  with h4(2) show ?thesis
    using h12(1,2) m(1) h3(1) rd link sg(3) by (simp add: take_place_def)
qed

lemma cJSON_ReplaceItemViaPointer_at:
  assumes A: "tree_at h pv (Tree a it (xs @ s # ys)) nx" and T: "tree_at h None t None"
    and D: "set (addrs_of (Tree a it (xs @ s # ys))) \<inter> set (addrs_of t) = {}" and O: "owned s"
  shows "\<exists>h'. cJSON_ReplaceItemViaPointer h (Some a) (Some (tr_addr s)) (Some (tr_addr t)) =
      Inr (True, freed (set (addrs_of s)) h') \<and>
    tree_at (freed (set (addrs_of s)) h') pv (Tree a it (xs @ t # ys)) nx \<and>
    changed (set (addrs_of (Tree a it (xs @ t # s # ys)))) h h'"
proof -
  obtain b bi bs where s: "s = Tree b bi bs" by (cases s)
  have d: "distinct (addrs (xs @ t # ys))" "a \<notin> set (addrs (xs @ t # ys))" "tr_addr t \<noteq> b" "tr_addr t \<notin> set (addrs bs)"
    "b \<notin> set (addrs (xs @ t # ys))" "set (addrs bs) \<inter> set (addrs (xs @ ys)) = {}" "b \<noteq> a" "a \<notin> set (addrs bs)"
    "b \<notin> set (addrs bs)" "distinct (addrs bs)"
    using A T D tr_addr_in [of t] by (auto simp: tree_at_def s)
  from take_place_at [OF A [unfolded s] T D [unfolded s]] obtain h4 where h4:
    "take_place h (Some a) (Some b) (Some (tr_addr t)) = Inr h4" "seg h4 pv [Tree a it (xs @ t # ys)] nx"
    "changed ({a, tr_addr t} \<union> set (addrs (xs @ ys))) h h4" by blast
  from A have sb: "seg h None bs None"
      "mem h b = Some \<lparr>cj_next = hd_ptr ys None, cj_prev = last_ptr xs None, cj_child = hd_ptr bs None, cj_item = bi\<rparr>"
    by (auto simp: tree_at_def s)
  have b4: "bounded h4" using bounded_changed [OF h4(3)] A by (simp add: tree_at_def)
  have m4: "mem h4 b = mem h b" using h4(3) d by (auto simp: changed_def)
  have "seg h4 None bs None" using sb(1) h4(3) by (rule seg_changed) (use d in auto)
  from clear_links [OF b4 m4 [unfolded sb(2)] this d(9,10)] obtain h5 h6 where h56:
    "set_next h4 (Some b) None = Inr h5" "set_prev h5 (Some b) None = Inr h6" "tree_at h6 None s None" "changed {b} h4 h6"
    by (auto simp: s)
  have c6: "changed (set (addrs_of (Tree a it (xs @ t # s # ys)))) h h6"
    using changed_trans [OF h4(3) h56(4)] by (rule changed_mono) (auto simp: s)
  have "tree_at h4 pv (Tree a it (xs @ t # ys)) nx" using h4(2) d(1,2) b4 by (simp add: tree_at_def)
  then have "tree_at h6 pv (Tree a it (xs @ t # ys)) nx"
    using h56(4) by (rule tree_at_changed) (use d in auto)
  then have "tree_at (freed (set (addrs_of s)) h6) pv (Tree a it (xs @ t # ys)) nx"
    by (rule tree_at_freed) (use d D in \<open>auto simp: s\<close>)
  moreover have "cJSON_ReplaceItemViaPointer h (Some a) (Some b) (Some (tr_addr t)) = Inr (True, freed (set (addrs_of s)) h6)"
    using h4(1) h56(1,2) cJSON_Delete_at [OF h56(3) O] d(3) by (simp add: cJSON_ReplaceItemViaPointer_def s)
  ultimately show ?thesis using c6 by (auto simp: s)
qed

end
