(* ===== verification/LD_CJSON_Heap_Copy.thy ===== *)
theory LD_CJSON_Heap_Copy
  imports LD_CJSON_Heap_Laws
begin

text \<open>
  The operations that allocate: the constructors, the arrays built from C arrays and
  \<open>cJSON_Duplicate\<close>. New trees live at addresses that were never handed out before, so that
  everything there was stays as it was.
\<close>

section \<open>Growing memory\<close>

text \<open>
  \<open>grown A B h h'\<close>: there are new nodes at \<open>A\<close>, and of the others only those at \<open>B\<close> are written.
\<close>

definition grown :: "nat set \<Rightarrow> nat set \<Rightarrow> memory \<Rightarrow> memory \<Rightarrow> bool" where
  "grown A B h h' \<longleftrightarrow> brk h \<le> brk h' \<and> A \<subseteq> {brk h..<brk h'} \<and> dom (mem h') = dom (mem h) \<union> A \<and>
     (\<forall>b. b < brk h \<longrightarrow> b \<notin> B \<longrightarrow> mem h' b = mem h b)"

lemma grown_refl [simp]: "grown {} B h h"
  by (simp add: grown_def)

lemma grown_trans:
  assumes "grown A B h h'" and "grown A' B' h' h''" and "B' \<subseteq> B \<union> {brk h..}"
  shows "grown (A \<union> A') B h h''"
proof -
  have "mem h'' b = mem h b" if "b < brk h" "b \<notin> B" for b
  proof -
    from that assms have "b < brk h'" "b \<notin> B'" by (auto simp: grown_def)
    with that assms show ?thesis by (simp add: grown_def)
  qed
  with assms show ?thesis by (fastforce simp: grown_def)
qed

lemma grown_changed: "changed B h h' \<Longrightarrow> grown {} B h h'"
  by (auto simp: grown_def changed_def)

lemma seg_grown:
  assumes "seg h pv ts nx" and "bounded h" and "grown A B h h'" and "B \<inter> set (addrs ts) = {}"
  shows "seg h' pv ts nx"
  using assms(1)
proof (rule seg_frame)
  fix a assume a: "a \<in> set (addrs ts)"
  with assms(1,2) have "a < brk h" by (auto simp: bounded_def dest: seg_live)
  with a assms(3,4) show "mem h' a = mem h a" by (auto simp: grown_def)
qed

lemma bounded_grown:
  assumes "bounded h" and "grown A B h h'"
  shows "bounded h'"
  unfolding bounded_def
proof (intro allI impI)
  fix a assume "mem h' a \<noteq> None"
  then have "a \<in> dom (mem h')" by auto
  with assms have "mem h a \<noteq> None \<or> a < brk h'" by (auto simp: grown_def)
  with assms show "a < brk h'" unfolding bounded_def grown_def by (meson less_le_trans)
qed

lemma tree_at_grown:
  assumes "tree_at h pv t nx" and "grown A B h h'" and "B \<inter> set (addrs_of t) = {}"
  shows "tree_at h' pv t nx"
  using assms seg_grown [of h pv "[t]" nx A B h'] bounded_grown [of h A B h'] by (simp add: tree_at_def)

lemma grown_new: "grown A B h h' \<Longrightarrow> bounded h \<Longrightarrow> seg h pv ts nx \<Longrightarrow> A \<inter> set (addrs ts) = {}"
  by (fastforce simp: grown_def bounded_def dest: seg_live)

section \<open>Constructors\<close>

lemma create_eq:
  "create h it = (brk h, h\<lparr>mem := (mem h)(brk h := Some \<lparr>cj_next = None, cj_prev = None, cj_child = None, cj_item = it\<rparr>),
     brk := brk h + 1\<rparr>)"
  by (simp add: create_def cJSON_New_Item_def Let_def)

lemma create_at:
  assumes "bounded h"
  shows "tree_at (snd (create h it)) None (Tree (fst (create h it)) it []) None"
    and "grown {fst (create h it)} {} h (snd (create h it))"
  using assms by (auto simp: create_eq tree_at_def bounded_def grown_def less_Suc_eq)

section \<open>Duplication\<close>

text \<open>The tree without its addresses: what a copy has in common with the original.\<close>

fun strip :: "tree \<Rightarrow> tree" where
  "strip (Tree a it ks) = Tree 0 it (map strip ks)"

text \<open>Nodes that are not references are copied as they are.\<close>

lemma not_reference: "\<not> has_flag it cJSON_IsReference \<Longrightarrow> it_type it AND NOT cJSON_IsReference = it_type it"
proof -
  assume "\<not> has_flag it cJSON_IsReference"
  then have "it_type it AND cJSON_IsReference = 0" by (simp add: has_flag_def)
  moreover have "it_type it = it_type it AND (NOT cJSON_IsReference OR cJSON_IsReference)" by simp
  ultimately show ?thesis by (simp only: bit.conj_disj_distrib bit.disj_zero_right)
qed

text \<open>One child copied and linked.\<close>

lemma duplicate_child:
  assumes P: "tree_at h None (Tree p it ds) None" and T: "tree_at h1 None t' None"
    and g: "grown (set (addrs_of t')) {} h h1"
  shows "\<exists>h2. (if ds = [] then set_child h1 (Some p) (Some (tr_addr t'))
                else suffix_object h1 (last_ptr ds None) (Some (tr_addr t'))) = Inr h2 \<and>
    tree_at h2 None (Tree p it (ds @ [t'])) None \<and>
    grown (set (addrs_of t')) (set (addrs_of (Tree p it ds))) h h2"
proof -
  from P g have P1: "tree_at h1 None (Tree p it ds) None" by (auto intro: tree_at_grown)
  from P g have "set (addrs_of (Tree p it ds)) \<inter> set (addrs_of t') = {}"
    using grown_new [OF g, of None "[Tree p it ds]" None] by (auto simp: tree_at_def)
  from append_kid [OF P1 T this] obtain h2 where h2:
    "(if ds = [] then set_child h1 (Some p) (Some (tr_addr t'))
      else suffix_object h1 (last_ptr ds None) (Some (tr_addr t'))) = Inr h2"
    "tree_at h2 None (Tree p it (ds @ [t'])) None"
    "changed (set (addrs_of (Tree p it (ds @ [t'])))) h1 h2" by blast
  have "grown (set (addrs_of t')) (set (addrs_of (Tree p it ds))) h h1"
    using g by (auto simp: grown_def)
  moreover have "set (addrs_of (Tree p it (ds @ [t']))) \<subseteq> set (addrs_of (Tree p it ds)) \<union> {brk h..}"
    using g by (auto simp: grown_def)
  ultimately have "grown (set (addrs_of t')) (set (addrs_of (Tree p it ds))) h h2"
    using grown_trans [OF _ grown_changed [OF h2(3)]] by fastforce
  with h2 show ?thesis by blast
qed

lemma duplicate_rules:
  shows "tree_at h pv t nx \<Longrightarrow> owned t \<Longrightarrow> 2 * length (addrs_of t) \<le> n \<Longrightarrow>
      \<exists>h' t'. duplicate n h (Some (tr_addr t)) True = Inr (Some (tr_addr t'), h') \<and>
        tree_at h' None t' None \<and> grown (set (addrs_of t')) {} h h' \<and> strip t' = strip t"
    and "seg h pv ks None \<Longrightarrow> distinct (addrs ks) \<Longrightarrow> \<forall>k \<in> set ks. owned k \<Longrightarrow> tree_at h None (Tree p it ds) None \<Longrightarrow>
      set (addrs ks) \<inter> set (addrs_of (Tree p it ds)) = {} \<Longrightarrow> 2 * length (addrs ks) + 1 \<le> n \<Longrightarrow>
      \<exists>h' ds'. duplicate_children n h (Some p) (last_ptr ds None) (hd_ptr ks None) = Inr (Some p, h') \<and>
        tree_at h' None (Tree p it (ds @ ds')) None \<and> map strip ds' = map strip ks \<and>
        grown (set (addrs ds')) (set (addrs_of (Tree p it ds))) h h'"
proof (induction n arbitrary: h pv t nx ks p it ds)
  case 0
  {
    case 1
    then show ?case by (cases t) simp
  next
    case 2
    then show ?case by simp
  }
next
  case (Suc n)
  {
    case 1
    obtain a ai as where t: "t = Tree a ai as" by (cases t)
    note K = tree_at_kids [OF 1(1) [unfolded t]]
    from 1(1) have b: "bounded h" by (simp add: tree_at_def)
    from 1(2) have ai: "ai\<lparr>it_type := it_type ai AND NOT cJSON_IsReference\<rparr> = ai"
      by (simp add: t not_reference)
    define p h1 where p: "p = fst (create h ai)" and h1: "h1 = snd (create h ai)"
    from create_at [OF b, of ai] have c: "tree_at h1 None (Tree p ai []) None" "grown {p} {} h h1"
      by (simp_all add: p h1)
    have "set (addrs as) \<inter> set (addrs_of (Tree p ai [])) = {}"
      using grown_new [OF c(2) b K(2)] by simp
    moreover have "seg h1 None as None" using K(2) b c(2) by (rule seg_grown) simp
    ultimately obtain h2 ds' where h2: "duplicate_children n h1 (Some p) None (hd_ptr as None) = Inr (Some p, h2)"
        "tree_at h2 None (Tree p ai ds') None" "map strip ds' = map strip as" "grown (set (addrs ds')) {p} h1 h2"
      using Suc.IH(2) [of h1 None as p ai "[]"] c(1) K(3) 1(2,3) by (auto simp: t)
    have "grown (insert p (set (addrs ds'))) {} h h2"
      using grown_trans [OF c(2) h2(4)] c(2) by (auto simp: grown_def)
    with h2 K(1) ai show ?case
      by (intro exI [of _ h2] exI [of _ "Tree p ai ds'"]) (simp add: t p h1 case_prod_beta Let_def)
  next
    case 2
    show ?case
    proof (cases ks)
      case (Cons t us)
      from 2 have b: "bounded h" by (simp add: tree_at_def)
      from 2 b have "tree_at h pv t (hd_ptr us None)" "owned t"
        by (auto simp: tree_at_def Cons) (cases us; simp)
      moreover have fuel: "2 * length (addrs_of t) \<le> n" "2 * length (addrs us) + 1 \<le> n"
        using 2(6) by (cases t; simp add: Cons)+
      ultimately obtain h1 t' where h1: "duplicate n h (Some (tr_addr t)) True = Inr (Some (tr_addr t'), h1)"
          "tree_at h1 None t' None" "grown (set (addrs_of t')) {} h h1" "strip t' = strip t"
        using Suc.IH(1) by blast
      from duplicate_child [OF 2(4) h1(2,3)] obtain h2 where h2:
        "(if ds = [] then set_child h1 (Some p) (Some (tr_addr t'))
          else suffix_object h1 (last_ptr ds None) (Some (tr_addr t'))) = Inr h2"
        "tree_at h2 None (Tree p it (ds @ [t'])) None"
        "grown (set (addrs_of t')) (set (addrs_of (Tree p it ds))) h h2" by blast
      have ks: "seg h2 pv ks None"
        using 2(1) b h2(3) by (rule seg_grown) (use 2(5) in auto)
      have "set (addrs us) \<inter> set (addrs_of (Tree p it (ds @ [t']))) = {}"
        using 2(5) grown_new [OF h1(3) b 2(1)] by (auto simp: Cons)
      moreover from ks obtain nd where nd: "load h2 (Some (tr_addr t)) = Inr nd" "cj_next nd = hd_ptr us None"
        "seg h2 (Some (tr_addr t)) us None" by (cases t) (auto simp: Cons)
      ultimately obtain h3 ds' where h3:
        "duplicate_children n h2 (Some p) (last_ptr (ds @ [t']) None) (hd_ptr us None) = Inr (Some p, h3)"
        "tree_at h3 None (Tree p it ((ds @ [t']) @ ds')) None" "map strip ds' = map strip us"
        "grown (set (addrs ds')) (set (addrs_of (Tree p it (ds @ [t'])))) h2 h3"
        using Suc.IH(2) [of h2 "Some (tr_addr t)" us p it "ds @ [t']"] h2(2) fuel(2) 2(2,3) by (auto simp: Cons)
      have "set (addrs_of (Tree p it (ds @ [t']))) \<subseteq> set (addrs_of (Tree p it ds)) \<union> {brk h..}"
        using h1(3) by (auto simp: grown_def)
      from grown_trans [OF h2(3) h3(4) this]
      have "grown (set (addrs (t' # ds'))) (set (addrs_of (Tree p it ds))) h h3" by simp
      moreover have "duplicate_children (Suc n) h (Some p) (last_ptr ds None) (hd_ptr ks None) = Inr (Some p, h3)"
        using h1(1) h2(1) nd(1,2) h3(1) by (cases "ds = []") (simp_all add: Cons)
      ultimately show ?thesis
        using h3(2,3) h1(4) by (intro exI [of _ h3] exI [of _ "t' # ds'"]) (simp add: Cons)
    qed (use 2 in auto)
  }
qed

lemma cJSON_Duplicate_at:
  assumes "tree_at h pv t nx" and "owned t"
  shows "\<exists>h' t'. cJSON_Duplicate h (Some (tr_addr t)) True = Inr (Some (tr_addr t'), h') \<and>
    tree_at h' None t' None \<and> grown (set (addrs_of t')) {} h h' \<and> strip t' = strip t"
proof -
  have "length (addrs_of t) \<le> brk h"
    using addrs_bound [of h pv "[t]" nx] assms(1) by (simp add: tree_at_def)
  then show ?thesis
    unfolding cJSON_Duplicate_def by (intro duplicate_rules(1) [OF assms]) simp
qed

section \<open>Arrays from C arrays\<close>

lemma fill_array_at:
  assumes "tree_at h None (Tree a it ks) None" and "\<And>h x. x \<in> set xs \<Longrightarrow> build h x = Inr (as_ptr (create h (elem x)))"
  shows "\<exists>h' ds. fill_array build h (Some a) (last_ptr ks None) xs = Inr (Some a, h') \<and>
    tree_at h' None (Tree a it (ks @ ds)) None \<and> map strip ds = map (\<lambda>x. Tree 0 (elem x) []) xs \<and>
    grown (set (addrs ds)) (set (addrs_of (Tree a it ks))) h h'"
  using assms
proof (induction xs arbitrary: h ks)
  case (Cons x xs)
  define n h1 where n: "n = fst (create h (elem x))" and h1: "h1 = snd (create h (elem x))"
  from Cons.prems(1) have "bounded h" by (simp add: tree_at_def)
  from create_at [OF this, of "elem x"] have c: "tree_at h1 None (Tree n (elem x) []) None"
      "grown (set (addrs_of (Tree n (elem x) []))) {} h h1"
    by (simp_all add: n h1)
  from duplicate_child [OF Cons.prems(1) c, unfolded tree.sel] obtain h2 where h2:
    "(if ks = [] then set_child h1 (Some a) (Some n) else suffix_object h1 (last_ptr ks None) (Some n)) = Inr h2"
    "tree_at h2 None (Tree a it (ks @ [Tree n (elem x) []])) None"
    "grown {n} (set (addrs_of (Tree a it ks))) h h2" by auto
  from Cons.IH [OF h2(2)] Cons.prems(2) obtain h' ds where h':
    "fill_array build h2 (Some a) (Some n) xs = Inr (Some a, h')"
    "tree_at h' None (Tree a it ((ks @ [Tree n (elem x) []]) @ ds)) None"
    "map strip ds = map (\<lambda>x. Tree 0 (elem x) []) xs"
    "grown (set (addrs ds)) (set (addrs_of (Tree a it (ks @ [Tree n (elem x) []])))) h2 h'" by auto
  have "set (addrs_of (Tree a it (ks @ [Tree n (elem x) []]))) \<subseteq> set (addrs_of (Tree a it ks)) \<union> {brk h..}"
    using c(2) by (auto simp: grown_def)
  from grown_trans [OF h2(3) h'(4) this] have "grown (set (addrs (Tree n (elem x) [] # ds))) (set (addrs_of (Tree a it ks))) h h'"
    by simp
  moreover have "fill_array build h (Some a) (last_ptr ks None) (x # xs) = Inr (Some a, h')"
    using h2(1) h'(1) Cons.prems(2) [of x] by (cases "ks = []") (simp_all add: n h1)
  ultimately show ?case
    using h'(2,3) by (intro exI [of _ h'] exI [of _ "Tree n (elem x) [] # ds"]) simp
qed auto

lemma create_array_at:
  assumes "bounded h" and "\<And>h x. x \<in> set xs \<Longrightarrow> build h x = Inr (as_ptr (create h (elem x)))"
  shows "\<exists>h' t. create_array build h (Some xs) (int (length xs)) = Inr (Some (tr_addr t), h') \<and>
    tree_at h' None t None \<and> grown (set (addrs_of t)) {} h h' \<and>
    strip t = Tree 0 (zero_item\<lparr>it_type := cJSON_Array\<rparr>) (map (\<lambda>x. Tree 0 (elem x) []) xs)"
proof -
  let ?it = "zero_item\<lparr>it_type := cJSON_Array\<rparr>"
  note c = create_at [OF assms(1), of ?it]
  from fill_array_at [OF c(1), of xs build elem] assms(2) obtain h' ds where h':
    "fill_array build (snd (create h ?it)) (Some (fst (create h ?it))) None xs = Inr (Some (fst (create h ?it)), h')"
    "tree_at h' None (Tree (fst (create h ?it)) ?it ds) None" "map strip ds = map (\<lambda>x. Tree 0 (elem x) []) xs"
    "grown (set (addrs ds)) {fst (create h ?it)} (snd (create h ?it)) h'" by auto
  from grown_trans [OF c(2) h'(4)] c(2)
  have "grown (set (addrs_of (Tree (fst (create h ?it)) ?it ds))) {} h h'"
    by (auto simp: grown_def)
  with h' show ?thesis
    by (intro exI [of _ h'] exI [of _ "Tree (fst (create h ?it)) ?it ds"])
      (simp add: create_array_def cJSON_CreateArray_def case_prod_beta)
qed

end
