(* ===== verification/LD_JSON_Heap_Laws.thy ===== *)
theory LD_JSON_Heap_Laws
  imports LD_JSON_Heap LD_CJSON_Heap_Copy "HOL-Library.Multiset"
begin

text \<open>
  The functions of json.c on nodes in memory implement their counterparts on values: a tree in
  memory stands for a JSON value, and every call from a memory that holds some trees ends
  without a fault in a memory that holds the trees of the resulting values and nothing else,
  so that no node is leaked or freed twice.
\<close>

section \<open>The value of a tree\<close>

fun to_json :: "tree \<Rightarrow> json" where
  "to_json (Tree a it ks) =
     (if it_type it = cJSON_False then JBool False
      else if it_type it = cJSON_True then JBool True
      else if it_type it = cJSON_Number then JNumber (it_valuedouble it)
      else if it_type it = cJSON_String then JText (the (it_valuestring it))
      else if it_type it = cJSON_Array then JArray (map to_json ks)
      else if it_type it = cJSON_Object then JObject (map (\<lambda>k. (the (key_of k), to_json k)) ks)
      else JNull)"

text \<open>
  The trees json.c builds: one type bit and no flag, a string has its text, only a collection has
  children, and the children of an object have keys.
\<close>

definition json_types :: "u32 set" where
  "json_types = {cJSON_False, cJSON_True, cJSON_NULL, cJSON_Number, cJSON_String, cJSON_Array, cJSON_Object}"

fun tree_ok :: "tree \<Rightarrow> bool" where
  "tree_ok (Tree a it ks) =
     (it_type it \<in> json_types \<and>
      (it_type it = cJSON_String \<longrightarrow> it_valuestring it \<noteq> None) \<and>
      (it_type it \<notin> {cJSON_Array, cJSON_Object} \<longrightarrow> ks = []) \<and>
      (it_type it = cJSON_Object \<longrightarrow> (\<forall>k \<in> set ks. key_of k \<noteq> None)) \<and>
      (\<forall>k \<in> set ks. tree_ok k))"

lemma type_numerals: "cJSON_False = 1" "cJSON_True = 2" "cJSON_NULL = 4" "cJSON_Number = 8" "cJSON_String = 16"
  "cJSON_Array = 32" "cJSON_Object = 64"
  by (simp_all add: cJSON_False_def cJSON_True_def cJSON_NULL_def cJSON_Number_def cJSON_String_def
      cJSON_Array_def cJSON_Object_def push_bit_eq_mult)

lemma json_types_masks:
  "x \<in> json_types \<Longrightarrow> x AND 0xFF = x" "x \<in> json_types \<Longrightarrow> x AND cJSON_IsReference = 0"
  "x \<in> json_types \<Longrightarrow> x AND NOT cJSON_StringIsConst = x"
  by (auto simp: json_types_def type_numerals cJSON_StringIsConst_def cJSON_IsReference_def)

lemma tree_ok_owned: "tree_ok t \<Longrightarrow> owned t"
  by (induction t) (auto simp: has_flag_def json_types_masks)

lemma rekey_eq: "tree_ok t \<Longrightarrow> rekey k t = Tree (tr_addr t) ((tr_item t)\<lparr>it_string := Some k\<rparr>) (tr_kids t)"
  by (cases t) (simp add: rekey_def json_types_masks)

lemma to_json_rekey [simp]: "tree_ok t \<Longrightarrow> to_json (rekey k t) = to_json t"
  by (cases t) (simp add: rekey_eq del: tree_ok.simps)

lemma tree_ok_rekey [simp]: "tree_ok t \<Longrightarrow> tree_ok (rekey k t)"
  by (cases t) (simp add: rekey_def json_types_masks)

lemma key_of_rekey [simp]: "key_of (rekey k t) = Some k"
  by (simp add: rekey_def)

lemma to_json_strip: "to_json (strip t) = to_json t"
proof (induction t)
  case (Tree a it ks)
  have key: "key_of (strip k) = key_of k" for k by (cases k) simp
  from Tree show ?case by (auto simp: key comp_def)
qed

lemma tree_ok_strip: "tree_ok (strip t) = tree_ok t"
proof (induction t)
  case (Tree a it ks)
  have key: "key_of (strip k) = key_of k" for k by (cases k) simp
  from Tree show ?case by (simp add: key)
qed

text \<open>The tests of json.c and the constructors of the value.\<close>

lemma tree_kinds:
  assumes "tree_ok (Tree a it ks)"
  shows "it_type it = cJSON_Array \<longleftrightarrow> (\<exists>xs. to_json (Tree a it ks) = JArray xs)"
    and "it_type it = cJSON_Object \<longleftrightarrow> (\<exists>ps. to_json (Tree a it ks) = JObject ps)"
    and "it_type it = cJSON_Number \<longleftrightarrow> (\<exists>x. to_json (Tree a it ks) = JNumber x)"
    and "it_type it = cJSON_String \<longleftrightarrow> (\<exists>s. to_json (Tree a it ks) = JText s)"
    and "it_type it = cJSON_NULL \<longleftrightarrow> to_json (Tree a it ks) = JNull"
    and "it_type it = cJSON_False \<longleftrightarrow> to_json (Tree a it ks) = JBool False"
    and "it_type it = cJSON_True \<longleftrightarrow> to_json (Tree a it ks) = JBool True"
  using assms by (auto simp: type_numerals json_types_def)

abbreviation members :: "tree list \<Rightarrow> (string \<times> json) list" where
  "members ks \<equiv> map (\<lambda>k. (the (key_of k), to_json k)) ks"

lemma to_json_array: "it_type it = cJSON_Array \<Longrightarrow> to_json (Tree a it ks) = JArray (map to_json ks)"
  by (simp add: type_numerals)

lemma to_json_object: "it_type it = cJSON_Object \<Longrightarrow> to_json (Tree a it ks) = JObject (members ks)"
  by (simp add: type_numerals)

section \<open>Memory that holds trees\<close>

text \<open>The live nodes are exactly those of some disjoint trees.\<close>

definition holds :: "memory \<Rightarrow> tree list \<Rightarrow> bool" where
  "holds h ts \<longleftrightarrow> bounded h \<and> (\<forall>t \<in> set ts. tree_at h None t None \<and> tree_ok t) \<and>
     distinct (addrs ts) \<and> dom (mem h) = set (addrs ts)"

lemma set_addrs: "set (addrs ts) = (\<Union>t \<in> set ts. set (addrs_of t))"
  by (simp add: addrs_def)

lemma mset_addrs: "mset (addrs ts) = (\<Sum>t \<in># mset ts. mset (addrs_of t))"
  by (induction ts) simp_all

lemma holds_perm:
  assumes "holds h ts" and "mset us = mset ts"
  shows "holds h us"
proof -
  from assms(2) have m: "mset (addrs us) = mset (addrs ts)" by (simp add: mset_addrs)
  from assms(2) have s: "set us = set ts" by (rule mset_eq_setD)
  from assms(1) show ?thesis
    by (simp add: holds_def s mset_eq_setD [OF m] mset_eq_imp_distinct_iff [OF m])
qed

lemma holds_Cons:
  "holds h (t # ts) \<Longrightarrow> tree_at h None t None" "holds h (t # ts) \<Longrightarrow> tree_ok t" "holds h ts \<Longrightarrow> bounded h"
  "holds h (t # u # ts) \<Longrightarrow> set (addrs_of t) \<inter> set (addrs_of u) = {}"
  by (auto simp: holds_def)

lemma holds_swap: "holds h (t # u # ts) \<Longrightarrow> holds h (u # t # ts)"
  by (erule holds_perm) simp

text \<open>
  The frame of a call: the first trees are replaced by others within the addresses they had,
  and the rest stays.
\<close>

lemma holds_changed:
  assumes "holds h (ts @ us)" and "changed (set (addrs ts)) h h'"
    and "\<forall>t \<in> set ts'. tree_at h' None t None \<and> tree_ok t" and "distinct (addrs ts')" "set (addrs ts') = set (addrs ts)"
  shows "holds h' (ts' @ us)"
proof -
  have "tree_at h' None u None" if "u \<in> set us" for u
    using assms(1,2) that by (rule_tac tree_at_changed [of h None u None "set (addrs ts)"]) (auto simp: holds_def set_addrs)
  then have "\<forall>t \<in> set (ts' @ us). tree_at h' None t None \<and> tree_ok t"
    using assms(1,3) by (auto simp: holds_def)
  moreover have "dom (mem h') = set (addrs (ts' @ us))" using assms(1,2,5) by (simp add: holds_def changed_def)
  moreover have "distinct (addrs (ts' @ us))" using assms(1,4,5) by (simp add: holds_def)
  moreover have "bounded h'" using bounded_changed [OF assms(2)] assms(1) by (simp add: holds_def)
  ultimately show ?thesis by (simp add: holds_def)
qed

lemma holds_freed:
  assumes "holds h (t # ts)"
  shows "holds (freed (set (addrs_of t)) h) ts"
proof -
  have "dom (mem (freed (set (addrs_of t)) h)) = set (addrs ts)"
    using assms by (auto simp: holds_def dom_def set_eq_iff)
  moreover have "tree_at (freed (set (addrs_of t)) h) None u None" if "u \<in> set ts" for u
    using assms that by (rule_tac tree_at_freed) (auto simp: holds_def set_addrs)
  ultimately show ?thesis using assms by (simp add: holds_def)
qed

lemma holds_grown:
  assumes "holds h ts" and "grown (set (addrs_of t)) {} h h'" and "tree_at h' None t None" and "tree_ok t"
  shows "holds h' (t # ts)"
proof -
  have "tree_at h' None u None" if "u \<in> set ts" for u
    using assms(1,2) that by (rule_tac tree_at_grown [of h None u None "set (addrs_of t)" "{}"]) (auto simp: holds_def)
  moreover have "dom (mem h) \<inter> set (addrs_of t) = {}"
    using assms(1,2) by (fastforce simp: holds_def grown_def bounded_def)
  moreover have "dom (mem h') = dom (mem h) \<union> set (addrs_of t)" "bounded h'" "distinct (addrs_of t)"
    using assms(2,3) by (simp_all add: grown_def tree_at_def)
  ultimately show ?thesis
    using assms(1,3,4) by (simp add: holds_def Int_commute Un_commute)
qed

section \<open>Reading\<close>

lemma is_type_at: "tree_at h pv (Tree a it ks) nx \<Longrightarrow> tree_ok (Tree a it ks) \<Longrightarrow> is_type ty h (Some a) = Inr (it_type it = ty)"
  by (simp add: is_type_def tree_at_kids(1) json_types_masks)

lemma guarded_type_at:
  assumes "tree_at h pv (Tree a it ks) nx" and "tree_ok (Tree a it ks)"
  shows "guarded cJSON_IsArray h (Some a) x k = (if it_type it = cJSON_Array then k else Inr x)"
    and "guarded cJSON_IsObject h (Some a) x k = (if it_type it = cJSON_Object then k else Inr x)"
    and "guarded cJSON_IsNumber h (Some a) x k = (if it_type it = cJSON_Number then k else Inr x)"
    and "guarded cJSON_IsString h (Some a) x k = (if it_type it = cJSON_String then k else Inr x)"
  using is_type_at [OF assms]
  by (simp_all add: guarded_def cJSON_IsArray_def cJSON_IsObject_def cJSON_IsNumber_def cJSON_IsString_def)

section \<open>Writing\<close>

lemma json_not_collection:
  "(\<nexists>xs. j = JArray xs) \<Longrightarrow> LDArrayPush j p = (False, j)"
  "(\<nexists>ps. j = JObject ps) \<Longrightarrow> LDObjectSetKey j k p = (False, j)"
  "(\<nexists>ps. j = JObject ps) \<Longrightarrow> LDObjectDeleteKey j key = j"
  "(\<nexists>ps. j = JObject ps) \<Longrightarrow> LDObjectDetachKey j key = (None, j)"
  by (cases j; simp add: LDArrayPush_def LDObjectSetKey_def LDObjectDeleteKey_def LDObjectDetachKey_def)+

lemma push_member:
  assumes "holds h (Tree a it ks # u # ts)" and "it_type it = cJSON_Array"
  shows "\<exists>h'. cJSON_AddItemToArray h (Some a) (Some (tr_addr u)) = Inr h' \<and> holds h' (Tree a it (ks @ [u]) # ts)"
proof -
  note H = holds_Cons [OF assms(1)] and U = holds_Cons(1,2) [OF holds_swap [OF assms(1)]]
  from add_item_to_array_at [OF H(1) U(1) H(4)] obtain h' where h':
    "add_item_to_array h (Some a) (Some (tr_addr u)) = Inr (True, h')" "tree_at h' None (Tree a it (ks @ [u])) None"
    "changed (set (addrs_of (Tree a it (ks @ [u])))) h h'" by blast
  have ok: "tree_ok (Tree a it (ks @ [u]))" using H(2) U(2) assms(2) by (auto simp: type_numerals)
  have "holds h' ([Tree a it (ks @ [u])] @ ts)"
    using assms(1) h'(2,3) ok by (rule_tac holds_changed [of h "[Tree a it ks, u]"]) (auto simp: holds_def tree_at_def)
  with h'(1) show ?thesis by (simp add: cJSON_AddItemToArray_def)
qed

lemma LDArrayPush_refines:
  assumes "holds h (t # u # ts)"
  shows "\<exists>h' t'. LDArrayPush_at h (Some (tr_addr t)) (Some (tr_addr u)) =
      Inr (fst (LDArrayPush (to_json t) (Some (to_json u))), h') \<and>
    holds h' (t' # (if fst (LDArrayPush (to_json t) (Some (to_json u))) then ts else u # ts)) \<and>
    tr_addr t' = tr_addr t \<and> to_json t' = snd (LDArrayPush (to_json t) (Some (to_json u)))"
proof -
  obtain a it ks where t: "t = Tree a it ks" by (cases t)
  note H = holds_Cons(1,2) [OF assms [unfolded t]]
  show ?thesis
  proof (cases "it_type it = cJSON_Array")
    case True
    from push_member [OF assms [unfolded t] True] obtain h' where
      "cJSON_AddItemToArray h (Some a) (Some (tr_addr u)) = Inr h'" "holds h' (Tree a it (ks @ [u]) # ts)" by blast
    then show ?thesis
      using True by (intro exI [of _ h'] exI [of _ "Tree a it (ks @ [u])"])
        (simp add: t LDArrayPush_at_def guarded_type_at [OF H] to_json_array LDArrayPush_def del: to_json.simps)
  next
    case False
    then have "LDArrayPush (to_json t) (Some (to_json u)) = (False, to_json t)"
      using tree_kinds(1) [OF H(2)] by (intro json_not_collection) (simp add: t)
    with False assms show ?thesis
      by (intro exI [of _ h] exI [of _ t]) (simp add: t LDArrayPush_at_def guarded_type_at [OF H])
  qed
qed

text \<open>The member a key finds, in memory and in the value.\<close>

lemma member_split:
  assumes "\<forall>k \<in> set ks. key_of k \<noteq> None"
  obtains (none) "dropWhile (\<lambda>t. key_of t \<noteq> Some key) ks = []" and "map_of (members ks) key = None"
      and "assoc_delete key (members ks) = members ks"
  | (some) xs u ys where "ks = xs @ u # ys" and "dropWhile (\<lambda>t. key_of t \<noteq> Some key) ks = u # ys"
      and "map_of (members ks) key = Some (to_json u)" and "assoc_delete key (members ks) = members (xs @ ys)"
proof -
  have "(dropWhile (\<lambda>t. key_of t \<noteq> Some key) ks = [] \<and> map_of (members ks) key = None \<and>
      assoc_delete key (members ks) = members ks) \<or>
    (\<exists>xs u ys. ks = xs @ u # ys \<and> dropWhile (\<lambda>t. key_of t \<noteq> Some key) ks = u # ys \<and>
      map_of (members ks) key = Some (to_json u) \<and> assoc_delete key (members ks) = members (xs @ ys))"
    using assms
  proof (induction ks)
    case (Cons k ks)
    show ?case
    proof (cases "key_of k = Some key")
      case True
      then show ?thesis by (intro disjI2 exI [of _ "[]"]) simp
    next
      case False
      with Cons.prems have "the (key_of k) \<noteq> key" by auto
      moreover have "\<forall>k \<in> set ks. key_of k \<noteq> None" using Cons.prems by simp
      note Cons.IH [OF this]
      ultimately show ?thesis
      proof (elim disjE exE conjE)
        fix xs u ys
        assume "ks = xs @ u # ys" "dropWhile (\<lambda>t. key_of t \<noteq> Some key) ks = u # ys"
          "map_of (members ks) key = Some (to_json u)" "assoc_delete key (members ks) = members (xs @ ys)"
          "the (key_of k) \<noteq> key"
        with False show ?thesis by (intro disjI2 exI [of _ "k # xs"] exI [of _ u] exI [of _ ys]) simp
      qed (simp add: False)
    qed
  qed simp
  then show thesis using none some by blast
qed

lemma cJSON_DetachItemFromObjectCaseSensitive_at:
  assumes A: "tree_at h pv (Tree a it ks) nx" and K: "\<forall>k \<in> set ks. key_of k \<noteq> None"
  obtains (none) "cJSON_DetachItemFromObjectCaseSensitive h (Some a) (Some key) = Inr (None, h)"
      and "map_of (members ks) key = None" and "assoc_delete key (members ks) = members ks"
  | (some) xs u ys h' where "ks = xs @ u # ys"
      and "cJSON_DetachItemFromObjectCaseSensitive h (Some a) (Some key) = Inr (Some (tr_addr u), h')"
      and "tree_at h' pv (Tree a it (xs @ ys)) nx" and "tree_at h' None u None"
      and "changed (set (addrs_of (Tree a it ks))) h h'"
      and "map_of (members ks) key = Some (to_json u)" and "assoc_delete key (members ks) = members (xs @ ys)"
  using K
proof (cases rule: member_split [of ks key])
  case none
  then show ?thesis
    using that(1) get_object_item_at [OF A K, of key]
    by (simp add: cJSON_DetachItemFromObjectCaseSensitive_def cJSON_GetObjectItemCaseSensitive_def
        cJSON_DetachItemViaPointer_def)
next
  case (some xs u ys)
  from cJSON_DetachItemViaPointer_at [OF A [unfolded some(1)]] obtain h' where
    "cJSON_DetachItemViaPointer h (Some a) (Some (tr_addr u)) = Inr (Some (tr_addr u), h')"
    "tree_at h' pv (Tree a it (xs @ ys)) nx" "tree_at h' None u None" "changed (set (addrs_of (Tree a it ks))) h h'"
    unfolding some(1) by blast
  with some show ?thesis
    using that(2) get_object_item_at [OF A K, of key]
    by (simp add: cJSON_DetachItemFromObjectCaseSensitive_def cJSON_GetObjectItemCaseSensitive_def)
qed

lemma tree_ok_sub: "tree_ok (Tree a it (xs @ u # ys)) \<Longrightarrow> tree_ok (Tree a it (xs @ ys))"
  "tree_ok (Tree a it (xs @ u # ys)) \<Longrightarrow> tree_ok u"
  by (auto simp: type_numerals)

text \<open>Detaching a member of an object that is a root makes the member a root.\<close>

lemma detach_member:
  assumes "holds h (Tree a it ks # ts)" and "it_type it = cJSON_Object"
  shows "\<exists>h' ks' us. cJSON_DetachItemFromObjectCaseSensitive h (Some a) (Some key) = Inr (hd_ptr us None, h') \<and>
    holds h' (Tree a it ks' # us @ ts) \<and> members ks' = assoc_delete key (members ks) \<and>
    (case map_of (members ks) key of None \<Rightarrow> us = [] | Some v \<Rightarrow> \<exists>u. us = [u] \<and> to_json u = v)"
proof -
  note H = holds_Cons(1,2) [OF assms(1)]
  from H(2) assms(2) have K: "\<forall>k \<in> set ks. key_of k \<noteq> None" by (simp add: type_numerals)
  show ?thesis
  proof (cases rule: cJSON_DetachItemFromObjectCaseSensitive_at [OF H(1) K, of key])
    case 1
    then show ?thesis using assms(1) by (intro exI [of _ h] exI [of _ ks] exI [of _ "[]"]) simp
  next
    case (2 xs u ys h')
    have "tree_ok (Tree a it (xs @ ys))" "tree_ok u" using H(2) tree_ok_sub 2(1) by blast+
    then have "holds h' ([Tree a it (xs @ ys), u] @ ts)"
      using assms(1) 2(3-5) by (rule_tac holds_changed [of h "[Tree a it ks]"]) (auto simp: 2(1) holds_def tree_at_def)
    with 2 show ?thesis by (intro exI [of _ h'] exI [of _ "xs @ ys"] exI [of _ "[u]"]) simp
  qed
qed

lemma LDObjectDetachKey_refines:
  assumes "holds h (t # ts)"
  shows "\<exists>h' t' us. LDObjectDetachKey_at h (Some (tr_addr t)) (Some key) = Inr (hd_ptr us None, h') \<and>
    holds h' (t' # us @ ts) \<and> tr_addr t' = tr_addr t \<and> to_json t' = snd (LDObjectDetachKey (to_json t) key) \<and>
    (case fst (LDObjectDetachKey (to_json t) key) of None \<Rightarrow> us = [] | Some v \<Rightarrow> \<exists>u. us = [u] \<and> to_json u = v)"
proof -
  obtain a it ks where t: "t = Tree a it ks" by (cases t)
  note H = holds_Cons(1,2) [OF assms [unfolded t]]
  show ?thesis
  proof (cases "it_type it = cJSON_Object")
    case True
    from detach_member [OF assms [unfolded t] True, of key] obtain h' ks' us where h':
      "cJSON_DetachItemFromObjectCaseSensitive h (Some a) (Some key) = Inr (hd_ptr us None, h')"
      "holds h' (Tree a it ks' # us @ ts)" "members ks' = assoc_delete key (members ks)"
      "case map_of (members ks) key of None \<Rightarrow> us = [] | Some v \<Rightarrow> \<exists>u. us = [u] \<and> to_json u = v" by blast
    then show ?thesis
      using True by (intro exI [of _ h'] exI [of _ "Tree a it ks'"] exI [of _ us])
        (simp add: t LDObjectDetachKey_at_def guarded_type_at [OF H] to_json_object LDObjectDetachKey_def del: to_json.simps)
  next
    case False
    then have "LDObjectDetachKey (to_json t) key = (None, to_json t)"
      using tree_kinds(2) [OF H(2)] by (intro json_not_collection) (simp add: t)
    with False assms show ?thesis
      by (intro exI [of _ h] exI [of _ t] exI [of _ "[]"]) (simp add: t LDObjectDetachKey_at_def guarded_type_at [OF H])
  qed
qed

lemma delete_member:
  assumes "holds h (Tree a it ks # ts)" and "it_type it = cJSON_Object"
  shows "\<exists>h' ks'. cJSON_DeleteItemFromObjectCaseSensitive h (Some a) (Some key) = Inr h' \<and>
    holds h' (Tree a it ks' # ts) \<and> members ks' = assoc_delete key (members ks)"
proof -
  from detach_member [OF assms, of key] obtain h' ks' us where h':
    "cJSON_DetachItemFromObjectCaseSensitive h (Some a) (Some key) = Inr (hd_ptr us None, h')"
    "holds h' (Tree a it ks' # us @ ts)" "members ks' = assoc_delete key (members ks)"
    "case map_of (members ks) key of None \<Rightarrow> us = [] | Some v \<Rightarrow> \<exists>u. us = [u] \<and> to_json u = v" by blast
  then have one: "us = [] \<or> (\<exists>u. us = [u])" by (auto split: option.splits)
  show ?thesis
  proof (cases us)
    case Nil
    with h' show ?thesis by (auto simp: cJSON_DeleteItemFromObjectCaseSensitive_def cJSON_Delete_def)
  next
    case (Cons u vs)
    with h' one have H: "holds h' (u # Tree a it ks' # ts)" by (auto intro: holds_swap)
    from cJSON_Delete_at [OF holds_Cons(1) [OF H] tree_ok_owned [OF holds_Cons(2) [OF H]]] holds_freed [OF H]
    show ?thesis using h' Cons by (auto simp: cJSON_DeleteItemFromObjectCaseSensitive_def)
  qed
qed

lemma LDObjectDeleteKey_refines:
  assumes "holds h (t # ts)"
  shows "\<exists>h' t'. LDObjectDeleteKey_at h (Some (tr_addr t)) (Some key) = Inr h' \<and>
    holds h' (t' # ts) \<and> tr_addr t' = tr_addr t \<and> to_json t' = LDObjectDeleteKey (to_json t) key"
proof -
  obtain a it ks where t: "t = Tree a it ks" by (cases t)
  note H = holds_Cons(1,2) [OF assms [unfolded t]]
  show ?thesis
  proof (cases "it_type it = cJSON_Object")
    case True
    from delete_member [OF assms [unfolded t] True, of key] obtain h' ks' where
      "cJSON_DeleteItemFromObjectCaseSensitive h (Some a) (Some key) = Inr h'"
      "holds h' (Tree a it ks' # ts)" "members ks' = assoc_delete key (members ks)" by blast
    then show ?thesis
      using True by (intro exI [of _ h'] exI [of _ "Tree a it ks'"])
        (simp add: t LDObjectDeleteKey_at_def guarded_type_at [OF H] to_json_object del: to_json.simps)
  next
    case False
    then have "LDObjectDeleteKey (to_json t) key = to_json t"
      using tree_kinds(2) [OF H(2)] by (intro json_not_collection) (simp add: t)
    with False assms show ?thesis
      by (intro exI [of _ h] exI [of _ t]) (simp add: t LDObjectDeleteKey_at_def guarded_type_at [OF H])
  qed
qed

lemma set_member:
  assumes "holds h (Tree a it ks # u # ts)" and "it_type it = cJSON_Object"
  shows "\<exists>h' ks'. LDObjectSetKey_at h (Some a) (Some key) (Some (tr_addr u)) = Inr (True, h') \<and>
    holds h' (Tree a it ks' # ts) \<and> members ks' = assoc_delete key (members ks) @ [(key, to_json u)]"
proof -
  from delete_member [OF assms, of key] obtain h1 ks1 where h1:
    "cJSON_DeleteItemFromObjectCaseSensitive h (Some a) (Some key) = Inr h1"
    "holds h1 (Tree a it ks1 # u # ts)" "members ks1 = assoc_delete key (members ks)" by blast
  note H = holds_Cons [OF h1(2)] and U = holds_Cons(1,2) [OF holds_swap [OF h1(2)]]
  from add_item_to_object_at [OF H(1) U(1) H(4), of key] obtain h2 where h2:
    "add_item_to_object h1 (Some a) (Some key) (Some (tr_addr u)) False = Inr (True, h2)"
    "tree_at h2 None (Tree a it (ks1 @ [rekey key u])) None" "changed (set (addrs_of (Tree a it (ks1 @ [u])))) h1 h2" by blast
  have ok: "tree_ok (Tree a it (ks1 @ [rekey key u]))" using H(2) U(2) assms(2) by (auto simp: type_numerals)
  have "holds h2 ([Tree a it (ks1 @ [rekey key u])] @ ts)"
    using h1(2) h2(2,3) ok by (rule_tac holds_changed [of h1 "[Tree a it ks1, u]"]) (auto simp: holds_def tree_at_def)
  moreover have "members (ks1 @ [rekey key u]) = assoc_delete key (members ks) @ [(key, to_json u)]"
    using h1(3) U(2) by simp
  ultimately show ?thesis
    using h1(1) h2(1) assms(2)
    by (intro exI [of _ h2] exI [of _ "ks1 @ [rekey key u]"])
      (simp add: LDObjectSetKey_at_def guarded_type_at [OF holds_Cons(1,2) [OF assms(1)]] cJSON_AddItemToObject_def)
qed

lemma LDObjectSetKey_refines:
  assumes "holds h (t # u # ts)"
  shows "\<exists>h' t'. LDObjectSetKey_at h (Some (tr_addr t)) (Some key) (Some (tr_addr u)) =
      Inr (fst (LDObjectSetKey (to_json t) (Some key) (Some (to_json u))), h') \<and>
    holds h' (t' # (if fst (LDObjectSetKey (to_json t) (Some key) (Some (to_json u))) then ts else u # ts)) \<and>
    tr_addr t' = tr_addr t \<and> to_json t' = snd (LDObjectSetKey (to_json t) (Some key) (Some (to_json u)))"
proof -
  obtain a it ks where t: "t = Tree a it ks" by (cases t)
  note H = holds_Cons(1,2) [OF assms [unfolded t]]
  show ?thesis
  proof (cases "it_type it = cJSON_Object")
    case True
    from set_member [OF assms [unfolded t] True, of key] obtain h' ks' where
      "LDObjectSetKey_at h (Some a) (Some key) (Some (tr_addr u)) = Inr (True, h')"
      "holds h' (Tree a it ks' # ts)" "members ks' = assoc_delete key (members ks) @ [(key, to_json u)]" by blast
    then show ?thesis
      using True by (intro exI [of _ h'] exI [of _ "Tree a it ks'"]) (simp add: t to_json_object del: to_json.simps)
  next
    case False
    then have "LDObjectSetKey (to_json t) (Some key) (Some (to_json u)) = (False, to_json t)"
      using tree_kinds(2) [OF H(2)] by (intro json_not_collection) (simp add: t)
    with False assms show ?thesis
      by (intro exI [of _ h] exI [of _ t]) (simp add: t LDObjectSetKey_at_def guarded_type_at [OF H])
  qed
qed

section \<open>Copying and freeing\<close>

lemma LDJSONFree_refines:
  assumes "holds h (t # ts)"
  shows "\<exists>h'. LDJSONFree_at h (Some (tr_addr t)) = Inr h' \<and> holds h' ts"
  using cJSON_Delete_at [OF holds_Cons(1) [OF assms] tree_ok_owned [OF holds_Cons(2) [OF assms]]] holds_freed [OF assms]
  by (simp add: LDJSONFree_at_def)

text \<open>A copy of any tree in memory becomes a root of its own.\<close>

lemma duplicate_any:
  assumes "holds h ts" and "tree_at h pv u nx" and "tree_ok u"
  shows "\<exists>h' u'. cJSON_Duplicate h (Some (tr_addr u)) True = Inr (Some (tr_addr u'), h') \<and>
    holds h' (u' # ts) \<and> to_json u' = to_json u"
proof -
  from cJSON_Duplicate_at [OF assms(2) tree_ok_owned [OF assms(3)]] obtain h' u' where h':
    "cJSON_Duplicate h (Some (tr_addr u)) True = Inr (Some (tr_addr u'), h')" "tree_at h' None u' None"
    "grown (set (addrs_of u')) {} h h'" "strip u' = strip u" by blast
  from h'(4) have "tree_ok u'" "to_json u' = to_json u"
    using tree_ok_strip [of u'] tree_ok_strip [of u] assms(3) to_json_strip [of u'] to_json_strip [of u] by simp_all
  with h' holds_grown [OF assms(1) h'(3,2)] show ?thesis by blast
qed

lemma LDJSONDuplicate_refines:
  assumes "holds h (t # ts)"
  shows "\<exists>h' t'. LDJSONDuplicate_at h (Some (tr_addr t)) = Inr (Some (tr_addr t'), h') \<and>
    holds h' (t' # t # ts) \<and> to_json t' = to_json t"
  using duplicate_any [OF assms holds_Cons(1,2) [OF assms]] by (simp add: LDJSONDuplicate_at_def)

lemma kid_at:
  assumes "tree_at h pv (Tree b bi (xs @ u # ys)) nx"
  shows "tree_at h (last_ptr xs None) u (hd_ptr ys None)"
    and "\<exists>nd. load h (Some (tr_addr u)) = Inr nd \<and> cj_next nd = hd_ptr ys None \<and> cj_item nd = tr_item u"
proof -
  obtain c ci cs where u: "u = Tree c ci cs" by (cases u)
  from assms show "tree_at h (last_ptr xs None) u (hd_ptr ys None)"
    "\<exists>nd. load h (Some (tr_addr u)) = Inr nd \<and> cj_next nd = hd_ptr ys None \<and> cj_item nd = tr_item u"
    by (auto simp: tree_at_def u)
qed

lemma append_loop_refines:
  assumes "holds h (Tree a it ks # Tree b bi (xs @ ys) # ts)" and "it_type it = cJSON_Array" and "length ys < n"
  shows "\<exists>h' ks'. append_loop n h (Some a) (hd_ptr ys None) = Inr (True, h') \<and>
    holds h' (Tree a it ks' # Tree b bi (xs @ ys) # ts) \<and> map to_json ks' = map to_json ks @ map to_json ys"
  using assms
proof (induction n arbitrary: h ks xs ys)
  case (Suc n)
  show ?case
  proof (cases ys)
    case (Cons u us)
    note S = holds_Cons(1,2) [OF holds_swap [OF Suc.prems(1)]]
    from S(2) have "tree_ok u" by (auto simp: Cons)
    from duplicate_any [OF Suc.prems(1) kid_at(1) [OF S(1) [unfolded Cons]] this] obtain h1 u' where h1:
      "cJSON_Duplicate h (Some (tr_addr u)) True = Inr (Some (tr_addr u'), h1)"
      "holds h1 (u' # Tree a it ks # Tree b bi (xs @ ys) # ts)" "to_json u' = to_json u" by blast
    from push_member [OF holds_swap [OF h1(2)] Suc.prems(2)] obtain h2 where h2:
      "cJSON_AddItemToArray h1 (Some a) (Some (tr_addr u')) = Inr h2"
      "holds h2 (Tree a it (ks @ [u']) # Tree b bi (xs @ ys) # ts)" by blast
    from kid_at(2) [OF holds_Cons(1) [OF holds_swap [OF h2(2)], unfolded Cons]] obtain nd where nd:
      "load h2 (Some (tr_addr u)) = Inr nd" "cj_next nd = hd_ptr us None" by blast
    from Suc.IH [of h2 "ks @ [u']" "xs @ [u]" us] h2(2) Suc.prems(2,3) obtain h' ks' where
      "append_loop n h2 (Some a) (hd_ptr us None) = Inr (True, h')"
      "holds h' (Tree a it ks' # Tree b bi (xs @ ys) # ts)" "map to_json ks' = map to_json (ks @ [u']) @ map to_json us"
      by (auto simp: Cons)
    with h1 h2(1) nd show ?thesis by (auto simp: Cons)
  qed (use Suc.prems in auto)
qed simp

lemma LDArrayAppend_refines:
  assumes "holds h (t # s # ts)"
  shows "\<exists>h' t'. LDArrayAppend_at h (Some (tr_addr t)) (Some (tr_addr s)) =
      Inr (fst (LDArrayAppend (to_json t) (Some (to_json s))), h') \<and>
    holds h' (t' # s # ts) \<and> tr_addr t' = tr_addr t \<and> to_json t' = snd (LDArrayAppend (to_json t) (Some (to_json s)))"
proof -
  obtain a it ks b bi ys where ts: "t = Tree a it ks" "s = Tree b bi ys" by (cases t; cases s)
  note H = holds_Cons(1,2) [OF assms [unfolded ts]] and S = holds_Cons(1,2) [OF holds_swap [OF assms [unfolded ts]]]
  show ?thesis
  proof (cases "it_type it = cJSON_Array \<and> it_type bi = cJSON_Array")
    case True
    from append_loop_refines [of h a it ks b bi "[]" ys ts "brk h + 1"] assms True tree_at_kids(4) [OF S(1)]
    obtain h' ks' where "append_loop (brk h + 1) h (Some a) (hd_ptr ys None) = Inr (True, h')"
      "holds h' (Tree a it ks' # s # ts)" "map to_json ks' = map to_json ks @ map to_json ys" by (auto simp: ts)
    then show ?thesis
      using True by (intro exI [of _ h'] exI [of _ "Tree a it ks'"])
        (simp add: ts LDArrayAppend_at_def guarded_type_at [OF H] guarded_type_at [OF S] tree_at_kids(1) [OF S(1)]
          to_json_array LDArrayAppend_def del: to_json.simps append_loop.simps)
  next
    case False
    then have "LDArrayAppend (to_json t) (Some (to_json s)) = (False, to_json t)"
      using tree_kinds(1) [OF H(2)] tree_kinds(1) [OF S(2)]
      by (auto simp: ts LDArrayAppend_def simp del: to_json.simps split: json.splits)
    with False assms show ?thesis
      by (intro exI [of _ h] exI [of _ t])
        (auto simp: ts LDArrayAppend_at_def guarded_type_at [OF H] guarded_type_at [OF S])
  qed
qed

lemma merge_loop_refines:
  assumes "holds h (Tree a it ks # Tree b bi (xs @ ys) # ts)" and "it_type it = cJSON_Object"
    and "it_type bi = cJSON_Object" and "length ys < n"
  shows "\<exists>h' ks'. merge_loop n h (Some a) (hd_ptr ys None) = Inr (True, h') \<and>
    holds h' (Tree a it ks' # Tree b bi (xs @ ys) # ts) \<and>
    JObject (members ks') = merge_entries (members ys) (JObject (members ks))"
  using assms
proof (induction n arbitrary: h ks xs ys)
  case (Suc n)
  show ?case
  proof (cases ys)
    case (Cons u us)
    note S = holds_Cons(1,2) [OF holds_swap [OF Suc.prems(1)]]
    from S(2) Suc.prems(3) obtain key where u: "tree_ok u" "key_of u = Some key" by (auto simp: Cons type_numerals)
    from duplicate_any [OF Suc.prems(1) kid_at(1) [OF S(1) [unfolded Cons]] u(1)] obtain h1 u' where h1:
      "cJSON_Duplicate h (Some (tr_addr u)) True = Inr (Some (tr_addr u'), h1)"
      "holds h1 (u' # Tree a it ks # Tree b bi (xs @ ys) # ts)" "to_json u' = to_json u" by blast
    have "holds h1 (Tree b bi (xs @ ys) # u' # Tree a it ks # ts)" using h1(2) by (rule holds_perm) simp
    from kid_at(2) [OF holds_Cons(1) [OF this, unfolded Cons]] obtain nd1 where nd1:
      "load h1 (Some (tr_addr u)) = Inr nd1" "cj_item nd1 = tr_item u" by blast
    from set_member [OF holds_swap [OF h1(2)] Suc.prems(2), of key] obtain h2 ks2 where h2:
      "LDObjectSetKey_at h1 (Some a) (Some key) (Some (tr_addr u')) = Inr (True, h2)"
      "holds h2 (Tree a it ks2 # Tree b bi (xs @ ys) # ts)"
      "members ks2 = assoc_delete key (members ks) @ [(key, to_json u')]" by blast
    from kid_at(2) [OF holds_Cons(1) [OF holds_swap [OF h2(2)], unfolded Cons]] obtain nd where nd:
      "load h2 (Some (tr_addr u)) = Inr nd" "cj_next nd = hd_ptr us None" by blast
    from Suc.IH [of h2 ks2 "xs @ [u]" us] h2(2) Suc.prems(2-4) obtain h' ks' where
      "merge_loop n h2 (Some a) (hd_ptr us None) = Inr (True, h')"
      "holds h' (Tree a it ks' # Tree b bi (xs @ ys) # ts)"
      "JObject (members ks') = merge_entries (members us) (JObject (members ks2))"
      by (auto simp: Cons)
    with h1 h2 nd nd1 u(2) show ?thesis
      by (auto simp: Cons LDJSONDuplicate_at_def LDIterKey_at_def LDIterNext_at_def)
  qed (use Suc.prems in auto)
qed simp

lemma LDObjectMerge_refines:
  assumes "holds h (t # s # ts)"
  shows "\<exists>h' t'. LDObjectMerge_at h (Some (tr_addr t)) (Some (tr_addr s)) =
      Inr (fst (LDObjectMerge (to_json t) (Some (to_json s))), h') \<and>
    holds h' (t' # s # ts) \<and> tr_addr t' = tr_addr t \<and> to_json t' = snd (LDObjectMerge (to_json t) (Some (to_json s)))"
proof -
  obtain a it ks b bi ys where ts: "t = Tree a it ks" "s = Tree b bi ys" by (cases t; cases s)
  note H = holds_Cons(1,2) [OF assms [unfolded ts]] and S = holds_Cons(1,2) [OF holds_swap [OF assms [unfolded ts]]]
  show ?thesis
  proof (cases "it_type it = cJSON_Object \<and> it_type bi = cJSON_Object")
    case True
    from merge_loop_refines [of h a it ks b bi "[]" ys ts "brk h + 1"] assms True tree_at_kids(4) [OF S(1)]
    obtain h' ks' where "merge_loop (brk h + 1) h (Some a) (hd_ptr ys None) = Inr (True, h')"
      "holds h' (Tree a it ks' # s # ts)" "JObject (members ks') = merge_entries (members ys) (JObject (members ks))"
      by (auto simp: ts)
    moreover have "LDGetIter_at h (Some b) = Inr (hd_ptr ys None)"
      using True is_type_at [OF S]
      by (simp add: LDGetIter_at_def guarded_def is_collection_def cJSON_IsArray_def cJSON_IsObject_def
          tree_at_kids(1) [OF S(1)] type_numerals)
    ultimately show ?thesis
      using True by (intro exI [of _ h'] exI [of _ "Tree a it ks'"])
        (simp add: ts LDObjectMerge_at_def guarded_type_at [OF H] guarded_type_at [OF S]
          to_json_object LDObjectMerge_def del: to_json.simps merge_loop.simps)
  next
    case False
    then have "LDObjectMerge (to_json t) (Some (to_json s)) = (False, to_json t)"
      using tree_kinds(2) [OF H(2)] tree_kinds(2) [OF S(2)]
      by (auto simp: ts LDObjectMerge_def simp del: to_json.simps split: json.splits)
    with False assms show ?thesis
      by (intro exI [of _ h] exI [of _ t])
        (auto simp: ts LDObjectMerge_at_def guarded_type_at [OF H] guarded_type_at [OF S])
  qed
qed

section \<open>Accessors\<close>

lemma is_bool_at:
  "tree_at h pv (Tree a it ks) nx \<Longrightarrow> tree_ok (Tree a it ks) \<Longrightarrow>
     cJSON_IsBool h (Some a) = Inr (it_type it = cJSON_False \<or> it_type it = cJSON_True)"
  by (auto simp: cJSON_IsBool_def tree_at_kids(1) json_types_def type_numerals)

lemma is_collection_at:
  "tree_at h pv (Tree a it ks) nx \<Longrightarrow> tree_ok (Tree a it ks) \<Longrightarrow>
     is_collection h (Some a) = Inr (it_type it = cJSON_Array \<or> it_type it = cJSON_Object)"
  by (simp add: is_collection_def cJSON_IsArray_def cJSON_IsObject_def is_type_at del: tree_ok.simps)

text \<open>Every reader, at any node of a tree, root or not.\<close>

lemma LDJSONGetType_refines:
  assumes "tree_at h pv t nx" and "tree_ok t"
  shows "LDJSONGetType_at h (Some (tr_addr t)) = Inr (LDJSONGetType (Some (to_json t)))"
proof -
  obtain a it ks where t: "t = Tree a it ks" by (cases t)
  from assms have "it_type it \<in> json_types" by (simp add: t)
  then show ?thesis
    using is_type_at [OF assms [unfolded t]] is_bool_at [OF assms [unfolded t]]
    by (auto simp: t LDJSONGetType_at_def cJSON_IsNumber_def cJSON_IsNull_def cJSON_IsObject_def cJSON_IsArray_def
        cJSON_IsString_def json_types_def type_numerals)
qed

lemma LDGet_refines:
  assumes "tree_at h pv t nx" and "tree_ok t"
  shows "LDGetBool_at h (Some (tr_addr t)) = Inr (LDGetBool (Some (to_json t)))"
    and "LDGetNumber_at h (Some (tr_addr t)) = Inr (LDGetNumber (Some (to_json t)))"
    and "LDGetText_at h (Some (tr_addr t)) = Inr (LDGetText (Some (to_json t)))"
    and "LDCollectionGetSize_at h (Some (tr_addr t)) = Inr (LDCollectionGetSize (Some (to_json t)))"
proof -
  obtain a it ks where t: "t = Tree a it ks" by (cases t)
  note A = assms [unfolded t]
  from assms have ty: "it_type it \<in> json_types" "it_type it = cJSON_String \<Longrightarrow> it_valuestring it \<noteq> None" by (simp_all add: t)
  show "LDGetBool_at h (Some (tr_addr t)) = Inr (LDGetBool (Some (to_json t)))"
    using is_type_at [OF A] is_bool_at [OF A] ty
    by (auto simp: t LDGetBool_at_def guarded_def cJSON_IsTrue_def LDGetBool_def json_types_def type_numerals)
  show "LDGetNumber_at h (Some (tr_addr t)) = Inr (LDGetNumber (Some (to_json t)))"
    using ty by (auto simp: t LDGetNumber_at_def guarded_type_at [OF A] tree_at_kids(1) [OF A(1)] LDGetNumber_def
        json_types_def type_numerals)
  show "LDGetText_at h (Some (tr_addr t)) = Inr (LDGetText (Some (to_json t)))"
    using ty by (auto simp: t LDGetText_at_def guarded_type_at [OF A] tree_at_kids(1) [OF A(1)] LDGetText_def
        json_types_def type_numerals)
  show "LDCollectionGetSize_at h (Some (tr_addr t)) = Inr (LDCollectionGetSize (Some (to_json t)))"
    using ty by (auto simp: t LDCollectionGetSize_at_def guarded_def is_collection_at [OF A]
        cJSON_GetArraySize_at [OF A(1)] LDCollectionGetSize_def LDGetIter_def json_types_def type_numerals)
qed

text \<open>The pointer a lookup returns is the child that stands for the value found.\<close>

definition child_found :: "tree \<Rightarrow> json option \<Rightarrow> ptr \<Rightarrow> bool" where
  "child_found t found p \<longleftrightarrow>
     (case found of
        None \<Rightarrow> p = None
      | Some j \<Rightarrow> \<exists>xs u ys. tr_kids t = xs @ u # ys \<and> p = Some (tr_addr u) \<and> to_json u = j)"

lemma LDObjectLookup_refines:
  assumes "tree_at h pv t nx" and "tree_ok t"
  shows "\<exists>p. LDObjectLookup_at h (Some (tr_addr t)) (Some key) = Inr p \<and>
    child_found t (LDObjectLookup (Some (to_json t)) key) p"
proof -
  obtain a it ks where t: "t = Tree a it ks" by (cases t)
  note A = assms [unfolded t]
  show ?thesis
  proof (cases "it_type it = cJSON_Object")
    case True
    with A(2) have K: "\<forall>k \<in> set ks. key_of k \<noteq> None" by (simp add: type_numerals)
    from K show ?thesis
      by (cases rule: member_split [of ks key])
        (auto simp: t LDObjectLookup_at_def guarded_type_at [OF A] True cJSON_GetObjectItemCaseSensitive_def
          get_object_item_at [OF A(1) K] to_json_object child_found_def simp del: to_json.simps)
  next
    case False
    then have "LDObjectLookup (Some (to_json t)) key = None"
      using tree_kinds(2) [OF A(2)] by (auto simp: t LDObjectLookup_def simp del: to_json.simps split: json.splits)
    with False show ?thesis by (simp add: t LDObjectLookup_at_def guarded_type_at [OF A] child_found_def)
  qed
qed

lemma LDArrayLookup_refines:
  assumes "tree_at h pv t nx" and "tree_ok t"
  shows "\<exists>p. LDArrayLookup_at h (Some (tr_addr t)) i = Inr p \<and>
    child_found t (LDArrayLookup (Some (to_json t)) i) p"
proof -
  obtain a it ks where t: "t = Tree a it ks" by (cases t)
  note A = assms [unfolded t]
  show ?thesis
  proof (cases "it_type it = cJSON_Array")
    case True
    have "0 \<le> sint i \<Longrightarrow> nat (sint i) = unat i"
      using uint_sint [of i] sint_lt [of i] by (simp add: take_bit_eq_mod unat_eq_nat_uint)
    then show ?thesis
      using True id_take_nth_drop [of "unat i" ks]
      by (fastforce simp: t LDArrayLookup_at_def guarded_type_at [OF A] cJSON_GetArrayItem_def get_array_item_at [OF A(1)]
          to_json_array child_found_def LDArrayLookup_def Cons_nth_drop_Suc [symmetric] simp del: to_json.simps)
  next
    case False
    then have "LDArrayLookup (Some (to_json t)) i = None"
      using tree_kinds(1) [OF A(2)] by (auto simp: t LDArrayLookup_def simp del: to_json.simps split: json.splits)
    with False show ?thesis by (simp add: t LDArrayLookup_at_def guarded_type_at [OF A] child_found_def)
  qed
qed

section \<open>Construction\<close>

lemma LDNew_refines:
  assumes "holds h ts"
  shows "\<exists>h' t. LDNewNull_at h = (Some (tr_addr t), h') \<and> holds h' (t # ts) \<and> to_json t = JNull"
    and "\<exists>h' t. LDNewBool_at h b = (Some (tr_addr t), h') \<and> holds h' (t # ts) \<and> to_json t = JBool b"
    and "\<exists>h' t. LDNewNumber_at h x = (Some (tr_addr t), h') \<and> holds h' (t # ts) \<and> to_json t = JNumber x"
    and "\<exists>h' t. LDNewText_at h (Some s) = Inr (Some (tr_addr t), h') \<and> holds h' (t # ts) \<and> to_json t = JText s"
    and "\<exists>h' t. LDNewObject_at h = (Some (tr_addr t), h') \<and> holds h' (t # ts) \<and> to_json t = JObject []"
    and "\<exists>h' t. LDNewArray_at h = (Some (tr_addr t), h') \<and> holds h' (t # ts) \<and> to_json t = JArray []"
proof -
  have new: "\<exists>h' t. as_ptr (create h it) = (Some (tr_addr t), h') \<and> holds h' (t # ts) \<and> to_json t = j"
    if "\<And>a. tree_ok (Tree a it [])" "\<And>a. to_json (Tree a it []) = j" for it j
    using holds_grown [OF assms, of "Tree (fst (create h it)) it []" "snd (create h it)"]
      create_at [OF holds_Cons(3) [OF assms], of it] that
    by (intro exI [of _ "snd (create h it)"] exI [of _ "Tree (fst (create h it)) it []"])
      (simp del: to_json.simps tree_ok.simps)
  show "\<exists>h' t. LDNewNull_at h = (Some (tr_addr t), h') \<and> holds h' (t # ts) \<and> to_json t = JNull"
    unfolding LDNewNull_at_def cJSON_CreateNull_def by (rule new) (simp_all add: json_types_def type_numerals)
  show "\<exists>h' t. LDNewBool_at h b = (Some (tr_addr t), h') \<and> holds h' (t # ts) \<and> to_json t = JBool b"
    unfolding LDNewBool_at_def cJSON_CreateBool_def by (rule new) (simp_all add: json_types_def type_numerals)
  show "\<exists>h' t. LDNewNumber_at h x = (Some (tr_addr t), h') \<and> holds h' (t # ts) \<and> to_json t = JNumber x"
    unfolding LDNewNumber_at_def cJSON_CreateNumber_def by (rule new) (simp_all add: json_types_def type_numerals)
  have "LDNewText_at h (Some s) = Inr (as_ptr (create h (zero_item\<lparr>it_type := cJSON_String, it_valuestring := Some s\<rparr>)))"
    by (simp add: LDNewText_at_def cJSON_CreateString_def create_text_def case_prod_beta)
  moreover have "\<exists>h' t. as_ptr (create h (zero_item\<lparr>it_type := cJSON_String, it_valuestring := Some s\<rparr>)) =
      (Some (tr_addr t), h') \<and> holds h' (t # ts) \<and> to_json t = JText s"
    by (rule new) (simp_all add: json_types_def type_numerals)
  ultimately show "\<exists>h' t. LDNewText_at h (Some s) = Inr (Some (tr_addr t), h') \<and> holds h' (t # ts) \<and> to_json t = JText s"
    by simp
  show "\<exists>h' t. LDNewObject_at h = (Some (tr_addr t), h') \<and> holds h' (t # ts) \<and> to_json t = JObject []"
    unfolding LDNewObject_at_def cJSON_CreateObject_def by (rule new) (simp_all add: json_types_def type_numerals)
  show "\<exists>h' t. LDNewArray_at h = (Some (tr_addr t), h') \<and> holds h' (t # ts) \<and> to_json t = JArray []"
    unfolding LDNewArray_at_def cJSON_CreateArray_def by (rule new) (simp_all add: json_types_def type_numerals)
qed

lemma LDSetNumber_refines:
  assumes "holds h (t # ts)"
  shows "\<exists>h' t'. LDSetNumber_at h (Some (tr_addr t)) x = Inr (fst (LDSetNumber (to_json t) x), h') \<and>
    holds h' (t' # ts) \<and> tr_addr t' = tr_addr t \<and> to_json t' = snd (LDSetNumber (to_json t) x)"
proof -
  obtain a it ks where t: "t = Tree a it ks" by (cases t)
  note H = holds_Cons(1,2) [OF assms [unfolded t]]
  have g: "cJSON_IsNumber h (Some a) = Inr (it_type it = cJSON_Number)"
    using is_type_at [OF H] by (simp add: cJSON_IsNumber_def)
  show ?thesis
  proof (cases "it_type it = cJSON_Number")
    case True
    let ?t = "Tree a (it\<lparr>it_valuedouble := x\<rparr>) ks"
    let ?h = "upd h a \<lparr>cj_next = None, cj_prev = None, cj_child = hd_ptr ks None, cj_item = it\<lparr>it_valuedouble := x\<rparr>\<rparr>"
    from H(1) have m: "mem h a = Some \<lparr>cj_next = None, cj_prev = None, cj_child = hd_ptr ks None, cj_item = it\<rparr>"
      by (simp add: tree_at_def)
    have c: "changed {a} h ?h" using m by (intro changed_upd) simp
    have "tree_at ?h None ?t None" using H(1) bounded_changed [OF c] by (simp add: tree_at_def)
    moreover have "tree_ok ?t" using H(2) by simp
    ultimately have "holds ?h ([?t] @ ts)"
      using assms changed_mono [OF c, of "set (addrs [t])"]
      by (rule_tac holds_changed [of h "[t]"]) (auto simp: t holds_def tree_at_def)
    then show ?thesis
      using True m g by (intro exI [of _ ?h] exI [of _ ?t])
        (simp add: t LDSetNumber_at_def LDSetNumber_def type_numerals)
  next
    case False
    then have "LDSetNumber (to_json t) x = (False, to_json t)"
      using tree_kinds(3) [OF H(2)] by (auto simp: t LDSetNumber_def simp del: to_json.simps split: json.splits)
    with False assms g show ?thesis
      by (intro exI [of _ h] exI [of _ t]) (simp add: t LDSetNumber_at_def)
  qed
qed

lemma LDCollectionDetachIter_refines:
  assumes "holds h (Tree a it (xs @ u # ys) # ts)"
  shows "\<exists>h'. LDCollectionDetachIter_at h (Some a) (Some (tr_addr u)) = Inr (Some (tr_addr u), h') \<and>
    holds h' (Tree a it (xs @ ys) # u # ts)"
proof -
  note H = holds_Cons(1,2) [OF assms]
  from cJSON_DetachItemViaPointer_at [OF H(1)] obtain h' where h':
    "cJSON_DetachItemViaPointer h (Some a) (Some (tr_addr u)) = Inr (Some (tr_addr u), h')"
    "tree_at h' None (Tree a it (xs @ ys)) None" "tree_at h' None u None"
    "changed (set (addrs_of (Tree a it (xs @ u # ys)))) h h'" by blast
  have "holds h' ([Tree a it (xs @ ys), u] @ ts)"
    using assms h'(2-4) tree_ok_sub [OF H(2)]
    by (rule_tac holds_changed [of h "[Tree a it (xs @ u # ys)]"]) (auto simp: holds_def tree_at_def)
  moreover have "it_type it = cJSON_Array \<or> it_type it = cJSON_Object" using H(2) by auto
  ultimately show ?thesis
    using h'(1) by (simp add: LDCollectionDetachIter_at_def guarded_def is_collection_at [OF H])
qed

section \<open>Misuse\<close>

text \<open>
  Appending a non-empty array to itself never ends: every copy is one more element to visit.
\<close>

lemma append_self_diverges:
  "holds h (Tree a it (xs @ u # ys) # ts) \<Longrightarrow> it_type it = cJSON_Array \<Longrightarrow>
     append_loop n h (Some a) (Some (tr_addr u)) = Inl OutOfFuel"
proof (induction n arbitrary: h xs u ys)
  case (Suc n)
  note H = holds_Cons(1,2) [OF Suc.prems(1)]
  from duplicate_any [OF Suc.prems(1) kid_at(1) [OF H(1)] tree_ok_sub(2) [OF H(2)]] obtain h1 u' where h1:
    "cJSON_Duplicate h (Some (tr_addr u)) True = Inr (Some (tr_addr u'), h1)"
    "holds h1 (u' # Tree a it (xs @ u # ys) # ts)" by blast
  from push_member [OF holds_swap [OF h1(2)] Suc.prems(2)] obtain h2 where h2:
    "cJSON_AddItemToArray h1 (Some a) (Some (tr_addr u')) = Inr h2" "holds h2 (Tree a it (xs @ u # ys @ [u']) # ts)"
    by auto
  from kid_at(2) [OF holds_Cons(1) [OF h2(2)]] obtain nd where nd:
    "load h2 (Some (tr_addr u)) = Inr nd" "cj_next nd = hd_ptr (ys @ [u']) None" by blast
  obtain v vs where v: "ys @ [u'] = v # vs" by (cases "ys @ [u']") auto
  from Suc.IH [of h2 "xs @ [u]" v vs] h2(2) Suc.prems(2) v
  have "append_loop n h2 (Some a) (Some (tr_addr v)) = Inl OutOfFuel" by simp
  with h1(1) h2(1) nd v show ?case by simp
qed simp

lemma insert_null_crashes:
  "tree_at h pv (Tree a it (xs @ s # ys)) nx \<Longrightarrow>
     cJSON_InsertItemInArray h (Some a) (int (length xs)) None = Inl NullPointer"
  by (simp add: cJSON_InsertItemInArray_def get_array_item_at set_next_def modify_def)

text \<open>A replacement for a key that is not there is reported as made, and belongs to nobody.\<close>

lemma replace_missing_dropped:
  assumes "holds h (Tree a it ks # u # ts)" and "it_type it = cJSON_Object" and "map_of (members ks) key = None"
  shows "\<exists>h'. replace_item_in_object h (Some a) (Some key) (Some (tr_addr u)) True = Inr (True, h') \<and>
    holds h' (Tree a it ks # rekey key u # ts)"
proof -
  note H = holds_Cons(1,2,4) [OF assms(1)] and U = holds_Cons(1,2) [OF holds_swap [OF assms(1)]]
  from rekey_at [OF U(1), of key] obtain h1 where h1:
    "modify h (Some (tr_addr u)) (\<lambda>nd. nd\<lparr>cj_item := (cj_item nd)\<lparr>it_string := Some key,
      it_type := it_type (cj_item nd) AND NOT cJSON_StringIsConst\<rparr>\<rparr>) = Inr h1"
    "tree_at h1 None (rekey key u) None" "changed {tr_addr u} h h1" by blast
  have A: "tree_at h1 None (Tree a it ks) None"
    using H(1) h1(3) by (rule tree_at_changed) (use H(3) tr_addr_in [of u] in auto)
  have K: "\<forall>k \<in> set ks. key_of k \<noteq> None" using H(2) assms(2) by (simp add: type_numerals)
  have "get_object_item h1 (Some a) (Some key) True = Inr None"
    using K
  proof (cases rule: member_split [of ks key])
    case none
    then show ?thesis by (simp add: get_object_item_at [OF A K])
  next
    case some
    show ?thesis using some(3) assms(3) by simp
  qed
  then have "replace_item_in_object h (Some a) (Some key) (Some (tr_addr u)) True = Inr (True, h1)"
    using h1(1) by (simp add: replace_item_in_object_def cJSON_ReplaceItemViaPointer_def del: modify_Some)
  moreover have "holds h1 ([Tree a it ks, rekey key u] @ ts)"
    using assms(1) A h1(2) changed_mono [OF h1(3), of "set (addrs [Tree a it ks, u])"]
    by (rule_tac holds_changed [of h "[Tree a it ks, u]"]) (auto simp: holds_def)
  ultimately show ?thesis by auto
qed

end
