(* ===== verification/LD_JSON_Calls.thy ===== *)
theory LD_JSON_Calls
  imports LD_JSON_Heap_Laws
begin

text \<open>
  Clients of json.c: sequences of its calls on trees the client owns, kept in a stack. The same
  sequence runs on memory and on values; it never faults in memory, and what it leaves there
  are the trees of the values and nothing else.
\<close>

datatype call =
    Focus nat
  | NewNull | NewBool bool | NewNumber rat | NewText string | NewObject | NewArray
  | Free | Duplicate | SetNumber rat
  | ArrayPush | ArrayAppend | ObjectSetKey string | ObjectDeleteKey string | ObjectDetachKey string | ObjectMerge

text \<open>An element of the stack comes to the top.\<close>

definition front :: "nat \<Rightarrow> 'a list \<Rightarrow> 'a list" where
  "front i xs = (if i < length xs then xs ! i # take i xs @ drop (Suc i) xs else xs)"

text \<open>The calls on values. A call without its operands does nothing.\<close>

fun call_value :: "call \<Rightarrow> json list \<Rightarrow> json list" where
  "call_value (Focus i) ts = front i ts"
| "call_value NewNull ts = JNull # ts"
| "call_value (NewBool b) ts = JBool b # ts"
| "call_value (NewNumber x) ts = JNumber x # ts"
| "call_value (NewText s) ts = JText s # ts"
| "call_value NewObject ts = JObject [] # ts"
| "call_value NewArray ts = JArray [] # ts"
| "call_value Free (t # ts) = ts"
| "call_value Duplicate (t # ts) = t # t # ts"
| "call_value (SetNumber x) (t # ts) = snd (LDSetNumber t x) # ts"
| "call_value (ObjectDeleteKey k) (t # ts) = LDObjectDeleteKey t k # ts"
| "call_value (ObjectDetachKey k) (t # ts) =
     snd (LDObjectDetachKey t k) # (case fst (LDObjectDetachKey t k) of None \<Rightarrow> ts | Some v \<Rightarrow> v # ts)"
| "call_value ArrayPush (t # u # ts) =
     snd (LDArrayPush t (Some u)) # (if fst (LDArrayPush t (Some u)) then ts else u # ts)"
| "call_value (ObjectSetKey k) (t # u # ts) =
     snd (LDObjectSetKey t (Some k) (Some u)) # (if fst (LDObjectSetKey t (Some k) (Some u)) then ts else u # ts)"
| "call_value ArrayAppend (t # s # ts) = snd (LDArrayAppend t (Some s)) # s # ts"
| "call_value ObjectMerge (t # s # ts) = snd (LDObjectMerge t (Some s)) # s # ts"
| "call_value c ts = ts"

text \<open>
  The calls on memory, with the pointers the client keeps. A tree that a call took over is no
  longer the client's.
\<close>

fun call_heap :: "call \<Rightarrow> ptr list \<times> memory \<Rightarrow> (ptr list \<times> memory) run" where
  "call_heap (Focus i) (ps, h) = Inr (front i ps, h)"
| "call_heap NewNull (ps, h) = (let (p, h) = LDNewNull_at h in Inr (p # ps, h))"
| "call_heap (NewBool b) (ps, h) = (let (p, h) = LDNewBool_at h b in Inr (p # ps, h))"
| "call_heap (NewNumber x) (ps, h) = (let (p, h) = LDNewNumber_at h x in Inr (p # ps, h))"
| "call_heap (NewText s) (ps, h) = run_bind (LDNewText_at h (Some s)) (\<lambda>(p, h). Inr (p # ps, h))"
| "call_heap NewObject (ps, h) = (let (p, h) = LDNewObject_at h in Inr (p # ps, h))"
| "call_heap NewArray (ps, h) = (let (p, h) = LDNewArray_at h in Inr (p # ps, h))"
| "call_heap Free (p # ps, h) = run_bind (LDJSONFree_at h p) (\<lambda>h. Inr (ps, h))"
| "call_heap Duplicate (p # ps, h) = run_bind (LDJSONDuplicate_at h p) (\<lambda>(q, h). Inr (q # p # ps, h))"
| "call_heap (SetNumber x) (p # ps, h) = run_bind (LDSetNumber_at h p x) (\<lambda>(_, h). Inr (p # ps, h))"
| "call_heap (ObjectDeleteKey k) (p # ps, h) = run_bind (LDObjectDeleteKey_at h p (Some k)) (\<lambda>h. Inr (p # ps, h))"
| "call_heap (ObjectDetachKey k) (p # ps, h) =
     run_bind (LDObjectDetachKey_at h p (Some k)) (\<lambda>(q, h). Inr (p # (if q = None then ps else q # ps), h))"
| "call_heap ArrayPush (p # q # ps, h) =
     run_bind (LDArrayPush_at h p q) (\<lambda>(taken, h). Inr (p # (if taken then ps else q # ps), h))"
| "call_heap (ObjectSetKey k) (p # q # ps, h) =
     run_bind (LDObjectSetKey_at h p (Some k) q) (\<lambda>(taken, h). Inr (p # (if taken then ps else q # ps), h))"
| "call_heap ArrayAppend (p # q # ps, h) = run_bind (LDArrayAppend_at h p q) (\<lambda>(_, h). Inr (p # q # ps, h))"
| "call_heap ObjectMerge (p # q # ps, h) = run_bind (LDObjectMerge_at h p q) (\<lambda>(_, h). Inr (p # q # ps, h))"
| "call_heap c s = Inr s"

text \<open>Calls one after the other, up to the first fault.\<close>

fun run_all :: "('c \<Rightarrow> 's \<Rightarrow> 's run) \<Rightarrow> 'c list \<Rightarrow> 's \<Rightarrow> 's run" where
  "run_all f [] s = Inr s"
| "run_all f (c # cs) s = run_bind (f c s) (run_all f cs)"

definition calls_heap :: "call list \<Rightarrow> ptr list \<times> memory \<Rightarrow> (ptr list \<times> memory) run" where
  "calls_heap cs s = run_all call_heap cs s"

definition calls_value :: "call list \<Rightarrow> json list \<Rightarrow> json list" where
  "calls_value cs ts = fold call_value cs ts"

text \<open>The client's pointers are the roots of the trees in memory.\<close>

abbreviation roots :: "tree list \<Rightarrow> ptr list" where
  "roots ts \<equiv> map (\<lambda>t. Some (tr_addr t)) ts"

lemma map_front: "map f (front i xs) = front i (map f xs)"
  by (simp add: front_def take_map drop_map)

lemma mset_front: "mset (front i xs) = mset xs"
  by (simp add: front_def flip: mset_append) (metis Cons_nth_drop_Suc append_take_drop_id mset.simps(2) mset_append union_mset_add_mset_right)

text \<open>What a call has to show: it ends in a memory that holds the trees of the new values.\<close>

definition call_ok :: "call \<Rightarrow> tree list \<Rightarrow> memory \<Rightarrow> bool" where
  "call_ok c ts h \<longleftrightarrow>
     (\<exists>h' ts'. call_heap c (roots ts, h) = Inr (roots ts', h') \<and> holds h' ts' \<and>
        map to_json ts' = call_value c (map to_json ts))"

lemma call_okI:
  "holds h' ts' \<Longrightarrow> call_heap c (roots ts, h) = Inr (roots ts', h') \<Longrightarrow>
     map to_json ts' = call_value c (map to_json ts) \<Longrightarrow> call_ok c ts h"
  by (auto simp: call_ok_def)

lemma call_ok_front: "holds h ts \<Longrightarrow> call_ok (Focus i) ts h"
  by (rule call_okI [of _ "front i ts"]) (auto simp: map_front elim: holds_perm intro: mset_front)

lemma call_ok_new:
  assumes "holds h ts"
  shows "call_ok NewNull ts h" "call_ok (NewBool b) ts h" "call_ok (NewNumber x) ts h" "call_ok (NewText s) ts h"
    "call_ok NewObject ts h" "call_ok NewArray ts h"
proof -
  from LDNew_refines(1) [OF assms] show "call_ok NewNull ts h"
    by - (elim exE conjE, rule call_okI, assumption, auto)
  from LDNew_refines(2) [OF assms, of b] show "call_ok (NewBool b) ts h"
    by - (elim exE conjE, rule call_okI, assumption, auto)
  from LDNew_refines(3) [OF assms, of x] show "call_ok (NewNumber x) ts h"
    by - (elim exE conjE, rule call_okI, assumption, auto)
  from LDNew_refines(4) [OF assms, of s] show "call_ok (NewText s) ts h"
    by - (elim exE conjE, rule call_okI, assumption, auto)
  from LDNew_refines(5) [OF assms] show "call_ok NewObject ts h"
    by - (elim exE conjE, rule call_okI, assumption, auto)
  from LDNew_refines(6) [OF assms] show "call_ok NewArray ts h"
    by - (elim exE conjE, rule call_okI, assumption, auto)
qed

lemma call_ok_one:
  assumes "holds h (t # ts)"
  shows "call_ok Free (t # ts) h" "call_ok Duplicate (t # ts) h" "call_ok (SetNumber x) (t # ts) h"
    "call_ok (ObjectDeleteKey k) (t # ts) h"
proof -
  from LDJSONFree_refines [OF assms] show "call_ok Free (t # ts) h"
    by - (elim exE conjE, rule call_okI, assumption, auto)
  from LDJSONDuplicate_refines [OF assms] show "call_ok Duplicate (t # ts) h"
    by - (elim exE conjE, rule call_okI, assumption, auto)
  from LDSetNumber_refines [OF assms, of x] show "call_ok (SetNumber x) (t # ts) h"
    by - (elim exE conjE, rule call_okI, assumption, auto)
  from LDObjectDeleteKey_refines [OF assms, of k] show "call_ok (ObjectDeleteKey k) (t # ts) h"
    by - (elim exE conjE, rule call_okI, assumption, auto)
qed

lemma call_ok_detach:
  assumes "holds h (t # ts)"
  shows "call_ok (ObjectDetachKey k) (t # ts) h"
proof -
  from LDObjectDetachKey_refines [OF assms, of k] obtain h' t' us where r:
    "LDObjectDetachKey_at h (Some (tr_addr t)) (Some k) = Inr (hd_ptr us None, h')" "holds h' (t' # us @ ts)"
    "tr_addr t' = tr_addr t" "to_json t' = snd (LDObjectDetachKey (to_json t) k)"
    "case fst (LDObjectDetachKey (to_json t) k) of None \<Rightarrow> us = [] | Some v \<Rightarrow> \<exists>u. us = [u] \<and> to_json u = v" by blast
  then show ?thesis
    by (intro call_okI [OF r(2)]) (auto split: option.splits)
qed

lemma call_ok_two:
  assumes "holds h (t # u # ts)"
  shows "call_ok ArrayPush (t # u # ts) h" "call_ok (ObjectSetKey k) (t # u # ts) h"
    "call_ok ArrayAppend (t # u # ts) h" "call_ok ObjectMerge (t # u # ts) h"
proof -
  from LDArrayPush_refines [OF assms] show "call_ok ArrayPush (t # u # ts) h"
    by - (elim exE conjE, rule call_okI, assumption, auto)
  from LDObjectSetKey_refines [OF assms, of k] show "call_ok (ObjectSetKey k) (t # u # ts) h"
    by - (elim exE conjE, rule call_okI, assumption, auto)
  from LDArrayAppend_refines [OF assms] show "call_ok ArrayAppend (t # u # ts) h"
    by - (elim exE conjE, rule call_okI, assumption, auto)
  from LDObjectMerge_refines [OF assms] show "call_ok ObjectMerge (t # u # ts) h"
    by - (elim exE conjE, rule call_okI, assumption, auto)
qed

text \<open>Calls that find too few trees.\<close>

lemma call_ok_none:
  assumes "holds h []"
  shows "call_ok Free [] h" "call_ok Duplicate [] h" "call_ok (SetNumber x) [] h" "call_ok (ObjectDeleteKey k) [] h"
    "call_ok (ObjectDetachKey k) [] h" "call_ok ArrayPush [] h" "call_ok (ObjectSetKey k) [] h"
    "call_ok ArrayAppend [] h" "call_ok ObjectMerge [] h"
  by (rule call_okI [OF assms]; simp)+

lemma call_ok_single:
  assumes "holds h [t]"
  shows "call_ok ArrayPush [t] h" "call_ok (ObjectSetKey k) [t] h" "call_ok ArrayAppend [t] h" "call_ok ObjectMerge [t] h"
  by (rule call_okI [OF assms]; simp)+

lemma call_refines:
  assumes "holds h ts"
  shows "call_ok c ts h"
proof -
  consider "ts = []" | t where "ts = [t]" | t u us where "ts = t # u # us"
    by (cases ts rule: list.exhaust; cases "tl ts") auto
  then show ?thesis
  proof cases
    case 1
    with assms show ?thesis by (cases c) (simp_all add: call_ok_front call_ok_new call_ok_none)
  next
    case 2
    with assms show ?thesis
      by (cases c) (simp_all add: call_ok_front call_ok_new call_ok_one call_ok_detach call_ok_single)
  next
    case 3
    with assms show ?thesis
      by (cases c) (simp_all add: call_ok_front call_ok_new call_ok_one call_ok_detach call_ok_two)
  qed
qed

definition empty_memory :: memory where
  "empty_memory = \<lparr>mem = (\<lambda>_. None), brk = 0\<rparr>"

lemma holds_empty: "holds empty_memory []"
  by (simp add: holds_def bounded_def empty_memory_def)

section \<open>Sequences\<close>

text \<open>
  The contract of an implementation whose calls may fault with a specification whose calls
  cannot: from related states every call returns, to related states again. Then so does every
  sequence of calls.
\<close>

locale total_simulation =
  fixes conc :: "'c \<Rightarrow> 's \<Rightarrow> 's run" and spec :: "'c \<Rightarrow> 'a \<Rightarrow> 'a" and rel :: "'s \<Rightarrow> 'a \<Rightarrow> bool"
  assumes step: "rel s a \<Longrightarrow> \<exists>s'. conc c s = Inr s' \<and> rel s' (spec c a)"
begin

lemma steps: "rel s a \<Longrightarrow> \<exists>s'. run_all conc cs s = Inr s' \<and> rel s' (fold spec cs a)"
proof (induction cs arbitrary: s a)
  case (Cons c cs)
  from step [OF Cons.prems, of c] obtain s' where "conc c s = Inr s'" "rel s' (spec c a)" by blast
  with Cons.IH [of s' "spec c a"] show ?case by simp
qed simp

end

definition json_rel :: "ptr list \<times> memory \<Rightarrow> json list \<Rightarrow> bool" where
  "json_rel s js \<longleftrightarrow> (\<exists>ts. fst s = roots ts \<and> holds (snd s) ts \<and> map to_json ts = js)"

interpretation heap: total_simulation call_heap call_value json_rel
proof
  fix s js c
  assume "json_rel s js"
  then obtain ts h where s: "s = (roots ts, h)" "holds h ts" "map to_json ts = js"
    by (cases s) (auto simp: json_rel_def)
  from call_refines [OF s(2), of c] s(3) show "\<exists>s'. call_heap c s = Inr s' \<and> json_rel s' (call_value c js)"
    by (fastforce simp: call_ok_def json_rel_def s(1))
qed

text \<open>
  C10: Any sequence of json.c calls on trees the client owns, from an empty memory, runs on the
  nodes without touching freed memory, dereferencing \<open>NULL\<close> or looping forever; the trees it
  leaves have the values the same calls compute on values, and the live nodes are exactly the
  nodes of these trees, so that nothing leaks.\<close>

theorem json_calls_refine:
  "\<exists>h ts. calls_heap cs ([], empty_memory) = Inr (roots ts, h) \<and> map to_json ts = calls_value cs [] \<and>
     list_all (\<lambda>t. seg h None [t] None) ts \<and> distinct (addrs ts) \<and> dom (mem h) = set (addrs ts)"
proof -
  have "json_rel ([], empty_memory) []" using holds_empty by (simp add: json_rel_def)
  from heap.steps [OF this, of cs] show ?thesis
    by (auto simp: calls_heap_def calls_value_def json_rel_def holds_def tree_at_def list_all_iff)
qed

end
