(* ===== verification/LD_CJSON_Minify.thy ===== *)
theory LD_CJSON_Minify
  imports LD_CJSON_Roundtrip
begin

text \<open>
  \<open>cJSON_Minify\<close> of c-sdk-common/src/cJSON.c: white space and comments go, strings stay. The text
  is rewritten in place; the bytes written never overtake the bytes read, so input and
  output are separate strings here. Minifying the formatted text of a tree gives its
  unformatted text, unless a string ends in a backslash.
\<close>

section \<open>The code\<close>

text \<open>What is left of the input behind a comment.\<close>

fun oneline_loop :: "string \<Rightarrow> string" where
  "oneline_loop [] = []"
| "oneline_loop (c # s) = (if c = CHR 0x0A then s else oneline_loop s)"

definition skip_oneline_comment :: "string \<Rightarrow> string" where
  "skip_oneline_comment input = oneline_loop (drop 2 input)"

fun multiline_loop :: "string \<Rightarrow> string" where
  "multiline_loop [] = []"
| "multiline_loop (c # s) = (if c = CHR ''*'' \<and> s \<noteq> [] \<and> hd s = CHR ''/'' then tl s else multiline_loop s)"

definition skip_multiline_comment :: "string \<Rightarrow> string" where
  "skip_multiline_comment input = multiline_loop (drop 2 input)"

text \<open>The output and the rest of the input, behind the opening quote and from it.\<close>

fun minify_string_loop :: "string \<Rightarrow> string \<times> string" where
  "minify_string_loop [] = ([], [])"
| "minify_string_loop (c # s) =
     (if c = CHR 0x22 then ([c], s)
      else if c = CHR 0x5C \<and> s \<noteq> [] \<and> hd s = CHR 0x22 then
        let (out, rest) = minify_string_loop (tl s) in (c # hd s # out, rest)
      else let (out, rest) = minify_string_loop s in (c # out, rest))"

definition minify_string :: "string \<Rightarrow> string \<times> string" where
  "minify_string input = (let (out, rest) = minify_string_loop (tl input) in (hd input # out, rest))"

lemma length_oneline_loop: "length (oneline_loop s) \<le> length s"
  by (induction s) auto

lemma length_multiline_loop: "length (multiline_loop s) \<le> length s"
  by (induction s) auto

lemma length_minify_string_loop: "length (fst (minify_string_loop s)) + length (snd (minify_string_loop s)) \<le> length s"
  by (induction s rule: minify_string_loop.induct) (auto simp: neq_Nil_conv split: prod.splits)

function cJSON_Minify :: "string \<Rightarrow> string" where
  "cJSON_Minify [] = []"
| "cJSON_Minify (c # s) =
     (if c \<in> {CHR '' '', CHR 0x09, CHR 0x0D, CHR 0x0A} then cJSON_Minify s
      else if c = CHR ''/'' then
        if s \<noteq> [] \<and> hd s = CHR ''/'' then cJSON_Minify (skip_oneline_comment (c # s))
        else if s \<noteq> [] \<and> hd s = CHR ''*'' then cJSON_Minify (skip_multiline_comment (c # s))
        else cJSON_Minify s
      else if c = CHR 0x22 then
        let (out, rest) = minify_string (c # s) in out @ cJSON_Minify rest
      else c # cJSON_Minify s)"
  by pat_completeness auto
termination
proof (relation "measure length", goal_cases)
  case (3 c s)
  then show ?case
    using length_oneline_loop [of "tl s"] by (cases s) (auto simp: skip_oneline_comment_def)
next
  case (4 c s)
  then show ?case
    using length_multiline_loop [of "tl s"] by (cases s) (auto simp: skip_multiline_comment_def)
next
  case (6 c s out rest)
  then show ?case
    using length_minify_string_loop [of s] by (auto simp: minify_string_def split: prod.splits)
qed auto

declare cJSON_Minify.simps(2) [simp del]

section \<open>In place\<close>

text \<open>What is written is never longer than what was read.\<close>

lemma length_minify: "length (cJSON_Minify s) \<le> length s"
proof (induction s rule: cJSON_Minify.induct)
  case (2 c s)
  have one: "length (skip_oneline_comment (c # s)) \<le> length s"
    using length_oneline_loop [of "drop 1 s"] by (simp add: skip_oneline_comment_def)
  have multi: "length (skip_multiline_comment (c # s)) \<le> length s"
    using length_multiline_loop [of "drop 1 s"] by (simp add: skip_multiline_comment_def)
  obtain out rest where m: "minify_string (c # s) = (out, rest)" by (cases "minify_string (c # s)")
  then have "length out + length rest \<le> Suc (length s)"
    using length_minify_string_loop [of s] by (auto simp: minify_string_def split: prod.splits)
  moreover have "length (cJSON_Minify rest) \<le> length rest" if "c = CHR 0x22"
    using that m by (intro 2(5)) auto
  ultimately show ?case
    using 2(1-4,6) one multi m by (auto simp: cJSON_Minify.simps(2))
qed simp

section \<open>Printed texts\<close>

lemma minify_blank [simp]:
  "cJSON_Minify (CHR '' '' # s) = cJSON_Minify s" "cJSON_Minify (CHR 0x09 # s) = cJSON_Minify s"
  "cJSON_Minify (CHR 0x0A # s) = cJSON_Minify s"
  by (simp_all add: cJSON_Minify.simps(2))

lemma minify_plain:
  "c \<notin> {CHR '' '', CHR 0x09, CHR 0x0D, CHR 0x0A, CHR ''/'', CHR 0x22} \<Longrightarrow> cJSON_Minify (c # s) = c # cJSON_Minify s"
  by (simp add: cJSON_Minify.simps(2))

lemma minify_plains:
  "\<forall>c \<in> set t. c \<notin> {CHR '' '', CHR 0x09, CHR 0x0D, CHR 0x0A, CHR ''/'', CHR 0x22} \<Longrightarrow>
     cJSON_Minify (t @ s) = t @ cJSON_Minify s"
  by (induction t) (simp_all add: minify_plain)

lemma minify_tabs [simp]: "cJSON_Minify (tabs d @ s) = cJSON_Minify s"
  by (induction d) simp_all

text \<open>A string whose last character is not a backslash.\<close>

definition closes :: "string \<Rightarrow> bool" where
  "closes s \<longleftrightarrow> s = [] \<or> last s \<noteq> CHR 0x5C"

lemma escaped_head: "escape_char c \<noteq> [] \<and> hd (escape_char c) \<noteq> CHR 0x22"
  by (auto simp: escape_char_def short_escape_def)

lemma minify_copy:
  "c \<noteq> CHR 0x22 \<Longrightarrow> c \<noteq> CHR 0x5C \<or> s = [] \<or> hd s \<noteq> CHR 0x22 \<Longrightarrow>
     minify_string_loop (c # s) = (c # fst (minify_string_loop s), snd (minify_string_loop s))"
  by (auto split: prod.splits)

lemma minify_escape_quote:
  "minify_string_loop (CHR 0x5C # CHR 0x22 # s) =
     (CHR 0x5C # CHR 0x22 # fst (minify_string_loop s), snd (minify_string_loop s))"
  by (simp split: prod.splits)

lemma short_escape_letter:
  "short_escape c = Some e \<Longrightarrow> c \<noteq> CHR 0x22 \<Longrightarrow> c \<noteq> CHR 0x5C \<Longrightarrow> e \<noteq> CHR 0x22 \<and> e \<noteq> CHR 0x5C"
  by (auto simp: short_escape_def split: if_splits)

lemma minify_string_text:
  "closes s \<Longrightarrow> minify_string_loop (concat (map escape_char s) @ CHR 0x22 # rest) =
     (concat (map escape_char s) @ [CHR 0x22], rest)"
proof (induction s)
  case (Cons c s)
  let ?t = "concat (map escape_char s) @ CHR 0x22 # rest"
  have "closes s" using Cons.prems by (auto simp: closes_def split: if_splits)
  note IH = Cons.IH [OF this]
  consider (quote) "c = CHR 0x22" | (backslash) "c = CHR 0x5C" | (short) e where "short_escape c = Some e" "e \<noteq> CHR 0x22" "e \<noteq> CHR 0x5C"
    | (code) "short_escape c = None" "(of_char c :: nat) < 32" | (plain) "short_escape c = None" "\<not> (of_char c :: nat) < 32"
    using short_escape_letter [of c] by (cases "short_escape c") auto
  then show ?case
  proof cases
    case quote
    then have "escape_char c = [CHR 0x5C, CHR 0x22]" by (simp add: escape_char_def short_escape_def)
    then show ?thesis by (simp add: minify_escape_quote IH del: minify_string_loop.simps)
  next
    case backslash
    with Cons.prems have "s \<noteq> []" by (auto simp: closes_def)
    then have "hd ?t \<noteq> CHR 0x22" using escaped_head [of "hd s"] by (cases s) auto
    moreover have "escape_char c = [CHR 0x5C, CHR 0x5C]" by (simp add: backslash escape_char_def short_escape_def)
    ultimately show ?thesis by (simp add: minify_copy IH del: minify_string_loop.simps)
  next
    case short
    then have "escape_char c = [CHR 0x5C, e]" by (simp add: escape_char_def)
    with short show ?thesis by (simp add: minify_copy IH del: minify_string_loop.simps)
  next
    case code
    have h: "hex_char n \<noteq> CHR 0x22 \<and> hex_char n \<noteq> CHR 0x5C" if "n < 16" for n
      using that hex_nibble_char [of n] by (auto simp: hex_nibble_def)
    have "(of_char c :: nat) div 16 < 16" "(of_char c :: nat) mod 16 < 16" using code by simp_all
    moreover have "escape_char c = [CHR 0x5C, CHR ''u'', CHR ''0'', CHR ''0'', hex_char (of_char c div 16), hex_char (of_char c mod 16)]"
      using code by (simp add: escape_char_def sprintf_u04x_def Let_def)
    ultimately show ?thesis using h by (simp add: minify_copy IH del: minify_string_loop.simps)
  next
    case plain
    then have "c \<noteq> CHR 0x22" "c \<noteq> CHR 0x5C" by (auto simp: short_escape_def)
    moreover have "escape_char c = [c]" using plain by (simp add: escape_char_def)
    ultimately show ?thesis by (simp add: minify_copy IH del: minify_string_loop.simps)
  qed
qed simp

lemma minify_quoted: "closes s \<Longrightarrow> cJSON_Minify (quoted s @ rest) = quoted s @ cJSON_Minify rest"
  by (simp add: quoted_def cJSON_Minify.simps(2) minify_string_def minify_string_text del: minify_string_loop.simps)

lemma minify_number:
  assumes "is_double x"
  shows "cJSON_Minify (number_text x @ rest) = number_text x @ cJSON_Minify rest"
proof (rule minify_plains)
  obtain P where "0 < P" "number_text x = printf_g P x" using number_text_double(2) [OF assms] by blast
  with printf_g_chars [of P x] have "\<forall>c \<in> set (number_text x). number_char c" by simp
  then show "\<forall>c \<in> set (number_text x). c \<notin> {CHR '' '', CHR 0x09, CHR 0x0D, CHR 0x0A, CHR ''/'', CHR 0x22}"
    by (auto simp: number_char_def is_digit_def)
qed

text \<open>No string and no key of a tree ends in a backslash.\<close>

fun json_closes :: "json \<Rightarrow> bool" where
  "json_closes (JText s) = closes s"
| "json_closes (JArray xs) = (\<forall>x \<in> set xs. json_closes x)"
| "json_closes (JObject ps) = (\<forall>p \<in> set ps. closes (fst p) \<and> json_closes (snd p))"
| "json_closes _ = True"

lemma minify_texts:
  shows "finite_json j \<Longrightarrow> json_closes j \<Longrightarrow>
      cJSON_Minify (json_text True d j @ rest) = json_text False d j @ cJSON_Minify rest"
    and "\<forall>x \<in> set xs. finite_json x \<and> json_closes x \<Longrightarrow>
      cJSON_Minify (elements_text True d xs @ rest) = elements_text False d xs @ cJSON_Minify rest"
    and "\<forall>p \<in> set ps. finite_json (snd p) \<and> closes (fst p) \<and> json_closes (snd p) \<Longrightarrow>
      cJSON_Minify (members_text True d ps @ rest) = members_text False d ps @ cJSON_Minify rest"
proof (induction "True" d j and "True" d xs and "True" d ps arbitrary: rest and rest and rest
    rule: json_text_elements_text_members_text.induct)
qed (auto simp: minify_plain minify_quoted minify_number)

lemma minify_text:
  assumes "finite_json j" and "json_closes j"
  shows "cJSON_Minify (json_text True d j) = json_text False d j"
  using minify_texts(1) [OF assms, of d "[]"] by simp

text \<open>
  C14: minifying what the printer wrote with formatting gives what it writes without: for a tree
  of finite doubles and NUL-free strings, none of which ends in a backslash, both texts are
  produced and \<open>cJSON_Minify\<close> turns the first into the second.\<close>

theorem cjson_minify_print:
  assumes "finite_json j" and "json_closes j" and "length (json_text True 0 j) + 2 \<le> INT_MAX"
  shows "\<exists>t. print A j True = Inr (Some t) \<and> print A j False = Inr (Some (cJSON_Minify t))"
proof -
  have "length (json_text False 0 j) + 2 \<le> INT_MAX"
    using length_minify [of "json_text True 0 j"] minify_text [OF assms(1,2)] assms(3) by simp
  then show ?thesis
    using print_text [OF finite_printable [OF assms(1)]] assms(3) minify_text [OF assms(1,2)] by simp
qed

theorem cjson_minify_print_witness:
  "\<exists>t. print \<lparr>reallocates = False, fresh = (\<lambda>_. CHR ''?'')\<rparr>
        (JObject [(''a'', JArray [JNull, JBool True]), (''b'', JText ''/ c'')]) True = Inr (Some t) \<and>
    print \<lparr>reallocates = False, fresh = (\<lambda>_. CHR ''?'')\<rparr>
        (JObject [(''a'', JArray [JNull, JBool True]), (''b'', JText ''/ c'')]) False = Inr (Some (cJSON_Minify t))"
  by (rule cjson_minify_print) (simp_all add: INT_MAX_def quoted_def escape_char_def short_escape_def closes_def)

text \<open>
  Behind a string that ends in a backslash the quotes change their roles: blanks of the next
  string go, and a text that was valid need not stay so.
\<close>

lemma minify_backslash:
  "cJSON_Minify (json_text False 0 (JArray [JText [CHR 0x5C], JText ''x y''])) =
     json_text False 0 (JArray [JText [CHR 0x5C], JText ''xy''])"
  by (simp add: quoted_def escape_char_def short_escape_def cJSON_Minify.simps(2) minify_string_def)

end
