(* ===== verification/LD_Lifecycle.thy ===== *)
theory LD_Lifecycle
  imports LD_Network
begin

text \<open>
  The start and the end of a client: the wait of \<open>LDClientInit\<close> for the store, the shutdown of
  \<open>LDClientClose\<close> with the end of the network thread, and the clock and sleep functions of
  c-sdk-common/src/utility.c they use. What the other threads do to the client and what the clock
  says in a pass of a loop are arguments.
\<close>

section \<open>Clock and sleep\<close>

definition LDi_timeSpecToMilliseconds :: "int \<Rightarrow> int \<Rightarrow> rat" where
  "LDi_timeSpecToMilliseconds tv_sec tv_nsec =
     to_double (to_double (to_double (of_int tv_sec) * 1000) + to_double (to_double (of_int tv_nsec) / 1000000))"

definition clock_milliseconds :: "(int \<times> int) option \<Rightarrow> rat run" where
  "clock_milliseconds ts =
     (case ts of None \<Rightarrow> Inl Assertion | Some (sec, nsec) \<Rightarrow> Inr (LDi_timeSpecToMilliseconds sec nsec))"

definition LDi_getMonotonicMilliseconds :: "(int \<times> int) option \<Rightarrow> rat run" where
  "LDi_getMonotonicMilliseconds monotonic = clock_milliseconds monotonic"

definition LDi_getUnixMilliseconds :: "(int \<times> int) option \<Rightarrow> rat run" where
  "LDi_getUnixMilliseconds realtime = clock_milliseconds realtime"

text \<open>What \<open>usleep\<close> reports for a number of microseconds.\<close>

datatype sleep = Slept | Interrupted | Failed

definition LDi_sleepMilliseconds :: "(nat \<Rightarrow> sleep) \<Rightarrow> nat \<Rightarrow> bool run" where
  "LDi_sleepMilliseconds usleep milliseconds =
     (let usec = (if milliseconds \<ge> 1000 then 999999 else milliseconds * 1000) in
      case usleep usec of Slept \<Rightarrow> Inr True | Interrupted \<Rightarrow> Inr False | Failed \<Rightarrow> Inl Assertion)"

section \<open>Start\<close>

text \<open>
  A pass of the wait: what the others did to the client before it, the time of the look at the
  store, the sleep, and the time after it.
\<close>

record 'b wait_pass =
  wp_others :: "'b LDClient \<Rightarrow> 'b LDClient"
  wp_look :: rat
  wp_usleep :: "nat \<Rightarrow> sleep"
  wp_clock :: "(int \<times> int) option"

fun wait_initialized :: "rat \<Rightarrow> u32 \<Rightarrow> 'b wait_pass list \<Rightarrow> 'b LDClient \<Rightarrow> 'b LDClient run" where
  "wait_initialized start maxwaitmilli [] client = Inl OutOfFuel"
| "wait_initialized start maxwaitmilli (p # ps) client0 =
     (let client = wp_others p client0;
          (ready, store) = LDStoreInitialized (cl_store client) (wp_look p);
          client = client\<lparr>cl_store := store\<rparr>
      in if ready then Inr client
         else
           run_bind (LDi_sleepMilliseconds (wp_usleep p) 5) (\<lambda>_.
           run_bind (LDi_getMonotonicMilliseconds (wp_clock p)) (\<lambda>now.
             if to_double (now - start) < uint_to_double maxwaitmilli
             then wait_initialized start maxwaitmilli ps client
             else Inr client)))"

definition client_start ::
    "'b LDStoreInterface LDConfig option \<Rightarrow> u32 \<Rightarrow> rat \<Rightarrow> (int \<times> int) option \<Rightarrow> 'b wait_pass list \<Rightarrow>
     'b LDClient option run" where
  "client_start config maxwaitmilli monotonic clock passes =
     (case LDClientInit config monotonic of
        None \<Rightarrow> Inr None
      | Some client \<Rightarrow>
          if maxwaitmilli = 0 then Inr (Some client)
          else
            run_bind (LDi_getMonotonicMilliseconds clock) (\<lambda>start.
            run_bind (wait_initialized start maxwaitmilli passes client) (\<lambda>client. Inr (Some client))))"

text \<open>
  A pass that goes on: neither the sleep nor the clock fails, and the clock is \<open>d\<close> milliseconds
  behind the start.
\<close>

definition pass_at :: "rat \<Rightarrow> rat \<Rightarrow> 'b wait_pass \<Rightarrow> bool" where
  "pass_at start d p \<longleftrightarrow> wp_usleep p 5000 \<noteq> Failed \<and>
     (\<exists>sec nsec. wp_clock p = Some (sec, nsec) \<and> start + d \<le> LDi_timeSpecToMilliseconds sec nsec)"

lemma wait_initialized_returns:
  assumes "\<forall>k < length ps. pass_at start (of_nat (Suc (n + k)) * 5) (ps ! k)"
    and "uint_to_double maxwaitmilli \<le> of_nat (n + length ps) * 5" and "ps \<noteq> []"
  shows "returns (wait_initialized start maxwaitmilli ps client)"
  using assms
proof (induction ps arbitrary: n client)
  case (Cons p ps)
  from Cons.prems(1) have "pass_at start (of_nat (Suc n) * 5) p" by force
  then obtain sec nsec where p: "wp_usleep p 5000 \<noteq> Failed" "wp_clock p = Some (sec, nsec)"
      "start + of_nat (Suc n) * 5 \<le> LDi_timeSpecToMilliseconds sec nsec"
    by (auto simp: pass_at_def)
  have sleep: "returns (LDi_sleepMilliseconds (wp_usleep p) 5)"
    using p(1) by (cases "wp_usleep p 5000") (simp_all add: LDi_sleepMilliseconds_def)
  let ?now = "LDi_timeSpecToMilliseconds sec nsec"
  have rest: "to_double (?now - start) < uint_to_double maxwaitmilli \<Longrightarrow>
      returns (wait_initialized start maxwaitmilli ps cl)" for cl
  proof (cases "ps = []")
    case True
    assume less: "to_double (?now - start) < uint_to_double maxwaitmilli"
    from Cons.prems(2) p(3) have "uint_to_double maxwaitmilli \<le> ?now - start" by (simp add: True)
    then have "uint_to_double maxwaitmilli \<le> to_double (?now - start)"
      using uint_lt2p [of maxwaitmilli] unfolding uint_to_double_def by (intro to_double_ge_int) simp_all
    with less show ?thesis by simp
  next
    case False
    have "\<forall>k < length ps. pass_at start (of_nat (Suc (Suc n + k)) * 5) (ps ! k)"
      using Cons.prems(1) by force
    with False Cons.prems(2) show ?thesis by (intro Cons.IH [of "Suc n"]) simp_all
  qed
  show ?case
    using rest p(2) sleep
    by (auto simp: Let_def LDi_getMonotonicMilliseconds_def clock_milliseconds_def returns_bind split: prod.splits
      intro!: returns_bind)
qed simp

section \<open>End\<close>

text \<open>
  The flag is set, the thread runs its passes until it sees the flag and destroys its
  interfaces, and then everything is freed. Joining a thread that goes on blocks.
\<close>

definition LDClientClose :: "world \<Rightarrow> curl \<Rightarrow> 'b turn list \<Rightarrow> 'b network \<Rightarrow> bool run" where
  "LDClientClose W C turns nw =
     (let nw = nw\<lparr>nw_client := (nw_client nw)\<lparr>shuttingdown := True\<rparr>\<rparr> in
      run_bind (network_loop W turns nw) (\<lambda>(running, nw).
      if running then Inl Blocked
      else run_bind (destroy_all C (interfaces (cl_config (nw_client nw))) nw) (\<lambda>_. Inr True)))"

definition headers_live :: "'b network \<Rightarrow> bool" where
  "headers_live nw \<longleftrightarrow> pc_headers (nw_polling nw) \<noteq> FreedList \<and> sc_headers (nw_stream nw) \<noteq> FreedList \<and>
     ac_headers (nw_analytics nw) \<noteq> FreedList"

lemma free_live_headers: "headers \<noteq> FreedList \<Longrightarrow> curl_slist_free_all headers = Inr ()"
  by (cases headers) simp_all

lemma destroy_all_returns: "headers_live nw \<Longrightarrow> destroy_all C is nw = Inr ()"
  by (induction "is") (auto simp: headers_live_def poll_resetMemory_def stream_resetMemory_def
    analytics_resetMemory_def free_live_headers split: iface.splits)

text \<open>Closing ends with the next pass of the thread, whatever requests are outstanding.\<close>

lemma client_close_returns:
  assumes "shuttingdown (tn_others t ((nw_client nw)\<lparr>shuttingdown := True\<rparr>))" and "headers_live nw"
  shows "LDClientClose W C (t # turns) nw = Inr True"
  using assms destroy_all_returns [of "nw\<lparr>nw_client := tn_others t ((nw_client nw)\<lparr>shuttingdown := True\<rparr>)\<rparr>" C]
  by (simp add: LDClientClose_def network_turn_def headers_live_def Let_def)

text \<open>
  A client is there at the latest when the time to wait is over: each pass sleeps five
  milliseconds, so that a fifth of the time in passes is enough.
\<close>

lemma client_start_returns:
  assumes "clock = Some (sec, nsec)"
    and "\<forall>k < length ps. pass_at (LDi_timeSpecToMilliseconds sec nsec) (of_nat (Suc k) * 5) (ps ! k)"
    and "uint_to_double maxwaitmilli \<le> of_nat (length ps) * 5"
  shows "returns (client_start config maxwaitmilli monotonic clock ps)"
proof (cases "ps = []")
  case True
  with assms(3) have "uint maxwaitmilli \<le> 0"
    by (simp only: uint_to_double_def of_int_le_0_iff list.size of_nat_0 mult_zero_left)
  then have "maxwaitmilli = 0" using uint_ge_0 [of maxwaitmilli] by (intro uint_0_iff [THEN iffD1]) simp
  then show ?thesis by (simp add: client_start_def split: option.split)
next
  case False
  then show ?thesis
    using wait_initialized_returns [of ps "LDi_timeSpecToMilliseconds sec nsec" 0 maxwaitmilli] assms
    by (auto simp: client_start_def LDi_getMonotonicMilliseconds_def clock_milliseconds_def split: option.split
      intro!: returns_bind)
qed

end
