(* ===== verification/LD_Platform.thy ===== *)
theory LD_Platform
  imports LD_Prelude "HOL-Library.Signed_Division"
begin

text \<open>
  The layer between the SDK and the operating system: c-sdk-common/src/concurrency.c over POSIX
  threads, logging.c and memory.c. What a POSIX call returns is an argument. The build defines
  \<open>LAUNCHDARKLY_CONCURRENCY_ABORT\<close>, so that a failed call ends the process; the \<open>nl\<close> variants, which
  the logger itself uses, report it instead.
\<close>

section \<open>Threads and locks\<close>

text \<open>A call on an object that must be there, and the check of its status.\<close>

definition aborting :: "'a option \<Rightarrow> int \<Rightarrow> bool run" where
  "aborting object status =
     run_bind (LD_ASSERT (object \<noteq> None)) (\<lambda>_.
     run_bind (LD_ASSERT (status = 0)) (\<lambda>_. Inr (status = 0)))"

text \<open>The statuses of the calls that set up a mutex, of which the first failure counts.\<close>

record mutex_calls =
  attr_init :: int
  attr_settype :: int
  mutex_create :: int
  attr_destroy :: int

definition mutex_setup :: "mutex_calls \<Rightarrow> int" where
  "mutex_setup calls =
     (if attr_init calls \<noteq> 0 then attr_init calls
      else if attr_settype calls \<noteq> 0 then attr_settype calls
      else if mutex_create calls \<noteq> 0 then mutex_create calls
      else attr_destroy calls)"

definition LDi_thread_join_imp :: "'a option \<Rightarrow> int \<Rightarrow> bool run" where
  "LDi_thread_join_imp thread status = aborting thread status"

definition LDi_thread_create_imp :: "'a option \<Rightarrow> 'r option \<Rightarrow> int \<Rightarrow> bool run" where
  "LDi_thread_create_imp thread routine status =
     run_bind (LD_ASSERT (thread \<noteq> None)) (\<lambda>_. aborting routine status)"

definition LDi_mutex_init_imp :: "'a option \<Rightarrow> mutex_calls \<Rightarrow> bool run" where
  "LDi_mutex_init_imp mutex calls = aborting mutex (mutex_setup calls)"

definition LDi_mutex_init_nl_imp :: "mutex_calls \<Rightarrow> bool" where
  "LDi_mutex_init_nl_imp calls = (mutex_setup calls = 0)"

definition LDi_mutex_destroy_imp :: "'a option \<Rightarrow> int \<Rightarrow> bool run" where
  "LDi_mutex_destroy_imp mutex status = aborting mutex status"

definition LDi_mutex_destroy_nl_imp :: "int \<Rightarrow> bool" where
  "LDi_mutex_destroy_nl_imp status = (status = 0)"

definition LDi_mutex_lock_imp :: "'a option \<Rightarrow> int \<Rightarrow> bool run" where
  "LDi_mutex_lock_imp mutex status = aborting mutex status"

definition LDi_mutex_lock_nl_imp :: "int \<Rightarrow> bool" where
  "LDi_mutex_lock_nl_imp status = (status = 0)"

definition LDi_mutex_unlock_imp :: "'a option \<Rightarrow> int \<Rightarrow> bool run" where
  "LDi_mutex_unlock_imp mutex status = aborting mutex status"

definition LDi_mutex_unlock_nl_imp :: "int \<Rightarrow> bool" where
  "LDi_mutex_unlock_nl_imp status = (status = 0)"

definition LDi_rwlock_init_imp :: "'a option \<Rightarrow> int \<Rightarrow> bool run" where
  "LDi_rwlock_init_imp lock status = aborting lock status"

definition LDi_rwlock_destroy_imp :: "'a option \<Rightarrow> int \<Rightarrow> bool run" where
  "LDi_rwlock_destroy_imp lock status = aborting lock status"

definition LDi_rwlock_rdlock_imp :: "'a option \<Rightarrow> int \<Rightarrow> bool run" where
  "LDi_rwlock_rdlock_imp lock status = aborting lock status"

definition LDi_rwlock_wrlock_imp :: "'a option \<Rightarrow> int \<Rightarrow> bool run" where
  "LDi_rwlock_wrlock_imp lock status = aborting lock status"

definition LDi_rwlock_rdunlock_imp :: "'a option \<Rightarrow> int \<Rightarrow> bool run" where
  "LDi_rwlock_rdunlock_imp lock status = aborting lock status"

definition LDi_rwlock_wrunlock_imp :: "'a option \<Rightarrow> int \<Rightarrow> bool run" where
  "LDi_rwlock_wrunlock_imp lock status = aborting lock status"

definition LDi_cond_init_imp :: "'a option \<Rightarrow> int \<Rightarrow> bool run" where
  "LDi_cond_init_imp cond status = aborting cond status"

definition LDi_cond_signal_imp :: "'a option \<Rightarrow> int \<Rightarrow> bool run" where
  "LDi_cond_signal_imp cond status = aborting cond status"

definition LDi_cond_destroy_imp :: "'a option \<Rightarrow> int \<Rightarrow> bool run" where
  "LDi_cond_destroy_imp cond status = aborting cond status"

text \<open>
  A wait with a deadline: the time is advanced by the milliseconds with C's division and
  remainder, and the nanoseconds are carried.
\<close>

definition cond_deadline :: "int \<times> int \<Rightarrow> int \<Rightarrow> int \<times> int" where
  "cond_deadline ts milliseconds =
     (let sec = fst ts + milliseconds sdiv 1000;
          nsec = snd ts + milliseconds smod 1000 * 1000 * 1000
      in if nsec > 1000 * 1000 * 1000 then (sec + 1, nsec - 1000 * 1000 * 1000) else (sec, nsec))"

definition ETIMEDOUT :: int where
  "ETIMEDOUT = 110"

definition LDi_cond_wait_imp ::
    "'c option \<Rightarrow> 'a option \<Rightarrow> (int \<times> int) option \<Rightarrow> (int \<times> int \<Rightarrow> int) \<Rightarrow> int \<Rightarrow> bool run" where
  "LDi_cond_wait_imp cond mutex clock timedwait milliseconds =
     run_bind (LD_ASSERT (cond \<noteq> None)) (\<lambda>_.
     aborting mutex
       (case clock of
          None \<Rightarrow> 1
        | Some ts \<Rightarrow>
            let status = timedwait (cond_deadline ts milliseconds) in
            if status = ETIMEDOUT then 0 else status))"

text \<open>A failure never reaches the callers: the wrappers come back with success or not at all.\<close>

lemma aborting_true: "aborting object status = Inr b \<Longrightarrow> b \<and> object \<noteq> None \<and> status = 0"
  by (auto simp: aborting_def run_simps)

lemmas wrapper_defs = LDi_thread_join_imp_def LDi_thread_create_imp_def LDi_mutex_init_imp_def
  LDi_mutex_destroy_imp_def LDi_mutex_lock_imp_def LDi_mutex_unlock_imp_def LDi_rwlock_init_imp_def
  LDi_rwlock_destroy_imp_def LDi_rwlock_rdlock_imp_def LDi_rwlock_wrlock_imp_def LDi_rwlock_rdunlock_imp_def
  LDi_rwlock_wrunlock_imp_def LDi_cond_init_imp_def LDi_cond_signal_imp_def LDi_cond_destroy_imp_def
  LDi_cond_wait_imp_def

lemma cond_wait_succeeds_or_aborts:
  "LDi_cond_wait_imp cond mutex clock timedwait milliseconds = Inr b \<Longrightarrow> b"
  by (auto simp: LDi_cond_wait_imp_def run_simps dest: aborting_true)

section \<open>Deadlines\<close>

abbreviation valid_time :: "int \<times> int \<Rightarrow> bool" where
  "valid_time ts \<equiv> 0 \<le> snd ts \<and> snd ts < 1000000000"

abbreviation nanos :: "int \<times> int \<Rightarrow> int" where
  "nanos ts \<equiv> fst ts * 1000000000 + snd ts"

text \<open>
  The deadline is the time asked for; it is a valid time except when the nanoseconds add up to
  a second exactly, which the carry overlooks.
\<close>

lemma cond_deadline_time:
  assumes "valid_time ts" and "0 \<le> milliseconds"
  shows "nanos (cond_deadline ts milliseconds) = nanos ts + milliseconds * 1000000"
    and "valid_time (cond_deadline ts milliseconds) \<longleftrightarrow> snd ts + milliseconds mod 1000 * 1000000 \<noteq> 1000000000"
proof -
  have s: "milliseconds sdiv 1000 = milliseconds div 1000" "milliseconds smod 1000 = milliseconds mod 1000"
    using assms(2) by (auto simp: signed_divide_int_def signed_modulo_int_def sgn_if minus_div_mult_eq_mod)
  have m: "milliseconds * 1000000 = milliseconds div 1000 * 1000000000 + milliseconds mod 1000 * 1000000"
    using div_mult_mod_eq [of milliseconds 1000] by linarith
  have r: "0 \<le> milliseconds mod 1000" "milliseconds mod 1000 < 1000" by simp_all
  show "nanos (cond_deadline ts milliseconds) = nanos ts + milliseconds * 1000000"
    using m by (auto simp: cond_deadline_def s Let_def algebra_simps)
  show "valid_time (cond_deadline ts milliseconds) \<longleftrightarrow> snd ts + milliseconds mod 1000 * 1000000 \<noteq> 1000000000"
    using assms(1) r by (auto simp: cond_deadline_def s Let_def)
qed

text \<open>A wait for half a second that starts in the middle of a second: \<open>pthread_cond_timedwait\<close> refuses it.\<close>

lemma cond_deadline_invalid: "cond_deadline (7, 500000000) 500 = (7, 1000000000)"
  by (simp add: cond_deadline_def signed_divide_int_def signed_modulo_int_def)

section \<open>Logging\<close>

datatype LDLogLevel =
    LD_LOG_FATAL | LD_LOG_CRITICAL | LD_LOG_ERROR | LD_LOG_WARNING | LD_LOG_INFO | LD_LOG_DEBUG | LD_LOG_TRACE

fun level_number :: "LDLogLevel \<Rightarrow> nat" where
  "level_number LD_LOG_FATAL = 0"
| "level_number LD_LOG_CRITICAL = 1"
| "level_number LD_LOG_ERROR = 2"
| "level_number LD_LOG_WARNING = 3"
| "level_number LD_LOG_INFO = 4"
| "level_number LD_LOG_DEBUG = 5"
| "level_number LD_LOG_TRACE = 6"

fun LDLogLevelToString :: "LDLogLevel \<Rightarrow> string" where
  "LDLogLevelToString LD_LOG_FATAL = ''LD_LOG_FATAL''"
| "LDLogLevelToString LD_LOG_CRITICAL = ''LD_LOG_CRITICAL''"
| "LDLogLevelToString LD_LOG_ERROR = ''LD_LOG_ERROR''"
| "LDLogLevelToString LD_LOG_WARNING = ''LD_LOG_WARNING''"
| "LDLogLevelToString LD_LOG_INFO = ''LD_LOG_INFO''"
| "LDLogLevelToString LD_LOG_DEBUG = ''LD_LOG_DEBUG''"
| "LDLogLevelToString LD_LOG_TRACE = ''LD_LOG_TRACE''"

text \<open>The logger, a function from level and text to what it writes, and its level.\<close>

record logger =
  sdklogger :: "(LDLogLevel \<Rightarrow> string \<Rightarrow> string) option"
  sdkloggerlevel :: LDLogLevel

definition initial_logger :: logger where
  "initial_logger = \<lparr>sdklogger = None, sdkloggerlevel = LD_LOG_INFO\<rparr>"

definition LDConfigureGlobalLogger :: "LDLogLevel \<Rightarrow> (LDLogLevel \<Rightarrow> string \<Rightarrow> string) option \<Rightarrow> logger" where
  "LDConfigureGlobalLogger level log_fn = \<lparr>sdklogger = log_fn, sdkloggerlevel = level\<rparr>"

definition LDBasicLogger :: "LDLogLevel \<Rightarrow> string \<Rightarrow> string" where
  "LDBasicLogger level msg = ''['' @ LDLogLevelToString level @ ''] '' @ msg @ [CHR 0x0A]"

definition LDBasicLoggerThreadSafe :: "int \<Rightarrow> LDLogLevel \<Rightarrow> string \<Rightarrow> string" where
  "LDBasicLoggerThreadSafe locked level msg =
     (if \<not> LDi_mutex_lock_nl_imp locked then [] else LDBasicLogger level msg)"

text \<open>The formatted message, cut to the buffer.\<close>

definition LDi_log :: "logger \<Rightarrow> LDLogLevel \<Rightarrow> string option \<Rightarrow> string" where
  "LDi_log state level formatted =
     (case (formatted, sdklogger state) of
        (Some msg, Some log_fn) \<Rightarrow>
          if level_number level > level_number (sdkloggerlevel state) then []
          else log_fn level (take 4095 msg)
      | _ \<Rightarrow> [])"

text \<open>The basic logger writes exactly the messages at or above its level, each on one line.\<close>

lemma basic_log_lines:
  "LDi_log (LDConfigureGlobalLogger limit (Some LDBasicLogger)) level (Some msg) =
     (if level_number level \<le> level_number limit
      then ''['' @ LDLogLevelToString level @ ''] '' @ take 4095 msg @ [CHR 0x0A] else [])"
  by (simp add: LDi_log_def LDConfigureGlobalLogger_def LDBasicLogger_def)

section \<open>Memory\<close>

text \<open>\<open>n\<close> bytes are copied from the string and its terminator, whether they are there or not.\<close>

definition LDi_strndup :: "string \<Rightarrow> nat \<Rightarrow> string run" where
  "LDi_strndup str n =
     (if n > length str + 1 then Inl OutOfBounds else Inr (cstr (take n (str @ [CHR 0x00]) @ [CHR 0x00])))"

lemma strndup_prefix:
  "CHR 0x00 \<notin> set str \<Longrightarrow> n \<le> length str \<Longrightarrow> LDi_strndup str n = Inr (take n str)"
  by (auto simp: LDi_strndup_def dest: in_set_takeD intro!: cstr_append)

end
