(* ===== verification/Spec2Isabelle.thy ===== *)
theory Spec2Isabelle
  imports LD_Variations_Laws LD_Network_Laws LD_Redis LD_Libraries LD_Base64
    LD_JSON_Calls LD_CJSON_Minify LD_Lifecycle LD_Platform
begin

text \<open>
  Verification of the LaunchDarkly server-side SDK for C.

  \<^bold>\<open>The program.\<close> An application creates a configuration and a client (src/config.c,
  src/client.c). A network thread (src/network.c) fetches flags and segments, by a stream of
  server-sent events (src/streaming.c with c-sdk-common/src/sse.c) or by polling
  (src/polling.c), and puts them into the feature store (src/store.c), which may cache a
  persistent backend. The application asks for the variation of a flag for a user
  (src/variations.c, c-sdk-common/src/user.c); the flag is evaluated (src/evaluate.c) with clause
  operators (src/operator.c), SHA-1 buckets (third-party/src/sha1.c, hexify.c), segments and
  prerequisites; the evaluation is recorded by the event processor (src/event_processor.c, with
  the user-key cache src/lru.c), whose queue the network thread delivers (src/events.c). All data
  are JSON trees (c-sdk-common/src/json.c over the vendored cJSON.c).

  \<^bold>\<open>Theories and what they model.\<close>
  \<^item> \<open>LD_Prelude\<close>: outcomes of C code (a fault or a result), machine integers and their
    conversions, \<open>printf\<close> of numbers, first-match association lists, and the locale
    \<open>keyed_container\<close>. \<open>LD_Numeric\<close>: \<open>float\<close> and \<open>double\<close> rounding over rationals.
  \<^item> \<open>LD_JSON\<close>: json.c and the comparison of cJSON.c. Interprets \<open>keyed_container\<close> for objects.
  \<^item> \<open>LD_LRU\<close>: lru.c. \<open>LD_Config\<close>: config.c. \<open>LD_User\<close>: user.c, with the redacted JSON form.
  \<^item> \<open>LD_SHA1\<close>: sha1.c and hexify.c against FIPS 180. \<open>LD_Operators\<close>: operator.c and
    timestamp_compare.c; the record \<open>env\<close> of library parameters.
  \<^item> \<open>LD_Store\<close>: store.c. Interprets \<open>keyed_container\<close> for the cache table and the locale
    \<open>versioned_store\<close>, the contract of the store with its clients, for the memory store.
  \<^item> \<open>LD_Bucket\<close>, \<open>LD_Details\<close>, \<open>LD_Evaluate\<close>: evaluate.c and the evaluation details of
    variations.c. \<open>LD_Evaluate_Laws\<close>: their properties.
  \<^item> \<open>LD_Events\<close>, \<open>LD_Events_Laws\<close>: event_processor.c and its properties.
  \<^item> \<open>LD_Client\<close>, \<open>LD_Variations\<close>, \<open>LD_Variations_Laws\<close>: client.c, the calls of variations.c and
    their properties, which join store, evaluation and event processor.
  \<^item> \<open>LD_SSE\<close>: sse.c. \<open>LD_Request\<close>: the preparation of requests in network.c, random numbers of
    utility.c. \<open>LD_Streaming\<close>, \<open>LD_Streaming_Laws\<close>: streaming.c. \<open>LD_Polling\<close>: polling.c.
    \<open>LD_Delivery\<close>: the interface of events.c. \<open>LD_Network\<close>, \<open>LD_Network_Laws\<close>: the thread of
    network.c; the locale \<open>network_interface\<close> is the contract between the loop and its three
    interfaces, interpreted for each of them.
  \<^item> \<open>LD_Lifecycle\<close>: the wait of \<open>LDClientInit\<close> for the store and \<open>LDClientClose\<close> with the end of the thread.
    \<open>LD_Platform\<close>: the POSIX wrappers of concurrency.c, logging.c and memory.c.
  \<^item> \<open>LD_Redis\<close>: the persistent store of stores/redis/src/redis.c over a Redis server.
  \<^item> \<open>LD_CJSON\<close>, \<open>LD_CJSON_Print\<close>: the parser and the printer of cJSON.c on buffers, down to each byte
    read and written. \<open>LD_Decimal\<close>: \<open>strtod\<close> and \<open>printf\<close> of a \<open>double\<close>, with \<open>LD_Decimal_Laws\<close>
    on their round trip. \<open>LD_CJSON_Laws\<close>, \<open>LD_CJSON_Print_Laws\<close>, \<open>LD_CJSON_Roundtrip\<close>: what they
    promise. \<open>LD_CJSON_Minify\<close>: \<open>cJSON_Minify\<close>.
  \<^item> \<open>LD_CJSON_Heap\<close>, \<open>LD_JSON_Heap\<close>: the linked nodes of cJSON.c in memory and the functions of json.c
    on them. \<open>LD_CJSON_Heap_Laws\<close>, \<open>LD_CJSON_Heap_Copy\<close>: one rule for each operation on nodes.
    \<open>LD_JSON_Heap_Laws\<close>: the functions of json.c implement those of \<open>LD_JSON\<close>. \<open>LD_JSON_Calls\<close>: sequences
    of such calls; the locale \<open>total_simulation\<close> is the contract of an implementation that never faults
    with its specification, interpreted for memory and values.
  \<^item> \<open>LD_Timestamp\<close>: timestamp_parse.c against the Gregorian calendar. \<open>LD_Semver\<close>: semver.c; the locale
    \<open>comparison\<close> is the contract of a comparison function, interpreted from integers up to versions.
    \<open>LD_Base64\<close>: base64.c.
  \<^item> \<open>LD_Libraries\<close>: the parameters \<open>env\<close> of the client instantiated with these libraries, and the
    properties of stream, operators and summary counters that depend on them. The specifications they
    are compared with, the Gregorian calendar and the precedence of SemVer, are definitions of their
    own that use nothing of the code.

  \<^bold>\<open>How the code is rendered.\<close> Definitions carry the names of the C functions. A struct is a
  record, an enum a datatype, \<open>unsigned int\<close> a 32-bit word, \<open>unsigned long\<close> a 64-bit word, a
  \<open>double\<close> the rational it denotes (operations round; infinity is \<open>2\<^sup>1\<^sup>0\<^sup>2\<^sup>4\<close>), a pointer that may be \<open>NULL\<close> an option. A
  function that can fail an assertion, follow \<open>NULL\<close>, convert out of range, overflow a signed
  integer, read memory never written, access memory outside an object, use freed memory or wait
  for ever returns \<open>'a run\<close>. The build is the default one: assertions on,
  defensive checks on. State is passed explicitly; each operation holds the lock of its component
  in the code and is one step here. The network thread is a function from the list of its turns
  (what libcurl, the clocks and other threads do in a pass) to its state. Clock readings and random
  numbers are arguments. Allocation succeeds, except in lru.c, where its failure is an argument.

  \<^bold>\<open>Bounds.\<close> The only recursion of the code without a structural bound is that of prerequisites;
  \<open>LDi_evaluate\<close> takes a depth. \<open>evaluate_fuel_irrelevant\<close> shows that more depth never changes an
  answer, \<open>evaluate_total\<close> that for acyclic data the rank of the flag is enough, and
  \<open>self_prerequisite_diverges\<close> that for a cycle none is. The repetition of a Redis upsert that met
  a conflict takes a number of attempts; undisturbed, the first one succeeds. The JSON parser, whose
  depth the code bounds by \<open>CJSON_NESTING_LIMIT\<close>, runs on four units of fuel for every byte of the
  text; \<open>cjson_parse_safe\<close> shows that they suffice for any text. Loops and recursions over linked nodes
  take the number of addresses ever handed out as fuel, which no chain of distinct nodes exceeds:
  \<open>json_calls_refine\<close> shows that it never runs out.

  \<^bold>\<open>What the properties show.\<close>
  \<^item> Calls: a variation call returns what the evaluation selects or the fallback with its reason,
    never aborts, and keeps the invariants; which calls report which error; \<open>LDAllFlags\<close> is
    complete once there is a flag.
  \<^item> Evaluation: totality on well-formed data; off, target, prerequisite and segment rules;
    rollouts by cumulative weight; buckets in the unit interval; SHA-1 is FIPS 180.
  \<^item> Store: both reads agree in every state reached with kinds whose cache keys do not collide;
    updates converge in any order; versions never go back; initialisation, read-through, backend
    failures.
  \<^item> Events: the invariant of the processor; exact counts for each flag, variation and
    version; a flush drains; who is queued; index
    events; redaction of private attributes, all but \<open>anonymous\<close>; the cache as the list of most recent keys.
  \<^item> Network: the stream parser does not depend on chunking and inverts the encoding; updates sent
    as a stream have their effect on the store; reconnection within the documented times; a
    payload is sent at most twice and unchanged; one request per interface.
  \<^item> Text: parsing JSON is safe on any input and returns well-formed trees, printing refines the text
    of a tree, and the two are inverse, numbers and escapes included; the timestamp parser accepts
    the dates of the years 1 to 9999 in the form of RFC 3339 and computes the instant of the Gregorian
    calendar; minifying a formatted text gives the unformatted one; versions with numbers in the range
    of \<open>int\<close> are ordered by the precedence of SemVer 2.0.0; base64 round trip.
  \<^item> Trees in memory: any sequence of json.c calls runs on the nodes without touching freed memory, has
    the result of the calls on values, and leaks no node; every lookup and reader agrees with its
    counterpart on values.
  \<^item> Redis: an upsert keeps the newest version; the connection pool neither blocks nor leaks.
  \<^item> Defects found are theorems about what the code does: debug events never queued, prerequisite
    cycles, unreported store failures, memory errors for missing variations, the parser after a
    broken line, unthrottled reconnection, the flush flag, the failure time, empty poll bodies,
    headers freed twice, deleted features that come back in Redis, and its unchecked replies, the
    timestamp parser reading behind a short text, versions that leak, are rendered wrong or lose
    their high bits, cache keys that collide, all flags of a project without flags,
    strings damaged by \<open>cJSON_Minify\<close>, an array appended to itself.

  \<^bold>\<open>Not modelled.\<close> PCRE: a parameter. libcurl: a parameter that says which calls succeed, with the
  turns of the thread. hiredis and the Redis server: a parameter that answers commands. The client
  is modelled over parameters for the version, timestamp and JSON libraries, so that its theorems
  do not depend on them; the instance that \<open>LD_Libraries\<close> gives treats a read outside a timestamp as a
  refusal. The store takes any backend as a parameter whose operations return; \<open>LD_Redis\<close> shows
  where those of Redis do not. \<open>strptime.c\<close> is not linked, and the Windows branches are not those of the
  build. POSIX threads: the status of each call is an argument; locks and reference counts are not part
  of the state of the components, each of whose operations is one step. The exchange of allocation
  functions in memory.c, as allocation succeeds. The vendored macros of uthash.h and utlist.h: the lists
  and tables they build are lists here. Tests and their utilities.
\<close>

end
